(* ===== verification/Audit_Prelude.thy ===== *)
theory Audit_Prelude
  imports Main "HOL-Library.Word" "HOL-Library.Char_ord" "HOL-Library.List_Lexorder"
    "HOL-Library.Sublist"
begin

text \<open>
  Shared vocabulary of the development: names for Go's basic types, the functions of Go's
  standard library that several components call (package \<open>strings\<close>, \<open>strconv\<close>, \<open>sort\<close>), and the
  generic lemmas the component theories rely on.

  A Go \<open>string\<close> and a \<open>[]byte\<close> are both sequences of bytes and both are modelled as \<^typ>\<open>string\<close>
  (a list of 8-bit characters); Go compares strings byte by byte, which is the lexicographic order
  that \<open>List_Lexorder\<close> and \<open>Char_ord\<close> give to \<^typ>\<open>string\<close>. A Go \<open>error\<close> that is \<open>nil\<close> is \<^term>\<open>None\<close>;
  a pair \<open>(T, error)\<close> is a sum, \<^term>\<open>Inl\<close> carrying the error.
\<close>

unbundle bit_operations_syntax

section \<open>Types and collections of lemmas\<close>

type_synonym bytes = string
type_synonym u8 = "8 word"
type_synonym u64 = "64 word"

named_theorems go_simps \<open>evaluation of the models of Go's standard library\<close>

section \<open>Package strings\<close>

text \<open>\<open>strings.HasPrefix\<close>, \<open>strings.CutPrefix\<close> and \<open>strings.CutSuffix\<close>.\<close>

definition HasPrefix :: "string \<Rightarrow> string \<Rightarrow> bool" where
  "HasPrefix s p \<longleftrightarrow> take (length p) s = p"

definition CutPrefix :: "string \<Rightarrow> string \<Rightarrow> string option" where
  "CutPrefix s p = (if HasPrefix s p then Some (drop (length p) s) else None)"

definition HasSuffix :: "string \<Rightarrow> string \<Rightarrow> bool" where
  "HasSuffix s p \<longleftrightarrow> length p \<le> length s \<and> drop (length s - length p) s = p"

definition CutSuffix :: "string \<Rightarrow> string \<Rightarrow> string option" where
  "CutSuffix s p = (if HasSuffix s p then Some (take (length s - length p) s) else None)"

lemma HasPrefix_iff: "HasPrefix s p \<longleftrightarrow> (\<exists>r. s = p @ r)"
  unfolding HasPrefix_def by (metis append_eq_conv_conj append_take_drop_id)

lemma HasPrefix_append [simp]: "HasPrefix (p @ r) p"
  by (simp add: HasPrefix_def)

lemma CutPrefix_append [simp]: "CutPrefix (p @ r) p = Some r"
  by (simp add: CutPrefix_def)

lemma CutPrefix_Some: "CutPrefix s p = Some r \<longleftrightarrow> s = p @ r"
  by (auto simp: CutPrefix_def HasPrefix_iff)

lemma CutSuffix_append [simp]: "CutSuffix (r @ p) p = Some r"
  by (simp add: CutSuffix_def HasSuffix_def)

lemma CutSuffix_Some: "CutSuffix s p = Some r \<longleftrightarrow> s = r @ p"
proof
  assume "CutSuffix s p = Some r"
  then have "drop (length s - length p) s = p" and "r = take (length s - length p) s"
    by (auto simp: CutSuffix_def HasSuffix_def split: if_splits)
  then show "s = r @ p" by (metis append_take_drop_id)
qed simp

text \<open>\<open>strings.Split\<close> at a one-byte separator, and \<open>strings.Join\<close> with it.\<close>

fun Split :: "char \<Rightarrow> string \<Rightarrow> string list" where
  "Split c [] = [[]]"
| "Split c (x # xs) =
     (if x = c then [] # Split c xs
      else (case Split c xs of p # ps \<Rightarrow> (x # p) # ps | [] \<Rightarrow> [[x]]))"

fun Join :: "char \<Rightarrow> string list \<Rightarrow> string" where
  "Join c [] = []"
| "Join c [p] = p"
| "Join c (p # q # ps) = p @ c # Join c (q # ps)"

lemma Split_nonempty [simp]: "Split c s \<noteq> []"
  by (induction s) (auto split: list.splits)

lemma Split_no_sep: "c \<notin> set s \<Longrightarrow> Split c s = [s]"
  by (induction s) auto

lemma Split_append_sep: "c \<notin> set p \<Longrightarrow> Split c (p @ c # s) = p # Split c s"
  by (induction p) auto

lemma Split_Join:
  "ps \<noteq> [] \<Longrightarrow> (\<And>p. p \<in> set ps \<Longrightarrow> c \<notin> set p) \<Longrightarrow> Split c (Join c ps) = ps"
proof (induction c ps rule: Join.induct)
  case (2 c p)
  then show ?case by (simp add: Split_no_sep)
next
  case (3 c p q ps)
  then show ?case by (simp add: Split_append_sep)
qed simp

lemma Join_Split [simp]: "Join c (Split c s) = s"
proof (induction s)
  case (Cons x xs)
  show ?case
  proof (cases "Split c xs")
    case Nil
    then show ?thesis by simp
  next
    case (Cons p ps)
    with Cons.IH show ?thesis by (cases ps) auto
  qed
qed simp

lemma Split_parts_no_sep: "p \<in> set (Split c s) \<Longrightarrow> c \<notin> set p"
proof (induction s arbitrary: p)
  case (Cons x xs)
  then show ?case by (cases "Split c xs") (auto split: if_splits)
qed simp

text \<open>\<open>strings.Contains\<close>, and the lower case of an ASCII byte.\<close>

fun Contains :: "string \<Rightarrow> string \<Rightarrow> bool" where
  "Contains [] sub = (sub = [])"
| "Contains (c # cs) sub = (HasPrefix (c # cs) sub \<or> Contains cs sub)"

definition to_lower :: "char \<Rightarrow> char" where
  "to_lower c = (if CHR ''A'' \<le> c \<and> c \<le> CHR ''Z'' then char_of (of_char c + 32 :: nat) else c)"

section \<open>Lists and lexicographic order\<close>

text \<open>The facts on Go's string comparison that the key order rests on.\<close>

lemma less_append_same [simp]: "(p @ (a::'a::linorder list)) < p @ b \<longleftrightarrow> a < b"
  by (induction p) auto

lemma less_append_diff:
  assumes "(a::'a::linorder list) < b" and "length a = length b"
  shows "a @ u < b @ v"
  using assms
proof (induction a arbitrary: b)
  case (Cons x xs)
  then obtain y ys where b: "b = y # ys" and len: "length xs = length ys"
    by (cases b) auto
  from Cons.prems(1) b have "x < y \<or> x = y \<and> xs < ys" by simp
  with Cons.IH len b show ?case by auto
qed simp

lemma same_length_append_less:
  fixes a b :: "'a::linorder list"
  assumes "length a = length b"
  shows "a @ u < b @ v \<longleftrightarrow> a < b \<or> a = b \<and> u < v"
  using assms
proof (induction a arbitrary: b)
  case (Cons x xs)
  then obtain y ys where "b = y # ys" and "length xs = length ys" by (cases b) auto
  with Cons.IH show ?case by auto
qed simp

section \<open>Positional numerals\<close>

text \<open>
  The number a list of digits writes in base \<open>b\<close>, most significant first. Digit lists of one length
  compare as their numbers do; this is what makes keys sort by time.
\<close>

definition numval :: "nat \<Rightarrow> nat list \<Rightarrow> nat" where
  "numval b ds = foldl (\<lambda>a d. a * b + d) 0 ds"

lemma numval_Nil [simp]: "numval b [] = 0"
  by (simp add: numval_def)

lemma numval_snoc [simp]: "numval b (ds @ [d]) = numval b ds * b + d"
  by (simp add: numval_def)

lemma numval_append: "numval b (ds @ es) = numval b ds * b ^ length es + numval b es"
  by (induction es rule: rev_induct) (simp_all add: algebra_simps flip: append_assoc)

lemma numval_Cons: "numval b (d # ds) = d * b ^ length ds + numval b ds"
  using numval_append [of b "[d]" ds] by (simp add: numval_def)

lemma numval_replicate_0 [simp]: "numval b (replicate n 0) = 0"
  by (induction n) (simp_all add: numval_Cons)

lemma numval_bound: "(\<And>d. d \<in> set ds \<Longrightarrow> d < b) \<Longrightarrow> numval b ds < b ^ length ds"
proof (induction ds)
  case (Cons d ds)
  then have "numval b ds < b ^ length ds" and "Suc d \<le> b" by (auto simp: Suc_le_eq)
  moreover from this(2) have "Suc d * b ^ length ds \<le> b * b ^ length ds" by (rule mult_le_mono1)
  ultimately show ?case by (simp add: numval_Cons)
qed simp

lemma numval_less_iff:
  assumes "length ds = length es" "\<And>d. d \<in> set ds \<union> set es \<Longrightarrow> d < b"
  shows "numval b ds < numval b es \<longleftrightarrow> ds < es"
  using assms
proof (induction ds arbitrary: es)
  case (Cons d ds)
  then obtain e es' where es: "es = e # es'" and len: "length ds = length es'" by (cases es) auto
  have lt: "numval b ds < b ^ length es'" "numval b es' < b ^ length es'"
    using numval_bound [of ds b] numval_bound [of es' b] Cons.prems(2) len es by auto
  have step: "x * B + u < y * B + v" if "x < y" "u < (B::nat)" for x y B u v
  proof -
    from that(1) have "Suc x * B \<le> y * B" by (intro mult_le_mono1) simp
    with that(2) show ?thesis by simp
  qed
  have IH: "numval b ds < numval b es' \<longleftrightarrow> ds < es'"
    using Cons.IH [OF len] Cons.prems(2) es by auto
  show ?case
    using step [of d e _ "b ^ length es'"] step [of e d _ "b ^ length es'"] lt IH es len
    by (cases rule: linorder_cases [of d e]) (auto simp: numval_Cons dest: less_asym)
qed simp

lemma numval_inj:
  assumes "length ds = length es" "\<And>d. d \<in> set ds \<union> set es \<Longrightarrow> d < b" "numval b ds = numval b es"
  shows "ds = es"
  using numval_less_iff [of ds es b] numval_less_iff [of es ds b] assms
  by (metis Un_commute linorder_neq_iff)

lemma map_less_iff:
  assumes "\<And>x y. x \<in> set xs \<union> set ys \<Longrightarrow> y \<in> set xs \<union> set ys \<Longrightarrow> f x < (f y :: 'b::linorder) \<longleftrightarrow> x < (y::'a::linorder)"
  shows "map f xs < map f ys \<longleftrightarrow> xs < ys"
  using assms
proof (induction xs arbitrary: ys)
  case Nil
  then show ?case by (cases ys) auto
next
  case (Cons x xs)
  show ?case
  proof (cases ys)
    case (Cons y zs)
    have "f x = f y \<longleftrightarrow> x = y"
      using Cons.prems [of x y] Cons.prems [of y x] Cons by (auto simp: linorder_neq_iff dest: less_imp_neq)
    with Cons.IH [of zs] Cons.prems Cons show ?thesis by auto
  qed simp
qed

section \<open>Package strconv and the verbs of fmt for integers\<close>

definition digit :: "nat \<Rightarrow> char" where
  "digit d = char_of (48 + d)"

definition digit_val :: "char \<Rightarrow> nat" where
  "digit_val c = of_char c - 48"

definition is_digit :: "char \<Rightarrow> bool" where
  "is_digit c \<longleftrightarrow> CHR ''0'' \<le> c \<and> c \<le> CHR ''9''"

text \<open>\<open>strconv.Itoa\<close> on a number that is not negative, and the padding of \<open>%0<w>d\<close>.\<close>

fun itoa :: "nat \<Rightarrow> string" where
  "itoa n = (if n < 10 then [digit n] else itoa (n div 10) @ [digit (n mod 10)])"

declare itoa.simps [simp del]

definition zpad :: "nat \<Rightarrow> nat \<Rightarrow> string" where
  "zpad w n = replicate (w - length (itoa n)) CHR ''0'' @ itoa n"

text \<open>The loop \<open>n = n*10 + int(c-'0')\<close> that reads digits, refusing any other byte.\<close>

fun read_digits :: "nat \<Rightarrow> string \<Rightarrow> nat option" where
  "read_digits n [] = Some n"
| "read_digits n (c # cs) =
     (if c < CHR ''0'' \<or> c > CHR ''9'' then None else read_digits (n * 10 + digit_val c) cs)"

lemma of_char_digit: "d < 10 \<Longrightarrow> (of_char (digit d) :: nat) = 48 + d"
  by (simp add: digit_def of_char_of)

lemma digit_val_digit [simp]: "d < 10 \<Longrightarrow> digit_val (digit d) = d"
  by (simp add: digit_val_def of_char_digit)

lemma is_digit_iff: "is_digit c \<longleftrightarrow> 48 \<le> (of_char c :: nat) \<and> (of_char c :: nat) \<le> 57"
  by (simp add: is_digit_def less_eq_char_def)

lemma is_digit_digit [simp]: "d < 10 \<Longrightarrow> is_digit (digit d)"
  by (simp add: is_digit_iff of_char_digit)

lemma digit_digit_val: "is_digit c \<Longrightarrow> digit (digit_val c) = c"
proof -
  assume "is_digit c"
  then have "48 + (of_char c - 48 :: nat) = of_char c" by (simp add: is_digit_iff)
  then have "digit (digit_val c) = char_of (of_char c :: nat)"
    by (simp only: digit_def digit_val_def)
  then show ?thesis by simp
qed

lemma digit_val_less: "is_digit c \<Longrightarrow> digit_val c < 10"
  by (auto simp: is_digit_iff digit_val_def)

lemma digit_less_iff: "d < 10 \<Longrightarrow> e < 10 \<Longrightarrow> digit d < digit e \<longleftrightarrow> d < e"
  by (simp add: less_char_def of_char_digit)

lemma zero_digit: "CHR ''0'' = digit 0"
proof -
  have "(of_char CHR ''0'' :: nat) = 48 + 0" by simp
  then show ?thesis unfolding digit_def by (metis char_of_char)
qed

lemma itoa_map: "\<exists>ds. itoa n = map digit ds \<and> ds \<noteq> [] \<and> (\<forall>d\<in>set ds. d < 10) \<and> numval 10 ds = n"
proof (induction n rule: itoa.induct)
  case (1 n)
  show ?case
  proof (cases "n < 10")
    case True
    then show ?thesis by (intro exI [of _ "[n]"]) (simp add: itoa.simps [of n] numval_Cons)
  next
    case False
    with "1" obtain ds where "itoa (n div 10) = map digit ds" "ds \<noteq> []" "\<forall>d\<in>set ds. d < 10"
      "numval 10 ds = n div 10" by blast
    with False show ?thesis
      by (intro exI [of _ "ds @ [n mod 10]"]) (auto simp: itoa.simps [of n])
  qed
qed

lemma length_itoa: "n < 10 ^ w \<Longrightarrow> 0 < w \<Longrightarrow> length (itoa n) \<le> w"
proof (induction n arbitrary: w rule: itoa.induct)
  case (1 n)
  show ?case
  proof (cases "n < 10")
    case True
    with "1.prems" show ?thesis by (simp add: itoa.simps [of n])
  next
    case False
    then have "w \<noteq> 1" using "1.prems" by auto
    then obtain v where w: "w = Suc v" "0 < v" using "1.prems"(2) by (cases w) auto
    with "1.prems"(1) have "n div 10 < 10 ^ v" by (simp add: less_mult_imp_div_less mult.commute)
    with "1.IH" [OF False] w False show ?thesis by (simp add: itoa.simps [of n])
  qed
qed

lemma zpad_map:
  assumes "n < 10 ^ w" "0 < w"
  obtains ds where "zpad w n = map digit ds" "length ds = w" "\<And>d. d \<in> set ds \<Longrightarrow> d < 10" "numval 10 ds = n"
proof -
  obtain ds where ds: "itoa n = map digit ds" "\<forall>d\<in>set ds. d < 10" "numval 10 ds = n"
    using itoa_map by blast
  have "length ds \<le> w" using length_itoa [OF assms] ds(1) by simp
  with ds show ?thesis
    by (intro that [of "replicate (w - length ds) 0 @ ds"])
      (auto simp: zpad_def zero_digit numval_append map_replicate)
qed

lemma length_zpad: "n < 10 ^ w \<Longrightarrow> 0 < w \<Longrightarrow> length (zpad w n) = w"
  by (rule zpad_map) auto

lemma zpad_is_digit: "n < 10 ^ w \<Longrightarrow> 0 < w \<Longrightarrow> c \<in> set (zpad w n) \<Longrightarrow> is_digit c"
  by (rule zpad_map [of n w]) auto

lemma zpad_less_iff:
  assumes "m < 10 ^ w" "n < 10 ^ w" "0 < w"
  shows "zpad w m < zpad w n \<longleftrightarrow> m < n"
proof -
  obtain ds es where "zpad w m = map digit ds" "length ds = w" "\<And>d. d \<in> set ds \<Longrightarrow> d < 10" "numval 10 ds = m"
    "zpad w n = map digit es" "length es = w" "\<And>d. d \<in> set es \<Longrightarrow> d < 10" "numval 10 es = n"
    using zpad_map [OF assms(1,3)] zpad_map [OF assms(2,3)] by metis
  moreover from this have "map digit ds < map digit es \<longleftrightarrow> ds < es"
    by (intro map_less_iff digit_less_iff) auto
  moreover from calculation have "numval 10 ds < numval 10 es \<longleftrightarrow> ds < es"
    by (intro numval_less_iff) auto
  ultimately show ?thesis by simp
qed

lemma zpad_inj: "m < 10 ^ w \<Longrightarrow> n < 10 ^ w \<Longrightarrow> 0 < w \<Longrightarrow> zpad w m = zpad w n \<longleftrightarrow> m = n"
  using zpad_less_iff [of m w n] zpad_less_iff [of n w m] by (metis linorder_neq_iff)

lemma read_digits_eq:
  "(\<And>c. c \<in> set cs \<Longrightarrow> is_digit c) \<Longrightarrow>
     read_digits n cs = Some (n * 10 ^ length cs + numval 10 (map digit_val cs))"
proof (induction cs arbitrary: n)
  case (Cons c cs)
  then have "is_digit c" by simp
  then have "\<not> (c < CHR ''0'' \<or> c > CHR ''9'')" by (auto simp: is_digit_def)
  with Cons show ?case by (simp add: numval_Cons algebra_simps)
qed simp

lemma read_digits_Some: "read_digits n cs = Some m \<Longrightarrow> c \<in> set cs \<Longrightarrow> is_digit c"
  by (induction n cs rule: read_digits.induct) (auto simp: is_digit_def split: if_splits)

lemma read_digits_zpad [simp]:
  assumes "n < 10 ^ w" "0 < w"
  shows "read_digits 0 (zpad w n) = Some n"
proof (rule zpad_map [OF assms])
  fix ds assume ds: "zpad w n = map digit ds" "\<And>d. d \<in> set ds \<Longrightarrow> d < 10" "numval 10 ds = n"
  have "map digit_val (map digit ds) = ds" using ds(2) by (simp add: map_idI)
  with ds show ?thesis by (subst read_digits_eq) auto
qed

text \<open>What is read from \<open>w\<close> digits is written back as those digits.\<close>

lemma zpad_read_digits:
  assumes "read_digits 0 cs = Some n" "length cs = w" "0 < w"
  shows "zpad w n = cs" and "n < 10 ^ w"
proof -
  have dig: "is_digit c" if "c \<in> set cs" for c using read_digits_Some [OF assms(1) that] .
  let ?ds = "map digit_val cs"
  have n: "n = numval 10 ?ds" using read_digits_eq [of cs 0] dig assms(1) by simp
  have small: "d < 10" if "d \<in> set ?ds" for d using that dig digit_val_less by auto
  show lt: "n < 10 ^ w" using numval_bound [of ?ds 10] small n assms(2) by simp
  obtain es where es: "zpad w n = map digit es" "length es = w" "\<And>d. d \<in> set es \<Longrightarrow> d < 10" "numval 10 es = n"
    using zpad_map [OF lt assms(3)] by blast
  have "es = ?ds" using es small n assms(2) by (intro numval_inj [where b = 10]) auto
  then show "zpad w n = cs" using es(1) dig digit_digit_val by (simp add: map_idI)
qed

section \<open>Package bits\<close>

text \<open>\<open>bits.Len\<close>: the number of bits needed to write a number.\<close>

fun bits_Len :: "nat \<Rightarrow> nat" where
  "bits_Len n = (if n = 0 then 0 else Suc (bits_Len (n div 2)))"

declare bits_Len.simps [simp del]

lemma bits_Len_bounds: "0 < n \<Longrightarrow> 0 < bits_Len n \<and> 2 ^ (bits_Len n - 1) \<le> n \<and> n < 2 ^ bits_Len n"
proof (induction n rule: bits_Len.induct)
  case (1 n)
  show ?case
  proof (cases "n div 2 = 0")
    case True
    with "1.prems" have "n = 1" by linarith
    then show ?thesis by (simp add: bits_Len.simps [of "Suc 0"] bits_Len.simps [of 0])
  next
    case False
    with "1" have IH: "0 < bits_Len (n div 2)" "2 ^ (bits_Len (n div 2) - 1) \<le> n div 2"
      "n div 2 < 2 ^ bits_Len (n div 2)" by auto
    from IH(1) have "(2::nat) ^ bits_Len (n div 2) = 2 * 2 ^ (bits_Len (n div 2) - 1)"
      by (simp add: power_eq_if)
    with IH(2,3) "1.prems" show ?thesis
      by (simp add: bits_Len.simps [of n]) linarith
  qed
qed

end
