(* ===== verification/Sha256.thy ===== *)
theory Sha256
  imports Audit_Prelude
begin

text \<open>
  Package \<open>crypto/sha256\<close> of Go's standard library, as FIPS 180-4 defines it: the one hash function
  every commitment of the archive is made with (\<open>internal/merkle\<close>, \<open>internal/recobj\<close>,
  \<open>sdk/record\<close>, \<open>internal/writer/composition.go\<close>), and \<open>hex.EncodeToString\<close>. The other theories use
  two facts only: a digest has 32 bytes, and two different inputs with one digest are a
  \<open>collision\<close>.
\<close>

type_synonym u32 = "32 word"

definition rotr32 :: "nat \<Rightarrow> u32 \<Rightarrow> u32" where
  "rotr32 n x = (drop_bit n x) OR (push_bit (32 - n) x)"

definition sha_K :: "u32 list" where
  "sha_K = [
   1116352408, 1899447441, 3049323471, 3921009573, 961987163, 1508970993, 2453635748, 2870763221,
   3624381080, 310598401, 607225278, 1426881987, 1925078388, 2162078206, 2614888103, 3248222580,
   3835390401, 4022224774, 264347078, 604807628, 770255983, 1249150122, 1555081692, 1996064986,
   2554220882, 2821834349, 2952996808, 3210313671, 3336571891, 3584528711, 113926993, 338241895,
   666307205, 773529912, 1294757372, 1396182291, 1695183700, 1986661051, 2177026350, 2456956037,
   2730485921, 2820302411, 3259730800, 3345764771, 3516065817, 3600352804, 4094571909, 275423344,
   430227734, 506948616, 659060556, 883997877, 958139571, 1322822218, 1537002063, 1747873779,
   1955562222, 2024104815, 2227730452, 2361852424, 2428436474, 2756734187, 3204031479, 3329325298]"

definition sha_init :: "u32 list" where
  "sha_init = [1779033703, 3144134277, 1013904242, 2773480762,
               1359893119, 2600822924, 528734635, 1541459225]"

definition sha_pad :: "bytes \<Rightarrow> bytes" where
  "sha_pad m = m @ [char_of (128::int)]
     @ replicate ((119 - length m mod 64) mod 64) (char_of (0::int))
     @ map (\<lambda>i. char_of ((8 * int (length m)) div 256 ^ nat (7 - i) mod 256)) [0..7]"

fun be_words :: "bytes \<Rightarrow> u32 list" where
  "be_words (a # b # c # d # r) =
     word_of_int (((of_char a * 256 + of_char b) * 256 + of_char c) * 256 + of_char d) # be_words r"
| "be_words _ = []"

fun sha_schedule :: "nat \<Rightarrow> u32 list \<Rightarrow> u32 list" where
  "sha_schedule 0 ws = ws"
| "sha_schedule (Suc n) ws =
     (let t = length ws; w15 = ws ! (t - 15); w2 = ws ! (t - 2);
          s0 = rotr32 7 w15 XOR rotr32 18 w15 XOR drop_bit 3 w15;
          s1 = rotr32 17 w2 XOR rotr32 19 w2 XOR drop_bit 10 w2
      in sha_schedule n (ws @ [ws ! (t - 16) + s0 + ws ! (t - 7) + s1]))"

fun sha_rounds :: "(u32 \<times> u32) list \<Rightarrow> u32 \<Rightarrow> u32 \<Rightarrow> u32 \<Rightarrow> u32 \<Rightarrow> u32 \<Rightarrow> u32 \<Rightarrow> u32 \<Rightarrow> u32 \<Rightarrow> u32 list"
where
  "sha_rounds [] a b c d e f g h = [a, b, c, d, e, f, g, h]"
| "sha_rounds ((k, w) # r) a b c d e f g h =
    (let s1 = rotr32 6 e XOR rotr32 11 e XOR rotr32 25 e;
         ch = (e AND f) XOR (NOT e AND g);
         t1 = h + s1 + ch + k + w;
         s0 = rotr32 2 a XOR rotr32 13 a XOR rotr32 22 a;
         mj = (a AND b) XOR (a AND c) XOR (b AND c);
         t2 = s0 + mj
     in sha_rounds r (t1 + t2) a b c (d + t1) e f g)"

definition sha_block :: "u32 list \<Rightarrow> u32 list \<Rightarrow> u32 list" where
  "sha_block hs ws =
     (case hs of
        [a, b, c, d, e, f, g, h] \<Rightarrow>
          map2 (+) hs (sha_rounds (zip sha_K (sha_schedule 48 ws)) a b c d e f g h)
      | _ \<Rightarrow> hs)"

fun sha_blocks :: "nat \<Rightarrow> u32 list \<Rightarrow> u32 list \<Rightarrow> u32 list" where
  "sha_blocks 0 hs ws = hs"
| "sha_blocks (Suc n) hs ws = sha_blocks n (sha_block hs (take 16 ws)) (drop 16 ws)"

definition word_be :: "u32 \<Rightarrow> bytes" where
  "word_be w = map (\<lambda>i. char_of (uint w div 256 ^ nat (3 - i) mod 256)) [0..3]"

definition sha256 :: "bytes \<Rightarrow> bytes" where
  "sha256 m = (let ws = be_words (sha_pad m) in
     concat (map word_be (sha_blocks (length ws div 16) sha_init ws)))"

text \<open>\<open>hex.EncodeToString\<close>: two lower-case digits for each byte.\<close>

definition hex_digit :: "int \<Rightarrow> char" where
  "hex_digit n = ''0123456789abcdef'' ! nat n"

definition hex_EncodeToString :: "bytes \<Rightarrow> string" where
  "hex_EncodeToString b =
     concat (map (\<lambda>c. [hex_digit (of_char c div 16), hex_digit (of_char c mod 16)]) b)"

section \<open>Lengths\<close>

lemma length_sha_rounds: "length (sha_rounds kws a b c d e f g h) = 8"
  by (induction kws arbitrary: a b c d e f g h) (auto simp: Let_def)

lemma length_sha_block: "length hs = 8 \<Longrightarrow> length (sha_block hs ws) = 8"
  by (auto simp: sha_block_def length_sha_rounds split: list.splits)

lemma length_sha_blocks: "length hs = 8 \<Longrightarrow> length (sha_blocks n hs ws) = 8"
  by (induction n arbitrary: hs ws) (auto simp: length_sha_block)

lemma length_word_be: "length (word_be w) = 4"
  by (simp add: word_be_def)

lemma length_sha256 [simp]: "length (sha256 m) = 32"
proof -
  have "length (concat (map word_be ws)) = 4 * length ws" for ws
    by (induction ws) (auto simp: length_word_be)
  then show ?thesis
    by (simp add: sha256_def Let_def length_sha_blocks sha_init_def)
qed

lemma length_hex [simp]: "length (hex_EncodeToString b) = 2 * length b"
  by (induction b) (auto simp: hex_EncodeToString_def)

section \<open>Collisions and the injectivity of the hexadecimal form\<close>

definition collision :: "bytes \<Rightarrow> bytes \<Rightarrow> bool" where
  "collision a b \<longleftrightarrow> a \<noteq> b \<and> sha256 a = sha256 b"

text \<open>
  Collisions exist, since there are more inputs than digests. What a proof of integrity says is that
  cheating means exhibiting one, among the strings that were in fact hashed: \<open>collide A B\<close> is a
  collision between a string of the list \<open>A\<close> and one of the list \<open>B\<close>.
\<close>

definition collide :: "bytes list \<Rightarrow> bytes list \<Rightarrow> bool" where
  "collide as bs \<longleftrightarrow> (\<exists>a\<in>set as. \<exists>b\<in>set bs. collision a b)"

lemma sha256_eqD: "sha256 a = sha256 b \<Longrightarrow> a = b \<or> collision a b"
  by (auto simp: collision_def)

lemma collideI: "collision a b \<Longrightarrow> a \<in> set as \<Longrightarrow> b \<in> set bs \<Longrightarrow> collide as bs"
  by (auto simp: collide_def)

lemma collide_mono:
  "collide as bs \<Longrightarrow> set as \<subseteq> set as' \<Longrightarrow> set bs \<subseteq> set bs' \<Longrightarrow> collide as' bs'"
  by (auto simp: collide_def)

lemma hex_digit_inj: "0 \<le> m \<Longrightarrow> m < 16 \<Longrightarrow> 0 \<le> n \<Longrightarrow> n < 16 \<Longrightarrow> hex_digit m = hex_digit n \<longleftrightarrow> m = n"
proof -
  assume b: "0 \<le> m" "m < 16" "0 \<le> n" "n < 16"
  have "distinct ''0123456789abcdef''" by simp
  with b show ?thesis
    unfolding hex_digit_def by (subst nth_eq_iff_index_eq) auto
qed

lemma hex_EncodeToString_inj: "hex_EncodeToString a = hex_EncodeToString b \<longleftrightarrow> a = b"
proof (induction a arbitrary: b)
  case Nil
  then show ?case by (cases b) (auto simp: hex_EncodeToString_def)
next
  case (Cons x xs)
  show ?case
  proof (cases b)
    case Nil
    then show ?thesis by (simp add: hex_EncodeToString_def)
  next
    case (Cons y ys)
    have r: "0 \<le> (of_char c :: int)" "(of_char c :: int) < 256" for c
      by (simp_all add: of_char_def)
    have d: "of_char x div (16::int) < 16" "of_char y div (16::int) < 16"
      using r[of x] r[of y] by linarith+
    have hi: "hex_digit (of_char x div 16) = hex_digit (of_char y div 16)
        \<longleftrightarrow> (of_char x :: int) div 16 = of_char y div 16"
      using d r[of x] r[of y] by (intro hex_digit_inj) auto
    have lo: "hex_digit (of_char x mod 16) = hex_digit (of_char y mod 16)
        \<longleftrightarrow> (of_char x :: int) mod 16 = of_char y mod 16"
      by (intro hex_digit_inj) auto
    have "(of_char x :: int) = of_char y"
      if "(of_char x :: int) div 16 = of_char y div 16" "(of_char x :: int) mod 16 = of_char y mod 16"
      using that by (metis div_mult_mod_eq)
    with hi lo have "hex_digit (of_char x div 16) = hex_digit (of_char y div 16)
        \<and> hex_digit (of_char x mod 16) = hex_digit (of_char y mod 16) \<longleftrightarrow> x = y"
      by (auto simp: of_char_eq_iff)
    then show ?thesis
      using Cons.IH[of ys] Cons by (auto simp: hex_EncodeToString_def)
  qed
qed

end
