(* ===== verification/Merkle.thy ===== *)
theory Merkle
  imports Sha256
begin

text \<open>
  \<open>internal/merkle/merkle.go\<close>: the Merkle Tree Hash of RFC 6962 and the audit path check of RFC 9162.
  \<open>Root\<close>, \<open>Proof\<close>, \<open>path\<close> and \<open>Verify\<close> are translated as they are written; the loops of \<open>Verify\<close> are
  the recursive functions \<open>strip_zeros\<close> (the inner loop) and \<open>verify_loop\<close> (the loop over the path).

  Shown: every leaf has a path that \<open>Verify\<close> accepts; what \<open>Verify\<close> accepts is the leaf at that
  index or exhibits a SHA-256 collision among the strings hashed; two lists of inputs with one root
  are equal or exhibit one.
\<close>

type_synonym hash = bytes

datatype merkle_error = NotOneOf int int | PathTooLong | PathTooShort | WrongRoot

section \<open>The tree\<close>

definition leafPrefix :: char where "leafPrefix = CHR 0x00"

definition nodePrefix :: char where "nodePrefix = CHR 0x01"

definition LeafHash :: "bytes \<Rightarrow> hash" where
  "LeafHash input = sha256 (leafPrefix # input)"

definition NodeHash :: "hash \<Rightarrow> hash \<Rightarrow> hash" where
  "NodeHash left right = sha256 (nodePrefix # left @ right)"

definition Empty :: hash where
  "Empty = sha256 []"

definition split_at :: "nat \<Rightarrow> nat" where
  "split_at n = 2 ^ (bits_Len (n - 1) - 1)"

lemma split_at_bounds:
  assumes "2 \<le> n"
  shows "0 < split_at n" and "split_at n < n" and "n \<le> 2 * split_at n"
proof -
  from assms have b: "0 < bits_Len (n - 1)" "2 ^ (bits_Len (n - 1) - 1) \<le> n - 1"
    "n - 1 < 2 ^ bits_Len (n - 1)" using bits_Len_bounds [of "n - 1"] by auto
  from b(1) have "(2::nat) ^ bits_Len (n - 1) = 2 * 2 ^ (bits_Len (n - 1) - 1)"
    by (simp add: power_eq_if)
  with b assms show "0 < split_at n" "split_at n < n" "n \<le> 2 * split_at n"
    unfolding split_at_def by (simp, linarith, linarith)
qed

lemma split_at_pow2: "split_at (2 * 2 ^ j) = 2 ^ j"
proof -
  define n where "n = (2::nat) * 2 ^ j - 1"
  have "(1::nat) \<le> 2 ^ j" by simp
  then have n: "0 < n" "2 ^ j \<le> n" "n < 2 * 2 ^ j" unfolding n_def by linarith+
  define e where "e = bits_Len n - 1"
  have e: "bits_Len n = Suc e" using bits_Len_bounds [OF n(1)] unfolding e_def by simp
  have b: "2 ^ e \<le> n" "n < 2 * 2 ^ e"
    using bits_Len_bounds [OF n(1)] unfolding e by simp_all
  have "e = j"
  proof (rule linorder_cases [of e j])
    assume "e < j"
    then have "(2::nat) * 2 ^ e \<le> 2 ^ j" using power_increasing [of "Suc e" j "2::nat"] by simp
    with b n show ?thesis by linarith
  next
    assume "j < e"
    then have "(2::nat) * 2 ^ j \<le> 2 ^ e" using power_increasing [of "Suc j" e "2::nat"] by simp
    with b n show ?thesis by linarith
  qed simp
  then show ?thesis by (simp add: split_at_def n_def e_def)
qed

function Root :: "hash list \<Rightarrow> hash" where
  "Root [] = Empty"
| "Root [h] = h"
| "Root (a # b # r) =
     (let leaves = a # b # r; k = split_at (length leaves)
      in NodeHash (Root (take k leaves)) (Root (drop k leaves)))"
  by pat_completeness auto
termination
proof (relation "measure length", goal_cases)
  case (2 a b r x xa)
  then show ?case using split_at_bounds [of "length (a # b # r)"] by simp
next
  case (3 a b r x xa)
  then show ?case using split_at_bounds [of "length (a # b # r)"] by simp
qed simp

declare Root.simps(3) [simp del]

lemma Root_many: "2 \<le> length ls \<Longrightarrow>
  Root ls = NodeHash (Root (take (split_at (length ls)) ls)) (Root (drop (split_at (length ls)) ls))"
  by (cases ls; cases "tl ls") (auto simp only: list.sel list.size Root.simps(3) Let_def)

text \<open>
  \<open>path\<close> is called by \<open>Proof\<close> with an index of the list, so never with an empty list.
\<close>

function path :: "nat \<Rightarrow> hash list \<Rightarrow> hash list" where
  "path m [] = []"
| "path m [h] = []"
| "path m (a # b # r) =
     (let leaves = a # b # r; k = split_at (length leaves)
      in if m < k then path m (take k leaves) @ [Root (drop k leaves)]
         else path (m - k) (drop k leaves) @ [Root (take k leaves)])"
  by pat_completeness auto
termination
proof (relation "measure (length \<circ> snd)", goal_cases)
  case (2 m a b r x xa)
  then show ?case using split_at_bounds [of "length (a # b # r)"] by simp
next
  case (3 m a b r x xa)
  then show ?case using split_at_bounds [of "length (a # b # r)"] by simp
qed simp

declare path.simps(3) [simp del]

definition Proof :: "hash list \<Rightarrow> int \<Rightarrow> merkle_error + hash list" where
  "Proof leaves index =
     (if index < 0 \<or> index \<ge> int (length leaves) then Inl (NotOneOf index (int (length leaves)))
      else Inr (path (nat index) leaves))"

section \<open>Checking a path\<close>

fun strip_zeros :: "nat \<Rightarrow> nat \<Rightarrow> nat \<times> nat" where
  "strip_zeros fn sn = (if even fn \<and> fn \<noteq> 0 then strip_zeros (fn div 2) (sn div 2) else (fn, sn))"

declare strip_zeros.simps [simp del]

fun verify_loop :: "hash list \<Rightarrow> nat \<Rightarrow> nat \<Rightarrow> hash \<Rightarrow> merkle_error + nat \<times> hash" where
  "verify_loop [] fn sn r = Inr (sn, r)"
| "verify_loop (p # ps) fn sn r =
     (if sn = 0 then Inl PathTooLong
      else if odd fn \<or> fn = sn then
        (let (fn', sn') = (if even fn then strip_zeros fn sn else (fn, sn))
         in verify_loop ps (fn' div 2) (sn' div 2) (NodeHash p r))
      else verify_loop ps (fn div 2) (sn div 2) (NodeHash r p))"

definition Verify :: "hash \<Rightarrow> int \<Rightarrow> int \<Rightarrow> hash list \<Rightarrow> hash \<Rightarrow> merkle_error option" where
  "Verify leaf index sz proof root =
     (if sz \<le> 0 \<or> index < 0 \<or> index \<ge> sz then Some (NotOneOf index sz)
      else case verify_loop proof (nat index) (nat (sz - 1)) leaf of
        Inl e \<Rightarrow> Some e
      | Inr (sn, r) \<Rightarrow>
          if sn \<noteq> 0 then Some PathTooShort
          else if r \<noteq> root then Some WrongRoot
          else None)"

section \<open>The loop on the path of a tree\<close>

text \<open>Where the loop goes next does not depend on the hashes.\<close>

definition vnext :: "nat \<Rightarrow> nat \<Rightarrow> nat \<times> nat" where
  "vnext fn sn = (let (f, s) = (if fn = sn \<and> even fn then strip_zeros fn sn else (fn, sn))
                  in (f div 2, s div 2))"

lemma verify_loop_Cons:
  "verify_loop (p # ps) fn sn r =
     (if sn = 0 then Inl PathTooLong
      else verify_loop ps (fst (vnext fn sn)) (snd (vnext fn sn))
             (if odd fn \<or> fn = sn then NodeHash p r else NodeHash r p))"
  by (auto simp: vnext_def Let_def split: prod.splits)

lemma strip_zeros_pow2: "strip_zeros (2 ^ e) (2 ^ e) = (1, 1)"
proof (induction e)
  case (Suc e)
  then show ?case by (subst strip_zeros.simps) simp
qed (subst strip_zeros.simps, simp)

lemma strip_zeros_offset:
  assumes "fn \<noteq> 0" "fn \<le> sn" "sn < 2 ^ e" "strip_zeros fn sn = (f, s)"
  shows "\<exists>d. strip_zeros (fn + 2 ^ e) (sn + 2 ^ e) = (f + 2 ^ Suc d, s + 2 ^ Suc d)
            \<and> f \<le> s \<and> s < 2 ^ Suc d"
  using assms
proof (induction fn sn arbitrary: e rule: strip_zeros.induct)
  case (1 fn sn)
  obtain d where d: "e = Suc d" using "1.prems" by (cases e) auto
  show ?case
  proof (cases "even fn")
    case True
    have half: "(fn + 2 ^ e) div 2 = fn div 2 + 2 ^ d" "(sn + 2 ^ e) div 2 = sn div 2 + 2 ^ d"
      by (simp_all add: d)
    have rec: "strip_zeros (fn + 2 ^ e) (sn + 2 ^ e) = strip_zeros (fn div 2 + 2 ^ d) (sn div 2 + 2 ^ d)"
      using True half d "1.prems"(1) by (subst strip_zeros.simps) (simp add: add.commute)
    have "strip_zeros (fn div 2) (sn div 2) = (f, s)"
      using "1.prems"(1,4) True by (subst (asm) strip_zeros.simps) simp
    moreover have "fn div 2 \<noteq> 0" "fn div 2 \<le> sn div 2" "sn div 2 < 2 ^ d"
      using True "1.prems" d by auto
    ultimately obtain d' where "strip_zeros (fn div 2 + 2 ^ d) (sn div 2 + 2 ^ d)
         = (f + 2 ^ Suc d', s + 2 ^ Suc d') \<and> f \<le> s \<and> s < 2 ^ Suc d'"
      using "1.IH" True "1.prems"(1) by blast
    with rec d show ?thesis by auto
  next
    case False
    then have "strip_zeros fn sn = (fn, sn)" "strip_zeros (fn + 2 ^ e) (sn + 2 ^ e) = (fn + 2 ^ e, sn + 2 ^ e)"
      by (subst strip_zeros.simps, simp add: d)+
    with "1.prems" d show ?thesis by auto
  qed
qed

lemma vnext_offset:
  assumes "fn \<le> sn" "sn < 2 ^ e" "sn \<noteq> 0"
  obtains d where "vnext (fn + 2 ^ e) (sn + 2 ^ e) = (fst (vnext fn sn) + 2 ^ d, snd (vnext fn sn) + 2 ^ d)"
    and "fst (vnext fn sn) \<le> snd (vnext fn sn)" and "snd (vnext fn sn) < 2 ^ d"
proof (cases "fn = sn \<and> even fn")
  case True
  obtain f s where fs: "strip_zeros fn sn = (f, s)" by fastforce
  have e: "even (fn + 2 ^ e)" using True assms by (cases e) auto
  obtain d where "strip_zeros (fn + 2 ^ e) (sn + 2 ^ e) = (f + 2 ^ Suc d, s + 2 ^ Suc d)"
    "f \<le> s" "s < 2 ^ Suc d"
    using strip_zeros_offset [OF _ assms(1,2) fs] True assms(3) by auto
  with True fs e show ?thesis by (intro that [of d]) (auto simp: vnext_def)
next
  case False
  obtain d where d: "e = Suc d" using assms by (cases e) auto
  with False have "vnext (fn + 2 ^ e) (sn + 2 ^ e) = (fn div 2 + 2 ^ d, sn div 2 + 2 ^ d)"
    by (auto simp: vnext_def)
  with False assms d show ?thesis by (intro that [of d]) (auto simp: vnext_def)
qed

text \<open>
  A run over the right part of a tree is a run over that part alone with one more bit set above
  both counters.
\<close>

lemma verify_loop_offset:
  assumes "verify_loop ps fn sn r = Inr (0, x)" "fn \<le> sn" "sn < 2 ^ e"
  obtains d where "verify_loop (ps @ qs) (fn + 2 ^ e) (sn + 2 ^ e) r = verify_loop qs (2 ^ d) (2 ^ d) x"
  using assms
proof (induction ps arbitrary: fn sn r e thesis)
  case Nil
  then show ?case by simp
next
  case (Cons p ps)
  from Cons.prems(2) have sn: "sn \<noteq> 0" by (auto split: if_splits)
  obtain d where d: "vnext (fn + 2 ^ e) (sn + 2 ^ e) = (fst (vnext fn sn) + 2 ^ d, snd (vnext fn sn) + 2 ^ d)"
    "fst (vnext fn sn) \<le> snd (vnext fn sn)" "snd (vnext fn sn) < 2 ^ d"
    using vnext_offset [OF Cons.prems(3,4) sn] .
  have side: "odd (fn + 2 ^ e) \<or> fn + 2 ^ e = sn + 2 ^ e \<longleftrightarrow> odd fn \<or> fn = sn"
    using sn Cons.prems(4) by (cases e) auto
  let ?r = "if odd fn \<or> fn = sn then NodeHash p r else NodeHash r p"
  have "verify_loop ps (fst (vnext fn sn)) (snd (vnext fn sn)) ?r = Inr (0, x)"
    using Cons.prems(2) sn by (simp only: verify_loop_Cons if_False)
  then obtain d' where "verify_loop (ps @ qs) (fst (vnext fn sn) + 2 ^ d) (snd (vnext fn sn) + 2 ^ d) ?r
       = verify_loop qs (2 ^ d') (2 ^ d') x"
    using Cons.IH [OF _ _ d(2,3)] by blast
  with d(1) side sn show ?case
    by (intro Cons.prems(1) [of d']) (simp only: append_Cons verify_loop_Cons, simp)
qed

text \<open>A run over a complete subtree of \<^term>\<open>2 ^ j\<close> leaves that is not the last of its level.\<close>

lemma verify_loop_perfect:
  assumes "length ls = 2 ^ j" "m < 2 ^ j" "c < s div 2 ^ j"
  shows "verify_loop (path m ls @ qs) (m + c * 2 ^ j) s (ls ! m) = verify_loop qs c (s div 2 ^ j) (Root ls)"
  using assms
proof (induction j arbitrary: ls m c s qs)
  case 0
  then show ?case by (cases ls) auto
next
  case (Suc j)
  have len: "length ls = 2 * 2 ^ j" using Suc.prems(1) by simp
  then have k: "split_at (length ls) = 2 ^ j" by (simp only: split_at_pow2)
  have "2 \<le> length ls" using len one_le_numeral by (simp add: len)
  then obtain a b r where ls: "ls = a # b # r" by (cases ls; cases "tl ls") auto
  let ?L = "take (2 ^ j) ls" and ?R = "drop (2 ^ j) ls" and ?s = "s div 2 ^ j"
  have root: "Root ls = NodeHash (Root ?L) (Root ?R)"
    using k unfolding ls by (simp only: Root.simps Let_def)
  have s: "s div 2 ^ Suc j = ?s div 2" by (simp add: div_mult2_eq [symmetric] mult.commute)
  show ?case
  proof (cases "m < 2 ^ j")
    case True
    then have p: "path m ls = path m ?L @ [Root ?R]"
      using k unfolding ls by (simp only: path.simps Let_def if_True)
    have eq: "m + c * 2 ^ Suc j = m + (2 * c) * 2 ^ j" by simp
    have c: "2 * c < ?s" "2 * c \<noteq> ?s" using Suc.prems(3) s by linarith+
    have nth: "?L ! m = ls ! m" using True by simp
    have "verify_loop (path m ls @ qs) (m + c * 2 ^ Suc j) s (ls ! m)
        = verify_loop (Root ?R # qs) (2 * c) ?s (Root ?L)"
      using Suc.IH [of ?L m "2 * c" s "Root ?R # qs"] True len c unfolding p eq nth by simp
    with c root s show ?thesis by simp
  next
    case False
    then have p: "path m ls = path (m - 2 ^ j) ?R @ [Root ?L]"
      using k unfolding ls by (simp only: path.simps Let_def if_False)
    have eq: "m + c * 2 ^ Suc j = (m - 2 ^ j) + Suc (2 * c) * 2 ^ j"
      using False by simp
    have c: "Suc (2 * c) < ?s" using Suc.prems(3) s by linarith
    have nth: "?R ! (m - 2 ^ j) = ls ! m" using False len by simp
    have "m - 2 ^ j < 2 ^ j" using Suc.prems(2) False by auto
    then have "verify_loop (path m ls @ qs) (m + c * 2 ^ Suc j) s (ls ! m)
        = verify_loop (Root ?L # qs) (Suc (2 * c)) ?s (Root ?R)"
      using Suc.IH [of ?R "m - 2 ^ j" "Suc (2 * c)" s "Root ?L # qs"] c len unfolding p eq nth
      by simp
    with c root s show ?thesis by simp
  qed
qed

lemma verify_loop_path:
  "m < length leaves \<Longrightarrow> verify_loop (path m leaves) m (length leaves - 1) (leaves ! m) = Inr (0, Root leaves)"
proof (induction m leaves rule: path.induct)
  case (3 m a b r)
  define ls where "ls = a # b # r"
  define k where "k = split_at (length ls)"
  obtain j where j: "k = 2 ^ j" by (simp add: k_def split_at_def)
  have n: "k < length ls" "length ls \<le> 2 * k" "0 < k"
    using split_at_bounds [of "length ls"] by (auto simp: k_def ls_def)
  have root: "Root ls = NodeHash (Root (take k ls)) (Root (drop k ls))"
    unfolding ls_def k_def by (simp only: Root.simps Let_def)
  have m: "m < length ls" using "3.prems" by (simp add: ls_def)
  show ?case
  proof (cases "m < k")
    case True
    have p: "path m ls = path m (take k ls) @ [Root (drop k ls)]"
      using True unfolding ls_def k_def by (simp only: path.simps Let_def if_True)
    have "(length ls - 1) div 2 ^ j = 1" using n j by (intro div_nat_eqI) auto
    then have "verify_loop (path m ls) (m + 0 * 2 ^ j) (length ls - 1) (take k ls ! m)
       = verify_loop [Root (drop k ls)] 0 1 (Root (take k ls))"
      using verify_loop_perfect [of "take k ls" j m 0 "length ls - 1" "[Root (drop k ls)]"] n True j p
      by simp
    then show ?thesis using True root by (simp add: ls_def)
  next
    case False
    have p: "path m ls = path (m - k) (drop k ls) @ [Root (take k ls)]"
      using False unfolding ls_def k_def by (simp only: path.simps Let_def if_False)
    have "verify_loop (path (m - k) (drop k ls)) (m - k) (length ls - k - 1) (drop k ls ! (m - k))
        = Inr (0, Root (drop k ls))"
      using "3.IH"(2) [OF ls_def k_def] False m by (simp add: ls_def)
    moreover have "m - k \<le> length ls - k - 1" "length ls - k - 1 < 2 ^ j" using m False n j by auto
    ultimately obtain d where "verify_loop (path m ls) (m - k + 2 ^ j) (length ls - k - 1 + 2 ^ j)
        (drop k ls ! (m - k)) = verify_loop [Root (take k ls)] (2 ^ d) (2 ^ d) (Root (drop k ls))"
      unfolding p using verify_loop_offset by blast
    moreover have "m - k + 2 ^ j = m" "length ls - k - 1 + 2 ^ j = length ls - 1" using False n j by auto
    ultimately show ?thesis
      using False n root strip_zeros_pow2 [of d] by (auto simp: ls_def split: if_splits)
  qed
qed simp_all

section \<open>What an accepted path proves\<close>

lemma NodeHash_eqD:
  assumes "NodeHash a b = NodeHash c d" "length a = length c"
  shows "a = c \<and> b = d \<or> collision (nodePrefix # a @ b) (nodePrefix # c @ d)"
  using sha256_eqD [OF assms(1) [unfolded NodeHash_def]] assms(2) by auto

lemma length_NodeHash [simp]: "length (NodeHash a b) = 32"
  by (simp add: NodeHash_def)

lemma length_Root: "(\<And>h. h \<in> set ls \<Longrightarrow> length h = 32) \<Longrightarrow> length (Root ls) = 32"
proof (induction ls rule: Root.induct)
  case (3 a b r)
  then show ?case by (simp only: Root.simps Let_def length_NodeHash)
qed (simp_all add: Empty_def)

lemma length_path:
  "(\<And>h. h \<in> set ls \<Longrightarrow> length h = 32) \<Longrightarrow> p \<in> set (path m ls) \<Longrightarrow> length p = 32"
proof (induction m ls rule: path.induct)
  case (3 m a b r)
  define ls where "ls = a # b # r"
  define k where "k = split_at (length ls)"
  have all: "length h = 32" if "h \<in> set ls" for h
    using "3.prems"(1) that unfolding ls_def by blast
  have tk: "length h = 32" if "h \<in> set (take k ls)" for h
    using all in_set_takeD [OF that] .
  have dr: "length h = 32" if "h \<in> set (drop k ls)" for h
    using all in_set_dropD [OF that] .
  have sub: "length (Root (take k ls)) = 32" "length (Root (drop k ls)) = 32"
    using tk dr by (auto intro!: length_Root)
  have "p \<in> set (path m (take k ls)) \<and> m < k \<or> p \<in> set (path (m - k) (drop k ls)) \<and> \<not> m < k
      \<or> p = Root (take k ls) \<or> p = Root (drop k ls)"
    using "3.prems"(2) unfolding ls_def k_def path.simps Let_def by (auto split: if_splits)
  then show ?case
    using "3.IH"(1) [OF ls_def k_def _ tk] "3.IH"(2) [OF ls_def k_def _ dr] sub by blast
qed simp_all

text \<open>How long an accepted path is depends on the two counters only.\<close>

lemma verify_loop_length:
  "verify_loop ps fn sn x = Inr (0, u) \<Longrightarrow> verify_loop qs fn sn y = Inr (0, v) \<Longrightarrow> length ps = length qs"
proof (induction ps arbitrary: qs fn sn x y)
  case Nil
  then show ?case by (cases qs) auto
next
  case (Cons p ps)
  then have sn: "sn \<noteq> 0" by (auto split: if_splits)
  with Cons.prems(2) obtain q qs' where qs: "qs = q # qs'" by (cases qs) auto
  from Cons.prems sn show ?case
    unfolding qs verify_loop_Cons by (auto dest: Cons.IH)
qed

text \<open>The strings the loop hashes.\<close>

fun loop_inputs :: "hash list \<Rightarrow> nat \<Rightarrow> nat \<Rightarrow> hash \<Rightarrow> bytes list" where
  "loop_inputs [] fn sn r = []"
| "loop_inputs (p # ps) fn sn r =
     (if sn = 0 then []
      else let i = nodePrefix # (if odd fn \<or> fn = sn then p @ r else r @ p)
           in i # loop_inputs ps (fst (vnext fn sn)) (snd (vnext fn sn)) (sha256 i))"

lemma verify_loop_inj:
  assumes "verify_loop ps fn sn x = Inr (s, u)" "verify_loop qs fn sn y = Inr (s, u)"
    and "length ps = length qs" "length x = 32" "length y = 32"
    and "\<And>p. p \<in> set ps \<union> set qs \<Longrightarrow> length p = 32"
  shows "ps = qs \<and> x = y \<or> collide (loop_inputs ps fn sn x) (loop_inputs qs fn sn y)"
  using assms
proof (induction ps arbitrary: qs fn sn x y)
  case (Cons p ps)
  then obtain q qs' where qs: "qs = q # qs'" by (cases qs) auto
  have sn: "sn \<noteq> 0" using Cons.prems(1) by (auto split: if_splits)
  let ?fn = "fst (vnext fn sn)" and ?sn = "snd (vnext fn sn)"
  let ?in = "\<lambda>p r. nodePrefix # (if odd fn \<or> fn = sn then p @ r else r @ p)"
  have node: "(if odd fn \<or> fn = sn then NodeHash p r else NodeHash r p) = sha256 (?in p r)" for p r
    by (simp add: NodeHash_def)
  have "ps = qs' \<and> sha256 (?in p x) = sha256 (?in q y)
      \<or> collide (loop_inputs ps ?fn ?sn (sha256 (?in p x))) (loop_inputs qs' ?fn ?sn (sha256 (?in q y)))"
  proof (rule Cons.IH)
    show "verify_loop ps ?fn ?sn (sha256 (?in p x)) = Inr (s, u)"
      using Cons.prems(1) sn unfolding verify_loop_Cons node by simp
    show "verify_loop qs' ?fn ?sn (sha256 (?in q y)) = Inr (s, u)"
      using Cons.prems(2) sn unfolding qs verify_loop_Cons node by simp
  qed (use Cons.prems(3,6) qs in auto)
  moreover have "set (loop_inputs ps ?fn ?sn (sha256 (?in p r))) \<subseteq> set (loop_inputs (p # ps) fn sn r)"
    for p ps r using sn by (auto simp: Let_def)
  ultimately consider "ps = qs'" "sha256 (?in p x) = sha256 (?in q y)"
    | "collide (loop_inputs (p # ps) fn sn x) (loop_inputs (q # qs') fn sn y)"
    using collide_mono by meson
  then show ?case
  proof cases
    case 1
    have "length p = length q" "length x = length y" using Cons.prems(4-6) qs by auto
    then have "?in p x = ?in q y \<Longrightarrow> p = q \<and> x = y" by (auto split: if_splits)
    moreover have "collision (?in p x) (?in q y)
        \<Longrightarrow> collide (loop_inputs (p # ps) fn sn x) (loop_inputs (q # qs') fn sn y)"
      using sn by (intro collideI [where a = "?in p x" and b = "?in q y"]) (auto simp: Let_def)
    ultimately show ?thesis using sha256_eqD [OF 1(2)] 1(1) qs by blast
  qed (simp add: qs)
qed simp

text \<open>The strings hashed for the root of a list of inputs.\<close>

function tree_inputs :: "bytes list \<Rightarrow> bytes list" where
  "tree_inputs [] = [[]]"
| "tree_inputs [x] = [leafPrefix # x]"
| "tree_inputs (a # b # r) =
     (let xs = a # b # r; k = split_at (length xs)
      in (nodePrefix # Root (map LeafHash (take k xs)) @ Root (map LeafHash (drop k xs)))
         # tree_inputs (take k xs) @ tree_inputs (drop k xs))"
  by pat_completeness auto
termination
proof (relation "measure length", goal_cases)
  case (2 a b r x xa)
  then show ?case using split_at_bounds [of "length (a # b # r)"] by simp
next
  case (3 a b r x xa)
  then show ?case using split_at_bounds [of "length (a # b # r)"] by simp
qed simp

declare tree_inputs.simps(3) [simp del]

lemma length_LeafHash [simp]: "length (LeafHash x) = 32"
  by (simp add: LeafHash_def)

lemma length_Root_inputs [simp]: "length (Root (map LeafHash xs)) = 32"
  by (rule length_Root) auto

text \<open>The string whose digest the root is comes first.\<close>

lemma tree_inputs_many: "2 \<le> length xs \<Longrightarrow>
  tree_inputs xs =
    (nodePrefix # Root (map LeafHash (take (split_at (length xs)) xs))
       @ Root (map LeafHash (drop (split_at (length xs)) xs)))
    # tree_inputs (take (split_at (length xs)) xs) @ tree_inputs (drop (split_at (length xs)) xs)"
  by (cases xs; cases "tl xs") (auto simp only: list.sel list.size tree_inputs.simps(3) Let_def)

lemma short_cases:
  obtains "xs = []" | x where "xs = [x]" | "2 \<le> length xs"
  by (cases xs; cases "tl xs") auto

lemma tree_inputs_hd: "hd (tree_inputs xs) \<in> set (tree_inputs xs)"
  by (rule short_cases [of xs]) (auto simp: tree_inputs_many)

lemma Root_hd: "Root (map LeafHash xs) = sha256 (hd (tree_inputs xs))"
  by (rule short_cases [of xs])
    (auto simp: Root_many tree_inputs_many Empty_def LeafHash_def NodeHash_def take_map drop_map)

text \<open>Two trees of one root: the first strings agree, so the trees have one shape and one content.\<close>

lemma Root_binding:
  "Root (map LeafHash xs) = Root (map LeafHash ys) \<Longrightarrow> xs = ys \<or> collide (tree_inputs xs) (tree_inputs ys)"
proof (induction "length xs" arbitrary: xs ys rule: less_induct)
  case less
  have "hd (tree_inputs xs) = hd (tree_inputs ys) \<or> collide (tree_inputs xs) (tree_inputs ys)"
    using sha256_eqD [OF less.prems [unfolded Root_hd]] tree_inputs_hd collideI by blast
  moreover {
    assume hd: "hd (tree_inputs xs) = hd (tree_inputs ys)"
    let ?k = "split_at (length xs)" and ?j = "split_at (length ys)"
    consider "length xs < 2 \<or> length ys < 2" | "2 \<le> length xs" "2 \<le> length ys" by linarith
    then have ?case
    proof cases
      case 1
      then show ?thesis using hd
        by (rule_tac xs = xs in short_cases; rule_tac xs = ys in short_cases)
          (auto simp: tree_inputs_many leafPrefix_def nodePrefix_def)
    next
      case 2
      have eqs: "Root (map LeafHash (take ?k xs)) = Root (map LeafHash (take ?j ys))"
        "Root (map LeafHash (drop ?k xs)) = Root (map LeafHash (drop ?j ys))"
        using hd 2 by (auto simp: tree_inputs_many)
      have "length (take ?k xs) < length xs" "length (drop ?k xs) < length xs"
        using split_at_bounds [OF 2(1)] by auto
      then have "take ?k xs = take ?j ys \<or> collide (tree_inputs (take ?k xs)) (tree_inputs (take ?j ys))"
        and "drop ?k xs = drop ?j ys \<or> collide (tree_inputs (drop ?k xs)) (tree_inputs (drop ?j ys))"
        using less.hyps eqs by blast+
      moreover have "set (tree_inputs (take ?k xs)) \<subseteq> set (tree_inputs xs)"
        "set (tree_inputs (drop ?k xs)) \<subseteq> set (tree_inputs xs)"
        "set (tree_inputs (take ?j ys)) \<subseteq> set (tree_inputs ys)"
        "set (tree_inputs (drop ?j ys)) \<subseteq> set (tree_inputs ys)"
        using 2 by (auto simp: tree_inputs_many)
      ultimately show ?thesis by (metis append_take_drop_id collide_mono)
    qed
  }
  ultimately show ?case by blast
qed

section \<open>Properties\<close>

text \<open>
  C3: For every leaf of a tree, \<open>Proof\<close> returns an audit path, and \<open>Verify\<close> accepts it against the
  tree's \<open>Root\<close>: the iterative check of RFC 9162 agrees with the recursive tree of RFC 6962 on every
  size and index.
\<close>

theorem Verify_accepts_Proof:
  assumes "0 \<le> index" "index < int (length leaves)"
  shows "\<exists>p. Proof leaves index = Inr p
       \<and> Verify (leaves ! nat index) index (int (length leaves)) p (Root leaves) = None"
proof -
  have m: "nat index < length leaves" using assms by linarith
  have sz: "nat (int (length leaves) - 1) = length leaves - 1" by linarith
  have ne: "leaves \<noteq> []" using m by auto
  show ?thesis
    using assms ne verify_loop_path [OF m] by (simp add: Proof_def Verify_def sz)
qed

theorem Verify_accepts_Proof_witness:
  "\<exists>p. Proof [''p'', ''q'', ''r''] 2 = Inr p
     \<and> Verify ''r'' 2 3 p (Root [''p'', ''q'', ''r'']) = None"
  using Verify_accepts_Proof [of 2 "[''p'', ''q'', ''r'']"] by simp

text \<open>
  C4: What \<open>Verify\<close> accepts is true: when it accepts a leaf and a path against the root of a tree of
  32-byte hashes, the leaf is the tree's leaf at that index and the path is the one \<open>Proof\<close> gives, or
  else one of the strings hashed on the way up collides with one hashed on the true leaf's way up.
\<close>

theorem Verify_sound:
  assumes "Verify leaf index (int (length leaves)) proof (Root leaves) = None"
    and "length leaf = 32" "list_all (\<lambda>h. length h = 32) leaves" "list_all (\<lambda>h. length h = 32) proof"
  shows "leaf = leaves ! nat index \<and> Proof leaves index = Inr proof
    \<or> collide (loop_inputs proof (nat index) (length leaves - 1) leaf)
        (loop_inputs (path (nat index) leaves) (nat index) (length leaves - 1) (leaves ! nat index))"
proof -
  from assms(1) have i: "0 \<le> index" "index < int (length leaves)"
    by (auto simp: Verify_def split: if_splits)
  then have m: "nat index < length leaves" by linarith
  have sz: "nat (int (length leaves) - 1) = length leaves - 1" by linarith
  have loop: "verify_loop proof (nat index) (length leaves - 1) leaf = Inr (0, Root leaves)"
    using assms(1) i by (auto simp: Verify_def sz split: if_splits sum.splits)
  have leaves32: "\<And>h. h \<in> set leaves \<Longrightarrow> length h = 32" and
    proof32: "\<And>h. h \<in> set proof \<Longrightarrow> length h = 32"
    using assms(3,4) by (auto simp: list_all_iff)
  have "proof = path (nat index) leaves \<and> leaf = leaves ! nat index
    \<or> collide (loop_inputs proof (nat index) (length leaves - 1) leaf)
        (loop_inputs (path (nat index) leaves) (nat index) (length leaves - 1) (leaves ! nat index))"
  proof (rule verify_loop_inj [OF loop verify_loop_path [OF m]])
    show "length proof = length (path (nat index) leaves)"
      using verify_loop_length [OF loop verify_loop_path [OF m]] .
    show "length (leaves ! nat index) = 32" using leaves32 m by simp
  qed (use assms(2) proof32 length_path [OF leaves32] in auto)
  then show ?thesis using i by (auto simp: Proof_def)
qed

theorem Verify_sound_witness:
  "Verify (replicate 32 CHR ''p'') 0 2 [replicate 32 CHR ''q'']
      (Root [replicate 32 CHR ''p'', replicate 32 CHR ''q'']) = None
   \<and> Proof [replicate 32 CHR ''p'', replicate 32 CHR ''q''] 0 = Inr [replicate 32 CHR ''q'']"
proof -
  define p where "p = replicate 32 CHR ''p''"
  define q where "q = replicate 32 CHR ''q''"
  have len: "length p = 32" "length q = 32" by (simp_all add: p_def q_def)
  have k: "split_at (Suc (Suc 0)) = 1"
    by (simp add: split_at_def bits_Len.simps [of "Suc 0"] bits_Len.simps [of 0])
  have v: "Verify p 0 (int (length [p, q])) [q] (Root [p, q]) = None"
    by (simp add: Verify_def Root_many k)
  have "\<not> collide (loop_inputs [q] 0 1 p) (loop_inputs (path 0 [p, q]) 0 1 p)"
    by (simp add: path.simps k Let_def collide_def collision_def)
  then show ?thesis
    using v Verify_sound [OF v] len unfolding p_def [symmetric] q_def [symmetric] by auto
qed

text \<open>
  A root commits to its inputs: two lists of leaf inputs whose trees have one root are the same
  list, of the same length and in the same order, or a string hashed for the one collides with a
  string hashed for the other. The leaf and node prefixes are what rules out passing an interior
  node off as a leaf.
\<close>

theorem Root_commits:
  assumes "Root (map LeafHash xs) = Root (map LeafHash ys)"
  shows "xs = ys \<or> collide (tree_inputs xs) (tree_inputs ys)"
  using assms by (rule Root_binding)

theorem Root_commits_witness:
  "Root (map LeafHash [''a'', ''b'']) = Root (map LeafHash [''a'', ''b''])
     \<and> ([''a'', ''b''] = [''a'', ''b'']
        \<or> collide (tree_inputs [''a'', ''b'']) (tree_inputs [''a'', ''b'']))"
  using Root_commits [of "[''a'', ''b'']" "[''a'', ''b'']"] by blast

end
