(* ===== verification/Gotime.thy ===== *)
theory Gotime
  imports Audit_Prelude
begin

text \<open>
  Package \<open>time\<close> of Go's standard library, as far as the archive uses it. A \<open>time.Time\<close> in UTC is the
  number of nanoseconds since the Unix epoch; \<open>Date\<close>, \<open>AddDate\<close>, \<open>Truncate(time.Hour)\<close>, \<open>UnixMilli\<close>
  and the layout \<open>2006/01/02/15\<close> are functions of it over the proleptic Gregorian calendar. Shown:
  the calendar fields of a moment determine its day and hour, and the layout of two moments of
  years 0 to 9999 compare, as strings, as their hours do.
\<close>

type_synonym time = int

definition hour_ns :: int where "hour_ns = 3600000000000"

definition day_ns :: int where "day_ns = 86400000000000"

text \<open>The zero \<open>time.Time\<close>: midnight of 1 January of year 1.\<close>

definition zero_time :: time where "zero_time = - 719162 * day_ns"

definition UnixMilli :: "time \<Rightarrow> int" where "UnixMilli t = t div 1000000"

definition of_UnixMilli :: "int \<Rightarrow> time" where "of_UnixMilli ms = ms * 1000000"

definition Truncate_hour :: "time \<Rightarrow> time" where "Truncate_hour t = t - t mod hour_ns"

section \<open>Days and dates\<close>

definition is_leap :: "int \<Rightarrow> bool" where
  "is_leap y \<longleftrightarrow> y mod 4 = 0 \<and> (y mod 100 \<noteq> 0 \<or> y mod 400 = 0)"

definition leap_day :: "int \<Rightarrow> int" where
  "leap_day y = (if is_leap y then 1 else 0)"

text \<open>Days before the first of January of a year, counted from year 1.\<close>

definition days_before_year :: "int \<Rightarrow> int" where
  "days_before_year y = (let p = y - 1 in 365 * p + p div 4 - p div 100 + p div 400)"

text \<open>The day of the year each month starts on; \<open>l\<close> is 1 in a leap year.\<close>

definition month_starts :: "int \<Rightarrow> int list" where
  "month_starts l = [0, 31, 59 + l, 90 + l, 120 + l, 151 + l, 181 + l, 212 + l, 243 + l, 273 + l, 304 + l, 334 + l]"

definition days_from_civil :: "int \<Rightarrow> int \<Rightarrow> int \<Rightarrow> int" where
  "days_from_civil y m d =
     days_before_year y + month_starts (leap_day y) ! nat (m - 1) + (d - 1) - 719162"

text \<open>\<open>time.Date\<close> in UTC, which normalises a month, a day or an hour out of range.\<close>

definition Date :: "int \<Rightarrow> int \<Rightarrow> int \<Rightarrow> int \<Rightarrow> int \<Rightarrow> time" where
  "Date y mo d h ns =
     (let m = mo - 1 in days_from_civil (y + m div 12) (m mod 12 + 1) d * day_ns + h * hour_ns + ns)"

text \<open>The year and the day of the year of a day, by cycles of 400, 100, 4 years and one.\<close>

definition year_yday :: "int \<Rightarrow> int \<times> int" where
  "year_yday n =
     (let a = n div 146097; r1 = n mod 146097;
          b = min 3 (r1 div 36524); r2 = r1 - 36524 * b;
          c = r2 div 1461; r3 = r2 mod 1461;
          e = min 3 (r3 div 365)
      in (400 * a + 100 * b + 4 * c + e + 1, r3 - 365 * e))"

definition day_number :: "time \<Rightarrow> int" where
  "day_number t = t div day_ns + 719162"

definition Year :: "time \<Rightarrow> int" where "Year t = fst (year_yday (day_number t))"

definition YearDay0 :: "time \<Rightarrow> int" where "YearDay0 t = snd (year_yday (day_number t))"

definition month_of :: "int \<Rightarrow> int \<Rightarrow> int" where
  "month_of l yd = int (length (filter (\<lambda>s. s \<le> yd) (month_starts l)))"

definition Month :: "time \<Rightarrow> int" where
  "Month t = month_of (leap_day (Year t)) (YearDay0 t)"

definition Day :: "time \<Rightarrow> int" where
  "Day t = YearDay0 t - month_starts (leap_day (Year t)) ! nat (Month t - 1) + 1"

definition Hour :: "time \<Rightarrow> int" where "Hour t = t mod day_ns div hour_ns"

definition AddDate :: "time \<Rightarrow> int \<Rightarrow> int \<Rightarrow> int \<Rightarrow> time" where
  "AddDate t ys ms ds = Date (Year t + ys) (Month t + ms) (Day t + ds) 0 (t mod day_ns)"

text \<open>\<open>t.Format("2006/01/02/15")\<close>.\<close>

definition fmt_int :: "nat \<Rightarrow> int \<Rightarrow> string" where
  "fmt_int w x = (if x < 0 then CHR ''-'' # zpad w (nat (- x)) else zpad w (nat x))"

definition hour_parts :: "time \<Rightarrow> string list" where
  "hour_parts t = [fmt_int 4 (Year t), fmt_int 2 (Month t), fmt_int 2 (Day t), fmt_int 2 (Hour t)]"

definition Format_hour :: "time \<Rightarrow> string" where
  "Format_hour t = Join (CHR ''/'') (hour_parts t)"

section \<open>The calendar\<close>

lemma leap_day_bounds: "0 \<le> leap_day y" "leap_day y \<le> 1"
  by (simp_all add: leap_day_def)

lemma div_pred:
  assumes "(0::int) < k"
  shows "y div k = (y - 1) div k + (if y mod k = 0 then 1 else 0)"
proof (cases "y mod k = 0")
  case True
  then obtain q where "y = k * q" by (auto elim: dvdE simp: mod_eq_0_iff_dvd)
  moreover have "(k * q - 1) div k = q - 1"
    using assms by (intro int_div_pos_eq [where r = "k - 1"]) (auto simp: algebra_simps)
  ultimately show ?thesis using assms by simp
next
  case False
  have "0 < y mod k" "y mod k < k" using False assms pos_mod_sign [of k y] pos_mod_bound [of k y] by linarith+
  moreover have "y - 1 = k * (y div k) + (y mod k - 1)" by (simp add: algebra_simps)
  ultimately have "(y - 1) div k = y div k"
    by (intro int_div_pos_eq [where r = "y mod k - 1"]) auto
  with False show ?thesis by simp
qed

lemma days_before_year_Suc: "days_before_year (y + 1) = days_before_year y + 365 + leap_day y"
proof -
  have gen: "365 * y + (A + i) - (B + j) + (C + k) = 365 * (y - 1) + A - B + C + 365 + (i - j + k)"
    for A B C i j k :: int by simp
  have "400 dvd y \<longrightarrow> 100 dvd y" "100 dvd y \<longrightarrow> 4 dvd y"
    using dvd_trans [of 100 400 y] dvd_trans [of 4 100 y] by auto
  then have dv: "y mod 400 = 0 \<longrightarrow> y mod 100 = 0" "y mod 100 = 0 \<longrightarrow> y mod 4 = 0"
    by (simp_all only: mod_eq_0_iff_dvd)
  have ind: "(R \<longrightarrow> Q) \<Longrightarrow> (Q \<longrightarrow> P) \<Longrightarrow> (if P \<and> (\<not> Q \<or> R) then 1 else 0)
      = (if P then 1 else 0) - (if Q then 1 else 0) + (if R then 1 else (0::int))" for P Q R
    by (cases P; cases Q; cases R; simp)
  have l: "leap_day y = (if y mod 4 = 0 then 1 else 0) - (if y mod 100 = 0 then 1 else 0)
      + (if y mod 400 = 0 then 1 else 0)"
    unfolding leap_day_def is_leap_def using dv by (rule ind)
  show ?thesis
    unfolding days_before_year_def Let_def add_diff_cancel_right' l
    by (subst div_pred [of 4 y], simp, subst div_pred [of 100 y], simp, subst div_pred [of 400 y], simp, rule gen)
qed

lemma days_before_year_mono: "x \<le> y \<Longrightarrow> days_before_year x \<le> days_before_year y"
proof (induction y rule: int_ge_induct)
  case (step i)
  then show ?case using days_before_year_Suc [of i] leap_day_bounds [of i] by simp
qed simp

text \<open>The digits of a year in the cycles of 400, 100 and 4 years.\<close>

lemma days_before_year_cycles:
  assumes "0 \<le> b" "b \<le> 3" "0 \<le> c" "c \<le> 24" "0 \<le> e" "e \<le> 3"
  shows "days_before_year (400 * a + 100 * b + 4 * c + e + 1) = 146097 * a + 36524 * b + 1461 * c + 365 * e"
proof -
  have "(400 * a + 100 * b + 4 * c + e) div 4 = 100 * a + 25 * b + c"
    using assms by (intro int_div_pos_eq [where r = e]) auto
  moreover have "(400 * a + 100 * b + 4 * c + e) div 100 = 4 * a + b"
    using assms by (intro int_div_pos_eq [where r = "4 * c + e"]) auto
  moreover have "(400 * a + 100 * b + 4 * c + e) div 400 = a"
    using assms by (intro int_div_pos_eq [where r = "100 * b + 4 * c + e"]) auto
  ultimately show ?thesis by (simp add: days_before_year_def)
qed

lemma mod_eq_0_top: "1 \<le> x \<Longrightarrow> x \<le> k \<Longrightarrow> x mod k = 0 \<longleftrightarrow> x = (k::int)"
  by (cases "x = k") auto

lemma leap_day_cycles:
  assumes "0 \<le> b" "b \<le> 3" "0 \<le> c" "c \<le> 24" "0 \<le> e" "e \<le> 3"
  shows "is_leap (400 * a + 100 * b + 4 * c + e + 1) \<longleftrightarrow> e = 3 \<and> (c \<noteq> 24 \<or> b = 3)"
proof -
  let ?y = "400 * a + 100 * b + 4 * c + e + 1"
  have "?y = (e + 1) + 4 * (100 * a + 25 * b + c)" "?y = (4 * c + e + 1) + 100 * (4 * a + b)"
    "?y = (100 * b + 4 * c + e + 1) + 400 * a" by simp_all
  then have "?y mod 4 = (e + 1) mod 4" "?y mod 100 = (4 * c + e + 1) mod 100"
    "?y mod 400 = (100 * b + 4 * c + e + 1) mod 400" by (metis mod_mult_self2)+
  moreover have "(e + 1) mod 4 = 0 \<longleftrightarrow> e + 1 = 4"
    using assms by (intro mod_eq_0_top) linarith+
  moreover have "(4 * c + e + 1) mod 100 = 0 \<longleftrightarrow> 4 * c + e + 1 = 100"
    using assms by (intro mod_eq_0_top) linarith+
  moreover have "(100 * b + 4 * c + e + 1) mod 400 = 0 \<longleftrightarrow> 100 * b + 4 * c + e + 1 = 400"
    using assms by (intro mod_eq_0_top) linarith+
  moreover have "4 * c + e + 1 = 100 \<longleftrightarrow> c = 24 \<and> e = 3"
    "100 * b + 4 * c + e + 1 = 400 \<longleftrightarrow> b = 3 \<and> c = 24 \<and> e = 3"
    using assms by linarith+
  ultimately show ?thesis unfolding is_leap_def by simp argo
qed

lemma year_yday_correct:
  assumes "year_yday n = (y, yd)"
  shows "n = days_before_year y + yd" "0 \<le> yd" "yd < 365 + leap_day y"
proof -
  define a r1 where "a = n div 146097" and "r1 = n mod 146097"
  define b where "b = min 3 (r1 div 36524)"
  define r2 where "r2 = r1 - 36524 * b"
  define c r3 where "c = r2 div 1461" and "r3 = r2 mod 1461"
  define e where "e = min 3 (r3 div 365)"
  have y: "y = 400 * a + 100 * b + 4 * c + e + 1" and yd: "yd = r3 - 365 * e"
    using assms unfolding year_yday_def Let_def a_def r1_def b_def r2_def c_def r3_def e_def by auto
  have r1: "0 \<le> r1" "r1 < 146097" "n = 146097 * a + r1" by (auto simp: r1_def a_def)
  have b: "0 \<le> b" "b \<le> 3" "36524 * b \<le> r1" "b < 3 \<Longrightarrow> r1 < 36524 * b + 36524"
    using r1 by (auto simp: b_def min_def)
  have r2: "0 \<le> r2" "r2 \<le> 36524" "b < 3 \<Longrightarrow> r2 < 36524" "r1 = 36524 * b + r2"
    using r1 b unfolding r2_def by (cases "b < 3"; linarith)+
  have c: "0 \<le> c" "c \<le> 24" "r2 = 1461 * c + r3" "0 \<le> r3" "r3 < 1461"
    using r2 by (auto simp: c_def r3_def)
  have e: "0 \<le> e" "e \<le> 3" "365 * e \<le> r3" "e < 3 \<Longrightarrow> r3 < 365 * e + 365"
    using c by (auto simp: e_def min_def)
  note cyc = b(1,2) c(1,2) e(1,2)
  show "n = days_before_year y + yd"
    unfolding y yd days_before_year_cycles [OF cyc] using r1 r2 c by simp
  show "0 \<le> yd" using e yd by simp
  have "e = 3 \<Longrightarrow> c = 24 \<Longrightarrow> b < 3 \<Longrightarrow> r3 < 1460" using r2 c by auto
  then show "yd < 365 + leap_day y"
    using e c yd b unfolding leap_day_def y leap_day_cycles [OF cyc] by (cases "e = 3") auto
qed

lemma year_yday_mono:
  assumes "m \<le> n"
  shows "fst (year_yday m) < fst (year_yday n)
    \<or> fst (year_yday m) = fst (year_yday n) \<and> snd (year_yday m) \<le> snd (year_yday n)"
proof -
  obtain x u y v where xu: "year_yday m = (x, u)" and yv: "year_yday n = (y, v)" by fastforce
  note m = year_yday_correct [OF xu] and n = year_yday_correct [OF yv]
  have "\<not> y < x"
  proof
    assume "y < x"
    then have "days_before_year (y + 1) \<le> days_before_year x" by (intro days_before_year_mono) simp
    then show False using m n assms days_before_year_Suc [of y] by linarith
  qed
  then show ?thesis using m n assms xu yv by auto
qed

lemma days_from_civil_inverse:
  "days_from_civil (Year t) (Month t) (Day t) = t div day_ns"
  using year_yday_correct [of "day_number t" "Year t" "YearDay0 t"]
  by (simp add: days_from_civil_def Day_def Year_def YearDay0_def day_number_def)

lemma sorted_filter_le:
  "sorted xs \<Longrightarrow> 0 < length (filter (\<lambda>s. s \<le> y) xs) \<Longrightarrow> xs ! (length (filter (\<lambda>s. s \<le> y) xs) - 1) \<le> (y::int)"
proof (induction xs)
  case (Cons a xs)
  show ?case
  proof (cases "a \<le> y")
    case True
    with Cons show ?thesis by (auto simp: nth_Cons')
  next
    case False
    with Cons.prems(1) have "filter (\<lambda>s. s \<le> y) xs = []" by (auto simp: filter_empty_conv)
    with False Cons.prems(2) show ?thesis by simp
  qed
qed simp

lemma month_of_bounds: "0 \<le> yd \<Longrightarrow> 1 \<le> month_of l yd \<and> month_of l yd \<le> 12"
  using length_filter_le [of "\<lambda>s. s \<le> yd" "month_starts l"]
  by (simp add: month_of_def month_starts_def)

lemma month_of_mono: "x \<le> y \<Longrightarrow> month_of l x \<le> month_of l y"
  unfolding month_of_def month_starts_def by simp

lemma month_start_le:
  assumes "0 \<le> yd" "0 \<le> l" "l \<le> 1"
  shows "month_starts l ! nat (month_of l yd - 1) \<le> yd"
proof -
  have "sorted (month_starts l)" using assms by (simp add: month_starts_def)
  moreover have "0 < length (filter (\<lambda>s. s \<le> yd) (month_starts l))"
    using assms by (simp add: month_starts_def)
  ultimately show ?thesis
    using sorted_filter_le [of "month_starts l" yd] by (simp add: month_of_def nat_diff_distrib')
qed

text \<open>No month has more than 31 days.\<close>

lemma month_length:
  assumes "0 \<le> yd" "yd < 365 + l" "0 \<le> l" "l \<le> 1"
  shows "yd < month_starts l ! nat (month_of l yd - 1) + 31"
proof -
  consider "yd < 31" | "31 \<le> yd" "yd < 59 + l" | "59 + l \<le> yd" "yd < 90 + l" | "90 + l \<le> yd" "yd < 120 + l"
    | "120 + l \<le> yd" "yd < 151 + l" | "151 + l \<le> yd" "yd < 181 + l" | "181 + l \<le> yd" "yd < 212 + l"
    | "212 + l \<le> yd" "yd < 243 + l" | "243 + l \<le> yd" "yd < 273 + l" | "273 + l \<le> yd" "yd < 304 + l"
    | "304 + l \<le> yd" "yd < 334 + l" | "334 + l \<le> yd" by linarith
  then show ?thesis using assms by cases (simp_all add: month_of_def month_starts_def)
qed

section \<open>Moments and their layout\<close>

lemma Hour_bounds: "0 \<le> Hour t" "Hour t < 24"
proof -
  have "0 \<le> t mod day_ns" "t mod day_ns < 24 * hour_ns" by (simp_all add: day_ns_def hour_ns_def)
  then show "0 \<le> Hour t" "Hour t < 24" by (auto simp: Hour_def hour_ns_def)
qed

lemma YearDay0_bounds: "0 \<le> YearDay0 t" "YearDay0 t < 365 + leap_day (Year t)"
  using year_yday_correct [of "day_number t" "Year t" "YearDay0 t"]
  by (simp_all add: Year_def YearDay0_def)

lemma Month_bounds: "1 \<le> Month t" "Month t \<le> 12"
  using month_of_bounds [OF YearDay0_bounds(1)] by (simp_all add: Month_def)

lemma Day_bounds: "1 \<le> Day t" "Day t \<le> 31"
  using month_start_le [OF YearDay0_bounds(1) leap_day_bounds, of "Year t" t]
    month_length [OF YearDay0_bounds leap_day_bounds, of t]
  by (auto simp: Day_def Month_def)

text \<open>A moment's hour, written as a date and read back.\<close>

lemma day_hour_split: "t = t div day_ns * day_ns + Hour t * hour_ns + t mod hour_ns"
proof -
  have "t mod day_ns mod hour_ns = t mod hour_ns"
    by (rule mod_mod_cancel) (simp add: day_ns_def hour_ns_def)
  then have "t mod day_ns = Hour t * hour_ns + t mod hour_ns"
    unfolding Hour_def by (metis div_mult_mod_eq)
  then show ?thesis by (metis add.assoc div_mult_mod_eq)
qed

lemma Date_fields: "Date (Year t) (Month t) (Day t) (Hour t) 0 = Truncate_hour t"
proof -
  have "(Month t - 1) div 12 = 0" "(Month t - 1) mod 12 + 1 = Month t" using Month_bounds [of t] by auto
  then have "Date (Year t) (Month t) (Day t) (Hour t) 0 = t div day_ns * day_ns + Hour t * hour_ns"
    by (simp add: Date_def days_from_civil_inverse)
  then show ?thesis using day_hour_split [of t] by (simp add: Truncate_hour_def)
qed

lemma AddDate_days: "AddDate t 0 0 d = t + d * day_ns"
proof -
  have "(Month t - 1) div 12 = 0" "(Month t - 1) mod 12 + 1 = Month t" using Month_bounds [of t] by auto
  moreover have "days_from_civil (Year t) (Month t) (Day t + d) = t div day_ns + d"
    using days_from_civil_inverse [of t] by (simp add: days_from_civil_def)
  ultimately show ?thesis by (simp add: AddDate_def Date_def algebra_simps)
qed

lemma same_day_fields:
  assumes "s div day_ns = t div day_ns"
  shows "Year s = Year t" "Month s = Month t" "Day s = Day t"
  using assms by (simp_all add: Year_def Month_def Day_def YearDay0_def day_number_def)

lemma Truncate_hour_idem [simp]: "Truncate_hour (Truncate_hour t) = Truncate_hour t"
  by (simp add: Truncate_hour_def mod_diff_left_eq [symmetric])

lemma Truncate_fields:
  "Year (Truncate_hour t) = Year t" "Month (Truncate_hour t) = Month t"
  "Day (Truncate_hour t) = Day t" "Hour (Truncate_hour t) = Hour t"
proof -
  let ?s = "Truncate_hour t"
  have s: "?s = t div day_ns * day_ns + Hour t * hour_ns" using day_hour_split [of t] by (simp add: Truncate_hour_def)
  have r: "0 \<le> Hour t * hour_ns" "Hour t * hour_ns < day_ns"
    using Hour_bounds [of t] by (auto simp: day_ns_def hour_ns_def)
  have d: "?s div day_ns = t div day_ns"
    unfolding s by (rule int_div_pos_eq [where r = "Hour t * hour_ns"]) (use r in auto)
  have "?s mod day_ns = Hour t * hour_ns"
    unfolding s by (rule int_mod_pos_eq [where q = "t div day_ns"]) (use r in auto)
  then show "Hour ?s = Hour t" by (simp add: Hour_def [of ?s] hour_ns_def)
  show "Year ?s = Year t" "Month ?s = Month t" "Day ?s = Day t" using same_day_fields [OF d] .
qed

lemma hour_parts_Truncate [simp]: "hour_parts (Truncate_hour t) = hour_parts t"
  by (simp add: hour_parts_def Truncate_fields)

text \<open>The fields of a later hour are later, in the order the layout writes them.\<close>

definition hour_key :: "time \<Rightarrow> int list" where
  "hour_key t = [Year t, Month t, Day t, Hour t]"

lemma hour_key_mono:
  assumes "s \<le> t"
  shows "hour_key s \<le> hour_key t"
proof (cases "s div day_ns = t div day_ns")
  case True
  then have "s mod day_ns \<le> t mod day_ns" using assms
    by (metis add_le_cancel_left div_mult_mod_eq)
  then have "Hour s \<le> Hour t" unfolding Hour_def by (intro zdiv_mono1) (auto simp: hour_ns_def)
  then show ?thesis using same_day_fields [OF True] by (auto simp: hour_key_def)
next
  case False
  have "0 < day_ns" by (simp add: day_ns_def)
  then have "s div day_ns \<le> t div day_ns" using assms by (intro zdiv_mono1)
  then have lt: "day_number s < day_number t" using False by (simp add: day_number_def)
  have fields: "day_number u = days_before_year (Year u) + YearDay0 u" for u
    using year_yday_correct [of "day_number u" "Year u" "YearDay0 u"] by (simp add: Year_def YearDay0_def)
  have "Year s < Year t \<or> Year s = Year t \<and> YearDay0 s \<le> YearDay0 t"
    using year_yday_mono [of "day_number s" "day_number t"] lt unfolding Year_def YearDay0_def by simp
  then show ?thesis
  proof
    assume "Year s = Year t \<and> YearDay0 s \<le> YearDay0 t"
    then have y: "Year s = Year t" and yd: "YearDay0 s < YearDay0 t"
      using fields [of s] fields [of t] lt by auto
    have "Month s \<le> Month t" using yd unfolding Month_def y by (intro month_of_mono) simp
    moreover have "Month s = Month t \<Longrightarrow> Day s < Day t" using yd unfolding Day_def y by simp
    ultimately show ?thesis using y by (auto simp: hour_key_def order_le_less)
  qed (simp add: hour_key_def)
qed

lemma hour_key_eq: "hour_key s = hour_key t \<longleftrightarrow> Truncate_hour s = Truncate_hour t"
proof
  assume "hour_key s = hour_key t"
  then show "Truncate_hour s = Truncate_hour t" by (simp add: hour_key_def flip: Date_fields)
next
  assume eq: "Truncate_hour s = Truncate_hour t"
  have "hour_key (Truncate_hour u) = hour_key u" for u
    by (simp add: hour_key_def Truncate_fields)
  with eq show "hour_key s = hour_key t" by metis
qed

lemma hour_key_less: "hour_key s < hour_key t \<longleftrightarrow> Truncate_hour s < Truncate_hour t"
proof -
  have k: "hour_key (Truncate_hour u) = hour_key u" for u
    by (simp add: hour_key_eq)
  have "hour_key s \<le> hour_key t" if "Truncate_hour s \<le> Truncate_hour t" for s t
    using hour_key_mono [OF that] by (simp add: k)
  then show ?thesis by (metis hour_key_eq linorder_not_less order_le_less)
qed

section \<open>The layout of an hour\<close>

definition written_year :: "time \<Rightarrow> bool" where
  "written_year t \<longleftrightarrow> 0 \<le> Year t \<and> Year t \<le> 9999"

lemma hour_parts_zpad:
  "written_year t \<Longrightarrow> hour_parts t = [zpad 4 (nat (Year t)), zpad 2 (nat (Month t)), zpad 2 (nat (Day t)), zpad 2 (nat (Hour t))]"
  using Month_bounds [of t] Day_bounds [of t] Hour_bounds [of t]
  by (simp add: hour_parts_def fmt_int_def written_year_def)

lemma field_bounds:
  assumes "written_year t"
  shows "nat (Year t) < 10 ^ 4" "nat (Month t) < 10 ^ 2" "nat (Day t) < 10 ^ 2" "nat (Hour t) < 10 ^ 2"
  using assms Month_bounds [of t] Day_bounds [of t] Hour_bounds [of t] by (auto simp: written_year_def)

lemma length_hour_parts: "written_year t \<Longrightarrow> map length (hour_parts t) = [4, 2, 2, 2]"
  using field_bounds [of t] by (simp add: hour_parts_zpad length_zpad)

lemma Format_hour_less_iff:
  assumes "written_year s" "written_year t"
  shows "Format_hour s @ u < Format_hour t @ v \<longleftrightarrow>
    Truncate_hour s < Truncate_hour t \<or> Truncate_hour s = Truncate_hour t \<and> u < v"
proof -
  note len = length_zpad [of _ 4] length_zpad [of _ 2]
  note b = field_bounds [OF assms(1)] field_bounds [OF assms(2)]
  have less: "zpad w (nat a) @ x < zpad w (nat c) @ y \<longleftrightarrow> a < c \<or> a = c \<and> x < y"
    if "nat a < 10 ^ w" "nat c < 10 ^ w" "0 < w" "0 \<le> a" "0 \<le> c" for a c w x y
    using that by (auto simp: same_length_append_less length_zpad zpad_less_iff zpad_inj)
  have nn: "0 \<le> Year s" "0 \<le> Year t" "0 \<le> Month s" "0 \<le> Month t" "0 \<le> Day s" "0 \<le> Day t" "0 \<le> Hour s" "0 \<le> Hour t"
    using assms Month_bounds [of s] Day_bounds [of s] Hour_bounds [of s]
      Month_bounds [of t] Day_bounds [of t] Hour_bounds [of t] by (auto simp: written_year_def)
  have "Format_hour s @ u < Format_hour t @ v \<longleftrightarrow> hour_key s < hour_key t \<or> hour_key s = hour_key t \<and> u < v"
    using less [of _ 4] less [of _ 2] b nn
    by (simp add: Format_hour_def hour_parts_zpad assms hour_key_def) auto
  then show ?thesis by (simp add: hour_key_less hour_key_eq)
qed

lemma Format_hour_eq_iff:
  assumes "written_year s" "written_year t"
  shows "Format_hour s = Format_hour t \<longleftrightarrow> Truncate_hour s = Truncate_hour t"
  using Format_hour_less_iff [OF assms, of "[]" "[]"] Format_hour_less_iff [OF assms(2,1), of "[]" "[]"]
  by (auto simp: Format_hour_def hour_parts_Truncate [of s, symmetric] hour_parts_Truncate [of t, symmetric]
      simp del: hour_parts_Truncate)

end
