(* ===== verification/Auditrecord.thy ===== *)
theory Auditrecord
  imports Gotime Sha256
begin

text \<open>
  \<open>sdk/record\<close>: the audit record and what every component does with one. The generated protobuf type is
  the record \<open>Record\<close>, with the fields of \<open>record.proto\<close>: a message that may be absent is an option, a
  \<open>google.protobuf.Struct\<close> an association list of distinct names. The canonical form (RFC 8785 over the
  protobuf JSON mapping) is an argument \<open>canon\<close> of the definitions that take a hash or a size over it.

  Shown: a stamp's hash does not depend on the profile, so every copy of a record carries one value,
  and it commits to the record.
\<close>

section \<open>The message\<close>

datatype Value =
    VNull
  | VNumber u64
  | VString string
  | VBool bool
  | VStruct "(string \<times> Value) list option"
  | VList "Value list"

type_synonym Struct = "(string \<times> Value) list"

datatype Operation =
    OPERATION_UNSPECIFIED | OPERATION_CREATE | OPERATION_ACCESS | OPERATION_MODIFY | OPERATION_REMOVE
  | OPERATION_AUTHENTICATION | OPERATION_TRANSFER | OPERATION_RESTORE

datatype Result = RESULT_UNSPECIFIED | RESULT_SUCCESS | RESULT_FAILURE | RESULT_DENIED | RESULT_UNKNOWN

datatype Level = LEVEL_UNSPECIFIED | LEVEL_METADATA | LEVEL_REQUEST | LEVEL_REQUEST_RESPONSE

datatype MeterKind = KIND_UNSPECIFIED | KIND_COUNT | KIND_GAUGE

record Outcome =
  ou_Result :: Result
  ou_Reason :: string
  ou_Code :: string

record Observer =
  ob_Id :: string
  ob_Version :: string
  ob_Instance :: string

record Party =
  pa_Kind :: string
  pa_Id :: string

record Actor =
  ac_Kind :: string
  ac_Id :: string
  ac_SessionId :: string
  ac_AuthMethod :: string
  ac_CredentialHash :: string
  ac_Attributes :: "Struct option"

record Target =
  ta_Type :: string
  ta_Id :: string
  ta_Name :: string
  ta_Attributes :: "Struct option"

record Context =
  cx_ClientAddresses :: "string list"
  cx_UserAgent :: string
  cx_RequestId :: string
  cx_TraceId :: string
  cx_SpanId :: string
  cx_Areas :: "(string \<times> Struct) list"

record Capture =
  ca_Level :: Level
  ca_Request :: "Struct option"
  ca_Response :: "Struct option"
  ca_Truncated :: bool

record Meter =
  me_Name :: string
  me_Quantity :: string
  me_Unit :: string
  me_Kind :: MeterKind
  me_Dimensions :: "Struct option"

record Record =
  r_Id :: string
  r_OccurredAt :: "time option"
  r_RecordedAt :: "time option"
  r_SchemaVersion :: string
  r_CatalogueVersion :: string
  r_Source :: string
  r_Observer :: "Observer option"
  r_Sequence :: u64
  r_Action :: string
  r_Operation :: Operation
  r_Outcome :: "Outcome option"
  r_TenantId :: string
  r_Subject :: "Party option"
  r_Actor :: "Actor option"
  r_Targets :: "Target list"
  r_Context :: "Context option"
  r_Capture :: "Capture option"
  r_PreviousAttributes :: "Struct option"
  r_Data :: "Struct option"
  r_Meter :: "Meter option"
  r_Attributes :: "(string \<times> string) list"
  r_Unmapped :: "Struct option"
  r_OriginHash :: string
  r_Profile :: string

definition empty_record :: Record where
  "empty_record = \<lparr>r_Id = [], r_OccurredAt = None, r_RecordedAt = None, r_SchemaVersion = [], r_CatalogueVersion = [],
     r_Source = [], r_Observer = None, r_Sequence = 0, r_Action = [], r_Operation = OPERATION_UNSPECIFIED,
     r_Outcome = None, r_TenantId = [], r_Subject = None, r_Actor = None, r_Targets = [], r_Context = None,
     r_Capture = None, r_PreviousAttributes = None, r_Data = None, r_Meter = None, r_Attributes = [],
     r_Unmapped = None, r_OriginHash = [], r_Profile = []\<rparr>"

definition SchemaVersion :: string where "SchemaVersion = ''1.0''"

definition TenantPlatform :: string where "TenantPlatform = ''@platform''"

section \<open>Hashes and stamps\<close>

type_synonym canonical = "Record \<Rightarrow> string + bytes"

definition OriginHash :: "canonical \<Rightarrow> Record \<Rightarrow> string + string" where
  "OriginHash canon r =
     (let c = r\<lparr>r_Profile := [], r_OriginHash := []\<rparr>
      in map_sum (\<lambda>e. e) (\<lambda>b. hex_EncodeToString (sha256 b)) (canon c))"

definition Stamp :: "canonical \<Rightarrow> Record \<Rightarrow> Observer option \<Rightarrow> time \<Rightarrow> string option \<times> Record" where
  "Stamp canon r observer at =
     (let r = r\<lparr>r_RecordedAt := Some at, r_Observer := observer, r_Profile := [], r_OriginHash := []\<rparr>
      in case OriginHash canon r of
           Inl e \<Rightarrow> (Some e, r)
         | Inr h \<Rightarrow> (None, r\<lparr>r_OriginHash := h\<rparr>))"

text \<open>\<open>Assign\<close>; the identifier a new record gets and the time it is are arguments.\<close>

definition Assign :: "string \<Rightarrow> time \<Rightarrow> Record \<Rightarrow> Record" where
  "Assign new_id now r =
     (let r = (if r_Id r = [] then r\<lparr>r_Id := new_id\<rparr> else r);
          r = (if r_OccurredAt r = None then r\<lparr>r_OccurredAt := Some now\<rparr> else r);
          r = (if r_SchemaVersion r = [] then r\<lparr>r_SchemaVersion := SchemaVersion\<rparr> else r)
      in case r_Outcome r of
           None \<Rightarrow> r\<lparr>r_Outcome := Some \<lparr>ou_Result = RESULT_SUCCESS, ou_Reason = [], ou_Code = []\<rparr>\<rparr>
         | Some out \<Rightarrow>
             if ou_Result out = RESULT_UNSPECIFIED then r\<lparr>r_Outcome := Some (out\<lparr>ou_Result := RESULT_SUCCESS\<rparr>)\<rparr>
             else r)"

definition Size :: "canonical \<Rightarrow> Record \<Rightarrow> nat" where
  "Size canon r = (case canon r of Inl e \<Rightarrow> 0 | Inr b \<Rightarrow> length b)"

definition stampedUpstream :: "canonical \<Rightarrow> Record \<Rightarrow> bool" where
  "stampedUpstream canon r =
     (if r_OriginHash r = [] \<or> (case r_Observer r of None \<Rightarrow> True | Some ob \<Rightarrow> ob_Id ob = []) \<or> r_RecordedAt r = None
      then False
      else OriginHash canon r = Inr (r_OriginHash r))"

lemma OriginHash_cong [simp]:
  "OriginHash canon (r\<lparr>r_Profile := p\<rparr>) = OriginHash canon r"
  "OriginHash canon (r\<lparr>r_OriginHash := h\<rparr>) = OriginHash canon r"
  by (simp_all add: OriginHash_def)

lemma Stamp_fields:
  assumes "Stamp canon r ob at = (e, r')"
  shows "r_Id r' = r_Id r" "r_TenantId r' = r_TenantId r" "r_Action r' = r_Action r" "r_Actor r' = r_Actor r"
    "r_Data r' = r_Data r" "r_RecordedAt r' = Some at" "r_Observer r' = ob" "r_Profile r' = []"
  using assms by (auto simp: Stamp_def Let_def split: sum.splits)

section \<open>Properties\<close>

text \<open>
  C22: A stamped record verifies as stamped upstream when its observer has an identity, whatever
  profile its copy is later given; and two records that verify with the same hash have, apart from
  profile and hash, the same canonical form, or those two canonical forms collide under SHA-256. So a record
  cannot be changed after it is stamped without the stamp ceasing to verify.
\<close>

theorem stamp_verifies_and_binds:
  assumes "Stamp canon r (Some ob) at = (None, r')" "ob_Id ob \<noteq> []"
  shows "stampedUpstream canon (r'\<lparr>r_Profile := p\<rparr>)
    \<and> (\<forall>s. stampedUpstream canon s \<and> r_OriginHash s = r_OriginHash r' \<longrightarrow>
         (\<exists>b c. canon (r'\<lparr>r_Profile := [], r_OriginHash := []\<rparr>) = Inr b
            \<and> canon (s\<lparr>r_Profile := [], r_OriginHash := []\<rparr>) = Inr c \<and> (c = b \<or> collision c b)))"
proof -
  let ?q = "r\<lparr>r_RecordedAt := Some at, r_Observer := Some ob, r_Profile := [], r_OriginHash := []\<rparr>"
  obtain h where h: "OriginHash canon ?q = Inr h" and r': "r' = ?q\<lparr>r_OriginHash := h\<rparr>"
    using assms(1) by (auto simp: Stamp_def Let_def split: sum.splits)
  obtain b where b: "canon ?q = Inr b" "h = hex_EncodeToString (sha256 b)"
    using h by (auto simp: OriginHash_def map_sum_def split: sum.splits)
  have "h \<noteq> []" using b(2) by (metis length_0_conv length_hex length_sha256 mult_is_0 zero_neq_numeral)
  then have "stampedUpstream canon (r'\<lparr>r_Profile := p\<rparr>)"
    using h assms(2) by (simp add: stampedUpstream_def r')
  moreover have "\<exists>b c. canon (r'\<lparr>r_Profile := [], r_OriginHash := []\<rparr>) = Inr b
      \<and> canon (s\<lparr>r_Profile := [], r_OriginHash := []\<rparr>) = Inr c \<and> (c = b \<or> collision c b)"
    if "stampedUpstream canon s" "r_OriginHash s = r_OriginHash r'" for s
  proof -
    have "OriginHash canon s = Inr h" using that by (auto simp: stampedUpstream_def r' split: if_splits)
    then obtain c where c: "canon (s\<lparr>r_Profile := [], r_OriginHash := []\<rparr>) = Inr c" "h = hex_EncodeToString (sha256 c)"
      by (auto simp: OriginHash_def map_sum_def split: sum.splits)
    have "canon (r'\<lparr>r_Profile := [], r_OriginHash := []\<rparr>) = Inr b" using b(1) by (simp add: r')
    moreover have "sha256 c = sha256 b" using b(2) c(2) hex_EncodeToString_inj by metis
    ultimately show ?thesis using c(1) by (auto simp: collision_def)
  qed
  ultimately show ?thesis by blast
qed

theorem stamp_verifies_and_binds_witness:
  "stampedUpstream (\<lambda>r. Inr (r_Id r)) ((snd (Stamp (\<lambda>r. Inr (r_Id r)) (empty_record\<lparr>r_Id := ''a''\<rparr>)
     (Some \<lparr>ob_Id = ''w'', ob_Version = [], ob_Instance = []\<rparr>) 7))\<lparr>r_Profile := ''security''\<rparr>)"
proof -
  let ?c = "\<lambda>r. Inr (r_Id r) :: string + bytes" and ?ob = "\<lparr>ob_Id = ''w'', ob_Version = [], ob_Instance = []\<rparr>"
  obtain r' where "Stamp ?c (empty_record\<lparr>r_Id := ''a''\<rparr>) (Some ?ob) 7 = (None, r')"
    by (simp add: Stamp_def OriginHash_def)
  from stamp_verifies_and_binds [OF this, of "''security''"] this show ?thesis by simp
qed

end
