(* ===== verification/Utf8.thy ===== *)
theory Utf8
  imports Audit_Prelude
begin

text \<open>
  Package \<open>unicode/utf8\<close> of Go's standard library, and the loops over runes built on it: decoding one
  rune (an invalid byte is \<open>RuneError\<close>, of width one), encoding one, ranging over a string and
  \<open>strings.Map\<close>. Bytes are numbers here; \<open>nats\<close> and \<open>chars\<close> convert.

  Shown: decoding inverts encoding, and a proper part of an encoded rune decodes to errors only, so
  that the end of a string cut in the middle of a rune can be told.
\<close>

definition nats :: "string \<Rightarrow> nat list" where "nats s = map of_char s"

definition chars :: "nat list \<Rightarrow> string" where "chars ns = map char_of ns"

definition RuneError :: nat where "RuneError = 65533"

definition cont :: "nat \<Rightarrow> bool" where "cont b \<longleftrightarrow> 128 \<le> b \<and> b \<le> 191"

text \<open>The bounds the first byte puts on the second.\<close>

definition second_ok :: "nat \<Rightarrow> nat \<Rightarrow> bool" where
  "second_ok a b \<longleftrightarrow>
     (if a = 224 then 160 else if a = 240 then 144 else 128) \<le> b
     \<and> b \<le> (if a = 237 then 159 else if a = 244 then 143 else 191)"

definition DecodeRune :: "nat list \<Rightarrow> nat \<times> nat" where
  "DecodeRune s =
     (case s of
        [] \<Rightarrow> (RuneError, 0)
      | a # t \<Rightarrow>
          if a < 128 then (a, 1)
          else if 194 \<le> a \<and> a \<le> 223 then
            (case t of b # _ \<Rightarrow> if cont b then ((a - 192) * 64 + (b - 128), 2) else (RuneError, 1) | [] \<Rightarrow> (RuneError, 1))
          else if 224 \<le> a \<and> a \<le> 239 then
            (case t of b # c # _ \<Rightarrow>
                if second_ok a b \<and> cont c then ((a - 224) * 4096 + (b - 128) * 64 + (c - 128), 3) else (RuneError, 1)
             | _ \<Rightarrow> (RuneError, 1))
          else if 240 \<le> a \<and> a \<le> 244 then
            (case t of b # c # d # _ \<Rightarrow>
                if second_ok a b \<and> cont c \<and> cont d
                then ((a - 240) * 262144 + (b - 128) * 4096 + (c - 128) * 64 + (d - 128), 4) else (RuneError, 1)
             | _ \<Rightarrow> (RuneError, 1))
          else (RuneError, 1))"

definition valid_rune :: "nat \<Rightarrow> bool" where
  "valid_rune r \<longleftrightarrow> r < 55296 \<or> 57344 \<le> r \<and> r \<le> 1114111"

definition encode_valid :: "nat \<Rightarrow> nat list" where
  "encode_valid r =
     (if r < 128 then [r]
      else if r < 2048 then [192 + r div 64, 128 + r mod 64]
      else if r < 65536 then [224 + r div 4096, 128 + r div 64 mod 64, 128 + r mod 64]
      else [240 + r div 262144, 128 + r div 4096 mod 64, 128 + r div 64 mod 64, 128 + r mod 64])"

definition EncodeRune :: "nat \<Rightarrow> nat list" where
  "EncodeRune r = encode_valid (if valid_rune r then r else RuneError)"

definition encode_runes :: "nat list \<Rightarrow> nat list" where
  "encode_runes rs = concat (map EncodeRune rs)"

text \<open>\<open>for _, r := range s\<close>.\<close>

lemma DecodeRune_width: "s \<noteq> [] \<Longrightarrow> 0 < snd (DecodeRune s)"
  by (auto simp: DecodeRune_def split: list.splits)

function runes :: "nat list \<Rightarrow> nat list" where
  "runes [] = []"
| "runes (a # s) = fst (DecodeRune (a # s)) # runes (drop (snd (DecodeRune (a # s))) (a # s))"
  by pat_completeness auto
termination
  using DecodeRune_width by (relation "measure length") auto

declare runes.simps(2) [simp del]

lemma runes_Cons:
  "s \<noteq> [] \<Longrightarrow> runes s = fst (DecodeRune s) # runes (drop (snd (DecodeRune s)) s)"
  by (cases s) (auto simp: runes.simps(2))

section \<open>Decoding inverts encoding\<close>

lemma DecodeRune_1: "a < 128 \<Longrightarrow> DecodeRune (a # t) = (a, 1)"
  by (simp add: DecodeRune_def)

lemma DecodeRune_2: "194 \<le> a \<Longrightarrow> a \<le> 223 \<Longrightarrow> cont b \<Longrightarrow> DecodeRune (a # b # t) = ((a - 192) * 64 + (b - 128), 2)"
  by (simp add: DecodeRune_def)

lemma DecodeRune_3: "224 \<le> a \<Longrightarrow> a \<le> 239 \<Longrightarrow> second_ok a b \<Longrightarrow> cont c \<Longrightarrow>
    DecodeRune (a # b # c # t) = ((a - 224) * 4096 + (b - 128) * 64 + (c - 128), 3)"
  by (simp add: DecodeRune_def)

lemma DecodeRune_4: "240 \<le> a \<Longrightarrow> a \<le> 244 \<Longrightarrow> second_ok a b \<Longrightarrow> cont c \<Longrightarrow> cont d \<Longrightarrow>
    DecodeRune (a # b # c # d # t) = ((a - 240) * 262144 + (b - 128) * 4096 + (c - 128) * 64 + (d - 128), 4)"
  by (simp add: DecodeRune_def)

lemma cont_mod: "cont (128 + x mod 64)"
proof -
  have "x mod 64 < 64" by simp
  then show ?thesis unfolding cont_def by linarith
qed

lemma split_64: "(x :: nat) div 64 * 64 + x mod 64 = x"
  by simp

lemma DecodeRune_encode:
  assumes "valid_rune r"
  shows "DecodeRune (encode_valid r @ s) = (r, length (encode_valid r))"
proof -
  consider (a) "r < 128" | (b) "128 \<le> r" "r < 2048" | (c) "2048 \<le> r" "r < 65536" | (d) "65536 \<le> r" "r \<le> 1114111"
    using assms unfolding valid_rune_def by linarith
  then show ?thesis
  proof cases
    case a
    then show ?thesis by (simp add: encode_valid_def DecodeRune_1)
  next
    case b
    have "2 \<le> r div 64" "r div 64 \<le> 31" using b by linarith+
    then show ?thesis using b DecodeRune_2 [of "192 + r div 64" "128 + r mod 64" s] cont_mod [of r]
      by (simp add: encode_valid_def)
  next
    case c
    let ?a = "224 + r div 4096" and ?b = "128 + r div 64 mod 64"
    have q: "r div 4096 = r div 64 div 64" by (simp add: div_mult2_eq [symmetric])
    have hi: "r div 4096 \<le> 15" using c by linarith
    have ok: "second_ok ?a ?b"
    proof -
      have "r div 4096 = 0 \<Longrightarrow> 32 \<le> r div 64 mod 64" using c q by simp
      moreover have "r div 4096 = 13 \<Longrightarrow> r div 64 mod 64 < 32"
      proof -
        assume h: "r div 4096 = 13"
        then have "r < 57344" by linarith
        then have "r < 55296" using assms unfolding valid_rune_def by linarith
        then have "r div 64 < 864" by linarith
        moreover have "r div 64 = 13 * 64 + r div 64 mod 64" using h q by (metis split_64)
        ultimately show ?thesis by linarith
      qed
      moreover have "r div 64 mod 64 < 64" by simp
      ultimately show ?thesis unfolding second_ok_def using hi by auto
    qed
    have "r div 4096 * 4096 + (r div 64 mod 64) * 64 + r mod 64 = r"
      using q split_64 [of "r div 64"] split_64 [of r] by linarith
    then show ?thesis using c hi ok DecodeRune_3 [of ?a ?b "128 + r mod 64" s] cont_mod [of r]
      by (simp add: encode_valid_def)
  next
    case d
    let ?a = "240 + r div 262144" and ?b = "128 + r div 4096 mod 64"
    have q: "r div 4096 = r div 64 div 64" "r div 262144 = r div 4096 div 64" by (simp_all add: div_mult2_eq [symmetric])
    have hi: "r div 262144 \<le> 4" using d by linarith
    have ok: "second_ok ?a ?b"
    proof -
      have "r div 262144 = 0 \<Longrightarrow> 16 \<le> r div 4096 mod 64" using d q(2) by simp
      moreover have "r div 262144 = 4 \<Longrightarrow> r div 4096 mod 64 < 16"
      proof -
        assume h: "r div 262144 = 4"
        have "r div 4096 \<le> 271" using d by linarith
        moreover have "r div 4096 = 4 * 64 + r div 4096 mod 64" using h q(2) by (metis split_64)
        ultimately show ?thesis by linarith
      qed
      moreover have "r div 4096 mod 64 < 64" by simp
      ultimately show ?thesis unfolding second_ok_def using hi by auto
    qed
    have "r div 262144 * 262144 + (r div 4096 mod 64) * 4096 + (r div 64 mod 64) * 64 + r mod 64 = r"
      using q split_64 [of "r div 4096"] split_64 [of "r div 64"] split_64 [of r] by linarith
    then show ?thesis
      using d hi ok DecodeRune_4 [of ?a ?b "128 + r div 64 mod 64" "128 + r mod 64" s] cont_mod [of r] cont_mod [of "r div 64"]
      by (simp add: encode_valid_def)
  qed
qed

lemma valid_RuneError [simp]: "valid_rune RuneError"
  by (simp add: valid_rune_def RuneError_def)

lemma encode_valid_nonempty [simp]: "encode_valid r \<noteq> []"
  by (simp add: encode_valid_def)

lemma runes_encode:
  "list_all valid_rune rs \<Longrightarrow> runes (encode_runes rs @ s) = rs @ runes s"
proof (induction rs)
  case (Cons r rs)
  then have v: "EncodeRune r = encode_valid r" by (simp add: EncodeRune_def)
  have "encode_valid r @ encode_runes rs @ s \<noteq> []" by simp
  with Cons show ?case
    by (simp add: encode_runes_def v runes_Cons DecodeRune_encode)
qed (simp add: encode_runes_def)

lemma DecodeRune_valid: "valid_rune (fst (DecodeRune s))"
proof -
  have e: "valid_rune RuneError" by simp
  show ?thesis
  proof (cases s)
    case (Cons a t)
    have 2: "valid_rune ((a - 192) * 64 + (b - 128))" if "194 \<le> a" "a \<le> 223" "cont b" for b
      using that unfolding valid_rune_def cont_def by linarith
    have 3: "valid_rune ((a - 224) * 4096 + (b - 128) * 64 + (c - 128))"
      if "224 \<le> a" "a \<le> 239" "second_ok a b" "cont c" for b c
      using that unfolding valid_rune_def cont_def second_ok_def by (cases "a \<le> 237"; cases "a = 237") (auto split: if_splits)
    have 4: "valid_rune ((a - 240) * 262144 + (b - 128) * 4096 + (c - 128) * 64 + (d - 128))"
      if "240 \<le> a" "a \<le> 244" "second_ok a b" "cont c" "cont d" for b c d
      using that unfolding valid_rune_def cont_def second_ok_def by (auto split: if_splits)
    show ?thesis
      unfolding Cons DecodeRune_def using 2 3 4 e by (auto simp: valid_rune_def split: list.splits)
  qed (use e in \<open>simp add: DecodeRune_def\<close>)
qed

lemma runes_valid: "list_all valid_rune (runes s)"
  by (induction s rule: runes.induct) (auto simp: runes.simps(2) DecodeRune_valid)

section \<open>The end of a cut string\<close>

lemma DecodeRune_cont: "cont a \<Longrightarrow> DecodeRune (a # s) = (RuneError, 1)"
  by (simp add: DecodeRune_def cont_def)

lemma runes_conts: "list_all cont s \<Longrightarrow> runes s = replicate (length s) RuneError"
  by (induction s) (auto simp: runes.simps(2) DecodeRune_cont)

text \<open>A proper part of an encoded rune: a first byte that asks for more bytes than follow it.\<close>

lemma encode_shape:
  assumes "valid_rune r"
  obtains (1) a where "encode_valid r = [a]"
  | (2) a b where "encode_valid r = [a, b]" "194 \<le> a" "a \<le> 223" "cont b"
  | (3) a b c where "encode_valid r = [a, b, c]" "224 \<le> a" "a \<le> 239" "cont b" "cont c"
  | (4) a b c d where "encode_valid r = [a, b, c, d]" "240 \<le> a" "a \<le> 244" "cont b" "cont c" "cont d"
proof -
  consider "r < 128" | "128 \<le> r" "r < 2048" | "2048 \<le> r" "r < 65536" | "65536 \<le> r" "r \<le> 1114111"
    using assms unfolding valid_rune_def by linarith
  then show ?thesis
  proof cases
    case 1
    then show ?thesis by (intro that(1)) (simp add: encode_valid_def)
  next
    case 2
    then have "194 \<le> 192 + r div 64" "192 + r div 64 \<le> 223" by linarith+
    with 2 cont_mod show ?thesis
      by (intro that(2) [of "192 + r div 64" "128 + r mod 64"]) (simp add: encode_valid_def, assumption+)
  next
    case 3
    then have "224 + r div 4096 \<le> 239" by linarith
    with 3 show ?thesis
      by (intro that(3) [of "224 + r div 4096"]) (simp add: encode_valid_def, simp, assumption, (rule cont_mod)+)
  next
    case 4
    then have "240 + r div 262144 \<le> 244" by linarith
    with 4 show ?thesis
      by (intro that(4) [of "240 + r div 262144"]) (simp add: encode_valid_def, simp, assumption, (rule cont_mod)+)
  qed
qed

lemma encode_partial:
  assumes "valid_rune r" "0 < j" "j < length (encode_valid r)"
  shows "\<exists>a t. take j (encode_valid r) = a # t \<and> 194 \<le> a \<and> list_all cont t \<and> (a = 239 \<longrightarrow> length t < 2)
    \<and> DecodeRune (a # t) = (RuneError, 1)"
  using assms(1)
proof (cases rule: encode_shape)
  case (2 a b)
  then have "j = 1" using assms by simp
  with 2 show ?thesis by (simp add: DecodeRune_def)
next
  case (3 a b c)
  then consider "j = 1" | "j = 2" using assms by force
  then show ?thesis using 3 by cases (simp_all add: DecodeRune_def)
next
  case (4 a b c d)
  then consider "j = 1" | "j = 2" | "j = 3" using assms by force
  then show ?thesis using 4 by cases (simp_all add: DecodeRune_def)
qed (use assms in simp)

section \<open>Whole strings\<close>

lemma runes_encode_all: "list_all valid_rune rs \<Longrightarrow> runes (encode_runes rs) = rs"
  using runes_encode [of rs "[]"] by simp

lemma encode_valid_bytes: "valid_rune r \<Longrightarrow> list_all (\<lambda>b. b < 256) (encode_valid r)"
  by (elim encode_shape) (auto simp: cont_def encode_valid_def split: if_splits)

lemma encode_runes_bytes: "list_all valid_rune rs \<Longrightarrow> list_all (\<lambda>b. b < 256) (encode_runes rs)"
  using encode_valid_bytes by (induction rs) (auto simp: encode_runes_def EncodeRune_def)

section \<open>ASCII\<close>

lemma length_nats: "length (nats s) = length s"
  by (simp add: nats_def)

lemma nats_chars: "list_all (\<lambda>b. b < 256) ns \<Longrightarrow> nats (chars ns) = ns"
  by (induction ns) (simp_all add: nats_def chars_def of_char_of)

lemma ascii_runes: "list_all (\<lambda>b. b < 128) ns \<Longrightarrow> runes ns = ns"
  by (induction ns) (simp_all add: runes.simps(2) DecodeRune_1)

lemma ascii_encode: "list_all (\<lambda>b. b < 128) ns \<Longrightarrow> encode_runes ns = ns"
  by (induction ns) (auto simp: encode_runes_def EncodeRune_def encode_valid_def valid_rune_def)

end
