(* ===== verification/Bounds.thy ===== *)
theory Bounds
  imports Check Utf8
begin

text \<open>
  \<open>sdk/record/bounds.go\<close>: making a record well formed before it is checked. Control characters leave
  the scalar fields, lengths and counts are cut to their bounds, and parts are given up in a published
  order while the record is too large. \<open>canon\<close> and \<open>canon_struct\<close> are the canonical forms of a record and
  of a struct.

  Shown: what \<open>clean\<close> returns is within its bound, is valid UTF-8 and has no control character; the
  counts and lengths of a normalised record are within bounds, and either it fits or everything in the
  published order was given up. A record whose data alone is too large is still too large:
  \<open>normalised_may_be_too_long\<close>.
\<close>

section \<open>Cutting and cleaning strings\<close>

definition utf8ValidEnd :: "nat list \<Rightarrow> bool" where
  "utf8ValidEnd s =
     (let r = runes s in r = [] \<or> last r \<noteq> RuneError \<or> (3 \<le> length s \<and> drop (length s - 3) s = [239, 191, 189]))"

function trim_end :: "nat list \<Rightarrow> nat list" where
  "trim_end s = (if s \<noteq> [] \<and> \<not> utf8ValidEnd s then trim_end (butlast s) else s)"
  by pat_completeness auto
termination by (relation "measure length") auto

declare trim_end.simps [simp del]

definition truncate_n :: "nat list \<Rightarrow> int \<Rightarrow> nat list" where
  "truncate_n s limit = (if limit \<le> 0 \<or> int (length s) \<le> limit then s else trim_end (take (nat limit) s))"

definition truncate :: "string \<Rightarrow> int \<Rightarrow> string" where
  "truncate s limit = chars (truncate_n (nats s) limit)"

definition IsControl :: "nat \<Rightarrow> bool" where
  "IsControl r \<longleftrightarrow> r < 32 \<or> 127 \<le> r \<and> r < 160"

definition clean_rune :: "nat \<Rightarrow> nat option" where
  "clean_rune r = (if r = 10 \<or> r = 13 \<or> r = 9 then Some 32 else if IsControl r then None else Some r)"

definition clean_n :: "nat list \<Rightarrow> int \<Rightarrow> nat list" where
  "clean_n s limit = truncate_n (encode_runes (List.map_filter clean_rune (runes s))) limit"

definition clean :: "string \<Rightarrow> int \<Rightarrow> string" where
  "clean s limit = (if s = [] then s else chars (clean_n (nats s) limit))"

section \<open>Normalising a record\<close>

definition attribute_safe :: "char \<Rightarrow> bool" where
  "attribute_safe c \<longleftrightarrow> az c \<or> (CHR ''A'' \<le> c \<and> c \<le> CHR ''Z'') \<or> is_digit c \<or> c \<in> set ''_.:-''"

text \<open>\<open>attributeKeyUnsafe.ReplaceAllString(k, "_")\<close>: each run of other characters becomes one underscore.\<close>

fun replace_unsafe :: "bool \<Rightarrow> string \<Rightarrow> string" where
  "replace_unsafe in_run [] = []"
| "replace_unsafe in_run (c # cs) =
     (if attribute_safe c then c # replace_unsafe False cs
      else if in_run then replace_unsafe True cs
      else CHR ''_'' # replace_unsafe True cs)"

fun clean_attributes :: "Bounds \<Rightarrow> (string \<times> string) list \<Rightarrow> (string \<times> string) list \<Rightarrow> bool \<Rightarrow> (string \<times> string) list \<times> bool" where
  "clean_attributes b [] out dropped = (out, dropped)"
| "clean_attributes b ((k, v) # rest) out dropped =
     (let key = replace_unsafe False (clean k (bo_AttributeKeyLen b)) in
      if key = [] then clean_attributes b rest out True
      else clean_attributes b rest ((key, clean v (bo_AttributeValueLen b)) # filter (\<lambda>p. fst p \<noteq> key) out) dropped)"

definition normaliseAttributes :: "Record \<Rightarrow> Bounds \<Rightarrow> bool \<times> Record" where
  "normaliseAttributes r b =
     (if r_Attributes r = [] then (False, r)
      else let (out, dropped) = clean_attributes b (r_Attributes r) [] False in
           if bo_AttributeKeys b < int (length out)
           then let keep = take (nat (bo_AttributeKeys b)) (sort (map fst out))
                in (True, r\<lparr>r_Attributes := filter (\<lambda>p. fst p \<in> set keep) out\<rparr>)
           else (dropped, r\<lparr>r_Attributes := out\<rparr>))"

definition structSize :: "(Struct \<Rightarrow> string + bytes) \<Rightarrow> Struct \<Rightarrow> int" where
  "structSize canon_struct s = (case canon_struct s of Inl e \<Rightarrow> 0 | Inr b \<Rightarrow> int (length b))"

definition capSlot :: "(Struct \<Rightarrow> string + bytes) \<Rightarrow> Capture option \<Rightarrow> int \<Rightarrow> bool \<times> Capture option" where
  "capSlot canon_struct c limit =
     (case c of
        None \<Rightarrow> (False, None)
      | Some c \<Rightarrow>
          if limit \<le> 0 then (False, Some c)
          else let big = (\<lambda>s. case s of None \<Rightarrow> False | Some fs \<Rightarrow> limit < structSize canon_struct fs);
                   c1 = (if big (ca_Response c) then c\<lparr>ca_Response := None\<rparr> else c);
                   c2 = (if big (ca_Request c) then c1\<lparr>ca_Request := None\<rparr> else c1)
               in (big (ca_Response c) \<or> big (ca_Request c), Some c2))"

definition TruncationOrder :: "string list" where
  "TruncationOrder = [''capture.response'', ''capture.request'', ''unmapped'', ''attributes'', ''outcome.reason'']"

definition give_up :: "string \<Rightarrow> Record \<Rightarrow> Record" where
  "give_up part r =
     (if part = ''capture.response'' then r\<lparr>r_Capture := map_option (ca_Response_update (\<lambda>_. None)) (r_Capture r)\<rparr>
      else if part = ''capture.request'' then r\<lparr>r_Capture := map_option (ca_Request_update (\<lambda>_. None)) (r_Capture r)\<rparr>
      else if part = ''unmapped'' then r\<lparr>r_Unmapped := None\<rparr>
      else if part = ''attributes'' then r\<lparr>r_Attributes := []\<rparr>
      else if part = ''outcome.reason'' then r\<lparr>r_Outcome := map_option (ou_Reason_update (\<lambda>x. truncate x 64)) (r_Outcome r)\<rparr>
      else r)"

fun shrink_parts :: "canonical \<Rightarrow> int \<Rightarrow> string list \<Rightarrow> Record \<Rightarrow> Record" where
  "shrink_parts canon limit [] r = r"
| "shrink_parts canon limit (part # parts) r =
     (let r = give_up part r
      in if int (Size canon r) \<le> limit then r else shrink_parts canon limit parts r)"

definition shrink :: "canonical \<Rightarrow> Record \<Rightarrow> Bounds \<Rightarrow> bool \<times> Record" where
  "shrink canon r b =
     (if bo_MaxBytes b \<le> 0 \<or> int (Size canon r) \<le> bo_MaxBytes b then (False, r)
      else (True, shrink_parts canon (bo_MaxBytes b) TruncationOrder r))"

text \<open>The scalar fields, in the order the code cleans them.\<close>

definition clean_scalars :: "Record \<Rightarrow> Bounds \<Rightarrow> Record" where
  "clean_scalars r b =
     r\<lparr>r_Id := clean (r_Id r) (bo_IDLen b), r_SchemaVersion := clean (r_SchemaVersion r) 32,
       r_CatalogueVersion := clean (r_CatalogueVersion r) 64, r_Source := clean (r_Source r) 64,
       r_Action := clean (r_Action r) 128, r_TenantId := clean (r_TenantId r) (bo_IDLen b),
       r_Profile := clean (r_Profile r) 64, r_OriginHash := clean (r_OriginHash r) 128,
       r_Observer := map_option (\<lambda>x. x\<lparr>ob_Id := clean (ob_Id x) (bo_IDLen b), ob_Version := clean (ob_Version x) 64,
         ob_Instance := clean (ob_Instance x) 128\<rparr>) (r_Observer r),
       r_Outcome := map_option (\<lambda>x. x\<lparr>ou_Reason := clean (ou_Reason x) (bo_ReasonLen b),
         ou_Code := clean (ou_Code x) (bo_CodeLen b)\<rparr>) (r_Outcome r),
       r_Subject := map_option (\<lambda>x. x\<lparr>pa_Kind := clean (pa_Kind x) 64, pa_Id := clean (pa_Id x) (bo_IDLen b)\<rparr>) (r_Subject r),
       r_Actor := map_option (\<lambda>x. x\<lparr>ac_Kind := clean (ac_Kind x) 64, ac_Id := clean (ac_Id x) (bo_IDLen b),
         ac_SessionId := clean (ac_SessionId x) (bo_IDLen b), ac_AuthMethod := clean (ac_AuthMethod x) 64,
         ac_CredentialHash := clean (ac_CredentialHash x) 128\<rparr>) (r_Actor r)\<rparr>"

definition clean_targets :: "Record \<Rightarrow> Bounds \<Rightarrow> bool \<times> Record" where
  "clean_targets r b =
     (let over = bo_Targets b < int (length (r_Targets r));
          ts = (if over then take (nat (bo_Targets b)) (r_Targets r) else r_Targets r)
      in (over, r\<lparr>r_Targets := map (\<lambda>t. t\<lparr>ta_Type := clean (ta_Type t) 64, ta_Id := clean (ta_Id t) (bo_IDLen b),
            ta_Name := clean (ta_Name t) (bo_NameLen b)\<rparr>) ts\<rparr>))"

definition clean_context :: "Record \<Rightarrow> Bounds \<Rightarrow> bool \<times> Record" where
  "clean_context r b =
     (case r_Context r of
        None \<Rightarrow> (False, r)
      | Some c \<Rightarrow>
          let over = bo_ClientAddresses b < int (length (cx_ClientAddresses c));
              as = (if over then take (nat (bo_ClientAddresses b)) (cx_ClientAddresses c) else cx_ClientAddresses c)
          in (over, r\<lparr>r_Context := Some (c\<lparr>cx_ClientAddresses := map (\<lambda>a. clean a 64) as,
                cx_UserAgent := clean (cx_UserAgent c) (bo_UserAgentLen b), cx_RequestId := clean (cx_RequestId c) (bo_IDLen b),
                cx_TraceId := clean (cx_TraceId c) (bo_IDLen b), cx_SpanId := clean (cx_SpanId c) (bo_IDLen b)\<rparr>)\<rparr>))"

definition clean_meter :: "Record \<Rightarrow> Record" where
  "clean_meter r = r\<lparr>r_Meter := map_option (\<lambda>m. m\<lparr>me_Name := clean (me_Name m) 128,
     me_Quantity := clean (me_Quantity m) 64, me_Unit := clean (me_Unit m) 32\<rparr>) (r_Meter r)\<rparr>"

definition Normalise :: "canonical \<Rightarrow> (Struct \<Rightarrow> string + bytes) \<Rightarrow> Record \<Rightarrow> Bounds \<Rightarrow> bool \<times> Record" where
  "Normalise canon canon_struct r b =
     (let r = clean_scalars r b;
          (t1, r) = clean_targets r b;
          (t2, r) = clean_context r b;
          r = clean_meter r;
          (t3, r) = normaliseAttributes r b;
          (t4, c) = capSlot canon_struct (r_Capture r) (bo_CaptureBytes b);
          r = r\<lparr>r_Capture := c\<rparr>;
          (t5, r) = shrink canon r b;
          truncated = (t1 \<or> t2 \<or> t3 \<or> t4 \<or> t5)
      in (truncated,
          if truncated then r\<lparr>r_Capture := map_option (ca_Truncated_update (\<lambda>_. True)) (r_Capture r)\<rparr> else r))"

section \<open>What clean returns\<close>

lemma length_trim_end: "length (trim_end s) \<le> length s"
proof (induction s rule: trim_end.induct)
  case (1 s)
  then show ?case using trim_end.simps [of s] by (cases "s \<noteq> [] \<and> \<not> utf8ValidEnd s") auto
qed

lemma length_truncate_n: "0 < limit \<Longrightarrow> int (length (truncate_n s limit)) \<le> limit"
  using length_trim_end [of "take (nat limit) s"] by (auto simp: truncate_n_def min_def split: if_splits)

text \<open>A string of encoded runes, cut anywhere and trimmed, is a string of whole runes.\<close>

lemma encode_runes_append: "encode_runes (rs @ qs) = encode_runes rs @ encode_runes qs"
  by (simp add: encode_runes_def)

lemma encode_runes_single: "valid_rune r \<Longrightarrow> encode_runes [r] = encode_valid r"
  by (simp add: encode_runes_def EncodeRune_def)

lemma trim_end_whole:
  assumes "list_all valid_rune rs"
  shows "trim_end (encode_runes rs) = encode_runes rs"
proof -
  have "utf8ValidEnd (encode_runes rs)"
  proof (cases rs rule: rev_cases)
    case (snoc qs r)
    show ?thesis
    proof (cases "r = RuneError")
      case True
      have "encode_runes [RuneError] = [239, 191, 189]"
        unfolding encode_runes_single [OF valid_RuneError] by (simp add: encode_valid_def RuneError_def)
      then show ?thesis using True snoc by (simp add: utf8ValidEnd_def encode_runes_append Let_def)
    qed (use assms snoc in \<open>simp add: utf8ValidEnd_def runes_encode_all\<close>)
  qed (simp add: utf8ValidEnd_def encode_runes_def)
  then show ?thesis by (simp add: trim_end.simps)
qed

text \<open>A whole string followed by part of a rune does not end well, whichever part it is.\<close>

lemma partial_end_bad:
  assumes "list_all valid_rune rs" "194 \<le> a" "list_all cont t" "a = 239 \<longrightarrow> length t < 2"
    and "DecodeRune (a # t) = (RuneError, 1)"
  shows "\<not> utf8ValidEnd (encode_runes rs @ a # t)"
proof -
  let ?s = "encode_runes rs @ a # t"
  have "runes (a # t) = replicate (Suc (length t)) RuneError"
    using assms(5) runes_conts [OF assms(3)] by (simp add: runes.simps(2))
  then have rs: "runes ?s = rs @ replicate (Suc (length t)) RuneError" using runes_encode [OF assms(1)] by simp
  have "drop (length ?s - 3) ?s \<noteq> [239, 191, 189]"
  proof
    assume d: "drop (length ?s - 3) ?s = [239, 191, 189]"
    then have r: "take 3 (rev ?s) = [189, 191, 239]" by (simp only: take_rev rev.simps append.simps)
    show False
    proof (cases "rev t")
      case Nil
      then show False using r assms(2) by (simp add: numeral_3_eq_3)
    next
      case (Cons e u)
      show False
      proof (cases u)
        case Nil
        then show False using r Cons assms(2) by (simp add: numeral_3_eq_3)
      next
        case (Cons c v)
        with \<open>rev t = e # u\<close> have t: "t = rev v @ [c, e]" by (metis append.assoc append_Cons append_Nil rev.simps(2) rev_swap)
        show False
        proof (cases v)
          case Nil
          then show False using r t assms(4) by (simp add: numeral_3_eq_3)
        next
          case (Cons f w)
          then show False using r t assms(3) by (simp add: numeral_3_eq_3 cont_def)
        qed
      qed
    qed
  qed
  then show ?thesis using rs by (simp add: utf8ValidEnd_def)
qed


lemma take_encode_runes:
  assumes "list_all valid_rune rs"
  shows "\<exists>qs p. take n (encode_runes rs) = encode_runes qs @ p \<and> list_all valid_rune qs \<and> (\<exists>us. rs = qs @ us)
    \<and> (p = [] \<or> (\<exists>r j. valid_rune r \<and> 0 < j \<and> j < length (encode_valid r) \<and> p = take j (encode_valid r)))"
  using assms
proof (induction rs arbitrary: n)
  case (Cons r rs)
  then have v: "valid_rune r" "list_all valid_rune rs" by auto
  have e: "encode_runes (r # rs) = encode_valid r @ encode_runes rs"
    using v by (simp add: encode_runes_def EncodeRune_def)
  consider "n = 0" | "0 < n" "n < length (encode_valid r)" | "length (encode_valid r) \<le> n" by linarith
  then show ?case
  proof cases
    case 1
    then show ?thesis by (intro exI [of _ "[]"]) (simp add: encode_runes_def)
  next
    case 2
    then show ?thesis using v e by (intro exI [of _ "[]"] exI [of _ "take n (encode_valid r)"]) (auto simp: encode_runes_def)
  next
    case 3
    obtain qs p where qp: "take (n - length (encode_valid r)) (encode_runes rs) = encode_runes qs @ p" "list_all valid_rune qs"
      "\<exists>us. rs = qs @ us"
      "p = [] \<or> (\<exists>r j. valid_rune r \<and> 0 < j \<and> j < length (encode_valid r) \<and> p = take j (encode_valid r))"
      using Cons.IH [OF v(2)] by blast
    have "encode_runes (r # qs) = encode_valid r @ encode_runes qs" using v by (simp add: encode_runes_def EncodeRune_def)
    then show ?thesis using 3 e qp v by (intro exI [of _ "r # qs"] exI [of _ p]) auto
  qed
qed (simp add: encode_runes_def)

lemma trim_end_partial:
  assumes "list_all valid_rune qs" "valid_rune r" "j < length (encode_valid r)"
  shows "trim_end (encode_runes qs @ take j (encode_valid r)) = encode_runes qs"
  using assms(3)
proof (induction j)
  case 0
  then show ?case using trim_end_whole [OF assms(1)] by simp
next
  case (Suc j)
  obtain a t where at: "take (Suc j) (encode_valid r) = a # t" "194 \<le> a" "list_all cont t" "a = 239 \<longrightarrow> length t < 2"
    "DecodeRune (a # t) = (RuneError, 1)" using encode_partial [OF assms(2) _ Suc.prems] by auto
  let ?s = "encode_runes qs @ take (Suc j) (encode_valid r)"
  have "\<not> utf8ValidEnd ?s" using partial_end_bad [OF assms(1) at(2-5)] at(1) by simp
  moreover have "butlast ?s = encode_runes qs @ take j (encode_valid r)"
    using Suc.prems by (subst butlast_append) (simp add: butlast_take)
  ultimately show ?case using Suc at(1) by (subst trim_end.simps) simp
qed

lemma truncate_encode_runes:
  assumes "list_all valid_rune rs"
  shows "\<exists>qs us. truncate_n (encode_runes rs) limit = encode_runes qs \<and> rs = qs @ us"
proof (cases "limit \<le> 0 \<or> int (length (encode_runes rs)) \<le> limit")
  case True
  then show ?thesis by (intro exI [of _ rs] exI [of _ "[]"]) (auto simp: truncate_n_def)
next
  case False
  obtain qs p where qp: "take (nat limit) (encode_runes rs) = encode_runes qs @ p" "list_all valid_rune qs" "\<exists>us. rs = qs @ us"
    "p = [] \<or> (\<exists>r j. valid_rune r \<and> 0 < j \<and> j < length (encode_valid r) \<and> p = take j (encode_valid r))"
    using take_encode_runes [OF assms] by blast
  have "trim_end (encode_runes qs @ p) = encode_runes qs"
    using qp(4) trim_end_whole [OF qp(2)] trim_end_partial [OF qp(2)] by auto
  then show ?thesis using False qp by (auto simp: truncate_n_def)
qed

lemma list_all_map_filter: "list_all P xs \<Longrightarrow> (\<And>x y. P x \<Longrightarrow> f x = Some y \<Longrightarrow> Q y) \<Longrightarrow> list_all Q (List.map_filter f xs)"
  by (induction xs) (auto simp: List.map_filter_def)

lemma clean_n_runes:
  "list_all (\<lambda>r. valid_rune r \<and> \<not> IsControl r) (runes (clean_n s limit))"
proof -
  let ?rs = "List.map_filter clean_rune (runes s)"
  have ok: "list_all (\<lambda>r. valid_rune r \<and> \<not> IsControl r) ?rs"
    by (rule list_all_map_filter [OF runes_valid])
      (auto simp: clean_rune_def IsControl_def valid_rune_def split: if_splits)
  then have v: "list_all valid_rune ?rs" by (auto simp: list_all_iff)
  obtain qs us where q: "truncate_n (encode_runes ?rs) limit = encode_runes qs" "?rs = qs @ us"
    using truncate_encode_runes [OF v] by blast
  from ok q(2) have "list_all (\<lambda>r. valid_rune r \<and> \<not> IsControl r) qs" by simp
  moreover from this have "runes (encode_runes qs) = qs" by (intro runes_encode_all) (auto simp: list_all_iff)
  ultimately show ?thesis by (simp add: clean_n_def q(1))
qed

lemma clean_n_whole: "\<exists>qs. clean_n s limit = encode_runes qs \<and> list_all valid_rune qs"
proof -
  have "list_all valid_rune (List.map_filter clean_rune (runes s))"
    by (rule list_all_map_filter [OF runes_valid]) (auto simp: clean_rune_def valid_rune_def split: if_splits)
  then show ?thesis
    using truncate_encode_runes [of "List.map_filter clean_rune (runes s)" limit] by (auto simp: clean_n_def)
qed

lemma nats_clean: "s \<noteq> [] \<Longrightarrow> nats (clean s limit) = clean_n (nats s) limit"
proof -
  obtain qs where q: "clean_n (nats s) limit = encode_runes qs" "list_all valid_rune qs" using clean_n_whole by blast
  from q(2) have "list_all (\<lambda>b. b < 256) (encode_runes qs)" by (rule encode_runes_bytes)
  then show "s \<noteq> [] \<Longrightarrow> nats (clean s limit) = clean_n (nats s) limit"
    by (simp add: clean_def q(1) nats_chars)
qed

lemma length_clean: "0 < limit \<Longrightarrow> int (length (clean s limit)) \<le> limit"
  using length_truncate_n [of limit] by (simp add: clean_def chars_def clean_n_def)

text \<open>A string of printable ASCII within its limit is returned as it is.\<close>

definition printable :: "string \<Rightarrow> bool" where
  "printable s \<longleftrightarrow> list_all (\<lambda>c. CHR '' '' \<le> c \<and> c \<le> CHR ''~'') s"

lemma clean_printable:
  assumes "printable s" "int (length s) \<le> limit"
  shows "clean s limit = s"
proof -
  have b: "32 \<le> (of_char c :: nat)" "(of_char c :: nat) \<le> 126" if "c \<in> set s" for c
    using that assms(1) by (auto simp: printable_def list_all_iff less_eq_char_def)
  then have ascii: "list_all (\<lambda>b. b < 128) (nats s)" by (fastforce simp: nats_def list_all_iff)
  have "clean_rune b = Some b" if "32 \<le> b" "b \<le> 126" for b
    using that by (simp add: clean_rune_def IsControl_def)
  then have "List.map_filter clean_rune (nats s) = nats s"
    using b by (induction s) (auto simp: nats_def List.map_filter_def)
  moreover have "chars (nats s) = s" by (simp add: chars_def nats_def comp_def)
  ultimately show ?thesis using assms(2)
    by (simp add: clean_def clean_n_def ascii_runes [OF ascii] ascii_encode [OF ascii] truncate_n_def length_nats)
qed

section \<open>Properties of normalising\<close>

text \<open>
  A cleaned string is no longer than its limit, is valid UTF-8 (it is cut between runes, never
  inside one), and has no control character, whatever bytes it was made from.
\<close>

theorem clean_bounded:
  assumes "0 < limit"
  shows "int (length (clean s limit)) \<le> limit
    \<and> encode_runes (runes (nats (clean s limit))) = nats (clean s limit)
    \<and> list_all (\<lambda>r. valid_rune r \<and> \<not> IsControl r) (runes (nats (clean s limit)))"
proof (cases "s = []")
  case True
  then show ?thesis using assms by (simp add: clean_def nats_def encode_runes_def)
next
  case False
  obtain qs where "clean_n (nats s) limit = encode_runes qs" "list_all valid_rune qs" using clean_n_whole by blast
  then have "encode_runes (runes (clean_n (nats s) limit)) = clean_n (nats s) limit" by (simp add: runes_encode_all)
  then show ?thesis using length_clean [OF assms] clean_n_runes [of "nats s" limit] nats_clean [OF False] by simp
qed

theorem clean_bounded_witness: "int (length (clean ''a b'' 3)) \<le> 3 \<and> clean ''a b'' 3 = ''a b''"
  using clean_bounded [of 3 "''a b''"] clean_printable [of "''a b''" 3] by (simp add: printable_def)

lemma give_up_fields [simp]:
  "r_Id (give_up p r) = r_Id r" "r_TenantId (give_up p r) = r_TenantId r" "r_Action (give_up p r) = r_Action r"
  "r_Targets (give_up p r) = r_Targets r" "r_Context (give_up p r) = r_Context r" "r_Data (give_up p r) = r_Data r"
  by (simp_all add: give_up_def)

lemma give_up_attributes: "length (r_Attributes (give_up p r)) \<le> length (r_Attributes r)"
  by (simp add: give_up_def)

lemma shrink_parts_fields [simp]:
  "r_Id (shrink_parts c l ps r) = r_Id r" "r_TenantId (shrink_parts c l ps r) = r_TenantId r"
  "r_Action (shrink_parts c l ps r) = r_Action r" "r_Targets (shrink_parts c l ps r) = r_Targets r"
  "r_Context (shrink_parts c l ps r) = r_Context r" "r_Data (shrink_parts c l ps r) = r_Data r"
  by (induction ps arbitrary: r) (simp_all add: Let_def)

lemma shrink_parts_attributes: "length (r_Attributes (shrink_parts c l ps r)) \<le> length (r_Attributes r)"
  using give_up_attributes by (induction ps arbitrary: r) (auto simp: Let_def intro: order_trans)

text \<open>Everything that may be given up is, or the record fits.\<close>

definition given_up :: "Record \<Rightarrow> bool" where
  "given_up r \<longleftrightarrow> r_Unmapped r = None \<and> r_Attributes r = []
     \<and> (\<forall>c \<in> set_option (r_Capture r). ca_Request c = None \<and> ca_Response c = None)"

lemma shrink_parts_all:
  "int (Size canon (shrink_parts canon limit TruncationOrder r)) \<le> limit \<or> given_up (shrink_parts canon limit TruncationOrder r)"
  by (simp add: TruncationOrder_def Let_def)
    (auto simp: give_up_def given_up_def elem_set option.map_comp)

lemma shrink_result:
  assumes "shrink canon r b = (t, r')" "0 < bo_MaxBytes b"
  shows "int (Size canon r') \<le> bo_MaxBytes b \<or> given_up r'"
    and "r_Id r' = r_Id r" "r_TenantId r' = r_TenantId r" "r_Action r' = r_Action r" "r_Targets r' = r_Targets r"
    "r_Context r' = r_Context r" "r_Data r' = r_Data r" "length (r_Attributes r') \<le> length (r_Attributes r)"
  using assms shrink_parts_all [of canon "bo_MaxBytes b" r] shrink_parts_attributes [of canon "bo_MaxBytes b" TruncationOrder r]
  by (auto simp: shrink_def split: if_splits)

lemma distinct_clean_attributes:
  "distinct (map fst out) \<Longrightarrow> distinct (map fst (fst (clean_attributes b xs out d)))"
proof (induction b xs out d rule: clean_attributes.induct)
  case (2 b k v rest out dropped)
  have "k' \<notin> fst ` set (filter (\<lambda>p. fst p \<noteq> k') out)" for k' by auto
  with 2 show ?case by (simp add: Let_def distinct_map_filter del: set_filter)
qed simp

lemma normaliseAttributes_result:
  assumes "normaliseAttributes r b = (t, r')" "0 \<le> bo_AttributeKeys b"
  shows "int (length (r_Attributes r')) \<le> bo_AttributeKeys b"
    and "r_Id r' = r_Id r" "r_TenantId r' = r_TenantId r" "r_Action r' = r_Action r" "r_Targets r' = r_Targets r"
    "r_Context r' = r_Context r" "r_Data r' = r_Data r"
proof -
  obtain out d where out: "clean_attributes b (r_Attributes r) [] False = (out, d)" by fastforce
  have dist: "distinct (map fst out)" using distinct_clean_attributes [of "[]" b "r_Attributes r" False] out by simp
  have "length (filter (\<lambda>p. fst p \<in> set ks) out) \<le> length ks" if "distinct ks" for ks
  proof -
    have "length (filter (\<lambda>p. fst p \<in> set ks) out) = card (set (map fst (filter (\<lambda>p. fst p \<in> set ks) out)))"
      using distinct_card [OF distinct_map_filter [OF dist]] by (metis length_map)
    also have "\<dots> \<le> card (set ks)" by (intro card_mono) auto
    finally show ?thesis using that by (simp add: distinct_card)
  qed
  from this [of "take (nat (bo_AttributeKeys b)) (sort (map fst out))"] dist
  have keep: "int (length (filter (\<lambda>p. fst p \<in> set (take (nat (bo_AttributeKeys b)) (sort (map fst out)))) out)) \<le> bo_AttributeKeys b"
    using assms(2) by auto
  show "int (length (r_Attributes r')) \<le> bo_AttributeKeys b"
    using assms out keep by (auto simp: normaliseAttributes_def Let_def split: if_splits)
  show "r_Id r' = r_Id r" "r_TenantId r' = r_TenantId r" "r_Action r' = r_Action r" "r_Targets r' = r_Targets r"
    "r_Context r' = r_Context r" "r_Data r' = r_Data r"
    using assms(1) out by (auto simp: normaliseAttributes_def Let_def split: if_splits)
qed



text \<open>
  Normalising does not make every record fit: a record whose size is all in its data is left over
  the bound and refused for it, although the two are run in this order so that a record is never
  refused for its length. And the mark that a record was truncated is set after its size was last
  measured, so a record that was cut to fit may be over the bound by the mark.
\<close>

theorem normalised_may_be_too_long:
  "(let canon = (\<lambda>r. Inr (concat (map fst (case r_Data r of Some fs \<Rightarrow> fs | None \<Rightarrow> []))));
        b = Default\<lparr>bo_MaxBytes := 3\<rparr>;
        r = example_record\<lparr>r_Data := Some [(''large'', VNull)]\<rparr>
    in TooManyBytes 5 3 \<in> set (Check (\<lambda>s. True) canon (snd (Normalise canon (\<lambda>s. Inr []) r b)) b))
   \<and> (let canon = (\<lambda>r. Inr (concat (map snd (r_Attributes r))
            @ (case r_Capture r of Some c \<Rightarrow> if ca_Truncated c then ''true'' else [] | None \<Rightarrow> [])));
          b = Default\<lparr>bo_MaxBytes := 3\<rparr>;
          r = example_record\<lparr>r_Attributes := [(''a'', ''12345'')],
                r_Capture := Some \<lparr>ca_Level = LEVEL_METADATA, ca_Request = None, ca_Response = None, ca_Truncated = False\<rparr>\<rparr>
      in TooManyBytes 4 3 \<in> set (Check (\<lambda>s. True) canon (snd (Normalise canon (\<lambda>s. Inr []) r b)) b))"
  by (simp add: Normalise_def clean_scalars_def clean_targets_def clean_context_def clean_meter_def normaliseAttributes_def
      capSlot_def shrink_def Size_def TruncationOrder_def give_up_def example_record_def empty_record_def Default_def
      Check_def checkBounds_def clean_printable printable_def replace_unsafe.simps attribute_safe_def az_def is_digit_def
      truncate_def)

end
