(* ===== verification/Store.thy ===== *)
theory Store
  imports Gotime
begin

text \<open>
  \<open>store/store.go\<close>: what an archive's object store holds and promises, and
  \<open>store/storetest/memory.go\<close>: the store in memory that behaves as a locked bucket. The promises of
  the \<open>Store\<close> interface are the locale \<open>object_store\<close>: what a put makes true, that nothing is
  overwritten or lost, that a retention only lengthens, what a listing returns. The theories of the
  layout and the writer prove their facts from those laws; the interpretation \<open>mem\<close> discharges them
  for the store in memory.
\<close>

section \<open>Objects and listings\<close>

type_synonym metadata = "(string \<times> string) list"

record obj =
  o_Key :: string
  o_Body :: bytes
  o_RetainUntil :: time
  o_ContentType :: string
  o_Encoding :: string
  o_Metadata :: metadata
  o_LegalHold :: bool

record entry =
  e_Key :: string
  e_Size :: nat
  e_Modified :: time
  e_RetainUntil :: time
  e_LegalHold :: bool
  e_Metadata :: "metadata option"

datatype store_error =
    ErrExists string
  | ErrNotFound string
  | ErrNotLockable string
  | ErrNoKey
  | ErrShortens string
  | ErrOther string

section \<open>The interface\<close>

text \<open>
  \<open>objects\<close> is what the store holds, \<open>entries\<close> its keys in order as a listing sees them. A put that
  fails may still leave the store changed, as a put whose answer was lost does, but it never removes
  or replaces an object.
\<close>

definition page_of :: "entry list \<Rightarrow> string \<Rightarrow> string \<Rightarrow> nat \<Rightarrow> entry list" where
  "page_of all pre after limit =
     (let es = filter (\<lambda>e. HasPrefix (e_Key e) pre \<and> after < e_Key e) all
      in if 0 < limit then take limit es else es)"

text \<open>The distinct groups one level under a prefix: up to the first delimiter after it, in order.\<close>

fun cut_at :: "string \<Rightarrow> string \<Rightarrow> string option" where
  "cut_at d [] = (if d = [] then Some d else None)"
| "cut_at d (x # xs) = (if HasPrefix (x # xs) d then Some d else map_option ((#) x) (cut_at d xs))"

definition groups_of :: "string list \<Rightarrow> string \<Rightarrow> string \<Rightarrow> string list" where
  "groups_of keys pre delim =
     sort (remdups (map ((@) pre)
       (List.map_filter (cut_at delim) (List.map_filter (\<lambda>k. CutPrefix k pre) keys))))"

definition head_of :: "obj \<Rightarrow> entry \<Rightarrow> bool" where
  "head_of o' e \<longleftrightarrow> e_Size e = length (o_Body o') \<and> e_RetainUntil e = o_RetainUntil o'
     \<and> e_LegalHold e = o_LegalHold o' \<and> e_Metadata e = Some (o_Metadata o')"

locale object_store =
  fixes put :: "'s \<Rightarrow> obj \<Rightarrow> store_error option \<times> 's"
    and get :: "'s \<Rightarrow> string \<Rightarrow> store_error + bytes"
    and extend :: "'s \<Rightarrow> string \<Rightarrow> time \<Rightarrow> store_error option \<times> 's"
    and list :: "'s \<Rightarrow> string \<Rightarrow> string \<Rightarrow> nat \<Rightarrow> store_error + entry list"
    and head :: "'s \<Rightarrow> string \<Rightarrow> store_error + entry"
    and prefixes :: "'s \<Rightarrow> string \<Rightarrow> string \<Rightarrow> store_error + string list"
    and objects :: "'s \<Rightarrow> string \<Rightarrow> obj option"
    and entries :: "'s \<Rightarrow> entry list"
    and locked :: "'s \<Rightarrow> bool"
    and invar :: "'s \<Rightarrow> bool"
  assumes put_ok: "invar s \<Longrightarrow> put s o' = (None, s') \<Longrightarrow>
      objects s (o_Key o') = None
      \<and> objects s' = (objects s)(o_Key o' \<mapsto>
          (if locked s then o' else o'\<lparr>o_RetainUntil := zero_time, o_LegalHold := False\<rparr>))"
    and put_err: "invar s \<Longrightarrow> put s o' = (Some e, s') \<Longrightarrow> objects s \<subseteq>\<^sub>m objects s'"
    and put_exists: "invar s \<Longrightarrow> put s o' = (Some (ErrExists k), s') \<Longrightarrow> k = o_Key o' \<and> objects s k \<noteq> None"
    and put_invar: "invar s \<Longrightarrow> put s o' = (r, s') \<Longrightarrow> invar s' \<and> locked s' = locked s"
    and get_ok: "invar s \<Longrightarrow> get s k = Inr b \<longleftrightarrow> (\<exists>o'. objects s k = Some o' \<and> o_Body o' = b)"
    and extend_ok: "invar s \<Longrightarrow> extend s k t = (None, s') \<Longrightarrow> locked s \<and>
      (\<exists>o'. objects s k = Some o' \<and> o_RetainUntil o' \<le> t \<and> objects s' = (objects s)(k \<mapsto> o'\<lparr>o_RetainUntil := t\<rparr>))"
    and extend_err: "invar s \<Longrightarrow> extend s k t = (Some e, s') \<Longrightarrow> objects s' = objects s"
    and extend_invar: "invar s \<Longrightarrow> extend s k t = (r, s') \<Longrightarrow> invar s' \<and> locked s' = locked s"
    and list_ok: "invar s \<Longrightarrow> list s pre after limit = Inr page \<Longrightarrow>
      page = page_of (entries s) pre after limit"
    and head_ok: "invar s \<Longrightarrow> head s k = Inr en \<Longrightarrow> \<exists>o'. objects s k = Some o' \<and> head_of o' en"
    and prefixes_ok: "invar s \<Longrightarrow> prefixes s pre delim = Inr ps \<Longrightarrow>
      ps = groups_of (map e_Key (entries s)) pre delim"
    and entries_sorted: "invar s \<Longrightarrow> sorted_wrt (\<lambda>x y. e_Key x < e_Key y) (entries s)"
    and entries_keys: "invar s \<Longrightarrow> e_Key ` set (entries s) = dom (objects s)"
begin

lemma put_keeps:
  assumes "invar s" "put s o' = (r, s')" "objects s k = Some x"
  shows "objects s' k = Some x"
proof (cases r)
  case None
  with put_ok [OF assms(1)] assms show ?thesis by (auto split: if_splits)
next
  case (Some e)
  with put_err [OF assms(1)] assms show ?thesis by (auto simp: map_le_def dom_def)
qed

lemma extend_keeps:
  assumes "invar s" "extend s k t = (r, s')" "objects s j = Some x"
  shows "\<exists>y. objects s' j = Some y \<and> o_Body y = o_Body x \<and> o_RetainUntil x \<le> o_RetainUntil y
    \<and> o_LegalHold y = o_LegalHold x"
proof (cases r)
  case None
  with assms(2) have "extend s k t = (None, s')" by simp
  from extend_ok [OF assms(1) this] assms(3) show ?thesis by (cases "j = k") auto
next
  case (Some e)
  with extend_err [OF assms(1)] assms show ?thesis by auto
qed

end

text \<open>A store that also answers: its reads do not fail.\<close>

locale reliable_store = object_store +
  assumes list_total: "invar s \<Longrightarrow> \<exists>page. list s pre after limit = Inr page"
    and prefixes_total: "invar s \<Longrightarrow> \<exists>ps. prefixes s pre delim = Inr ps"
begin

lemma list_eq: "invar s \<Longrightarrow> list s pre after limit = Inr (page_of (entries s) pre after limit)"
  using list_ok list_total by blast

lemma prefixes_eq: "invar s \<Longrightarrow> prefixes s pre delim = Inr (groups_of (map e_Key (entries s)) pre delim)"
  using prefixes_ok prefixes_total by blast

end

section \<open>The store in memory\<close>

text \<open>
  \<open>m_objects\<close> is the two maps \<open>objects\<close> and \<open>written\<close>, an association list of distinct keys;
  \<open>m_Now n\<close> is what the clock shows at the \<open>n\<close>-th time it is read.
\<close>

record memory =
  m_Gets :: nat
  m_FailPut :: "store_error option"
  m_Now :: "nat \<Rightarrow> time"
  m_reads :: nat
  m_Unlocked :: bool
  m_objects :: "(string \<times> obj \<times> time) list"

definition NewMemory :: "(nat \<Rightarrow> time) \<Rightarrow> memory" where
  "NewMemory clock = \<lparr>m_Gets = 0, m_FailPut = None, m_Now = clock, m_reads = 0, m_Unlocked = False, m_objects = []\<rparr>"

definition mem_Put :: "memory \<Rightarrow> obj \<Rightarrow> store_error option \<times> memory" where
  "mem_Put m o' =
     (case m_FailPut m of
        Some e \<Rightarrow> (Some e, m)
      | None \<Rightarrow>
          if o_Key o' = [] then (Some ErrNoKey, m)
          else if map_of (m_objects m) (o_Key o') \<noteq> None then (Some (ErrExists (o_Key o')), m)
          else let o' = (if m_Unlocked m then o'\<lparr>o_RetainUntil := zero_time, o_LegalHold := False\<rparr> else o')
               in (None, m\<lparr>m_objects := (o_Key o', o', m_Now m (m_reads m)) # m_objects m,
                           m_reads := Suc (m_reads m)\<rparr>))"

definition mem_Get :: "memory \<Rightarrow> string \<Rightarrow> (store_error + bytes) \<times> memory" where
  "mem_Get m key =
     (let m = m\<lparr>m_Gets := Suc (m_Gets m)\<rparr>
      in case map_of (m_objects m) key of
           None \<Rightarrow> (Inl (ErrNotFound key), m)
         | Some (o', at) \<Rightarrow> (Inr (o_Body o'), m))"

definition mem_Head :: "memory \<Rightarrow> string \<Rightarrow> store_error + entry" where
  "mem_Head m key =
     (case map_of (m_objects m) key of
        None \<Rightarrow> Inl (ErrNotFound key)
      | Some (o', at) \<Rightarrow>
          Inr \<lparr>e_Key = key, e_Size = length (o_Body o'), e_Modified = at, e_RetainUntil = o_RetainUntil o',
               e_LegalHold = o_LegalHold o', e_Metadata = Some (o_Metadata o')\<rparr>)"

definition mem_entry :: "memory \<Rightarrow> string \<Rightarrow> entry" where
  "mem_entry m key =
     (case map_of (m_objects m) key of
        None \<Rightarrow> \<lparr>e_Key = key, e_Size = 0, e_Modified = zero_time, e_RetainUntil = zero_time,
                 e_LegalHold = False, e_Metadata = None\<rparr>
      | Some (o', at) \<Rightarrow>
          \<lparr>e_Key = key, e_Size = length (o_Body o'), e_Modified = at, e_RetainUntil = o_RetainUntil o',
           e_LegalHold = False, e_Metadata = None\<rparr>)"

definition mem_List :: "memory \<Rightarrow> string \<Rightarrow> string \<Rightarrow> nat \<Rightarrow> store_error + entry list" where
  "mem_List m pre after limit =
     (let keys = sort (filter (\<lambda>k. HasPrefix k pre \<and> k > after) (map fst (m_objects m)));
          keys = (if limit > 0 \<and> length keys > limit then take limit keys else keys)
      in Inr (map (mem_entry m) keys))"

definition mem_Keys :: "memory \<Rightarrow> string list" where
  "mem_Keys m = (case mem_List m [] [] 0 of Inr es \<Rightarrow> map e_Key es | Inl e \<Rightarrow> [])"

definition mem_Prefixes :: "memory \<Rightarrow> string \<Rightarrow> string \<Rightarrow> store_error + string list" where
  "mem_Prefixes m pre delim =
     (let rests = List.map_filter (\<lambda>k. CutPrefix k pre) (map fst (m_objects m));
          found = map ((@) pre) (List.map_filter (cut_at delim) rests)
      in Inr (sort (remdups found)))"

definition mem_update :: "memory \<Rightarrow> string \<Rightarrow> (obj \<Rightarrow> obj) \<Rightarrow> memory" where
  "mem_update m key f =
     m\<lparr>m_objects := map (\<lambda>(k, o', at). if k = key then (k, f o', at) else (k, o', at)) (m_objects m)\<rparr>"

definition mem_SetLegalHold :: "memory \<Rightarrow> string \<Rightarrow> bool \<Rightarrow> store_error option \<times> memory" where
  "mem_SetLegalHold m key on =
     (if m_Unlocked m then (Some (ErrNotLockable key), m)
      else case map_of (m_objects m) key of
        None \<Rightarrow> (Some (ErrNotFound key), m)
      | Some (o', at) \<Rightarrow> (None, mem_update m key (\<lambda>o'. o'\<lparr>o_LegalHold := on\<rparr>)))"

definition mem_ExtendRetention :: "memory \<Rightarrow> string \<Rightarrow> time \<Rightarrow> store_error option \<times> memory" where
  "mem_ExtendRetention m key until =
     (if m_Unlocked m then (Some (ErrNotLockable key), m)
      else case map_of (m_objects m) key of
        None \<Rightarrow> (Some (ErrNotFound key), m)
      | Some (o', at) \<Rightarrow>
          if until < o_RetainUntil o' then (Some (ErrShortens key), m)
          else (None, mem_update m key (\<lambda>o'. o'\<lparr>o_RetainUntil := until\<rparr>)))"

section \<open>The store in memory keeps the promises\<close>

definition mem_objects :: "memory \<Rightarrow> string \<Rightarrow> obj option" where
  "mem_objects m k = map_option fst (map_of (m_objects m) k)"

definition mem_entries :: "memory \<Rightarrow> entry list" where
  "mem_entries m = map (mem_entry m) (sort (map fst (m_objects m)))"

definition mem_invar :: "memory \<Rightarrow> bool" where
  "mem_invar m \<longleftrightarrow> distinct (map fst (m_objects m)) \<and> [] \<notin> fst ` set (m_objects m)
     \<and> m_FailPut m \<notin> range (Some \<circ> ErrExists)"

lemma e_Key_mem_entry [simp]: "e_Key (mem_entry m k) = k"
  by (simp add: mem_entry_def split: option.splits)

lemma keys_mem_update [simp]: "map fst (m_objects (mem_update m k f)) = map fst (m_objects m)"
  by (simp add: mem_update_def case_prod_beta if_distrib cong: if_cong)

lemma map_of_mem_update:
  "map_of (m_objects (mem_update m k f)) j =
     (if j = k then map_option (\<lambda>(x, at). (f x, at)) (map_of (m_objects m) j) else map_of (m_objects m) j)"
proof -
  have "map_of (map (\<lambda>(i, x, at). if i = k then (i, f x, at) else (i, x, at)) xs) j =
     (if j = k then map_option (\<lambda>(x, at). (f x, at)) (map_of xs j) else map_of xs j)" for xs :: "(string \<times> obj \<times> time) list"
    by (induction xs) auto
  then show ?thesis by (simp add: mem_update_def)
qed

lemma mem_update_invar: "mem_invar m \<Longrightarrow> mem_invar (mem_update m k f)"
  using keys_mem_update [of m k f] unfolding mem_invar_def
  by (metis (no_types, lifting) list.set_map mem_update_def memory.select_convs(2) memory.surjective memory.update_convs(6))

lemma mem_objects_update:
  "mem_objects (mem_update m k f) =
     (case mem_objects m k of None \<Rightarrow> mem_objects m | Some x \<Rightarrow> (mem_objects m)(k \<mapsto> f x))"
  by (rule ext) (auto simp: mem_objects_def map_of_mem_update split: option.splits)

lemma filter_sort_map: "filter P (map f (sort xs)) = map f (sort (filter (P \<circ> f) xs))"
  by (simp add: filter_map filter_sort)

lemma mem_list_ok: "mem_List m pre after limit = Inr (page_of (mem_entries m) pre after limit)"
  by (simp add: mem_List_def mem_entries_def page_of_def filter_sort_map o_def Let_def take_map)

text \<open>The groups depend on which keys there are, not on their order.\<close>

lemma groups_of_cong:
  assumes "set ks = set js"
  shows "groups_of ks pre delim = groups_of js pre delim"
proof -
  have "sort (remdups xs) = sort (remdups ys)" if "set xs = set ys" for xs ys :: "string list"
    using that by (simp flip: sorted_list_of_set_sort_remdups)
  then show ?thesis unfolding groups_of_def using assms by (auto simp: List.map_filter_def)
qed

lemma mem_prefixes_ok:
  "mem_Prefixes m pre delim = Inr (groups_of (map e_Key (mem_entries m)) pre delim)"
proof -
  have "mem_Prefixes m pre delim = Inr (groups_of (map fst (m_objects m)) pre delim)"
    by (simp add: mem_Prefixes_def groups_of_def Let_def)
  also have "groups_of (map fst (m_objects m)) pre delim = groups_of (map e_Key (mem_entries m)) pre delim"
    by (rule groups_of_cong) (simp add: mem_entries_def image_comp o_def)
  finally show ?thesis .
qed

lemma dom_mem_objects: "dom (mem_objects m) = fst ` set (m_objects m)"
  by (simp add: mem_objects_def dom_map_option_comp [symmetric] dom_def dom_map_of_conv_image_fst [symmetric])

interpretation mem: reliable_store mem_Put "\<lambda>m k. fst (mem_Get m k)" mem_ExtendRetention mem_List
  mem_Head mem_Prefixes mem_objects mem_entries "\<lambda>m. \<not> m_Unlocked m" mem_invar
proof (unfold_locales, goal_cases)
  case (1 s o' s')
  then show ?case
    by (cases "map_of (m_objects s) (o_Key o')")
      (auto simp: mem_Put_def mem_objects_def Let_def fun_eq_iff split: option.splits if_splits)
next
  case (2 s o' e s')
  then show ?case
    by (auto simp: mem_Put_def Let_def split: option.splits if_splits)
next
  case (3 s o' k s')
  then show ?case
    by (auto simp: mem_Put_def mem_objects_def mem_invar_def Let_def split: option.splits if_splits)
next
  case (4 s o' r s')
  then show ?case
    by (auto simp: mem_Put_def mem_invar_def Let_def map_of_eq_None_iff split: option.splits if_splits)
next
  case (5 s k b)
  then show ?case by (auto simp: mem_Get_def mem_objects_def Let_def split: option.splits)
next
  case (6 s k t s')
  then show ?case
    by (auto simp: mem_ExtendRetention_def mem_objects_update not_less mem_objects_def [of s k] split: option.splits if_splits)
next
  case (7 s k t e s')
  then show ?case by (auto simp: mem_ExtendRetention_def split: option.splits if_splits)
next
  case (8 s k t r s')
  then show ?case
    by (auto simp: mem_ExtendRetention_def mem_update_invar split: option.splits if_splits)
      (simp_all add: mem_update_def)
next
  case (9 s pre after limit page)
  then show ?case by (simp add: mem_list_ok)
next
  case (10 s k e)
  then show ?case by (auto simp: mem_Head_def mem_objects_def head_of_def split: option.splits)
next
  case (11 s pre delim ps)
  then show ?case by (simp add: mem_prefixes_ok)
next
  case (12 s)
  then have "sorted_wrt (<) (sort (map fst (m_objects s)))"
    by (simp add: mem_invar_def strict_sorted_iff)
  then show ?case by (simp add: mem_entries_def sorted_wrt_map)
next
  case (13 s)
  show ?case by (simp add: mem_entries_def dom_mem_objects image_comp o_def)
next
  case (14 s pre after limit)
  show ?case by (simp add: mem_list_ok)
next
  case (15 s pre delim)
  show ?case by (simp add: mem_prefixes_ok)
qed

end
