(* ===== verification/Ulid.thy ===== *)
theory Ulid
  imports Gotime
begin

text \<open>
  \<open>internal/ulid/ulid.go\<close>: the identifiers that end a record object's key. The 128 bits are 48 of
  milliseconds and 80 of randomness; bytes are \<^typ>\<open>u8\<close> and the millisecond counter and the bit
  accumulator of \<open>encode\<close> are \<^typ>\<open>u64\<close>, so that every wrap-around of the code is in the model.

  Shown: \<open>encode\<close> writes the 128-bit number in base 32, so encodings compare as the numbers do;
  \<open>Time\<close> reads back the millisecond \<open>encode\<close> was given; a generator's identifiers increase strictly
  over any sequence of calls, with a clock that may step back and an entropy source that may fail.
\<close>

datatype ulid_error = EntropyFailed | NotAULID string

definition alphabet :: string where
  "alphabet = ''0123456789ABCDEFGHJKMNPQRSTVWXYZ''"

definition ulid_Length :: nat where "ulid_Length = 26"

text \<open>
  \<open>Entropy n\<close> is what the entropy source leaves in the buffer at its \<open>n\<close>-th call, and whether the
  call failed.
\<close>

record Generator =
  g_ms :: u64
  g_rand :: "u8 list"
  g_calls :: nat
  g_Entropy :: "nat \<Rightarrow> u8 list \<times> bool"

definition fill :: "Generator \<Rightarrow> ulid_error option \<times> Generator" where
  "fill g =
     (let (b, failed) = g_Entropy g (g_calls g);
          g = g\<lparr>g_rand := b, g_calls := Suc (g_calls g)\<rparr>
      in if failed then (Some EntropyFailed, g)
         else (None, g\<lparr>g_rand := (case g_rand g of x # xs \<Rightarrow> (x AND 0x7f) # xs | [] \<Rightarrow> [])\<rparr>))"

text \<open>\<open>increment\<close> walks the array from its last byte; the list is that walk's order.\<close>

fun increment_from_last :: "u8 list \<Rightarrow> u8 list \<times> bool" where
  "increment_from_last [] = ([], False)"
| "increment_from_last (b # bs) =
     (if b + 1 \<noteq> 0 then ((b + 1) # bs, True)
      else let (r, ok) = increment_from_last bs in ((b + 1) # r, ok))"

definition increment :: "u8 list \<Rightarrow> u8 list \<times> bool" where
  "increment b = (let (r, ok) = increment_from_last (rev b) in (rev r, ok))"

definition ms_bytes :: "u64 \<Rightarrow> u8 list" where
  "ms_bytes ms = map (\<lambda>i. ucast (drop_bit (8 * (5 - i)) ms)) [0..<6]"

text \<open>The loop \<open>for bits >= 5\<close>, and the loop over the raw bytes.\<close>

fun drain :: "u64 \<Rightarrow> nat \<Rightarrow> string \<times> nat" where
  "drain acc bits =
     (if 5 \<le> bits then
        let (s, b) = drain acc (bits - 5)
        in (alphabet ! unat (drop_bit (bits - 5) acc AND 31) # s, b)
      else ([], bits))"

declare drain.simps [simp del]

fun encode_loop :: "u8 list \<Rightarrow> u64 \<Rightarrow> nat \<Rightarrow> string" where
  "encode_loop [] acc bits = []"
| "encode_loop (by # r) acc bits =
     (let acc = push_bit 8 acc OR ucast by;
          (s, bits) = drain acc (bits + 8)
      in s @ encode_loop r acc bits)"

definition encode :: "u64 \<Rightarrow> u8 list \<Rightarrow> string" where
  "encode ms entropy = encode_loop (ms_bytes ms @ entropy) 0 2"

definition New :: "Generator \<Rightarrow> time \<Rightarrow> (ulid_error + string \<times> time) \<times> Generator" where
  "New g at =
     (let ms = word_of_int (UnixMilli at) :: u64;
          (err, g) =
            (if ms > g_ms g then fill (g\<lparr>g_ms := ms\<rparr>)
             else let (r, ok) = increment (g_rand g); g = g\<lparr>g_rand := r\<rparr>
                  in if ok then (None, g) else fill (g\<lparr>g_ms := g_ms g + 1\<rparr>))
      in case err of
           Some e \<Rightarrow> (Inl e, g)
         | None \<Rightarrow> (Inr (encode (g_ms g) (g_rand g), of_UnixMilli (sint (g_ms g))), g))"

text \<open>\<open>From\<close>: the serial fills the low eight bytes of the randomness.\<close>

definition From :: "time \<Rightarrow> u64 \<Rightarrow> string" where
  "From at serial =
     encode (word_of_int (UnixMilli at))
       (replicate 2 0 @ map (\<lambda>i. ucast (drop_bit (8 * (7 - i)) serial)) [0..<8])"

definition Valid :: "string \<Rightarrow> bool" where
  "Valid s \<longleftrightarrow> length s = ulid_Length \<and> \<not> s ! 0 > CHR ''7'' \<and> list_all (\<lambda>c. c \<in> set alphabet) s"

definition IndexByte :: "char \<Rightarrow> nat" where
  "IndexByte c = length (takeWhile (\<lambda>d. d \<noteq> c) alphabet)"

fun time_loop :: "u64 \<Rightarrow> string \<Rightarrow> u64" where
  "time_loop ms [] = ms"
| "time_loop ms (c # cs) = time_loop (push_bit 5 ms OR of_nat (IndexByte c)) cs"

definition Time :: "string \<Rightarrow> ulid_error + time" where
  "Time s = (if \<not> Valid s then Inl (NotAULID s)
             else Inr (of_UnixMilli (sint (time_loop 0 (take 10 s)))))"

section \<open>Words and numbers\<close>

lemma push_or_add: "push_bit 8 (acc :: u64) OR ucast (b :: u8) = push_bit 8 acc + ucast b"
  by (rule disjunctive_add_eq_or [symmetric], rule bit_word_eqI)
    (auto simp: bit_simps dest: bit_imp_le_length)

lemma unat_drop_and_31:
  assumes "b + 5 \<le> 64"
  shows "unat (drop_bit b (word_of_nat P :: u64) AND 31) = P div 2 ^ b mod 32"
proof -
  have "(31 :: u64) = mask 5" by (simp add: mask_eq_exp_minus_1)
  then have "unat (drop_bit b (word_of_nat P :: u64) AND 31) = unat (take_bit 5 (drop_bit b (word_of_nat P :: u64)))"
    by (simp only: take_bit_eq_mask)
  also have "\<dots> = take_bit 5 (drop_bit b (take_bit 64 P))"
    by (simp add: unsigned_take_bit_eq unsigned_drop_bit_eq unsigned_of_nat)
  also have "\<dots> = take_bit 5 (drop_bit b P)" using assms by (simp add: drop_bit_take_bit)
  finally show ?thesis by (simp add: take_bit_eq_mod drop_bit_eq_div)
qed

lemma push_8_of_nat: "push_bit 8 (word_of_nat P :: u64) + ucast (b :: u8) = word_of_nat (P * 256 + unat b)"
proof -
  have "(ucast b :: u64) = word_of_nat (unat b)" by simp
  then show ?thesis by (simp only: push_bit_eq_mult) simp
qed

lemma length_alphabet: "length alphabet = 32"
  by (simp add: alphabet_def)

lemma distinct_alphabet: "distinct alphabet"
  by (simp add: alphabet_def)

lemma IndexByte_nth: "i < 32 \<Longrightarrow> IndexByte (alphabet ! i) = i"
proof -
  assume i: "i < 32"
  have "takeWhile (\<lambda>d. d \<noteq> alphabet ! i) alphabet = take i alphabet"
    using i distinct_alphabet length_alphabet
    by (intro takeWhile_eq_take_P_nth) (auto simp: nth_eq_iff_index_eq)
  then show ?thesis using i by (simp add: IndexByte_def length_alphabet)
qed

lemma IndexByte_less: "c \<in> set alphabet \<Longrightarrow> IndexByte c < 32"
  using IndexByte_nth by (metis in_set_conv_nth length_alphabet)

lemma alphabet_mono_all: "list_all (\<lambda>i. alphabet ! i < alphabet ! Suc i) [0..<31]"
  by (simp add: alphabet_def upt_rec less_char_def)

lemma alphabet_sorted: "sorted_wrt (<) alphabet"
  by (simp add: alphabet_def less_char_def)

lemma alphabet_less_iff: "i < 32 \<Longrightarrow> j < 32 \<Longrightarrow> alphabet ! i < alphabet ! j \<longleftrightarrow> i < j"
  using sorted_wrt_nth_less [OF alphabet_sorted] length_alphabet
  by (metis linorder_neq_iff not_less_iff_gr_or_eq)

abbreviation ulid_digits :: "string \<Rightarrow> nat list" where
  "ulid_digits s \<equiv> map IndexByte s"

definition over_alphabet :: "string \<Rightarrow> bool" where
  "over_alphabet s \<longleftrightarrow> set s \<subseteq> set alphabet"

lemma over_alphabet_map: "over_alphabet s \<Longrightarrow> map ((!) alphabet) (ulid_digits s) = s"
  unfolding over_alphabet_def
  by (induction s) (auto simp: IndexByte_nth in_set_conv_nth length_alphabet)

lemma ulid_less_iff:
  assumes "over_alphabet s" "over_alphabet t" "length s = length t"
  shows "s < t \<longleftrightarrow> numval 32 (ulid_digits s) < numval 32 (ulid_digits t)"
proof -
  have small: "d < 32" if "d \<in> set (ulid_digits s) \<union> set (ulid_digits t)" for d
    using that assms(1,2) IndexByte_less by (auto simp: over_alphabet_def)
  have "map ((!) alphabet) (ulid_digits s) < map ((!) alphabet) (ulid_digits t) \<longleftrightarrow> ulid_digits s < ulid_digits t"
    by (intro map_less_iff alphabet_less_iff) (use small in auto)
  moreover have "numval 32 (ulid_digits s) < numval 32 (ulid_digits t) \<longleftrightarrow> ulid_digits s < ulid_digits t"
    by (intro numval_less_iff) (use small assms(3) in auto)
  ultimately show ?thesis by (simp only: over_alphabet_map assms(1,2))
qed

section \<open>What encode writes\<close>

lemma drain_val:
  assumes "drain (word_of_nat P) bits = (s, b)" "bits \<le> 12"
  shows "b = bits mod 5 \<and> length s = bits div 5 \<and> over_alphabet s
    \<and> P div 2 ^ bits * 32 ^ length s + numval 32 (ulid_digits s) = P div 2 ^ b"
  using assms
proof (induction bits arbitrary: s b rule: less_induct)
  case (less bits)
  show ?case
  proof (cases "5 \<le> bits")
    case True
    let ?i = "P div 2 ^ (bits - 5) mod 32"
    obtain s' where s': "drain (word_of_nat P) (bits - 5) = (s', b)" "s = alphabet ! ?i # s'"
      using less.prems True unat_drop_and_31 [of "bits - 5" P]
      by (subst (asm) drain.simps) (auto simp: Let_def split: prod.splits)
    have IH: "b = (bits - 5) mod 5" "length s' = (bits - 5) div 5" "over_alphabet s'"
      "P div 2 ^ (bits - 5) * 32 ^ length s' + numval 32 (ulid_digits s') = P div 2 ^ b"
    proof -
      have "bits - 5 < bits" "bits - 5 \<le> 12" using True less.prems(2) by auto
      from less.IH [OF this(1) s'(1) this(2)]
      show "b = (bits - 5) mod 5" "length s' = (bits - 5) div 5" "over_alphabet s'"
        "P div 2 ^ (bits - 5) * 32 ^ length s' + numval 32 (ulid_digits s') = P div 2 ^ b" by blast+
    qed
    have split: "P div 2 ^ (bits - 5) = P div 2 ^ bits * 32 + ?i"
    proof -
      have "(2::nat) ^ bits = 2 ^ (bits - 5) * 32"
        using True power_add [of "2::nat" "bits - 5" 5] by simp
      then show ?thesis by (simp add: div_mult2_eq)
    qed
    have "over_alphabet s" using IH(3) s'(2) by (simp add: over_alphabet_def length_alphabet)
    moreover have "P div 2 ^ bits * 32 ^ length s + numval 32 (ulid_digits s) = P div 2 ^ b"
      unfolding s'(2) IH(4) [symmetric]
      by (subst (2) split) (simp add: numval_Cons IndexByte_nth algebra_simps)
    moreover have "bits mod 5 = (bits - 5) mod 5" "bits div 5 = Suc ((bits - 5) div 5)"
      using True le_mod_geq le_div_geq by simp_all
    ultimately show ?thesis using IH s'(2) by simp
  next
    case False
    with less.prems(1) have "s = [] \<and> b = bits" by (subst (asm) drain.simps) simp
    with False show ?thesis by (simp add: over_alphabet_def)
  qed
qed

lemma encode_loop_val:
  assumes "bits \<le> 4"
  shows "over_alphabet (encode_loop bs (word_of_nat P) bits)
    \<and> length (encode_loop bs (word_of_nat P) bits) = (bits + 8 * length bs) div 5
    \<and> P div 2 ^ bits * 32 ^ length (encode_loop bs (word_of_nat P) bits)
        + numval 32 (ulid_digits (encode_loop bs (word_of_nat P) bits))
      = (P * 256 ^ length bs + numval 256 (map unat bs)) div 2 ^ ((bits + 8 * length bs) mod 5)"
  using assms
proof (induction bs arbitrary: P bits)
  case Nil
  then show ?case by (simp add: over_alphabet_def)
next
  case (Cons x bs)
  define Q where "Q = P * 256 + unat x"
  obtain s b where sb: "drain (word_of_nat Q) (bits + 8) = (s, b)" by fastforce
  define t where "t = encode_loop bs (word_of_nat Q) b"
  have eq: "encode_loop (x # bs) (word_of_nat P) bits = s @ t"
    using sb by (simp add: push_or_add push_8_of_nat Q_def t_def)
  have d: "b = (bits + 8) mod 5" "length s = (bits + 8) div 5" "over_alphabet s"
    "Q div 2 ^ (bits + 8) * 32 ^ length s + numval 32 (ulid_digits s) = Q div 2 ^ b"
    using drain_val [OF sb] Cons.prems by auto
  have "b \<le> 4" using d(1) by (simp add: le_simps)
  note IH = Cons.IH [OF this, of Q, folded t_def]
  have top: "Q div 2 ^ (bits + 8) = P div 2 ^ bits"
  proof -
    have "(2::nat) ^ (bits + 8) = 256 * 2 ^ bits" by (simp add: power_add)
    then have "Q div 2 ^ (bits + 8) = Q div 256 div 2 ^ bits" by (simp only: div_mult2_eq)
    moreover have "unat x < 2 ^ LENGTH(8)" by (rule unsigned_less)
    then have "Q div 256 = P" by (simp add: Q_def)
    ultimately show ?thesis by simp
  qed
  have n: "(b + 8 * length bs) mod 5 = (bits + 8 * length (x # bs)) mod 5"
    "length s + (b + 8 * length bs) div 5 = (bits + 8 * length (x # bs)) div 5"
    unfolding d(1,2) by (simp_all add: mod_simps, presburger+)
  have "P div 2 ^ bits * 32 ^ length (s @ t) + numval 32 (ulid_digits (s @ t))
      = Q div 2 ^ b * 32 ^ length t + numval 32 (ulid_digits t)"
    unfolding d(4) [symmetric] top by (simp add: numval_append power_add algebra_simps)
  also have "\<dots> = (Q * 256 ^ length bs + numval 256 (map unat bs)) div 2 ^ ((b + 8 * length bs) mod 5)"
    using IH by blast
  also have "Q * 256 ^ length bs + numval 256 (map unat bs)
      = P * 256 ^ length (x # bs) + numval 256 (map unat (x # bs))"
    by (simp add: Q_def numval_Cons algebra_simps)
  finally show ?case
    using IH d(3) n unfolding eq by (simp only: over_alphabet_def set_append Un_subset_iff length_append simp_thms)
qed

section \<open>The number an identifier writes\<close>

definition ulid_num :: "u64 \<Rightarrow> u8 list \<Rightarrow> nat" where
  "ulid_num ms entropy = unat ms mod 2 ^ 48 * 2 ^ 80 + numval 256 (map unat entropy)"

lemma numval_div_mod: "numval 256 (map (\<lambda>i. n div 256 ^ (k - Suc i) mod 256) [0..<k]) = n mod 256 ^ k"
proof (induction k arbitrary: n)
  case (Suc k)
  have eq: "map (\<lambda>i. n div 256 ^ (Suc k - Suc i) mod 256) [0..<k]
      = map (\<lambda>i. n div 256 div 256 ^ (k - Suc i) mod 256) [0..<k]"
  proof (rule map_cong [OF refl])
    fix i assume "i \<in> set [0..<k]"
    then have "Suc k - Suc i = Suc (k - Suc i)" by simp
    then show "n div 256 ^ (Suc k - Suc i) mod 256 = n div 256 div 256 ^ (k - Suc i) mod 256"
      by (simp only: power_Suc div_mult2_eq)
  qed
  have "numval 256 (map (\<lambda>i. n div 256 ^ (Suc k - Suc i) mod 256) [0..<Suc k])
      = (n div 256) mod 256 ^ k * 256 + n mod 256"
    unfolding upt_Suc_append [OF le0] map_append eq list.map numval_snoc Suc.IH [of "n div 256"] by simp
  then show ?case by (simp add: mod_mult2_eq)
qed simp

lemma unat_ucast_drop: "unat (ucast (drop_bit k (ms :: u64)) :: u8) = unat ms div 2 ^ k mod 256"
proof -
  have "unat ms < 2 ^ LENGTH(64)" by (rule unsigned_less)
  then have "take_bit 64 (unat ms) = unat ms" by (simp add: take_bit_nat_eq_self)
  then have "unat (ucast (drop_bit k ms) :: u8) = take_bit 8 (drop_bit k (unat ms))"
    by (simp add: unsigned_ucast_eq unsigned_drop_bit_eq)
  then show ?thesis by (simp add: take_bit_eq_mod drop_bit_eq_div)
qed

lemma numval_ms_bytes: "numval 256 (map unat (ms_bytes ms)) = unat ms mod 2 ^ 48"
proof -
  have "(2::nat) ^ (8 * (5 - i)) = 256 ^ (6 - Suc i)" for i by (simp add: power_mult)
  then have "map unat (ms_bytes ms) = map (\<lambda>i. unat ms div 256 ^ (6 - Suc i) mod 256) [0..<6]"
    by (simp only: ms_bytes_def map_map o_def unat_ucast_drop)
  then show ?thesis using numval_div_mod [of "unat ms" 6] by (simp only:) simp
qed

lemma encode_num:
  assumes "length entropy = 10"
  shows "length (encode ms entropy) = 26" "over_alphabet (encode ms entropy)"
    "numval 32 (ulid_digits (encode ms entropy)) = ulid_num ms entropy"
proof -
  have len: "length (ms_bytes ms @ entropy) = 16" using assms by (simp add: ms_bytes_def)
  note v = encode_loop_val [of 2 "ms_bytes ms @ entropy" 0, unfolded len]
  show "length (encode ms entropy) = 26" "over_alphabet (encode ms entropy)"
    using v by (simp_all add: encode_def)
  show "numval 32 (ulid_digits (encode ms entropy)) = ulid_num ms entropy"
    using v assms by (simp add: encode_def ulid_num_def numval_append numval_ms_bytes)
qed

lemma numval_entropy_less: "length entropy = 10 \<Longrightarrow> numval 256 (map unat (entropy :: u8 list)) < 2 ^ 80"
proof -
  assume "length entropy = 10"
  moreover have "unat (b :: u8) < 256" for b
  proof -
    have "unat b < 2 ^ LENGTH(8)" by (rule unsigned_less)
    then show ?thesis by simp
  qed
  ultimately show ?thesis using numval_bound [of "map unat entropy" 256] by auto
qed

lemma encode_less_iff:
  "length r = 10 \<Longrightarrow> length s = 10 \<Longrightarrow> encode m r < encode n s \<longleftrightarrow> ulid_num m r < ulid_num n s"
  by (simp add: ulid_less_iff encode_num)

lemma over_alphabet_hd:
  assumes "over_alphabet s" "length s = 26" "numval 32 (ulid_digits s) < 2 ^ 128"
  shows "Valid s"
proof -
  obtain c r where s: "s = c # r" "length r = 25" using assms(2) by (cases s) auto
  have "IndexByte c * 32 ^ 25 < 2 ^ 128" using assms(3) s by (simp add: numval_Cons)
  then have i: "IndexByte c < 8" by simp
  have c: "c \<in> set alphabet" using assms(1) s by (simp add: over_alphabet_def)
  then have "c = alphabet ! IndexByte c" using IndexByte_nth by (metis in_set_conv_nth length_alphabet)
  moreover have "alphabet ! i \<le> CHR ''7''" if "i < 8" for i
  proof -
    have "alphabet ! 7 = CHR ''7''" by (simp add: alphabet_def)
    then show ?thesis using alphabet_less_iff [of 7 i] that by (simp add: not_less [symmetric])
  qed
  ultimately have "\<not> c > CHR ''7''" using i by (metis leD)
  then show ?thesis
    using assms s by (auto simp: Valid_def ulid_Length_def over_alphabet_def list_all_iff)
qed

lemma ulid_num_less: "length r = 10 \<Longrightarrow> ulid_num m r < 2 ^ 128"
proof -
  assume r: "length r = 10"
  have "unat m mod 2 ^ 48 + 1 \<le> 2 ^ 48" by (simp add: Suc_le_eq)
  then have "(unat m mod 2 ^ 48 + 1) * 2 ^ 80 \<le> 2 ^ 48 * 2 ^ 80" by (rule mult_le_mono1)
  then show ?thesis using numval_entropy_less [OF r] by (simp add: ulid_num_def)
qed

lemma Valid_encode: "length r = 10 \<Longrightarrow> Valid (encode m r)"
  by (metis encode_num over_alphabet_hd ulid_num_less)

text \<open>The first ten characters are the milliseconds.\<close>

lemma numval_take_drop:
  "numval b ds = numval b (take k ds) * b ^ (length ds - k) + numval b (drop k ds)"
  using numval_append [of b "take k ds" "drop k ds"] by simp

lemma push_5_or: "i < 32 \<Longrightarrow> push_bit 5 (w :: u64) OR of_nat i = push_bit 5 w + of_nat i"
proof -
  assume i: "i < 32"
  have "take_bit 5 i = i" using i by (simp add: take_bit_nat_eq_self)
  then have "take_bit 5 (word_of_nat i :: u64) = word_of_nat i" by (simp only: take_bit_of_nat)
  then have small: "bit (word_of_nat i :: u64) n \<Longrightarrow> n < 5" for n by (metis bit_take_bit_iff)
  have "push_bit 5 w AND of_nat i = 0"
    by (rule bit_word_eqI) (use small in \<open>fastforce simp only: bit_and_iff bit_push_bit_iff bit_0_eq bot_fun_def bot_bool_def not_less [symmetric]\<close>)
  then show ?thesis by (rule disjunctive_add_eq_or [symmetric])
qed

lemma time_loop_val:
  "(\<And>c. c \<in> set cs \<Longrightarrow> c \<in> set alphabet) \<Longrightarrow>
     time_loop (word_of_nat P) cs = word_of_nat (P * 32 ^ length cs + numval 32 (ulid_digits cs))"
proof (induction cs arbitrary: P)
  case (Cons c cs)
  have "push_bit 5 (word_of_nat P :: u64) OR of_nat (IndexByte c) = word_of_nat (P * 32 + IndexByte c)"
    using push_5_or [OF IndexByte_less] Cons.prems by (simp add: push_bit_eq_mult)
  then show ?case
    using Cons.IH [of "P * 32 + IndexByte c"] Cons.prems by (simp add: numval_Cons algebra_simps)
qed simp

lemma sint_small: "unat (m :: u64) < 2 ^ 48 \<Longrightarrow> sint m = int (unat m)"
proof -
  assume "unat m < 2 ^ 48"
  then have "int (unat m) < int (2 ^ 48)" by (simp only: of_nat_less_iff)
  then have "uint m < 2 ^ 63" by simp
  then have "signed_take_bit 63 (uint m) = uint m"
    by (intro signed_take_bit_int_eq_self) (auto intro: order.trans [of _ 0])
  then show ?thesis by (simp add: sint_uint)
qed

lemma div_high_part: "a * B + t = N \<Longrightarrow> t < B \<Longrightarrow> a = N div (B::nat)"
  by auto

lemma Time_encode:
  assumes "length r = 10" "unat m < 2 ^ 48"
  shows "Time (encode m r) = Inr (of_UnixMilli (int (unat m)))"
proof -
  let ?s = "encode m r"
  note e = encode_num [OF assms(1), of m]
  have tail: "numval 32 (ulid_digits (drop 10 ?s)) < 2 ^ 80"
  proof -
    have "d < 32" if "d \<in> set (ulid_digits (drop 10 ?s))" for d
      using that e(2) IndexByte_less in_set_dropD unfolding over_alphabet_def by fastforce
    from numval_bound [of "ulid_digits (drop 10 ?s)" 32, OF this] show ?thesis using e(1) by simp
  qed
  have "numval 32 (ulid_digits (take 10 ?s)) * 2 ^ 80 + numval 32 (ulid_digits (drop 10 ?s)) = ulid_num m r"
    using e numval_take_drop [of 32 "ulid_digits ?s" 10] by (simp add: take_map drop_map)
  then have "numval 32 (ulid_digits (take 10 ?s)) = ulid_num m r div 2 ^ 80"
    using tail by (intro div_high_part)
  also have "\<dots> = unat m"
    using assms numval_entropy_less [OF assms(1)] by (simp add: ulid_num_def)
  finally have num: "numval 32 (ulid_digits (take 10 ?s)) = unat m" .
  have "c \<in> set alphabet" if "c \<in> set (take 10 ?s)" for c
    using in_set_takeD [OF that] e(2) by (auto simp: over_alphabet_def)
  from time_loop_val [OF this, where P = 0] num have "time_loop 0 (take 10 ?s) = m" by simp
  then show ?thesis
    using Valid_encode [OF assms(1)] sint_small [OF assms(2)] by (simp add: Time_def)
qed

section \<open>The generator\<close>

lemma increment_from_last_num:
  assumes "increment_from_last bs = (r, ok)"
  shows "length r = length bs"
    and "ok \<Longrightarrow> numval 256 (map unat (rev r)) = Suc (numval 256 (map unat (rev bs)))"
  using assms
proof (induction bs arbitrary: r)
  case (Cons b bs)
  obtain r' ok' where rec: "increment_from_last bs = (r', ok')" by fastforce
  {
    case 1
    then show ?case using Cons.IH(1) [of r'] rec by (auto split: if_splits prod.splits)
  next
    case 2
    show ?case
    proof (cases "b + 1 = 0")
      case True
      then have r: "r = 0 # r'" "ok' = ok" using 2(2) rec by auto
      have "b = - 1" using True by (simp add: eq_neg_iff_add_eq_0)
      then have "unat b = 255" by (simp add: unsigned_minus_1_eq_mask mask_eq_exp_minus_1)
      with r Cons.IH(2) [of r'] rec 2(1) show ?thesis by simp
    next
      case False
      then have "unat (b + 1) = Suc (unat b)" by (metis Suc_eq_plus1 unatSuc add.commute)
      moreover have "r = (b + 1) # bs" using 2(2) False by simp
      ultimately show ?thesis by simp
    qed
  }
qed simp_all

lemma increment_num:
  assumes "increment b = (r, ok)"
  shows "length r = length b" "ok \<Longrightarrow> numval 256 (map unat r) = Suc (numval 256 (map unat b))"
proof -
  obtain r' where "increment_from_last (rev b) = (r', ok)" "r = rev r'"
    using assms by (auto simp: increment_def split: prod.splits)
  then show "length r = length b" "ok \<Longrightarrow> numval 256 (map unat r) = Suc (numval 256 (map unat b))"
    using increment_from_last_num [of "rev b" r' ok] by simp_all
qed

text \<open>What a generator must satisfy: ten bytes of randomness, from a source that gives ten.\<close>

definition gen_ok :: "Generator \<Rightarrow> bool" where
  "gen_ok g \<longleftrightarrow> length (g_rand g) = 10 \<and> (\<forall>n. length (fst (g_Entropy g n)) = 10)"

lemma fill_frame:
  assumes "fill g = (err, g')" "gen_ok g"
  shows "g_ms g' = g_ms g \<and> gen_ok g'"
proof -
  have "length (fst (g_Entropy g (g_calls g))) = 10" using assms(2) by (simp add: gen_ok_def)
  then show ?thesis
    using assms by (cases "g_Entropy g (g_calls g)")
      (auto simp: fill_def gen_ok_def Let_def split: list.splits if_splits)
qed

lemma ulid_num_ms_less:
  assumes "unat m < unat n" "unat n < 2 ^ 48" "length r = 10"
  shows "ulid_num m r < ulid_num n s"
proof -
  have "Suc (unat m) * 2 ^ 80 \<le> unat n * 2 ^ 80" using assms(1) by (intro mult_le_mono1) simp
  then show ?thesis using assms numval_entropy_less [OF assms(3)] by (simp add: ulid_num_def)
qed

abbreviation gen_num :: "Generator \<Rightarrow> nat" where
  "gen_num g \<equiv> ulid_num (g_ms g) (g_rand g)"

text \<open>One call: the state's number grows, whether the call succeeds or not.\<close>

lemma New_step:
  assumes "New g at = (res, g')" "gen_ok g"
    and "Suc (unat (g_ms g)) < 2 ^ 48" "0 \<le> UnixMilli at" "UnixMilli at < 2 ^ 48"
  shows "gen_ok g' \<and> gen_num g < gen_num g'
    \<and> unat (g_ms g) \<le> unat (g_ms g') \<and> unat (g_ms g') \<le> max (Suc (unat (g_ms g))) (nat (UnixMilli at))
    \<and> (case res of Inl e \<Rightarrow> True
        | Inr (i, t) \<Rightarrow> i = encode (g_ms g') (g_rand g') \<and> t = of_UnixMilli (sint (g_ms g')))"
proof -
  define ms where "ms = (word_of_int (UnixMilli at) :: u64)"
  have ms: "unat ms = nat (UnixMilli at)"
    using assms(4,5) unfolding ms_def by (simp add: unsigned_of_int take_bit_int_eq_self nat_eq_iff)
  have len: "length (g_rand g) = 10" using assms(2) by (simp add: gen_ok_def)
  consider (later) err where "ms > g_ms g" "fill (g\<lparr>g_ms := ms\<rparr>) = (err, g')"
    | (same) r where "\<not> ms > g_ms g" "increment (g_rand g) = (r, True)" "g' = g\<lparr>g_rand := r\<rparr>"
    | (wrap) r err where "\<not> ms > g_ms g" "increment (g_rand g) = (r, False)"
        "fill (g\<lparr>g_rand := r, g_ms := g_ms g + 1\<rparr>) = (err, g')"
    using assms(1) unfolding New_def Let_def ms_def [symmetric]
    by (auto split: if_splits prod.splits option.splits)
  then have "gen_ok g' \<and> gen_num g < gen_num g'
    \<and> unat (g_ms g) \<le> unat (g_ms g') \<and> unat (g_ms g') \<le> max (Suc (unat (g_ms g))) (nat (UnixMilli at))"
  proof cases
    case later
    have f: "g_ms g' = ms \<and> gen_ok g'"
      using fill_frame [OF later(2)] assms(2) by (simp add: gen_ok_def)
    have lt: "unat (g_ms g) < unat ms" using later(1) by (simp add: word_less_nat_alt)
    have "unat ms < 2 ^ 48" using ms assms(4,5) by simp
    then have "gen_num g < gen_num g'" using ulid_num_ms_less [OF lt _ len] f by simp
    then show ?thesis using f lt ms by simp
  next
    case same
    then have "numval 256 (map unat r) = Suc (numval 256 (map unat (g_rand g)))" "length r = 10"
      using increment_num [OF same(2)] len by simp_all
    then show ?thesis using same(3) assms(2) by (simp add: ulid_num_def gen_ok_def)
  next
    case wrap
    have f: "g_ms g' = g_ms g + 1 \<and> gen_ok g'"
      using fill_frame [OF wrap(3)] assms(2) increment_num(1) [OF wrap(2)] by (simp add: gen_ok_def)
    have "unat (g_ms g + 1) = Suc (unat (g_ms g))"
      using assms(3) by (simp add: unat_word_ariths)
    then have "gen_num g < gen_num g'" "unat (g_ms g') = Suc (unat (g_ms g))"
      using ulid_num_ms_less [of "g_ms g" "g_ms g + 1"] assms(3) len f by simp_all
    then show ?thesis using f by simp
  qed
  moreover have "case res of Inl e \<Rightarrow> True
        | Inr (i, t) \<Rightarrow> i = encode (g_ms g') (g_rand g') \<and> t = of_UnixMilli (sint (g_ms g'))"
    using assms(1) unfolding New_def Let_def by (auto split: if_splits prod.splits option.splits)
  ultimately show ?thesis by blast
qed

text \<open>A sequence of calls at given moments, and the identifiers it issues.\<close>

fun New_all :: "Generator \<Rightarrow> time list \<Rightarrow> (ulid_error + string \<times> time) list \<times> Generator" where
  "New_all g [] = ([], g)"
| "New_all g (at # ats) =
     (let (res, g) = New g at; (rs, g) = New_all g ats in (res # rs, g))"

definition issued :: "(ulid_error + string \<times> time) list \<Rightarrow> (string \<times> time) list" where
  "issued rs = concat (map (\<lambda>r. case r of Inl e \<Rightarrow> [] | Inr x \<Rightarrow> [x]) rs)"

lemma issued_simps [simp]:
  "issued [] = []" "issued (Inl e # rs) = issued rs" "issued (Inr x # rs) = x # issued rs"
  by (simp_all add: issued_def)

text \<open>
  Bounds of a run of \<open>n\<close> calls: every moment and the generator's counter stay \<open>n\<close> milliseconds below
  the last one 48 bits can hold (in the year 10889).
\<close>

definition run_ok :: "Generator \<Rightarrow> time list \<Rightarrow> bool" where
  "run_ok g ats \<longleftrightarrow> gen_ok g \<and> unat (g_ms g) + length ats < 2 ^ 48
     \<and> list_all (\<lambda>at. 0 \<le> UnixMilli at \<and> nat (UnixMilli at) + length ats < 2 ^ 48) ats"

definition newer :: "Generator \<Rightarrow> string \<times> time \<Rightarrow> bool" where
  "newer g x \<longleftrightarrow> (\<exists>m r. x = (encode m r, of_UnixMilli (int (unat m))) \<and> length r = 10
     \<and> unat m < 2 ^ 48 \<and> unat (g_ms g) \<le> unat m \<and> gen_num g < ulid_num m r)"

lemma newer_trans:
  "newer g' x \<Longrightarrow> unat (g_ms g) \<le> unat (g_ms g') \<Longrightarrow> gen_num g < gen_num g' \<Longrightarrow> newer g x"
  unfolding newer_def
  by (elim exE conjE, rule_tac x = m in exI, rule_tac x = r in exI) (blast intro: order.trans order.strict_trans)

lemma run_ok_step:
  assumes "run_ok g (at # ats)" "New g at = (res, g')"
  shows "run_ok g' ats" "unat (g_ms g) \<le> unat (g_ms g')" "gen_num g < gen_num g'"
    and "res = Inr x \<Longrightarrow> x = (encode (g_ms g') (g_rand g'), of_UnixMilli (int (unat (g_ms g'))))"
proof -
  have b: "gen_ok g" "unat (g_ms g) + Suc (length ats) < 2 ^ 48" "0 \<le> UnixMilli at"
    "nat (UnixMilli at) + Suc (length ats) < 2 ^ 48"
    using assms(1) by (simp_all add: run_ok_def)
  note st = New_step [OF assms(2) b(1)]
  have "nat (UnixMilli at) < 2 ^ 48" using b(4) by linarith
  then have c: "Suc (unat (g_ms g)) < 2 ^ 48" "UnixMilli at < 2 ^ 48"
    using b by (linarith, simp add: nat_less_iff)
  note st = st [OF c(1) b(3) c(2)]
  show "unat (g_ms g) \<le> unat (g_ms g')" "gen_num g < gen_num g'" using st by auto
  have ms: "unat (g_ms g') + length ats < 2 ^ 48" using st b(2,4) by linarith
  show "run_ok g' ats"
    using st ms assms(1) unfolding run_ok_def list_all_iff by auto
  show "x = (encode (g_ms g') (g_rand g'), of_UnixMilli (int (unat (g_ms g'))))" if "res = Inr x"
    using st that sint_small [of "g_ms g'"] ms by (auto split: prod.splits)
qed

lemma of_UnixMilli_mono: "a \<le> b \<Longrightarrow> of_UnixMilli a \<le> of_UnixMilli b"
  by (simp add: of_UnixMilli_def)

lemma newer_after:
  assumes "newer g y" "gen_ok g"
  shows "encode (g_ms g) (g_rand g) < fst y \<and> of_UnixMilli (int (unat (g_ms g))) \<le> snd y"
proof -
  obtain m r where y: "y = (encode m r, of_UnixMilli (int (unat m)))" "length r = 10"
    "unat (g_ms g) \<le> unat m" "gen_num g < ulid_num m r" using assms(1) by (auto simp: newer_def)
  then show ?thesis
    using assms(2) of_UnixMilli_mono [of "int (unat (g_ms g))" "int (unat m)"]
    by (simp only: gen_ok_def encode_less_iff fst_conv snd_conv of_nat_le_iff simp_thms)
qed

lemma New_all_run:
  "run_ok g ats \<Longrightarrow> list_all (newer g) (issued (fst (New_all g ats)))
     \<and> sorted_wrt (\<lambda>x y. fst x < fst y \<and> snd x \<le> snd y) (issued (fst (New_all g ats)))"
proof (induction ats arbitrary: g)
  case (Cons at ats)
  obtain res g' where step: "New g at = (res, g')" by fastforce
  note s = run_ok_step [OF Cons.prems step]
  let ?rest = "issued (fst (New_all g' ats))"
  have IH: "list_all (newer g') ?rest" "sorted_wrt (\<lambda>x y. fst x < fst y \<and> snd x \<le> snd y) ?rest"
    using Cons.IH [OF s(1)] by auto
  have rest: "list_all (newer g) ?rest"
    using IH(1) newer_trans [OF _ s(2,3)] by (auto simp: list_all_iff)
  have eq: "issued (fst (New_all g (at # ats))) = issued [res] @ ?rest"
    using step by (cases res) (auto split: prod.splits)
  show ?case
  proof (cases res)
    case (Inl e)
    then show ?thesis using eq rest IH by simp
  next
    case (Inr x)
    have x: "x = (encode (g_ms g') (g_rand g'), of_UnixMilli (int (unat (g_ms g'))))" using s(4) Inr .
    have ok: "gen_ok g'" "unat (g_ms g') < 2 ^ 48" using s(1) by (auto simp: run_ok_def)
    have "newer g x" unfolding newer_def using x s(2,3) ok by (auto simp: gen_ok_def)
    then show ?thesis
      using eq rest IH Inr x newer_after [OF _ ok(1)] by (auto simp: list_all_iff)
  qed
qed simp

section \<open>Properties\<close>

text \<open>
  C35: Over any sequence of calls, with a clock that may stand still or step back and an entropy
  source that may fail, the identifiers a generator issues increase strictly as strings, the moments
  it reports with them never decrease, and each identifier is valid and encodes its moment.
\<close>

theorem New_strictly_increasing:
  assumes "run_ok g ats"
  shows "sorted_wrt (\<lambda>x y. fst x < fst y \<and> snd x \<le> snd y) (issued (fst (New_all g ats)))
    \<and> list_all (\<lambda>x. Valid (fst x) \<and> Time (fst x) = Inr (snd x)) (issued (fst (New_all g ats)))"
proof -
  have "newer g x \<Longrightarrow> Valid (fst x) \<and> Time (fst x) = Inr (snd x)" for x
    by (auto simp: newer_def Valid_encode Time_encode)
  then show ?thesis using New_all_run [OF assms] by (auto simp: list_all_iff)
qed

theorem New_strictly_increasing_witness:
  "let g = \<lparr>g_ms = 0, g_rand = replicate 10 0, g_calls = 0, g_Entropy = (\<lambda>n. (replicate 10 255, n = 1))\<rparr>;
       out = issued (fst (New_all g [5000000, 7000000, 6000000, 5000000]))
   in length out = 3
      \<and> sorted_wrt (\<lambda>x y. fst x < fst y \<and> snd x \<le> snd y) out
      \<and> list_all (\<lambda>x. Valid (fst x) \<and> Time (fst x) = Inr (snd x)) out"
proof -
  define g where "g = \<lparr>g_ms = (0 :: u64), g_rand = replicate 10 (0 :: u8), g_calls = 0,
    g_Entropy = (\<lambda>n. (replicate 10 (255 :: u8), n = Suc 0))\<rparr>"
  let ?ats = "[5000000, 7000000, 6000000, 5000000] :: int list"
  have ok: "run_ok g ?ats" by (simp add: run_ok_def gen_ok_def g_def UnixMilli_def)
  have "length (issued (fst (New_all g ?ats))) = 3"
    unfolding g_def by code_simp
  then show ?thesis
    using New_strictly_increasing [OF ok] unfolding g_def Let_def by simp
qed

text \<open>
  C5. \<open>encode\<close> followed by \<open>Time\<close> gives back the millisecond, for every moment 48 bits can hold; the
  encoding is 26 characters of the alphabet and is accepted by \<open>Valid\<close>.
\<close>

theorem encode_roundtrip:
  assumes "length entropy = 10" "unat ms < 2 ^ 48"
  shows "Time (encode ms entropy) = Inr (of_UnixMilli (int (unat ms)))
    \<and> Valid (encode ms entropy) \<and> length (encode ms entropy) = ulid_Length"
  using Time_encode [OF assms] Valid_encode [OF assms(1)] encode_num(1) [OF assms(1)]
  by (simp add: ulid_Length_def)

theorem encode_roundtrip_witness:
  "Time (encode 1469918176385 (replicate 10 7)) = Inr (of_UnixMilli 1469918176385)"
  using encode_roundtrip [of "replicate 10 7" 1469918176385] by simp

text \<open>
  Identifiers compare, as strings, as the 128-bit numbers they encode: first the millisecond,
  then the randomness.
\<close>

theorem encode_order:
  assumes "length r = 10" "length s = 10"
  shows "encode m r < encode n s \<longleftrightarrow>
    unat m mod 2 ^ 48 < unat n mod 2 ^ 48
    \<or> unat m mod 2 ^ 48 = unat n mod 2 ^ 48 \<and> numval 256 (map unat r) < numval 256 (map unat s)"
proof -
  have "x * B + u < y * B + v \<longleftrightarrow> x < y \<or> x = y \<and> u < v" if "u < B" "v < B" for x y u v B :: nat
  proof -
    have lt: "a < b \<Longrightarrow> Suc a * B \<le> b * B" for a b by (intro mult_le_mono1) simp
    show ?thesis using that lt [of x y] lt [of y x] by (cases rule: linorder_cases [of x y]) auto
  qed
  from this [OF numval_entropy_less [OF assms(1)] numval_entropy_less [OF assms(2)]] show ?thesis
    using encode_less_iff [OF assms] by (simp only: ulid_num_def)
qed

theorem encode_order_witness:
  "encode 1 (replicate 10 255) < encode 2 (replicate 10 0)"
  using encode_order [of "replicate 10 255" "replicate 10 0" 1 2] by simp

end
