(* ===== verification/Layout.thy ===== *)
theory Layout
  imports Store Ulid
begin

text \<open>
  \<open>store/layout.go\<close> and \<open>store/seals.go\<close>: the grammar of the archive's keys, and the walks over it.
  Shown: a key that is built is read back, a key that is read is one that would be built, record keys
  sort by the hour they were taken in and then by ULID, a walk visits exactly the objects of its
  hours, in order, page after page, and the last seal found is the newest there is.
\<close>

section \<open>Keys of records and catalogues\<close>

definition RecordsPrefix :: string where "RecordsPrefix = ''records/''"

definition CataloguePrefix :: string where "CataloguePrefix = ''catalogue/''"

definition MetaFormat :: string where "MetaFormat = ''format''"

definition MetaSHA256 :: string where "MetaSHA256 = ''sha256''"

definition MetaCount :: string where "MetaCount = ''count''"

definition Format :: string where "Format = ''1''"

definition ProfilePrefix :: "string \<Rightarrow> string" where
  "ProfilePrefix profile = RecordsPrefix @ profile @ ''/''"

definition TenantPrefix :: "string \<Rightarrow> string \<Rightarrow> string" where
  "TenantPrefix profile tenant = ProfilePrefix profile @ tenant @ ''/''"

definition HourPrefix :: "string \<Rightarrow> string \<Rightarrow> time \<Rightarrow> string" where
  "HourPrefix profile tenant hour = TenantPrefix profile tenant @ Format_hour hour @ ''/''"

definition RecordKey :: "string \<Rightarrow> string \<Rightarrow> time \<Rightarrow> string \<Rightarrow> string" where
  "RecordKey profile tenant at ident = HourPrefix profile tenant at @ ident"

definition CatalogueKey :: "string \<Rightarrow> string \<Rightarrow> string" where
  "CatalogueKey app version = CataloguePrefix @ app @ ''/'' @ version"

definition SchemaDir :: "string \<Rightarrow> string \<Rightarrow> string" where
  "SchemaDir app version = ''schema/'' @ app @ ''/'' @ version @ ''/''"

definition KeyComponent :: "string \<Rightarrow> string" where
  "KeyComponent s =
     (if s = [] then ''is empty''
      else if CHR ''/'' \<in> set s then ''contains a slash''
      else if s = ''.'' \<or> s = ''..'' then ''is a relative path element''
      else [])"

record RecordObject =
  ro_Profile :: string
  ro_Tenant :: string
  ro_Hour :: time
  ro_ULID :: string

text \<open>The loop that reads the four numbers, each of its own width.\<close>

fun read_fields :: "(string \<times> nat) list \<Rightarrow> nat list option" where
  "read_fields [] = Some []"
| "read_fields ((part, width) # rest) =
     (if length part \<noteq> width then None
      else case read_digits 0 part of
             None \<Rightarrow> None
           | Some n \<Rightarrow> map_option ((#) n) (read_fields rest))"

definition ParseRecordKey :: "string \<Rightarrow> RecordObject option" where
  "ParseRecordKey key =
     (case CutPrefix key RecordsPrefix of
        None \<Rightarrow> None
      | Some rest \<Rightarrow>
          (let parts = Split (CHR ''/'') rest in
           if length parts \<noteq> 7 then None
           else if parts ! 0 = [] \<or> parts ! 1 = [] \<or> \<not> Valid (parts ! 6) then None
           else case read_fields (zip (take 4 (drop 2 parts)) [4, 2, 2, 2]) of
               None \<Rightarrow> None
             | Some n \<Rightarrow>
                 (let hour = Date (int (n ! 0)) (int (n ! 1)) (int (n ! 2)) (int (n ! 3)) 0 in
                  if Format_hour hour \<noteq> Join (CHR ''/'') (take 4 (drop 2 parts)) then None
                  else case Time (parts ! 6) of
                      Inl err \<Rightarrow> None
                    | Inr at \<Rightarrow>
                        if Truncate_hour at \<noteq> hour then None
                        else Some \<lparr>ro_Profile = parts ! 0, ro_Tenant = parts ! 1, ro_Hour = hour,
                                   ro_ULID = parts ! 6\<rparr>)))"

section \<open>Listing tenants and profiles\<close>

definition TrimPrefix :: "string \<Rightarrow> string \<Rightarrow> string" where
  "TrimPrefix s p = (case CutPrefix s p of Some r \<Rightarrow> r | None \<Rightarrow> s)"

definition TrimSuffix :: "string \<Rightarrow> string \<Rightarrow> string" where
  "TrimSuffix s p = (case CutSuffix s p of Some r \<Rightarrow> r | None \<Rightarrow> s)"

type_synonym lister = "string \<Rightarrow> string \<Rightarrow> nat \<Rightarrow> store_error + entry list"
type_synonym grouper = "string \<Rightarrow> string \<Rightarrow> store_error + string list"

definition Tenants :: "grouper \<Rightarrow> string \<Rightarrow> store_error + string list" where
  "Tenants grp profile =
     (let pre = ProfilePrefix profile in
      map_sum (\<lambda>e. e) (map (\<lambda>p. TrimSuffix (TrimPrefix p pre) ''/'')) (grp pre ''/''))"

definition Profiles :: "grouper \<Rightarrow> store_error + string list" where
  "Profiles grp =
     map_sum (\<lambda>e. e) (map (\<lambda>p. TrimSuffix (TrimPrefix p RecordsPrefix) ''/'')) (grp RecordsPrefix ''/'')"

section \<open>Walking a range of hours\<close>

text \<open>
  The callback is a function on its own state, returning an error to stop the walk; the store does
  not change while it is walked. \<open>visit\<close> is the loop over a page: it either returns from the walk or
  goes on with the key it came to.
\<close>

definition pageSize :: nat where "pageSize = 1000"

type_synonym ('e, 'a) visitor = "entry \<Rightarrow> 'a \<Rightarrow> 'e option \<times> 'a"

fun visit :: "string \<Rightarrow> ('e, 'a) visitor \<Rightarrow> string \<Rightarrow> entry list \<Rightarrow> 'a \<Rightarrow> ('e option \<times> 'a) + (string \<times> 'a)" where
  "visit stop fn start [] acc = Inr (start, acc)"
| "visit stop fn start (e # es) acc =
     (if e_Key e \<ge> stop then Inl (None, acc)
      else case fn e acc of
             (Some err, acc') \<Rightarrow> Inl (Some err, acc')
           | (None, acc') \<Rightarrow> visit stop fn (e_Key e) es acc')"

partial_function (option) walk_loop ::
  "lister \<Rightarrow> string \<Rightarrow> string \<Rightarrow> ('e, 'a) visitor \<Rightarrow> string \<Rightarrow> 'a \<Rightarrow> ((store_error + 'e) option \<times> 'a) option"
where
  "walk_loop list pre stop fn start acc =
     (case list pre start pageSize of
        Inl err \<Rightarrow> Some (Some (Inl err), acc)
      | Inr entries \<Rightarrow>
          (case visit stop fn start entries acc of
             Inl ret \<Rightarrow> Some (map_option Inr (fst ret), snd ret)
           | Inr next \<Rightarrow>
               if length entries < pageSize then Some (None, snd next)
               else walk_loop list pre stop fn (fst next) (snd next)))"

definition WalkHours ::
  "lister \<Rightarrow> string \<Rightarrow> string \<Rightarrow> time \<Rightarrow> time \<Rightarrow> string \<Rightarrow> ('e, 'a) visitor \<Rightarrow> 'a \<Rightarrow> ((store_error + 'e) option \<times> 'a) option"
where
  "WalkHours list profile tenant frm til after fn acc =
     (let first = Truncate_hour frm; final = Truncate_hour til in
      if final < first then Some (None, acc)
      else let pre = TenantPrefix profile tenant;
               start = HourPrefix profile tenant first;
               start = (if after > start then after else start);
               stop = HourPrefix profile tenant (final + hour_ns)
           in walk_loop list pre stop fn start acc)"

text \<open>\<open>WalkProfile\<close>: tenant by tenant, stopping at the first error.\<close>

fun walk_tenants ::
  "(string \<Rightarrow> 'a \<Rightarrow> ('x option \<times> 'a) option) \<Rightarrow> string list \<Rightarrow> 'a \<Rightarrow> ('x option \<times> 'a) option"
where
  "walk_tenants walk [] acc = Some (None, acc)"
| "walk_tenants walk (t # ts) acc =
     (case walk t acc of
        None \<Rightarrow> None
      | Some (Some err, acc') \<Rightarrow> Some (Some err, acc')
      | Some (None, acc') \<Rightarrow> walk_tenants walk ts acc')"

definition WalkProfile ::
  "lister \<Rightarrow> grouper \<Rightarrow> string \<Rightarrow> time \<Rightarrow> time \<Rightarrow> (string \<Rightarrow> ('e, 'a) visitor) \<Rightarrow> 'a \<Rightarrow> ((store_error + 'e) option \<times> 'a) option"
where
  "WalkProfile list grp profile frm til fn acc =
     (case Tenants grp profile of
        Inl err \<Rightarrow> Some (Some (Inl err), acc)
      | Inr tenants \<Rightarrow>
          walk_tenants (\<lambda>tenant. WalkHours list profile tenant frm til [] (fn tenant)) tenants acc)"

section \<open>Seals\<close>

definition SealsPrefix :: string where "SealsPrefix = ''seals/''"

definition KeysPrefix :: string where "KeysPrefix = ''keys/''"

definition RootsKey :: string where "RootsKey = KeysPrefix @ ''roots.jwks''"

definition DelegationsPrefix :: string where "DelegationsPrefix = KeysPrefix @ ''delegations/''"

definition RevocationsPrefix :: string where "RevocationsPrefix = KeysPrefix @ ''revocations/''"

definition SealExt :: string where "SealExt = ''.jws''"

definition SealTenantPrefix :: "string \<Rightarrow> string \<Rightarrow> string" where
  "SealTenantPrefix profile tenant = SealsPrefix @ profile @ ''/'' @ tenant @ ''/''"

definition SealKey :: "string \<Rightarrow> string \<Rightarrow> time \<Rightarrow> string" where
  "SealKey profile tenant hour = SealTenantPrefix profile tenant @ Format_hour hour @ SealExt"

record SealObject =
  so_Profile :: string
  so_Tenant :: string
  so_Hour :: time

definition ParseSealKey :: "string \<Rightarrow> SealObject option" where
  "ParseSealKey key =
     (case CutPrefix key SealsPrefix of
        None \<Rightarrow> None
      | Some rest \<Rightarrow>
          (let parts = Split (CHR ''/'') rest in
           if length parts \<noteq> 6 \<or> parts ! 0 = [] \<or> parts ! 1 = [] then None
           else case CutSuffix (parts ! 5) SealExt of
               None \<Rightarrow> None
             | Some hh \<Rightarrow>
                 (case read_fields [(parts ! 2, 4), (parts ! 3, 2), (parts ! 4, 2), (hh, 2)] of
                    None \<Rightarrow> None
                  | Some n \<Rightarrow>
                      (let hour = Date (int (n ! 0)) (int (n ! 1)) (int (n ! 2)) (int (n ! 3)) 0 in
                       if SealKey (parts ! 0) (parts ! 1) hour \<noteq> key then None
                       else Some \<lparr>so_Profile = parts ! 0, so_Tenant = parts ! 1, so_Hour = hour\<rparr>))))"

definition WalkSeals ::
  "lister \<Rightarrow> string \<Rightarrow> string \<Rightarrow> time \<Rightarrow> time \<Rightarrow> ('e, 'a) visitor \<Rightarrow> 'a \<Rightarrow> ((store_error + 'e) option \<times> 'a) option"
where
  "WalkSeals list profile tenant frm til fn acc =
     (let first = Truncate_hour frm; final = Truncate_hour til in
      if final < first then Some (None, acc)
      else let pre = SealTenantPrefix profile tenant;
               start = SealKey profile tenant (first - hour_ns);
               stop = SealKey profile tenant (final + hour_ns)
           in walk_loop list pre stop fn start acc)"

text \<open>\<open>LastSeal\<close>: the descent by common prefix, each level tried from the newest down.\<close>

fun scan_groups :: "(string \<Rightarrow> 'e + 'b option) \<Rightarrow> string list \<Rightarrow> 'e + 'b option" where
  "scan_groups down [] = Inr None"
| "scan_groups down (g # gs) =
     (case down g of
        Inl err \<Rightarrow> Inl err
      | Inr (Some e) \<Rightarrow> Inr (Some e)
      | Inr None \<Rightarrow> scan_groups down gs)"

primrec descend :: "lister \<Rightarrow> grouper \<Rightarrow> nat \<Rightarrow> string \<Rightarrow> store_error + entry option" where
  "descend list grp 0 pre =
     map_sum (\<lambda>e. e) (\<lambda>entries. find (\<lambda>e. ParseSealKey (e_Key e) \<noteq> None) (rev entries)) (list pre [] 0)"
| "descend list grp (Suc depth) pre =
     (case grp pre ''/'' of
        Inl err \<Rightarrow> Inl err
      | Inr groups \<Rightarrow> scan_groups (descend list grp depth) (rev (sort groups)))"

definition LastSeal :: "lister \<Rightarrow> grouper \<Rightarrow> string \<Rightarrow> string \<Rightarrow> store_error + entry option" where
  "LastSeal list grp profile tenant = descend list grp 3 (SealTenantPrefix profile tenant)"

section \<open>The grammar\<close>

lemma length_zpad_less: "length (zpad w n) = w \<Longrightarrow> n < 10 ^ w"
proof -
  assume len: "length (zpad w n) = w"
  obtain ds where ds: "itoa n = map digit ds" "\<forall>d\<in>set ds. d < 10" "numval 10 ds = n"
    using itoa_map by blast
  then have "length ds \<le> w" using len by (auto simp: zpad_def)
  then have "(10::nat) ^ length ds \<le> 10 ^ w" by (intro power_increasing) auto
  moreover have "n < 10 ^ length ds" using numval_bound [of ds 10] ds by auto
  ultimately show ?thesis by (rule less_le_trans [rotated])
qed

lemma slash_not_digit: "\<not> is_digit (CHR ''/'')" "\<not> is_digit (CHR ''-'')"
  by (simp_all add: is_digit_iff)

lemma hour_parts_no_slash: "p \<in> set (hour_parts t) \<Longrightarrow> CHR ''/'' \<notin> set p"
proof -
  have "CHR ''/'' \<notin> set (zpad w n)" for w n
  proof -
    obtain ds where "itoa n = map digit ds" "\<forall>d\<in>set ds. d < 10" using itoa_map by blast
    then have "\<forall>c \<in> set (itoa n). is_digit c" by auto
    then show ?thesis using slash_not_digit by (auto simp: zpad_def)
  qed
  then show "p \<in> set (hour_parts t) \<Longrightarrow> CHR ''/'' \<notin> set p"
    by (auto simp: hour_parts_def fmt_int_def split: if_splits)
qed

lemma read_fields_Some:
  "read_fields fs = Some ns \<longleftrightarrow>
     length ns = length fs \<and> (\<forall>i<length fs. length (fst (fs ! i)) = snd (fs ! i)
       \<and> read_digits 0 (fst (fs ! i)) = Some (ns ! i))"
proof (induction fs arbitrary: ns rule: read_fields.induct)
  case (2 part width rest)
  show ?case
    by (cases ns) (auto simp: "2.IH" All_less_Suc2 split: option.splits)
qed auto

text \<open>The four numbers read from the parts of an hour make that hour again.\<close>

lemma read_fields_hour:
  assumes "written_year t"
  shows "\<exists>n. read_fields (zip (hour_parts t) [4, 2, 2, 2]) = Some n
    \<and> Date (int (n ! 0)) (int (n ! 1)) (int (n ! 2)) (int (n ! 3)) 0 = Truncate_hour t"
proof (intro exI conjI)
  let ?n = "[nat (Year t), nat (Month t), nat (Day t), nat (Hour t)]"
  show "read_fields (zip (hour_parts t) [4, 2, 2, 2]) = Some ?n"
    using field_bounds [OF assms] by (simp add: hour_parts_zpad assms length_zpad)
  show "Date (int (?n ! 0)) (int (?n ! 1)) (int (?n ! 2)) (int (?n ! 3)) 0 = Truncate_hour t"
    using Month_bounds [of t] Day_bounds [of t] Hour_bounds [of t] assms
    by (simp add: written_year_def Date_fields)
qed

text \<open>An hour whose parts are digits of the widths of the layout is of a year the layout writes.\<close>

lemma written_year_parts:
  assumes "hour_parts t = ps" "length (ps ! 0) = 4" "\<And>c. c \<in> set (ps ! 0) \<Longrightarrow> is_digit c"
  shows "written_year t"
proof -
  have p: "fmt_int 4 (Year t) = ps ! 0" using assms(1) by (auto simp: hour_parts_def)
  have "0 \<le> Year t"
  proof (rule ccontr)
    assume "\<not> 0 \<le> Year t"
    then have "CHR ''-'' \<in> set (ps ! 0)" using p [symmetric] by (simp add: fmt_int_def)
    with assms(3) slash_not_digit show False by blast
  qed
  with p assms(2) have "length (zpad 4 (nat (Year t))) = 4" by (auto simp: fmt_int_def)
  from length_zpad_less [OF this] \<open>0 \<le> Year t\<close> show ?thesis by (simp add: written_year_def)
qed

lemma Valid_no_slash: "Valid s \<Longrightarrow> CHR ''/'' \<notin> set s"
proof -
  have "CHR ''/'' \<notin> set alphabet" by (simp add: alphabet_def)
  then show "Valid s \<Longrightarrow> CHR ''/'' \<notin> set s" by (auto simp: Valid_def list_all_iff)
qed

lemma RecordKey_parts:
  "RecordKey p t at u = RecordsPrefix @ Join (CHR ''/'') (p # t # hour_parts at @ [u])"
  by (simp add: RecordKey_def HourPrefix_def TenantPrefix_def ProfilePrefix_def Format_hour_def hour_parts_def)

lemma Split_record_parts:
  assumes "CHR ''/'' \<notin> set p" "CHR ''/'' \<notin> set t" "CHR ''/'' \<notin> set u"
  shows "Split (CHR ''/'') (Join (CHR ''/'') (p # t # hour_parts at @ [u])) = p # t # hour_parts at @ [u]"
  using assms hour_parts_no_slash by (intro Split_Join) auto

lemma ParseRecordKey_RecordKey:
  assumes "p \<noteq> []" "t \<noteq> []" "CHR ''/'' \<notin> set p" "CHR ''/'' \<notin> set t" "Valid u" "Time u = Inr at'"
    "Truncate_hour at' = Truncate_hour at" "written_year at"
  shows "ParseRecordKey (RecordKey p t at u) =
    Some \<lparr>ro_Profile = p, ro_Tenant = t, ro_Hour = Truncate_hour at, ro_ULID = u\<rparr>"
proof -
  obtain y m d h where hp: "hour_parts at = [y, m, d, h]" by (simp add: hour_parts_def)
  have sp: "Split (CHR ''/'') (Join (CHR ''/'') [p, t, y, m, d, h, u]) = [p, t, y, m, d, h, u]"
    using Split_record_parts [of p t u at] assms Valid_no_slash by (simp add: hp)
  obtain n where rf: "read_fields [(y, 4), (m, 2), (d, 2), (h, 2)] = Some n"
      "Date (int (n ! 0)) (int (n ! 1)) (int (n ! 2)) (int (n ! 3)) 0 = Truncate_hour at"
    using read_fields_hour [OF assms(8)] by (auto simp: hp)
  have fh: "Format_hour (Truncate_hour at) = Join (CHR ''/'') [y, m, d, h]"
    by (simp add: Format_hour_def hp)
  show ?thesis
    unfolding ParseRecordKey_def RecordKey_parts CutPrefix_append hp append.simps option.case Let_def sp
    using assms rf fh by simp
qed

lemma list_seven: "length xs = 7 \<Longrightarrow> \<exists>a b c d e f g. xs = [a, b, c, d, e, f, g]"
  by (simp add: numeral_eq_Suc length_Suc_conv) blast

lemma list_six: "length xs = 6 \<Longrightarrow> \<exists>a b c d e f. xs = [a, b, c, d, e, f]"
  by (simp add: numeral_eq_Suc length_Suc_conv) blast

lemma ParseRecordKey_sound:
  assumes "ParseRecordKey key = Some ob"
  shows "key = RecordKey (ro_Profile ob) (ro_Tenant ob) (ro_Hour ob) (ro_ULID ob)"
    and "ro_Profile ob \<noteq> []" "ro_Tenant ob \<noteq> []" "CHR ''/'' \<notin> set (ro_Profile ob)" "CHR ''/'' \<notin> set (ro_Tenant ob)"
    and "Valid (ro_ULID ob)" "\<exists>at. Time (ro_ULID ob) = Inr at \<and> Truncate_hour at = ro_Hour ob" "written_year (ro_Hour ob)"
proof -
  obtain rest where key: "key = RecordsPrefix @ rest"
    using assms by (auto simp: ParseRecordKey_def CutPrefix_Some split: option.splits)
  let ?ps = "Split (CHR ''/'') rest"
  have ps_key: "ParseRecordKey key = Some ob" "CutPrefix key RecordsPrefix = Some rest" using assms key by simp_all
  then have "length ?ps = 7" by (auto simp: ParseRecordKey_def Let_def split: if_splits)
  then obtain p t y m d h u where ps: "?ps = [p, t, y, m, d, h, u]" using list_seven by metis
  from ps_key obtain n at where
      n: "read_fields [(y, 4), (m, 2), (d, 2), (h, 2)] = Some n"
    and f: "Format_hour (ro_Hour ob) = Join (CHR ''/'') [y, m, d, h]"
    and tm: "Time u = Inr at" "Truncate_hour at = ro_Hour ob"
    and ob: "ro_Profile ob = p" "ro_Tenant ob = t" "ro_ULID ob = u" "p \<noteq> []" "t \<noteq> []" "Valid u"
    by (auto simp: ParseRecordKey_def Let_def ps split: if_splits option.splits sum.splits)
  have ns: "CHR ''/'' \<notin> set q" if "q \<in> {p, t, y, m, d, h, u}" for q
    using Split_parts_no_sep [of q "CHR ''/''" rest] that ps by auto
  have rest: "rest = Join (CHR ''/'') [p, t, y, m, d, h, u]" using Join_Split [of "CHR ''/''" rest] ps by simp
  have hp: "hour_parts (ro_Hour ob) = [y, m, d, h]"
  proof -
    have "Split (CHR ''/'') (Join (CHR ''/'') (hour_parts (ro_Hour ob))) = hour_parts (ro_Hour ob)"
      using hour_parts_no_slash by (intro Split_Join) (auto simp: hour_parts_def)
    moreover have "Split (CHR ''/'') (Join (CHR ''/'') [y, m, d, h]) = [y, m, d, h]"
      using ns by (intro Split_Join) auto
    ultimately show ?thesis using f by (simp add: Format_hour_def)
  qed
  show "key = RecordKey (ro_Profile ob) (ro_Tenant ob) (ro_Hour ob) (ro_ULID ob)"
    using hp ob rest key by (simp add: RecordKey_parts)
  show "ro_Profile ob \<noteq> []" "ro_Tenant ob \<noteq> []" "CHR ''/'' \<notin> set (ro_Profile ob)" "CHR ''/'' \<notin> set (ro_Tenant ob)"
    "Valid (ro_ULID ob)" "\<exists>at. Time (ro_ULID ob) = Inr at \<and> Truncate_hour at = ro_Hour ob"
    using ob ns tm by auto
  have "length y = 4" "read_digits 0 y \<noteq> None" using n by (auto split: if_splits option.splits)
  then show "written_year (ro_Hour ob)"
    using written_year_parts [OF hp] read_digits_Some by auto
qed

text \<open>
  C36: A key is read as a record's exactly when it is the key the archive builds for that profile,
  tenant, hour and ULID: the profile and the tenant are not empty and have no slash, the ULID is
  valid and its own moment falls in the hour, and the hour is the start of one of a year of four
  digits. So the reader and the builder of keys agree on every string.
\<close>

theorem ParseRecordKey_iff:
  "ParseRecordKey key = Some ob \<longleftrightarrow>
     key = RecordKey (ro_Profile ob) (ro_Tenant ob) (ro_Hour ob) (ro_ULID ob)
     \<and> ro_Profile ob \<noteq> [] \<and> ro_Tenant ob \<noteq> []
     \<and> CHR ''/'' \<notin> set (ro_Profile ob) \<and> CHR ''/'' \<notin> set (ro_Tenant ob)
     \<and> Valid (ro_ULID ob) \<and> (\<exists>at. Time (ro_ULID ob) = Inr at \<and> Truncate_hour at = ro_Hour ob)
     \<and> 0 \<le> Year (ro_Hour ob) \<and> Year (ro_Hour ob) \<le> 9999"
proof (intro iffI)
  assume "ParseRecordKey key = Some ob"
  from ParseRecordKey_sound [OF this] show "key = RecordKey (ro_Profile ob) (ro_Tenant ob) (ro_Hour ob) (ro_ULID ob)
     \<and> ro_Profile ob \<noteq> [] \<and> ro_Tenant ob \<noteq> []
     \<and> CHR ''/'' \<notin> set (ro_Profile ob) \<and> CHR ''/'' \<notin> set (ro_Tenant ob)
     \<and> Valid (ro_ULID ob) \<and> (\<exists>at. Time (ro_ULID ob) = Inr at \<and> Truncate_hour at = ro_Hour ob)
     \<and> 0 \<le> Year (ro_Hour ob) \<and> Year (ro_Hour ob) \<le> 9999"
    unfolding written_year_def by blast
next
  assume r: "key = RecordKey (ro_Profile ob) (ro_Tenant ob) (ro_Hour ob) (ro_ULID ob)
     \<and> ro_Profile ob \<noteq> [] \<and> ro_Tenant ob \<noteq> []
     \<and> CHR ''/'' \<notin> set (ro_Profile ob) \<and> CHR ''/'' \<notin> set (ro_Tenant ob)
     \<and> Valid (ro_ULID ob) \<and> (\<exists>at. Time (ro_ULID ob) = Inr at \<and> Truncate_hour at = ro_Hour ob)
     \<and> 0 \<le> Year (ro_Hour ob) \<and> Year (ro_Hour ob) \<le> 9999"
  then obtain at where at: "Time (ro_ULID ob) = Inr at" "Truncate_hour at = ro_Hour ob" by blast
  then have tr: "Truncate_hour (ro_Hour ob) = ro_Hour ob" by (metis Truncate_hour_idem)
  have "ParseRecordKey key = Some \<lparr>ro_Profile = ro_Profile ob, ro_Tenant = ro_Tenant ob,
      ro_Hour = Truncate_hour (ro_Hour ob), ro_ULID = ro_ULID ob\<rparr>"
    using ParseRecordKey_RecordKey [of "ro_Profile ob" "ro_Tenant ob" "ro_ULID ob" at "ro_Hour ob"] r at tr
    by (simp add: written_year_def)
  then show "ParseRecordKey key = Some ob" by (simp add: tr)
qed

section \<open>Keys sort as they were taken\<close>

lemma RecordKey_less_iff:
  assumes "written_year a" "written_year b"
  shows "RecordKey p t a u < RecordKey p t b v \<longleftrightarrow>
    Truncate_hour a < Truncate_hour b \<or> Truncate_hour a = Truncate_hour b \<and> u < v"
  using Format_hour_less_iff [OF assms, of "''/'' @ u" "''/'' @ v"]
  by (simp add: RecordKey_def HourPrefix_def)

lemma Truncate_hour_mono: "a \<le> b \<Longrightarrow> Truncate_hour a \<le> Truncate_hour b"
proof -
  have "Truncate_hour t = t div hour_ns * hour_ns" for t
    by (simp add: Truncate_hour_def minus_mod_eq_div_mult)
  then show "a \<le> b \<Longrightarrow> Truncate_hour a \<le> Truncate_hour b"
    by (simp add: hour_ns_def zdiv_mono1)
qed

text \<open>
  The keys of the batches one generator names, call after call, increase strictly, so that
  listing a tenant's prefix in key order is listing its batches in the order they were taken; and
  each key is read back as the profile, the tenant, the hour of its moment and its ULID.
\<close>

theorem batch_keys_in_ingest_order:
  assumes "run_ok g ats" "list_all (\<lambda>x. written_year (snd x)) (issued (fst (New_all g ats)))"
    and "KeyComponent p = []" "KeyComponent t = []"
  shows "sorted_wrt (\<lambda>x y. RecordKey p t (snd x) (fst x) < RecordKey p t (snd y) (fst y)) (issued (fst (New_all g ats)))
    \<and> list_all (\<lambda>x. ParseRecordKey (RecordKey p t (snd x) (fst x)) =
         Some \<lparr>ro_Profile = p, ro_Tenant = t, ro_Hour = Truncate_hour (snd x), ro_ULID = fst x\<rparr>)
        (issued (fst (New_all g ats)))"
proof -
  let ?xs = "issued (fst (New_all g ats))"
  note run = New_all_run [OF assms(1)]
  have valid: "Valid (fst x) \<and> Time (fst x) = Inr (snd x)" if "x \<in> set ?xs" for x
  proof -
    have "newer g x" using run that by (simp add: list_all_iff)
    then show ?thesis by (auto simp: newer_def Valid_encode Time_encode)
  qed
  have comp: "p \<noteq> []" "t \<noteq> []" "CHR ''/'' \<notin> set p" "CHR ''/'' \<notin> set t"
    using assms(3,4) by (auto simp: KeyComponent_def split: if_splits)
  have "sorted_wrt (\<lambda>x y. RecordKey p t (snd x) (fst x) < RecordKey p t (snd y) (fst y)) ?xs"
  proof (rule sorted_wrt_mono_rel [of _ "\<lambda>x y. fst x < fst y \<and> snd x \<le> snd y"])
    fix x y assume xy: "x \<in> set ?xs" "y \<in> set ?xs" "fst x < fst y \<and> snd x \<le> snd y"
    then have "written_year (snd x)" "written_year (snd y)" using assms(2) by (auto simp: list_all_iff)
    from RecordKey_less_iff [OF this] xy(3) Truncate_hour_mono [of "snd x" "snd y"]
    show "RecordKey p t (snd x) (fst x) < RecordKey p t (snd y) (fst y)" by (simp add: le_less)
  qed (use run in simp)
  moreover have "ParseRecordKey (RecordKey p t (snd x) (fst x)) =
      Some \<lparr>ro_Profile = p, ro_Tenant = t, ro_Hour = Truncate_hour (snd x), ro_ULID = fst x\<rparr>"
    if "x \<in> set ?xs" for x
    using valid [OF that] assms(2) that comp
    by (intro ParseRecordKey_RecordKey) (auto simp: list_all_iff)
  ultimately show ?thesis by (simp add: list_all_iff)
qed

theorem batch_keys_in_ingest_order_witness:
  "let g = \<lparr>g_ms = 0, g_rand = replicate 10 0, g_calls = 0, g_Entropy = (\<lambda>n. (replicate 10 9, n = 1))\<rparr>;
       out = issued (fst (New_all g [5000000, 7200000000000, 7000000]))
   in length out = 2
      \<and> sorted_wrt (\<lambda>x y. RecordKey ''security'' ''acme'' (snd x) (fst x) < RecordKey ''security'' ''acme'' (snd y) (fst y)) out"
proof -
  define g where "g = \<lparr>g_ms = (0 :: u64), g_rand = replicate 10 (0 :: u8), g_calls = 0,
    g_Entropy = (\<lambda>n. (replicate 10 (9 :: u8), n = Suc 0))\<rparr>"
  let ?ats = "[5000000, 7200000000000, 7000000] :: int list"
  have ok: "run_ok g ?ats" by (simp add: run_ok_def gen_ok_def g_def UnixMilli_def)
  have out: "length (issued (fst (New_all g ?ats))) = 2" unfolding g_def by code_simp
  have years: "list_all (\<lambda>x. written_year (snd x)) (issued (fst (New_all g ?ats)))"
    unfolding g_def by code_simp
  have "KeyComponent ''security'' = []" "KeyComponent ''acme'' = []" by (simp_all add: KeyComponent_def)
  from batch_keys_in_ingest_order [OF ok years this] out show ?thesis unfolding g_def Let_def by simp
qed

section \<open>What a walk visits\<close>

text \<open>The callback applied to entries in turn, up to the first error.\<close>

fun each :: "('e, 'a) visitor \<Rightarrow> entry list \<Rightarrow> 'a \<Rightarrow> 'e option \<times> 'a" where
  "each fn [] acc = (None, acc)"
| "each fn (e # es) acc =
     (case fn e acc of (Some err, acc') \<Rightarrow> (Some err, acc') | (None, acc') \<Rightarrow> each fn es acc')"

lemma each_append:
  "each fn (xs @ ys) acc =
     (case each fn xs acc of (Some err, acc') \<Rightarrow> (Some err, acc') | (None, acc') \<Rightarrow> each fn ys acc')"
  by (induction xs arbitrary: acc) (auto split: prod.splits option.splits)

lemma visit_each:
  "visit stop fn start es acc =
     (case each fn (takeWhile (\<lambda>e. e_Key e < stop) es) acc of
        (Some err, acc') \<Rightarrow> Inl (Some err, acc')
      | (None, acc') \<Rightarrow> if list_all (\<lambda>e. e_Key e < stop) es then Inr (last (start # map e_Key es), acc')
                       else Inl (None, acc'))"
proof (induction es arbitrary: start acc)
  case (Cons e es)
  show ?case
  proof (cases "e_Key e < stop")
    case True
    then show ?thesis by (auto simp: Cons.IH split: prod.splits option.splits)
  qed auto
qed auto

context reliable_store
begin

lemma after_last:
  assumes "sorted_wrt (\<lambda>x y. e_Key x < e_Key y) (es :: entry list)" "n < length (filter (\<lambda>e. P e \<and> start < e_Key e) es)"
  shows "filter (\<lambda>e. P e \<and> e_Key (filter (\<lambda>e. P e \<and> start < e_Key e) es ! n) < e_Key e) es =
    drop (Suc n) (filter (\<lambda>e. P e \<and> start < e_Key e) es)"
proof -
  let ?L = "filter (\<lambda>e. P e \<and> start < e_Key e) es"
  let ?k = "e_Key (?L ! n)"
  have srt: "sorted_wrt (\<lambda>x y. e_Key x < e_Key y) ?L" using assms(1) by (rule sorted_wrt_filter)
  have k: "start < ?k" using nth_mem [OF assms(2)] by simp
  have "filter (\<lambda>e. P e \<and> ?k < e_Key e) es = filter (\<lambda>e. ?k < e_Key e) ?L"
    using k by (auto simp: filter_filter intro!: filter_cong dest: less_trans)
  also have "\<dots> = filter (\<lambda>e. ?k < e_Key e) (take (Suc n) ?L) @ filter (\<lambda>e. ?k < e_Key e) (drop (Suc n) ?L)"
    by (metis append_take_drop_id filter_append)
  also have "filter (\<lambda>e. ?k < e_Key e) (take (Suc n) ?L) = []"
  proof -
    have "\<not> ?k < e_Key x" if "x \<in> set (take (Suc n) ?L)" for x
    proof -
      obtain i where "i < Suc n" "x = ?L ! i" using \<open>x \<in> _\<close> by (auto simp: in_set_conv_nth)
      then show ?thesis using sorted_wrt_nth_less [OF srt, of i n] assms(2) by (cases "i = n") (auto dest: less_asym)
    qed
    then show ?thesis by (simp add: filter_empty_conv)
  qed
  also have "filter (\<lambda>e. ?k < e_Key e) (drop (Suc n) ?L) = drop (Suc n) ?L"
  proof -
    have "?k < e_Key x" if "x \<in> set (drop (Suc n) ?L)" for x
    proof -
      obtain i where "i < length ?L - Suc n" "x = ?L ! (Suc n + i)" using \<open>x \<in> _\<close> by (auto simp: in_set_conv_nth)
      then show ?thesis using sorted_wrt_nth_less [OF srt, of n "Suc n + i"] by simp
    qed
    then show ?thesis by (simp add: filter_id_conv)
  qed
  finally show ?thesis by simp
qed

text \<open>Paging to the end is one pass over what lies between \<open>start\<close> and \<open>stop\<close>; the loop ends.\<close>

lemma walk_loop_eq:
  assumes "invar s"
  shows "walk_loop (list s) pre stop fn start acc =
    Some (apfst (map_option Inr) (each fn (takeWhile (\<lambda>e. e_Key e < stop)
      (filter (\<lambda>e. HasPrefix (e_Key e) pre \<and> start < e_Key e) (entries s))) acc))"
proof (induction "length (filter (\<lambda>e. HasPrefix (e_Key e) pre \<and> start < e_Key e) (entries s))"
    arbitrary: start acc rule: less_induct)
  case less
  let ?L = "\<lambda>start. filter (\<lambda>e. HasPrefix (e_Key e) pre \<and> start < e_Key e) (entries s)"
  let ?ok = "\<lambda>e. e_Key e < stop"
  define page where "page = take pageSize (?L start)"
  have list: "list s pre start pageSize = Inr page"
    using list_eq [OF assms] by (simp add: page_of_def page_def pageSize_def)
  note unf = walk_loop.simps [of "list s" pre stop fn start acc] list visit_each
  show ?case
  proof (cases "length page < pageSize")
    case True
    then have "page = ?L start" by (simp add: page_def)
    with True show ?thesis unfolding unf by (auto split: prod.splits option.splits)
  next
    case False
    then have len: "pageSize \<le> length (?L start)" by (simp add: page_def)
    define n where "n = pageSize - 1"
    have n: "Suc n = pageSize" "n < length (?L start)" using len by (auto simp: n_def pageSize_def)
    have ne: "page \<noteq> []" using n by (auto simp: page_def)
    have "last (map e_Key page) = e_Key (?L start ! n)"
      using ne n by (simp add: last_map last_conv_nth page_def min_absorb2 n_def)
    moreover have rest: "?L (e_Key (?L start ! n)) = drop pageSize (?L start)"
      using after_last [OF entries_sorted [OF assms] n(2)] n(1) by simp
    moreover have "length (drop pageSize (?L start)) < length (?L start)" using n by auto
    ultimately have IH: "walk_loop (list s) pre stop fn (last (map e_Key page)) acc' =
        Some (apfst (map_option Inr) (each fn (takeWhile ?ok (drop pageSize (?L start))) acc'))" for acc'
      using less.hyps [of "last (map e_Key page)"] by simp
    have split: "takeWhile ?ok (?L start) =
        (if list_all ?ok page then page @ takeWhile ?ok (drop pageSize (?L start)) else takeWhile ?ok page)"
    proof -
      have "takeWhile ?ok (page @ ys) = (if list_all ?ok page then page @ takeWhile ?ok ys else takeWhile ?ok page)" for ys
        by (induction page) auto
      from this [of "drop pageSize (?L start)"] show ?thesis unfolding page_def append_take_drop_id .
    qed
    have all: "list_all ?ok page \<Longrightarrow> takeWhile ?ok page = page" by (simp add: list_all_iff)
    show ?thesis
    proof (cases "list_all ?ok page")
      case True
      then show ?thesis unfolding unf using False ne
        by (simp add: split all IH each_append split: prod.splits option.splits)
    next
      case nall: False
      then show ?thesis unfolding unf
        by (auto simp: split split: prod.splits option.splits)
    qed
  qed
qed

end

lemma sep_cancel:
  "c \<notin> set p \<Longrightarrow> c \<notin> set q \<Longrightarrow> p @ c # x = q @ c # y \<longleftrightarrow> p = q \<and> x = y"
proof (induction p arbitrary: q)
  case Nil
  then show ?case by (cases q) auto
next
  case (Cons a p)
  then show ?case by (cases q) auto
qed

lemma takeWhile_sorted_filter:
  "sorted_wrt (\<lambda>x y. e_Key x < e_Key y) (es :: entry list) \<Longrightarrow>
     takeWhile (\<lambda>e. e_Key e < stop) es = filter (\<lambda>e. e_Key e < stop) es"
proof (induction es)
  case (Cons e es)
  have "filter (\<lambda>e. e_Key e < stop) es = []" if "\<not> e_Key e < stop"
    using that Cons.prems by (auto simp: filter_empty_conv dest: less_trans)
  with Cons show ?case by auto
qed simp

text \<open>A key of a tenant, between the bare prefixes of two hours, is a key of the hours between.\<close>

lemma tenant_of_key:
  assumes "ParseRecordKey key = Some ob" "CHR ''/'' \<notin> set p" "CHR ''/'' \<notin> set t"
  shows "HasPrefix key (TenantPrefix p t) \<longleftrightarrow> ro_Profile ob = p \<and> ro_Tenant ob = t"
proof -
  note snd = ParseRecordKey_sound [OF assms(1)]
  have key: "key = RecordsPrefix @ ro_Profile ob @ CHR ''/'' # ro_Tenant ob @ CHR ''/'' # (Format_hour (ro_Hour ob) @ CHR ''/'' # ro_ULID ob)"
    using snd(1) by (simp add: RecordKey_def HourPrefix_def TenantPrefix_def ProfilePrefix_def)
  have "HasPrefix key (TenantPrefix p t) \<longleftrightarrow>
      (\<exists>r. ro_Profile ob @ CHR ''/'' # ro_Tenant ob @ CHR ''/'' # (Format_hour (ro_Hour ob) @ CHR ''/'' # ro_ULID ob) =
           p @ CHR ''/'' # t @ CHR ''/'' # r)"
    unfolding HasPrefix_iff key by (simp add: TenantPrefix_def ProfilePrefix_def)
  also have "\<dots> \<longleftrightarrow> ro_Profile ob = p \<and> ro_Tenant ob = t"
    using assms(2,3) snd(4,5) by (auto simp: sep_cancel)
  finally show ?thesis .
qed

lemma Valid_not_empty: "Valid u \<Longrightarrow> u \<noteq> []"
  by (auto simp: Valid_def ulid_Length_def)

lemma key_after_hour:
  assumes "ParseRecordKey key = Some ob" "ro_Profile ob = p" "ro_Tenant ob = t" "written_year a"
  shows "HourPrefix p t a < key \<longleftrightarrow> Truncate_hour a \<le> ro_Hour ob"
    and "key < HourPrefix p t a \<longleftrightarrow> ro_Hour ob < Truncate_hour a"
proof -
  note snd = ParseRecordKey_sound [OF assms(1)]
  have tr: "Truncate_hour (ro_Hour ob) = ro_Hour ob" using snd(7) by (metis Truncate_hour_idem)
  have hp: "HourPrefix p t a = RecordKey p t a []" by (simp add: RecordKey_def)
  have lt: "[] < ro_ULID ob" using Valid_not_empty [OF snd(6)] by (cases "ro_ULID ob") auto
  show "HourPrefix p t a < key \<longleftrightarrow> Truncate_hour a \<le> ro_Hour ob"
    unfolding hp snd(1) [unfolded assms(2,3)] RecordKey_less_iff [OF assms(4) snd(8)]
    using tr lt by auto
  show "key < HourPrefix p t a \<longleftrightarrow> ro_Hour ob < Truncate_hour a"
    unfolding hp snd(1) [unfolded assms(2,3)] RecordKey_less_iff [OF snd(8) assms(4)]
    using tr by auto
qed

lemma Truncate_add_hour: "Truncate_hour t + hour_ns = Truncate_hour (t + hour_ns)"
  by (simp add: Truncate_hour_def)

lemma hour_before_next:
  assumes "Truncate_hour h = h"
  shows "h < Truncate_hour t + hour_ns \<longleftrightarrow> h \<le> t"
proof -
  have h: "h = (h div hour_ns) * hour_ns" using assms by (simp add: Truncate_hour_def minus_mod_eq_div_mult [symmetric])
  have t: "Truncate_hour t = (t div hour_ns) * hour_ns" by (simp add: Truncate_hour_def minus_mod_eq_div_mult)
  have pos: "0 < hour_ns" by (simp add: hour_ns_def)
  have "h < Truncate_hour t + hour_ns \<longleftrightarrow> (h div hour_ns) * hour_ns < (t div hour_ns + 1) * hour_ns"
    using h t by (simp add: algebra_simps)
  also have "\<dots> \<longleftrightarrow> h div hour_ns \<le> t div hour_ns" using pos by simp
  also have "\<dots> \<longleftrightarrow> (h div hour_ns) * hour_ns \<le> t"
  proof
    assume "h div hour_ns \<le> t div hour_ns"
    then have "(h div hour_ns) * hour_ns \<le> (t div hour_ns) * hour_ns" using pos by simp
    also have "\<dots> \<le> t" using pos_mod_sign [OF pos, of t] by (simp add: t [symmetric] Truncate_hour_def)
    finally show "(h div hour_ns) * hour_ns \<le> t" .
  next
    assume "(h div hour_ns) * hour_ns \<le> t"
    from zdiv_mono1 [OF this pos] show "h div hour_ns \<le> t div hour_ns" using pos by simp
  qed
  finally show ?thesis using h by simp
qed

lemma Year_mono: "a \<le> b \<Longrightarrow> Year a \<le> Year b"
  using hour_key_mono [of a b] by (auto simp: hour_key_def)

definition in_hours :: "string \<Rightarrow> string \<Rightarrow> time \<Rightarrow> time \<Rightarrow> string \<Rightarrow> bool" where
  "in_hours p t frm til key =
     (case ParseRecordKey key of
        None \<Rightarrow> False
      | Some ob \<Rightarrow> ro_Profile ob = p \<and> ro_Tenant ob = t \<and> Truncate_hour frm \<le> ro_Hour ob \<and> ro_Hour ob \<le> til)"

lemma in_hours_iff:
  assumes "HasPrefix key (TenantPrefix p t) \<Longrightarrow> ParseRecordKey key \<noteq> None"
    and "KeyComponent p = []" "KeyComponent t = []" "written_year frm" "written_year (til + hour_ns)"
  shows "HasPrefix key (TenantPrefix p t) \<and> HourPrefix p t (Truncate_hour frm) < key
      \<and> key < HourPrefix p t (Truncate_hour til + hour_ns)
    \<longleftrightarrow> in_hours p t frm til key"
proof (cases "ParseRecordKey key")
  case None
  then show ?thesis using assms(1) by (auto simp: in_hours_def)
next
  case (Some ob)
  have ns: "CHR ''/'' \<notin> set p" "CHR ''/'' \<notin> set t"
    using assms(2,3) by (auto simp: KeyComponent_def split: if_splits)
  have wy: "written_year (Truncate_hour frm)" "written_year (Truncate_hour til + hour_ns)"
    using assms(4,5) by (auto simp: written_year_def Truncate_add_hour Truncate_fields)
  have tr: "Truncate_hour (ro_Hour ob) = ro_Hour ob"
    using ParseRecordKey_sound(7) [OF Some] by (metis Truncate_hour_idem)
  show ?thesis
    using tenant_of_key [OF Some ns] key_after_hour [OF Some _ _ wy(1)] key_after_hour [OF Some _ _ wy(2)]
      hour_before_next [OF tr, of til]
    by (auto simp: in_hours_def Some Truncate_add_hour)
qed

context reliable_store
begin

lemma WalkHours_eq:
  assumes "invar s" "KeyComponent p = []" "KeyComponent t = []"
    and keys: "\<And>e. e \<in> set (entries s) \<Longrightarrow> HasPrefix (e_Key e) (TenantPrefix p t) \<Longrightarrow> ParseRecordKey (e_Key e) \<noteq> None"
    and "0 \<le> Year frm" "Year (til + hour_ns) \<le> 9999"
  shows "WalkHours (list s) p t frm til after fn acc =
    Some (apfst (map_option Inr) (each fn
      (filter (\<lambda>e. in_hours p t frm til (e_Key e) \<and> after < e_Key e) (entries s)) acc))"
proof (cases "Truncate_hour til < Truncate_hour frm")
  case True
  have "\<not> in_hours p t frm til key" for key
  proof -
    have "\<not> (Truncate_hour frm \<le> h \<and> h \<le> til)" if "Truncate_hour h = h" for h
      using True hour_before_next [OF that, of til] hour_before_next [of "Truncate_hour frm" til] Truncate_hour_mono [of h til] that
      by (auto simp: not_le)
    then show ?thesis
      by (auto simp: in_hours_def split: option.splits) (metis ParseRecordKey_sound(7) Truncate_hour_idem)
  qed
  then have "filter (\<lambda>e. in_hours p t frm til (e_Key e) \<and> after < e_Key e) (entries s) = []" by simp
  with True show ?thesis by (simp add: WalkHours_def)
next
  case False
  have le: "frm \<le> til + hour_ns"
  proof (rule ccontr)
    assume "\<not> frm \<le> til + hour_ns"
    then have "Truncate_hour til + hour_ns \<le> Truncate_hour frm"
      using Truncate_hour_mono [of "til + hour_ns" frm] by (simp add: Truncate_add_hour)
    with False show False by (simp add: hour_ns_def)
  qed
  have wy: "written_year frm" "written_year (til + hour_ns)"
    using Year_mono [OF le] assms(5,6) by (auto simp: written_year_def)
  let ?lo = "HourPrefix p t (Truncate_hour frm)"
  let ?start = "if after > ?lo then after else ?lo" and ?stop = "HourPrefix p t (Truncate_hour til + hour_ns)"
  let ?L = "filter (\<lambda>e. HasPrefix (e_Key e) (TenantPrefix p t) \<and> ?start < e_Key e) (entries s)"
  have "takeWhile (\<lambda>e. e_Key e < ?stop) ?L = filter (\<lambda>e. e_Key e < ?stop) ?L"
    using entries_sorted [OF assms(1)] by (intro takeWhile_sorted_filter sorted_wrt_filter)
  also have "\<dots> = filter (\<lambda>e. in_hours p t frm til (e_Key e) \<and> after < e_Key e) (entries s)"
    unfolding filter_filter
  proof (rule filter_cong [OF refl])
    fix e assume e: "e \<in> set (entries s)"
    have "?start < e_Key e \<longleftrightarrow> ?lo < e_Key e \<and> after < e_Key e" by (auto dest: less_trans)
    with in_hours_iff [OF keys [OF e] assms(2,3) wy]
    show "((HasPrefix (e_Key e) (TenantPrefix p t) \<and> ?start < e_Key e) \<and> e_Key e < ?stop) =
        (in_hours p t frm til (e_Key e) \<and> after < e_Key e)" by blast
  qed
  finally have eq: "takeWhile (\<lambda>e. e_Key e < ?stop) ?L =
      filter (\<lambda>e. in_hours p t frm til (e_Key e) \<and> after < e_Key e) (entries s)" .
  show ?thesis
    unfolding WalkHours_def Let_def using False by (simp only: if_False walk_loop_eq [OF assms(1)] eq)
qed

end

text \<open>
  C31: A walk over hours visits exactly the record objects of that profile and tenant whose hour lies
  between the hour of \<open>from\<close> and \<open>to\<close>, both inclusive, that sort after the cursor, each once and in key
  order, and ends, however many pages the listing takes and whatever the callback does; only the
  callback's own error stops it early. Hypotheses: what lies under the tenant's prefix are record
  keys, and the years of the range are written with four digits.
\<close>

theorem WalkHours_visits:
  assumes "mem_invar m" "KeyComponent p = []" "KeyComponent t = []"
    and "\<forall>e \<in> set (mem_entries m). HasPrefix (e_Key e) (TenantPrefix p t) \<longrightarrow> ParseRecordKey (e_Key e) \<noteq> None"
    and "0 \<le> Year frm" "Year (til + hour_ns) \<le> 9999"
  shows "WalkHours (mem_List m) p t frm til after fn acc =
    Some (apfst (map_option Inr) (each fn
      (filter (\<lambda>e. in_hours p t frm til (e_Key e) \<and> after < e_Key e) (mem_entries m)) acc))"
  using mem.WalkHours_eq [of m p t frm til after fn acc] assms by blast

definition example_obj :: "string \<Rightarrow> obj" where
  "example_obj key = \<lparr>o_Key = key, o_Body = ''x'', o_RetainUntil = 0, o_ContentType = [], o_Encoding = [],
     o_Metadata = [], o_LegalHold = False\<rparr>"

definition example_store :: "string list \<Rightarrow> memory" where
  "example_store keys = (NewMemory (\<lambda>n. int n))\<lparr>m_objects := map (\<lambda>k. (k, example_obj k, 0)) keys\<rparr>"

lemma ParseRecordKey_From:
  assumes "p \<noteq> []" "t \<noteq> []" "CHR ''/'' \<notin> set p" "CHR ''/'' \<notin> set t"
    and "0 \<le> ms" "ms < 2 ^ 48" "written_year (of_UnixMilli ms)"
  shows "ParseRecordKey (RecordKey p t (of_UnixMilli ms) (From (of_UnixMilli ms) n)) =
    Some \<lparr>ro_Profile = p, ro_Tenant = t, ro_Hour = Truncate_hour (of_UnixMilli ms), ro_ULID = From (of_UnixMilli ms) n\<rparr>"
proof (rule ParseRecordKey_RecordKey)
  let ?r = "replicate 2 0 @ map (\<lambda>i. ucast (drop_bit (8 * (7 - i)) n)) [0..<8] :: u8 list"
  have len: "length ?r = 10" by simp
  have f: "From (of_UnixMilli ms) n = encode (word_of_int ms) ?r"
    by (simp add: From_def UnixMilli_def of_UnixMilli_def)
  have u: "int (unat (word_of_int ms :: u64)) = ms"
    using assms(5,6) by (simp add: unsigned_of_int take_bit_int_eq_self)
  show "Valid (From (of_UnixMilli ms) n)" unfolding f by (rule Valid_encode [OF len])
  have "unat (word_of_int ms :: u64) < 2 ^ 48" using u assms(6) by (metis of_nat_less_iff of_nat_numeral of_nat_power)
  from Time_encode [OF len this] u show "Time (From (of_UnixMilli ms) n) = Inr (of_UnixMilli ms)"
    unfolding f by simp
qed (use assms in simp_all)

theorem WalkHours_visits_witness:
  "let k = RecordKey ''p'' ''t'' 0 (From 0 3); j = RecordKey ''p'' ''t'' 3600000000000 (From 3600000000000 7)
   in WalkHours (mem_List (example_store [j, k])) ''p'' ''t'' 5 6 [] (\<lambda>e acc. (None :: unit option, acc @ [e_Key e])) []
      = Some (None, [k])"
proof -
  define k j where "k = RecordKey ''p'' ''t'' 0 (From 0 3)"
    and "j = RecordKey ''p'' ''t'' 3600000000000 (From 3600000000000 7)"
  note kj = k_def j_def
  let ?fn = "\<lambda>e acc. (None :: unit option, acc @ [e_Key (e :: entry)])"
  let ?m = "example_store [j, k]"
  have years: "written_year 0" "written_year 3600000000000" "0 \<le> Year 5" "Year (6 + hour_ns) \<le> 9999" by code_simp+
  have parse: "ParseRecordKey k = Some \<lparr>ro_Profile = ''p'', ro_Tenant = ''t'', ro_Hour = 0, ro_ULID = From 0 3\<rparr>"
    "ParseRecordKey j = Some \<lparr>ro_Profile = ''p'', ro_Tenant = ''t'', ro_Hour = 3600000000000, ro_ULID = From 3600000000000 7\<rparr>"
    using ParseRecordKey_From [of "''p''" "''t''" 0 3] ParseRecordKey_From [of "''p''" "''t''" 3600000 7] years
    by (simp_all add: kj of_UnixMilli_def Truncate_hour_def hour_ns_def)
  have lt: "k < j" using RecordKey_less_iff [OF years(1,2)] by (simp add: kj Truncate_hour_def hour_ns_def)
  have ne: "k \<noteq> []" "j \<noteq> []"
    by (simp_all add: kj RecordKey_def HourPrefix_def TenantPrefix_def ProfilePrefix_def)
  have srt: "sort [j, k] = [k, j]" using lt by auto
  have inv: "mem_invar ?m" using lt ne by (auto simp: mem_invar_def example_store_def NewMemory_def)
  have comp: "KeyComponent ''p'' = []" "KeyComponent ''t'' = []" by (simp_all add: KeyComponent_def)
  have es: "mem_entries ?m = [mem_entry ?m k, mem_entry ?m j]"
    using srt by (simp add: mem_entries_def example_store_def o_def)
  have keys: "\<forall>e \<in> set (mem_entries ?m). HasPrefix (e_Key e) (TenantPrefix ''p'' ''t'') \<longrightarrow> ParseRecordKey (e_Key e) \<noteq> None"
    using parse by (simp add: es)
  have hours: "in_hours ''p'' ''t'' 5 6 k" "\<not> in_hours ''p'' ''t'' 5 6 j"
    by (simp_all add: in_hours_def parse Truncate_hour_def hour_ns_def)
  from ne(1) have "[] < k" by (cases k) auto
  with WalkHours_visits [OF inv comp keys years(3,4), of "[]" ?fn "[]"] show ?thesis
    unfolding Let_def kj [symmetric] by (simp add: es hours)
qed

section \<open>Seals: the grammar and the newest\<close>

lemma Truncate_Date [simp]: "Truncate_hour (Date y m d h 0) = Date y m d h 0"
  by (simp add: Truncate_hour_def Date_def Let_def day_ns_def hour_ns_def mod_add_eq [symmetric])

lemma SealKey_parts:
  assumes "hour_parts at = [y, m, d, h]"
  shows "SealKey p t at = SealsPrefix @ Join (CHR ''/'') [p, t, y, m, d, h @ SealExt]"
  using assms by (simp add: SealKey_def SealTenantPrefix_def Format_hour_def)

lemma Split_seal_parts:
  assumes "CHR ''/'' \<notin> set p" "CHR ''/'' \<notin> set t" "hour_parts at = [y, m, d, h]"
  shows "Split (CHR ''/'') (Join (CHR ''/'') [p, t, y, m, d, h @ SealExt]) = [p, t, y, m, d, h @ SealExt]"
proof (rule Split_Join)
  have "\<forall>q \<in> set (hour_parts at). CHR ''/'' \<notin> set q" using hour_parts_no_slash by blast
  then have hp: "CHR ''/'' \<notin> set y" "CHR ''/'' \<notin> set m" "CHR ''/'' \<notin> set d" "CHR ''/'' \<notin> set h"
    unfolding assms(3) by simp_all
  show "CHR ''/'' \<notin> set q" if "q \<in> set [p, t, y, m, d, h @ SealExt]" for q
    using that assms(1,2) hp by (auto simp: SealExt_def)
qed simp

lemma ParseSealKey_grammar:
  "ParseSealKey key = Some ob \<longleftrightarrow>
     key = SealKey (so_Profile ob) (so_Tenant ob) (so_Hour ob)
     \<and> so_Profile ob \<noteq> [] \<and> so_Tenant ob \<noteq> []
     \<and> CHR ''/'' \<notin> set (so_Profile ob) \<and> CHR ''/'' \<notin> set (so_Tenant ob)
     \<and> Truncate_hour (so_Hour ob) = so_Hour ob \<and> written_year (so_Hour ob)"
  (is "?P \<longleftrightarrow> ?Q")
proof
  assume ?P
  then obtain rest where key: "key = SealsPrefix @ rest"
    by (auto simp: ParseSealKey_def CutPrefix_Some split: option.splits)
  let ?ps = "Split (CHR ''/'') rest"
  have k: "ParseSealKey key = Some ob" "CutPrefix key SealsPrefix = Some rest" using \<open>?P\<close> key by simp_all
  then have "length ?ps = 6" by (auto simp: ParseSealKey_def Let_def split: if_splits)
  then obtain p t y m d l where ps: "?ps = [p, t, y, m, d, l]" using list_six by metis
  from k obtain l' ns' where rf: "read_fields [(y, 4), (m, 2), (d, 2), (l', 2)] = Some ns'"
    and ob: "so_Profile ob = p" "so_Tenant ob = t" "p \<noteq> []" "t \<noteq> []" "Truncate_hour (so_Hour ob) = so_Hour ob"
    and eq: "SealKey p t (so_Hour ob) = key"
    by (auto simp: ParseSealKey_def Let_def ps simp del: read_fields.simps split: if_splits option.splits)
  from rf obtain n where n: "length y = 4" "read_digits 0 y = Some n" by (auto split: if_splits option.splits)
  have ns: "CHR ''/'' \<notin> set p" "CHR ''/'' \<notin> set t"
    using Split_parts_no_sep [of _ "CHR ''/''" rest] ps by auto
  obtain y' m' d' h' where hp: "hour_parts (so_Hour ob) = [y', m', d', h']" by (simp add: hour_parts_def)
  have "rest = Join (CHR ''/'') [p, t, y', m', d', h' @ SealExt]"
    using eq key SealKey_parts [OF hp, of p t] by simp
  then have "y = y'" using Split_seal_parts [OF ns hp] ps by simp
  then have "written_year (so_Hour ob)"
    using written_year_parts [OF hp] n read_digits_Some [OF n(2)] by simp
  then show ?Q using ob ns eq by simp
next
  assume q: ?Q
  then have wy: "written_year (so_Hour ob)" by simp
  obtain y m d h where hp: "hour_parts (so_Hour ob) = [y, m, d, h]" by (simp add: hour_parts_def)
  have sp: "Split (CHR ''/'') (Join (CHR ''/'') [so_Profile ob, so_Tenant ob, y, m, d, h @ SealExt]) =
      [so_Profile ob, so_Tenant ob, y, m, d, h @ SealExt]"
    using q by (intro Split_seal_parts [OF _ _ hp]) auto
  obtain n where rf: "read_fields [(y, 4), (m, 2), (d, 2), (h, 2)] = Some n"
      "Date (int (n ! 0)) (int (n ! 1)) (int (n ! 2)) (int (n ! 3)) 0 = so_Hour ob"
    using read_fields_hour [OF wy] q by (auto simp: hp)
  have key: "key = SealsPrefix @ Join (CHR ''/'') [so_Profile ob, so_Tenant ob, y, m, d, h @ SealExt]"
    using q SealKey_parts [OF hp] by simp
  have cut: "CutPrefix key SealsPrefix = Some (Join (CHR ''/'') [so_Profile ob, so_Tenant ob, y, m, d, h @ SealExt])"
    unfolding key by (rule CutPrefix_append)
  have k: "SealKey (so_Profile ob) (so_Tenant ob) (so_Hour ob) = key" using q by simp
  show ?P
    unfolding ParseSealKey_def cut option.case Let_def sp
    using q rf k by (simp del: read_fields.simps)
qed

text \<open>
  A key is read as a seal's exactly when it is the key of the seal of one hour, of a year of four
  digits, of a profile and a tenant that are not empty and have no slash.
\<close>

theorem ParseSealKey_iff:
  "ParseSealKey key = Some ob \<longleftrightarrow>
     key = SealKey (so_Profile ob) (so_Tenant ob) (so_Hour ob)
     \<and> so_Profile ob \<noteq> [] \<and> so_Tenant ob \<noteq> []
     \<and> CHR ''/'' \<notin> set (so_Profile ob) \<and> CHR ''/'' \<notin> set (so_Tenant ob)
     \<and> Truncate_hour (so_Hour ob) = so_Hour ob \<and> 0 \<le> Year (so_Hour ob) \<and> Year (so_Hour ob) \<le> 9999"
  unfolding ParseSealKey_grammar written_year_def ..

lemma cut_at_slash:
  "cut_at ''/'' r = Some a \<longleftrightarrow> (\<exists>b c. a = b @ ''/'' \<and> r = b @ ''/'' @ c \<and> CHR ''/'' \<notin> set b)"
proof (induction r arbitrary: a)
  case (Cons x xs)
  show ?case
  proof (cases "x = CHR ''/''")
    case True
    have "x # xs = b @ ''/'' @ c \<and> CHR ''/'' \<notin> set b \<longleftrightarrow> b = [] \<and> c = xs" for b c
      using True by (cases b) auto
    with True show ?thesis by (auto simp: HasPrefix_def)
  next
    case False
    then have "(\<exists>b c. a = b @ ''/'' \<and> x # xs = b @ ''/'' @ c \<and> CHR ''/'' \<notin> set b) \<longleftrightarrow>
      (\<exists>a'. a = x # a' \<and> (\<exists>b c. a' = b @ ''/'' \<and> xs = b @ ''/'' @ c \<and> CHR ''/'' \<notin> set b))"
      by (auto simp: Cons_eq_append_conv)
    with False show ?thesis by (auto simp: HasPrefix_def Cons.IH)
  qed
qed simp

lemma set_groups_of:
  "g \<in> set (groups_of keys pre ''/'') \<longleftrightarrow>
     (\<exists>b. g = pre @ b @ ''/'' \<and> CHR ''/'' \<notin> set b \<and> (\<exists>k \<in> set keys. HasPrefix k g))"
proof -
  have "g \<in> set (groups_of keys pre ''/'') \<longleftrightarrow> (\<exists>k \<in> set keys. \<exists>r a. k = pre @ r \<and> cut_at ''/'' r = Some a \<and> g = pre @ a)"
    by (force simp: groups_of_def List.map_filter_def CutPrefix_Some)
  also have "\<dots> \<longleftrightarrow> (\<exists>k \<in> set keys. \<exists>b c. k = pre @ b @ ''/'' @ c \<and> CHR ''/'' \<notin> set b \<and> g = pre @ b @ ''/'')"
    unfolding cut_at_slash by blast
  also have "\<dots> \<longleftrightarrow> (\<exists>b. g = pre @ b @ ''/'' \<and> CHR ''/'' \<notin> set b \<and> (\<exists>k \<in> set keys. HasPrefix k g))"
    unfolding HasPrefix_iff by (metis append.assoc)
  finally show ?thesis .
qed

lemma groups_sorted: "sorted_wrt (\<lambda>x y. x > y) (rev (sort (groups_of keys pre d)))"
proof -
  have "sorted_wrt (<) (groups_of keys pre d)"
    by (simp add: groups_of_def strict_sorted_iff)
  then have "sort (groups_of keys pre d) = groups_of keys pre d" by (simp add: sorted_sort_id strict_sorted_iff)
  with \<open>sorted_wrt (<) (groups_of keys pre d)\<close> show ?thesis by (simp add: sorted_wrt_rev)
qed

text \<open>Keys of a later group sort after every key of an earlier one.\<close>

lemma less_not_prefix:
  "(x :: string) < y \<Longrightarrow> \<nexists>r. y = x @ r \<Longrightarrow> x @ u < y @ v"
proof (induction x arbitrary: y)
  case (Cons a x)
  then obtain b y' where "y = b # y'" by (cases y) auto
  with Cons show ?case by auto
qed auto

lemma group_keys_less:
  assumes "g = pre @ a @ ''/''" "g' = pre @ b @ ''/''" "CHR ''/'' \<notin> set a" "CHR ''/'' \<notin> set b" "g < g'"
    and "HasPrefix k g" "HasPrefix k' g'"
  shows "k < k'"
proof -
  have "\<nexists>r. g' = g @ r"
  proof
    assume "\<exists>r. g' = g @ r"
    then have "a = b" using assms(1-4) sep_cancel [of "CHR ''/''" b a "[]"] by auto
    with assms(1,2,5) show False by simp
  qed
  with less_not_prefix [OF assms(5)] assms(6,7) show ?thesis by (auto simp: HasPrefix_iff)
qed

text \<open>The newest entry that satisfies a predicate.\<close>

definition newest :: "(entry \<Rightarrow> bool) \<Rightarrow> entry list \<Rightarrow> entry option \<Rightarrow> bool" where
  "newest P es r \<longleftrightarrow>
     (case r of
        None \<Rightarrow> \<not> (\<exists>e \<in> set es. P e)
      | Some e \<Rightarrow> e \<in> set es \<and> P e \<and> (\<forall>e' \<in> set es. P e' \<longrightarrow> e_Key e' \<le> e_Key e))"

lemma newest_find:
  assumes "sorted_wrt (\<lambda>x y. e_Key x < e_Key y) es"
  shows "newest P es (find P (rev es))"
  using assms
proof (induction es rule: rev_induct)
  case (snoc e es)
  then have "newest P es (find P (rev es))" and "\<forall>x \<in> set es. e_Key x < e_Key e"
    by (auto simp: sorted_wrt_append)
  then show ?case by (auto simp: newest_def split: option.splits if_splits)
qed (simp add: newest_def)

lemma newest_cong: "(\<And>e. e \<in> set es \<Longrightarrow> P e \<longleftrightarrow> Q e) \<Longrightarrow> newest P es r \<longleftrightarrow> newest Q es r"
  by (auto simp: newest_def split: option.splits)

lemma newest_cases:
  "newest P es r \<Longrightarrow> (r = None \<Longrightarrow> (\<And>e. e \<in> set es \<Longrightarrow> \<not> P e) \<Longrightarrow> thesis) \<Longrightarrow>
     (\<And>e. r = Some e \<Longrightarrow> e \<in> set es \<Longrightarrow> P e \<Longrightarrow> (\<And>e'. e' \<in> set es \<Longrightarrow> P e' \<Longrightarrow> e_Key e' \<le> e_Key e) \<Longrightarrow> thesis) \<Longrightarrow> thesis"
  by (cases r) (auto simp: newest_def)

lemma scan_groups_newest:
  assumes "\<And>g. g \<in> set gs \<Longrightarrow> \<exists>r. down g = Inr r \<and> newest (Q g) es r"
    and "sorted_wrt (\<lambda>g' g. \<forall>x y. x \<in> set es \<longrightarrow> y \<in> set es \<longrightarrow> Q g x \<longrightarrow> Q g' y \<longrightarrow> e_Key x < e_Key y) gs"
  shows "\<exists>r. scan_groups down gs = Inr r \<and> newest (\<lambda>e. \<exists>g \<in> set gs. Q g e) es r"
  using assms
proof (induction gs)
  case (Cons g gs)
  from Cons.prems(1) [of g] obtain r where r: "down g = Inr r" "newest (Q g) es r" by auto
  show ?case
  proof (rule newest_cases [OF r(2)])
    assume "r = None" and none: "\<And>e. e \<in> set es \<Longrightarrow> \<not> Q g e"
    moreover have "\<exists>r. scan_groups down gs = Inr r \<and> newest (\<lambda>e. \<exists>g \<in> set gs. Q g e) es r"
      using Cons.prems by (intro Cons.IH) auto
    ultimately show ?thesis using r by (auto cong: newest_cong)
  next
    fix e assume e: "r = Some e" "e \<in> set es" "Q g e" and max: "\<And>e'. e' \<in> set es \<Longrightarrow> Q g e' \<Longrightarrow> e_Key e' \<le> e_Key e"
    have "e_Key e' \<le> e_Key e" if "e' \<in> set es" "\<exists>h \<in> set (g # gs). Q h e'" for e'
      using that max Cons.prems(2) e by (auto intro: less_imp_le)
    then show ?thesis using r e by (auto simp: newest_def)
  qed
qed (simp add: newest_def)

text \<open>How many levels a key has below a prefix.\<close>

definition below :: "nat \<Rightarrow> string \<Rightarrow> string \<Rightarrow> bool" where
  "below n pre k \<longleftrightarrow> (\<exists>r. k = pre @ r \<and> n \<le> count_list r (CHR ''/''))"

lemma below_0: "below 0 pre k \<longleftrightarrow> HasPrefix k pre"
  by (auto simp: below_def HasPrefix_iff)

lemma below_Suc:
  "below (Suc n) pre k \<longleftrightarrow> (\<exists>b. CHR ''/'' \<notin> set b \<and> below n (pre @ b @ ''/'') k)"
proof
  assume "below (Suc n) pre k"
  then obtain r where r: "k = pre @ r" "Suc n \<le> count_list r (CHR ''/'')" by (auto simp: below_def)
  then have "CHR ''/'' \<in> set r" by (metis count_list_0_iff not_less_eq_eq zero_le)
  then obtain b c where bc: "r = b @ CHR ''/'' # c" "CHR ''/'' \<notin> set b" by (meson split_list_first)
  then have "n \<le> count_list c (CHR ''/'')" using r(2) by (simp add: count_notin)
  with bc r show "\<exists>b. CHR ''/'' \<notin> set b \<and> below n (pre @ b @ ''/'') k" by (auto simp: below_def)
qed (auto simp: below_def count_notin)

lemma newest_filter: "newest P (filter R es) r \<longleftrightarrow> newest (\<lambda>e. R e \<and> P e) es r"
  by (auto simp: newest_def split: option.splits)

context reliable_store
begin

lemma descend_newest:
  assumes "invar s"
  shows "\<exists>r. descend (list s) (prefixes s) n pre = Inr r
    \<and> newest (\<lambda>e. below n pre (e_Key e) \<and> ParseSealKey (e_Key e) \<noteq> None) (entries s) r"
proof (induction n arbitrary: pre)
  case 0
  let ?es = "filter (\<lambda>e. HasPrefix (e_Key e) pre \<and> [] < e_Key e) (entries s)"
  have "ParseSealKey [] = None" by (simp add: ParseSealKey_def CutPrefix_def HasPrefix_def SealsPrefix_def)
  then have ne: "ParseSealKey k \<noteq> None \<Longrightarrow> [] < k" for k by (cases k) auto
  have "newest (\<lambda>e. ParseSealKey (e_Key e) \<noteq> None) ?es (find (\<lambda>e. ParseSealKey (e_Key e) \<noteq> None) (rev ?es))"
    using entries_sorted [OF assms] by (intro newest_find sorted_wrt_filter)
  then have "newest (\<lambda>e. below 0 pre (e_Key e) \<and> ParseSealKey (e_Key e) \<noteq> None) (entries s)
      (find (\<lambda>e. ParseSealKey (e_Key e) \<noteq> None) (rev ?es))"
    unfolding newest_filter by (rule newest_cong [THEN iffD1, rotated]) (use ne in \<open>auto simp: below_0\<close>)
  then show ?case using list_eq [OF assms] by (simp add: page_of_def)
next
  case (Suc n)
  let ?gs = "rev (sort (groups_of (map e_Key (entries s)) pre ''/''))"
  let ?Q = "\<lambda>g e. below n g (e_Key e) \<and> ParseSealKey (e_Key e) \<noteq> None"
  have grp: "\<exists>b. g = pre @ b @ ''/'' \<and> CHR ''/'' \<notin> set b" if "g \<in> set ?gs" for g
    using that set_groups_of by auto
  have pre: "below n g k \<Longrightarrow> HasPrefix k g" for g k by (auto simp: below_def)
  have "sorted_wrt (\<lambda>g' g. \<forall>x y. x \<in> set (entries s) \<longrightarrow> y \<in> set (entries s) \<longrightarrow> ?Q g x \<longrightarrow> ?Q g' y \<longrightarrow> e_Key x < e_Key y) ?gs"
  proof (rule sorted_wrt_mono_rel [OF _ groups_sorted])
    fix g' g assume "g' \<in> set ?gs" "g \<in> set ?gs" "g' > g"
    then show "\<forall>x y. x \<in> set (entries s) \<longrightarrow> y \<in> set (entries s) \<longrightarrow> ?Q g x \<longrightarrow> ?Q g' y \<longrightarrow> e_Key x < e_Key y"
      using grp [of g] grp [of g'] group_keys_less [of g pre _ g'] pre by blast
  qed
  from scan_groups_newest [OF Suc.IH this]
  obtain r where r: "scan_groups (descend (list s) (prefixes s) n) ?gs = Inr r"
    "newest (\<lambda>e. \<exists>g \<in> set ?gs. ?Q g e) (entries s) r" by blast
  have "(\<exists>g \<in> set ?gs. ?Q g e) \<longleftrightarrow> below (Suc n) pre (e_Key e) \<and> ParseSealKey (e_Key e) \<noteq> None"
    if "e \<in> set (entries s)" for e
  proof -
    have "g \<in> set ?gs" if "g = pre @ b @ ''/''" "CHR ''/'' \<notin> set b" "below n g (e_Key e)" for g b
      using that \<open>e \<in> set (entries s)\<close> pre by (auto simp: set_groups_of)
    then show ?thesis unfolding below_Suc using grp by blast
  qed
  then have "newest (\<lambda>e. below (Suc n) pre (e_Key e) \<and> ParseSealKey (e_Key e) \<noteq> None) (entries s) r"
    by (rule newest_cong [THEN iffD1, OF _ r(2)])
  with r(1) show ?case using prefixes_eq [OF assms, of pre "''/''"] by simp
qed

end

lemma SealKey_less_iff:
  assumes "written_year a" "written_year b"
  shows "SealKey p t a < SealKey p t b \<longleftrightarrow> Truncate_hour a < Truncate_hour b"
  using Format_hour_less_iff [OF assms, of SealExt SealExt] by (simp add: SealKey_def)

definition seal_hour :: "string \<Rightarrow> string \<Rightarrow> string \<Rightarrow> time option" where
  "seal_hour p t key =
     (case ParseSealKey key of
        None \<Rightarrow> None
      | Some ob \<Rightarrow> if so_Profile ob = p \<and> so_Tenant ob = t then Some (so_Hour ob) else None)"

lemma seal_under:
  assumes "ParseSealKey key = Some ob" "CHR ''/'' \<notin> set p" "CHR ''/'' \<notin> set t"
  shows "HasPrefix key (SealTenantPrefix p t) \<longleftrightarrow> so_Profile ob = p \<and> so_Tenant ob = t"
    and "below 3 (SealTenantPrefix p t) key \<longleftrightarrow> so_Profile ob = p \<and> so_Tenant ob = t"
proof -
  from assms(1) have ob: "key = SealKey (so_Profile ob) (so_Tenant ob) (so_Hour ob)"
    "CHR ''/'' \<notin> set (so_Profile ob)" "CHR ''/'' \<notin> set (so_Tenant ob)"
    unfolding ParseSealKey_grammar by auto
  have eq: "key = SealTenantPrefix p t @ r \<longleftrightarrow> so_Profile ob = p \<and> so_Tenant ob = t \<and> r = Format_hour (so_Hour ob) @ SealExt" for r
    unfolding ob(1) using assms(2,3) ob(2,3) by (auto simp: SealKey_def SealTenantPrefix_def sep_cancel)
  show "HasPrefix key (SealTenantPrefix p t) \<longleftrightarrow> so_Profile ob = p \<and> so_Tenant ob = t"
    unfolding HasPrefix_iff eq by blast
  obtain y m d h where hp: "hour_parts (so_Hour ob) = [y, m, d, h]" by (simp add: hour_parts_def)
  then have "count_list (Format_hour (so_Hour ob) @ SealExt) (CHR ''/'') = 3"
    using hour_parts_no_slash [of _ "so_Hour ob"] by (simp add: Format_hour_def SealExt_def count_notin)
  then show "below 3 (SealTenantPrefix p t) key \<longleftrightarrow> so_Profile ob = p \<and> so_Tenant ob = t"
    unfolding below_def eq by auto
qed

context reliable_store
begin

lemma LastSeal_newest:
  assumes "invar s" "KeyComponent p = []" "KeyComponent t = []"
  shows "\<exists>r. LastSeal (list s) (prefixes s) p t = Inr r
    \<and> (case r of
         None \<Rightarrow> \<forall>e \<in> set (entries s). seal_hour p t (e_Key e) = None
       | Some e \<Rightarrow> e \<in> set (entries s) \<and> (\<exists>h. seal_hour p t (e_Key e) = Some h
           \<and> (\<forall>e' \<in> set (entries s). \<forall>h'. seal_hour p t (e_Key e') = Some h' \<longrightarrow> h' \<le> h)))"
proof -
  have ns: "CHR ''/'' \<notin> set p" "CHR ''/'' \<notin> set t"
    using assms(2,3) by (auto simp: KeyComponent_def split: if_splits)
  obtain r where r: "LastSeal (list s) (prefixes s) p t = Inr r"
    "newest (\<lambda>e. below 3 (SealTenantPrefix p t) (e_Key e) \<and> ParseSealKey (e_Key e) \<noteq> None) (entries s) r"
    using descend_newest [OF assms(1)] unfolding LastSeal_def by blast
  have "below 3 (SealTenantPrefix p t) k \<and> ParseSealKey k \<noteq> None \<longleftrightarrow> seal_hour p t k \<noteq> None" for k
    using seal_under(2) [OF _ ns, of k] by (auto simp: seal_hour_def split: option.splits)
  with r(2) have new: "newest (\<lambda>e. seal_hour p t (e_Key e) \<noteq> None) (entries s) r" by simp
  have mono: "h' \<le> h" if "seal_hour p t k' = Some h'" "seal_hour p t k = Some h" "k' \<le> k" for k k' h h'
  proof -
    have w: "k = SealKey p t h" "k' = SealKey p t h'" "written_year h" "written_year h'"
      "Truncate_hour h = h" "Truncate_hour h' = h'"
      using that(1,2) ParseSealKey_grammar by (auto simp: seal_hour_def split: option.splits if_splits)
    then show ?thesis using that(3) SealKey_less_iff [OF w(3,4), of p t] by (auto simp: not_less [symmetric])
  qed
  show ?thesis
    using r(1) new mono by (intro exI [of _ r]) (auto simp: newest_def split: option.splits)
qed

end

text \<open>
  C32: \<open>LastSeal\<close>, which descends year, month and day by common prefix, finds the newest seal of the
  profile and tenant: if it finds none there is none, and what it finds is a seal of theirs with no
  later one in the archive, whatever other keys lie under the prefix.
\<close>

theorem LastSeal_is_newest:
  assumes "mem_invar m" "KeyComponent p = []" "KeyComponent t = []"
  shows "\<exists>r. LastSeal (mem_List m) (mem_Prefixes m) p t = Inr r
    \<and> (case r of
         None \<Rightarrow> \<forall>e \<in> set (mem_entries m). seal_hour p t (e_Key e) = None
       | Some e \<Rightarrow> e \<in> set (mem_entries m) \<and> (\<exists>h. seal_hour p t (e_Key e) = Some h
           \<and> (\<forall>e' \<in> set (mem_entries m). \<forall>h'. seal_hour p t (e_Key e') = Some h' \<longrightarrow> h' \<le> h)))"
  using assms by (rule mem.LastSeal_newest)

theorem LastSeal_is_newest_witness:
  "mem_invar (example_store [SealKey ''p'' ''t'' 0])
   \<and> (\<exists>e. LastSeal (mem_List (example_store [SealKey ''p'' ''t'' 0])) (mem_Prefixes (example_store [SealKey ''p'' ''t'' 0])) ''p'' ''t''
        = Inr (Some e) \<and> e_Key e = SealKey ''p'' ''t'' 0)"
proof -
  define k where "k = SealKey ''p'' ''t'' 0"
  have inv: "mem_invar (example_store [k])"
    by (auto simp: mem_invar_def example_store_def NewMemory_def k_def SealKey_def SealTenantPrefix_def)
  have es: "mem_entries (example_store [k]) = [mem_entry (example_store [k]) k]"
    by (simp add: mem_entries_def example_store_def)
  have "written_year 0" by code_simp
  then have "ParseSealKey k = Some \<lparr>so_Profile = ''p'', so_Tenant = ''t'', so_Hour = 0\<rparr>"
    unfolding ParseSealKey_grammar k_def by (simp add: Truncate_hour_def)
  then have h: "seal_hour ''p'' ''t'' k = Some 0" by (simp add: seal_hour_def)
  have "KeyComponent ''p'' = []" "KeyComponent ''t'' = []" by (simp_all add: KeyComponent_def)
  from LastSeal_is_newest [OF inv this] h inv show ?thesis
    unfolding k_def [symmetric] es by (auto split: option.splits)
qed

end
