(* ===== verification/Recobj.thy ===== *)
theory Recobj
  imports Layout Sha256
begin

text \<open>
  \<open>internal/recobj/recobj.go\<close>: the object an ingest batch becomes. Its lines, each a record in canonical
  form under its hash, are newline-delimited and compressed; \<open>compress\<close> is that of the zstd library.
\<close>

definition ContentType :: string where "ContentType = ''application/x-ndjson''"

definition Encoding :: string where "Encoding = ''zstd''"

definition newline :: char where "newline = CHR 0x0A"

definition quote :: char where "quote = CHR 0x22"

definition Hash :: "bytes \<Rightarrow> string" where
  "Hash canonical = hex_EncodeToString (sha256 canonical)"

definition SHA256 :: "bytes \<Rightarrow> string" where
  "SHA256 stored = Hash stored"

definition EncodeLine :: "bytes \<Rightarrow> bytes" where
  "EncodeLine canonical =
     [CHR ''{'', quote] @ ''hash'' @ [quote, CHR '':'', quote] @ Hash canonical
     @ [quote, CHR '','', quote] @ ''record'' @ [quote, CHR '':''] @ canonical @ [CHR ''}'']"

definition Metadata :: "bytes \<Rightarrow> nat \<Rightarrow> metadata" where
  "Metadata stored count = [(MetaFormat, Format), (MetaSHA256, SHA256 stored), (MetaCount, itoa count)]"

definition plain_of :: "bytes list \<Rightarrow> bytes" where
  "plain_of ls = concat (map (\<lambda>line. line @ [newline]) ls)"

definition Encode :: "(bytes \<Rightarrow> bytes) \<Rightarrow> bytes list \<Rightarrow> bytes \<times> metadata" where
  "Encode compress ls = (let body = compress (plain_of ls) in (body, Metadata body (length ls)))"

datatype meta_problem = FormatIs string | SHA256Is string | CountIs string

definition meta_get :: "metadata \<Rightarrow> string \<Rightarrow> string" where
  "meta_get m k = (case map_of m k of Some v \<Rightarrow> v | None \<Rightarrow> [])"

definition CheckMetadata :: "metadata \<Rightarrow> bytes \<Rightarrow> nat \<Rightarrow> meta_problem list" where
  "CheckMetadata m stored count =
     (if meta_get m MetaFormat \<noteq> Format then [FormatIs (meta_get m MetaFormat)] else [])
     @ (if meta_get m MetaSHA256 \<noteq> SHA256 stored then [SHA256Is (meta_get m MetaSHA256)] else [])
     @ (if meta_get m MetaCount \<noteq> itoa count then [CountIs (meta_get m MetaCount)] else [])"

lemma CheckMetadata_Metadata: "CheckMetadata (Metadata stored n) stored n = []"
  by (simp add: CheckMetadata_def Metadata_def meta_get_def MetaFormat_def MetaSHA256_def MetaCount_def)

lemma CheckMetadata_sound: "CheckMetadata m stored n = [] \<Longrightarrow> meta_get m MetaSHA256 = SHA256 stored"
  by (auto simp: CheckMetadata_def split: if_splits)

end
