(* ===== verification/Json.thy ===== *)
theory Json
  imports Utf8
begin

text \<open>
  Reading JSON the way Go's \<open>encoding/json\<close> reads it into an \<open>any\<close> with \<open>UseNumber\<close>: the grammar of the
  scanner, the decoding of string literals (a bad byte or half of a surrogate pair is the replacement
  character), the limit on nesting, and the rule that of two members with one name the last counts.
  An object is an association list of distinct names; a number keeps its text. Bytes are numbers, as in
  \<open>Utf8\<close>.

  The reader is the scanner's pushdown automaton: the stack holds the arrays and objects that are open,
  and every step takes at least one byte.
\<close>

datatype JSON =
    JNull
  | JBool bool
  | JString string
  | JNumber string
  | JArray "JSON list"
  | JObject "(string \<times> JSON) list"

section \<open>Tokens\<close>

definition json_space :: "nat \<Rightarrow> bool" where
  "json_space b \<longleftrightarrow> b = 32 \<or> b = 9 \<or> b = 13 \<or> b = 10"

definition skip_space :: "nat list \<Rightarrow> nat list" where
  "skip_space s = dropWhile json_space s"

definition digit_byte :: "nat \<Rightarrow> bool" where
  "digit_byte b \<longleftrightarrow> 48 \<le> b \<and> b \<le> 57"

text \<open>The parts of a number: its integer, its fraction and its exponent, each the text taken and the rest.\<close>

definition scan_int :: "nat list \<Rightarrow> (nat list \<times> nat list) option" where
  "scan_int s =
     (case s of
        [] \<Rightarrow> None
      | b # t \<Rightarrow> if b = 48 then Some ([b], t)
                 else if digit_byte b then Some (b # takeWhile digit_byte t, dropWhile digit_byte t)
                 else None)"

definition scan_frac :: "nat list \<Rightarrow> (nat list \<times> nat list) option" where
  "scan_frac s =
     (case s of
        b # t \<Rightarrow> if b = 46
                 then (case takeWhile digit_byte t of [] \<Rightarrow> None | ds \<Rightarrow> Some (b # ds, dropWhile digit_byte t))
                 else Some ([], s)
      | [] \<Rightarrow> Some ([], s))"

definition scan_exp :: "nat list \<Rightarrow> (nat list \<times> nat list) option" where
  "scan_exp s =
     (case s of
        b # t \<Rightarrow> if b = 101 \<or> b = 69
                 then (let (sign, u) = (case t of c # u \<Rightarrow> if c = 43 \<or> c = 45 then ([c], u) else ([], t) | [] \<Rightarrow> ([], t))
                       in case takeWhile digit_byte u of [] \<Rightarrow> None | ds \<Rightarrow> Some (b # sign @ ds, dropWhile digit_byte u))
                 else Some ([], s)
      | [] \<Rightarrow> Some ([], s))"

definition scan_sign :: "nat list \<Rightarrow> nat list \<times> nat list" where
  "scan_sign s = (case s of b # t \<Rightarrow> if b = 45 then ([b], t) else ([], s) | [] \<Rightarrow> ([], s))"

definition scan_number :: "nat list \<Rightarrow> (nat list \<times> nat list) option" where
  "scan_number s =
     (let (sign, s) = scan_sign s
      in case scan_int s of
           None \<Rightarrow> None
         | Some (i, s) \<Rightarrow>
             (case scan_frac s of
                None \<Rightarrow> None
              | Some (f, s) \<Rightarrow>
                  (case scan_exp s of None \<Rightarrow> None | Some (e, s) \<Rightarrow> Some (sign @ i @ f @ e, s))))"

text \<open>The escapes, the four hexadecimal digits of \<open>\u\<close>, and \<open>utf16.DecodeRune\<close>.\<close>

definition hex_val :: "nat \<Rightarrow> nat option" where
  "hex_val b =
     (if 48 \<le> b \<and> b \<le> 57 then Some (b - 48)
      else if 97 \<le> b \<and> b \<le> 102 then Some (b - 87)
      else if 65 \<le> b \<and> b \<le> 70 then Some (b - 55)
      else None)"

definition getu4 :: "nat list \<Rightarrow> (nat \<times> nat list) option" where
  "getu4 s =
     (case s of
        a # b # c # d # t \<Rightarrow>
          (case (hex_val a, hex_val b, hex_val c, hex_val d) of
             (Some w, Some x, Some y, Some z) \<Rightarrow> Some (w * 4096 + x * 256 + y * 16 + z, t)
           | _ \<Rightarrow> None)
      | _ \<Rightarrow> None)"

definition escaped :: "nat \<Rightarrow> nat option" where
  "escaped b =
     (if b = 34 \<or> b = 92 \<or> b = 47 then Some b
      else if b = 98 then Some 8
      else if b = 102 then Some 12
      else if b = 110 then Some 10
      else if b = 114 then Some 13
      else if b = 116 then Some 9
      else None)"

definition surrogate :: "nat \<Rightarrow> bool" where
  "surrogate r \<longleftrightarrow> 55296 \<le> r \<and> r < 57344"

text \<open>What follows a first half: the second, which is taken with it, or not.\<close>

definition second_half :: "nat \<Rightarrow> nat list \<Rightarrow> (nat \<times> nat list) option" where
  "second_half r s =
     (case s of
        a # b # t \<Rightarrow>
          if a = 92 \<and> b = 117 then
            (case getu4 t of
               Some (r1, u) \<Rightarrow>
                 if 55296 \<le> r \<and> r < 56320 \<and> 56320 \<le> r1 \<and> r1 < 57344
                 then Some ((r - 55296) * 1024 + (r1 - 56320) + 65536, u) else None
             | None \<Rightarrow> None)
          else None
      | _ \<Rightarrow> None)"

lemma length_getu4: "getu4 s = Some (r, t) \<Longrightarrow> length t < length s"
  by (auto simp: getu4_def split: list.splits option.splits)

lemma length_second_half: "second_half r s = Some (d, t) \<Longrightarrow> length t < length s"
  by (auto simp: second_half_def split: list.splits option.splits if_splits dest!: length_getu4)

text \<open>The inside of a string literal, after its opening quote: its runes, and what follows the closing one.\<close>

definition with_rune :: "nat \<Rightarrow> (nat list \<times> nat list) option \<Rightarrow> (nat list \<times> nat list) option" where
  "with_rune r res = (case res of None \<Rightarrow> None | Some (rs, t) \<Rightarrow> Some (r # rs, t))"

function scan_string :: "nat list \<Rightarrow> (nat list \<times> nat list) option" where
  "scan_string [] = None"
| "scan_string (b # s) =
     (if b = 34 then Some ([], s)
      else if b = 92 then
        (case s of
           [] \<Rightarrow> None
         | e # t \<Rightarrow>
             if e = 117 then
               (case getu4 t of
                  None \<Rightarrow> None
                | Some (r, u) \<Rightarrow>
                    if surrogate r then
                      (case second_half r u of
                         Some (d, v) \<Rightarrow> with_rune d (scan_string v)
                       | None \<Rightarrow> with_rune RuneError (scan_string u))
                    else with_rune r (scan_string u))
             else (case escaped e of None \<Rightarrow> None | Some r \<Rightarrow> with_rune r (scan_string t)))
      else if b < 32 then None
      else with_rune (fst (DecodeRune (b # s))) (scan_string (drop (snd (DecodeRune (b # s))) (b # s))))"
  by pat_completeness auto
termination
proof (relation "measure length", goal_cases)
  case (6 b s)
  then show ?case using DecodeRune_width [of "b # s"] by simp
qed (auto dest!: length_getu4 length_second_half)


text \<open>A Go string of the runes of a literal.\<close>

definition of_runes :: "nat list \<Rightarrow> string" where
  "of_runes rs = chars (encode_runes rs)"

section \<open>Values\<close>

text \<open>
  What is open: an array with the values read, or an object with the members read and the name of the
  one whose value is next. \<open>maxNestingDepth\<close> is the scanner's.
\<close>

datatype frame = InArray "JSON list" | InObject "(string \<times> JSON) list" string

definition maxNestingDepth :: int where "maxNestingDepth = 10000"

definition literal :: "string \<Rightarrow> nat list \<Rightarrow> nat list option" where
  "literal l s = (if take (length l) s = nats l then Some (drop (length l) s) else None)"

text \<open>A member's name and the colon after it; the input starts at the opening quote.\<close>

definition read_name :: "nat list \<Rightarrow> (string \<times> nat list) option" where
  "read_name s =
     (case s of
        b # t \<Rightarrow>
          if b = 34 then
            (case scan_string t of
               None \<Rightarrow> None
             | Some (rs, u) \<Rightarrow>
                 (case skip_space u of c # v \<Rightarrow> if c = 58 then Some (of_runes rs, v) else None | [] \<Rightarrow> None))
          else None
      | [] \<Rightarrow> None)"

text \<open>A value that is neither array nor object.\<close>

definition read_scalar :: "nat list \<Rightarrow> (JSON \<times> nat list) option" where
  "read_scalar s =
     (case s of
        [] \<Rightarrow> None
      | b # t \<Rightarrow>
          if b = 34 then map_option (\<lambda>(rs, u). (JString (of_runes rs), u)) (scan_string t)
          else if b = 116 then map_option (\<lambda>u. (JBool True, u)) (literal ''true'' s)
          else if b = 102 then map_option (\<lambda>u. (JBool False, u)) (literal ''false'' s)
          else if b = 110 then map_option (\<lambda>u. (JNull, u)) (literal ''null'' s)
          else map_option (\<lambda>(n, u). (JNumber (chars n), u)) (scan_number s))"

definition put_member :: "string \<Rightarrow> JSON \<Rightarrow> (string \<times> JSON) list \<Rightarrow> (string \<times> JSON) list" where
  "put_member k v fs = filter (\<lambda>(n, _). n \<noteq> k) fs @ [(k, v)]"

lemma length_skip_space: "length (skip_space s) \<le> length s"
  by (simp add: skip_space_def length_dropWhile_le)

declare scan_string.simps(2) [simp del]

text \<open>A literal ends here, or has one rune here and goes on in a shorter rest.\<close>

lemma with_rune_Some: "with_rune r res = Some (rs, t) \<longleftrightarrow> (\<exists>rs'. res = Some (rs', t) \<and> rs = r # rs')"
  by (auto simp: with_rune_def split: option.splits)

lemma hex_val_less: "hex_val b = Some v \<Longrightarrow> v < 16"
  by (auto simp: hex_val_def split: if_splits)

lemma getu4_bound: "getu4 s = Some (r, t) \<Longrightarrow> r < 65536"
  by (auto simp: getu4_def split: list.splits option.splits dest!: hex_val_less)

lemma scan_string_cases:
  assumes "scan_string (b # s) = Some (rs, t)"
  obtains "b = 34" "rs = []" "t = s"
  | r u rs' where "length u \<le> length s" "scan_string u = Some (rs', t)" "rs = r # rs'" "valid_rune r"
proof -
  consider (quote) "b = 34" | (esc) "b = 92" | (plain) "b \<noteq> 34" "b \<noteq> 92" by blast
  then show thesis
  proof cases
    case quote
    then show thesis using assms that(1) by (simp add: scan_string.simps(2))
  next
    case esc
    then obtain e u where s: "s = e # u" using assms by (cases s) (auto simp: scan_string.simps(2))
    show thesis
    proof (cases "e = 117")
      case True
      then obtain r v where r: "getu4 u = Some (r, v)" using assms esc s by (auto simp: scan_string.simps(2) split: option.splits)
      show thesis
      proof (cases "surrogate r")
        case surr: True
        show thesis
        proof (cases "second_half r v")
          case None
          then obtain rs' where "scan_string v = Some (rs', t)" "rs = RuneError # rs'"
            using assms esc s True r surr by (auto simp: scan_string.simps(2) with_rune_Some)
          then show thesis using that(2) [of v] length_getu4 [OF r] s by simp
        next
          case (Some dw)
          obtain d w where dw: "dw = (d, w)" by (cases dw)
          then obtain rs' where "scan_string w = Some (rs', t)" "rs = d # rs'"
            using assms esc s True r surr Some by (auto simp: scan_string.simps(2) with_rune_Some)
          moreover have "valid_rune d"
            using Some dw by (auto simp: second_half_def valid_rune_def split: list.splits option.splits if_splits)
          ultimately show thesis using that(2) [of w] length_getu4 [OF r] length_second_half [OF Some [unfolded dw]] s by simp
        qed
      next
        case False
        then obtain rs' where "scan_string v = Some (rs', t)" "rs = r # rs'"
          using assms esc s True r by (auto simp: scan_string.simps(2) with_rune_Some)
        moreover have "valid_rune r" using False getu4_bound [OF r] by (auto simp: surrogate_def valid_rune_def)
        ultimately show thesis using that(2) [of v] length_getu4 [OF r] s by simp
      qed
    next
      case False
      then obtain r where r: "escaped e = Some r" using assms esc s by (auto simp: scan_string.simps(2) split: option.splits)
      then obtain rs' where "scan_string u = Some (rs', t)" "rs = r # rs'"
        using assms esc s False by (auto simp: scan_string.simps(2) with_rune_Some)
      moreover have "valid_rune r" using r by (auto simp: escaped_def valid_rune_def split: if_splits)
      ultimately show thesis using that(2) [of u] s by simp
    qed
  next
    case plain
    let ?u = "drop (snd (DecodeRune (b # s))) (b # s)"
    obtain rs' where "scan_string ?u = Some (rs', t)" "rs = fst (DecodeRune (b # s)) # rs'"
      using assms plain by (auto simp: scan_string.simps(2) with_rune_Some split: if_splits)
    moreover have "length ?u \<le> length s" using DecodeRune_width [of "b # s"] by simp
    ultimately show thesis using that(2) DecodeRune_valid by blast
  qed
qed

lemma scan_string_result: "scan_string s = Some (rs, t) \<Longrightarrow> length t < length s \<and> list_all valid_rune rs"
proof (induction s arbitrary: rs rule: length_induct)
  case (1 s)
  then obtain b s' where s: "s = b # s'" by (cases s) auto
  show ?case
  proof (rule scan_string_cases [OF "1"(2) [unfolded s]])
    fix r u rs' assume u: "length u \<le> length s'" "scan_string u = Some (rs', t)" "rs = r # rs'" "valid_rune r"
    then have "length t < length u \<and> list_all valid_rune rs'" using "1"(1) [rule_format, of u rs'] s by simp
    then show ?thesis using u s by simp
  qed (simp add: s)
qed

lemma length_scan_number: "scan_number s = Some (n, t) \<Longrightarrow> length t < length s"
proof -
  have tw: "length (dropWhile digit_byte u) \<le> length u" for u by (rule length_dropWhile_le)
  have i: "length u < length s" if "scan_int s = Some (x, u)" for s x u
    using that tw [of "tl s"] by (auto simp: scan_int_def split: list.splits if_splits)
  have f: "length u \<le> length s" if "scan_frac s = Some (x, u)" for s x u
    using that tw [of "tl s"] by (auto simp: scan_frac_def split: list.splits if_splits)
  have e: "length u \<le> length s" if "scan_exp s = Some (x, u)" for s x u
    using that tw [of "tl s"] tw [of "tl (tl s)"] by (auto simp: scan_exp_def Let_def split: list.splits if_splits prod.splits)
  assume "scan_number s = Some (n, t)"
  then obtain s0 i0 s1 f0 s2 e0 where "snd (scan_sign s) = s0" "scan_int s0 = Some (i0, s1)" "scan_frac s1 = Some (f0, s2)" "scan_exp s2 = Some (e0, t)"
    by (auto simp: scan_number_def Let_def split: option.splits prod.splits)
  moreover from this(1) have "length s0 \<le> length s" by (auto simp: scan_sign_def split: list.splits if_splits)
  ultimately show ?thesis using i [of s0 i0 s1] f [of s1 f0 s2] e [of s2 e0 t] by linarith
qed

lemma length_literal: "literal l s = Some t \<Longrightarrow> l \<noteq> [] \<Longrightarrow> length t < length s"
  by (cases s; cases l) (auto simp: literal_def nats_def split: if_splits)

lemma length_read_scalar: "read_scalar s = Some (v, t) \<Longrightarrow> length t < length s"
  by (auto simp: read_scalar_def split: list.splits if_splits option.splits
      dest!: scan_string_result length_scan_number length_literal)

lemma length_read_name: "read_name s = Some (k, t) \<Longrightarrow> length t < length s"
proof -
  assume "read_name s = Some (k, t)"
  then obtain u rs w c where "s = 34 # u" "scan_string u = Some (rs, w)" "skip_space w = c # t"
    by (auto simp: read_name_def split: list.splits if_splits option.splits)
  then show ?thesis using scan_string_result [of u rs w] length_skip_space [of w] by simp
qed

text \<open>
  \<open>read_value\<close> expects a value under the open frames; \<open>read_after\<close> has just read one. A frame is opened
  only below the limit on nesting.
\<close>

function read_value :: "frame list \<Rightarrow> nat list \<Rightarrow> (JSON \<times> nat list) option"
  and read_after :: "frame list \<Rightarrow> JSON \<Rightarrow> nat list \<Rightarrow> (JSON \<times> nat list) option"
where
  "read_value st s =
     (case skip_space s of
        [] \<Rightarrow> None
      | b # t \<Rightarrow>
          if b = 91 then
            if maxNestingDepth \<le> int (length st) then None
            else (case skip_space t of
                    [] \<Rightarrow> None
                  | c # u \<Rightarrow> if c = 93 then read_after st (JArray []) u else read_value (InArray [] # st) (c # u))
          else if b = 123 then
            if maxNestingDepth \<le> int (length st) then None
            else (case skip_space t of
                    [] \<Rightarrow> None
                  | c # u \<Rightarrow>
                      if c = 125 then read_after st (JObject []) u
                      else (case read_name (c # u) of
                              None \<Rightarrow> None
                            | Some (k, v) \<Rightarrow> read_value (InObject [] k # st) v))
          else (case read_scalar (b # t) of None \<Rightarrow> None | Some (v, u) \<Rightarrow> read_after st v u))"
| "read_after [] v s = Some (v, s)"
| "read_after (InArray vs # st) v s =
     (case skip_space s of
        [] \<Rightarrow> None
      | c # t \<Rightarrow>
          if c = 44 then read_value (InArray (vs @ [v]) # st) t
          else if c = 93 then read_after st (JArray (vs @ [v])) t
          else None)"
| "read_after (InObject fs k # st) v s =
     (case skip_space s of
        [] \<Rightarrow> None
      | c # t \<Rightarrow>
          if c = 44 then
            (case read_name (skip_space t) of
               None \<Rightarrow> None
             | Some (n, u) \<Rightarrow> read_value (InObject (put_member k v fs) n # st) u)
          else if c = 125 then read_after st (JObject (put_member k v fs)) t
          else None)"
  by pat_completeness auto
termination
proof (relation "measure (\<lambda>x. case x of Inl (_, s) \<Rightarrow> length s | Inr (_, _, s) \<Rightarrow> length s)", goal_cases)
  case (2 st s b t c u)
  then show ?case using length_skip_space [of s] length_skip_space [of t] by simp
next
  case (3 st s b t c u)
  then show ?case using length_skip_space [of s] length_skip_space [of t] by simp
next
  case (4 st s b t c u)
  then show ?case using length_skip_space [of s] length_skip_space [of t] by simp
next
  case (5 st s b t c u k x v)
  then show ?case using length_skip_space [of s] length_skip_space [of t] length_read_name [of "c # u" x v] by simp
next
  case (6 st s b t p v u)
  then show ?case using length_skip_space [of s] length_read_scalar [of "b # t" v u] by auto
next
  case (7 vs st v s c t)
  then show ?case using length_skip_space [of s] by simp
next
  case (8 vs st v s c t)
  then show ?case using length_skip_space [of s] by simp
next
  case (9 fs k st v s c t p n u)
  then show ?case using length_skip_space [of s] length_skip_space [of t] length_read_name [of "skip_space t" n u] by simp
next
  case (10 fs k st v s c t)
  then show ?case using length_skip_space [of s] by simp
qed simp

declare read_value.simps [simp del] read_after.simps(2-) [simp del]

text \<open>Reading a value takes some of the input.\<close>

lemma length_read:
  "read_value st s = Some (w, t) \<Longrightarrow> length t < length s"
  "read_after st v s = Some (w, t) \<Longrightarrow> length t \<le> length s"
proof (induction st s and st v s arbitrary: w t and w t rule: read_value_read_after.induct)
  case (1 st s)
  obtain b u where u: "skip_space s = b # u" using "1.prems" by (auto simp: read_value.simps [of st s] split: list.splits)
  then have us: "Suc (length u) \<le> length s" using length_skip_space [of s] by simp
  consider (array) "b = 91" | (object) "b = 123" | (scalar) "b \<noteq> 91" "b \<noteq> 123" by blast
  then show ?case
  proof cases
    case array
    then have d: "\<not> maxNestingDepth \<le> int (length st)" using "1.prems" u by (simp add: read_value.simps [of st s] split: if_splits)
    obtain c x where x: "skip_space u = c # x" using "1.prems" u array d by (auto simp: read_value.simps [of st s] split: list.splits)
    have "length x < length u" using x length_skip_space [of u] by simp
    then show ?thesis using "1.IH"(1) [OF u array d x] "1.IH"(2) [OF u array d x] "1.prems" u us array d x
      by (cases "c = 93") (fastforce simp: read_value.simps [of st s])+
  next
    case object
    then have d: "\<not> maxNestingDepth \<le> int (length st)" using "1.prems" u by (simp add: read_value.simps [of st s] split: if_splits)
    obtain c x where x: "skip_space u = c # x" using "1.prems" u object d by (auto simp: read_value.simps [of st s] split: list.splits)
    then have xu: "length x < length u" using length_skip_space [of u] by simp
    show ?thesis
    proof (cases "c = 125")
      case True
      then show ?thesis using "1.IH"(3) [OF u _ object d x True] "1.prems" u us xu object d x by (fastforce simp: read_value.simps [of st s])
    next
      case False
      then obtain k y where k: "read_name (c # x) = Some (k, y)" using "1.prems" u object d x
        by (auto simp: read_value.simps [of st s] split: option.splits)
      then show ?thesis using "1.IH"(4) [OF u _ object d x False k refl] "1.prems" u us xu object d x False length_read_name [OF k]
        by (fastforce simp: read_value.simps [of st s])
    qed
  next
    case scalar
    then obtain v x where x: "read_scalar (b # u) = Some (v, x)" using "1.prems" u by (auto simp: read_value.simps [of st s] split: option.splits)
    then show ?thesis using "1.IH"(5) [OF u scalar x refl] "1.prems" u us scalar length_read_scalar [OF x] by (fastforce simp: read_value.simps [of st s])
  qed
next
  case (3 vs st v s)
  obtain c x where x: "skip_space s = c # x" using "3.prems" by (auto simp: read_after.simps(2) split: list.splits)
  then have "length x < length s" using length_skip_space [of s] by simp
  then show ?case using "3.IH"(1) [OF x] "3.IH"(2) [OF x] "3.prems" x by (fastforce simp: read_after.simps(2) split: if_splits)
next
  case (4 fs k st v s)
  obtain c x where x: "skip_space s = c # x" using "4.prems" by (auto simp: read_after.simps(3) split: list.splits)
  then have xs: "length x < length s" using length_skip_space [of s] by simp
  show ?case
  proof (cases "c = 44")
    case True
    then obtain n y where n: "read_name (skip_space x) = Some (n, y)" using "4.prems" x by (auto simp: read_after.simps(3) split: option.splits)
    then show ?thesis using "4.IH"(1) [OF x True n refl] "4.prems" x True xs length_read_name [OF n] length_skip_space [of x]
      by (fastforce simp: read_after.simps(3))
  next
    case False
    then show ?thesis using "4.IH"(2) [OF x False] "4.prems" x xs by (fastforce simp: read_after.simps(3) split: if_splits)
  qed
qed simp

end
