(* ===== verification/Canonical.thy ===== *)
theory Canonical
  imports Json "HOL-Library.Multiset"
begin

text \<open>
  \<open>sdk/record/canonical.go\<close>: the canonical form of JSON (RFC 8785), over which every hash of the system
  is taken.

  Shown: what is written is read back as the value it was written from, with its members in order and
  its numbers in plain digits; so the canonical form of a canonical form is itself, and two texts with
  one canonical form are texts of one value.
\<close>

section \<open>Numbers\<close>

text \<open>\<open>strconv.ParseInt (s, 10, 64)\<close> and \<open>strconv.FormatInt (i, 10)\<close>.\<close>

definition decimal_of :: "string \<Rightarrow> nat" where
  "decimal_of ds = numval 10 (map digit_val ds)"

definition ParseInt :: "string \<Rightarrow> int option" where
  "ParseInt s =
     (let (neg, ds) =
        (case s of c # t \<Rightarrow> if c = CHR ''-'' then (True, t) else if c = CHR ''+'' then (False, t) else (False, s)
         | [] \<Rightarrow> (False, s));
        i = (if neg then - int (decimal_of ds) else int (decimal_of ds))
      in if ds \<noteq> [] \<and> list_all is_digit ds \<and> - (2 ^ 63) \<le> i \<and> i < 2 ^ 63 then Some i else None)"

definition FormatInt :: "int \<Rightarrow> string" where
  "FormatInt i = (if i < 0 then CHR ''-'' # itoa (nat (- i)) else itoa (nat i))"

text \<open>
  \<open>strconv.ParseFloat (s, 64)\<close> of the text of a JSON number: its sign, its digits as one number and the
  power of ten to scale it by, and the nearest number \<open>q * 2 ^ e\<close> of 53 bits, ties to even, no finer
  than the least denormal.
\<close>

definition exponent_of :: "string \<Rightarrow> int" where
  "exponent_of s =
     (case s of
        [] \<Rightarrow> 0
      | c # t \<Rightarrow> if c = CHR ''-'' then - int (decimal_of t)
                 else if c = CHR ''+'' then int (decimal_of t)
                 else int (decimal_of s))"

definition scientific :: "string \<Rightarrow> bool \<times> nat \<times> int" where
  "scientific s =
     (let neg = (case s of c # _ \<Rightarrow> c = CHR ''-'' | [] \<Rightarrow> False);
          s = (if neg then tl s else s);
          i = takeWhile is_digit s;
          s = dropWhile is_digit s;
          (f, s) = (case s of c # t \<Rightarrow> if c = CHR ''.'' then (takeWhile is_digit t, dropWhile is_digit t) else ([], s) | [] \<Rightarrow> ([], s));
          e = (case s of [] \<Rightarrow> 0 | _ # t \<Rightarrow> exponent_of t)
      in (neg, decimal_of (i @ f), e - int (length f)))"

definition round_even :: "nat \<Rightarrow> nat \<Rightarrow> nat" where
  "round_even num den =
     (let q = num div den; r = num mod den
      in if den < 2 * r \<or> den = 2 * r \<and> odd q then q + 1 else q)"

definition float64 :: "nat \<Rightarrow> int \<Rightarrow> nat \<times> int" where
  "float64 m e =
     (if m = 0 then (0, 0)
      else
        let num = m * 10 ^ nat e; den = 10 ^ nat (- e);
            k = int (bits_Len num) - int (bits_Len den);
            lg = (if den * 2 ^ nat k \<le> num * 2 ^ nat (- k) then k else k - 1);
            e2 = max (lg - 52) (- 1074)
        in (round_even (num * 2 ^ nat (- e2)) (den * 2 ^ nat e2), e2))"

definition overflows :: "nat \<times> int \<Rightarrow> bool" where
  "overflows f = (case f of (q, e) \<Rightarrow> 2 ^ 1024 \<le> q * 2 ^ nat e)"

text \<open>The integer a float is, if it is one: \<open>f == math.Trunc (f)\<close>.\<close>

definition whole :: "nat \<times> int \<Rightarrow> nat option" where
  "whole f = (case f of (q, e) \<Rightarrow>
     if 0 \<le> e then Some (q * 2 ^ nat e)
     else if q mod 2 ^ nat (- e) = 0 then Some (q div 2 ^ nat (- e)) else None)"

datatype canon_error = NotJSON | OutOfRange string | NotFloat string | NotInteger string

definition max_exact :: int where "max_exact = 2 ^ 53 - 1"

definition canonicalNumber :: "string \<Rightarrow> canon_error + string" where
  "canonicalNumber s =
     (case ParseInt s of
        Some i \<Rightarrow> if max_exact < i \<or> i < - max_exact then Inl (OutOfRange s) else Inr (FormatInt i)
      | None \<Rightarrow>
          (let (neg, m, e) = scientific s; f = float64 m e
           in if overflows f then Inl (NotFloat s)
              else case whole f of
                     None \<Rightarrow> Inl (NotInteger s)
                   | Some n \<Rightarrow> if max_exact < int n then Inl (OutOfRange s)
                               else Inr (FormatInt (if neg then - int n else int n))))"

section \<open>Strings and the order of names\<close>

definition hex_byte :: "nat \<Rightarrow> nat" where
  "hex_byte d = (if d < 10 then 48 + d else 87 + d)"

definition escape_rune :: "nat \<Rightarrow> nat list" where
  "escape_rune r =
     (if r = 34 then [92, 34]
      else if r = 92 then [92, 92]
      else if r = 8 then [92, 98]
      else if r = 12 then [92, 102]
      else if r = 10 then [92, 110]
      else if r = 13 then [92, 114]
      else if r = 9 then [92, 116]
      else if r < 32 then [92, 117, 48, 48, hex_byte (r div 16), hex_byte (r mod 16)]
      else if r = RuneError then encode_valid RuneError
      else EncodeRune r)"

definition writeCanonicalString :: "string \<Rightarrow> nat list" where
  "writeCanonicalString s = 34 # concat (map escape_rune (runes (nats s))) @ [34]"

text \<open>\<open>utf16.Encode\<close>, and the loop of \<open>lessUTF16\<close>.\<close>

definition utf16_rune :: "nat \<Rightarrow> nat list" where
  "utf16_rune r =
     (if r < 65536 then [r] else [55296 + (r - 65536) div 1024, 56320 + (r - 65536) mod 1024])"

definition units :: "string \<Rightarrow> nat list" where
  "units s = concat (map utf16_rune (runes (nats s)))"

fun less_units :: "nat list \<Rightarrow> nat list \<Rightarrow> bool" where
  "less_units (a # as) (b # bs) = (if a \<noteq> b then a < b else less_units as bs)"
| "less_units as bs = (length as < length bs)"

definition lessUTF16 :: "string \<Rightarrow> string \<Rightarrow> bool" where
  "lessUTF16 a b = less_units (units a) (units b)"

lemma less_units_iff: "less_units as bs \<longleftrightarrow> as < bs"
proof (induction as arbitrary: bs)
  case Nil
  then show ?case by (cases bs) auto
next
  case (Cons a as)
  then show ?case by (cases bs) auto
qed

text \<open>\<open>sort.Slice\<close> by it is sorting by the code units.\<close>

lemma lessUTF16_units: "lessUTF16 a b \<longleftrightarrow> units a < units b"
  by (simp add: lessUTF16_def less_units_iff)

definition by_name :: "(string \<times> 'a) list \<Rightarrow> (string \<times> 'a) list" where
  "by_name fs = sort_key (\<lambda>m. units (fst m)) fs"

section \<open>Writing\<close>

fun commas :: "nat list list \<Rightarrow> nat list" where
  "commas [] = []"
| "commas (b # bs) = b @ concat (map (\<lambda>c. 44 # c) bs)"

fun all_ok :: "('e + 'a) list \<Rightarrow> 'e + 'a list" where
  "all_ok [] = Inr []"
| "all_ok (r # rs) =
     (case r of Inl e \<Rightarrow> Inl e | Inr a \<Rightarrow> (case all_ok rs of Inl e \<Rightarrow> Inl e | Inr as \<Rightarrow> Inr (a # as)))"

text \<open>
  The members of an object are written in the order of their names; of several that cannot be written,
  the first in that order is the one reported.
\<close>

definition write_member :: "string \<times> (canon_error + nat list) \<Rightarrow> canon_error + nat list" where
  "write_member m = (case m of (k, r) \<Rightarrow> map_sum (\<lambda>e. e) (\<lambda>b. writeCanonicalString k @ 58 # b) r)"

primrec writeCanonical :: "JSON \<Rightarrow> canon_error + nat list" where
  "writeCanonical JNull = Inr (nats ''null'')"
| "writeCanonical (JBool t) = Inr (nats (if t then ''true'' else ''false''))"
| "writeCanonical (JString s) = Inr (writeCanonicalString s)"
| "writeCanonical (JNumber n) = map_sum (\<lambda>e. e) nats (canonicalNumber n)"
| "writeCanonical (JArray vs) = map_sum (\<lambda>e. e) (\<lambda>bs. 91 # commas bs @ [93]) (all_ok (map writeCanonical vs))"
| "writeCanonical (JObject fs) =
     map_sum (\<lambda>e. e) (\<lambda>bs. 123 # commas bs @ [125])
       (all_ok (map write_member (by_name (map (map_prod (\<lambda>k. k) writeCanonical) fs))))"

definition canonicalJSON :: "bytes \<Rightarrow> canon_error + bytes" where
  "canonicalJSON raw =
     (case read_value [] (nats raw) of
        None \<Rightarrow> Inl NotJSON
      | Some (v, _) \<Rightarrow> map_sum (\<lambda>e. e) chars (writeCanonical v))"

section \<open>Strings are read back\<close>

definition plain_byte :: "nat \<Rightarrow> bool" where
  "plain_byte b \<longleftrightarrow> 32 \<le> b \<and> b < 256"

lemma plain_marks [simp]:
  "plain_byte 34" "plain_byte 44" "plain_byte 58" "plain_byte 91" "plain_byte 92" "plain_byte 93" "plain_byte 123" "plain_byte 125"
  by (simp_all add: plain_byte_def)

lemma hex_byte: "d < 16 \<Longrightarrow> hex_val (hex_byte d) = Some d" "d < 16 \<Longrightarrow> plain_byte (hex_byte d)"
  by (auto simp: hex_val_def hex_byte_def plain_byte_def)

lemma scan_escape:
  assumes "valid_rune r"
  shows "scan_string (escape_rune r @ s) = with_rune r (scan_string s)"
proof -
  consider (short) "r \<in> {34, 92, 8, 12, 10, 13, 9}" | (control) "r \<notin> {34, 92, 8, 12, 10, 13, 9}" "r < 32"
    | (plain) "r \<notin> {34, 92}" "32 \<le> r" by force
  then show ?thesis
  proof cases
    case short
    then show ?thesis by (auto simp: escape_rune_def scan_string.simps(2) escaped_def)
  next
    case control
    then have "r div 16 < 16" "r mod 16 < 16" "r div 16 * 16 + r mod 16 = r" by auto
    moreover have "hex_val 48 = Some 0" by (simp add: hex_val_def)
    ultimately have "getu4 (48 # 48 # hex_byte (r div 16) # hex_byte (r mod 16) # s) = Some (r, s)"
      by (simp add: getu4_def hex_byte)
    moreover have "\<not> surrogate r" using control by (simp add: surrogate_def)
    ultimately show ?thesis using control by (simp add: escape_rune_def scan_string.simps(2))
  next
    case plain
    have "escape_rune r = encode_valid r" using plain assms by (auto simp: escape_rune_def EncodeRune_def)
    moreover obtain b t where bt: "encode_valid r = b # t" by (cases "encode_valid r") auto
    moreover have "b \<noteq> 34" "b \<noteq> 92" "32 \<le> b" using bt plain by (auto simp: encode_valid_def split: if_splits)
    moreover have "DecodeRune ((b # t) @ s) = (r, length (b # t))" using DecodeRune_encode [OF assms, of s] bt by simp
    ultimately show ?thesis by (simp add: scan_string.simps(2))
  qed
qed

lemma scan_escapes:
  "list_all valid_rune rs \<Longrightarrow> scan_string (concat (map escape_rune rs) @ 34 # s) = Some (rs, s)"
  by (induction rs) (simp_all add: scan_escape scan_string.simps(2) with_rune_def)

lemma encode_valid_plain: "valid_rune r \<Longrightarrow> 32 \<le> r \<Longrightarrow> list_all plain_byte (encode_valid r)"
  using encode_valid_bytes [of r] by (auto simp: plain_byte_def encode_valid_def split: if_splits)

lemma escape_plain:
  assumes "valid_rune r"
  shows "list_all plain_byte (escape_rune r)"
proof (cases "r < 32")
  case True
  then have "r div 16 < 16" "r mod 16 < 16" by auto
  then show ?thesis using True hex_byte(2) by (auto simp: escape_rune_def plain_byte_def)
next
  case False
  then have "escape_rune r \<in> {[92, 34], [92, 92], encode_valid r}" using assms by (auto simp: escape_rune_def EncodeRune_def)
  then show ?thesis using encode_valid_plain [OF assms] False by (auto simp: plain_byte_def)
qed

lemma string_plain: "list_all plain_byte (writeCanonicalString s)"
proof -
  have "list_all plain_byte (concat (map escape_rune rs))" if "list_all valid_rune rs" for rs
    using that by (induction rs) (simp_all add: escape_plain)
  then show ?thesis using runes_valid by (simp add: writeCanonicalString_def plain_byte_def)
qed

text \<open>A Go string the reader makes: valid UTF-8.\<close>

definition utf8_string :: "string \<Rightarrow> bool" where
  "utf8_string s \<longleftrightarrow> of_runes (runes (nats s)) = s"

lemma utf8_of_runes:
  assumes "list_all valid_rune rs"
  shows "utf8_string (of_runes rs)"
  using assms by (simp add: utf8_string_def of_runes_def nats_chars encode_runes_bytes runes_encode_all)

lemma read_string:
  "utf8_string s \<Longrightarrow> read_scalar (writeCanonicalString s @ t) = Some (JString s, t)"
  by (simp add: read_scalar_def writeCanonicalString_def scan_escapes runes_valid utf8_string_def)

lemma read_written_name:
  "utf8_string k \<Longrightarrow> read_name (writeCanonicalString k @ 58 # t) = Some (k, t)"
  by (simp add: read_name_def writeCanonicalString_def scan_escapes runes_valid utf8_string_def skip_space_def json_space_def)

section \<open>Numbers are read back\<close>

lemma itoa_hd: "0 < n \<Longrightarrow> hd (itoa n) \<noteq> digit 0"
proof (induction n rule: itoa.induct)
  case (1 n)
  have inj: "digit d \<noteq> digit 0" if "d < 10" "0 < d" for d using that digit_less_iff [of 0 d] by force
  have "itoa (n div 10) \<noteq> []" using itoa_map [of "n div 10"] by auto
  then show ?case using 1 inj [of n] by (cases "n < 10") (auto simp: itoa.simps [of n])
qed

lemma decimal_of_itoa: "decimal_of (itoa n) = n" "itoa n \<noteq> []" "list_all is_digit (itoa n)"
proof -
  obtain ds where ds: "itoa n = map digit ds" "ds \<noteq> []" "\<forall>d\<in>set ds. d < 10" "numval 10 ds = n" using itoa_map by blast
  then have "map (digit_val \<circ> digit) ds = ds" by (simp add: map_idI)
  then show "decimal_of (itoa n) = n" "itoa n \<noteq> []" "list_all is_digit (itoa n)"
    using ds by (auto simp: decimal_of_def list_all_iff)
qed

lemma ParseInt_FormatInt: "- max_exact \<le> i \<Longrightarrow> i \<le> max_exact \<Longrightarrow> ParseInt (FormatInt i) = Some i"
proof -
  assume i: "- max_exact \<le> i" "i \<le> max_exact"
  have sign: "hd (itoa n) \<noteq> CHR ''-''" "hd (itoa n) \<noteq> CHR ''+''" for n
    using decimal_of_itoa(2,3) [of n] by (cases "itoa n"; auto simp: is_digit_iff)+
  obtain c t where n: "itoa (nat i) = c # t" using decimal_of_itoa(2) [of "nat i"] by (cases "itoa (nat i)") auto
  have "ParseInt (FormatInt i) = Some i" if "0 \<le> i"
    using that i sign [of "nat i"] decimal_of_itoa [of "nat i"] n by (simp add: ParseInt_def FormatInt_def max_exact_def)
  moreover have "ParseInt (FormatInt i) = Some i" if "i < 0"
    using that i decimal_of_itoa [of "nat (- i)"] by (simp add: ParseInt_def FormatInt_def max_exact_def)
  ultimately show ?thesis by linarith
qed

lemma canonicalNumber_int:
  assumes "canonicalNumber s = Inr t"
  obtains i where "t = FormatInt i" "- max_exact \<le> i" "i \<le> max_exact"
  using assms
  by (auto simp: canonicalNumber_def Let_def not_less split: option.splits if_splits prod.splits intro: that)

lemma canonicalNumber_idem: "canonicalNumber s = Inr t \<Longrightarrow> canonicalNumber t = Inr t"
  by (erule canonicalNumber_int) (simp add: canonicalNumber_def ParseInt_FormatInt not_less)

text \<open>What may follow a number: nothing that would go on with it.\<close>

definition stops :: "nat list \<Rightarrow> bool" where
  "stops s \<longleftrightarrow> (case s of [] \<Rightarrow> True | b # _ \<Rightarrow> \<not> digit_byte b \<and> b \<noteq> 46 \<and> b \<noteq> 101 \<and> b \<noteq> 69)"

lemma take_digits:
  assumes "list_all is_digit ds" "stops s"
  shows "takeWhile digit_byte (nats ds @ s) = nats ds" "dropWhile digit_byte (nats ds @ s) = s"
proof -
  have "\<forall>b \<in> set (nats ds). digit_byte b" using assms(1) by (auto simp: nats_def list_all_iff is_digit_iff digit_byte_def)
  moreover have "takeWhile digit_byte s = []" "dropWhile digit_byte s = s" using assms(2) by (cases s; simp add: stops_def)+
  ultimately show "takeWhile digit_byte (nats ds @ s) = nats ds" "dropWhile digit_byte (nats ds @ s) = s"
    by (simp_all add: takeWhile_append dropWhile_append)
qed

lemma scan_itoa:
  assumes "stops s"
  shows "scan_int (nats (itoa n) @ s) = Some (nats (itoa n), s)"
proof -
  obtain c t where n: "itoa n = c # t" using decimal_of_itoa(2) [of n] by (cases "itoa n") auto
  then have c: "is_digit c" "list_all is_digit t" using decimal_of_itoa(3) [of n] by simp_all
  show ?thesis
  proof (cases "n = 0")
    case True
    then have "nats (itoa n) = [48]" by (simp add: itoa.simps nats_def of_char_digit)
    then show ?thesis by (simp add: scan_int_def)
  next
    case False
    then have "c \<noteq> digit 0" using itoa_hd [of n] n by simp
    then have "of_char c \<noteq> (48 :: nat)" using of_char_digit [of 0] by (metis add_0_right of_char_eq_iff zero_less_numeral)
    moreover have "digit_byte (of_char c)" using c(1) by (simp add: is_digit_iff digit_byte_def)
    ultimately show ?thesis using take_digits [OF c(2) assms] by (simp add: n scan_int_def nats_def)
  qed
qed

lemma stops_scan: "stops s \<Longrightarrow> scan_frac s = Some ([], s)" "stops s \<Longrightarrow> scan_exp s = Some ([], s)"
  by (cases s; simp add: stops_def scan_frac_def scan_exp_def)+

lemma scan_FormatInt:
  assumes "stops s"
  shows "scan_number (nats (FormatInt i) @ s) = Some (nats (FormatInt i), s)"
proof -
  obtain c t where n: "itoa (nat i) = c # t" using decimal_of_itoa(2) [of "nat i"] by (cases "itoa (nat i)") auto
  then have "of_char c \<noteq> (45 :: nat)" using decimal_of_itoa(3) [of "nat i"] by (auto simp: is_digit_iff)
  then have "scan_sign (nats (itoa (nat i)) @ s) = ([], nats (itoa (nat i)) @ s)" by (simp add: n scan_sign_def nats_def)
  moreover have "scan_sign (45 # nats (itoa (nat (- i))) @ s) = ([45], nats (itoa (nat (- i))) @ s)" by (simp add: scan_sign_def)
  ultimately show ?thesis using scan_itoa [OF assms] stops_scan [OF assms]
    by (simp add: scan_number_def FormatInt_def nats_def)
qed

lemma FormatInt_hd: obtains b t where "nats (FormatInt i) = b # t" "b = 45 \<or> digit_byte b"
proof -
  obtain c u where "itoa (nat i) = c # u" "is_digit c"
    using decimal_of_itoa(2,3) [of "nat i"] by (cases "itoa (nat i)") auto
  then show thesis using that
    by (cases "i < 0") (auto simp: FormatInt_def nats_def is_digit_iff digit_byte_def)
qed

lemma read_number:
  assumes "stops s"
  shows "read_scalar (nats (FormatInt i) @ s) = Some (JNumber (FormatInt i), s)"
proof -
  obtain b t where b: "nats (FormatInt i) = b # t" "b = 45 \<or> digit_byte b" using FormatInt_hd by blast
  then have "b \<notin> {34, 116, 102, 110}" by (auto simp: digit_byte_def)
  then show ?thesis using scan_FormatInt [OF assms, of i] b(1)
    by (simp add: read_scalar_def) (simp add: b(1) [symmetric] nats_def chars_def)
qed

lemma FormatInt_plain: "list_all plain_byte (nats (FormatInt i))"
proof -
  have "list_all plain_byte (nats (itoa n))" for n
    using decimal_of_itoa(3) [of n] by (auto simp: nats_def list_all_iff is_digit_iff plain_byte_def)
  then show ?thesis by (auto simp: FormatInt_def nats_def plain_byte_def)
qed

section \<open>Values are read back\<close>

text \<open>
  How deep a value nests, what the reader makes (valid strings, distinct names), and the value a text
  has in canonical form: members in order, numbers in plain digits.
\<close>

primrec jdepth :: "JSON \<Rightarrow> nat" where
  "jdepth JNull = 0"
| "jdepth (JBool t) = 0"
| "jdepth (JString s) = 0"
| "jdepth (JNumber n) = 0"
| "jdepth (JArray vs) = Suc (foldr max (map jdepth vs) 0)"
| "jdepth (JObject fs) = Suc (foldr (\<lambda>m. max (snd m)) (map (map_prod (\<lambda>k. k) jdepth) fs) 0)"

primrec readable :: "JSON \<Rightarrow> bool" where
  "readable JNull = True"
| "readable (JBool t) = True"
| "readable (JString s) = utf8_string s"
| "readable (JNumber n) = True"
| "readable (JArray vs) = list_all (\<lambda>ok. ok) (map readable vs)"
| "readable (JObject fs) =
     (distinct (map fst fs) \<and> list_all (\<lambda>m. utf8_string (fst m) \<and> snd m) (map (map_prod (\<lambda>k. k) readable) fs))"

primrec norm :: "JSON \<Rightarrow> JSON" where
  "norm JNull = JNull"
| "norm (JBool t) = JBool t"
| "norm (JString s) = JString s"
| "norm (JNumber n) = JNumber (case canonicalNumber n of Inl e \<Rightarrow> n | Inr t \<Rightarrow> t)"
| "norm (JArray vs) = JArray (map norm vs)"
| "norm (JObject fs) = JObject (by_name (map (map_prod (\<lambda>k. k) norm) fs))"

lemma foldr_max_le: "foldr (\<lambda>x. max (f x)) xs 0 \<le> (n::nat) \<longleftrightarrow> (\<forall>x \<in> set xs. f x \<le> n)"
  by (induction xs) auto

lemma jdepth_le:
  "jdepth (JArray vs) \<le> Suc n \<longleftrightarrow> (\<forall>v \<in> set vs. jdepth v \<le> n)"
  "jdepth (JObject fs) \<le> Suc n \<longleftrightarrow> (\<forall>(k, v) \<in> set fs. jdepth v \<le> n)"
  using foldr_max_le [of "\<lambda>x. x" "map jdepth vs" n] foldr_max_le [of snd "map (map_prod (\<lambda>k. k) jdepth) fs" n]
  by (auto simp: id_def)

lemma set_by_name [simp]: "set (by_name fs) = set fs"
  by (simp add: by_name_def)

lemma names_by_name: "set (map fst (by_name fs)) = set (map fst fs)" "distinct (map fst (by_name fs)) \<longleftrightarrow> distinct (map fst fs)"
proof -
  have "mset (map fst (by_name fs)) = mset (map fst fs)" by (simp add: by_name_def)
  then show "set (map fst (by_name fs)) = set (map fst fs)" "distinct (map fst (by_name fs)) \<longleftrightarrow> distinct (map fst fs)"
    by (metis mset_eq_setD, metis mset_eq_imp_distinct_iff)
qed

lemma by_name_map: "by_name (map (map_prod (\<lambda>k. k) f) fs) = map (map_prod (\<lambda>k. k) f) (by_name fs)"
proof -
  have "insort_key (\<lambda>m. units (fst m)) (map_prod (\<lambda>k. k) f x) (map (map_prod (\<lambda>k. k) f) ys)
      = map (map_prod (\<lambda>k. k) f) (insort_key (\<lambda>m. units (fst m)) x ys)" for x ys
    by (induction ys) auto
  then show ?thesis unfolding by_name_def by (induction fs) auto
qed

lemma by_name_idem: "by_name (by_name fs) = by_name fs"
  by (simp add: by_name_def sort_key_id_if_sorted)

lemma all_ok_Inr: "all_ok rs = Inr as \<longleftrightarrow> rs = map Inr as"
proof (induction rs arbitrary: as)
  case (Cons r rs)
  show ?case
  proof (cases "all_ok rs")
    case (Inl e)
    then have "rs \<noteq> map Inr as'" for as' using Cons.IH [of as'] by simp
    then show ?thesis using Inl by (auto split: sum.splits)
  next
    case (Inr bs)
    then have "rs = map Inr bs" using Cons.IH [of bs] by simp
    then show ?thesis using Inr by (auto split: sum.splits simp: inj_map_eq_map [OF inj_Inr])
  qed
qed auto

lemma map_sum_Inr: "map_sum (\<lambda>e. e) f r = Inr b \<longleftrightarrow> (\<exists>a. r = Inr a \<and> b = f a)"
  by (cases r) auto

lemma write_array: "writeCanonical (JArray vs) = Inr b \<longleftrightarrow> (\<exists>bs. map writeCanonical vs = map Inr bs \<and> b = 91 # commas bs @ [93])"
  by (simp add: map_sum_Inr all_ok_Inr)

lemma write_object:
  "writeCanonical (JObject fs) = Inr b \<longleftrightarrow>
     (\<exists>bs. map (\<lambda>(k, v). write_member (k, writeCanonical v)) (by_name fs) = map Inr bs \<and> b = 123 # commas bs @ [125])"
proof -
  have "map write_member (by_name (map (map_prod (\<lambda>k. k) writeCanonical) fs))
      = map (\<lambda>(k, v). write_member (k, writeCanonical v)) (by_name fs)"
    by (auto simp: by_name_map)
  then show ?thesis by (simp add: map_sum_Inr all_ok_Inr)
qed

lemma write_member_Inr: "write_member (k, r) = Inr b \<longleftrightarrow> (\<exists>c. r = Inr c \<and> b = writeCanonicalString k @ 58 # c)"
  by (auto simp: write_member_def map_sum_Inr)

lemma map_eq_map_Inr: "map f xs = map Inr ys \<longleftrightarrow> list_all2 (\<lambda>x y. f x = Inr y) xs ys"
  by (induction xs arbitrary: ys) (auto simp: list_all2_Cons1 Cons_eq_map_conv)

lemma list_all2_in2: "list_all2 P xs ys \<Longrightarrow> y \<in> set ys \<Longrightarrow> \<exists>x \<in> set xs. P x y"
  by (induction rule: list_all2_induct) auto

lemma commas_plain: "list_all (list_all plain_byte) bs \<Longrightarrow> list_all plain_byte (commas bs)"
  by (cases bs) (auto simp: list_all_iff plain_byte_def)

lemma write_plain: "writeCanonical v = Inr b \<Longrightarrow> list_all plain_byte b"
proof (induction v arbitrary: b)
  case (JNumber n)
  then obtain t where t: "canonicalNumber n = Inr t" "b = nats t" by (cases "canonicalNumber n") auto
  then obtain i where "t = FormatInt i" using canonicalNumber_int [OF t(1)] by blast
  then show ?case using FormatInt_plain t by simp
next
  case (JArray vs)
  then obtain bs where bs: "list_all2 (\<lambda>v b. writeCanonical v = Inr b) vs bs" "b = 91 # commas bs @ [93]"
    by (auto simp: write_array map_eq_map_Inr simp del: writeCanonical.simps)
  then have "list_all (list_all plain_byte) bs"
    using JArray(1) list_all2_in2 [OF bs(1)] by (fastforce simp: list_all_iff)
  then show ?case using bs(2) commas_plain by simp
next
  case (JObject fs)
  then obtain bs where bs: "list_all2 (\<lambda>m b. write_member (fst m, writeCanonical (snd m)) = Inr b) (by_name fs) bs" "b = 123 # commas bs @ [125]"
    by (auto simp: write_object map_eq_map_Inr case_prod_beta' simp del: writeCanonical.simps)
  have "list_all plain_byte c" if "c \<in> set bs" for c
  proof -
    from list_all2_in2 [OF bs(1) \<open>c \<in> set bs\<close>]
    obtain m where m: "m \<in> set fs" "write_member (fst m, writeCanonical (snd m)) = Inr c" by auto
    then obtain d where d: "writeCanonical (snd m) = Inr d" "c = writeCanonicalString (fst m) @ 58 # d" by (auto simp: write_member_Inr)
    have "list_all plain_byte d" using JObject(1) [OF m(1) _ d(1)] by (cases m) auto
    then show ?thesis using d(2) string_plain by simp
  qed
  then have "list_all (list_all plain_byte) bs" by (simp add: list_all_iff)
  then show ?case using bs(2) commas_plain by simp
qed (auto simp: string_plain nats_def plain_byte_def)

text \<open>
  A text that is read as a value in every place: it starts with a mark of its own, and what follows it
  goes on where the value ends.
\<close>

definition reads :: "JSON \<Rightarrow> nat list \<Rightarrow> bool" where
  "reads v b \<longleftrightarrow> b \<noteq> [] \<and> \<not> json_space (hd b) \<and> hd b \<noteq> 93 \<and>
     (\<forall>st s. int (length st + jdepth v) \<le> maxNestingDepth \<longrightarrow> stops s \<longrightarrow> read_value st (b @ s) = read_after st v s)"

lemma skip_mark: "b \<noteq> [] \<Longrightarrow> \<not> json_space (hd b) \<Longrightarrow> skip_space (b @ s) = b @ s"
  by (cases b) (simp_all add: skip_space_def)

lemma reads_scalar:
  assumes "b \<noteq> []" "\<not> json_space (hd b)" "hd b \<notin> {91, 93, 123}" "\<And>s. stops s \<Longrightarrow> read_scalar (b @ s) = Some (v, s)"
  shows "reads v b"
proof -
  obtain c t where b: "b = c # t" using assms(1) by (cases b) auto
  have "read_value st (b @ s) = read_after st v s" if "stops s" for st s
    using assms(3) assms(4) [OF that] skip_mark [OF assms(1,2), of s] unfolding b by (simp add: read_value.simps [of st "c # t @ s"])
  then show ?thesis using assms by (simp add: reads_def)
qed

lemma stops_marks [simp]: "stops (44 # s)" "stops (93 # s)" "stops (125 # s)" "stops []"
  by (simp_all add: stops_def digit_byte_def)

lemma skip_marks [simp]: "skip_space (44 # s) = 44 # s" "skip_space (93 # s) = 93 # s" "skip_space (125 # s) = 125 # s"
  "skip_space (91 # s) = 91 # s" "skip_space (123 # s) = 123 # s" "skip_space (34 # s) = 34 # s"
  by (simp_all add: skip_space_def json_space_def)

lemma reads_elements:
  assumes "list_all2 reads vs bs" "\<forall>v \<in> set vs. int (Suc (length st) + jdepth v) \<le> maxNestingDepth"
  shows "read_after (InArray us # st) u (concat (map (\<lambda>c. 44 # c) bs) @ 93 # s) = read_after st (JArray (us @ u # vs)) s"
  using assms
proof (induction vs bs arbitrary: us u rule: list_all2_induct)
  case Nil
  then show ?case by (simp add: read_after.simps(2))
next
  case (Cons v vs b bs)
  have "stops (concat (map (\<lambda>c. 44 # c) bs) @ 93 # s)" by (cases bs) simp_all
  then have "read_value (InArray (us @ [u]) # st) (b @ concat (map (\<lambda>c. 44 # c) bs) @ 93 # s)
      = read_after (InArray (us @ [u]) # st) v (concat (map (\<lambda>c. 44 # c) bs) @ 93 # s)"
    using Cons.hyps(1) Cons.prems by (simp add: reads_def)
  then show ?case using Cons.IH [of "us @ [u]" v] Cons.prems by (simp add: read_after.simps(2))
qed

lemma reads_array:
  assumes "list_all2 reads vs bs"
  shows "reads (JArray vs) (91 # commas bs @ [93])"
proof -
  have "read_value st ((91 # commas bs @ [93]) @ s) = read_after st (JArray vs) s"
    if d: "int (length st + jdepth (JArray vs)) \<le> maxNestingDepth" for st s
  proof -
    have depth: "\<not> maxNestingDepth \<le> int (length st)" using d by simp
    show ?thesis
    proof (cases bs)
      case Nil
      then show ?thesis using assms depth by (simp add: read_value.simps [of st])
    next
      case (Cons b bs')
      then obtain v vs' where v: "vs = v # vs'" "reads v b" "list_all2 reads vs' bs'" using assms by (auto simp: list_all2_Cons2)
      let ?s = "concat (map (\<lambda>c. 44 # c) bs') @ 93 # s"
      have inner: "\<forall>w \<in> set vs. int (Suc (length st) + jdepth w) \<le> maxNestingDepth"
        using d jdepth_le(1) [of vs "jdepth (JArray vs) - 1"] by force
      obtain c t where b: "b = c # t" "c \<noteq> 93" using v(2) by (cases b) (auto simp: reads_def)
      have "skip_space (b @ ?s) = b @ ?s" using v(2) skip_mark by (auto simp: reads_def)
      then have "read_value st (91 # b @ ?s) = read_value (InArray [] # st) (b @ ?s)"
        using depth b by (simp add: read_value.simps [of st "91 # c # t @ _"])
      also have "\<dots> = read_after (InArray [] # st) v ?s"
      proof -
        have "stops ?s" by (cases bs') simp_all
        then show ?thesis using v(1,2) inner by (simp add: reads_def)
      qed
      also have "\<dots> = read_after st (JArray vs) s" using reads_elements [OF v(3), of st "[]" v s] inner v(1) by simp
      finally show ?thesis using Cons by simp
    qed
  qed
  then show ?thesis by (simp add: reads_def json_space_def)
qed

definition reads_member :: "string \<times> JSON \<Rightarrow> nat list \<Rightarrow> bool" where
  "reads_member m b \<longleftrightarrow> utf8_string (fst m) \<and> (\<exists>c. b = writeCanonicalString (fst m) @ 58 # c \<and> reads (snd m) c)"

lemma put_new_member: "k \<notin> fst ` set fs \<Longrightarrow> put_member k v fs = fs @ [(k, v)]"
  by (force simp: put_member_def filter_id_conv)

lemma reads_member_read:
  assumes "reads_member m b" "int (Suc (length st) + jdepth (snd m)) \<le> maxNestingDepth" "stops s"
  obtains c where "read_name (b @ s) = Some (fst m, c)" "skip_space (b @ s) = b @ s" "b @ s = 34 # tl (b @ s)"
    "\<And>us. read_value (InObject us (fst m) # st) c = read_after (InObject us (fst m) # st) (snd m) s"
proof -
  obtain c where c: "utf8_string (fst m)" "b = writeCanonicalString (fst m) @ 58 # c" "reads (snd m) c"
    using assms(1) by (auto simp: reads_member_def)
  show thesis
  proof (rule that [of "c @ s"])
    show "read_name (b @ s) = Some (fst m, c @ s)" using read_written_name [OF c(1)] c(2) by simp
    show "skip_space (b @ s) = b @ s" "b @ s = 34 # tl (b @ s)" using c(2) by (simp_all add: writeCanonicalString_def)
  qed (use c(3) assms(2,3) in \<open>simp add: reads_def\<close>)
qed

lemma reads_members:
  assumes "list_all2 reads_member ms bs" "\<forall>m \<in> set ms. int (Suc (length st) + jdepth (snd m)) \<le> maxNestingDepth"
    "distinct (map fst us @ k # map fst ms)"
  shows "read_after (InObject us k # st) u (concat (map (\<lambda>c. 44 # c) bs) @ 125 # s) = read_after st (JObject (us @ (k, u) # ms)) s"
  using assms
proof (induction ms bs arbitrary: us k u rule: list_all2_induct)
  case Nil
  then show ?case by (simp add: read_after.simps(3) put_new_member)
next
  case (Cons m ms b bs)
  let ?s = "concat (map (\<lambda>c. 44 # c) bs) @ 125 # s"
  have st: "stops ?s" by (cases bs) simp_all
  have "int (Suc (length st) + jdepth (snd m)) \<le> maxNestingDepth" using Cons.prems(1) by simp
  then obtain c where c: "read_name (b @ ?s) = Some (fst m, c)" "skip_space (b @ ?s) = b @ ?s"
    "\<And>us. read_value (InObject us (fst m) # st) c = read_after (InObject us (fst m) # st) (snd m) ?s"
    using reads_member_read [OF Cons.hyps(1) _ st] by metis
  have "put_member k u us = us @ [(k, u)]" using Cons.prems(2) by (intro put_new_member) auto
  then show ?case using c Cons.IH [of "us @ [(k, u)]" "fst m" "snd m"] Cons.prems by (simp add: read_after.simps(3))
qed

lemma reads_object:
  assumes "list_all2 reads_member ms bs" "distinct (map fst ms)"
  shows "reads (JObject ms) (123 # commas bs @ [125])"
proof -
  have "read_value st ((123 # commas bs @ [125]) @ s) = read_after st (JObject ms) s"
    if d: "int (length st + jdepth (JObject ms)) \<le> maxNestingDepth" for st s
  proof -
    have depth: "\<not> maxNestingDepth \<le> int (length st)" using d by simp
    show ?thesis
    proof (cases bs)
      case Nil
      then show ?thesis using assms depth by (simp add: read_value.simps [of st])
    next
      case (Cons b bs')
      then obtain m ms' where m: "ms = m # ms'" "reads_member m b" "list_all2 reads_member ms' bs'"
        using assms(1) by (auto simp: list_all2_Cons2)
      let ?s = "concat (map (\<lambda>c. 44 # c) bs') @ 125 # s"
      have inner: "\<forall>w \<in> set ms. int (Suc (length st) + jdepth (snd w)) \<le> maxNestingDepth"
        using d jdepth_le(2) [of ms "jdepth (JObject ms) - 1"] by force
      have st: "stops ?s" by (cases bs') simp_all
      have "int (Suc (length st) + jdepth (snd m)) \<le> maxNestingDepth" using inner m(1) by simp
      then obtain c where c: "read_name (b @ ?s) = Some (fst m, c)" "skip_space (b @ ?s) = b @ ?s" "b @ ?s = 34 # tl (b @ ?s)"
        "\<And>us. read_value (InObject us (fst m) # st) c = read_after (InObject us (fst m) # st) (snd m) ?s"
        using reads_member_read [OF m(2) _ st] by metis
      obtain t where t: "b @ ?s = 34 # t" using c(3) by blast
      have "read_value st (123 # b @ ?s) = read_value (InObject [] (fst m) # st) c"
        using depth c(1,2) unfolding t by (simp add: read_value.simps [of st "123 # 34 # t"])
      also have "\<dots> = read_after (InObject [] (fst m) # st) (snd m) ?s" by (rule c(4))
      also have "\<dots> = read_after st (JObject ms) s"
        using reads_members [OF m(3), of st "[]" "fst m" "snd m" s] inner assms(2) m(1) by simp
      finally show ?thesis using Cons by simp
    qed
  qed
  then show ?thesis by (simp add: reads_def json_space_def)
qed

lemma readable_object: "readable (JObject fs) \<longleftrightarrow> distinct (map fst fs) \<and> (\<forall>m \<in> set fs. utf8_string (fst m) \<and> readable (snd m))"
  by (auto simp: list_all_iff)

lemma readable_array: "readable (JArray vs) \<longleftrightarrow> (\<forall>v \<in> set vs. readable v)"
  by (auto simp: list_all_iff)

lemma reads_literal:
  assumes "l \<noteq> []" "hd (nats l) \<notin> {34, 91, 93, 123, 32, 9, 13, 10}" "\<And>s. read_scalar (nats l @ s) = Some (v, s)"
  shows "reads v (nats l)"
  by (rule reads_scalar) (use assms in \<open>auto simp: json_space_def nats_def\<close>)

lemma write_reads: "readable v \<Longrightarrow> writeCanonical v = Inr b \<Longrightarrow> reads (norm v) b"
proof (induction v arbitrary: b)
  case JNull
  have "reads JNull (nats ''null'')" by (rule reads_literal) (simp_all add: nats_def read_scalar_def literal_def)
  then show ?case using JNull by simp
next
  case (JBool t)
  have "reads (JBool True) (nats ''true'')" "reads (JBool False) (nats ''false'')"
    by (rule reads_literal; simp add: nats_def read_scalar_def literal_def)+
  then show ?case using JBool by (cases t) simp_all
next
  case (JString s)
  then have "utf8_string s" by simp
  then have "reads (JString s) (writeCanonicalString s)"
    by (intro reads_scalar read_string) (simp_all add: writeCanonicalString_def json_space_def)
  then show ?case using JString by simp
next
  case (JNumber n)
  then obtain t where t: "canonicalNumber n = Inr t" "b = nats t" by (auto simp: map_sum_Inr)
  obtain i where i: "t = FormatInt i" using canonicalNumber_int [OF t(1)] by blast
  obtain c u where c: "nats (FormatInt i) = c # u" "c = 45 \<or> digit_byte c" using FormatInt_hd by blast
  have "reads (JNumber (FormatInt i)) (nats (FormatInt i))"
    by (intro reads_scalar read_number) (use c in \<open>auto simp: json_space_def digit_byte_def\<close>)
  then show ?case using t i by simp
next
  case (JArray vs)
  then obtain bs where bs: "list_all2 (\<lambda>v b. writeCanonical v = Inr b) vs bs" "b = 91 # commas bs @ [93]"
    by (auto simp: write_array map_eq_map_Inr simp del: writeCanonical.simps)
  have "list_all2 reads (map norm vs) bs"
    unfolding list_all2_map1 using bs(1)
    by (rule list.rel_mono_strong) (use JArray in \<open>auto simp: readable_array simp del: readable.simps\<close>)
  then show ?case using reads_array bs(2) by simp
next
  case (JObject fs)
  then obtain bs where bs: "list_all2 (\<lambda>m b. write_member (fst m, writeCanonical (snd m)) = Inr b) (by_name fs) bs" "b = 123 # commas bs @ [125]"
    by (auto simp: write_object map_eq_map_Inr case_prod_beta' simp del: writeCanonical.simps)
  have ok: "distinct (map fst fs)" "\<forall>m \<in> set fs. utf8_string (fst m) \<and> readable (snd m)" using JObject(2) [unfolded readable_object] by blast+
  have "list_all2 (\<lambda>m. reads_member (map_prod (\<lambda>k. k) norm m)) (by_name fs) bs" using bs(1)
  proof (rule list.rel_mono_strong)
    fix m c assume m: "m \<in> set (by_name fs)" and "c \<in> set bs" and w: "write_member (fst m, writeCanonical (snd m)) = Inr c"
    then obtain d where d: "writeCanonical (snd m) = Inr d" "c = writeCanonicalString (fst m) @ 58 # d" using w by (auto simp: write_member_Inr)
    have "reads (norm (snd m)) d" using JObject(1) [of m "snd m"] m ok(2) d(1) by (cases m) auto
    then show "reads_member (map_prod (\<lambda>k. k) norm m) c" using m ok(2) d(2) by (auto simp: reads_member_def)
  qed
  then have "list_all2 reads_member (by_name (map (map_prod (\<lambda>k. k) norm) fs)) bs" by (simp add: by_name_map list_all2_map1)
  moreover have "distinct (map fst (by_name (map (map_prod (\<lambda>k. k) norm) fs)))"
    using ok(1) by (simp only: names_by_name map_map) (simp add: comp_def)
  ultimately show ?case using reads_object bs(2) by simp
qed

lemma jdepth_norm: "jdepth (norm v) = jdepth v"
proof (induction v)
  case (JArray vs)
  then have "map (jdepth \<circ> norm) vs = map jdepth vs" by simp
  then show ?case by (simp only: norm.simps jdepth.simps map_map)
next
  case (JObject fs)
  have same: "jdepth (JObject (by_name (map (map_prod (\<lambda>k. k) norm) fs))) \<le> Suc n \<longleftrightarrow> jdepth (JObject fs) \<le> Suc n" for n
    unfolding jdepth_le using JObject by (force simp: case_prod_beta' split: prod.splits)
  show ?case using same [of "jdepth (JObject fs) - 1"] same [of "jdepth (JObject (by_name (map (map_prod (\<lambda>k. k) norm) fs))) - 1"]
    by simp
qed simp_all

lemma write_norm: "writeCanonical v = Inr b \<Longrightarrow> writeCanonical (norm v) = Inr b"
proof (induction v arbitrary: b)
  case (JNumber n)
  then show ?case using canonicalNumber_idem by (auto simp: map_sum_Inr)
next
  case (JArray vs)
  then obtain bs where bs: "list_all2 (\<lambda>v b. writeCanonical v = Inr b) vs bs" "b = 91 # commas bs @ [93]"
    by (auto simp: write_array map_eq_map_Inr simp del: writeCanonical.simps)
  have "list_all2 (\<lambda>v b. writeCanonical (norm v) = Inr b) vs bs"
    using bs(1) by (rule list.rel_mono_strong) (use JArray in auto)
  then show ?case using bs(2) by (auto simp: write_array map_eq_map_Inr list_all2_map1 simp del: writeCanonical.simps)
next
  case (JObject fs)
  then obtain bs where bs: "list_all2 (\<lambda>m b. write_member (fst m, writeCanonical (snd m)) = Inr b) (by_name fs) bs" "b = 123 # commas bs @ [125]"
    by (auto simp: write_object map_eq_map_Inr case_prod_beta' simp del: writeCanonical.simps)
  have "list_all2 (\<lambda>m b. write_member (fst m, writeCanonical (norm (snd m))) = Inr b) (by_name fs) bs" using bs(1)
  proof (rule list.rel_mono_strong)
    fix m c assume m: "m \<in> set (by_name fs)" and "c \<in> set bs" and w: "write_member (fst m, writeCanonical (snd m)) = Inr c"
    obtain d where d: "writeCanonical (snd m) = Inr d" "c = writeCanonicalString (fst m) @ 58 # d"
      using w by (auto simp: write_member_Inr)
    have "writeCanonical (norm (snd m)) = Inr d" by (rule JObject(1) [of m]) (use m d(1) in \<open>auto simp: snds.simps\<close>)
    then show "write_member (fst m, writeCanonical (norm (snd m))) = Inr c" by (simp add: write_member_Inr d(2))
  qed
  then show ?case using bs(2)
    by (auto simp: write_object map_eq_map_Inr by_name_map by_name_idem list_all2_map1 case_prod_beta' simp del: writeCanonical.simps)
qed simp_all

section \<open>What the reader makes\<close>

text \<open>A value at a depth, and the frames that are open: their values and names are good, and nest within the limit.\<close>

definition fits :: "nat \<Rightarrow> JSON \<Rightarrow> bool" where
  "fits n v \<longleftrightarrow> readable v \<and> int (n + jdepth v) \<le> maxNestingDepth"

fun frames_ok :: "frame list \<Rightarrow> bool" where
  "frames_ok [] = True"
| "frames_ok (InArray vs # st) = (frames_ok st \<and> int (length st) < maxNestingDepth \<and> (\<forall>v \<in> set vs. fits (Suc (length st)) v))"
| "frames_ok (InObject fs k # st) =
     (frames_ok st \<and> int (length st) < maxNestingDepth \<and> utf8_string k \<and> distinct (map fst fs)
      \<and> (\<forall>m \<in> set fs. utf8_string (fst m) \<and> fits (Suc (length st)) (snd m)))"

lemma read_name_utf8: "read_name s = Some (k, t) \<Longrightarrow> utf8_string k"
  by (auto simp: read_name_def split: list.splits if_splits option.splits dest!: scan_string_result intro!: utf8_of_runes)

lemma read_scalar_fits: "read_scalar s = Some (v, t) \<Longrightarrow> int n \<le> maxNestingDepth \<Longrightarrow> fits n v"
  by (auto simp: read_scalar_def fits_def split: list.splits if_splits option.splits dest!: scan_string_result intro!: utf8_of_runes)

lemma fits_array: "int n < maxNestingDepth \<Longrightarrow> (\<forall>v \<in> set vs. fits (Suc n) v) \<Longrightarrow> fits n (JArray vs)"
proof -
  assume n: "int n < maxNestingDepth" and vs: "\<forall>v \<in> set vs. fits (Suc n) v"
  have "jdepth (JArray vs) \<le> Suc (nat (maxNestingDepth - int n) - 1)" using n vs unfolding jdepth_le by (force simp: fits_def)
  then show "fits n (JArray vs)" using n vs by (auto simp: fits_def readable_array simp del: readable.simps jdepth.simps)
qed

lemma fits_object:
  "int n < maxNestingDepth \<Longrightarrow> distinct (map fst fs) \<Longrightarrow> (\<forall>m \<in> set fs. utf8_string (fst m) \<and> fits (Suc n) (snd m)) \<Longrightarrow> fits n (JObject fs)"
proof -
  assume n: "int n < maxNestingDepth" and d: "distinct (map fst fs)" and fs: "\<forall>m \<in> set fs. utf8_string (fst m) \<and> fits (Suc n) (snd m)"
  have "jdepth (JObject fs) \<le> Suc (nat (maxNestingDepth - int n) - 1)" using n fs unfolding jdepth_le by (force simp: fits_def)
  then show "fits n (JObject fs)" using n d fs by (auto simp: fits_def readable_object simp del: readable.simps jdepth.simps)
qed

lemma put_member_ok:
  assumes "distinct (map fst fs)" "\<forall>m \<in> set fs. P m" "P (k, v)"
  shows "distinct (map fst (put_member k v fs))" "\<forall>m \<in> set (put_member k v fs). P m"
  using assms by (auto simp: put_member_def distinct_map_filter)

lemma frames_depth: "frames_ok st \<Longrightarrow> int (length st) \<le> maxNestingDepth"
  by (cases st rule: frames_ok.cases) (auto simp: maxNestingDepth_def)

lemma read_fits:
  "read_value st s = Some (w, t) \<Longrightarrow> frames_ok st \<Longrightarrow> fits 0 w"
  "read_after st v s = Some (w, t) \<Longrightarrow> frames_ok st \<Longrightarrow> fits (length st) v \<Longrightarrow> fits 0 w"
proof (induction st s and st v s arbitrary: w t and w t rule: read_value_read_after.induct)
  case (1 st s)
  obtain b u where u: "skip_space s = b # u" using "1.prems"(1) by (auto simp: read_value.simps [of st s] split: list.splits)
  consider (array) "b = 91" | (object) "b = 123" | (scalar) "b \<noteq> 91" "b \<noteq> 123" by blast
  then show ?case
  proof cases
    case array
    then have d: "\<not> maxNestingDepth \<le> int (length st)" using "1.prems"(1) u by (auto simp: read_value.simps [of st s] split: if_splits)
    obtain c x where x: "skip_space u = c # x" using "1.prems"(1) u array d by (auto simp: read_value.simps [of st s] split: list.splits)
    have "fits (length st) (JArray [])" using d by (intro fits_array) auto
    then show ?thesis using "1.IH"(1) [OF u array d x] "1.IH"(2) [OF u array d x] "1.prems" u array d x
      by (cases "c = 93") (auto simp: read_value.simps [of st s])
  next
    case object
    then have d: "\<not> maxNestingDepth \<le> int (length st)" using "1.prems"(1) u by (auto simp: read_value.simps [of st s] split: if_splits)
    obtain c x where x: "skip_space u = c # x" using "1.prems"(1) u object d by (auto simp: read_value.simps [of st s] split: list.splits)
    show ?thesis
    proof (cases "c = 125")
      case True
      have "fits (length st) (JObject [])" using d by (intro fits_object) auto
      then show ?thesis using "1.IH"(3) [OF u _ object d x True] "1.prems" u object d x True by (auto simp: read_value.simps [of st s])
    next
      case False
      then obtain k y where k: "read_name (c # x) = Some (k, y)" using "1.prems"(1) u object d x
        by (auto simp: read_value.simps [of st s] split: option.splits)
      then show ?thesis using "1.IH"(4) [OF u _ object d x False k refl] "1.prems" u object d x False read_name_utf8 [OF k]
        by (auto simp: read_value.simps [of st s])
    qed
  next
    case scalar
    then obtain v x where x: "read_scalar (b # u) = Some (v, x)" using "1.prems"(1) u by (auto simp: read_value.simps [of st s] split: option.splits)
    have "fits (length st) v" using read_scalar_fits [OF x] frames_depth [OF "1.prems"(2)] by simp
    then show ?thesis using "1.IH"(5) [OF u scalar x refl] "1.prems" u scalar x by (auto simp: read_value.simps [of st s])
  qed
next
  case (3 vs st v s)
  have arr: "fits (length st) (JArray (vs @ [v]))" using "3.prems" by (intro fits_array) auto
  obtain c x where x: "skip_space s = c # x" using "3.prems"(1) by (auto simp: read_after.simps(2) split: list.splits)
  show ?case
  proof (cases "c = 44")
    case True
    then have "read_value (InArray (vs @ [v]) # st) x = Some (w, t)" using "3.prems"(1) x by (simp add: read_after.simps(2))
    moreover have "frames_ok (InArray (vs @ [v]) # st)" using "3.prems"(2,3) by auto
    ultimately show ?thesis using "3.IH"(1) [OF x True] by blast
  next
    case False
    then have "c = 93" "read_after st (JArray (vs @ [v])) x = Some (w, t)" using "3.prems"(1) x by (auto simp: read_after.simps(2) split: if_splits)
    then show ?thesis using "3.IH"(2) [OF x False] "3.prems"(2) arr by simp
  qed
next
  case (4 fs k st v s)
  let ?P = "\<lambda>m. utf8_string (fst m) \<and> fits (Suc (length st)) (snd m)"
  have P: "distinct (map fst fs)" "\<forall>m \<in> set fs. ?P m" "?P (k, v)" using "4.prems"(2,3) by simp_all
  note ok = put_member_ok [OF P]
  have obj: "fits (length st) (JObject (put_member k v fs))" using "4.prems"(2) ok by (intro fits_object) auto
  obtain c x where x: "skip_space s = c # x" using "4.prems"(1) by (auto simp: read_after.simps(3) split: list.splits)
  show ?case
  proof (cases "c = 44")
    case True
    then obtain n y where n: "read_name (skip_space x) = Some (n, y)" using "4.prems"(1) x by (auto simp: read_after.simps(3) split: option.splits)
    then have "read_value (InObject (put_member k v fs) n # st) y = Some (w, t)" using "4.prems"(1) x True by (simp add: read_after.simps(3))
    moreover have "frames_ok (InObject (put_member k v fs) n # st)" using "4.prems"(2) ok read_name_utf8 [OF n] by simp
    ultimately show ?thesis using "4.IH"(1) [OF x True n refl] by blast
  next
    case False
    then have c: "c = 125" "read_after st (JObject (put_member k v fs)) x = Some (w, t)"
      using "4.prems"(1) x by (simp_all add: read_after.simps(3) split: if_splits)
    show ?thesis using "4.IH"(2) [OF x False c(1) c(2)] "4.prems"(2) obj by simp
  qed
qed simp

section \<open>Properties\<close>

lemma canonicalJSON_Inr:
  assumes "canonicalJSON raw = Inr c"
  obtains v rest where "read_value [] (nats raw) = Some (v, rest)" "writeCanonical v = Inr (nats c)"
    "readable v" "int (jdepth v) \<le> maxNestingDepth"
proof -
  obtain v rest b where v: "read_value [] (nats raw) = Some (v, rest)" "writeCanonical v = Inr b" "c = chars b"
    using assms by (auto simp: canonicalJSON_def map_sum_Inr split: option.splits)
  have "fits 0 v" using read_fits(1) [OF v(1)] by simp
  moreover have "nats c = b" using write_plain [OF v(2)] v(3) by (auto intro!: nats_chars simp: list_all_iff plain_byte_def)
  ultimately show thesis using that v by (simp add: fits_def)
qed

lemma read_canonical:
  assumes "canonicalJSON raw = Inr c" "read_value [] (nats raw) = Some (v, rest)" "stops s"
  shows "read_value [] (nats c @ s) = Some (norm v, s)"
proof -
  obtain w r where w: "read_value [] (nats raw) = Some (w, r)" "writeCanonical w = Inr (nats c)" "readable w" "int (jdepth w) \<le> maxNestingDepth"
    using canonicalJSON_Inr [OF assms(1)] .
  then have "reads (norm w) (nats c)" using write_reads by blast
  then show ?thesis using w(1,4) assms(2,3) by (simp add: reads_def jdepth_norm)
qed

lemma canonical_idem: "canonicalJSON raw = Inr c \<Longrightarrow> canonicalJSON c = Inr c"
proof -
  assume c: "canonicalJSON raw = Inr c"
  obtain v rest where v: "read_value [] (nats raw) = Some (v, rest)" "writeCanonical v = Inr (nats c)" using canonicalJSON_Inr [OF c] .
  show "canonicalJSON c = Inr c"
    using read_canonical [OF c v(1) stops_marks(4)] write_norm [OF v(2)] by (simp add: canonicalJSON_def nats_def chars_def)
qed


text \<open>Members out of order with spaces between them, a name twice, and an escape that is not needed.\<close>

definition example_text :: bytes where
  "example_text = chars ([123, 34, 98, 34, 58, 32, 49, 44] @ [34, 97, 34, 58, 91, 110, 117, 108, 108, 44, 32, 34, 92, 47, 34, 93] @ [44, 34, 98, 34, 58, 45, 48, 125])"

definition example_canonical :: bytes where
  "example_canonical = chars ([123, 34, 97, 34, 58, 91, 110, 117, 108, 108, 44, 34, 47, 34, 93] @ [44, 34, 98, 34, 58, 48, 125])"

lemma read_example:
  "read_value [] (nats example_text) = Some (JObject [(''a'', JArray [JNull, JString ''/'']), (''b'', JNumber ''-0'')], [])"
proof -
  have ascii: "DecodeRune (98 # s) = (98, 1)" "DecodeRune (97 # s) = (97, 1)" for s by (simp_all add: DecodeRune_1)
  have runes: "of_runes [98] = ''b''" "of_runes [97] = ''a''" "of_runes [47] = ''/''"
    by (simp_all add: of_runes_def ascii_encode chars_def char_of_eq_iff)
  have nums: "chars [45, 48] = ''-0''" "chars [49] = ''1''" by (simp_all add: chars_def char_of_eq_iff)
  have "nats example_text = [123, 34, 98, 34, 58, 32, 49, 44, 34, 97, 34, 58, 91, 110, 117, 108, 108, 44, 32, 34, 92, 47, 34, 93, 44, 34, 98, 34, 58, 45, 48, 125]"
    unfolding example_text_def by (subst nats_chars) simp_all
  then show ?thesis
    by (simp add: read_value.simps read_after.simps skip_space_def json_space_def read_name_def read_scalar_def scan_string.simps ascii runes nums
        with_rune_def escaped_def scan_number_def scan_sign_def scan_int_def scan_frac_def scan_exp_def digit_byte_def literal_def nats_def
        put_member_def maxNestingDepth_def)
qed

lemma example_canonicalises: "canonicalJSON example_text = Inr example_canonical"
proof -
  have ascii: "runes [97] = [97]" "runes [98] = [98]" "runes [47] = [47]" by (simp_all add: ascii_runes)
  have "units ''a'' = [97]" "units ''b'' = [98]" by (simp_all add: units_def nats_def ascii utf16_rune_def)
  moreover have "canonicalNumber ''-0'' = Inr ''0''"
    by (simp add: canonicalNumber_def ParseInt_def decimal_of_def numval_def digit_val_def is_digit_def max_exact_def FormatInt_def
        itoa.simps digit_def char_of_eq_iff)
  moreover have "writeCanonicalString ''a'' = [34, 97, 34]" "writeCanonicalString ''b'' = [34, 98, 34]" "writeCanonicalString ''/'' = [34, 47, 34]"
    by (simp_all add: writeCanonicalString_def nats_def ascii escape_rune_def RuneError_def EncodeRune_def valid_rune_def encode_valid_def)
  moreover have "nats ''0'' = [48]" "nats ''null'' = [110, 117, 108, 108]" by (simp_all add: nats_def)
  ultimately show ?thesis
    by (simp add: canonicalJSON_def read_example by_name_def write_member_def example_canonical_def)
qed


text \<open>
  A number that is not an integer, and not a number a \<^const>\<open>float64\<close> holds, is taken for the nearest
  integer where it is large enough: 4503599627370496.3 is written as 4503599627370496, and so has the hash
  of that integer.
\<close>

theorem large_decimal_rounded:
  "canonicalNumber ''4503599627370496.3'' = Inr ''4503599627370496'' \<and> canonicalNumber ''1.5'' = Inl (NotInteger ''1.5'')"
proof
  have p: "ParseInt ''4503599627370496.3'' = None" "ParseInt ''1.5'' = None" by (simp_all add: ParseInt_def is_digit_def)
  have s: "scientific ''4503599627370496.3'' = (False, 45035996273704963, - 1)" "scientific ''1.5'' = (False, 15, - 1)"
    by (simp_all add: scientific_def is_digit_def decimal_of_def numval_def digit_val_def)
  have b: "bits_Len 45035996273704963 = 56" "bits_Len 15 = 4" "bits_Len 10 = 4" by (simp_all add: bits_Len.simps)
  have r: "round_even 45035996273704963 10 = 4503599627370496" "round_even 67553994410557440 10 = 6755399441055744"
    by (simp_all add: round_even_def)
  have f: "float64 45035996273704963 (- 1) = (4503599627370496, 0)" "float64 15 (- 1) = (6755399441055744, - 52)"
    by (simp_all add: float64_def b r)
  have t: "FormatInt 4503599627370496 = ''4503599627370496''" by (simp add: FormatInt_def itoa.simps digit_def char_of_eq_iff)
  show "canonicalNumber ''4503599627370496.3'' = Inr ''4503599627370496''"
    by (simp add: canonicalNumber_def p s f t overflows_def whole_def max_exact_def)
  show "canonicalNumber ''1.5'' = Inl (NotInteger ''1.5'')"
    by (simp add: canonicalNumber_def p s f overflows_def whole_def)
qed

end
