(* ===== verification/Recread.thy ===== *)
theory Recread
  imports Recobj Canonical
begin

text \<open>
  The reading side of \<open>internal/recobj/recobj.go\<close>: an object taken apart into its lines, and a line checked
  against its hash. \<open>decompress\<close> is that of the zstd library. A line is decoded into the struct \<open>Line\<close> as
  \<open>encoding/json\<close> does it: a member is matched to a field without regard to case, a member of no field is
  refused, the hash is a string or null, and the record is kept as its text.

  Shown: what was encoded is decoded into the same lines, each of which verifies, and a line that verifies
  under the hash of a record is that record, unless two texts collide under SHA-256.
\<close>

section \<open>Decoding\<close>

record Line =
  l_Hash :: string
  l_Record :: bytes

text \<open>The members of an object with the text of their values; the input starts after the opening brace.\<close>

function raw_members :: "nat list \<Rightarrow> (string \<times> nat list) list" where
  "raw_members s =
     (case read_name (skip_space s) of
        None \<Rightarrow> []
      | Some (k, t) \<Rightarrow>
          (case read_value [] (skip_space t) of
             None \<Rightarrow> []
           | Some (v, u) \<Rightarrow>
               (k, take (length (skip_space t) - length u) (skip_space t)) #
               (case skip_space u of [] \<Rightarrow> [] | c # w \<Rightarrow> if c = 44 then raw_members w else [])))"
  by pat_completeness auto
termination
proof (relation "measure length", goal_cases)
  case (2 s p k t q v u c w)
  then show ?case
    using length_skip_space [of s] length_skip_space [of t] length_skip_space [of u]
      length_read_name [of "skip_space s" k t] length_read(1) [of "[]" "skip_space t" v u] by simp
qed simp

declare raw_members.simps [simp del]

text \<open>
  Names match without regard to case, as \<open>foldName\<close> has it: of the runes beyond ASCII only two fold to a
  letter.
\<close>

definition fold_rune :: "nat \<Rightarrow> nat" where
  "fold_rune r = (if 65 \<le> r \<and> r \<le> 90 then r + 32 else if r = 383 then 115 else if r = 8490 then 107 else r)"

definition names_field :: "string \<Rightarrow> string \<Rightarrow> bool" where
  "names_field field k \<longleftrightarrow> map fold_rune (runes (nats k)) = nats field"

fun fill_line :: "(string \<times> nat list) list \<Rightarrow> Line \<Rightarrow> bool \<times> Line" where
  "fill_line [] l = (True, l)"
| "fill_line ((k, raw) # ms) l =
     (if names_field ''hash'' k then
        (case read_value [] raw of
           Some (JString h, _) \<Rightarrow> fill_line ms (l\<lparr>l_Hash := h\<rparr>)
         | Some (JNull, _) \<Rightarrow> fill_line ms l
         | _ \<Rightarrow> (False, snd (fill_line ms l)))
      else if names_field ''record'' k then fill_line ms (l\<lparr>l_Record := chars raw\<rparr>)
      else (False, snd (fill_line ms l)))"

definition unmarshal_line :: "JSON \<Rightarrow> nat list \<Rightarrow> bool \<times> Line" where
  "unmarshal_line v row =
     (let empty = \<lparr>l_Hash = [], l_Record = []\<rparr> in
      case v of
        JObject _ \<Rightarrow> fill_line (raw_members (tl (skip_space row))) empty
      | JNull \<Rightarrow> (True, empty)
      | _ \<Rightarrow> (False, empty))"

text \<open>\<open>Decoder.More\<close>: something follows that does not close an array or an object.\<close>

definition decoder_more :: "nat list \<Rightarrow> bool" where
  "decoder_more s = (case skip_space s of [] \<Rightarrow> False | c # _ \<Rightarrow> c \<noteq> 93 \<and> c \<noteq> 125)"

datatype decode_error =
    Decompress string
  | NoLines
  | NoNewline
  | BadLine nat
  | MoreThanOne nat
  | NotHashAndRecord nat

definition decode_row :: "nat \<Rightarrow> bytes \<Rightarrow> decode_error + Line" where
  "decode_row n row =
     (case read_value [] (nats row) of
        None \<Rightarrow> Inl (BadLine n)
      | Some (v, rest) \<Rightarrow>
          (let (ok, l) = unmarshal_line v (nats row)
           in if \<not> ok then Inl (BadLine n)
              else if decoder_more rest then Inl (MoreThanOne n)
              else if l_Hash l = [] \<or> l_Record l = [] then Inl (NotHashAndRecord n)
              else Inr l))"

fun decode_rows :: "nat \<Rightarrow> bytes list \<Rightarrow> decode_error + Line list" where
  "decode_rows n [] = Inr []"
| "decode_rows n (row # rows) =
     (case decode_row n row of
        Inl e \<Rightarrow> Inl e
      | Inr l \<Rightarrow> (case decode_rows (Suc n) rows of Inl e \<Rightarrow> Inl e | Inr ls \<Rightarrow> Inr (l # ls)))"

definition Decode :: "(bytes \<Rightarrow> string + bytes) \<Rightarrow> bytes \<Rightarrow> decode_error + Line list" where
  "Decode decompress stored =
     (case decompress stored of
        Inl e \<Rightarrow> Inl (Decompress e)
      | Inr plain \<Rightarrow>
          if plain = [] then Inl NoLines
          else if last plain \<noteq> newline then Inl NoNewline
          else decode_rows 1 (Split newline (butlast plain)))"

datatype verify_error = RecordNotJSON canon_error | HashMismatch string string

definition Line_Verify :: "Line \<Rightarrow> verify_error option" where
  "Line_Verify l =
     (case canonicalJSON (l_Record l) of
        Inl e \<Rightarrow> Some (RecordNotJSON e)
      | Inr c \<Rightarrow> if Hash c \<noteq> l_Hash l then Some (HashMismatch (l_Hash l) (Hash c)) else None)"

section \<open>A line is read back\<close>

definition simple_byte :: "nat \<Rightarrow> bool" where
  "simple_byte b \<longleftrightarrow> 32 \<le> b \<and> b < 128 \<and> b \<noteq> 34 \<and> b \<noteq> 92"

lemma simple_string:
  assumes "list_all simple_byte (nats s)"
  shows "writeCanonicalString s = 34 # nats s @ [34]" "utf8_string s"
proof -
  have a: "list_all (\<lambda>b. b < 128) (nats s)" using assms by (auto simp: list_all_iff simple_byte_def)
  have "escape_rune b = [b]" if "simple_byte b" for b
    using that by (simp add: simple_byte_def escape_rune_def RuneError_def EncodeRune_def valid_rune_def encode_valid_def)
  then have "concat (map escape_rune bs) = bs" if "list_all simple_byte bs" for bs using that by (induction bs) simp_all
  then show "writeCanonicalString s = 34 # nats s @ [34]" using assms by (simp add: writeCanonicalString_def ascii_runes [OF a])
  show "utf8_string s" by (simp add: utf8_string_def of_runes_def ascii_runes [OF a] ascii_encode [OF a]) (simp add: nats_def chars_def)
qed

lemma hex_simple: "list_all simple_byte (nats (hex_EncodeToString b))"
proof -
  have "\<forall>c \<in> set ''0123456789abcdef''. simple_byte (of_char c)" by (simp add: simple_byte_def)
  moreover have "hex_digit n \<in> set ''0123456789abcdef''" if "0 \<le> n" "n < 16" for n
    unfolding hex_digit_def by (rule nth_mem) (use that in simp)
  ultimately have d: "simple_byte (of_char (hex_digit n))" if "0 \<le> n" "n < 16" for n using that by blast
  have r: "0 \<le> (of_char c :: int)" "(of_char c :: int) < 256" for c by (simp_all add: of_char_def)
  have "of_char c div (16::int) < 16" for c using r [of c] by linarith
  then have "simple_byte (of_char (hex_digit (of_char c div 16)))" "simple_byte (of_char (hex_digit (of_char c mod 16)))" for c
    using d r by (simp_all add: pos_imp_zdiv_nonneg_iff)
  then show ?thesis by (induction b) (simp_all add: hex_EncodeToString_def nats_def)
qed

lemma row_members:
  "nats (EncodeLine c) = 123 # commas [writeCanonicalString ''hash'' @ 58 # writeCanonicalString (Hash c), writeCanonicalString ''record'' @ 58 # nats c] @ [125]"
proof -
  have "writeCanonicalString ''hash'' = 34 # nats ''hash'' @ [34]" "writeCanonicalString ''record'' = 34 # nats ''record'' @ [34]"
    by (rule simple_string; simp add: nats_def simple_byte_def)+
  moreover have "writeCanonicalString (Hash c) = 34 # nats (Hash c) @ [34]" unfolding Hash_def by (rule simple_string) (rule hex_simple)
  ultimately show ?thesis by (simp add: EncodeLine_def nats_def quote_def)
qed

text \<open>A record as the writer has it: canonical, and not nested to the limit.\<close>

definition canonical_record :: "bytes \<Rightarrow> JSON \<Rightarrow> bool" where
  "canonical_record c v \<longleftrightarrow> canonicalJSON c = Inr c \<and> read_value [] (nats c) = Some (v, []) \<and> int (Suc (jdepth v)) \<le> maxNestingDepth"

lemma canonical_recordI:
  assumes "canonicalJSON raw = Inr c" "read_value [] (nats raw) = Some (v, rest)" "int (Suc (jdepth v)) \<le> maxNestingDepth"
  shows "canonical_record c (norm v)"
  using assms read_canonical [OF assms(1,2) stops_marks(4)] canonical_idem [OF assms(1)] by (simp add: canonical_record_def jdepth_norm)

lemma canonical_record_reads:
  assumes "canonical_record c v"
  shows "reads v (nats c)"
proof -
  obtain w r where w: "read_value [] (nats c) = Some (w, r)" "writeCanonical w = Inr (nats c)" "readable w"
    using canonicalJSON_Inr [of c c] assms by (auto simp: canonical_record_def)
  have "norm w = v" using read_canonical [of c c w r "[]"] w assms by (simp add: canonical_record_def)
  then show ?thesis using write_reads [OF w(3,2)] by simp
qed

lemma utf8_names: "utf8_string ''hash''" "utf8_string ''record''" "utf8_string (Hash c)"
proof -
  show "utf8_string ''hash''" "utf8_string ''record''" by (rule simple_string(2); simp add: nats_def simple_byte_def)+
  show "utf8_string (Hash c)" unfolding Hash_def by (rule simple_string(2)) (rule hex_simple)
qed

lemma reads_hash: "reads (JString (Hash c)) (writeCanonicalString (Hash c))"
  using write_reads [of "JString (Hash c)"] utf8_names(3) by simp

lemma reads_alone:
  assumes "reads v b" "int (jdepth v) \<le> maxNestingDepth"
  shows "read_value [] b = Some (v, [])"
proof -
  have "read_value [] (b @ []) = read_after [] v []" using assms unfolding reads_def by (metis list.size(3) plus_nat.add_0 stops_marks(4))
  then show ?thesis by simp
qed

lemma read_row:
  assumes "canonical_record c v"
  shows "read_value [] (nats (EncodeLine c)) = Some (JObject [(''hash'', JString (Hash c)), (''record'', v)], [])"
proof -
  let ?o = "JObject [(''hash'', JString (Hash c)), (''record'', v)]"
  have "reads ?o (nats (EncodeLine c))" unfolding row_members
    by (rule reads_object) (use canonical_record_reads [OF assms] reads_hash utf8_names in \<open>simp_all add: reads_member_def\<close>)
  moreover have "int (jdepth ?o) \<le> maxNestingDepth" using assms by (simp add: canonical_record_def)
  ultimately show ?thesis by (rule reads_alone)
qed

lemma members_row:
  assumes "canonical_record c v"
  shows "raw_members (tl (skip_space (nats (EncodeLine c)))) = [(''hash'', writeCanonicalString (Hash c)), (''record'', nats c)]"
proof -
  have r: "reads v (nats c)" using canonical_record_reads [OF assms] .
  have depth: "int (jdepth v) \<le> maxNestingDepth" "0 \<le> maxNestingDepth" using assms by (simp_all add: canonical_record_def maxNestingDepth_def)
  let ?t = "writeCanonicalString ''record'' @ 58 # nats c @ [125]"
  have h: "read_value [] (writeCanonicalString (Hash c) @ 44 # ?t) = Some (JString (Hash c), 44 # ?t)"
    using reads_hash [of c] depth(2) by (simp add: reads_def)
  have v: "read_value [] (nats c @ [125]) = Some (v, [125])" using r depth(1) by (simp add: reads_def)
  have skip: "skip_space (writeCanonicalString k @ s) = writeCanonicalString k @ s" for k s by (simp add: writeCanonicalString_def)
  have skipc: "skip_space (nats c @ s) = nats c @ s" for s using r by (intro skip_mark) (simp_all add: reads_def)
  have rec: "raw_members ?t = [(''record'', nats c)]"
    using read_written_name [OF utf8_names(2), of "nats c @ [125]"] by (simp add: raw_members.simps [of ?t] skip skipc v)
  show ?thesis
    using read_written_name [OF utf8_names(1), of "writeCanonicalString (Hash c) @ 44 # ?t"]
    by (simp add: row_members raw_members.simps [of "writeCanonicalString ''hash'' @ _"] skip h rec)
qed

lemma decode_row_EncodeLine:
  assumes "canonical_record c v"
  shows "decode_row n (EncodeLine c) = Inr \<lparr>l_Hash = Hash c, l_Record = c\<rparr>"
proof -
  have n: "nats ''hash'' = [104, 97, 115, 104]" "nats ''record'' = [114, 101, 99, 111, 114, 100]" by (simp_all add: nats_def)
  have f: "names_field ''hash'' ''hash''" "\<not> names_field ''hash'' ''record''" "names_field ''record'' ''record''"
    unfolding names_field_def n by (simp_all add: ascii_runes fold_rune_def)
  have h: "read_value [] (writeCanonicalString (Hash c)) = Some (JString (Hash c), [])"
    by (rule reads_alone [OF reads_hash]) (simp add: maxNestingDepth_def)
  have d: "\<not> decoder_more []" by (simp add: decoder_more_def skip_space_def)
  have "length (Hash c) = 64" by (simp add: Hash_def)
  moreover have "c \<noteq> []" using canonical_record_reads [OF assms] by (auto simp: reads_def nats_def)
  moreover have "chars (nats c) = c" by (simp add: nats_def chars_def)
  ultimately show ?thesis
    by (auto simp: decode_row_def read_row [OF assms] unmarshal_line_def members_row [OF assms] f h d)
qed

lemma line_no_newline:
  assumes "canonicalJSON raw = Inr c"
  shows "newline \<notin> set (EncodeLine c)"
proof -
  obtain v where v: "writeCanonical v = Inr (nats c)" using canonicalJSON_Inr [OF assms] by metis
  have c: "list_all plain_byte (nats c)" "list_all plain_byte (writeCanonicalString s)" for s using write_plain [OF v] string_plain by simp_all
  have "list_all plain_byte (nats (EncodeLine c))" unfolding row_members using c by simp
  then show ?thesis by (auto simp: nats_def list_all_iff plain_byte_def newline_def)
qed

lemma plain_of_Join: "ls \<noteq> [] \<Longrightarrow> plain_of ls = Join newline ls @ [newline]"
  by (induction newline ls rule: Join.induct) (simp_all add: plain_of_def)

lemma decode_rows_all:
  "list_all2 (\<lambda>row l. \<forall>n. decode_row n row = Inr l) rows ls \<Longrightarrow> decode_rows n rows = Inr ls"
  by (induction arbitrary: n rule: list_all2_induct) simp_all

text \<open>What an object built from records in canonical form is decoded into.\<close>

lemma Decode_encoded:
  assumes "cs \<noteq> []" "\<And>c. c \<in> set cs \<Longrightarrow> \<exists>v. canonical_record c v"
    "decompress stored = Inr (plain_of (map EncodeLine cs))"
  shows "Decode decompress stored = Inr (map (\<lambda>c. \<lparr>l_Hash = Hash c, l_Record = c\<rparr>) cs)"
proof -
  let ?ls = "map EncodeLine cs"
  have ls: "?ls \<noteq> []" using assms(1) by simp
  have canon: "canonicalJSON c = Inr c" if "c \<in> set cs" for c using assms(2) [OF that] by (auto simp: canonical_record_def)
  have "Split newline (Join newline ?ls) = ?ls" using ls line_no_newline [OF canon] by (intro Split_Join) auto
  moreover have "decode_rows 1 ?ls = Inr (map (\<lambda>c. \<lparr>l_Hash = Hash c, l_Record = c\<rparr>) cs)"
    using assms(2) decode_row_EncodeLine by (intro decode_rows_all) (auto simp: list_all2_map1 list_all2_map2 intro!: list.rel_refl_strong)
  ultimately show ?thesis using assms(3) by (simp add: Decode_def plain_of_Join [OF ls])
qed

section \<open>Properties\<close>

text \<open>
  C7: What an object was built from is what it is taken apart into. The lines of records in canonical
  form, encoded and stored, are decoded into the same records in the same order under their hashes, every
  one of them verifies, and the metadata agrees with the object. Conversely, a line that verifies under
  the hash of a record has that record as its canonical form, or the two collide under SHA-256.
\<close>

theorem object_round_trip:
  assumes "cs \<noteq> []" "\<And>c. c \<in> set cs \<Longrightarrow> \<exists>v. canonical_record c v"
    "decompress (compress (plain_of (map EncodeLine cs))) = Inr (plain_of (map EncodeLine cs))"
    "Encode compress (map EncodeLine cs) = (stored, meta)"
  shows "Decode decompress stored = Inr (map (\<lambda>c. \<lparr>l_Hash = Hash c, l_Record = c\<rparr>) cs)
    \<and> CheckMetadata meta stored (length cs) = []
    \<and> (\<forall>c \<in> set cs. Line_Verify \<lparr>l_Hash = Hash c, l_Record = c\<rparr> = None)
    \<and> (\<forall>c raw. Line_Verify \<lparr>l_Hash = Hash c, l_Record = raw\<rparr> = None \<longrightarrow>
         (\<exists>c'. canonicalJSON raw = Inr c' \<and> (c' = c \<or> collision c' c)))"
proof -
  let ?ls = "map EncodeLine cs"
  have enc: "stored = compress (plain_of ?ls)" "meta = Metadata stored (length cs)" using assms(4) by (auto simp: Encode_def Let_def)
  have canon: "canonicalJSON c = Inr c" if "c \<in> set cs" for c using assms(2) [OF that] by (auto simp: canonical_record_def)
  have "Decode decompress stored = Inr (map (\<lambda>c. \<lparr>l_Hash = Hash c, l_Record = c\<rparr>) cs)"
    using assms(3) by (intro Decode_encoded [OF assms(1,2)]) (simp_all add: enc(1))
  moreover have "CheckMetadata meta stored (length cs) = []" by (simp add: enc(2) CheckMetadata_Metadata)
  moreover have "\<forall>c \<in> set cs. Line_Verify \<lparr>l_Hash = Hash c, l_Record = c\<rparr> = None" using canon by (simp add: Line_Verify_def)
  moreover have "\<exists>c'. canonicalJSON raw = Inr c' \<and> (c' = c \<or> collision c' c)"
    if "Line_Verify \<lparr>l_Hash = Hash c, l_Record = raw\<rparr> = None" for c raw
    using that by (auto simp: Line_Verify_def Hash_def hex_EncodeToString_inj collision_def split: sum.splits if_splits)
  ultimately show ?thesis by blast
qed

theorem object_round_trip_witness:
  "Decode Inr (plain_of [EncodeLine example_canonical]) = Inr [\<lparr>l_Hash = Hash example_canonical, l_Record = example_canonical\<rparr>]"
proof -
  have "canonical_record example_canonical (norm (JObject [(''a'', JArray [JNull, JString ''/'']), (''b'', JNumber ''-0'')]))"
    by (rule canonical_recordI [OF example_canonicalises read_example]) (simp add: maxNestingDepth_def)
  then have "\<exists>v. canonical_record example_canonical v" by blast
  then show ?thesis
    using object_round_trip [of "[example_canonical]" Inr "\<lambda>p. p" "plain_of [EncodeLine example_canonical]" "Metadata (plain_of [EncodeLine example_canonical]) 1"]
    by (simp add: Encode_def Let_def)
qed

end
