(* ===== verification/Preset.thy ===== *)
theory Preset
  imports Gotime
begin

text \<open>
  \<open>preset/preset.go\<close>, \<open>preset/profile.go\<close>, \<open>preset/lock.go\<close> and \<open>preset/deployment.go\<close>: what a framework
  asks of a copy, and the composition of frameworks into a profile. A Go map used as a set of
  strings is a list of its members; a map from categories to treatments is a HOL map.

  Shown: a composed profile keeps every field a framework requires and no field one forbids, treats
  identities at least as strictly as each, asks at least the lock mode, digest and review each asks
  for, and, where every framework keeps copies for a fixed time, keeps them at least as long as each.
  Where a framework that waits for an expiry is named before one with a fixed time, the composition
  does not: \<open>compose_fallback_short\<close>.
\<close>

section \<open>Presets\<close>

type_synonym Treatment = string
type_synonym Category = string
type_synonym Class = string

definition Clear :: Treatment where "Clear = ''clear''"
definition Pseudonym :: Treatment where "Pseudonym = ''pseudonym''"
definition Scoped :: Treatment where "Scoped = ''scoped''"
definition Omit :: Treatment where "Omit = ''omit''"

lemmas treatment_defs = Clear_def Pseudonym_def Scoped_def Omit_def

definition known_treatments :: "(Treatment \<times> nat) list" where
  "known_treatments = [(Clear, 0), (Scoped, 1), (Pseudonym, 2), (Omit, 3)]"

text \<open>A lookup in a Go map gives the zero value where there is no entry.\<close>

definition strictness :: "Treatment \<Rightarrow> nat" where
  "strictness t = (case map_of known_treatments t of Some n \<Rightarrow> n | None \<Rightarrow> 0)"

definition Internal :: Category where "Internal = ''internal''"
definition External :: Category where "External = ''external''"
definition Machine :: Category where "Machine = ''machine''"

definition class_Audit :: Class where "class_Audit = ''audit''"

record Citation =
  ci_Clause :: string
  ci_URL :: string
  ci_Note :: string

record Retention =
  rt_Policy :: string
  rt_Days :: int
  rt_YearsAfterExpiry :: int
  rt_FallbackDays :: int
  rt_HotDays :: int
  rt_Configurable :: bool
  rt_MinimumDays :: int
  rt_PublishedInTerms :: bool
  rt_DeleteAtEnd :: bool
  rt_Note :: string

record Integrity =
  in_Digest :: string
  in_ObjectLockMode :: string
  in_TimestampAnchor :: string
  in_LegalHold :: string
  in_ClockSyncEvent :: string
  in_LogAccessLogged :: bool
  in_Note :: string

record Review =
  rv_AutomatedAlerting :: bool
  rv_Cadence :: string
  rv_Evidence :: string

record Pipeline =
  pl_DedupeWindowDays :: int
  pl_StreamHorizonDays :: int
  pl_CloseAfterHours :: int

record Preset =
  ps_Name :: string
  ps_Framework :: string
  ps_Version :: string
  ps_Summary :: string
  ps_Disclaimer :: string
  ps_Citations :: "Citation list"
  ps_FieldClasses :: "Class list"
  ps_RequiredFields :: "string list"
  ps_OptionalFields :: "string list"
  ps_ForbiddenFields :: "string list"
  ps_ForbiddenPII :: "string list"
  ps_RequiredCategories :: "string list"
  ps_Identity :: "Category \<rightharpoonup> Treatment"
  ps_Retention :: Retention
  ps_Integrity :: Integrity
  ps_Review :: Review
  ps_Pipeline :: Pipeline

definition LockNone :: string where "LockNone = ''none''"
definition LockGovernance :: string where "LockGovernance = ''governance''"
definition LockCompliance :: string where "LockCompliance = ''compliance''"

definition lockOrder :: "string list" where
  "lockOrder = [LockNone, LockGovernance, LockCompliance]"

text \<open>The rank of a value in a list of readings, weakest first; -1 for one that is not listed.\<close>

fun rank_from :: "int \<Rightarrow> string list \<Rightarrow> string \<Rightarrow> int" where
  "rank_from i [] v = -1"
| "rank_from i (x # xs) v = (if v = x then i else rank_from (i + 1) xs v)"

definition LockRank :: "string \<Rightarrow> int" where
  "LockRank mode = rank_from 0 lockOrder mode"

text \<open>\<open>check\<close>: what the meta-schema cannot express. The result is the list of problems.\<close>

datatype preset_problem =
    RequiredAndForbidden string
  | IdentityNotSet Category
  | NotATreatment Category Treatment
  | DaysRequired
  | YearsAfterExpiryRequired
  | FallbackDaysRequired
  | MustCite
  | MustDisclaim

definition is_space :: "char \<Rightarrow> bool" where
  "is_space c \<longleftrightarrow> c \<in> {CHR '' '', CHR 0x09, CHR 0x0A, CHR 0x0B, CHR 0x0C, CHR 0x0D}"

definition TrimSpace :: "string \<Rightarrow> string" where
  "TrimSpace s = rev (dropWhile is_space (rev (dropWhile is_space s)))"

definition check_identity :: "Preset \<Rightarrow> Category \<Rightarrow> preset_problem list" where
  "check_identity p c =
     (case ps_Identity p c of
        None \<Rightarrow> [IdentityNotSet c]
      | Some t \<Rightarrow> if map_of known_treatments t = None then [NotATreatment c t] else [])"

definition check_retention :: "Retention \<Rightarrow> preset_problem list" where
  "check_retention r =
     (if rt_Policy r = ''fixed'' then (if rt_Days r \<le> 0 then [DaysRequired] else [])
      else if rt_Policy r = ''after_expiry'' then
        (if rt_YearsAfterExpiry r \<le> 0 then [YearsAfterExpiryRequired] else [])
        @ (if rt_FallbackDays r \<le> 0 then [FallbackDaysRequired] else [])
      else [])"

definition check :: "Preset \<Rightarrow> preset_problem list" where
  "check p =
     map RequiredAndForbidden (filter (\<lambda>f. f \<in> set (ps_RequiredFields p)) (ps_ForbiddenFields p))
     @ concat (map (check_identity p) [Internal, External, Machine])
     @ check_retention (ps_Retention p)
     @ (if ps_Citations p = [] then [MustCite] else [])
     @ (if TrimSpace (ps_Disclaimer p) = [] then [MustDisclaim] else [])"

text \<open>
  \<open>Load\<close>: the meta-schema and the strict YAML reader are parameters, not of this repository.
\<close>

datatype load_error = SchemaRefused string | YAMLRefused string | PresetProblems string "preset_problem list"

definition Load :: "(bytes \<Rightarrow> string option) \<Rightarrow> (bytes \<Rightarrow> string + Preset) \<Rightarrow> bytes \<Rightarrow> load_error + Preset" where
  "Load validate unmarshal data =
     (case validate data of
        Some e \<Rightarrow> Inl (SchemaRefused e)
      | None \<Rightarrow>
          (case unmarshal data of
             Inl e \<Rightarrow> Inl (YAMLRefused e)
           | Inr p \<Rightarrow> if check p \<noteq> [] then Inl (PresetProblems (ps_Name p) (check p)) else Inr p))"

text \<open>
  \<open>LoadDir\<close> over what the file system returned: each entry's name, whether it is a directory, and the
  result of reading it.
\<close>

datatype dir_error = DirUnreadable string | FileUnreadable string | FileRefused string load_error | DeclaredTwice string

fun load_entries ::
  "(bytes \<Rightarrow> load_error + Preset) \<Rightarrow> (string \<times> bool \<times> (string + bytes)) list \<Rightarrow> (string \<rightharpoonup> Preset) \<Rightarrow> dir_error + (string \<rightharpoonup> Preset)"
where
  "load_entries load [] out = Inr out"
| "load_entries load ((name, dir, content) # rest) out =
     (if dir \<or> \<not> HasSuffix name ''.yaml'' then load_entries load rest out
      else case content of
          Inl e \<Rightarrow> Inl (FileUnreadable e)
        | Inr data \<Rightarrow>
            (case load data of
               Inl e \<Rightarrow> Inl (FileRefused name e)
             | Inr p \<Rightarrow>
                 if out (ps_Name p) \<noteq> None then Inl (DeclaredTwice (ps_Name p))
                 else load_entries load rest (out(ps_Name p \<mapsto> p))))"

definition LoadDir ::
  "(bytes \<Rightarrow> load_error + Preset) \<Rightarrow> string + (string \<times> bool \<times> (string + bytes)) list \<Rightarrow> dir_error + (string \<rightharpoonup> Preset)"
where
  "LoadDir load entries =
     (case entries of
        Inl e \<Rightarrow> Inl (DirUnreadable e)
      | Inr es \<Rightarrow> load_entries load es Map.empty)"

section \<open>Composing a profile\<close>

record Composition =
  co_Name :: string
  co_Presets :: "string list"

record Profile =
  pf_Name :: string
  pf_Presets :: "string list"
  pf_Classes :: "Class list"
  pf_RequiredFields :: "string list"
  pf_OptionalFields :: "string list"
  pf_ForbiddenFields :: "string list"
  pf_ForbiddenPII :: "string list"
  pf_RequiredCategories :: "string list"
  pf_Identity :: "Category \<rightharpoonup> Treatment"
  pf_OpaqueExternal :: bool
  pf_Retention :: Retention
  pf_Integrity :: Integrity
  pf_Review :: Review
  pf_Pipeline :: Pipeline

definition firstNonEmpty :: "string \<Rightarrow> string \<Rightarrow> string" where
  "firstNonEmpty a b = (if a \<noteq> [] then a else b)"

definition stricter :: "string list \<Rightarrow> string \<Rightarrow> string \<Rightarrow> string" where
  "stricter order a b =
     (if rank_from 0 order b > rank_from 0 order a then b
      else if a = [] then b
      else a)"

definition longerRetention :: "Retention \<Rightarrow> Retention \<Rightarrow> Retention" where
  "longerRetention a b =
     (if rt_Policy a = [] then b
      else
        let out =
              (if rt_Policy b = ''after_expiry'' \<and> rt_Policy a \<noteq> ''after_expiry'' then
                 a\<lparr>rt_Policy := rt_Policy b, rt_YearsAfterExpiry := rt_YearsAfterExpiry b,
                   rt_FallbackDays := max (rt_FallbackDays b) (rt_Days a)\<rparr>
               else if rt_Policy b = ''after_expiry'' then
                 a\<lparr>rt_YearsAfterExpiry := max (rt_YearsAfterExpiry a) (rt_YearsAfterExpiry b),
                   rt_FallbackDays := max (rt_FallbackDays a) (rt_FallbackDays b)\<rparr>
               else a);
            out = out\<lparr>rt_Days := max (rt_Days a) (rt_Days b),
                      rt_HotDays := max (rt_HotDays a) (rt_HotDays b),
                      rt_MinimumDays := max (rt_MinimumDays a) (rt_MinimumDays b),
                      rt_PublishedInTerms := (rt_PublishedInTerms a \<or> rt_PublishedInTerms b),
                      rt_DeleteAtEnd := (rt_DeleteAtEnd a \<or> rt_DeleteAtEnd b),
                      rt_Configurable := (rt_Configurable a \<and> rt_Configurable b)\<rparr>
        in if rt_Note out = [] then out\<lparr>rt_Note := rt_Note b\<rparr> else out)"

definition lockNote :: "Integrity \<Rightarrow> Integrity \<Rightarrow> string" where
  "lockNote a b =
     (if LockRank (in_ObjectLockMode b) > LockRank (in_ObjectLockMode a) then in_Note b
      else firstNonEmpty (in_Note a) (in_Note b))"

definition stricterIntegrity :: "Integrity \<Rightarrow> Integrity \<Rightarrow> Integrity" where
  "stricterIntegrity a b =
     \<lparr>in_Digest = stricter [''recommended'', ''required''] (in_Digest a) (in_Digest b),
      in_ObjectLockMode = stricter lockOrder (in_ObjectLockMode a) (in_ObjectLockMode b),
      in_TimestampAnchor = stricter [''none'', ''recommended'', ''required''] (in_TimestampAnchor a) (in_TimestampAnchor b),
      in_LegalHold = stricter [''available'', ''recommended''] (in_LegalHold a) (in_LegalHold b),
      in_ClockSyncEvent = stricter [''none'', ''daily''] (in_ClockSyncEvent a) (in_ClockSyncEvent b),
      in_LogAccessLogged = (in_LogAccessLogged a \<or> in_LogAccessLogged b),
      in_Note = lockNote a b\<rparr>"

definition moreFrequentReview :: "Review \<Rightarrow> Review \<Rightarrow> Review" where
  "moreFrequentReview a b =
     \<lparr>rv_AutomatedAlerting = (rv_AutomatedAlerting a \<or> rv_AutomatedAlerting b),
      rv_Cadence = stricter [''quarterly'', ''monthly'', ''weekly'', ''daily''] (rv_Cadence a) (rv_Cadence b),
      rv_Evidence = firstNonEmpty (rv_Evidence a) (rv_Evidence b)\<rparr>"

definition widerPipeline :: "Pipeline \<Rightarrow> Pipeline \<Rightarrow> Pipeline" where
  "widerPipeline a b =
     \<lparr>pl_DedupeWindowDays = max (pl_DedupeWindowDays a) (pl_DedupeWindowDays b),
      pl_StreamHorizonDays = max (pl_StreamHorizonDays a) (pl_StreamHorizonDays b),
      pl_CloseAfterHours =
        (if pl_CloseAfterHours a = 0 then pl_CloseAfterHours b
         else if pl_CloseAfterHours b = 0 then pl_CloseAfterHours a
         else min (pl_CloseAfterHours a) (pl_CloseAfterHours b))\<rparr>"

definition isUnder :: "string \<Rightarrow> string \<Rightarrow> bool" where
  "isUnder child parent = HasPrefix child (parent @ ''/'')"

datatype profile_error =
    NameRequired
  | NameHasSlash string
  | NoPresetNamed string
  | PresetUnknown string string
  | FieldConflict string "(string \<times> string) list"

text \<open>The zero values a fresh profile starts from.\<close>

definition no_retention :: Retention where
  "no_retention = \<lparr>rt_Policy = [], rt_Days = 0, rt_YearsAfterExpiry = 0, rt_FallbackDays = 0, rt_HotDays = 0,
     rt_Configurable = False, rt_MinimumDays = 0, rt_PublishedInTerms = False, rt_DeleteAtEnd = False, rt_Note = []\<rparr>"

definition no_integrity :: Integrity where
  "no_integrity = \<lparr>in_Digest = [], in_ObjectLockMode = [], in_TimestampAnchor = [], in_LegalHold = [],
     in_ClockSyncEvent = [], in_LogAccessLogged = False, in_Note = []\<rparr>"

definition no_review :: Review where
  "no_review = \<lparr>rv_AutomatedAlerting = False, rv_Cadence = [], rv_Evidence = []\<rparr>"

definition no_pipeline :: Pipeline where
  "no_pipeline = \<lparr>pl_DedupeWindowDays = 0, pl_StreamHorizonDays = 0, pl_CloseAfterHours = 0\<rparr>"

definition new_profile :: "Composition \<Rightarrow> Profile" where
  "new_profile c = \<lparr>pf_Name = co_Name c, pf_Presets = co_Presets c, pf_Classes = [], pf_RequiredFields = [],
     pf_OptionalFields = [], pf_ForbiddenFields = [], pf_ForbiddenPII = [], pf_RequiredCategories = [],
     pf_Identity = Map.empty, pf_OpaqueExternal = False, pf_Retention = no_retention,
     pf_Integrity = no_integrity, pf_Review = no_review, pf_Pipeline = no_pipeline\<rparr>"

definition merge_identity :: "(Category \<rightharpoonup> Treatment) \<Rightarrow> (Category \<rightharpoonup> Treatment) \<Rightarrow> (Category \<rightharpoonup> Treatment)" where
  "merge_identity cur src cat =
     (case src cat of
        None \<Rightarrow> cur cat
      | Some t \<Rightarrow> (case cur cat of
                    None \<Rightarrow> Some t
                  | Some c \<Rightarrow> if strictness t > strictness c then Some t else Some c))"

text \<open>One turn of the loop over the presets; the field lists hold the sets until they are sorted.\<close>

definition add_preset :: "Profile \<Rightarrow> Preset \<Rightarrow> Profile" where
  "add_preset p src =
     p\<lparr>pf_Classes := pf_Classes p @ ps_FieldClasses src,
       pf_RequiredFields := pf_RequiredFields p @ ps_RequiredFields src,
       pf_OptionalFields := pf_OptionalFields p @ ps_OptionalFields src,
       pf_ForbiddenFields := pf_ForbiddenFields p @ ps_ForbiddenFields src,
       pf_ForbiddenPII := pf_ForbiddenPII p @ ps_ForbiddenPII src,
       pf_RequiredCategories := pf_RequiredCategories p @ ps_RequiredCategories src,
       pf_Identity := merge_identity (pf_Identity p) (ps_Identity src),
       pf_Retention := longerRetention (pf_Retention p) (ps_Retention src),
       pf_Integrity := stricterIntegrity (pf_Integrity p) (ps_Integrity src),
       pf_Review := moreFrequentReview (pf_Review p) (ps_Review src),
       pf_Pipeline := widerPipeline (pf_Pipeline p) (ps_Pipeline src)\<rparr>"

fun add_presets :: "(string \<rightharpoonup> Preset) \<Rightarrow> string list \<Rightarrow> Profile \<Rightarrow> profile_error + Profile" where
  "add_presets available [] p = Inr p"
| "add_presets available (name # names) p =
     (case available name of
        None \<Rightarrow> Inl (PresetUnknown (pf_Name p) name)
      | Some src \<Rightarrow> add_presets available names (add_preset p src))"

definition sorted_keys :: "string list \<Rightarrow> string list" where
  "sorted_keys ks = sort (remdups ks)"

definition Compose :: "Composition \<Rightarrow> (string \<rightharpoonup> Preset) \<Rightarrow> profile_error + Profile" where
  "Compose c available =
     (if co_Name c = [] then Inl NameRequired
      else if CHR ''/'' \<in> set (co_Name c) then Inl (NameHasSlash (co_Name c))
      else if co_Presets c = [] then Inl (NoPresetNamed (co_Name c))
      else case add_presets available (co_Presets c) (new_profile c) of
          Inl e \<Rightarrow> Inl e
        | Inr p \<Rightarrow>
            (let required = sorted_keys (pf_RequiredFields p);
                 forbidden = sorted_keys (pf_ForbiddenFields p);
                 problems = filter (\<lambda>(r, f). r = f \<or> isUnder r f) (List.product required forbidden);
                 optional = filter (\<lambda>x. \<not> list_ex (\<lambda>f. x = f \<or> isUnder x f) forbidden) (sorted_keys (pf_OptionalFields p))
             in if problems \<noteq> [] then Inl (FieldConflict (co_Name c) problems)
                else Inr (p\<lparr>pf_RequiredFields := required, pf_OptionalFields := optional,
                            pf_ForbiddenFields := forbidden,
                            pf_RequiredCategories := sorted_keys (pf_RequiredCategories p)\<rparr>)))"

section \<open>What a profile keeps\<close>

definition KeepsField :: "Profile \<Rightarrow> string \<Rightarrow> bool" where
  "KeepsField p pointer =
     (if list_ex (\<lambda>f. pointer = f \<or> isUnder pointer f) (pf_ForbiddenFields p) then False
      else list_ex (\<lambda>f. pointer = f \<or> isUnder pointer f \<or> isUnder f pointer)
             (pf_RequiredFields p @ pf_OptionalFields p))"

definition KeepsProperty :: "Profile \<Rightarrow> Class \<Rightarrow> string \<Rightarrow> bool" where
  "KeepsProperty p cl pii =
     (if pii \<noteq> [] \<and> pii \<in> set (pf_ForbiddenPII p) then False
      else (if cl = [] then class_Audit else cl) \<in> set (pf_Classes p))"

definition RetainUntil :: "Profile \<Rightarrow> time \<Rightarrow> time option \<Rightarrow> time" where
  "RetainUntil p written expiry =
     (let r = pf_Retention p in
      if rt_Policy r = ''after_expiry'' then
        (case expiry of
           Some e \<Rightarrow> AddDate e (rt_YearsAfterExpiry r) 0 0
         | None \<Rightarrow> AddDate written 0 0 (rt_FallbackDays r))
      else let days = (if rt_MinimumDays r > rt_Days r then rt_MinimumDays r else rt_Days r)
           in AddDate written 0 0 days)"

definition Keeps :: "Profile \<Rightarrow> string list" where
  "Keeps p = sorted_keys (pf_RequiredFields p @ pf_OptionalFields p)"

section \<open>Lock modes and deployments\<close>

datatype lock_error =
    NotALockMode string
  | LockTooWeak "(string \<times> string) list" string
  | NotBuiltin string
  | PresetsTooStrict "string list" string "string list"

text \<open>A deployment's profiles, a Go map, are an association list of distinct names.\<close>

definition CheckLockMode :: "(string \<times> Profile) list \<Rightarrow> string \<Rightarrow> lock_error option" where
  "CheckLockMode profiles deployment =
     (if LockRank deployment < 0 then Some (NotALockMode deployment)
      else let names = sort (map fst profiles);
               want = (\<lambda>name. case map_of profiles name of Some p \<Rightarrow> in_ObjectLockMode (pf_Integrity p) | None \<Rightarrow> []);
               weak = filter (\<lambda>name. \<not> (want name = [] \<or> LockRank (want name) \<le> LockRank deployment)) names
           in if weak = [] then None else Some (LockTooWeak (map (\<lambda>name. (name, want name)) weak) deployment))"

definition LockFreePresets :: "(string \<times> Preset) list \<Rightarrow> string \<Rightarrow> string list" where
  "LockFreePresets presets mode =
     sort (map fst (filter (\<lambda>(name, p). LockRank (in_ObjectLockMode (ps_Integrity p)) \<le> LockRank mode) presets))"

fun weaker_presets :: "(string \<times> Preset) list \<Rightarrow> string \<Rightarrow> string list \<Rightarrow> lock_error + string list" where
  "weaker_presets builtin mode [] = Inr []"
| "weaker_presets builtin mode (name # names) =
     (case map_of builtin name of
        None \<Rightarrow> Inl (NotBuiltin name)
      | Some p \<Rightarrow>
          map_sum (\<lambda>e. e) (\<lambda>ws. if LockRank (in_ObjectLockMode (ps_Integrity p)) > LockRank mode then name # ws else ws)
            (weaker_presets builtin mode names))"

definition CheckPresetsLock :: "(string \<times> Preset) list \<Rightarrow> string list \<Rightarrow> string \<Rightarrow> lock_error option" where
  "CheckPresetsLock builtin names deployment =
     (let mode = map to_lower deployment in
      if LockRank mode < 0 then Some (NotALockMode deployment)
      else case weaker_presets builtin mode names of
          Inl e \<Rightarrow> Some e
        | Inr weaker \<Rightarrow>
            if weaker \<noteq> [] then Some (PresetsTooStrict weaker mode (LockFreePresets builtin mode)) else None)"

record Deployment =
  dp_APIVersion :: string
  dp_Profiles :: "(string \<times> string list) list"
  dp_ExternalIdentifiersAreOpaque :: bool

definition relax_external :: "bool \<Rightarrow> Profile \<Rightarrow> Profile" where
  "relax_external opaque p =
     (if opaque \<and> pf_Identity p External = Some Pseudonym
      then p\<lparr>pf_Identity := (pf_Identity p)(External \<mapsto> Clear), pf_OpaqueExternal := True\<rparr>
      else p)"

fun compose_profiles ::
  "(string \<rightharpoonup> Preset) \<Rightarrow> bool \<Rightarrow> (string \<times> string list) list \<Rightarrow> profile_error + (string \<times> Profile) list"
where
  "compose_profiles presets opaque [] = Inr []"
| "compose_profiles presets opaque ((name, names) # rest) =
     (case Compose \<lparr>co_Name = name, co_Presets = names\<rparr> presets of
        Inl e \<Rightarrow> Inl e
      | Inr p \<Rightarrow> map_sum (\<lambda>e. e) (\<lambda>ps. (name, relax_external opaque p) # ps) (compose_profiles presets opaque rest))"

definition Deployment_Compose :: "Deployment \<Rightarrow> (string \<rightharpoonup> Preset) \<Rightarrow> profile_error + (string \<times> Profile) list" where
  "Deployment_Compose d presets = compose_profiles presets (dp_ExternalIdentifiersAreOpaque d) (dp_Profiles d)"

definition DeploymentAPIVersion :: string where
  "DeploymentAPIVersion = ''audit.truvity.github.io/audit-deployment/v2''"

definition DeploymentAPIVersionV1 :: string where
  "DeploymentAPIVersionV1 = ''truvity.github.io/audit-deployment/v1''"

datatype deployment_error = DeploymentYAML string | UnknownAPIVersion string | NoProfiles

definition ParseDeployment :: "(bytes \<Rightarrow> string + Deployment) \<Rightarrow> bytes \<Rightarrow> deployment_error + Deployment" where
  "ParseDeployment unmarshal raw =
     (case unmarshal raw of
        Inl e \<Rightarrow> Inl (DeploymentYAML e)
      | Inr d \<Rightarrow>
          if dp_APIVersion d \<notin> {DeploymentAPIVersion, [], DeploymentAPIVersionV1}
          then Inl (UnknownAPIVersion (dp_APIVersion d))
          else if dp_Profiles d = [] then Inl NoProfiles
          else Inr d)"

definition DefaultDeployment :: "(string \<times> Preset) list \<Rightarrow> Deployment" where
  "DefaultDeployment presets =
     \<lparr>dp_APIVersion = [], dp_Profiles = map (\<lambda>(name, p). (name, [name])) presets, dp_ExternalIdentifiersAreOpaque = False\<rparr>"

section \<open>Requirements that only grow\<close>

text \<open>
  What each part of a preset has in common: a comparison, and a merge that is at least as strict as
  both of its arguments. The composition of any number of presets is then as strict as each.
\<close>

locale requirement =
  fixes weaker :: "'a \<Rightarrow> 'a \<Rightarrow> bool"
    and merge :: "'a \<Rightarrow> 'a \<Rightarrow> 'a"
  assumes weaker_refl: "weaker a a"
    and weaker_trans: "weaker a b \<Longrightarrow> weaker b c \<Longrightarrow> weaker a c"
    and merge_left: "weaker a (merge a b)"
    and merge_right: "weaker b (merge a b)"
begin

lemma foldl_start: "weaker z (foldl merge z xs)"
  by (induction xs arbitrary: z) (auto intro: weaker_refl weaker_trans merge_left)

lemma foldl_each: "x \<in> set xs \<Longrightarrow> weaker x (foldl merge z xs)"
  by (induction xs arbitrary: z) (auto intro: weaker_trans [OF merge_right foldl_start])

end

lemma rank_from_ge: "0 \<le> i \<Longrightarrow> -1 \<le> rank_from i order v"
  by (induction i order v rule: rank_from.induct) auto

lemma rank_from_notin: "v \<notin> set order \<Longrightarrow> rank_from i order v = -1"
  by (induction i order v rule: rank_from.induct) auto

definition rank_le :: "string list \<Rightarrow> string \<Rightarrow> string \<Rightarrow> bool" where
  "rank_le order a b \<longleftrightarrow> rank_from 0 order a \<le> rank_from 0 order b"

text \<open>A value that is not one of the readings ranks below all of them, the empty one among them.\<close>

lemma rank_stricter:
  assumes "[] \<notin> set order"
  shows "rank_from 0 order (stricter order a b) = max (rank_from 0 order a) (rank_from 0 order b)"
  using assms rank_from_ge [of 0 order b] by (auto simp: stricter_def rank_from_notin)

lemma rank_le_stricter:
  "[] \<notin> set order \<Longrightarrow> rank_le order a (stricter order a b)"
  "[] \<notin> set order \<Longrightarrow> rank_le order b (stricter order a b)"
  by (simp_all add: rank_le_def rank_stricter)

lemma rank_le_refl [simp]: "rank_le order a a"
  by (simp add: rank_le_def)

lemma rank_le_trans: "rank_le order a b \<Longrightarrow> rank_le order b c \<Longrightarrow> rank_le order a c"
  by (simp add: rank_le_def)

definition integrity_weaker :: "Integrity \<Rightarrow> Integrity \<Rightarrow> bool" where
  "integrity_weaker a b \<longleftrightarrow>
     rank_le [''recommended'', ''required''] (in_Digest a) (in_Digest b)
     \<and> LockRank (in_ObjectLockMode a) \<le> LockRank (in_ObjectLockMode b)
     \<and> rank_le [''none'', ''recommended'', ''required''] (in_TimestampAnchor a) (in_TimestampAnchor b)
     \<and> rank_le [''available'', ''recommended''] (in_LegalHold a) (in_LegalHold b)
     \<and> rank_le [''none'', ''daily''] (in_ClockSyncEvent a) (in_ClockSyncEvent b)
     \<and> (in_LogAccessLogged a \<longrightarrow> in_LogAccessLogged b)"

lemma lockOrder_nonempty: "[] \<notin> set lockOrder"
  by (simp add: lockOrder_def LockNone_def LockGovernance_def LockCompliance_def)

interpretation integrity: requirement integrity_weaker stricterIntegrity
proof (unfold_locales, goal_cases)
  case (1 a)
  show ?case by (simp add: integrity_weaker_def)
next
  case (2 a b c)
  then show ?case unfolding integrity_weaker_def by (blast intro: rank_le_trans order_trans)
next
  case (3 a b)
  show ?case
    by (simp add: integrity_weaker_def stricterIntegrity_def rank_le_stricter LockRank_def rank_stricter lockOrder_nonempty)
next
  case (4 b a)
  show ?case
    by (simp add: integrity_weaker_def stricterIntegrity_def rank_le_stricter LockRank_def rank_stricter lockOrder_nonempty)
qed

definition review_weaker :: "Review \<Rightarrow> Review \<Rightarrow> bool" where
  "review_weaker a b \<longleftrightarrow> (rv_AutomatedAlerting a \<longrightarrow> rv_AutomatedAlerting b)
     \<and> rank_le [''quarterly'', ''monthly'', ''weekly'', ''daily''] (rv_Cadence a) (rv_Cadence b)"

interpretation review: requirement review_weaker moreFrequentReview
  by unfold_locales
    (auto simp: review_weaker_def moreFrequentReview_def rank_le_stricter intro: rank_le_trans)

definition pipeline_weaker :: "Pipeline \<Rightarrow> Pipeline \<Rightarrow> bool" where
  "pipeline_weaker a b \<longleftrightarrow> pl_DedupeWindowDays a \<le> pl_DedupeWindowDays b
     \<and> pl_StreamHorizonDays a \<le> pl_StreamHorizonDays b
     \<and> (pl_CloseAfterHours a \<noteq> 0 \<longrightarrow> pl_CloseAfterHours b \<noteq> 0 \<and> pl_CloseAfterHours b \<le> pl_CloseAfterHours a)"

interpretation pipeline: requirement pipeline_weaker widerPipeline
  by unfold_locales (auto simp: pipeline_weaker_def widerPipeline_def min_def)

definition identity_weaker :: "(Category \<rightharpoonup> Treatment) \<Rightarrow> (Category \<rightharpoonup> Treatment) \<Rightarrow> bool" where
  "identity_weaker a b \<longleftrightarrow>
     (\<forall>cat t. a cat = Some t \<longrightarrow> (\<exists>t'. b cat = Some t' \<and> strictness t \<le> strictness t'))"

interpretation identity: requirement identity_weaker merge_identity
proof (unfold_locales, goal_cases)
  case (2 a b c)
  then show ?case unfolding identity_weaker_def by (meson order_trans)
qed (auto simp: identity_weaker_def merge_identity_def split: option.splits)

text \<open>A retention with no policy is the zero value a profile starts from.\<close>

definition retention_weaker :: "Retention \<Rightarrow> Retention \<Rightarrow> bool" where
  "retention_weaker a b \<longleftrightarrow> rt_Policy a = [] \<or>
     (rt_Policy b \<noteq> [] \<and> rt_Days a \<le> rt_Days b \<and> rt_HotDays a \<le> rt_HotDays b
      \<and> rt_MinimumDays a \<le> rt_MinimumDays b \<and> (rt_DeleteAtEnd a \<longrightarrow> rt_DeleteAtEnd b)
      \<and> (rt_Policy a = ''after_expiry'' \<longrightarrow> rt_Policy b = ''after_expiry''
           \<and> rt_YearsAfterExpiry a \<le> rt_YearsAfterExpiry b \<and> rt_FallbackDays a \<le> rt_FallbackDays b))"

lemma longerRetention_fields:
  assumes "rt_Policy a \<noteq> []"
  shows "rt_Policy (longerRetention a b) = (if rt_Policy b = ''after_expiry'' then ''after_expiry'' else rt_Policy a)"
    and "rt_Days (longerRetention a b) = max (rt_Days a) (rt_Days b)"
    and "rt_HotDays (longerRetention a b) = max (rt_HotDays a) (rt_HotDays b)"
    and "rt_MinimumDays (longerRetention a b) = max (rt_MinimumDays a) (rt_MinimumDays b)"
    and "rt_DeleteAtEnd (longerRetention a b) = (rt_DeleteAtEnd a \<or> rt_DeleteAtEnd b)"
    and "rt_YearsAfterExpiry (longerRetention a b) =
      (if rt_Policy b \<noteq> ''after_expiry'' then rt_YearsAfterExpiry a
       else if rt_Policy a \<noteq> ''after_expiry'' then rt_YearsAfterExpiry b
       else max (rt_YearsAfterExpiry a) (rt_YearsAfterExpiry b))"
    and "rt_FallbackDays (longerRetention a b) =
      (if rt_Policy b \<noteq> ''after_expiry'' then rt_FallbackDays a
       else if rt_Policy a \<noteq> ''after_expiry'' then max (rt_FallbackDays b) (rt_Days a)
       else max (rt_FallbackDays a) (rt_FallbackDays b))"
  using assms by (simp_all add: longerRetention_def Let_def)

interpretation retention: requirement retention_weaker longerRetention
proof (unfold_locales, goal_cases)
  case (1 a)
  show ?case by (simp add: retention_weaker_def)
next
  case (2 a b c)
  then show ?case unfolding retention_weaker_def by auto
next
  case (3 a b)
  show ?case
    by (cases "rt_Policy a = []") (auto simp: retention_weaker_def longerRetention_fields)
next
  case (4 b a)
  show ?case
  proof (cases "rt_Policy a = []")
    case True
    then have "longerRetention a b = b" by (simp add: longerRetention_def)
    then show ?thesis by (simp add: retention_weaker_def)
  next
    case False
    then show ?thesis by (auto simp: retention_weaker_def longerRetention_fields)
  qed
qed

section \<open>The loop over the presets\<close>

lemma add_presets_Inr:
  "add_presets available names p = Inr q \<longleftrightarrow>
     (\<forall>name \<in> set names. available name \<noteq> None) \<and> q = foldl add_preset p (map (the \<circ> available) names)"
  by (induction names arbitrary: p) (auto split: option.splits)

lemma foldl_add_preset:
  "set (pf_RequiredFields (foldl add_preset p ss)) = set (pf_RequiredFields p) \<union> (\<Union>s \<in> set ss. set (ps_RequiredFields s))"
  "set (pf_OptionalFields (foldl add_preset p ss)) = set (pf_OptionalFields p) \<union> (\<Union>s \<in> set ss. set (ps_OptionalFields s))"
  "set (pf_ForbiddenFields (foldl add_preset p ss)) = set (pf_ForbiddenFields p) \<union> (\<Union>s \<in> set ss. set (ps_ForbiddenFields s))"
  "set (pf_ForbiddenPII (foldl add_preset p ss)) = set (pf_ForbiddenPII p) \<union> (\<Union>s \<in> set ss. set (ps_ForbiddenPII s))"
  "set (pf_Classes (foldl add_preset p ss)) = set (pf_Classes p) \<union> (\<Union>s \<in> set ss. set (ps_FieldClasses s))"
  "set (pf_RequiredCategories (foldl add_preset p ss)) = set (pf_RequiredCategories p) \<union> (\<Union>s \<in> set ss. set (ps_RequiredCategories s))"
  "pf_Identity (foldl add_preset p ss) = foldl merge_identity (pf_Identity p) (map ps_Identity ss)"
  "pf_Retention (foldl add_preset p ss) = foldl longerRetention (pf_Retention p) (map ps_Retention ss)"
  "pf_Integrity (foldl add_preset p ss) = foldl stricterIntegrity (pf_Integrity p) (map ps_Integrity ss)"
  "pf_Review (foldl add_preset p ss) = foldl moreFrequentReview (pf_Review p) (map ps_Review ss)"
  "pf_Pipeline (foldl add_preset p ss) = foldl widerPipeline (pf_Pipeline p) (map ps_Pipeline ss)"
  by (induction ss arbitrary: p) (simp_all add: add_preset_def Un_assoc)

lemma set_sorted_keys [simp]: "set (sorted_keys ks) = set ks"
  by (simp add: sorted_keys_def)

definition forbids :: "Preset list \<Rightarrow> string \<Rightarrow> bool" where
  "forbids ss x \<longleftrightarrow> (\<exists>s \<in> set ss. \<exists>f \<in> set (ps_ForbiddenFields s). x = f \<or> isUnder x f)"

text \<open>A composition that succeeds, taken apart.\<close>

lemma Compose_Inr:
  assumes "Compose c available = Inr p"
  defines "ss \<equiv> map (the \<circ> available) (co_Presets c)"
  shows "\<And>name. name \<in> set (co_Presets c) \<Longrightarrow> available name \<noteq> None"
    and "co_Name c \<noteq> []" "CHR ''/'' \<notin> set (co_Name c)" "pf_Name p = co_Name c"
    and "set (pf_RequiredFields p) = (\<Union>s \<in> set ss. set (ps_RequiredFields s))"
    and "set (pf_ForbiddenFields p) = (\<Union>s \<in> set ss. set (ps_ForbiddenFields s))"
    and "set (pf_OptionalFields p) = {x \<in> (\<Union>s \<in> set ss. set (ps_OptionalFields s)). \<not> forbids ss x}"
    and "\<And>r. r \<in> set (pf_RequiredFields p) \<Longrightarrow> \<not> forbids ss r"
    and "set (pf_ForbiddenPII p) = (\<Union>s \<in> set ss. set (ps_ForbiddenPII s))"
    and "set (pf_Classes p) = (\<Union>s \<in> set ss. set (ps_FieldClasses s))"
    and "set (pf_RequiredCategories p) = (\<Union>s \<in> set ss. set (ps_RequiredCategories s))"
    and "pf_Identity p = foldl merge_identity Map.empty (map ps_Identity ss)"
    and "pf_Retention p = foldl longerRetention no_retention (map ps_Retention ss)"
    and "pf_Integrity p = foldl stricterIntegrity no_integrity (map ps_Integrity ss)"
    and "pf_Review p = foldl moreFrequentReview no_review (map ps_Review ss)"
    and "pf_Pipeline p = foldl widerPipeline no_pipeline (map ps_Pipeline ss)"
proof -
  obtain q where q: "add_presets available (co_Presets c) (new_profile c) = Inr q"
    and n: "co_Name c \<noteq> []" "CHR ''/'' \<notin> set (co_Name c)"
    using assms(1) by (auto simp: Compose_def split: if_splits sum.splits)
  let ?req = "sorted_keys (pf_RequiredFields q)" and ?forb = "sorted_keys (pf_ForbiddenFields q)"
  have none: "filter (\<lambda>(r, f). r = f \<or> isUnder r f) (List.product ?req ?forb) = []"
    and p: "p = q\<lparr>pf_RequiredFields := ?req,
        pf_OptionalFields := filter (\<lambda>x. \<not> list_ex (\<lambda>f. x = f \<or> isUnder x f) ?forb) (sorted_keys (pf_OptionalFields q)),
        pf_ForbiddenFields := ?forb, pf_RequiredCategories := sorted_keys (pf_RequiredCategories q)\<rparr>"
    using assms(1) q n by (auto simp: Compose_def Let_def split: if_splits)
  from q have av: "\<forall>name \<in> set (co_Presets c). available name \<noteq> None" and qf: "q = foldl add_preset (new_profile c) ss"
    unfolding add_presets_Inr ss_def by auto
  note flds = foldl_add_preset [of "new_profile c" ss, folded qf]
  have np: "pf_RequiredFields (new_profile c) = []" "pf_OptionalFields (new_profile c) = []"
    "pf_ForbiddenFields (new_profile c) = []" "pf_ForbiddenPII (new_profile c) = []" "pf_Classes (new_profile c) = []"
    "pf_RequiredCategories (new_profile c) = []" "pf_Identity (new_profile c) = Map.empty"
    "pf_Retention (new_profile c) = no_retention" "pf_Integrity (new_profile c) = no_integrity"
    "pf_Review (new_profile c) = no_review" "pf_Pipeline (new_profile c) = no_pipeline"
    by (simp_all add: new_profile_def)
  have name: "pf_Name (foldl add_preset r xs) = pf_Name r" for r xs
    by (induction xs arbitrary: r) (simp_all add: add_preset_def)
  show "\<And>name. name \<in> set (co_Presets c) \<Longrightarrow> available name \<noteq> None" using av by blast
  show "co_Name c \<noteq> []" "CHR ''/'' \<notin> set (co_Name c)" "pf_Name p = co_Name c"
    using n p name [of "new_profile c" ss] by (simp_all add: qf new_profile_def)
  have fb: "(\<exists>f \<in> set ?forb. x = f \<or> isUnder x f) \<longleftrightarrow> forbids ss x" for x
    by (auto simp: forbids_def flds np)
  show "set (pf_RequiredFields p) = (\<Union>s \<in> set ss. set (ps_RequiredFields s))"
    "set (pf_ForbiddenFields p) = (\<Union>s \<in> set ss. set (ps_ForbiddenFields s))"
    "set (pf_ForbiddenPII p) = (\<Union>s \<in> set ss. set (ps_ForbiddenPII s))"
    "set (pf_Classes p) = (\<Union>s \<in> set ss. set (ps_FieldClasses s))"
    "set (pf_RequiredCategories p) = (\<Union>s \<in> set ss. set (ps_RequiredCategories s))"
    "pf_Identity p = foldl merge_identity Map.empty (map ps_Identity ss)"
    "pf_Retention p = foldl longerRetention no_retention (map ps_Retention ss)"
    "pf_Integrity p = foldl stricterIntegrity no_integrity (map ps_Integrity ss)"
    "pf_Review p = foldl moreFrequentReview no_review (map ps_Review ss)"
    "pf_Pipeline p = foldl widerPipeline no_pipeline (map ps_Pipeline ss)"
    by (simp_all add: p flds np)
  show "set (pf_OptionalFields p) = {x \<in> (\<Union>s \<in> set ss. set (ps_OptionalFields s)). \<not> forbids ss x}"
    unfolding p by (simp add: flds np fb [symmetric] list_ex_iff)
  show "\<not> forbids ss r" if "r \<in> set (pf_RequiredFields p)" for r
    using none that unfolding fb [symmetric] p by (auto simp: filter_empty_conv)
qed

section \<open>Properties\<close>


text \<open>Presets with the requirements of their frameworks and nothing else, for examples.\<close>

definition example_preset :: "string list \<Rightarrow> string list \<Rightarrow> string \<Rightarrow> int \<Rightarrow> int \<Rightarrow> int \<Rightarrow> string \<Rightarrow> Preset" where
  "example_preset req forb policy days years fallback lock =
     \<lparr>ps_Name = ''x'', ps_Framework = ''f'', ps_Version = ''1'', ps_Summary = [], ps_Disclaimer = ''d'',
      ps_Citations = [\<lparr>ci_Clause = ''c'', ci_URL = ''u'', ci_Note = []\<rparr>], ps_FieldClasses = [class_Audit],
      ps_RequiredFields = req, ps_OptionalFields = [''/reason''], ps_ForbiddenFields = forb, ps_ForbiddenPII = [],
      ps_RequiredCategories = [], ps_Identity = [Internal \<mapsto> Clear, External \<mapsto> Pseudonym, Machine \<mapsto> Clear],
      ps_Retention = no_retention\<lparr>rt_Policy := policy, rt_Days := days, rt_YearsAfterExpiry := years, rt_FallbackDays := fallback\<rparr>,
      ps_Integrity = no_integrity\<lparr>in_ObjectLockMode := lock\<rparr>, ps_Review = no_review, ps_Pipeline = no_pipeline\<rparr>"

definition example_presets :: "string \<rightharpoonup> Preset" where
  "example_presets =
     [''security'' \<mapsto> example_preset [''/id'', ''/actor/id''] [] ''fixed'' 365 0 0 ''none'',
      ''billing'' \<mapsto> example_preset [''/id''] [''/context''] ''fixed'' 2557 0 0 ''compliance'',
      ''evidence'' \<mapsto> example_preset [''/id''] [] ''after_expiry'' 0 7 730 ''governance'']"

definition example_profile :: Profile where
  "example_profile =
     (case Compose \<lparr>co_Name = ''p'', co_Presets = [''security'', ''billing'']\<rparr> example_presets of Inr p \<Rightarrow> p)"

lemma example_composes:
  "Compose \<lparr>co_Name = ''p'', co_Presets = [''security'', ''billing'']\<rparr> example_presets = Inr example_profile"
proof -
  have "\<not> isl (Compose \<lparr>co_Name = ''p'', co_Presets = [''security'', ''billing'']\<rparr> example_presets)"
    by code_simp
  then show ?thesis by (auto simp: example_profile_def isl_def split: sum.splits)
qed

lemma example_known:
  "example_presets ''security'' = Some (example_preset [''/id'', ''/actor/id''] [] ''fixed'' 365 0 0 ''none'')"
  "example_presets ''billing'' = Some (example_preset [''/id''] [''/context''] ''fixed'' 2557 0 0 ''compliance'')"
  "example_presets ''evidence'' = Some (example_preset [''/id''] [] ''after_expiry'' 0 7 730 ''governance'')"
  by (simp_all add: example_presets_def)


text \<open>
  C25: What a composed profile keeps: every field a preset requires, nothing a preset forbids nor
  anything beneath it, and otherwise only a field that a preset lists, its ancestors and what is
  beneath it. A field no preset names is dropped.
\<close>

theorem KeepsField_default_deny:
  assumes "Compose c available = Inr p"
  defines "ss \<equiv> map (the \<circ> available) (co_Presets c)"
  shows "(\<forall>s \<in> set ss. \<forall>f \<in> set (ps_RequiredFields s). KeepsField p f)
    \<and> (\<forall>s \<in> set ss. \<forall>f \<in> set (ps_ForbiddenFields s). \<not> KeepsField p f \<and> (\<forall>x. \<not> KeepsField p (f @ ''/'' @ x)))
    \<and> (\<forall>x. KeepsField p x \<longrightarrow> (\<exists>s \<in> set ss. \<exists>f \<in> set (ps_RequiredFields s) \<union> set (ps_OptionalFields s).
         x = f \<or> isUnder x f \<or> isUnder f x))"
proof -
  note C = Compose_Inr [OF assms(1), folded ss_def]
  have keeps: "KeepsField p x \<longleftrightarrow> \<not> forbids ss x \<and>
      (\<exists>f \<in> set (pf_RequiredFields p) \<union> set (pf_OptionalFields p). x = f \<or> isUnder x f \<or> isUnder f x)" for x
    unfolding KeepsField_def list_ex_iff C(6) forbids_def by auto
  show ?thesis
  proof (intro conjI ballI allI impI)
    fix s f assume "s \<in> set ss" "f \<in> set (ps_RequiredFields s)"
    then have "f \<in> set (pf_RequiredFields p)" using C(5) by blast
    with C(8) [OF this] show "KeepsField p f" unfolding keeps by blast
  next
    fix s f assume sf: "s \<in> set ss" "f \<in> set (ps_ForbiddenFields s)"
    then have "forbids ss f" by (auto simp: forbids_def)
    then show "\<not> KeepsField p f" unfolding keeps by blast
    fix x
    have "isUnder (f @ ''/'' @ x) f" using HasPrefix_append [of "f @ ''/''" x] by (simp add: isUnder_def)
    with sf have "forbids ss (f @ ''/'' @ x)" unfolding forbids_def by blast
    then show "\<not> KeepsField p (f @ ''/'' @ x)" unfolding keeps by blast
  next
    fix x assume "KeepsField p x"
    then obtain f where "f \<in> set (pf_RequiredFields p) \<union> set (pf_OptionalFields p)"
      and f: "x = f \<or> isUnder x f \<or> isUnder f x" unfolding keeps by blast
    then obtain s where "s \<in> set ss" "f \<in> set (ps_RequiredFields s) \<union> set (ps_OptionalFields s)"
      unfolding C(5,7) by blast
    with f show "\<exists>s \<in> set ss. \<exists>f \<in> set (ps_RequiredFields s) \<union> set (ps_OptionalFields s).
        x = f \<or> isUnder x f \<or> isUnder f x" by blast
  qed
qed

theorem KeepsField_default_deny_witness:
  "KeepsField example_profile ''/actor/id'' \<and> \<not> KeepsField example_profile ''/context/ip''"
  using KeepsField_default_deny [OF example_composes] by (simp add: example_known example_preset_def)

text \<open>
  Where every preset keeps copies for a fixed number of days, a copy under the composed profile
  is retained at least as long as under each of the presets alone, minimum included, whether or not
  an expiry is known.
\<close>

lemma foldl_fixed_policy:
  "\<forall>r \<in> set rs. rt_Policy r = ''fixed'' \<Longrightarrow> rt_Policy z = ''fixed'' \<or> (rt_Policy z = [] \<and> rs \<noteq> []) \<Longrightarrow>
     rt_Policy (foldl longerRetention z rs) = ''fixed''"
proof (induction rs arbitrary: z)
  case (Cons r rs)
  have "rt_Policy (longerRetention z r) = ''fixed''"
  proof (cases "rt_Policy z = []")
    case True
    then show ?thesis using Cons.prems(1) by (simp add: longerRetention_def)
  next
    case False
    then show ?thesis using Cons.prems by (simp add: longerRetention_fields)
  qed
  with Cons show ?case by simp
qed simp

theorem RetainUntil_fixed:
  assumes "Compose c available = Inr p" "name \<in> set (co_Presets c)" "available name = Some src"
    and "\<forall>n \<in> set (co_Presets c). \<forall>s. available n = Some s \<longrightarrow> rt_Policy (ps_Retention s) = ''fixed''"
  shows "RetainUntil (p\<lparr>pf_Retention := ps_Retention src\<rparr>) written expiry \<le> RetainUntil p written expiry"
proof -
  let ?ss = "map (the \<circ> available) (co_Presets c)"
  have src: "src \<in> set ?ss" using assms(2,3) by force
  note C = Compose_Inr [OF assms(1)]
  have fixed: "\<forall>r \<in> set (map ps_Retention ?ss). rt_Policy r = ''fixed''"
    using assms(4) C(1) by auto
  have "rt_Policy (pf_Retention p) = ''fixed''"
    unfolding C(13) using src by (intro foldl_fixed_policy [OF fixed]) (auto simp: no_retention_def)
  moreover have "retention_weaker (ps_Retention src) (pf_Retention p)"
    unfolding C(13) using src by (intro retention.foldl_each) auto
  moreover have "rt_Policy (ps_Retention src) = ''fixed''" using assms(2-4) by blast
  ultimately show ?thesis
    by (auto simp: RetainUntil_def AddDate_days retention_weaker_def day_ns_def Let_def)
qed

theorem RetainUntil_fixed_witness:
  "RetainUntil (example_profile\<lparr>pf_Retention := ps_Retention (example_preset [''/id''] [''/context''] ''fixed'' 2557 0 0 ''compliance'')\<rparr>) 5 None
   \<le> RetainUntil example_profile 5 None"
proof -
  have "\<forall>n \<in> set (co_Presets \<lparr>co_Name = ''p'', co_Presets = [''security'', ''billing'']\<rparr>). \<forall>s. example_presets n = Some s \<longrightarrow> rt_Policy (ps_Retention s) = ''fixed''"
    by (auto simp: example_known example_preset_def)
  from RetainUntil_fixed [OF example_composes _ example_known(2) this] show ?thesis by simp
qed

text \<open>
  Composed after a preset that waits for an expiry, a preset with a fixed time does not raise the
  fallback, so a copy whose expiry is not known is retained for less than that preset asks; composed
  in the other order it is retained for as long. The composed profile is here weaker than one of its
  frameworks.
\<close>

theorem compose_fallback_short:
  "case (Compose \<lparr>co_Name = ''p'', co_Presets = [''evidence'', ''billing'']\<rparr> example_presets,
         Compose \<lparr>co_Name = ''p'', co_Presets = [''billing'', ''evidence'']\<rparr> example_presets,
         Compose \<lparr>co_Name = ''p'', co_Presets = [''billing'']\<rparr> example_presets) of
     (Inr after_first, Inr fixed_first, Inr billing) \<Rightarrow>
       RetainUntil after_first written None = written + 730 * day_ns
       \<and> RetainUntil fixed_first written None = written + 2557 * day_ns
       \<and> RetainUntil billing written None = written + 2557 * day_ns
   | _ \<Rightarrow> False"
proof -
  have "\<exists>p q r. Compose \<lparr>co_Name = ''p'', co_Presets = [''evidence'', ''billing'']\<rparr> example_presets = Inr p
    \<and> Compose \<lparr>co_Name = ''p'', co_Presets = [''billing'', ''evidence'']\<rparr> example_presets = Inr q
    \<and> Compose \<lparr>co_Name = ''p'', co_Presets = [''billing'']\<rparr> example_presets = Inr r
    \<and> rt_Policy (pf_Retention p) = ''after_expiry'' \<and> rt_FallbackDays (pf_Retention p) = 730
    \<and> rt_Policy (pf_Retention q) = ''after_expiry'' \<and> rt_FallbackDays (pf_Retention q) = 2557
    \<and> rt_Policy (pf_Retention r) = ''fixed'' \<and> rt_Days (pf_Retention r) = 2557 \<and> rt_MinimumDays (pf_Retention r) = 0"
    by (simp add: Compose_def example_known add_preset_def new_profile_def example_preset_def no_retention_def
        longerRetention_def Let_def sorted_keys_def isUnder_def HasPrefix_def)
  then show ?thesis by (elim exE conjE) (simp add: RetainUntil_def AddDate_days)
qed

lemma compose_profiles_Inr:
  assumes "compose_profiles presets opaque decl = Inr ps" "(name, names) \<in> set decl"
  shows "\<exists>p. Compose \<lparr>co_Name = name, co_Presets = names\<rparr> presets = Inr p \<and> (name, relax_external opaque p) \<in> set ps"
  using assms
proof (induction presets opaque decl arbitrary: ps rule: compose_profiles.induct)
  case (2 presets opaque n ns rest)
  from "2.prems"(1) obtain p qs where p: "Compose \<lparr>co_Name = n, co_Presets = ns\<rparr> presets = Inr p"
    and qs: "compose_profiles presets opaque rest = Inr qs" and ps: "ps = (n, relax_external opaque p) # qs"
    by (auto split: sum.splits simp: map_sum_def)
  show ?case
  proof (cases "(name, names) = (n, ns)")
    case True
    then show ?thesis using p ps by auto
  next
    case False
    then show ?thesis using "2.IH" [OF p qs] "2.prems"(2) ps by auto
  qed
qed simp

lemma compose_profiles_names:
  "compose_profiles presets opaque decl = Inr ps \<Longrightarrow> map fst ps = map fst decl"
  by (induction presets opaque decl arbitrary: ps rule: compose_profiles.induct)
    (auto split: sum.splits simp: map_sum_def)

lemma LockRank_Nil: "LockRank [] = -1"
  by (simp add: LockRank_def lockOrder_def LockNone_def LockGovernance_def LockCompliance_def)

text \<open>
  C26: A deployment that composes its profiles and passes the check of its lock mode runs a mode at
  least as strict as every preset of every profile it declares demands.
\<close>

theorem started_deployment_locks:
  assumes "Deployment_Compose d presets = Inr ps" "CheckLockMode ps mode = None"
    and "distinct (map fst (dp_Profiles d))"
    and "(name, names) \<in> set (dp_Profiles d)" "preset \<in> set names" "presets preset = Some src"
  shows "LockRank (in_ObjectLockMode (ps_Integrity src)) \<le> LockRank mode"
proof -
  obtain p where p: "Compose \<lparr>co_Name = name, co_Presets = names\<rparr> presets = Inr p"
    and mem: "(name, relax_external (dp_ExternalIdentifiersAreOpaque d) p) \<in> set ps"
    using compose_profiles_Inr assms(1,4) unfolding Deployment_Compose_def by blast
  have "map fst ps = map fst (dp_Profiles d)"
    using compose_profiles_names assms(1) unfolding Deployment_Compose_def by blast
  then have "map_of ps name = Some (relax_external (dp_ExternalIdentifiersAreOpaque d) p)"
    using assms(3) mem by (intro map_of_is_SomeI) auto
  moreover have "in_ObjectLockMode (pf_Integrity (relax_external x p)) = in_ObjectLockMode (pf_Integrity p)" for x
    by (simp add: relax_external_def)
  ultimately have "LockRank (in_ObjectLockMode (pf_Integrity p)) \<le> LockRank mode"
    using assms(2) mem by (auto simp: CheckLockMode_def Let_def filter_empty_conv LockRank_Nil split: if_splits)
  moreover have "integrity_weaker (ps_Integrity src) (pf_Integrity p)"
  proof -
    have "src \<in> set (map (the \<circ> presets) names)" using assms(5,6) by force
    then show ?thesis
      unfolding Compose_Inr(14) [OF p] by (intro integrity.foldl_each) auto
  qed
  ultimately show ?thesis by (simp add: integrity_weaker_def)
qed

theorem started_deployment_locks_witness:
  "let d = \<lparr>dp_APIVersion = [], dp_Profiles = [(''p'', [''security'', ''billing''])], dp_ExternalIdentifiersAreOpaque = True\<rparr>
   in \<exists>ps. Deployment_Compose d example_presets = Inr ps \<and> CheckLockMode ps ''compliance'' = None
        \<and> LockRank (in_ObjectLockMode (ps_Integrity (the (example_presets ''billing'')))) \<le> LockRank ''compliance''"
proof -
  let ?d = "\<lparr>dp_APIVersion = [], dp_Profiles = [(''p'', [''security'', ''billing''])], dp_ExternalIdentifiersAreOpaque = True\<rparr>"
  have c: "Deployment_Compose ?d example_presets = Inr [(''p'', relax_external True example_profile)]"
    by (simp add: Deployment_Compose_def example_composes)
  have m: "CheckLockMode [(''p'', relax_external True example_profile)] ''compliance'' = None"
    by code_simp
  have "LockRank (in_ObjectLockMode (ps_Integrity (the (example_presets ''billing'')))) \<le> LockRank ''compliance''"
    by (rule started_deployment_locks [OF c m, of "''p''" "[''security'', ''billing'']" "''billing''"])
      (simp_all add: example_known)
  with c m show ?thesis unfolding Let_def by blast
qed

end
