(* ===== verification/Rfc3339.thy ===== *)
theory Rfc3339
  imports Gotime "HOL-Library.Monad_Syntax"
begin

text \<open>
  What the program uses of Go's package \<open>time\<close> to read a moment from text: \<open>time.Parse\<close> under the
  layout RFC 3339, with its liberties: an hour of one digit, a fraction of a second the layout does
  not ask for after a point or a comma, of which nine digits count, and an offset of up to 24 hours
  and 60 minutes.
\<close>

text \<open>\<open>getnum\<close>: one or two digits, two if the width is fixed.\<close>

fun getnum :: "bool \<Rightarrow> string \<Rightarrow> (nat \<times> string) option" where
  "getnum fixed [] = None"
| "getnum fixed [a] = (if is_digit a \<and> \<not> fixed then Some (digit_val a, []) else None)"
| "getnum fixed (a # b # s) =
     (if \<not> is_digit a then None
      else if is_digit b then Some (digit_val a * 10 + digit_val b, s)
      else if fixed then None
      else Some (digit_val a, b # s))"

definition skip :: "char \<Rightarrow> string \<Rightarrow> string option" where
  "skip c s = CutPrefix s [c]"

definition read_year :: "string \<Rightarrow> (nat \<times> string) option" where
  "read_year s =
     (if length s < 4 then None
      else map_option (\<lambda>y. (y, drop 4 s)) (read_digits 0 (take 4 s)))"

definition in_range :: "nat \<Rightarrow> nat \<Rightarrow> (nat \<times> string) option \<Rightarrow> (nat \<times> string) option" where
  "in_range lo hi r = (case r of Some (n, s) \<Rightarrow> if lo \<le> n \<and> n \<le> hi then Some (n, s) else None | None \<Rightarrow> None)"

text \<open>The fraction: its first nine digits, in nanoseconds.\<close>

definition read_fraction :: "string \<Rightarrow> nat \<times> string" where
  "read_fraction s =
     (case s of
        p # d # rest \<Rightarrow>
          if (p = CHR ''.'' \<or> p = CHR '','') \<and> is_digit d then
            (let ds = takeWhile is_digit (d # rest); used = take 9 ds
             in (numval 10 (map digit_val used) * 10 ^ (9 - length used), dropWhile is_digit (d # rest)))
          else (0, s)
      | _ \<Rightarrow> (0, s))"

text \<open>The offset from UTC in seconds.\<close>

definition read_zone :: "string \<Rightarrow> (int \<times> string) option" where
  "read_zone s =
     (case s of
        [] \<Rightarrow> None
      | c # rest \<Rightarrow>
          if c = CHR ''Z'' then Some (0, rest)
          else if length s < 6 \<or> s ! 3 \<noteq> CHR '':'' then None
          else (case (in_range 0 24 (getnum True (take 2 rest)), in_range 0 60 (getnum True (take 2 (drop 3 rest)))) of
                  (Some (hr, x), Some (mm, y)) \<Rightarrow>
                    (let offset = int ((hr * 60 + mm) * 60)
                     in if c = CHR ''+'' then Some (offset, drop 6 s)
                        else if c = CHR ''-'' then Some (- offset, drop 6 s)
                        else None)
                | _ \<Rightarrow> None))"

definition daysIn :: "int \<Rightarrow> int \<Rightarrow> int" where
  "daysIn month year =
     (if month = 2 then 28 + leap_day year else if month \<in> {4, 6, 9, 11} then 30 else 31)"

definition second_ns :: int where "second_ns = 1000000000"

definition ParseRFC3339 :: "string \<Rightarrow> time option" where
  "ParseRFC3339 value = do {
     (year, s) \<leftarrow> read_year value;
     s \<leftarrow> skip (CHR ''-'') s;
     (month, s) \<leftarrow> in_range 1 12 (getnum True s);
     s \<leftarrow> skip (CHR ''-'') s;
     (day, s) \<leftarrow> getnum True s;
     s \<leftarrow> skip (CHR ''T'') s;
     (hour, s) \<leftarrow> in_range 0 23 (getnum False s);
     s \<leftarrow> skip (CHR '':'') s;
     (min, s) \<leftarrow> in_range 0 59 (getnum True s);
     s \<leftarrow> skip (CHR '':'') s;
     (sec, s) \<leftarrow> in_range 0 59 (getnum True s);
     (let (nsec, s) = read_fraction s in do {
        (offset, s) \<leftarrow> read_zone s;
        (if s \<noteq> [] \<or> day < 1 \<or> daysIn (int month) (int year) < int day then None
         else Some (Date (int year) (int month) (int day) (int hour) 0
                    + (int min * 60 + int sec - offset) * second_ns + int nsec)) }) }"

text \<open>Formatting under RFC 3339 in UTC: the fields of a moment, to the second.\<close>

definition Minute :: "time \<Rightarrow> int" where "Minute t = t mod hour_ns div (60 * second_ns)"

definition Second :: "time \<Rightarrow> int" where "Second t = t mod (60 * second_ns) div second_ns"

definition FormatRFC3339 :: "time \<Rightarrow> string" where
  "FormatRFC3339 t = fmt_int 4 (Year t) @ ''-'' @ fmt_int 2 (Month t) @ ''-'' @ fmt_int 2 (Day t) @ ''T''
     @ fmt_int 2 (Hour t) @ '':'' @ fmt_int 2 (Minute t) @ '':'' @ fmt_int 2 (Second t) @ ''Z''"

end
