(* ===== verification/Message.thy ===== *)
theory Message
  imports Utf8
begin

text \<open>
  \<open>sdk/catalogue/message.go\<close>: the names an ICU message template refers to. A template is the list of
  its runes; the loops over an index are recursions over what is left of it. A slice of the template
  is shorter than it, so every walk ends.
\<close>

type_synonym runes_t = "nat list"

definition apostrophe :: nat where "apostrophe = 39"
definition open_brace :: nat where "open_brace = 123"
definition close_brace :: nat where "close_brace = 125"
definition comma :: nat where "comma = 44"

text \<open>
  After an apostrophe: a second one is a literal, else everything up to and with the next is quoted.
  The first component is what was passed over, the second what is left.
\<close>

definition quoted :: "runes_t \<Rightarrow> runes_t \<times> runes_t" where
  "quoted s =
     (if s \<noteq> [] \<and> hd s = apostrophe then ([apostrophe], tl s)
      else (takeWhile (\<lambda>r. r \<noteq> apostrophe) s @ take 1 (dropWhile (\<lambda>r. r \<noteq> apostrophe) s),
            drop 1 (dropWhile (\<lambda>r. r \<noteq> apostrophe) s)))"

lemma quoted_append: "quoted s = (q, r) \<Longrightarrow> s = q @ r"
  by (cases s) (auto simp: quoted_def append_take_drop_id [of 1, simplified] split: if_splits)

lemma length_quoted: "quoted s = (q, r) \<Longrightarrow> length r \<le> length s"
  using quoted_append by fastforce

text \<open>\<open>matchBrace\<close>, from behind the opening brace: what the braces hold and what follows them.\<close>

function matchBrace :: "nat \<Rightarrow> runes_t \<Rightarrow> (runes_t \<times> runes_t) option" where
  "matchBrace depth [] = None"
| "matchBrace depth (c # s) =
     (if c = apostrophe then
        (case quoted s of (q, r) \<Rightarrow> map_option (\<lambda>(inside, rest). (c # q @ inside, rest)) (matchBrace depth r))
      else if c = open_brace then map_option (\<lambda>(inside, rest). (c # inside, rest)) (matchBrace (Suc depth) s)
      else if c = close_brace then
        (if depth = 1 then Some ([], s)
         else map_option (\<lambda>(inside, rest). (c # inside, rest)) (matchBrace (depth - 1) s))
      else map_option (\<lambda>(inside, rest). (c # inside, rest)) (matchBrace depth s))"
  by pat_completeness auto
termination
  by (relation "measure (\<lambda>(depth, s). length s)") (auto simp: less_Suc_eq_le dest!: sym length_quoted)

declare matchBrace.simps(2) [simp del]

lemma matchBrace_append: "matchBrace depth s = Some (inside, rest) \<Longrightarrow> s = inside @ close_brace # rest"
proof (induction depth s arbitrary: inside rest rule: matchBrace.induct)
  case (2 depth c s)
  show ?case
  proof (cases "c = apostrophe")
    case True
    obtain q r where q: "quoted s = (q, r)" by fastforce
    then obtain i where i: "matchBrace depth r = Some (i, rest)" "inside = c # q @ i"
      using 2(5) True by (auto simp: matchBrace.simps(2))
    from 2(1) [OF True q [symmetric] i(1)] show ?thesis using quoted_append [OF q] i(2) by simp
  qed (use 2 in \<open>auto simp: matchBrace.simps(2) split: if_splits\<close>)
qed simp

text \<open>\<open>cutRune\<close>: before and after the first separator outside any braces.\<close>

fun cutRune :: "nat \<Rightarrow> int \<Rightarrow> runes_t \<Rightarrow> runes_t \<times> runes_t option" where
  "cutRune sep depth [] = ([], None)"
| "cutRune sep depth (c # s) =
     (if c = open_brace then map_prod ((#) c) (\<lambda>x. x) (cutRune sep (depth + 1) s)
      else if c = close_brace then map_prod ((#) c) (\<lambda>x. x) (cutRune sep (depth - 1) s)
      else if c = sep \<and> depth = 0 then ([], Some s)
      else map_prod ((#) c) (\<lambda>x. x) (cutRune sep depth s))"

lemma length_cutRune: "cutRune sep depth s = (b, Some a) \<Longrightarrow> length a < length s"
proof (induction sep depth s arbitrary: b rule: cutRune.induct)
  case (2 sep depth c s)
  then show ?case by (cases "cutRune sep (depth + 1) s"; cases "cutRune sep (depth - 1) s"; cases "cutRune sep depth s")
      (fastforce split: if_splits)
qed simp

text \<open>The submessages of the body of a plural or a select, up to one whose brace is not closed.\<close>

function submessages :: "runes_t \<Rightarrow> runes_t list" where
  "submessages [] = []"
| "submessages (c # s) =
     (if c \<noteq> open_brace then submessages s
      else case matchBrace 1 s of
          None \<Rightarrow> []
        | Some (inside, rest) \<Rightarrow> inside # submessages rest)"
  by pat_completeness auto
termination
  by (relation "measure length") (auto dest: matchBrace_append)

lemma length_submessages: "m \<in> set (submessages s) \<Longrightarrow> length m < length s"
proof (induction s rule: submessages.induct)
  case (2 c s)
  show ?case
  proof (cases "c = open_brace")
    case True
    then obtain inside rest where b: "matchBrace 1 s = Some (inside, rest)" and m: "m = inside \<or> m \<in> set (submessages rest)"
      using 2(3) by (cases "matchBrace 1 s") auto
    then show ?thesis using 2(2) [OF _ b refl] True matchBrace_append [OF b] by fastforce
  qed (use 2 in \<open>simp add: less_SucI\<close>)
qed simp

definition IsSpace :: "nat \<Rightarrow> bool" where
  "IsSpace r \<longleftrightarrow> 9 \<le> r \<and> r \<le> 13 \<or> 8192 \<le> r \<and> r \<le> 8202 \<or> r \<in> {32, 133, 160, 5760, 8232, 8233, 8239, 8287, 12288}"

definition trim_runes :: "runes_t \<Rightarrow> runes_t" where
  "trim_runes s = rev (dropWhile IsSpace (rev (dropWhile IsSpace s)))"

definition with_submessages :: "runes_t list" where
  "with_submessages = map nats [''plural'', ''selectordinal'', ''select'', ''choice'']"

text \<open>The arguments in the order the walk meets them, repeats and blanks included.\<close>

function scanMessage :: "runes_t \<Rightarrow> runes_t list"
  and scanArgument :: "runes_t \<Rightarrow> runes_t list" where
  "scanMessage s =
     (case s of
        [] \<Rightarrow> []
      | c # t \<Rightarrow>
          if c = apostrophe then scanMessage (snd (quoted t))
          else if c = open_brace then
            (case matchBrace 1 t of
               None \<Rightarrow> []
             | Some (inside, rest) \<Rightarrow> scanArgument inside @ scanMessage rest)
          else scanMessage t)"
| "scanArgument s =
     (case cutRune comma 0 s of
        (name, None) \<Rightarrow> [name]
      | (name, Some rest) \<Rightarrow>
          name # (case cutRune comma 0 rest of
                    (kind, None) \<Rightarrow> []
                  | (kind, Some body) \<Rightarrow>
                      if trim_runes kind \<in> set with_submessages
                      then concat (map scanMessage (submessages body)) else []))"
  by pat_completeness auto
termination
proof (relation "measure (\<lambda>x. case x of Inl s \<Rightarrow> length s | Inr s \<Rightarrow> length s)", goal_cases)
  case (2 s c t)
  then show ?case using length_quoted [of t] by (cases "quoted t") fastforce
next
  case (3 s c t p inside rest)
  then show ?case using matchBrace_append [of 1 t inside rest] by simp
next
  case (4 s c t p inside rest)
  then show ?case using matchBrace_append [of 1 t inside rest] by simp
next
  case 6
  then show ?case by simp (metis length_cutRune length_submessages order.strict_trans)
qed auto

declare scanMessage.simps [simp del] scanArgument.simps [simp del]

definition MessageArguments :: "string \<Rightarrow> string list" where
  "MessageArguments template =
     map (\<lambda>rs. chars (encode_runes rs))
       (rev (remdups (rev (filter (\<lambda>n. n \<noteq> []) (map trim_runes (scanMessage (runes (nats template))))))))"

end
