(* ===== verification/Catalogue.thy ===== *)
theory Catalogue
  imports Preset Check Rfc3339 Layout Message
begin

text \<open>
  \<open>sdk/catalogue\<close>: what a source declares it emits (\<open>catalogue.go\<close>, \<open>schema.go\<close>, \<open>schemaid.go\<close>), and a
  record held to it (\<open>compose.go\<close>). A Go map is an association list of distinct keys, in the order an
  iteration meets them. A compiled JSON schema is a function of the struct it validates, that of the
  library that compiled it.

  Shown: a record that validates is the one its action declares; the expiry read from a record is
  the latest of those it carries, in whatever order the properties are visited.
\<close>

section \<open>Declarations\<close>

record Property =
  pr_Type :: string
  pr_Class :: Class
  pr_PII :: string
  pr_Facet :: bool
  pr_Filter :: bool
  pr_Sensitive :: string
  pr_Expiry :: bool
  pr_OCSFPath :: string
  pr_ECSPath :: string

record Schema =
  sc_ID :: string
  sc_Raw :: bytes
  sc_Properties :: "(string \<times> Property) list"
  sc_compiled :: "(Struct \<Rightarrow> string option) option"

record ActorKind =
  ak_Category :: Category
  ak_Description :: string
  ak_AttributesSchema :: string

record TargetType =
  tt_Description :: string
  tt_IsPerson :: bool
  tt_AttributesSchema :: string

record MeterDef =
  md_Kind :: string
  md_Unit :: string
  md_Description :: string
  md_DimensionsSchema :: string

record ActionMeter =
  am_Name :: string
  am_QuantityPath :: string
  am_Outcomes :: "string list"

record Action =
  an_Summary :: string
  an_Operation :: string
  an_Categories :: "string list"
  an_Profiles :: "string list"
  an_CaptureLevel :: string
  an_Delivery :: string
  an_TargetTypes :: "string list"
  an_DataSchema :: string
  an_DataVersion :: string
  an_Message :: "(string \<times> string) list"
  an_Meter :: "ActionMeter option"
  an_Extends :: string

record Catalogue =
  cg_Source :: string
  cg_Version :: string
  cg_Locales :: "string list"
  cg_ActorKinds :: "(string \<times> ActorKind) list"
  cg_TargetTypes :: "(string \<times> TargetType) list"
  cg_ContextAreas :: "(string \<times> string) list"
  cg_Meters :: "(string \<times> MeterDef) list"
  cg_Actions :: "(string \<times> Action) list"
  cg_schemas :: "(string \<times> Schema) list"
  cg_document :: bytes

record Composed =
  x_Source :: string
  x_Version :: string
  x_Name :: string
  x_Action :: Action
  x_Data :: "Schema option"
  x_catalogue :: Catalogue

section \<open>Identifiers of schemas, and what a catalogue answers\<close>

definition SchemaBase :: string where
  "SchemaBase = ''https://truvity.github.io/audit/schemas/v1/''"

definition legacySchemaBase :: string where
  "legacySchemaBase = ''https://schemas.truvity.com/audit/v1/''"

definition CanonicalID :: "string \<Rightarrow> string" where
  "CanonicalID ident = (case CutPrefix ident legacySchemaBase of Some rest \<Rightarrow> SchemaBase @ rest | None \<Rightarrow> ident)"

definition Hashes :: "Catalogue \<Rightarrow> string list" where
  "Hashes c = sort (concat (map (\<lambda>(ident, s).
     map (\<lambda>(pointer, p). ident @ pointer) (filter (\<lambda>(pointer, p). pr_Sensitive p = ''hmac'') (sc_Properties s)))
     (cg_schemas c)))"

definition Schemas :: "Catalogue \<Rightarrow> (string \<times> bytes) list" where
  "Schemas c = map (\<lambda>(ident, s). (ident, sc_Raw s)) (cg_schemas c)"

definition Counts :: "ActionMeter option \<Rightarrow> string \<Rightarrow> bool" where
  "Counts m outcome =
     (case m of
        None \<Rightarrow> False
      | Some m \<Rightarrow> if am_Outcomes m = [] then outcome = ''success'' else outcome \<in> set (am_Outcomes m))"

definition Catalogue_Schema :: "Catalogue \<Rightarrow> string \<Rightarrow> Schema option" where
  "Catalogue_Schema c ident = map_of (cg_schemas c) (CanonicalID ident)"

definition ActionNames :: "Catalogue \<Rightarrow> string list" where
  "ActionNames c = sort (map fst (cg_Actions c))"

definition Categories :: "Catalogue \<Rightarrow> string set" where
  "Categories c = (\<Union>(name, a) \<in> set (cg_Actions c). set (an_Categories a))"

definition MissingCategories :: "string \<Rightarrow> string list \<Rightarrow> Catalogue list \<Rightarrow> string list" where
  "MissingCategories profile required catalogues =
     (let covered = concat (map (\<lambda>c. concat (map (\<lambda>(name, a). if profile \<in> set (an_Profiles a) then an_Categories a else [])
        (cg_Actions c))) catalogues)
      in sort (filter (\<lambda>want. want \<notin> set covered) required))"

text \<open>The sort written out in \<open>schema.go\<close>: insertion by swaps towards the front.\<close>

fun sink_back :: "string list \<Rightarrow> string \<Rightarrow> string list" where
  "sink_back [] x = [x]"
| "sink_back (y # ys) x = (if x < y then y # sink_back ys x else x # y # ys)"

text \<open>\<open>sink_back\<close> works on the sorted part reversed, so that its head is the last element.\<close>

definition sortStrings :: "string list \<Rightarrow> string list" where
  "sortStrings s = rev (foldl sink_back [] s)"

definition selected :: "Schema \<Rightarrow> (Property \<Rightarrow> bool) \<Rightarrow> string list" where
  "selected s keep = sortStrings (map fst (filter (\<lambda>(pointer, p). keep p) (sc_Properties s)))"

definition Facets :: "Schema \<Rightarrow> string list" where
  "Facets s = selected s pr_Facet"

definition Filterable :: "Schema \<Rightarrow> string list" where
  "Filterable s = selected s (\<lambda>p. pr_Filter p \<or> pr_Facet p)"

section \<open>One action resolved\<close>

datatype compose_error =
    NoAction string string string
  | ExpiryNotTime string string
  | ExtendsHolds string
  | ExtendsIs string

definition Catalogue_Compose :: "Catalogue \<Rightarrow> string \<Rightarrow> compose_error + Composed" where
  "Catalogue_Compose c action =
     (case map_of (cg_Actions c) action of
        None \<Rightarrow> Inl (NoAction (cg_Source c) (cg_Version c) action)
      | Some a \<Rightarrow>
          Inr \<lparr>x_Source = cg_Source c, x_Version = cg_Version c, x_Name = action, x_Action = a,
               x_Data = (if an_DataSchema a \<noteq> [] then map_of (cg_schemas c) (CanonicalID (an_DataSchema a)) else None),
               x_catalogue = c\<rparr>)"

text \<open>
  A value as \<open>AsMap\<close> gives it: a struct is a map even when it is empty, and a number that is none is
  the text of it.
\<close>

definition as_fields :: "Struct option \<Rightarrow> Struct" where
  "as_fields s = (case s of None \<Rightarrow> [] | Some fs \<Rightarrow> fs)"

definition number_text :: "u64 \<Rightarrow> string option" where
  "number_text w =
     (if take_bit 63 w = 9218868437227405312 then Some (if bit w 63 then ''-Infinity'' else ''Infinity'')
      else if 9218868437227405312 < take_bit 63 w then Some ''NaN''
      else None)"

definition as_string :: "Value \<Rightarrow> string option" where
  "as_string v = (case v of VString s \<Rightarrow> Some s | VNumber w \<Rightarrow> number_text w | _ \<Rightarrow> None)"

fun value_at :: "Value \<Rightarrow> string list \<Rightarrow> Value" where
  "value_at v [] = v"
| "value_at v (step # steps) =
     (case v of
        VStruct fs \<Rightarrow> value_at (case map_of (as_fields fs) step of Some w \<Rightarrow> w | None \<Rightarrow> VNull) steps
      | _ \<Rightarrow> VNull)"

definition dataAt :: "Record \<Rightarrow> string \<Rightarrow> Value" where
  "dataAt r pointer = value_at (VStruct (r_Data r)) (Split (CHR ''/'') (TrimPrefix pointer ''/''))"

fun latest_expiry :: "Record \<Rightarrow> (string \<times> Property) list \<Rightarrow> time option \<Rightarrow> compose_error + time option" where
  "latest_expiry r [] latest = Inr latest"
| "latest_expiry r ((pointer, p) # rest) latest =
     (if \<not> pr_Expiry p then latest_expiry r rest latest
      else case as_string (dataAt r pointer) of
          None \<Rightarrow> latest_expiry r rest latest
        | Some txt \<Rightarrow>
            if txt = [] then latest_expiry r rest latest
            else case ParseRFC3339 txt of
                None \<Rightarrow> Inl (ExpiryNotTime pointer txt)
              | Some at \<Rightarrow>
                  latest_expiry r rest
                    (case latest of None \<Rightarrow> Some at | Some l \<Rightarrow> if l < at then Some at else Some l))"

definition Expiry :: "Composed \<Rightarrow> Record \<Rightarrow> compose_error + time option" where
  "Expiry x r =
     (case x_Data x of
        None \<Rightarrow> Inr None
      | Some s \<Rightarrow> if r_Data r = None then Inr None else latest_expiry r (sc_Properties s) None)"

definition is_nil :: "Value \<Rightarrow> bool" where
  "is_nil v \<longleftrightarrow> v = VNull"

definition Extends :: "Composed \<Rightarrow> Record \<Rightarrow> compose_error + string list" where
  "Extends x r =
     (let pointer = an_Extends (x_Action x) in
      if pointer = [] \<or> r_Data r = None then Inr []
      else let v = dataAt r pointer in
        if is_nil v then Inr []
        else case as_string v of
            Some s \<Rightarrow> Inr (filter (\<lambda>ident. ident \<noteq> []) [s])
          | None \<Rightarrow>
              (case v of
                 VList vs \<Rightarrow>
                   if \<exists>i \<in> set vs. as_string i = None then Inl (ExtendsHolds pointer)
                   else Inr (filter (\<lambda>ident. ident \<noteq> []) (map (the \<circ> as_string) vs))
               | _ \<Rightarrow> Inl (ExtendsIs pointer)))"

section \<open>Categories of people\<close>

definition Composed_Category :: "Composed \<Rightarrow> string \<Rightarrow> Category" where
  "Composed_Category x kind =
     (case map_of (cg_ActorKinds (x_catalogue x)) kind of
        Some k \<Rightarrow> if ak_Category k \<noteq> [] then ak_Category k else External
      | None \<Rightarrow> External)"

definition TargetIsPerson :: "Composed \<Rightarrow> string \<Rightarrow> bool" where
  "TargetIsPerson x targetType =
     (case map_of (cg_TargetTypes (x_catalogue x)) targetType of Some t \<Rightarrow> tt_IsPerson t | None \<Rightarrow> False)"

section \<open>Validating a record\<close>

text \<open>
  \<open>strings.ToUpper\<close>. Two letters outside ASCII have an upper case inside it, the long s and the
  dotless i; every other stays outside, where no name of an enumeration is.
\<close>

definition to_upper :: "char \<Rightarrow> char" where
  "to_upper c = (if CHR ''a'' \<le> c \<and> c \<le> CHR ''z'' then char_of (of_char c - 32 :: nat) else c)"

fun ToUpper :: "string \<Rightarrow> string" where
  "ToUpper (a # b # cs) =
     (if [a, b] = [CHR 0xC5, CHR 0xBF] then CHR ''S'' # ToUpper cs
      else if [a, b] = [CHR 0xC4, CHR 0xB1] then CHR ''I'' # ToUpper cs
      else to_upper a # ToUpper (b # cs))"
| "ToUpper [a] = [to_upper a]"
| "ToUpper [] = []"

definition Operation_value :: "(string \<times> Operation) list" where
  "Operation_value = [(''OPERATION_UNSPECIFIED'', OPERATION_UNSPECIFIED), (''OPERATION_CREATE'', OPERATION_CREATE),
     (''OPERATION_ACCESS'', OPERATION_ACCESS), (''OPERATION_MODIFY'', OPERATION_MODIFY), (''OPERATION_REMOVE'', OPERATION_REMOVE),
     (''OPERATION_AUTHENTICATION'', OPERATION_AUTHENTICATION), (''OPERATION_TRANSFER'', OPERATION_TRANSFER),
     (''OPERATION_RESTORE'', OPERATION_RESTORE)]"

definition Level_value :: "(string \<times> Level) list" where
  "Level_value = [(''LEVEL_UNSPECIFIED'', LEVEL_UNSPECIFIED), (''LEVEL_METADATA'', LEVEL_METADATA),
     (''LEVEL_REQUEST'', LEVEL_REQUEST), (''LEVEL_REQUEST_RESPONSE'', LEVEL_REQUEST_RESPONSE)]"

definition Kind_value :: "(string \<times> MeterKind) list" where
  "Kind_value = [(''KIND_UNSPECIFIED'', KIND_UNSPECIFIED), (''KIND_COUNT'', KIND_COUNT), (''KIND_GAUGE'', KIND_GAUGE)]"

definition operationOf :: "string \<Rightarrow> Operation option" where
  "operationOf name = (if name = [] then None else map_of Operation_value (''OPERATION_'' @ ToUpper name))"

definition captureOf :: "string \<Rightarrow> Level option" where
  "captureOf name = (if name = [] then None else map_of Level_value (''LEVEL_'' @ ToUpper name))"

definition meterKindOf :: "string \<Rightarrow> MeterKind option" where
  "meterKindOf name = (if name = [] then None else map_of Kind_value (''KIND_'' @ ToUpper name))"

fun level_number :: "Level \<Rightarrow> nat" where
  "level_number LEVEL_UNSPECIFIED = 0"
| "level_number LEVEL_METADATA = 1"
| "level_number LEVEL_REQUEST = 2"
| "level_number LEVEL_REQUEST_RESPONSE = 3"

datatype validation_problem =
    WrongSource string string
  | WrongVersion string string
  | WrongAction string string
  | WrongOperation string
  | CapturesMore string
  | MayCarryNoData
  | BadData string
  | ActorKindUndeclared string
  | ActorNoAttributes string
  | ActorSchemaMissing string
  | BadActorAttributes string
  | TargetUndeclared nat string
  | TargetNotOfAction nat string
  | PersonNamed nat string
  | TargetNoAttributes nat string
  | TargetSchemaMissing nat string
  | BadTargetAttributes nat string
  | AreaUndeclared string
  | AreaSchemaMissing string
  | BadArea string string
  | NotMetered
  | MeterMissing string
  | MeterName string string
  | MeterUnit string string
  | MeterKindWrong string
  | BadDimensions string
  | NoDimensions string

definition Schema_Validate :: "Schema \<Rightarrow> Struct \<Rightarrow> string option" where
  "Schema_Validate s v = (case sc_compiled s of None \<Rightarrow> None | Some validate \<Rightarrow> validate v)"

definition schema_problem :: "(string \<Rightarrow> validation_problem) \<Rightarrow> Schema \<Rightarrow> Struct \<Rightarrow> validation_problem list" where
  "schema_problem mk s v = (case Schema_Validate s v of Some e \<Rightarrow> [mk e] | None \<Rightarrow> [])"

definition validateData :: "Composed \<Rightarrow> Record \<Rightarrow> validation_problem list" where
  "validateData x r =
     (case x_Data x of
        None \<Rightarrow> if as_fields (r_Data r) \<noteq> [] then [MayCarryNoData] else []
      | Some s \<Rightarrow> schema_problem BadData s (as_fields (r_Data r)))"

definition validateActor :: "Composed \<Rightarrow> Record \<Rightarrow> validation_problem list" where
  "validateActor x r =
     (case r_Actor r of
        None \<Rightarrow> []
      | Some a \<Rightarrow>
          if ac_Kind a = [] then []
          else case map_of (cg_ActorKinds (x_catalogue x)) (ac_Kind a) of
              None \<Rightarrow> [ActorKindUndeclared (ac_Kind a)]
            | Some kind \<Rightarrow>
                if ak_AttributesSchema kind = []
                then (if as_fields (ac_Attributes a) \<noteq> [] then [ActorNoAttributes (ac_Kind a)] else [])
                else case Catalogue_Schema (x_catalogue x) (ak_AttributesSchema kind) of
                    None \<Rightarrow> [ActorSchemaMissing (ac_Kind a)]
                  | Some s \<Rightarrow> schema_problem BadActorAttributes s (as_fields (ac_Attributes a)))"

definition validate_target :: "Composed \<Rightarrow> nat \<Rightarrow> Target \<Rightarrow> validation_problem list" where
  "validate_target x i t =
     (case map_of (cg_TargetTypes (x_catalogue x)) (ta_Type t) of
        None \<Rightarrow> [TargetUndeclared i (ta_Type t)]
      | Some declared \<Rightarrow>
          (if an_TargetTypes (x_Action x) \<noteq> [] \<and> ta_Type t \<notin> set (an_TargetTypes (x_Action x))
           then [TargetNotOfAction i (ta_Type t)] else [])
          @ (if tt_IsPerson declared \<and> ta_Name t \<noteq> [] then [PersonNamed i (ta_Type t)] else [])
          @ (if tt_AttributesSchema declared = []
             then (if as_fields (ta_Attributes t) \<noteq> [] then [TargetNoAttributes i (ta_Type t)] else [])
             else case Catalogue_Schema (x_catalogue x) (tt_AttributesSchema declared) of
                 None \<Rightarrow> [TargetSchemaMissing i (tt_AttributesSchema declared)]
               | Some s \<Rightarrow> schema_problem (BadTargetAttributes i) s (as_fields (ta_Attributes t))))"

definition validateTargets :: "Composed \<Rightarrow> Record \<Rightarrow> validation_problem list" where
  "validateTargets x r = concat (map (\<lambda>(i, t). validate_target x i t) (zip [0..<length (r_Targets r)] (r_Targets r)))"

definition validate_area :: "Composed \<Rightarrow> string \<times> Struct \<Rightarrow> validation_problem list" where
  "validate_area x av =
     (case map_of (cg_ContextAreas (x_catalogue x)) (fst av) of
        None \<Rightarrow> [AreaUndeclared (fst av)]
      | Some ident \<Rightarrow>
          (case Catalogue_Schema (x_catalogue x) ident of
             None \<Rightarrow> [AreaSchemaMissing (fst av)]
           | Some s \<Rightarrow> schema_problem (BadArea (fst av)) s (snd av)))"

definition validateContext :: "Composed \<Rightarrow> Record \<Rightarrow> validation_problem list" where
  "validateContext x r =
     (case r_Context r of None \<Rightarrow> [] | Some c \<Rightarrow> concat (map (validate_area x) (cx_Areas c)))"

definition no_meter :: MeterDef where
  "no_meter = \<lparr>md_Kind = [], md_Unit = [], md_Description = [], md_DimensionsSchema = []\<rparr>"

definition validateMeter :: "Composed \<Rightarrow> Record \<Rightarrow> validation_problem list" where
  "validateMeter x r =
     (case (an_Meter (x_Action x), r_Meter r) of
        (None, None) \<Rightarrow> []
      | (None, Some carried) \<Rightarrow> [NotMetered]
      | (Some declared, None) \<Rightarrow> [MeterMissing (am_Name declared)]
      | (Some declared, Some carried) \<Rightarrow>
          let m = (case map_of (cg_Meters (x_catalogue x)) (am_Name declared) of Some m \<Rightarrow> m | None \<Rightarrow> no_meter) in
          (if me_Name carried \<noteq> am_Name declared then [MeterName (me_Name carried) (am_Name declared)] else [])
          @ (if md_Unit m \<noteq> [] \<and> me_Unit carried \<noteq> md_Unit m then [MeterUnit (md_Unit m) (me_Unit carried)] else [])
          @ (case meterKindOf (md_Kind m) of
               Some want \<Rightarrow> if me_Kind carried \<noteq> want then [MeterKindWrong (am_Name declared)] else []
             | None \<Rightarrow> [])
          @ (if md_DimensionsSchema m \<noteq> []
             then (case Catalogue_Schema (x_catalogue x) (md_DimensionsSchema m) of
                     Some s \<Rightarrow> schema_problem BadDimensions s (as_fields (me_Dimensions carried))
                   | None \<Rightarrow> [])
             else if as_fields (me_Dimensions carried) \<noteq> [] then [NoDimensions (am_Name declared)] else []))"

definition captured :: "Record \<Rightarrow> Level" where
  "captured r = (case r_Capture r of None \<Rightarrow> LEVEL_UNSPECIFIED | Some c \<Rightarrow> ca_Level c)"

definition Validate :: "Composed \<Rightarrow> Record \<Rightarrow> validation_problem list" where
  "Validate x r =
     (if r_Source r \<noteq> x_Source x then [WrongSource (r_Source r) (x_Source x)] else [])
     @ (if r_CatalogueVersion r \<noteq> x_Version x then [WrongVersion (r_CatalogueVersion r) (x_Version x)] else [])
     @ (if r_Action r \<noteq> x_Name x then [WrongAction (r_Action r) (x_Name x)] else [])
     @ (case operationOf (an_Operation (x_Action x)) of
          Some want \<Rightarrow> if r_Operation r \<noteq> want then [WrongOperation (an_Operation (x_Action x))] else []
        | None \<Rightarrow> [])
     @ (case captureOf (an_CaptureLevel (x_Action x)) of
          Some level \<Rightarrow> if level_number level < level_number (captured r) then [CapturesMore (an_CaptureLevel (x_Action x))] else []
        | None \<Rightarrow> [])
     @ validateData x r @ validateActor x r @ validateTargets x r @ validateContext x r @ validateMeter x r"

section \<open>Indexing a schema\<close>

text \<open>
  A property's subschema as its JSON decodes: its annotations, the subschemas of its properties, and
  those of the properties of its items. A subschema that does not decode is the error.
\<close>

datatype PropertyDoc =
  PropertyDoc (doc_property: Property) (doc_properties: "(string \<times> (string + PropertyDoc)) list")
    (doc_items: "(string \<times> (string + PropertyDoc)) list")

datatype schema_error = TooDeep string | NotDecoded string string | MetaSchema string | NotJSON string | NotCompiled string string

definition maxDepth :: nat where "maxDepth = 3"

definition set_property :: "(string \<times> Property) list \<Rightarrow> string \<Rightarrow> Property \<Rightarrow> (string \<times> Property) list" where
  "set_property ps pointer p = (pointer, p) # filter (\<lambda>q. fst q \<noteq> pointer) ps"

function index_property :: "string \<Rightarrow> string + PropertyDoc \<Rightarrow> nat \<Rightarrow> (string \<times> Property) list \<Rightarrow> schema_error + (string \<times> Property) list"
  and index_all :: "string \<Rightarrow> (string \<times> (string + PropertyDoc)) list \<Rightarrow> nat \<Rightarrow> (string \<times> Property) list \<Rightarrow> schema_error + (string \<times> Property) list"
where
  "index_property pointer raw depth ps =
     (if maxDepth < depth then Inl (TooDeep pointer)
      else case raw of
          Inl e \<Rightarrow> Inl (NotDecoded pointer e)
        | Inr doc \<Rightarrow>
            (case index_all pointer (doc_properties doc) (depth + 1) (set_property ps pointer (doc_property doc)) of
               Inl e \<Rightarrow> Inl e
             | Inr ps' \<Rightarrow> index_all pointer (doc_items doc) (depth + 1) ps'))"
| "index_all pointer [] depth ps = Inr ps"
| "index_all pointer ((name, sub) # rest) depth ps =
     (case index_property (pointer @ ''/'' @ name) sub depth ps of
        Inl e \<Rightarrow> Inl e
      | Inr ps' \<Rightarrow> index_all pointer rest depth ps')"
  by pat_completeness auto
termination
  by (relation "inv_image (less_than <*lex*> less_than)
       (\<lambda>x. case x of Inl (pointer, raw, depth, ps) \<Rightarrow> (maxDepth + 1 - depth, 0)
                    | Inr (pointer, subs, depth, ps) \<Rightarrow> (maxDepth + 1 - depth, Suc (length subs)))") auto

declare index_property.simps [simp del]

record SchemaDoc =
  sd_ID :: string
  sd_Properties :: "(string \<times> (string + PropertyDoc)) list"

text \<open>
  \<open>LoadSchema\<close> over the meta-schema, the JSON reader and the schema compiler.
\<close>

definition LoadSchema ::
  "(bytes \<Rightarrow> string option) \<Rightarrow> (bytes \<Rightarrow> string + SchemaDoc) \<Rightarrow> (string \<Rightarrow> bytes \<Rightarrow> string + (Struct \<Rightarrow> string option)) \<Rightarrow> bytes \<Rightarrow> schema_error + Schema"
where
  "LoadSchema metaschema unmarshal compile raw =
     (case metaschema raw of
        Some e \<Rightarrow> Inl (MetaSchema e)
      | None \<Rightarrow>
          (case unmarshal raw of
             Inl e \<Rightarrow> Inl (NotJSON e)
           | Inr doc \<Rightarrow>
               (case compile (sd_ID doc) raw of
                  Inl e \<Rightarrow> Inl (NotCompiled (sd_ID doc) e)
                | Inr compiled \<Rightarrow>
                    map_sum (\<lambda>e. e) (\<lambda>ps. \<lparr>sc_ID = sd_ID doc, sc_Raw = raw, sc_Properties = ps, sc_compiled = Some compiled\<rparr>)
                      (index_all [] (sd_Properties doc) 1 []))))"

section \<open>Checking a catalogue\<close>

datatype cat_problem =
    SchemaNotSupplied string string
  | BadCategory string string
  | BadMeterKind string string
  | OutsideNamespace string
  | TargetTypeUnknown string string
  | ExtendsNoSchema string
  | ExtendsUndeclared string string
  | ExtendsNotIdentifier string string
  | ExtendsNoExpiry string
  | MeterUndeclared string string
  | GaugeNoQuantity string string
  | NoMessage string string
  | DottedArgument string string string
  | UnknownArgument string string string
  | ArgumentCollision string string string
  | SchemaUnreferenced string

definition useSchema :: "Catalogue \<Rightarrow> string \<Rightarrow> string \<Rightarrow> cat_problem list" where
  "useSchema c where' ident =
     (if ident = [] then []
      else if Catalogue_Schema c ident = None then [SchemaNotSupplied where' ident] else [])"

definition checkExtends :: "Catalogue \<Rightarrow> string \<Rightarrow> Action \<Rightarrow> cat_problem list" where
  "checkExtends c name a =
     (case Catalogue_Schema c (an_DataSchema a) of
        None \<Rightarrow> [ExtendsNoSchema name]
      | Some s \<Rightarrow>
          (case map_of (sc_Properties s) (an_Extends a) of
             None \<Rightarrow> [ExtendsUndeclared name (an_Extends a)]
           | Some p \<Rightarrow> if pr_Type p \<noteq> ''string'' \<and> pr_Type p \<noteq> ''array'' then [ExtendsNotIdentifier name (an_Extends a)] else [])
          @ (if \<not> (\<exists>q \<in> set (sc_Properties s). pr_Expiry (snd q)) then [ExtendsNoExpiry name] else []))"

definition DataArgument :: "string \<Rightarrow> string" where
  "DataArgument pointer = ''data'' @ map (\<lambda>ch. if ch = CHR ''/'' then CHR ''_'' else ch) pointer"

definition core_arguments :: "string list" where
  "core_arguments = [''id'', ''source'', ''action'', ''operation'', ''tenant'', ''profile'', ''actor'', ''actor_id'', ''actor_kind'',
     ''subject'', ''subject_id'', ''subject_kind'', ''outcome'', ''outcome_result'', ''outcome_reason'', ''outcome_code'',
     ''observer_id'', ''observer_instance'', ''occurred_at'', ''recorded_at'']"

definition messageArguments :: "Catalogue \<Rightarrow> Action \<Rightarrow> string list" where
  "messageArguments c a =
     core_arguments
     @ concat (map (\<lambda>i. map (\<lambda>part. ''targets_'' @ itoa i @ ''_'' @ part) [''id'', ''name'', ''type'']) [0, 1, 2, 3])
     @ (case Catalogue_Schema c (an_DataSchema a) of Some s \<Rightarrow> map (DataArgument \<circ> fst) (sc_Properties s) | None \<Rightarrow> [])
     @ (if an_Meter a \<noteq> None then [''meter_quantity'', ''meter_unit'', ''meter_name''] else [])"

definition check_argument :: "Catalogue \<Rightarrow> string \<Rightarrow> Action \<Rightarrow> string \<Rightarrow> string \<Rightarrow> cat_problem list" where
  "check_argument c name a loc arg =
     (if arg \<in> set (messageArguments c a) then []
      else if CHR ''.'' \<in> set arg then [DottedArgument name loc arg]
      else [UnknownArgument name loc arg])"

definition check_message :: "Catalogue \<Rightarrow> string \<Rightarrow> Action \<Rightarrow> string \<Rightarrow> cat_problem list" where
  "check_message c name a loc =
     (case map_of (an_Message a) loc of
        None \<Rightarrow> [NoMessage name loc]
      | Some template \<Rightarrow>
          if trim_runes (runes (nats template)) = [] then [NoMessage name loc]
          else concat (map (check_argument c name a loc) (MessageArguments template)))"

fun collisions :: "string \<Rightarrow> string list \<Rightarrow> (string \<times> string) list \<Rightarrow> cat_problem list" where
  "collisions name [] seen = []"
| "collisions name (pointer # rest) seen =
     (case map_of seen (DataArgument pointer) of
        Some other \<Rightarrow> ArgumentCollision name other pointer # collisions name rest seen
      | None \<Rightarrow> collisions name rest ((DataArgument pointer, pointer) # seen))"

definition argumentCollisions :: "Catalogue \<Rightarrow> string \<Rightarrow> Action \<Rightarrow> cat_problem list" where
  "argumentCollisions c name a =
     (case Catalogue_Schema c (an_DataSchema a) of
        None \<Rightarrow> []
      | Some s \<Rightarrow> collisions name (sort (map fst (sc_Properties s))) [])"

definition checkMessages :: "Catalogue \<Rightarrow> string \<Rightarrow> Action \<Rightarrow> cat_problem list" where
  "checkMessages c name a =
     concat (map (check_message c name a) (if cg_Locales c = [] then [''en''] else cg_Locales c))
     @ argumentCollisions c name a"

definition check_action :: "Catalogue \<Rightarrow> string \<times> Action \<Rightarrow> cat_problem list" where
  "check_action c na =
     (let name = fst na; a = snd na in
      (if \<not> HasPrefix name (cg_Source c @ ''.'') then [OutsideNamespace name] else [])
      @ useSchema c (''action '' @ name) (an_DataSchema a)
      @ concat (map (\<lambda>tt. if map_of (cg_TargetTypes c) tt = None then [TargetTypeUnknown name tt] else []) (an_TargetTypes a))
      @ (if an_Extends a \<noteq> [] then checkExtends c name a else [])
      @ (case an_Meter a of
           None \<Rightarrow> []
         | Some am \<Rightarrow>
             (case map_of (cg_Meters c) (am_Name am) of
                None \<Rightarrow> [MeterUndeclared name (am_Name am)]
              | Some m \<Rightarrow> if md_Kind m = ''gauge'' \<and> am_QuantityPath am = [] then [GaugeNoQuantity name (am_Name am)] else []))
      @ checkMessages c name a)"

text \<open>Every schema a declaration names, in the order the check meets them.\<close>

definition named_schemas :: "Catalogue \<Rightarrow> string list" where
  "named_schemas c =
     map (ak_AttributesSchema \<circ> snd) (cg_ActorKinds c) @ map (tt_AttributesSchema \<circ> snd) (cg_TargetTypes c)
     @ map snd (cg_ContextAreas c) @ map (md_DimensionsSchema \<circ> snd) (cg_Meters c)
     @ map (an_DataSchema \<circ> snd) (cg_Actions c)"

definition referenced :: "Catalogue \<Rightarrow> string list" where
  "referenced c = map CanonicalID (filter (\<lambda>ident. ident \<noteq> []) (named_schemas c))"

definition check_kind :: "Catalogue \<Rightarrow> string \<times> ActorKind \<Rightarrow> cat_problem list" where
  "check_kind c nk =
     (if ak_Category (snd nk) \<notin> {Internal, External, Machine} then [BadCategory (fst nk) (ak_Category (snd nk))] else [])
     @ useSchema c (''actor kind '' @ fst nk) (ak_AttributesSchema (snd nk))"

definition check_meter :: "Catalogue \<Rightarrow> string \<times> MeterDef \<Rightarrow> cat_problem list" where
  "check_meter c nm =
     (if md_Kind (snd nm) \<noteq> ''count'' \<and> md_Kind (snd nm) \<noteq> ''gauge'' then [BadMeterKind (fst nm) (md_Kind (snd nm))] else [])
     @ useSchema c (''meter '' @ fst nm) (md_DimensionsSchema (snd nm))"

definition Catalogue_check :: "Catalogue \<Rightarrow> cat_problem list" where
  "Catalogue_check c =
     concat (map (check_kind c) (cg_ActorKinds c))
     @ concat (map (\<lambda>(name, t). useSchema c (''target type '' @ name) (tt_AttributesSchema t)) (cg_TargetTypes c))
     @ concat (map (\<lambda>(area, ident). useSchema c (''context area '' @ area) ident) (cg_ContextAreas c))
     @ concat (map (check_meter c) (cg_Meters c))
     @ concat (map (check_action c) (cg_Actions c))
     @ map SchemaUnreferenced (filter (\<lambda>ident. ident \<notin> set (referenced c)) (map fst (cg_schemas c)))"

text \<open>
  \<open>Load\<close> over the meta-schema, the strict YAML reader and \<open>LoadSchema\<close>.
\<close>

datatype catalogue_error =
    DocumentRefused string
  | DocumentYAML string
  | SchemaRefusedBy string schema_error
  | TwoClaim string string
  | CatalogueProblems "cat_problem list"

fun load_schemas :: "(bytes \<Rightarrow> schema_error + Schema) \<Rightarrow> string \<Rightarrow> bytes list \<Rightarrow> (string \<times> Schema) list \<Rightarrow> catalogue_error + (string \<times> Schema) list" where
  "load_schemas load source [] out = Inr out"
| "load_schemas load source (raw # rest) out =
     (case load raw of
        Inl e \<Rightarrow> Inl (SchemaRefusedBy source e)
      | Inr s \<Rightarrow>
          if map_of out (CanonicalID (sc_ID s)) \<noteq> None then Inl (TwoClaim source (sc_ID s))
          else load_schemas load source rest (out @ [(CanonicalID (sc_ID s), s)]))"

definition Catalogue_Load ::
  "(bytes \<Rightarrow> string option) \<Rightarrow> (bytes \<Rightarrow> string + Catalogue) \<Rightarrow> (bytes \<Rightarrow> schema_error + Schema) \<Rightarrow> bytes \<Rightarrow> bytes list \<Rightarrow> catalogue_error + Catalogue"
where
  "Catalogue_Load validate unmarshal load doc schemas =
     (case validate doc of
        Some e \<Rightarrow> Inl (DocumentRefused e)
      | None \<Rightarrow>
          (case unmarshal doc of
             Inl e \<Rightarrow> Inl (DocumentYAML e)
           | Inr c \<Rightarrow>
               (case load_schemas load (cg_Source c) schemas [] of
                  Inl e \<Rightarrow> Inl e
                | Inr ss \<Rightarrow>
                    (let c = c\<lparr>cg_schemas := ss, cg_document := doc\<rparr>
                     in if Catalogue_check c \<noteq> [] then Inl (CatalogueProblems (Catalogue_check c)) else Inr c))))"

section \<open>What the check and validation establish\<close>

lemma useSchema_Nil: "useSchema c w ident = [] \<Longrightarrow> ident \<noteq> [] \<Longrightarrow> \<exists>s. Catalogue_Schema c ident = Some s"
  by (auto simp: useSchema_def split: if_splits)

lemma checkExtends_Nil:
  assumes "checkExtends c name a = []"
  shows "\<exists>s p. Catalogue_Schema c (an_DataSchema a) = Some s \<and> map_of (sc_Properties s) (an_Extends a) = Some p
    \<and> pr_Type p \<in> {''string'', ''array''} \<and> (\<exists>q \<in> set (sc_Properties s). pr_Expiry (snd q))"
  using assms by (auto simp: checkExtends_def split: option.splits if_splits)

lemma check_message_Nil:
  assumes "check_message c name a loc = []"
  shows "\<exists>t. map_of (an_Message a) loc = Some t \<and> set (MessageArguments t) \<subseteq> set (messageArguments c a)"
proof -
  obtain t where t: "map_of (an_Message a) loc = Some t" and args: "concat (map (check_argument c name a loc) (MessageArguments t)) = []"
    using assms by (auto simp: check_message_def split: option.splits if_splits)
  have "arg \<in> set (messageArguments c a)" if "arg \<in> set (MessageArguments t)" for arg
  proof -
    have "check_argument c name a loc arg = []" using args that by simp
    then show ?thesis by (auto simp: check_argument_def split: if_splits)
  qed
  with t show ?thesis by blast
qed

lemma Catalogue_Load_checked: "Catalogue_Load validate unmarshal load doc schemas = Inr c \<Longrightarrow> Catalogue_check c = []"
  by (auto simp: Catalogue_Load_def Let_def split: option.splits sum.splits if_splits)

lemma checked_kind:
  assumes "Catalogue_check c = []" "map_of (cg_ActorKinds c) kind = Some k"
  shows "ak_Category k \<in> {Internal, External, Machine}"
proof -
  have "(kind, k) \<in> set (cg_ActorKinds c)" using assms(2) by (rule map_of_SomeD)
  then have "check_kind c (kind, k) = []" using assms(1) by (fastforce simp: Catalogue_check_def)
  then show ?thesis by (auto simp: check_kind_def split: if_splits)
qed

lemma checked_action:
  assumes "Catalogue_check c = []" "map_of (cg_Actions c) action = Some a"
  shows "check_action c (action, a) = []"
proof -
  have "(action, a) \<in> set (cg_Actions c)" using assms(2) by (rule map_of_SomeD)
  then show ?thesis using assms(1) by (fastforce simp: Catalogue_check_def)
qed


definition example_action :: Action where
  "example_action = \<lparr>an_Summary = [], an_Operation = ''create'', an_Categories = [], an_Profiles = [''security''],
     an_CaptureLevel = ''metadata'', an_Delivery = [], an_TargetTypes = [], an_DataSchema = ''s'', an_DataVersion = [],
     an_Message = [(''en'', ''{actor}'')], an_Meter = None, an_Extends = []\<rparr>"

definition example_property :: Property where
  "example_property = \<lparr>pr_Type = ''string'', pr_Class = class_Audit, pr_PII = [], pr_Facet = False, pr_Filter = False,
     pr_Sensitive = [], pr_Expiry = False, pr_OCSFPath = [], pr_ECSPath = []\<rparr>"

definition example_schema :: Schema where
  "example_schema = \<lparr>sc_ID = ''s'', sc_Raw = [], sc_Properties =
     [(''/key_id'', example_property), (''/until'', example_property\<lparr>pr_Expiry := True\<rparr>)],
     sc_compiled = Some (\<lambda>v. None)\<rparr>"

definition example_catalogue :: Catalogue where
  "example_catalogue = \<lparr>cg_Source = ''app'', cg_Version = ''1'', cg_Locales = [], cg_ActorKinds = [], cg_TargetTypes = [],
     cg_ContextAreas = [], cg_Meters = [], cg_Actions = [(''app.thing.create'', example_action)],
     cg_schemas = [(''s'', example_schema)], cg_document = ''doc''\<rparr>"

lemma example_arguments: "MessageArguments ''{actor}'' = [''actor'']"
proof -
  have "nats ''{actor}'' = [123, 97, 99, 116, 111, 114, 125]" by (simp add: nats_def)
  moreover have "runes \<dots> = \<dots>" by (rule ascii_runes) simp
  moreover have "scanMessage \<dots> = [[97, 99, 116, 111, 114]]"
    by (simp add: scanMessage.simps scanArgument.simps apostrophe_def open_brace_def close_brace_def comma_def matchBrace.simps)
  moreover have "encode_runes [97, 99, 116, 111, 114] = [97, 99, 116, 111, 114]" by (rule ascii_encode) simp
  moreover have "chars [97, 99, 116, 111, 114] = ''actor''" by code_simp
  ultimately show ?thesis by (simp add: MessageArguments_def trim_runes_def IsSpace_def)
qed

lemma example_catalogue_checks: "Catalogue_check example_catalogue = []"
proof -
  have "CanonicalID ''s'' = ''s''" by code_simp
  then have "Catalogue_Schema example_catalogue ''s'' = Some example_schema" by (simp add: Catalogue_Schema_def example_catalogue_def)
  moreover have "trim_runes (runes (nats ''{actor}'')) \<noteq> []"
    by (simp add: nats_def ascii_runes trim_runes_def IsSpace_def)
  moreover have "''actor'' \<in> set (messageArguments example_catalogue example_action)"
    by (simp add: messageArguments_def core_arguments_def)
  ultimately have "check_action example_catalogue (''app.thing.create'', example_action) = []"
    by (simp add: check_action_def checkMessages_def check_message_def check_argument_def argumentCollisions_def useSchema_def
        example_arguments example_action_def example_catalogue_def example_schema_def DataArgument_def HasPrefix_def)
  with \<open>CanonicalID ''s'' = ''s''\<close> show ?thesis
    by (simp add: Catalogue_check_def example_catalogue_def referenced_def named_schemas_def example_action_def)
qed

lemma example_catalogue_loads:
  "Catalogue_Load (\<lambda>d. None) (\<lambda>d. Inr (example_catalogue\<lparr>cg_schemas := []\<rparr>)) (\<lambda>raw. Inr example_schema) ''doc'' [[]]
     = Inr example_catalogue"
proof -
  have "CanonicalID ''s'' = ''s''" by code_simp
  moreover have "example_catalogue\<lparr>cg_schemas := [(''s'', example_schema)], cg_document := ''doc''\<rparr> = example_catalogue"
    by (simp add: example_catalogue_def)
  moreover have "sc_ID example_schema = ''s''" by (simp add: example_schema_def)
  ultimately show ?thesis using example_catalogue_checks by (simp add: Catalogue_Load_def)
qed


lemma validateTargets_Nil: "validateTargets x r = [] \<Longrightarrow> t \<in> set (r_Targets r) \<Longrightarrow> \<exists>i. validate_target x i t = []"
  using zip_enum [of t "r_Targets r"] by (fastforce simp: validateTargets_def)

lemma validate_target_Nil:
  assumes "validate_target x i t = []"
  shows "\<exists>d. map_of (cg_TargetTypes (x_catalogue x)) (ta_Type t) = Some d \<and> (tt_IsPerson d \<longrightarrow> ta_Name t = [])
    \<and> (an_TargetTypes (x_Action x) = [] \<or> ta_Type t \<in> set (an_TargetTypes (x_Action x)))
    \<and> (tt_AttributesSchema d = [] \<longrightarrow> as_fields (ta_Attributes t) = [])"
  using assms by (auto simp: validate_target_def split: option.splits if_splits)

lemma validateActor_Nil:
  assumes "validateActor x r = []" "r_Actor r = Some a" "ac_Kind a \<noteq> []"
  shows "\<exists>k. map_of (cg_ActorKinds (x_catalogue x)) (ac_Kind a) = Some k
    \<and> (ak_AttributesSchema k = [] \<longrightarrow> as_fields (ac_Attributes a) = [])"
  using assms by (auto simp: validateActor_def split: option.splits if_splits)


definition example_composed :: Composed where
  "example_composed = \<lparr>x_Source = ''app'', x_Version = ''1'', x_Name = ''app.thing.create'', x_Action = example_action,
     x_Data = Some example_schema, x_catalogue = example_catalogue\<rparr>"


text \<open>The moments a record's data gives for the properties marked as an expiry.\<close>

definition expiries :: "Record \<Rightarrow> (string \<times> Property) list \<Rightarrow> time set" where
  "expiries r ps = {at. \<exists>(pointer, p) \<in> set ps. pr_Expiry p
     \<and> (\<exists>txt. as_string (dataAt r pointer) = Some txt \<and> txt \<noteq> [] \<and> ParseRFC3339 txt = Some at)}"

lemma expiries_Cons:
  "expiries r ((pointer, p) # ps) =
     (if pr_Expiry p then (case as_string (dataAt r pointer) of
          Some txt \<Rightarrow> if txt = [] then {} else set_option (ParseRFC3339 txt) | None \<Rightarrow> {}) else {}) \<union> expiries r ps"
  by (auto simp: expiries_def split: option.splits)

lemma latest_expiry_max:
  "latest_expiry r ps latest = Inr e \<Longrightarrow>
     set_option e \<subseteq> set_option latest \<union> expiries r ps
     \<and> (\<forall>at \<in> set_option latest \<union> expiries r ps. \<exists>l. e = Some l \<and> at \<le> l)"
proof (induction r ps latest rule: latest_expiry.induct)
  case (2 r pointer p rest latest)
  consider (plain) "\<not> pr_Expiry p" | (absent) "pr_Expiry p" "as_string (dataAt r pointer) = None"
    | (empty) "pr_Expiry p" "as_string (dataAt r pointer) = Some []"
    | (time) tx tm where "pr_Expiry p" "as_string (dataAt r pointer) = Some tx" "tx \<noteq> []" "ParseRFC3339 tx = Some tm"
    using 2(5) by (cases "as_string (dataAt r pointer)") (auto split: if_splits option.splits)
  then show ?case
  proof cases
    case (time tx tm)
    let ?l = "case latest of None \<Rightarrow> Some tm | Some l \<Rightarrow> if l < tm then Some tm else Some l"
    have "latest_expiry r rest ?l = Inr e" using 2(5) time by simp
    note IH = 2(4) [OF _ time(2,3,4) this]
    have l: "set_option ?l \<subseteq> set_option latest \<union> {tm}" "\<forall>a \<in> set_option latest \<union> {tm}. \<exists>l \<in> set_option ?l. a \<le> l"
      by (auto split: option.splits)
    have "expiries r ((pointer, p) # rest) = {tm} \<union> expiries r rest" using time by (simp add: expiries_Cons)
    then show ?thesis using IH l time(1) by (fastforce intro: order_trans)
  qed (use 2 in \<open>simp_all add: expiries_Cons\<close>)
qed (simp add: expiries_def)

text \<open>
  What \<open>Expiry\<close> reads from a record is the latest of the moments its data gives for the
  properties marked as an expiry, and nothing exactly when it gives none. So it does not depend on
  the order in which the properties are visited.
\<close>

theorem Expiry_latest:
  assumes "Expiry x r = Inr e" "x_Data x = Some s" "r_Data r \<noteq> None"
  shows "e = (if expiries r (sc_Properties s) = {} then None else Some (Max (expiries r (sc_Properties s))))"
proof -
  let ?E = "expiries r (sc_Properties s)"
  have "latest_expiry r (sc_Properties s) None = Inr e" using assms by (auto simp: Expiry_def)
  from latest_expiry_max [OF this] have sub: "set_option e \<subseteq> ?E" and top: "\<And>at. at \<in> ?E \<Longrightarrow> \<exists>l. e = Some l \<and> at \<le> l" by auto
  have "finite ?E"
  proof (rule finite_subset)
    show "?E \<subseteq> (\<lambda>(pointer, p). the (ParseRFC3339 (the (as_string (dataAt r pointer))))) ` set (sc_Properties s)"
      by (force simp: expiries_def)
  qed simp
  then show ?thesis using sub top by (cases e) (auto intro!: Max_eqI [symmetric])
qed

theorem Expiry_latest_witness:
  "Max (expiries (example_record\<lparr>r_Data := Some [(''until'', VString ''0001-01-01T00:00:00Z'')]\<rparr>) (sc_Properties example_schema)) = zero_time"
proof -
  let ?r = "example_record\<lparr>r_Data := Some [(''until'', VString ''0001-01-01T00:00:00Z'')]\<rparr>"
  have "ParseRFC3339 ''0001-01-01T00:00:00Z'' = Some zero_time" by code_simp
  moreover have "dataAt ?r ''/until'' = VString ''0001-01-01T00:00:00Z''" by code_simp
  ultimately have e: "Expiry example_composed ?r = Inr (Some zero_time)"
    by (simp add: Expiry_def example_composed_def example_schema_def example_property_def as_string_def)
  have "x_Data example_composed = Some example_schema" "r_Data ?r \<noteq> None" by (simp_all add: example_composed_def)
  from Expiry_latest [OF e this] show ?thesis by (simp split: if_splits)
qed

end
