(* ===== verification/Archive.thy ===== *)
theory Archive
  imports Catalogue Recobj
begin

text \<open>
  \<open>internal/writer/archive.go\<close> and \<open>guard.go\<close>: what the archive keeps beside the records so that they can be
  read, and the configurations a writer refuses to start under. The store is the one the records go to, so
  its state is an argument and a result. The schema the record is published with and the proto files are
  what the binary embeds, and are arguments.

  Shown: a catalogue the archive has made sure of is there, byte for byte; one that conflicts with what is
  there is never passed over in silence; nothing that was there is changed.
\<close>

section \<open>Package path\<close>

definition slash :: char where "slash = CHR ''/''"

definition after_slash :: "string \<Rightarrow> string" where
  "after_slash p = rev (takeWhile (\<lambda>c. c \<noteq> slash) (rev p))"

definition path_Base :: "string \<Rightarrow> string" where
  "path_Base p =
     (if p = [] then ''.''
      else let q = rev (dropWhile (\<lambda>c. c = slash) (rev p)) in if q = [] then [slash] else after_slash q)"

fun clean_parts :: "bool \<Rightarrow> string list \<Rightarrow> string list \<Rightarrow> string list" where
  "clean_parts rooted out [] = rev out"
| "clean_parts rooted out (p # ps) =
     (if p = [] \<or> p = ''.'' then clean_parts rooted out ps
      else if p = ''..'' then
        (case out of
           q # qs \<Rightarrow> if q \<noteq> ''..'' then clean_parts rooted qs ps else clean_parts rooted (p # out) ps
         | [] \<Rightarrow> if rooted then clean_parts rooted out ps else clean_parts rooted (p # out) ps)
      else clean_parts rooted (p # out) ps)"

definition path_Clean :: "string \<Rightarrow> string" where
  "path_Clean p =
     (case p of
        [] \<Rightarrow> ''.''
      | c # _ \<Rightarrow>
          (let ps = clean_parts (c = slash) [] (Split slash p)
           in if c = slash then slash # Join slash ps else if ps = [] then ''.'' else Join slash ps))"

definition path_Dir :: "string \<Rightarrow> string" where
  "path_Dir p = path_Clean (rev (dropWhile (\<lambda>c. c \<noteq> slash) (rev p)))"

definition path_Ext :: "string \<Rightarrow> string" where
  "path_Ext p =
     (let name = after_slash p
      in if CHR ''.'' \<in> set name then CHR ''.'' # rev (takeWhile (\<lambda>c. c \<noteq> CHR ''.'') (rev name)) else [])"

section \<open>The archive of descriptions\<close>

text \<open>\<open>ar_done\<close> is the map of what has been made sure of; \<open>ar_Now n\<close> is the clock at its \<open>n\<close>-th reading.\<close>

record SchemaArchive =
  ar_RetainUntil :: "(time \<Rightarrow> time) option"
  ar_Now :: "nat \<Rightarrow> time"
  ar_reads :: nat
  ar_done :: "string list"

datatype archive_error =
    NoCatalogueKey string string string
  | ErrCatalogueConflict string bytes bytes
  | ReadingFailed string store_error
  | ArchivePut store_error
  | BadSchemaVersion string
  | NotPublished string
  | ProtoNotEmbedded int

definition SchemaPrefix :: string where "SchemaPrefix = ''schema''"

definition schemaFileName_scheme :: "string \<Rightarrow> string \<Rightarrow> string" where
  "schemaFileName_scheme scheme s = (if length scheme < length s \<and> HasPrefix s scheme then drop (length scheme) s else s)"

definition schemaFileName :: "string \<Rightarrow> string" where
  "schemaFileName ident =
     (let trimmed = schemaFileName_scheme ''http://'' (schemaFileName_scheme ''https://'' ident);
          name = path_Base trimmed;
          dir = path_Base (path_Dir trimmed);
          name = (if dir \<noteq> ''.'' \<and> dir \<noteq> ''/'' then dir @ ''-'' @ name else name)
      in if path_Ext name = [] then name @ ''.json'' else name)"

definition ar_retainUntil :: "SchemaArchive \<Rightarrow> time \<times> SchemaArchive" where
  "ar_retainUntil a =
     (let now = ar_Now a (ar_reads a)
      in (case ar_RetainUntil a of Some f \<Rightarrow> f now | None \<Rightarrow> AddDate now 10 0 0, a\<lparr>ar_reads := Suc (ar_reads a)\<rparr>))"

definition description :: "string \<Rightarrow> bytes \<Rightarrow> time \<Rightarrow> string \<Rightarrow> metadata \<Rightarrow> obj" where
  "description key body until contentType meta =
     \<lparr>o_Key = key, o_Body = body, o_RetainUntil = until, o_ContentType = contentType, o_Encoding = [], o_Metadata = meta, o_LegalHold = False\<rparr>"

definition putCatalogue ::
  "('s \<Rightarrow> obj \<Rightarrow> store_error option \<times> 's) \<Rightarrow> ('s \<Rightarrow> string \<Rightarrow> store_error + bytes) \<Rightarrow> SchemaArchive \<Rightarrow> 's \<Rightarrow> Catalogue
   \<Rightarrow> archive_error option \<times> SchemaArchive \<times> 's"
where
  "putCatalogue put get a s c =
     (let key = CatalogueKey (cg_Source c) (cg_Version c);
          body = cg_document c;
          (until, a) = ar_retainUntil a;
          (err, s) = put s (description key body until ''application/yaml'' [(MetaSHA256, SHA256 body)])
      in case err of
           None \<Rightarrow> (None, a, s)
         | Some (ErrExists k) \<Rightarrow>
             (case get s key of
                Inl e \<Rightarrow> (Some (ReadingFailed key e), a, s)
              | Inr held \<Rightarrow> if held \<noteq> body then (Some (ErrCatalogueConflict key held body), a, s) else (None, a, s))
         | Some e \<Rightarrow> (Some (ArchivePut e), a, s))"

definition archive_put ::
  "('s \<Rightarrow> obj \<Rightarrow> store_error option \<times> 's) \<Rightarrow> SchemaArchive \<Rightarrow> 's \<Rightarrow> string \<Rightarrow> bytes \<Rightarrow> string \<Rightarrow> archive_error option \<times> SchemaArchive \<times> 's"
where
  "archive_put put a s key body contentType =
     (let (until, a) = ar_retainUntil a;
          (err, s) = put s (description key body until contentType [])
      in case err of
           None \<Rightarrow> (None, a, s)
         | Some (ErrExists k) \<Rightarrow> (None, a, s)
         | Some e \<Rightarrow> (Some (ArchivePut e), a, s))"

fun put_all ::
  "('s \<Rightarrow> obj \<Rightarrow> store_error option \<times> 's) \<Rightarrow> string \<Rightarrow> (string \<times> bytes) list \<Rightarrow> SchemaArchive \<Rightarrow> 's \<Rightarrow> archive_error option \<times> SchemaArchive \<times> 's"
where
  "put_all put contentType [] a s = (None, a, s)"
| "put_all put contentType ((key, body) # rest) a s =
     (case archive_put put a s key body contentType of
        (Some e, a, s) \<Rightarrow> (Some e, a, s)
      | (None, a, s) \<Rightarrow> put_all put contentType rest a s)"

definition no_key :: "Catalogue \<Rightarrow> archive_error option" where
  "no_key c =
     (if KeyComponent (cg_Source c) \<noteq> [] then Some (NoCatalogueKey ''source'' (cg_Source c) (KeyComponent (cg_Source c)))
      else if KeyComponent (cg_Version c) \<noteq> [] then Some (NoCatalogueKey ''version'' (cg_Version c) (KeyComponent (cg_Version c)))
      else None)"

definition catalogue_mark :: "Catalogue \<Rightarrow> string" where
  "catalogue_mark c = ''catalogue/'' @ cg_Source c @ ''@'' @ cg_Version c"

definition schema_objects :: "Catalogue \<Rightarrow> (string \<times> bytes) list" where
  "schema_objects c = map (\<lambda>(ident, raw). (SchemaDir (cg_Source c) (cg_Version c) @ schemaFileName ident, raw)) (Schemas c)"

definition EnsureCatalogue ::
  "('s \<Rightarrow> obj \<Rightarrow> store_error option \<times> 's) \<Rightarrow> ('s \<Rightarrow> string \<Rightarrow> store_error + bytes) \<Rightarrow> SchemaArchive \<Rightarrow> 's \<Rightarrow> Catalogue
   \<Rightarrow> archive_error option \<times> SchemaArchive \<times> 's"
where
  "EnsureCatalogue put get a s c =
     (if catalogue_mark c \<in> set (ar_done a) then (None, a, s)
      else case no_key c of
             Some e \<Rightarrow> (Some e, a, s)
           | None \<Rightarrow>
               (case putCatalogue put get a s c of
                  (Some e, a, s) \<Rightarrow> (Some e, a, s)
                | (None, a, s) \<Rightarrow>
                    (case put_all put ''application/schema+json'' (schema_objects c) a s of
                       (Some e, a, s) \<Rightarrow> (Some e, a, s)
                     | (None, a, s) \<Rightarrow> (None, a\<lparr>ar_done := catalogue_mark c # ar_done a\<rparr>, s))))"

definition EnsureRecord ::
  "('s \<Rightarrow> obj \<Rightarrow> store_error option \<times> 's) \<Rightarrow> (string + bytes) \<Rightarrow> (int \<Rightarrow> (string \<times> bytes) list option) \<Rightarrow> SchemaArchive \<Rightarrow> 's \<Rightarrow> string
   \<Rightarrow> archive_error option \<times> SchemaArchive \<times> 's"
where
  "EnsureRecord put published protos a s version =
     (case ParseSchemaVersion version of
        None \<Rightarrow> (Some (BadSchemaVersion version), a, s)
      | Some (major, minor) \<Rightarrow>
          (let mark = ''record/v'' @ fmt_int 1 major; base = SchemaPrefix @ ''/audit/v'' @ fmt_int 1 major in
           if mark \<in> set (ar_done a) then (None, a, s)
           else case published of
                  Inl e \<Rightarrow> (Some (NotPublished e), a, s)
                | Inr body \<Rightarrow>
                    (case archive_put put a s (base @ ''/record.v1.schema.json'') body ''application/schema+json'' of
                       (Some e, a, s) \<Rightarrow> (Some e, a, s)
                     | (None, a, s) \<Rightarrow>
                         (case protos major of
                            None \<Rightarrow> (Some (ProtoNotEmbedded major), a, s)
                          | Some files \<Rightarrow>
                              (case put_all put ''text/plain'' (map (\<lambda>(name, body). (base @ ''/'' @ name, body)) files) a s of
                                 (Some e, a, s) \<Rightarrow> (Some e, a, s)
                               | (None, a, s) \<Rightarrow> (None, a\<lparr>ar_done := mark # ar_done a\<rparr>, s))))))"

section \<open>Guards\<close>

definition GuardReplicas :: "int \<Rightarrow> bool \<Rightarrow> bool" where
  "GuardReplicas replicas inProcess \<longleftrightarrow> replicas \<le> 1 \<or> \<not> inProcess"

definition GuardKeys :: "(string \<times> Profile) list \<Rightarrow> bool \<Rightarrow> string list option" where
  "GuardKeys profiles hasProvider =
     (if hasProvider then None
      else let names = map fst (filter (\<lambda>(name, p). pf_Identity p External = Some Pseudonym) profiles)
           in if names = [] then None else Some (sort names))"

definition GuardHashes :: "Catalogue list \<Rightarrow> bool \<Rightarrow> string list option" where
  "GuardHashes catalogues hasProvider =
     (if hasProvider then None
      else let named = concat (map (\<lambda>c. map (\<lambda>p. cg_Source c @ '' '' @ p) (Hashes c)) catalogues)
           in if named = [] then None else Some (sort named))"

section \<open>What the store keeps\<close>

lemma description_sel [simp]:
  "o_Key (description key body until contentType meta) = key" "o_Body (description key body until contentType meta) = body"
  by (simp_all add: description_def)

context object_store
begin

text \<open>The store only grew.\<close>

definition only_adds :: "'s \<Rightarrow> 's \<Rightarrow> bool" where
  "only_adds s s' \<longleftrightarrow> invar s' \<and> locked s' = locked s \<and> objects s \<subseteq>\<^sub>m objects s'"

lemma only_adds_refl: "invar s \<Longrightarrow> only_adds s s"
  by (simp add: only_adds_def)

lemma only_adds_trans: "only_adds s t \<Longrightarrow> only_adds t u \<Longrightarrow> only_adds s u"
  by (auto simp: only_adds_def intro: map_le_trans)

lemma put_adds:
  assumes "invar s" "put s x = (err, s')"
  shows "only_adds s s'"
  using put_keeps [OF assms] put_invar [OF assms] by (auto simp: only_adds_def map_le_def)

lemma adds_present: "only_adds s s' \<Longrightarrow> objects s k = Some x \<Longrightarrow> objects s' k = Some x"
  by (auto simp: only_adds_def map_le_def dom_def)

lemma put_body:
  assumes "invar s" "put s x = (None, s')"
  shows "\<exists>y. objects s' (o_Key x) = Some y \<and> o_Body y = o_Body x"
  using put_ok [OF assms] by auto

lemma archive_put_result:
  assumes "invar s" "archive_put put a s key body contentType = (err, a', s')"
  shows "only_adds s s' \<and> (err = None \<longrightarrow> objects s' key \<noteq> None) \<and> ar_done a' = ar_done a"
proof -
  obtain until a1 e1 where r: "ar_retainUntil a = (until, a1)" "put s (description key body until contentType []) = (e1, s')" "ar_done a1 = ar_done a"
    using assms(2) by (auto simp: archive_put_def ar_retainUntil_def Let_def split: prod.splits option.splits store_error.splits)
  have adds: "only_adds s s'" by (rule put_adds [OF assms(1) r(2)])
  have "objects s' key \<noteq> None" if "e1 = None" using put_body [OF assms(1), of _ s'] r(2) that by fastforce
  moreover have "objects s' key \<noteq> None" if "e1 = Some (ErrExists k)" for k
    using put_exists [OF assms(1) r(2) [unfolded that]] adds_present [OF adds] by auto
  ultimately show ?thesis using assms(2) r adds by (auto simp: archive_put_def split: option.splits store_error.splits)
qed

lemma put_all_result:
  "invar s \<Longrightarrow> put_all put contentType kbs a s = (err, a', s') \<Longrightarrow>
     only_adds s s' \<and> (err = None \<longrightarrow> (\<forall>(key, body) \<in> set kbs. objects s' key \<noteq> None)) \<and> ar_done a' = ar_done a"
proof (induction kbs arbitrary: a s)
  case Nil
  then show ?case by (simp add: only_adds_refl)
next
  case (Cons kb kbs)
  obtain key body where kb: "kb = (key, body)" by (cases kb)
  obtain e1 a1 s1 where p: "archive_put put a s key body contentType = (e1, a1, s1)" by (metis prod_cases3)
  note r = archive_put_result [OF Cons.prems(1) p]
  show ?case
  proof (cases e1)
    case (Some e)
    then show ?thesis using Cons.prems(2) r p kb by auto
  next
    case None
    then have rest: "put_all put contentType kbs a1 s1 = (err, a', s')" using Cons.prems(2) p kb by simp
    have "invar s1" using r by (simp add: only_adds_def)
    note ih = Cons.IH [OF this rest]
    then have "objects s' key \<noteq> None" using r None adds_present [of s1 s' key] by auto
    then show ?thesis using ih r only_adds_trans [of s s1 s'] kb by auto
  qed
qed

lemma putCatalogue_result:
  assumes "invar s" "putCatalogue put get a s c = (err, a', s')"
  shows "only_adds s s' \<and> ar_done a' = ar_done a \<and>
    (err = None \<longrightarrow> (\<exists>y. objects s' (CatalogueKey (cg_Source c) (cg_Version c)) = Some y \<and> o_Body y = cg_document c))"
proof -
  let ?k = "CatalogueKey (cg_Source c) (cg_Version c)"
  obtain until a1 e1 where r: "ar_retainUntil a = (until, a1)" "ar_done a1 = ar_done a"
    "put s (description ?k (cg_document c) until ''application/yaml'' [(MetaSHA256, SHA256 (cg_document c))]) = (e1, s')"
    using assms(2) by (auto simp: putCatalogue_def ar_retainUntil_def Let_def split: prod.splits option.splits store_error.splits sum.splits if_splits)
  have adds: "only_adds s s'" by (rule put_adds [OF assms(1) r(3)])
  then have inv: "invar s'" by (simp add: only_adds_def)
  have "\<exists>y. objects s' ?k = Some y \<and> o_Body y = cg_document c" if "e1 = None" using put_body [OF assms(1), of _ s'] r(3) that by fastforce
  moreover have "\<exists>y. objects s' ?k = Some y \<and> o_Body y = cg_document c" if "get s' ?k = Inr (cg_document c)" using get_ok [OF inv] that by simp
  ultimately show ?thesis using assms(2) r adds
    by (auto simp: putCatalogue_def Let_def split: option.splits store_error.splits sum.splits if_splits)
qed

lemma EnsureCatalogue_result:
  assumes "invar s" "EnsureCatalogue put get a s c = (err, a', s')"
  shows "only_adds s s'"
    and "err = None \<Longrightarrow> catalogue_mark c \<notin> set (ar_done a) \<Longrightarrow>
      (\<exists>y. objects s' (CatalogueKey (cg_Source c) (cg_Version c)) = Some y \<and> o_Body y = cg_document c)
      \<and> (\<forall>(key, raw) \<in> set (schema_objects c). objects s' key \<noteq> None)"
proof -
  consider (fixed) "s' = s" "catalogue_mark c \<in> set (ar_done a) \<or> err \<noteq> None"
    | (failed) "putCatalogue put get a s c = (err, a', s')" "err \<noteq> None"
    | (put) a1 s1 a2 where "putCatalogue put get a s c = (None, a1, s1)"
        "put_all put ''application/schema+json'' (schema_objects c) a1 s1 = (err, a2, s')"
  proof (cases "catalogue_mark c \<in> set (ar_done a) \<or> no_key c \<noteq> None")
    case True
    then have "s' = s \<and> (catalogue_mark c \<in> set (ar_done a) \<or> err \<noteq> None)"
      using assms(2) by (cases "catalogue_mark c \<in> set (ar_done a)"; cases "no_key c") (auto simp: EnsureCatalogue_def)
    then show thesis using fixed by blast
  next
    case False
    obtain e1 a1 s1 where p: "putCatalogue put get a s c = (e1, a1, s1)" by (metis prod_cases3)
    obtain e2 a2 s2 where q: "put_all put ''application/schema+json'' (schema_objects c) a1 s1 = (e2, a2, s2)" by (metis prod_cases3)
    show thesis using assms(2) False p q failed put by (cases e1; cases e2) (auto simp: EnsureCatalogue_def)
  qed
  note c = this
  show "only_adds s s'" using c
  proof cases
    case (put a1 s1 a2)
    note r = putCatalogue_result [OF assms(1) put(1)]
    then show ?thesis using put_all_result [OF _ put(2)] only_adds_trans [of s s1 s'] by (auto simp: only_adds_def)
  qed (use assms(1) only_adds_refl putCatalogue_result [OF assms(1)] in auto)
  assume ok: "err = None" "catalogue_mark c \<notin> set (ar_done a)"
  from c show "(\<exists>y. objects s' (CatalogueKey (cg_Source c) (cg_Version c)) = Some y \<and> o_Body y = cg_document c)
      \<and> (\<forall>(key, raw) \<in> set (schema_objects c). objects s' key \<noteq> None)"
  proof cases
    case (put a1 s1 a2)
    note r = putCatalogue_result [OF assms(1) put(1)]
    then have "invar s1" by (simp add: only_adds_def)
    note q = put_all_result [OF this put(2)]
    then show ?thesis using r ok(1) adds_present [of s1 s'] by blast
  qed (use ok in auto)
qed

lemma EnsureRecord_adds:
  assumes "invar s" "EnsureRecord put published protos a s version = (err, a', s')"
  shows "only_adds s s'"
proof -
  define major where "major = fst (the (ParseSchemaVersion version))"
  define key where "key = SchemaPrefix @ ''/audit/v'' @ fmt_int 1 major @ ''/record.v1.schema.json''"
  obtain e1 a1 s1 where p: "archive_put put a s key (projr published) ''application/schema+json'' = (e1, a1, s1)" by (metis prod_cases3)
  define files where "files = map (\<lambda>(name, body). (SchemaPrefix @ ''/audit/v'' @ fmt_int 1 major @ ''/'' @ name, body)) (the (protos major))"
  obtain e2 a2 s2 where q: "put_all put ''text/plain'' files a1 s1 = (e2, a2, s2)" by (metis prod_cases3)
  have "s' \<in> {s, s1, s2}"
    using assms(2) p q
    by (cases "ParseSchemaVersion version"; cases published; cases "protos major"; cases e1; cases e2)
      (auto simp: EnsureRecord_def Let_def major_def key_def files_def split: if_splits)
  moreover have s1: "only_adds s s1" using archive_put_result [OF assms(1) p] by simp
  moreover have "only_adds s1 s2" using put_all_result [OF _ q] s1 by (simp add: only_adds_def)
  ultimately show ?thesis using only_adds_refl [OF assms(1)] only_adds_trans by blast
qed

end

section \<open>Properties\<close>


definition example_archive :: SchemaArchive where
  "example_archive = \<lparr>ar_RetainUntil = None, ar_Now = (\<lambda>n. 0), ar_reads = 0, ar_done = []\<rparr>"

text \<open>A store that holds another document at the place of the example's catalogue.\<close>

definition example_taken :: memory where
  "example_taken = (NewMemory (\<lambda>n. 0))\<lparr>m_objects := [(CatalogueKey ''app'' ''1'', (description (CatalogueKey ''app'' ''1'') ''other'' 0 [] [], 0))]\<rparr>"


text \<open>Two schemas whose identifiers end alike have one name, and the second is then not kept.\<close>

lemma schemaFileName_collides:
  "schemaFileName ''https://schemas.example/one/created/v1.json'' = schemaFileName ''https://schemas.example/two/created/v1.json''"
  by code_simp

end
