(* ===== verification/Deadletter.thy ===== *)
theory Deadletter
  imports Archive Json
begin

text \<open>
  \<open>internal/writer/deadletter.go\<close>: where a record the writer cannot process goes, an object of its own under
  \<open>dlq/\<close> with the reason, whatever is known of the record, and the record in canonical form. The object's body
  is what \<open>json.Marshal\<close> makes of it; \<open>is_print\<close> is the table of \<open>strconv.IsPrint\<close> beyond ASCII.

  Shown: a dead letter that was put is in the store, and nothing else there has changed.
\<close>

section \<open>Marshalling\<close>

definition hex_low :: "nat \<Rightarrow> nat" where
  "hex_low d = (if d < 10 then 48 + d else 87 + d)"

definition u00 :: "nat \<Rightarrow> nat list" where
  "u00 b = [92, 117, 48, 48, hex_low (b div 16), hex_low (b mod 16)]"

text \<open>A string as \<open>json.Marshal\<close> writes it: HTML and the line separators escaped, a bad byte replaced.\<close>

definition marshal_ascii :: "nat \<Rightarrow> nat list" where
  "marshal_ascii b =
     (if b = 34 \<or> b = 92 then [92, b]
      else if b = 8 then [92, 98]
      else if b = 12 then [92, 102]
      else if b = 10 then [92, 110]
      else if b = 13 then [92, 114]
      else if b = 9 then [92, 116]
      else if b < 32 \<or> b = 60 \<or> b = 62 \<or> b = 38 then u00 b
      else [b])"

lemma DecodeRune_shorter: "length (drop (snd (DecodeRune (b # s))) (b # s)) < length (b # s)"
  using DecodeRune_width [of "b # s"] by simp

function marshal_runes :: "nat list \<Rightarrow> nat list" where
  "marshal_runes [] = []"
| "marshal_runes (b # s) =
     (if b < 128 then marshal_ascii b
      else if DecodeRune (b # s) = (RuneError, 1) then (92 # nats ''ufffd'')
      else if fst (DecodeRune (b # s)) = 8232 then (92 # nats ''u2028'')
      else if fst (DecodeRune (b # s)) = 8233 then (92 # nats ''u2029'')
      else take (snd (DecodeRune (b # s))) (b # s))
     @ marshal_runes (drop (snd (DecodeRune (b # s))) (b # s))"
  by pat_completeness auto
termination
  by (relation "measure length") (use DecodeRune_shorter in simp_all)

definition marshal_string :: "string \<Rightarrow> nat list" where
  "marshal_string s = 34 # marshal_runes (nats s) @ [34]"

text \<open>A value kept as its text: it must be JSON, and is written without the spaces between its tokens.\<close>

definition valid_json :: "nat list \<Rightarrow> bool" where
  "valid_json s \<longleftrightarrow> (case read_value [] s of Some (_, rest) \<Rightarrow> skip_space rest = [] | None \<Rightarrow> False)"

fun compact :: "bool \<Rightarrow> bool \<Rightarrow> nat list \<Rightarrow> nat list" where
  "compact instr esc [] = []"
| "compact instr esc (b # c # d # s) =
     (if b = 226 \<and> c = 128 \<and> (d = 168 \<or> d = 169) then [92, 117, 50, 48, 50, d - 112] @ compact instr False s
      else if \<not> instr \<and> json_space b then compact instr esc (c # d # s)
      else (if b = 60 \<or> b = 62 \<or> b = 38 then u00 b else [b])
        @ compact (if instr then \<not> (b = 34 \<and> \<not> esc) else b = 34) (instr \<and> b = 92 \<and> \<not> esc) (c # d # s))"
| "compact instr esc (b # s) =
     (if \<not> instr \<and> json_space b then compact instr esc s
      else (if b = 60 \<or> b = 62 \<or> b = 38 then u00 b else [b])
        @ compact (if instr then \<not> (b = 34 \<and> \<not> esc) else b = 34) (instr \<and> b = 92 \<and> \<not> esc) s)"

text \<open>\<open>%q\<close>.\<close>

definition x_escape :: "nat \<Rightarrow> nat list" where
  "x_escape b = [92, 120, hex_low (b div 16), hex_low (b mod 16)]"

definition quote_rune :: "(nat \<Rightarrow> bool) \<Rightarrow> nat \<Rightarrow> nat list" where
  "quote_rune is_print r =
     (if r = 34 \<or> r = 92 then [92, r]
      else if (if r < 128 then 32 \<le> r \<and> r < 127 else is_print r) then EncodeRune r
      else if r = 7 then [92, 97]
      else if r = 8 then [92, 98]
      else if r = 12 then [92, 102]
      else if r = 10 then [92, 110]
      else if r = 13 then [92, 114]
      else if r = 9 then [92, 116]
      else if r = 11 then [92, 118]
      else if r < 32 \<or> r = 127 then x_escape r
      else if r < 65536 then [92, 117] @ map (\<lambda>i. hex_low (r div 16 ^ i mod 16)) [3, 2, 1, 0]
      else [92, 85] @ map (\<lambda>i. hex_low (r div 16 ^ i mod 16)) [7, 6, 5, 4, 3, 2, 1, 0])"

function quote_runes :: "(nat \<Rightarrow> bool) \<Rightarrow> nat list \<Rightarrow> nat list" where
  "quote_runes is_print [] = []"
| "quote_runes is_print (b # s) =
     (if DecodeRune (b # s) = (RuneError, 1) then x_escape b else quote_rune is_print (fst (DecodeRune (b # s))))
     @ quote_runes is_print (drop (snd (DecodeRune (b # s))) (b # s))"
  by pat_completeness auto
termination
  by (relation "measure (\<lambda>(_, s). length s)") (use DecodeRune_shorter in simp_all)

definition Quote :: "(nat \<Rightarrow> bool) \<Rightarrow> string \<Rightarrow> nat list" where
  "Quote is_print s = 34 # quote_runes is_print (nats s) @ [34]"

section \<open>The dead letter store\<close>

record StoreDeadLetter =
  dl_RetainUntil :: "(time \<Rightarrow> time) option"
  dl_Instance :: string
  dl_Now :: "nat \<Rightarrow> time"
  dl_reads :: nat
  dl_seq :: u64

text \<open>\<open>time.RFC3339Nano\<close>: the fraction of the second without its trailing zeros.\<close>

definition FormatRFC3339Nano :: "time \<Rightarrow> string" where
  "FormatRFC3339Nano t =
     (let frac = rev (dropWhile (\<lambda>c. c = CHR ''0'') (rev (fmt_int 9 (t mod second_ns))))
      in butlast (FormatRFC3339 t) @ (if frac = [] then [] else CHR ''.'' # frac) @ ''Z'')"

definition letter_line :: "(nat \<Rightarrow> bool) \<Rightarrow> canonical \<Rightarrow> Record \<Rightarrow> nat list" where
  "letter_line is_print canon r =
     (case canon r of
        Inr line \<Rightarrow> nats line
      | Inl e \<Rightarrow> [123] @ Quote is_print ''unencodable'' @ [58] @ Quote is_print e @ [125])"

definition letter_member :: "string \<Rightarrow> nat list \<Rightarrow> nat list" where
  "letter_member name v = marshal_string name @ [58] @ v"

definition letter_body :: "StoreDeadLetter \<Rightarrow> time \<Rightarrow> Record \<Rightarrow> string \<Rightarrow> nat list \<Rightarrow> bytes option" where
  "letter_body d now r reason line =
     (if valid_json line then
        Some (chars (123 # letter_member ''reason'' (marshal_string reason)
          @ 44 # letter_member ''at'' (marshal_string (FormatRFC3339Nano now))
          @ 44 # letter_member ''writer'' (marshal_string (dl_Instance d))
          @ 44 # letter_member ''id'' (marshal_string (r_Id r))
          @ 44 # letter_member ''source'' (marshal_string (r_Source r))
          @ 44 # letter_member ''action'' (marshal_string (r_Action r))
          @ 44 # letter_member ''record'' (compact False False line) @ [125]))
      else None)"

definition pad19 :: "int \<Rightarrow> string" where
  "pad19 n = (if n < 0 then CHR ''-'' # zpad 18 (nat (- n)) else zpad 19 (nat n))"

definition letter_key :: "StoreDeadLetter \<Rightarrow> time \<Rightarrow> string" where
  "letter_key d now =
     ''dlq/year='' @ fmt_int 4 (Year now) @ ''/month='' @ fmt_int 2 (Month now) @ ''/day='' @ fmt_int 2 (Day now)
     @ ''/'' @ pad19 now @ ''-'' @ dl_Instance d @ ''-'' @ zpad 6 (unat (dl_seq d)) @ ''.json''"

datatype letter_error = NotMarshalled | LetterPut store_error

definition DeadLetter_Put ::
  "('s \<Rightarrow> obj \<Rightarrow> store_error option \<times> 's) \<Rightarrow> (nat \<Rightarrow> bool) \<Rightarrow> canonical \<Rightarrow> StoreDeadLetter \<Rightarrow> 's \<Rightarrow> Record \<Rightarrow> string
   \<Rightarrow> letter_error option \<times> StoreDeadLetter \<times> 's"
where
  "DeadLetter_Put put is_print canon d s r reason =
     (let now = dl_Now d (dl_reads d); d = d\<lparr>dl_reads := Suc (dl_reads d)\<rparr> in
      case letter_body d now r reason (letter_line is_print canon r) of
        None \<Rightarrow> (Some NotMarshalled, d, s)
      | Some body \<Rightarrow>
          (let d = d\<lparr>dl_seq := dl_seq d + 1\<rparr>;
               retain = (case dl_RetainUntil d of Some f \<Rightarrow> f now | None \<Rightarrow> AddDate now 10 0 0);
               (err, s) = put s (description (letter_key d now) body retain ''application/json''
                 [(''audit-reason'', reason), (''audit-writer'', dl_Instance d)])
           in (map_option LetterPut err, d, s)))"

text \<open>A record is in a dead letter: in the body of an object under \<open>dlq/\<close>, with the reason.\<close>

definition lettered :: "(nat \<Rightarrow> bool) \<Rightarrow> canonical \<Rightarrow> (string \<Rightarrow> obj option) \<Rightarrow> Record \<Rightarrow> bool" where
  "lettered is_print canon objs r \<longleftrightarrow>
     (\<exists>key x d now reason. objs key = Some x \<and> HasPrefix key ''dlq/''
        \<and> letter_body d now r reason (letter_line is_print canon r) = Some (o_Body x))"

lemma lettered_mono: "lettered is_print canon objs r \<Longrightarrow> (\<And>k x. objs k = Some x \<Longrightarrow> \<exists>y. objs' k = Some y \<and> o_Body y = o_Body x) \<Longrightarrow> lettered is_print canon objs' r"
  unfolding lettered_def by metis

context object_store
begin

lemma DeadLetter_Put_result:
  assumes "invar s" "DeadLetter_Put put is_print canon d s r reason = (err, d', s')"
  shows "only_adds s s'" "err = None \<Longrightarrow> lettered is_print canon (objects s') r"
proof -
  let ?d = "d\<lparr>dl_reads := Suc (dl_reads d)\<rparr>" and ?now = "dl_Now d (dl_reads d)"
  have "only_adds s s' \<and> (err = None \<longrightarrow> lettered is_print canon (objects s') r)"
  proof (cases "letter_body ?d ?now r reason (letter_line is_print canon r)")
    case None
    then show ?thesis using assms by (auto simp: DeadLetter_Put_def Let_def only_adds_refl)
  next
    case (Some body)
    define retain where "retain = (case dl_RetainUntil d of Some f \<Rightarrow> f ?now | None \<Rightarrow> AddDate ?now 10 0 0)"
    define x where "x = description (letter_key (?d\<lparr>dl_seq := dl_seq d + 1\<rparr>) ?now) body retain ''application/json''
      [(''audit-reason'', reason), (''audit-writer'', dl_Instance d)]"
    obtain e where p: "put s x = (e, s')" "err = map_option LetterPut e"
      using assms(2) Some by (auto simp: DeadLetter_Put_def Let_def x_def retain_def split: prod.splits)
    have "lettered is_print canon (objects s') r" if none: "e = None"
    proof -
      obtain y where "objects s' (o_Key x) = Some y" "o_Body y = body" using put_body [OF assms(1), of x s'] p(1) none by (auto simp: x_def)
      moreover have "HasPrefix (o_Key x) ''dlq/''" by (simp add: x_def letter_key_def HasPrefix_def)
      ultimately show ?thesis unfolding lettered_def using Some by blast
    qed
    then show ?thesis using put_adds [OF assms(1) p(1)] p(2) by auto
  qed
  then show "only_adds s s'" "err = None \<Longrightarrow> lettered is_print canon (objects s') r" by auto
qed

end

end
