(* ===== verification/Dedupe.thy ===== *)
theory Dedupe
  imports Gotime
begin

text \<open>
  \<open>internal/writer/dedupe.go\<close>: which records have been written. The interface \<open>Dedupe\<close> is the locale
  \<open>dedupe\<close>: what is reported as seen was marked, and asking does not mark. The interpretation \<open>mem_dedupe\<close>
  discharges it for \<open>MemoryDedupe\<close>, whose reads of the clock are numbered.

  Shown: over any sequence of operations the table reports an identifier exactly when its last mark is
  within the window and no purge since has forgotten it.
\<close>

section \<open>The interface\<close>

locale dedupe =
  fixes seen :: "'d \<Rightarrow> string list \<Rightarrow> (string + string list) \<times> 'd"
    and mark :: "'d \<Rightarrow> string list \<Rightarrow> string option \<times> 'd"
    and marked :: "'d \<Rightarrow> string set"
  assumes seen_marked: "seen d ids = (Inr out, d') \<Longrightarrow> set out \<subseteq> marked d \<inter> set ids"
    and seen_keeps: "seen d ids = (res, d') \<Longrightarrow> marked d' = marked d"
    and mark_ok: "mark d ids = (None, d') \<Longrightarrow> marked d' = marked d \<union> (set ids - {[]})"
    and mark_err: "mark d ids = (Some e, d') \<Longrightarrow> marked d \<subseteq> marked d' \<and> marked d' \<subseteq> marked d \<union> set ids"
begin

lemma mark_only: "mark d ids = (res, d') \<Longrightarrow> marked d' \<subseteq> marked d \<union> set ids"
  using mark_ok mark_err by (cases res) blast+

lemma mark_keeps: "mark d ids = (res, d') \<Longrightarrow> marked d \<subseteq> marked d'"
  using mark_ok mark_err by (cases res) blast+

end

section \<open>The table in memory\<close>

record MemoryDedupe =
  d_Window :: int
  d_Now :: "nat \<Rightarrow> time"
  d_reads :: nat
  d_seen :: "string \<rightharpoonup> time"

definition dedupe_now :: "MemoryDedupe \<Rightarrow> time \<times> MemoryDedupe" where
  "dedupe_now d = (d_Now d (d_reads d), d\<lparr>d_reads := Suc (d_reads d)\<rparr>)"

definition window :: "MemoryDedupe \<Rightarrow> int" where
  "window d = (if 0 < d_Window d then d_Window d else 14 * day_ns)"

definition Seen :: "MemoryDedupe \<Rightarrow> string list \<Rightarrow> (string + string list) \<times> MemoryDedupe" where
  "Seen d ids =
     (let (now, d) = dedupe_now d
      in (Inr (filter (\<lambda>ident. ident \<noteq> []
                 \<and> (case d_seen d ident of None \<Rightarrow> False | Some at \<Rightarrow> now - at < window d)) ids), d))"

fun mark_all :: "time \<Rightarrow> string list \<Rightarrow> (string \<rightharpoonup> time) \<Rightarrow> (string \<rightharpoonup> time)" where
  "mark_all now [] s = s"
| "mark_all now (ident # ids) s = mark_all now ids (if ident \<noteq> [] then s(ident \<mapsto> now) else s)"

definition Mark :: "MemoryDedupe \<Rightarrow> string list \<Rightarrow> string option \<times> MemoryDedupe" where
  "Mark d ids =
     (let (now, d) = dedupe_now d
      in (None, d\<lparr>d_seen := mark_all now ids (d_seen d)\<rparr>))"

definition Purge :: "MemoryDedupe \<Rightarrow> time \<Rightarrow> MemoryDedupe" where
  "Purge d before =
     d\<lparr>d_seen := (\<lambda>ident. case d_seen d ident of None \<Rightarrow> None | Some at \<Rightarrow> if at < before then None else Some at)\<rparr>"

lemma window_reads [simp]: "window (d\<lparr>d_reads := n\<rparr>) = window d"
  by (simp add: window_def)

lemma mark_all_apply:
  "mark_all now ids s ident = (if ident \<in> set ids \<and> ident \<noteq> [] then Some now else s ident)"
  by (induction now ids s rule: mark_all.induct) auto

definition marked_in :: "MemoryDedupe \<Rightarrow> string set" where
  "marked_in d = dom (d_seen d)"

interpretation mem_dedupe: dedupe Seen Mark marked_in
  by unfold_locales
    (auto simp: Seen_def Mark_def dedupe_now_def marked_in_def mark_all_apply dom_def split: option.splits if_splits)

section \<open>Sequences of operations\<close>

datatype op = OSeen "string list" | OMark "string list" | OPurge time

fun exec_op :: "MemoryDedupe \<Rightarrow> op \<Rightarrow> MemoryDedupe" where
  "exec_op d (OSeen ids) = snd (Seen d ids)"
| "exec_op d (OMark ids) = snd (Mark d ids)"
| "exec_op d (OPurge t) = Purge d t"

fun reads_of :: "op \<Rightarrow> nat" where
  "reads_of (OPurge t) = 0"
| "reads_of (OSeen ids) = 1"
| "reads_of (OMark ids) = 1"

text \<open>When the operation at a position of a log happened: the clock read it makes.\<close>

definition at_read :: "nat \<Rightarrow> op list \<Rightarrow> nat \<Rightarrow> nat" where
  "at_read n log i = n + sum_list (map reads_of (take i log))"

text \<open>
  The last mark of an identifier in a log, unless a later purge forgot it.
\<close>

definition remembered :: "(nat \<Rightarrow> time) \<Rightarrow> nat \<Rightarrow> op list \<Rightarrow> string \<Rightarrow> time \<Rightarrow> bool" where
  "remembered clock n log ident tm \<longleftrightarrow>
     (\<exists>i < length log. (\<exists>ids. log ! i = OMark ids \<and> ident \<in> set ids) \<and> tm = clock (at_read n log i)
        \<and> (\<forall>j. i < j \<and> j < length log \<longrightarrow>
             (\<forall>ids. log ! j = OMark ids \<longrightarrow> ident \<notin> set ids) \<and> (\<forall>t. log ! j = OPurge t \<longrightarrow> t \<le> tm)))"

lemma at_read_snoc: "i < length log \<Longrightarrow> at_read n (log @ [x]) i = at_read n log i"
  by (simp add: at_read_def)

lemma remembered_snoc:
  "remembered clock n (log @ [x]) ident tm \<longleftrightarrow>
     (\<exists>ids. x = OMark ids \<and> ident \<in> set ids) \<and> tm = clock (at_read n log (length log))
     \<or> remembered clock n log ident tm \<and> (\<forall>ids. x = OMark ids \<longrightarrow> ident \<notin> set ids) \<and> (\<forall>t. x = OPurge t \<longrightarrow> t \<le> tm)"
  (is "?L \<longleftrightarrow> ?A \<or> ?B")
proof
  assume ?L
  then obtain i where i: "i < length (log @ [x])" "\<exists>ids. (log @ [x]) ! i = OMark ids \<and> ident \<in> set ids"
    "tm = clock (at_read n (log @ [x]) i)"
    and later: "\<And>j. i < j \<Longrightarrow> j < length (log @ [x]) \<Longrightarrow>
      (\<forall>ids. (log @ [x]) ! j = OMark ids \<longrightarrow> ident \<notin> set ids) \<and> (\<forall>t. (log @ [x]) ! j = OPurge t \<longrightarrow> t \<le> tm)"
    unfolding remembered_def by blast
  show "?A \<or> ?B"
  proof (cases "i = length log")
    case True
    then show ?thesis using i by (auto simp: at_read_def)
  next
    case False
    then have il: "i < length log" using i(1) by simp
    have "remembered clock n log ident tm" unfolding remembered_def
    proof (intro exI [of _ i] conjI allI impI)
      show "\<exists>ids. log ! i = OMark ids \<and> ident \<in> set ids" using i(2) il by (simp add: nth_append)
      show "tm = clock (at_read n log i)" using i(3) il by (simp add: at_read_snoc)
    qed (use il later in \<open>fastforce simp: nth_append\<close>)+
    then show ?thesis using later [of "length log"] il by simp
  qed
next
  assume "?A \<or> ?B"
  then show ?L
  proof
    assume ?A
    then show ?L unfolding remembered_def by (intro exI [of _ "length log"]) (auto simp: at_read_def)
  next
    assume B: ?B
    then obtain i where i: "i < length log" "\<exists>ids. log ! i = OMark ids \<and> ident \<in> set ids" "tm = clock (at_read n log i)"
      and later: "\<And>j. i < j \<Longrightarrow> j < length log \<Longrightarrow>
        (\<forall>ids. log ! j = OMark ids \<longrightarrow> ident \<notin> set ids) \<and> (\<forall>t. log ! j = OPurge t \<longrightarrow> t \<le> tm)"
      unfolding remembered_def by blast
    show ?L unfolding remembered_def
    proof (intro exI [of _ i] conjI allI impI)
      show "i < length (log @ [x])" using i(1) by simp
      show "\<exists>ids. (log @ [x]) ! i = OMark ids \<and> ident \<in> set ids" using i by (simp add: nth_append)
      show "tm = clock (at_read n (log @ [x]) i)" using i by (simp add: at_read_snoc)
    qed (use B later in \<open>auto simp: nth_append less_Suc_eq\<close>)
  qed
qed

lemma exec_ops:
  assumes "d_seen d = Map.empty"
  shows "d_Now (foldl exec_op d log) = d_Now d \<and> d_Window (foldl exec_op d log) = d_Window d
    \<and> d_reads (foldl exec_op d log) = at_read (d_reads d) log (length log)
    \<and> (\<forall>ident tm. ident \<noteq> [] \<longrightarrow> d_seen (foldl exec_op d log) ident = Some tm \<longleftrightarrow> remembered (d_Now d) (d_reads d) log ident tm)"
proof (induction log rule: rev_induct)
  case Nil
  then show ?case using assms by (simp add: at_read_def remembered_def)
next
  case (snoc x log)
  let ?d = "foldl exec_op d log"
  note f = snoc.IH
  show ?case
  proof (cases x)
    case (OSeen ids)
    then show ?thesis using f by (auto simp: Seen_def dedupe_now_def remembered_snoc at_read_def)
  next
    case (OMark ids)
    then show ?thesis using f
      by (auto simp: Mark_def dedupe_now_def remembered_snoc at_read_def mark_all_apply)
  next
    case (OPurge t)
    have seen: "d_seen (Purge ?d t) ident = Some tm \<longleftrightarrow> d_seen ?d ident = Some tm \<and> t \<le> tm" for ident tm
      by (cases "d_seen ?d ident") (auto simp: Purge_def)
    show ?thesis using f unfolding OPurge foldl_append by (simp add: seen remembered_snoc) (simp add: Purge_def at_read_def)
  qed
qed

text \<open>
  C30: The table in memory, started empty and used in any order, reports an identifier as seen exactly
  when it was marked, its last mark is less than the window ago, and no purge since that mark had a
  cut-off after it.
\<close>

theorem Seen_iff_recently_marked:
  assumes "d_seen d = Map.empty"
  shows "\<exists>out. fst (Seen (foldl exec_op d log) ids) = Inr out
    \<and> (ident \<in> set out \<longleftrightarrow> ident \<in> set ids \<and> ident \<noteq> []
         \<and> (\<exists>tm. remembered (d_Now d) (d_reads d) log ident tm
               \<and> d_Now d (at_read (d_reads d) log (length log)) - tm < window d))"
proof -
  let ?d = "foldl exec_op d log"
  have e: "d_Now ?d = d_Now d" "window ?d = window d" "d_reads ?d = at_read (d_reads d) log (length log)"
    "\<And>ident tm. ident \<noteq> [] \<Longrightarrow> d_seen ?d ident = Some tm \<longleftrightarrow> remembered (d_Now d) (d_reads d) log ident tm"
    using exec_ops [OF assms, of log] by (simp_all add: window_def)
  define out where "out = filter (\<lambda>ident. ident \<noteq> [] \<and> (case d_seen ?d ident of None \<Rightarrow> False
      | Some at \<Rightarrow> d_Now d (at_read (d_reads d) log (length log)) - at < window d)) ids"
  have "fst (Seen ?d ids) = Inr out" using e(1-3) by (simp add: Seen_def dedupe_now_def out_def cong: option.case_cong)
  moreover have "ident \<in> set out \<longleftrightarrow> ident \<in> set ids \<and> ident \<noteq> []
         \<and> (\<exists>tm. remembered (d_Now d) (d_reads d) log ident tm
               \<and> d_Now d (at_read (d_reads d) log (length log)) - tm < window d)"
  proof (cases "ident = []")
    case False
    note e(4) [OF this, symmetric, simp]
    show ?thesis by (auto simp: out_def split: option.splits)
  qed (simp add: out_def)
  ultimately show ?thesis by blast
qed

theorem Seen_iff_recently_marked_witness:
  "(\<exists>tm. remembered int 0 [OMark [''a''], OPurge 0] ''a'' tm) \<and>
   fst (Seen (foldl exec_op \<lparr>d_Window = 5, d_Now = int, d_reads = 0, d_seen = Map.empty\<rparr> [OMark [''a''], OPurge 0]) [''a'', ''b''])
     = Inr [''a'']"
proof -
  let ?d = "\<lparr>d_Window = 5, d_Now = int, d_reads = 0, d_seen = Map.empty\<rparr>"
  have s: "fst (Seen (foldl exec_op ?d [OMark [''a''], OPurge 0]) [''a'', ''b'']) = Inr [''a'']"
    by (simp add: Seen_def Mark_def Purge_def dedupe_now_def window_def)
  have "\<exists>tm. remembered int 0 [OMark [''a''], OPurge 0] ''a'' tm"
    using Seen_iff_recently_marked [of ?d "[OMark [''a''], OPurge 0]" "[''a'', ''b'']" "''a''"] s by auto
  with s show ?thesis by blast
qed

end
