(* ===== verification/Roller.thy ===== *)
theory Roller
  imports Recobj Preset Auditrecord "HOL-Library.AList" "HOL-Library.Product_Lexorder"
begin

text \<open>
  \<open>internal/writer/roll.go\<close>: copies are gathered into one open batch for each profile and tenant, and a
  batch is put as one object when it is full, old or flushed. The store is any that keeps the promises
  of \<open>object_store\<close>; the mutex serialises the operations, so a run is a sequence of them. \<open>rl_Now n\<close> is what
  the clock shows at its \<open>n\<close>-th reading; the calls of the hook \<open>OnPut\<close> are kept in \<open>rl_puts\<close>.

  Shown: a copy that was added without an error is in the open batch of its partition or in a stored
  object of it, retained at least until the date its batch had when it was added, whatever fails in
  between; after a flush without an error it is in the store.
\<close>

section \<open>The roller\<close>

type_synonym partition = "string \<times> string"

record batch =
  b_profile :: Profile
  b_opened :: time
  b_bytes :: int
  b_lines :: "bytes list"
  b_retainAt :: time

record 's Roller =
  rl_Store :: 's
  rl_Instance :: string
  rl_Interval :: int
  rl_MaxBytes :: int
  rl_Held :: "(string \<Rightarrow> string \<Rightarrow> bool) option"
  rl_Now :: "nat \<Rightarrow> time"
  rl_reads :: nat
  rl_puts :: "(string \<times> nat) list"
  rl_open :: "(partition \<times> batch) list"
  rl_ids :: Generator

datatype roll_error =
    NotEncoded string
  | ErrKeyComponent string string string
  | NoULID ulid_error
  | PutFailed string store_error

definition roller_now :: "'s Roller \<Rightarrow> time \<times> 's Roller" where
  "roller_now r = (rl_Now r (rl_reads r), r\<lparr>rl_reads := Suc (rl_reads r)\<rparr>)"

text \<open>The clock is read only if the batch is not full by its bytes.\<close>

definition full :: "'s Roller \<Rightarrow> batch \<Rightarrow> bool \<times> 's Roller" where
  "full r b =
     (let interval = (if rl_Interval r \<le> 0 then 300000000000 else rl_Interval r);
          limit = (if rl_MaxBytes r \<le> 0 then 8388608 else rl_MaxBytes r)
      in if limit \<le> b_bytes b then (True, r)
         else let (now, r) = roller_now r in (interval \<le> now - b_opened b, r))"

definition tenantOf :: "Record \<Rightarrow> string" where
  "tenantOf c = (if r_TenantId c \<noteq> [] then r_TenantId c else TenantPlatform)"

definition forget :: "'s Roller \<Rightarrow> partition \<Rightarrow> 's Roller" where
  "forget r key = r\<lparr>rl_open := AList.delete key (rl_open r)\<rparr>"

definition object_of :: "(bytes \<Rightarrow> bytes) \<Rightarrow> 's Roller \<Rightarrow> partition \<Rightarrow> batch \<Rightarrow> string \<Rightarrow> obj" where
  "object_of compress r key b objectKey =
     (let (body, metadata) = Encode compress (b_lines b) in
      \<lparr>o_Key = objectKey, o_Body = body, o_RetainUntil = b_retainAt b, o_ContentType = ContentType, o_Encoding = Encoding,
       o_Metadata = metadata,
       o_LegalHold = (case rl_Held r of None \<Rightarrow> False | Some held \<Rightarrow> held (pf_Name (b_profile b)) (snd key))\<rparr>)"

definition roller_put ::
  "('s \<Rightarrow> obj \<Rightarrow> store_error option \<times> 's) \<Rightarrow> (bytes \<Rightarrow> bytes) \<Rightarrow> 's Roller \<Rightarrow> partition \<Rightarrow> batch \<Rightarrow> roll_error option \<times> 's Roller"
where
  "roller_put put compress r key b =
     (if b_lines b = [] then (None, forget r key)
      else
        let (now, r) = roller_now r;
            (res, g) = New (rl_ids r) now;
            r = r\<lparr>rl_ids := g\<rparr>
        in case res of
             Inl e \<Rightarrow> (Some (NoULID e), r)
           | Inr (ident, at) \<Rightarrow>
               (let objectKey = RecordKey (fst key) (snd key) at ident;
                    (err, s) = put (rl_Store r) (object_of compress r key b objectKey);
                    r = r\<lparr>rl_Store := s\<rparr>
                in case err of
                     Some e \<Rightarrow> (Some (PutFailed objectKey e), r)
                   | None \<Rightarrow> (None, forget (r\<lparr>rl_puts := rl_puts r @ [(objectKey, length (b_lines b))]\<rparr>) key)))"

text \<open>
  \<open>AddExpiring\<close>; \<open>Add\<close> is it with no expiry. The batch a copy goes to, rolled first if it is full.
\<close>

definition open_batch :: "'s Roller \<Rightarrow> Profile \<Rightarrow> batch \<times> 's Roller" where
  "open_batch r p =
     (let (opened, r) = roller_now r; (now, r) = roller_now r
      in (\<lparr>b_profile = p, b_opened = opened, b_bytes = 0, b_lines = [], b_retainAt = RetainUntil p now None\<rparr>, r))"

definition extend_batch :: "Profile \<Rightarrow> time option \<Rightarrow> batch \<Rightarrow> batch" where
  "extend_batch p expiry b =
     (case expiry of
        None \<Rightarrow> b
      | Some e \<Rightarrow> let until = RetainUntil p (b_opened b) (Some e)
                  in if b_retainAt b < until then b\<lparr>b_retainAt := until\<rparr> else b)"

definition gather :: "'s Roller \<Rightarrow> partition \<Rightarrow> Profile \<Rightarrow> time option \<Rightarrow> bytes \<Rightarrow> batch \<Rightarrow> 's Roller" where
  "gather r key p expiry line b =
     (let b = extend_batch p expiry b;
          b = b\<lparr>b_lines := b_lines b @ [EncodeLine line], b_bytes := b_bytes b + int (length line) + 1\<rparr>
      in r\<lparr>rl_open := AList.update key b (rl_open r)\<rparr>)"

definition key_refused :: "partition \<Rightarrow> roll_error option" where
  "key_refused key =
     (if KeyComponent (fst key) \<noteq> [] then Some (ErrKeyComponent ''profile'' (fst key) (KeyComponent (fst key)))
      else if KeyComponent (snd key) \<noteq> [] then Some (ErrKeyComponent ''tenant'' (snd key) (KeyComponent (snd key)))
      else None)"

definition ensure :: "string \<Rightarrow> 's Roller \<Rightarrow> 's Roller" where
  "ensure instance_name r = (if rl_Instance r = [] then r\<lparr>rl_Instance := instance_name\<rparr> else r)"

definition AddExpiring ::
  "('s \<Rightarrow> obj \<Rightarrow> store_error option \<times> 's) \<Rightarrow> (bytes \<Rightarrow> bytes) \<Rightarrow> canonical \<Rightarrow> string \<Rightarrow> 's Roller \<Rightarrow> Profile \<Rightarrow> Record \<Rightarrow> time option
   \<Rightarrow> roll_error option \<times> 's Roller"
where
  "AddExpiring put compress canon instance_name r p c expiry =
     (case canon c of
        Inl e \<Rightarrow> (Some (NotEncoded e), r)
      | Inr line \<Rightarrow>
          (let key = (pf_Name p, tenantOf c) in
           case key_refused key of
             Some e \<Rightarrow> (Some e, r)
           | None \<Rightarrow>
               (let r = ensure instance_name r in
                case map_of (rl_open r) key of
                  None \<Rightarrow> (let (b, r) = open_batch r p in (None, gather r key p expiry line b))
                | Some b \<Rightarrow>
                    (let (isfull, r) = full r b in
                     if isfull then
                       (case roller_put put compress r key b of
                          (Some e, r) \<Rightarrow> (Some e, r)
                        | (None, r) \<Rightarrow> (let (b, r) = open_batch r p in (None, gather r key p expiry line b)))
                     else (None, gather r key p expiry line b)))))"

fun flush_keys ::
  "('s \<Rightarrow> obj \<Rightarrow> store_error option \<times> 's) \<Rightarrow> (bytes \<Rightarrow> bytes) \<Rightarrow> partition list \<Rightarrow> 's Roller \<Rightarrow> roll_error option \<times> 's Roller"
where
  "flush_keys put compress [] r = (None, r)"
| "flush_keys put compress (k # ks) r =
     (case map_of (rl_open r) k of
        None \<Rightarrow> flush_keys put compress ks (forget r k)
      | Some b \<Rightarrow>
          (case roller_put put compress r k b of
             (Some e, r) \<Rightarrow> (Some e, r)
           | (None, r) \<Rightarrow> flush_keys put compress ks r))"

definition Flush ::
  "('s \<Rightarrow> obj \<Rightarrow> store_error option \<times> 's) \<Rightarrow> (bytes \<Rightarrow> bytes) \<Rightarrow> string \<Rightarrow> 's Roller \<Rightarrow> roll_error option \<times> 's Roller"
where
  "Flush put compress instance_name r =
     (let r = ensure instance_name r in flush_keys put compress (sort (map fst (rl_open r))) r)"

fun any_full :: "batch list \<Rightarrow> 's Roller \<Rightarrow> bool \<times> 's Roller" where
  "any_full [] r = (False, r)"
| "any_full (b # bs) r = (let (isfull, r) = full r b in if isfull then (True, r) else any_full bs r)"

definition Due :: "'s Roller \<Rightarrow> bool \<times> 's Roller" where
  "Due r = any_full (map snd (rl_open r)) r"

definition Pending :: "'s Roller \<Rightarrow> nat" where
  "Pending r = sum_list (map (\<lambda>(key, b). length (b_lines b)) (rl_open r))"

section \<open>Where a copy is\<close>

definition in_batch :: "'s Roller \<Rightarrow> partition \<Rightarrow> bytes \<Rightarrow> time \<Rightarrow> bool" where
  "in_batch r key line tm \<longleftrightarrow>
     (\<exists>b. map_of (rl_open r) key = Some b \<and> line \<in> set (b_lines b) \<and> tm \<le> b_retainAt b)"

definition in_object :: "(bytes \<Rightarrow> bytes) \<Rightarrow> bool \<Rightarrow> (string \<Rightarrow> obj option) \<Rightarrow> partition \<Rightarrow> bytes \<Rightarrow> time \<Rightarrow> bool" where
  "in_object compress lockd objs key line tm \<longleftrightarrow>
     (\<exists>k x ls. objs k = Some x \<and> HasPrefix k (TenantPrefix (fst key) (snd key)) \<and> o_Body x = compress (plain_of ls)
        \<and> line \<in> set ls \<and> (lockd \<longrightarrow> tm \<le> o_RetainUntil x))"

text \<open>No object is lost, changed or kept for less.\<close>

definition keeps_objects :: "(string \<Rightarrow> obj option) \<Rightarrow> (string \<Rightarrow> obj option) \<Rightarrow> bool" where
  "keeps_objects objs objs' \<longleftrightarrow>
     (\<forall>k x. objs k = Some x \<longrightarrow> (\<exists>y. objs' k = Some y \<and> o_Body y = o_Body x \<and> o_RetainUntil x \<le> o_RetainUntil y))"

lemma keeps_objects_refl [simp]: "keeps_objects objs objs"
  by (simp add: keeps_objects_def)

lemma keeps_objects_trans:
  assumes "keeps_objects a b" "keeps_objects b c"
  shows "keeps_objects a c"
  unfolding keeps_objects_def
proof (intro allI impI)
  fix k x assume "a k = Some x"
  then obtain y where y: "b k = Some y" "o_Body y = o_Body x" "o_RetainUntil x \<le> o_RetainUntil y"
    using assms(1) unfolding keeps_objects_def by blast
  then obtain z where "c k = Some z" "o_Body z = o_Body y" "o_RetainUntil y \<le> o_RetainUntil z"
    using assms(2) unfolding keeps_objects_def by blast
  with y show "\<exists>z. c k = Some z \<and> o_Body z = o_Body x \<and> o_RetainUntil x \<le> o_RetainUntil z" by auto
qed

lemma in_object_keeps:
  assumes "keeps_objects objs objs'" "in_object compress lockd objs key line tm"
  shows "in_object compress lockd objs' key line tm"
proof -
  obtain k x ls where k: "objs k = Some x" "HasPrefix k (TenantPrefix (fst key) (snd key))" "o_Body x = compress (plain_of ls)"
    "line \<in> set ls" "lockd \<longrightarrow> tm \<le> o_RetainUntil x" using assms(2) unfolding in_object_def by blast
  obtain y where "objs' k = Some y" "o_Body y = o_Body x" "o_RetainUntil x \<le> o_RetainUntil y"
    using assms(1) k(1) unfolding keeps_objects_def by blast
  with k show ?thesis unfolding in_object_def by (intro exI [of _ k] exI [of _ y] exI [of _ ls]) auto
qed

lemma HasPrefix_RecordKey: "HasPrefix (RecordKey p t at ident) (TenantPrefix p t)"
  by (simp add: RecordKey_def HourPrefix_def)

lemma forget_open: "map_of (rl_open (forget r key)) = (map_of (rl_open r))(key := None)"
  by (simp add: forget_def delete_conv')

lemma roller_now_frame:
  assumes "roller_now r = (now, r')"
  shows "rl_open r' = rl_open r" "rl_Store r' = rl_Store r" "rl_Held r' = rl_Held r" "rl_puts r' = rl_puts r" "rl_ids r' = rl_ids r"
  using assms by (auto simp: roller_now_def)

lemma full_frame:
  assumes "full r b = (d, r')"
  shows "rl_open r' = rl_open r" "rl_Store r' = rl_Store r" "rl_Held r' = rl_Held r"
  using assms by (auto simp: full_def Let_def roller_now_def split: if_splits)

lemma any_full_frame: "any_full bs r = (d, r') \<Longrightarrow> rl_open r' = rl_open r \<and> rl_Store r' = rl_Store r"
proof (induction bs arbitrary: r)
  case (Cons b bs)
  obtain isfull r1 where f: "full r b = (isfull, r1)" by fastforce
  then show ?case using Cons full_frame [OF f] by (auto split: if_splits)
qed simp

lemma open_batch_frame:
  assumes "open_batch r p = (b, r')"
  shows "rl_open r' = rl_open r" "rl_Store r' = rl_Store r" "rl_Held r' = rl_Held r" "b_lines b = []" "b_profile b = p"
  using assms by (auto simp: open_batch_def roller_now_def)

lemma ensure_frame [simp]: "rl_open (ensure n r) = rl_open r" "rl_Store (ensure n r) = rl_Store r" "rl_Held (ensure n r) = rl_Held r"
  by (simp_all add: ensure_def)

lemma extend_batch_frame [simp]: "b_lines (extend_batch p e b) = b_lines b" "b_retainAt b \<le> b_retainAt (extend_batch p e b)"
  by (auto simp: extend_batch_def Let_def split: option.splits)

lemma extend_batch_until: "RetainUntil p (b_opened b) (Some e) \<le> b_retainAt (extend_batch p (Some e) b)"
  by (auto simp: extend_batch_def Let_def)

lemma gather_open:
  "map_of (rl_open (gather r key p expiry line b)) = (map_of (rl_open r))(key \<mapsto>
     (extend_batch p expiry b)\<lparr>b_lines := b_lines b @ [EncodeLine line], b_bytes := b_bytes (extend_batch p expiry b) + int (length line) + 1\<rparr>)"
  by (simp add: gather_def Let_def update_conv')

lemma gather_store [simp]: "rl_Store (gather r key p expiry line b) = rl_Store r"
  by (simp add: gather_def Let_def)

lemma gather_in_batch:
  assumes "in_batch r k l tm" "map_of (rl_open r) key = Some b \<or> key \<notin> dom (map_of (rl_open r))"
  shows "in_batch (gather r key p expiry line b) k l tm"
proof -
  obtain b' where b': "map_of (rl_open r) k = Some b'" "l \<in> set (b_lines b')" "tm \<le> b_retainAt b'"
    using assms(1) unfolding in_batch_def by blast
  show ?thesis
  proof (cases "k = key")
    case True
    then have "b' = b" using assms(2) b'(1) by auto
    then show ?thesis using True b' order_trans [OF b'(3) extend_batch_frame(2)] by (simp add: in_batch_def gather_open)
  qed (use b' in \<open>simp add: in_batch_def gather_open\<close>)
qed

section \<open>Runs of a roller\<close>

context object_store
begin

definition kept :: "(bytes \<Rightarrow> bytes) \<Rightarrow> 's Roller \<Rightarrow> partition \<Rightarrow> bytes \<Rightarrow> time \<Rightarrow> bool" where
  "kept compress r key line tm \<longleftrightarrow>
     in_batch r key line tm \<or> in_object compress (locked (rl_Store r)) (objects (rl_Store r)) key line tm"

definition carries :: "(bytes \<Rightarrow> bytes) \<Rightarrow> 's Roller \<Rightarrow> 's Roller \<Rightarrow> bool" where
  "carries compress r r' \<longleftrightarrow> invar (rl_Store r') \<and> locked (rl_Store r') = locked (rl_Store r)
     \<and> keeps_objects (objects (rl_Store r)) (objects (rl_Store r'))
     \<and> (\<forall>key line tm. kept compress r key line tm \<longrightarrow> kept compress r' key line tm)"

lemma put_keeps_objects: "invar s \<Longrightarrow> put s o' = (res, s') \<Longrightarrow> keeps_objects (objects s) (objects s')"
  using put_keeps by (fastforce simp: keeps_objects_def)

lemma carries_trans:
  assumes "carries compress a b" "carries compress b c"
  shows "carries compress a c"
proof -
  note x = assms(1) [unfolded carries_def] and y = assms(2) [unfolded carries_def]
  from keeps_objects_trans x y have "keeps_objects (objects (rl_Store a)) (objects (rl_Store c))" by metis
  then show ?thesis unfolding carries_def using x y by simp
qed

lemma carries_same:
  assumes "invar (rl_Store r)" "rl_open r' = rl_open r" "rl_Store r' = rl_Store r"
  shows "carries compress r r'"
  using assms by (simp add: carries_def kept_def in_batch_def)

lemma kept_store:
  assumes "keeps_objects (objects (rl_Store r)) (objects s)" "locked s = locked (rl_Store r)" "kept compress r key line tm"
  shows "in_batch r key line tm \<or> in_object compress (locked s) (objects s) key line tm"
  using assms(2,3) in_object_keeps [OF assms(1), of compress "locked (rl_Store r)" key line tm] by (auto simp: kept_def)

text \<open>The two ends of a put that had something to write.\<close>

lemma roller_put_cases:
  assumes "roller_put put compress r key b = (res, r')" "b_lines b \<noteq> []"
  obtains (no_id) e where "res = Some (NoULID e)" "rl_open r' = rl_open r" "rl_Store r' = rl_Store r"
  | (failed) k x e where "put (rl_Store r) x = (Some e, rl_Store r')" "res = Some (PutFailed k e)" "rl_open r' = rl_open r"
  | (stored) now r1 ident tm g where "roller_now r = (now, r1)" "New (rl_ids r) now = (Inr (ident, tm), g)"
      "put (rl_Store r) (object_of compress r key b (RecordKey (fst key) (snd key) tm ident)) = (None, rl_Store r')"
      "res = None" "map_of (rl_open r') = (map_of (rl_open r))(key := None)"
proof -
  obtain now r1 where n: "roller_now r = (now, r1)" by fastforce
  obtain nres g where g: "New (rl_ids r1) now = (nres, g)" by fastforce
  note frame = roller_now_frame [OF n]
  have obj: "object_of compress (r1\<lparr>rl_ids := g\<rparr>) key b k = object_of compress r key b k" for k
    by (simp add: object_of_def frame)
  show thesis
  proof (cases nres)
    case (Inl e)
    then show thesis using assms n g frame by (intro no_id [of e]) (auto simp: roller_put_def)
  next
    case (Inr ia)
    obtain ident tm where ia: "ia = (ident, tm)" by fastforce
    let ?x = "object_of compress r key b (RecordKey (fst key) (snd key) tm ident)"
    obtain err s where p: "put (rl_Store r) ?x = (err, s)" by fastforce
    show thesis
    proof (cases err)
      case None
      then have "res = None" "r' = forget (r1\<lparr>rl_ids := g, rl_Store := s, rl_puts := rl_puts r1 @
          [(RecordKey (fst key) (snd key) tm ident, length (b_lines b))]\<rparr>) key"
        using assms n g Inr ia p by (simp_all add: roller_put_def obj frame)
      then show thesis using n g Inr ia p None frame
        by (intro stored [of now r1 ident tm g]) (auto simp: forget_open, simp add: forget_def)
    next
      case (Some e)
      then have "res = Some (PutFailed (RecordKey (fst key) (snd key) tm ident) e)" "r' = r1\<lparr>rl_ids := g, rl_Store := s\<rparr>"
        using assms n g Inr ia p by (simp_all add: roller_put_def obj frame)
      then show thesis using p Some frame by (intro failed [of ?x e "RecordKey (fst key) (snd key) tm ident"]) auto
    qed
  qed
qed

lemma object_of_stored:
  assumes "invar s" "put s (object_of compress r key b (RecordKey (fst key) (snd key) at ident)) = (None, s')"
    and "line \<in> set (b_lines b)" "tm \<le> b_retainAt b"
  shows "in_object compress (locked s') (objects s') key line tm"
proof -
  let ?x = "object_of compress r key b (RecordKey (fst key) (snd key) at ident)"
  have "objects s' (o_Key ?x) = Some (if locked s then ?x else ?x\<lparr>o_RetainUntil := zero_time, o_LegalHold := False\<rparr>)"
    using put_ok [OF assms(1,2)] by simp
  moreover have "locked s' = locked s" using put_invar [OF assms(1,2)] by blast
  ultimately show ?thesis unfolding in_object_def using assms(3,4) HasPrefix_RecordKey
    by (intro exI [of _ "o_Key ?x"] exI [of _ "if locked s then ?x else ?x\<lparr>o_RetainUntil := zero_time, o_LegalHold := False\<rparr>"]
        exI [of _ "b_lines b"]) (auto simp: object_of_def Encode_def Let_def)
qed

lemma roller_put_carries:
  assumes "roller_put put compress r key b = (res, r')" "invar (rl_Store r)" "map_of (rl_open r) key = Some b"
  shows "carries compress r r' \<and> (res = None \<longrightarrow> map_of (rl_open r') = (map_of (rl_open r))(key := None))
    \<and> (res \<noteq> None \<longrightarrow> rl_open r' = rl_open r)"
proof (cases "b_lines b = []")
  case True
  then have r': "res = None" "r' = forget r key" using assms(1) by (simp_all add: roller_put_def)
  have "carries compress r r'" using assms(2,3) True r'
    by (auto simp: carries_def kept_def in_batch_def forget_open) (simp_all add: forget_def)
  then show ?thesis using r' by (simp add: forget_open)
next
  case False
  from assms(1) False show ?thesis
  proof (cases rule: roller_put_cases)
    case (no_id e)
    then show ?thesis using carries_same [OF assms(2)] by simp
  next
    case (failed k x e)
    have keep: "keeps_objects (objects (rl_Store r)) (objects (rl_Store r'))" by (rule put_keeps_objects [OF assms(2) failed(1)])
    have inv: "invar (rl_Store r')" "locked (rl_Store r') = locked (rl_Store r)" using put_invar [OF assms(2) failed(1)] by auto
    have "kept compress r k l t \<Longrightarrow> kept compress r' k l t" for k l t
      using kept_store [OF keep inv(2)] failed(3) by (auto simp: kept_def in_batch_def)
    then show ?thesis using keep inv failed by (simp add: carries_def)
  next
    case (stored now r1 ident tm g)
    have keep: "keeps_objects (objects (rl_Store r)) (objects (rl_Store r'))" by (rule put_keeps_objects [OF assms(2) stored(3)])
    have inv: "invar (rl_Store r')" "locked (rl_Store r') = locked (rl_Store r)" using put_invar [OF assms(2) stored(3)] by auto
    have "kept compress r' k l t" if "kept compress r k l t" for k l t
    proof (cases "k = key \<and> in_batch r k l t")
      case True
      then have "l \<in> set (b_lines b)" "t \<le> b_retainAt b" using assms(3) by (auto simp: in_batch_def)
      from object_of_stored [OF assms(2) stored(3) this] True show ?thesis by (simp add: kept_def)
    next
      case False
      then show ?thesis using kept_store [OF keep inv(2) that] stored(5) by (auto simp: kept_def in_batch_def)
    qed
    then show ?thesis using keep inv stored by (simp add: carries_def)
  qed
qed

lemma gather_carries:
  assumes "invar (rl_Store r)" "map_of (rl_open r) key = Some b \<or> key \<notin> dom (map_of (rl_open r))"
  shows "carries compress r (gather r key p expiry line b)"
  using assms gather_in_batch [OF _ assms(2)] by (auto simp: carries_def kept_def)

lemma open_gather_carries:
  assumes "open_batch r p = (b, r1)" "invar (rl_Store r)" "map_of (rl_open r) key = None"
  shows "carries compress r (gather r1 key p expiry line b)"
proof -
  note f = open_batch_frame [OF assms(1)]
  have "carries compress r r1" using assms(2) f by (intro carries_same) simp_all
  moreover have "carries compress r1 (gather r1 key p expiry line b)"
    using assms(2,3) f by (intro gather_carries) (simp_all add: domIff)
  ultimately show ?thesis by (rule carries_trans)
qed

lemma AddExpiring_carries:
  assumes "AddExpiring put compress canon inst r p c expiry = (res, r')" "invar (rl_Store r)"
  shows "carries compress r r'"
    and "res = None \<Longrightarrow> \<exists>line b. canon c = Inr line \<and> map_of (rl_open r') (pf_Name p, tenantOf c) = Some b
      \<and> EncodeLine line \<in> set (b_lines b) \<and> (\<forall>e. expiry = Some e \<longrightarrow> RetainUntil p (b_opened b) (Some e) \<le> b_retainAt b)"
proof -
  let ?key = "(pf_Name p, tenantOf c)" and ?r = "ensure inst r"
  have e: "carries compress r ?r" using assms(2) by (intro carries_same) simp_all
  have added: "\<exists>b'. map_of (rl_open (gather q ?key p expiry line b)) ?key = Some b' \<and> EncodeLine line \<in> set (b_lines b')
      \<and> (\<forall>e. expiry = Some e \<longrightarrow> RetainUntil p (b_opened b') (Some e) \<le> b_retainAt b')" for q :: "'s Roller" and line b
  proof -
    have "b_opened (extend_batch p expiry b) = b_opened b" by (simp add: extend_batch_def Let_def split: option.splits)
    then show ?thesis using extend_batch_until [of p b] by (auto simp: gather_open)
  qed
  have *: "carries compress r r' \<and> (res = None \<longrightarrow> (\<exists>line b. canon c = Inr line \<and> map_of (rl_open r') ?key = Some b
      \<and> EncodeLine line \<in> set (b_lines b) \<and> (\<forall>e. expiry = Some e \<longrightarrow> RetainUntil p (b_opened b) (Some e) \<le> b_retainAt b)))"
  proof (cases "canon c")
    case (Inl x)
    then show ?thesis using assms(1) carries_same [OF assms(2)] by (auto simp: AddExpiring_def)
  next
    case line: (Inr line)
    show ?thesis
    proof (cases "key_refused ?key")
      case (Some x)
      then show ?thesis using assms(1) carries_same [OF assms(2)] line by (auto simp: AddExpiring_def)
    next
      case ok: None
      show ?thesis
      proof (cases "map_of (rl_open r) ?key")
        case None
        obtain b r1 where b: "open_batch ?r p = (b, r1)" by fastforce
        then have "res = None" "r' = gather r1 ?key p expiry line b"
          using assms(1) line ok None by (auto simp: AddExpiring_def Let_def)
        moreover have "carries compress ?r (gather r1 ?key p expiry line b)"
          using assms(2) None by (intro open_gather_carries [OF b]) simp_all
        ultimately show ?thesis using added [of r1 line b] carries_trans [OF e] line by simp
      next
        case (Some b)
        obtain isfull r1 where f: "full ?r b = (isfull, r1)" by fastforce
        note ff = full_frame [OF f]
        have c1: "carries compress ?r r1" using assms(2) ff by (intro carries_same) simp_all
        show ?thesis
        proof (cases isfull)
          case False
          then have "res = None" "r' = gather r1 ?key p expiry line b"
            using assms(1) line ok Some f by (auto simp: AddExpiring_def Let_def)
          moreover have "carries compress r1 (gather r1 ?key p expiry line b)"
            using assms(2) Some ff by (intro gather_carries) simp_all
          ultimately show ?thesis using added [of r1 line b] carries_trans [OF e] carries_trans [OF c1] line by simp
        next
          case True
          obtain pres r2 where pt: "roller_put put compress r1 ?key b = (pres, r2)" by fastforce
          have inv1: "invar (rl_Store r1)" "map_of (rl_open r1) ?key = Some b" using assms(2) Some ff by simp_all
          note pc = roller_put_carries [OF pt inv1]
          show ?thesis
          proof (cases pres)
            case (Some x)
            then have "res = Some x" "r' = r2"
              using assms(1) line ok \<open>map_of (rl_open r) ?key = Some b\<close> f True pt by (auto simp: AddExpiring_def Let_def)
            then show ?thesis using pc carries_trans [OF e] carries_trans [OF c1] by simp
          next
            case None
            obtain b2 r3 where o: "open_batch r2 p = (b2, r3)" by fastforce
            have "res = None" "r' = gather r3 ?key p expiry line b2"
              using assms(1) line ok \<open>map_of (rl_open r) ?key = Some b\<close> f True pt None o by (auto simp: AddExpiring_def Let_def)
            moreover have "carries compress r2 (gather r3 ?key p expiry line b2)"
              using pc None by (intro open_gather_carries [OF o]) (auto simp: carries_def)
            ultimately show ?thesis
              using pc added [of r3 line b2] carries_trans [OF e] carries_trans [OF c1] carries_trans line by blast
          qed
        qed
      qed
    qed
  qed
  show "carries compress r r'" using * by blast
  show "res = None \<Longrightarrow> \<exists>line b. canon c = Inr line \<and> map_of (rl_open r') ?key = Some b
      \<and> EncodeLine line \<in> set (b_lines b) \<and> (\<forall>e. expiry = Some e \<longrightarrow> RetainUntil p (b_opened b) (Some e) \<le> b_retainAt b)"
    using * by blast
qed

lemma flush_keys_carries:
  assumes "flush_keys put compress ks r = (res, r')" "invar (rl_Store r)"
  shows "carries compress r r' \<and> (res = None \<longrightarrow> dom (map_of (rl_open r')) = dom (map_of (rl_open r)) - set ks)"
  using assms
proof (induction ks arbitrary: r)
  case Nil
  then show ?case using carries_same by simp
next
  case (Cons k ks)
  show ?case
  proof (cases "map_of (rl_open r) k")
    case None
    have "rl_Store (forget r k) = rl_Store r" by (simp add: forget_def)
    moreover have "carries compress r (forget r k)"
      using Cons.prems(2) None by (auto simp: carries_def kept_def in_batch_def forget_open) (simp_all add: forget_def)
    moreover have "flush_keys put compress ks (forget r k) = (res, r')" using Cons.prems(1) None by simp
    ultimately have "carries compress r r' \<and> (res = None \<longrightarrow> dom (map_of (rl_open r')) = dom (map_of (rl_open (forget r k))) - set ks)"
      using Cons.IH [of "forget r k"] Cons.prems(2) carries_trans [of compress r "forget r k" r'] by simp
    then show ?thesis using None by (auto simp: forget_open domIff split: if_splits)
  next
    case (Some b)
    obtain pres r1 where p: "roller_put put compress r k b = (pres, r1)" by fastforce
    note pc = roller_put_carries [OF p Cons.prems(2) Some]
    show ?thesis
    proof (cases pres)
      case None
      then have "flush_keys put compress ks r1 = (res, r')" using Cons.prems(1) Some p by simp
      moreover have "invar (rl_Store r1)" using pc by (simp add: carries_def)
      ultimately have "carries compress r r' \<and> (res = None \<longrightarrow> dom (map_of (rl_open r')) = dom (map_of (rl_open r1)) - set ks)"
        using Cons.IH [of r1] pc carries_trans [of compress r r1 r'] by simp
      then show ?thesis using pc None by auto
    qed (use Cons.prems(1) Some p pc in auto)
  qed
qed

lemma Flush_carries:
  assumes "Flush put compress inst r = (res, r')" "invar (rl_Store r)"
  shows "carries compress r r'" and "res = None \<Longrightarrow> rl_open r' = []"
proof -
  have e: "carries compress r (ensure inst r)" using assms(2) by (intro carries_same) simp_all
  have f: "flush_keys put compress (sort (map fst (rl_open (ensure inst r)))) (ensure inst r) = (res, r')"
    using assms(1) by (simp add: Flush_def)
  have inv: "invar (rl_Store (ensure inst r))" using assms(2) by simp
  note fc = flush_keys_carries [OF f inv]
  show "carries compress r r'" using carries_trans [OF e] fc by blast
  assume "res = None"
  then have "dom (map_of (rl_open r')) = {}" using fc by (simp add: dom_map_of_conv_image_fst)
  then show "rl_open r' = []" by (simp add: dom_map_of_conv_image_fst)
qed

end

text \<open>
  The steps of a run: a copy is added, or refused with an error; the roller is flushed, with or
  without an error; it is asked whether something is due; the store changes under it, by other
  writers, as \<open>grows\<close> allows. Beside the roller stands the account of what was accepted: each
  partition, line and the date its batch was to be kept until when it was added.
\<close>

inductive roll_step ::
  "('s \<Rightarrow> obj \<Rightarrow> store_error option \<times> 's) \<Rightarrow> (bytes \<Rightarrow> bytes) \<Rightarrow> canonical \<Rightarrow> string \<Rightarrow> ('s \<Rightarrow> 's \<Rightarrow> bool)
   \<Rightarrow> 's Roller \<times> (partition \<times> bytes \<times> time) set \<Rightarrow> 's Roller \<times> (partition \<times> bytes \<times> time) set \<Rightarrow> bool"
  for put compress canon inst grows
where
  added: "AddExpiring put compress canon inst r p c expiry = (None, r') \<Longrightarrow> canon c = Inr line \<Longrightarrow>
    map_of (rl_open r') (pf_Name p, tenantOf c) = Some b \<Longrightarrow>
    roll_step put compress canon inst grows (r, A) (r', insert ((pf_Name p, tenantOf c), EncodeLine line, b_retainAt b) A)"
| refused: "AddExpiring put compress canon inst r p c expiry = (Some e, r') \<Longrightarrow> roll_step put compress canon inst grows (r, A) (r', A)"
| flushed: "Flush put compress inst r = (res, r') \<Longrightarrow> roll_step put compress canon inst grows (r, A) (r', A)"
| asked: "Due r = (d, r') \<Longrightarrow> roll_step put compress canon inst grows (r, A) (r', A)"
| others: "grows (rl_Store r) s \<Longrightarrow> roll_step put compress canon inst grows (r, A) (r\<lparr>rl_Store := s\<rparr>, A)"

context object_store
begin

definition grows_to :: "'s \<Rightarrow> 's \<Rightarrow> bool" where
  "grows_to s s' \<longleftrightarrow> invar s' \<and> locked s' = locked s \<and> keeps_objects (objects s) (objects s')"

definition accounted :: "(bytes \<Rightarrow> bytes) \<Rightarrow> 's Roller \<times> (partition \<times> bytes \<times> time) set \<Rightarrow> bool" where
  "accounted compress ra \<longleftrightarrow> invar (rl_Store (fst ra)) \<and> (\<forall>(key, line, tm) \<in> snd ra. kept compress (fst ra) key line tm)"

lemma accounted_carries:
  "accounted compress (r, A) \<Longrightarrow> carries compress r r' \<Longrightarrow> accounted compress (r', A)"
  by (auto simp: accounted_def carries_def)

lemma roll_step_accounted:
  assumes "roll_step put compress canon inst grows_to ra rb" "accounted compress ra"
  shows "accounted compress rb"
  using assms
proof (cases rule: roll_step.cases)
  case (added r p c expiry r' line b A)
  have inv: "invar (rl_Store r)" using assms(2) added(1) by (simp add: accounted_def)
  note c = AddExpiring_carries [OF added(3) inv]
  obtain line' b' where "canon c = Inr line'" "map_of (rl_open r') (pf_Name p, tenantOf c) = Some b'"
    "EncodeLine line' \<in> set (b_lines b')" using c(2) by blast
  then have "in_batch r' (pf_Name p, tenantOf c) (EncodeLine line) (b_retainAt b)" using added(4,5) by (simp add: in_batch_def)
  then show ?thesis using accounted_carries [of compress r A r'] c(1) assms(2) added(1,2) by (simp add: accounted_def kept_def)
next
  case (refused r p c expiry e r' A)
  have inv: "invar (rl_Store r)" using assms(2) refused(1) by (simp add: accounted_def)
  show ?thesis using accounted_carries [OF _ AddExpiring_carries(1) [OF refused(3) inv]] assms(2) refused(1,2) by simp
next
  case (flushed r res r' A)
  have inv: "invar (rl_Store r)" using assms(2) flushed(1) by (simp add: accounted_def)
  show ?thesis using accounted_carries [OF _ Flush_carries(1) [OF flushed(3) inv]] assms(2) flushed(1,2) by simp
next
  case (asked r d r' A)
  then have "rl_open r' = rl_open r" "rl_Store r' = rl_Store r" using any_full_frame by (auto simp: Due_def)
  moreover have inv: "invar (rl_Store r)" using assms(2) asked(1) by (simp add: accounted_def)
  ultimately have "carries compress r r'" by (intro carries_same)
  then show ?thesis using accounted_carries [of compress r A r'] assms(2) asked(1,2) by simp
next
  case (others r s A)
  have "kept compress (r\<lparr>rl_Store := s\<rparr>) k l t" if "kept compress r k l t" for k l t
    using kept_store [OF _ _ that, of s] others(3) by (auto simp: grows_to_def kept_def in_batch_def)
  then have "carries compress r (r\<lparr>rl_Store := s\<rparr>)" using others(3) by (simp add: carries_def grows_to_def)
  then show ?thesis using accounted_carries assms(2) others by blast
qed

lemma roll_run_accounted:
  assumes "(roll_step put compress canon inst grows_to)\<^sup>*\<^sup>* ra rb" "accounted compress ra"
  shows "accounted compress rb"
  using assms by (induction rule: rtranclp_induct) (use roll_step_accounted in blast)+

lemma flushed_stored:
  assumes "accounted compress (r, A)" "Flush put compress inst r = (None, r')" "(key, line, tm) \<in> A"
  shows "in_object compress (locked (rl_Store r')) (objects (rl_Store r')) key line tm" and "Pending r' = 0"
proof -
  have inv: "invar (rl_Store r)" using assms(1) by (simp add: accounted_def)
  have "rl_open r' = []" using Flush_carries(2) [OF assms(2) inv] by simp
  moreover have "kept compress r' key line tm"
    using accounted_carries [OF assms(1) Flush_carries(1) [OF assms(2) inv]] assms(3) by (auto simp: accounted_def)
  ultimately show "in_object compress (locked (rl_Store r')) (objects (rl_Store r')) key line tm" "Pending r' = 0"
    by (simp_all add: kept_def in_batch_def Pending_def)
qed

end

section \<open>Properties\<close>

text \<open>What other writers may do to the store in memory.\<close>

definition mem_grows :: "memory \<Rightarrow> memory \<Rightarrow> bool" where
  "mem_grows s s' \<longleftrightarrow> mem_invar s' \<and> m_Unlocked s' = m_Unlocked s \<and> keeps_objects (mem_objects s) (mem_objects s')"

lemma mem_grows_to: "mem.grows_to = mem_grows"
  by (auto simp: fun_eq_iff mem.grows_to_def mem_grows_def)

text \<open>
  C2: Over any run of a roller (copies added or refused, flushes that succeed or fail, changes other
  writers make to the store), each copy whose addition returned no error is in the open batch of
  its profile and tenant, to be kept at least until the date its batch had, or in a stored object
  under them, locked at least until that date where the store locks. After a flush that returns no
  error, nothing is pending and every one of them is in a stored object.
\<close>

theorem roller_never_loses:
  assumes "(roll_step mem_Put compress canon inst mem_grows)\<^sup>*\<^sup>* (r0, {}) (r, A)" "mem_invar (rl_Store r0)"
  shows "(\<forall>(key, line, tm) \<in> A. in_batch r key line tm
            \<or> in_object compress (\<not> m_Unlocked (rl_Store r)) (mem_objects (rl_Store r)) key line tm)
    \<and> (\<forall>r'. Flush mem_Put compress inst r = (None, r') \<longrightarrow> Pending r' = 0
         \<and> (\<forall>(key, line, tm) \<in> A. in_object compress (\<not> m_Unlocked (rl_Store r')) (mem_objects (rl_Store r')) key line tm))"
proof -
  have "mem.accounted compress (r0, {})" using assms(2) by (simp add: mem.accounted_def)
  then have acc: "mem.accounted compress (r, A)" using mem.roll_run_accounted assms(1) by (simp add: mem_grows_to)
  then have inv: "mem_invar (rl_Store r)" and kept: "\<forall>(key, line, tm) \<in> A. mem.kept compress r key line tm"
    by (simp_all add: mem.accounted_def)
  have "Pending r' = 0" if "Flush mem_Put compress inst r = (None, r')" for r'
    using mem.Flush_carries(2) [OF that inv] by (simp add: Pending_def)
  then show ?thesis using kept mem.flushed_stored(1) [OF acc] by (auto simp: mem.kept_def)
qed

definition example_generator :: Generator where
  "example_generator = \<lparr>g_ms = 0, g_rand = replicate 10 0, g_calls = 0, g_Entropy = (\<lambda>n. (replicate 10 9, False))\<rparr>"

definition example_roller :: "memory Roller" where
  "example_roller = \<lparr>rl_Store = NewMemory (\<lambda>n. 0), rl_Instance = ''w'', rl_Interval = 0, rl_MaxBytes = 0, rl_Held = None,
     rl_Now = (\<lambda>n. 5000000), rl_reads = 0, rl_puts = [], rl_open = [], rl_ids = example_generator\<rparr>"

lemma mem_invar_example: "mem_invar (rl_Store example_roller)"
  by (auto simp: mem_invar_def example_roller_def NewMemory_def)

theorem roller_never_loses_witness:
  "\<exists>r line tm. (roll_step mem_Put (\<lambda>x. x) (\<lambda>r. Inr (r_Id r)) ''w'' mem_grows)\<^sup>*\<^sup>* (example_roller, {})
       (r, {((''security'', ''acme''), line, tm)})
     \<and> (in_batch r (''security'', ''acme'') line tm
        \<or> in_object (\<lambda>x. x) (\<not> m_Unlocked (rl_Store r)) (mem_objects (rl_Store r)) (''security'', ''acme'') line tm)"
proof -
  let ?p = "example_profile\<lparr>pf_Name := ''security''\<rparr>" and ?c = "empty_record\<lparr>r_TenantId := ''acme''\<rparr>"
    and ?canon = "\<lambda>r. Inr (r_Id r) :: string + bytes"
  obtain res r where a: "AddExpiring mem_Put (\<lambda>x. x) ?canon ''w'' example_roller ?p ?c None = (res, r)" by fastforce
  have key: "(pf_Name ?p, tenantOf ?c) = (''security'', ''acme'')" by (simp add: tenantOf_def)
  have "res = None" using a
    by (auto simp: AddExpiring_def key_refused_def KeyComponent_def tenantOf_def example_roller_def open_batch_def roller_now_def
        ensure_def Let_def)
  then obtain b where b: "map_of (rl_open r) (pf_Name ?p, tenantOf ?c) = Some b"
    using mem.AddExpiring_carries(2) [OF a mem_invar_example] by blast
  have "roll_step mem_Put (\<lambda>x. x) ?canon ''w'' mem_grows (example_roller, {})
      (r, insert ((pf_Name ?p, tenantOf ?c), EncodeLine (r_Id ?c), b_retainAt b) {})"
    using a \<open>res = None\<close> by (intro roll_step.added [OF _ _ b]) simp_all
  then have run: "(roll_step mem_Put (\<lambda>x. x) ?canon ''w'' mem_grows)\<^sup>*\<^sup>* (example_roller, {})
      (r, {((''security'', ''acme''), EncodeLine (r_Id ?c), b_retainAt b)})" unfolding key by (rule r_into_rtranclp)
  from roller_never_loses [OF this mem_invar_example] run show ?thesis by blast
qed

text \<open>
  A put that returns no error has written exactly one new object: the batch's lines, compressed,
  under the key of its profile, its tenant and the moment it was taken, locked until the batch's date
  and under a legal hold if its partition is held, with metadata that agrees with it; and the batch
  is no longer open. Where the moment is of a year the layout can write, the key reads back.
\<close>

theorem put_writes_the_batch:
  assumes "roller_put mem_Put compress r key b = (None, r')" "b_lines b \<noteq> []" "mem_invar (rl_Store r)"
    and "\<not> m_Unlocked (rl_Store r)" "key_refused key = None" "gen_ok (rl_ids r)" "Suc (unat (g_ms (rl_ids r))) < 2 ^ 48"
    and "0 \<le> UnixMilli (rl_Now r (rl_reads r))" "UnixMilli (rl_Now r (rl_reads r)) < 2 ^ 48"
  shows "\<exists>tm ident x. mem_objects (rl_Store r) (RecordKey (fst key) (snd key) tm ident) = None
    \<and> mem_objects (rl_Store r') = (mem_objects (rl_Store r))(RecordKey (fst key) (snd key) tm ident \<mapsto> x)
    \<and> o_Body x = compress (plain_of (b_lines b)) \<and> o_RetainUntil x = b_retainAt b
    \<and> o_LegalHold x = (case rl_Held r of None \<Rightarrow> False | Some held \<Rightarrow> held (pf_Name (b_profile b)) (snd key))
    \<and> CheckMetadata (o_Metadata x) (o_Body x) (length (b_lines b)) = []
    \<and> map_of (rl_open r') key = None
    \<and> (written_year tm \<longrightarrow> ParseRecordKey (RecordKey (fst key) (snd key) tm ident) =
         Some \<lparr>ro_Profile = fst key, ro_Tenant = snd key, ro_Hour = Truncate_hour tm, ro_ULID = ident\<rparr>)"
  using assms(1,2)
proof (cases rule: mem.roller_put_cases)
  case (stored now r1 ident tm g)
  let ?x = "object_of compress r key b (RecordKey (fst key) (snd key) tm ident)"
  have k: "o_Key ?x = RecordKey (fst key) (snd key) tm ident" by (simp add: object_of_def Encode_def Let_def)
  have now: "now = rl_Now r (rl_reads r)" using stored(1) by (simp add: roller_now_def)
  have new: "gen_ok g" "unat (g_ms g) < 2 ^ 48" "ident = encode (g_ms g) (g_rand g)" "tm = of_UnixMilli (sint (g_ms g))"
    using New_step [OF stored(2) assms(6,7)] assms(8,9) assms(7) by (auto simp: now)
  then have "Valid ident" "Time ident = Inr tm" using Time_encode Valid_encode sint_small [of "g_ms g"] by (auto simp: gen_ok_def)
  moreover have "fst key \<noteq> [] \<and> snd key \<noteq> [] \<and> CHR ''/'' \<notin> set (fst key) \<and> CHR ''/'' \<notin> set (snd key)"
    using assms(5) by (auto simp: key_refused_def KeyComponent_def split: if_splits)
  ultimately have parse: "written_year tm \<longrightarrow> ParseRecordKey (RecordKey (fst key) (snd key) tm ident) =
         Some \<lparr>ro_Profile = fst key, ro_Tenant = snd key, ro_Hour = Truncate_hour tm, ro_ULID = ident\<rparr>"
    using ParseRecordKey_RecordKey by simp
  have "mem_objects (rl_Store r) (o_Key ?x) = None \<and> mem_objects (rl_Store r') = (mem_objects (rl_Store r))(o_Key ?x \<mapsto> ?x)"
    using mem.put_ok [OF assms(3) stored(3)] assms(4) by simp
  moreover have "o_Body ?x = compress (plain_of (b_lines b))" "o_RetainUntil ?x = b_retainAt b"
    "o_LegalHold ?x = (case rl_Held r of None \<Rightarrow> False | Some held \<Rightarrow> held (pf_Name (b_profile b)) (snd key))"
    "CheckMetadata (o_Metadata ?x) (o_Body ?x) (length (b_lines b)) = []"
    by (simp_all add: object_of_def Encode_def Let_def CheckMetadata_Metadata)
  moreover have "map_of (rl_open r') key = None" using stored(5) by simp
  ultimately show ?thesis using parse unfolding k by (intro exI [of _ tm] exI [of _ ident] exI [of _ ?x]) auto
qed auto

definition example_batch :: batch where
  "example_batch = \<lparr>b_profile = example_profile, b_opened = 0, b_bytes = 2, b_lines = [''x''], b_retainAt = 9\<rparr>"

theorem put_writes_the_batch_witness:
  "\<exists>k x. mem_objects (rl_Store (snd (roller_put mem_Put (\<lambda>x. x) example_roller (''security'', ''acme'') example_batch))) k = Some x
     \<and> o_RetainUntil x = 9"
proof -
  let ?out = "roller_put mem_Put (\<lambda>x. x) example_roller (''security'', ''acme'') example_batch"
  have new: "fst (New example_generator 5000000) = Inr (encode 5 (replicate 10 9), 5000000)" by code_simp
  then obtain g where g: "New example_generator 5000000 = (Inr (encode 5 (replicate 10 9), 5000000), g)"
    by (metis prod.collapse)
  have "fst ?out = None"
    by (simp add: roller_put_def example_batch_def example_roller_def roller_now_def g mem_Put_def NewMemory_def
        object_of_def Encode_def RecordKey_def HourPrefix_def TenantPrefix_def ProfilePrefix_def RecordsPrefix_def Let_def)
  then obtain r' where r': "?out = (None, r')" by (metis prod.collapse)
  have "b_lines example_batch \<noteq> []" "\<not> m_Unlocked (rl_Store example_roller)" "key_refused (''security'', ''acme'') = None"
    "gen_ok (rl_ids example_roller)" "Suc (unat (g_ms (rl_ids example_roller))) < 2 ^ 48"
    "0 \<le> UnixMilli (rl_Now example_roller (rl_reads example_roller))" "UnixMilli (rl_Now example_roller (rl_reads example_roller)) < 2 ^ 48"
    by (simp_all add: example_batch_def example_roller_def NewMemory_def key_refused_def KeyComponent_def gen_ok_def
        example_generator_def UnixMilli_def)
  note this(1) mem_invar_example this(2-7)
  from put_writes_the_batch [OF r' this] obtain k x where
    "mem_objects (rl_Store r') = (mem_objects (rl_Store example_roller))(k \<mapsto> x)" "o_RetainUntil x = b_retainAt example_batch"
    by blast
  then show ?thesis unfolding r' by (intro exI [of _ k] exI [of _ x]) (simp add: example_batch_def)
qed

end
