(* ===== verification/Splitter.thy ===== *)
theory Splitter
  imports Catalogue
begin

text \<open>
  \<open>internal/writer/split.go\<close>: the copies a record's profiles keep. The key provider and the keeper of
  identities are functions on a state of their own, \<open>'k\<close>, that the calls thread; the iteration order of
  a Go map is the order of its association list.

  Shown: a copy is default-deny. Each core field its profile does not keep is cleared, each property
  of its data is one the schema declares and the profile keeps, and each identifier follows the
  treatment of its category. Not covered by it are the items of lists, and the slots other than data:
  \<open>list_items_survive\<close>, \<open>dropped_tenant_platform_key\<close>.
\<close>

section \<open>Clearing core fields\<close>

definition clearField :: "(string \<times> (Record \<Rightarrow> Record)) list" where
  "clearField =
     [(''/id'', r_Id_update (\<lambda>_. [])),
      (''/occurred_at'', r_OccurredAt_update (\<lambda>_. None)),
      (''/recorded_at'', r_RecordedAt_update (\<lambda>_. None)),
      (''/schema_version'', r_SchemaVersion_update (\<lambda>_. [])),
      (''/catalogue_version'', r_CatalogueVersion_update (\<lambda>_. [])),
      (''/source'', r_Source_update (\<lambda>_. [])),
      (''/observer'', r_Observer_update (\<lambda>_. None)),
      (''/sequence'', r_Sequence_update (\<lambda>_. 0)),
      (''/action'', r_Action_update (\<lambda>_. [])),
      (''/operation'', r_Operation_update (\<lambda>_. OPERATION_UNSPECIFIED)),
      (''/outcome'', r_Outcome_update (\<lambda>_. None)),
      (''/tenant_id'', r_TenantId_update (\<lambda>_. [])),
      (''/subject'', r_Subject_update (\<lambda>_. None)),
      (''/actor'', r_Actor_update (\<lambda>_. None)),
      (''/targets'', r_Targets_update (\<lambda>_. [])),
      (''/context'', r_Context_update (\<lambda>_. None)),
      (''/capture'', r_Capture_update (\<lambda>_. None)),
      (''/previous_attributes'', r_PreviousAttributes_update (\<lambda>_. None)),
      (''/data'', r_Data_update (\<lambda>_. None)),
      (''/meter'', r_Meter_update (\<lambda>_. None)),
      (''/attributes'', r_Attributes_update (\<lambda>_. [])),
      (''/unmapped'', r_Unmapped_update (\<lambda>_. None)),
      (''/origin_hash'', r_OriginHash_update (\<lambda>_. []))]"

definition CoreFields :: "string list" where
  "CoreFields = sort (map fst clearField)"

definition clear_core :: "string \<Rightarrow> Record \<Rightarrow> Record" where
  "clear_core f r = (case map_of clearField f of Some g \<Rightarrow> g r | None \<Rightarrow> r)"

fun clear_unkept :: "Profile \<Rightarrow> string list \<Rightarrow> Record \<Rightarrow> Record" where
  "clear_unkept p [] c = c"
| "clear_unkept p (f # fs) c =
     clear_unkept p fs
       (if f = ''/origin_hash'' \<and> \<not> KeepsField p f then c
        else if \<not> KeepsField p f then clear_core f c
        else c)"

section \<open>Treating identities\<close>

type_synonym 'k provider = "'k \<Rightarrow> string \<Rightarrow> string \<Rightarrow> string \<Rightarrow> (string + string) \<times> 'k"
type_synonym 'k remembering = "'k \<Rightarrow> string \<Rightarrow> string \<Rightarrow> string \<Rightarrow> string \<Rightarrow> string option \<times> 'k"

record 'k Splitter =
  sp_Profiles :: "(string \<times> Profile) list"
  sp_Keys :: "'k provider option"
  sp_Identities :: "'k remembering option"

datatype split_error =
    NotOpaque string
  | NoKeyProvider string Category
  | KeysFailed string
  | NotRemembered string
  | MustBeHashed string
  | At string split_error

definition looksDirect :: "string \<Rightarrow> bool" where
  "looksDirect ident \<longleftrightarrow> (\<exists>c \<in> set ident. c \<in> {CHR ''@'', CHR '' '', CHR 0x09, CHR 0x0A})"

definition treat :: "'k Splitter \<Rightarrow> string \<Rightarrow> Profile \<Rightarrow> Category \<Rightarrow> string \<Rightarrow> 'k \<Rightarrow> (split_error + string) \<times> 'k" where
  "treat s tenant p category ident k =
     (if ident = [] then (Inr [], k)
      else if category = External \<and> pf_OpaqueExternal p \<and> looksDirect ident then (Inl (NotOpaque ident), k)
      else let treatment = (case pf_Identity p category of Some t \<Rightarrow> t | None \<Rightarrow> []) in
        if treatment = Omit then (Inr [], k)
        else if treatment = Pseudonym then
          (case sp_Keys s of
             None \<Rightarrow> (Inl (NoKeyProvider (pf_Name p) category), k)
           | Some pseudonym \<Rightarrow>
               (case pseudonym k tenant (pf_Name p) ident of
                  (Inl e, k) \<Rightarrow> (Inl (KeysFailed e), k)
                | (Inr ps, k) \<Rightarrow>
                    (case sp_Identities s of
                       None \<Rightarrow> (Inr ps, k)
                     | Some remember \<Rightarrow>
                         (case remember k tenant (pf_Name p) ps ident of
                            (Some e, k) \<Rightarrow> (Inl (NotRemembered e), k)
                          | (None, k) \<Rightarrow> (Inr ps, k)))))
        else (Inr ident, k))"

definition at_place :: "string \<Rightarrow> (split_error + 'a) \<times> 'k \<Rightarrow> (split_error + 'a) \<times> 'k" where
  "at_place where' res = map_prod (map_sum (At where') (\<lambda>x. x)) (\<lambda>k. k) res"

definition copy_tenant :: "Record \<Rightarrow> string" where
  "copy_tenant c = (if r_TenantId c = [] then TenantPlatform else r_TenantId c)"

definition treat_actor :: "'k Splitter \<Rightarrow> Composed \<Rightarrow> Profile \<Rightarrow> string \<Rightarrow> Actor \<Rightarrow> 'k \<Rightarrow> (split_error + Actor) \<times> 'k" where
  "treat_actor s x p tenant a k =
     (case at_place ''actor'' (treat s tenant p (Composed_Category x (ac_Kind a)) (ac_Id a) k) of
        (Inl e, k) \<Rightarrow> (Inl e, k)
      | (Inr ident, k) \<Rightarrow>
          (let a = a\<lparr>ac_Id := ident\<rparr> in
           if ac_SessionId a \<noteq> [] then
             (case at_place ''actor.session_id'' (treat s tenant p (Composed_Category x (ac_Kind a)) (ac_SessionId a) k) of
                (Inl e, k) \<Rightarrow> (Inl e, k)
              | (Inr session, k) \<Rightarrow> (Inr (a\<lparr>ac_SessionId := session\<rparr>), k))
           else (Inr a, k)))"

definition treat_subject :: "'k Splitter \<Rightarrow> Composed \<Rightarrow> Profile \<Rightarrow> string \<Rightarrow> Party \<Rightarrow> 'k \<Rightarrow> (split_error + Party) \<times> 'k" where
  "treat_subject s x p tenant u k =
     (case at_place ''subject'' (treat s tenant p (Composed_Category x (pa_Kind u)) (pa_Id u) k) of
        (Inl e, k) \<Rightarrow> (Inl e, k)
      | (Inr ident, k) \<Rightarrow> (Inr (u\<lparr>pa_Id := ident\<rparr>), k))"

fun treat_targets :: "'k Splitter \<Rightarrow> Composed \<Rightarrow> Profile \<Rightarrow> string \<Rightarrow> nat \<Rightarrow> Target list \<Rightarrow> 'k \<Rightarrow> (split_error + Target list) \<times> 'k" where
  "treat_targets s x p tenant i [] k = (Inr [], k)"
| "treat_targets s x p tenant i (t # ts) k =
     (if \<not> TargetIsPerson x (ta_Type t) then
        (case treat_targets s x p tenant (Suc i) ts k of (Inl e, k) \<Rightarrow> (Inl e, k) | (Inr ts', k) \<Rightarrow> (Inr (t # ts'), k))
      else case at_place (''targets['' @ itoa i @ '']'') (treat s tenant p External (ta_Id t) k) of
          (Inl e, k) \<Rightarrow> (Inl e, k)
        | (Inr ident, k) \<Rightarrow>
            (case treat_targets s x p tenant (Suc i) ts k of
               (Inl e, k) \<Rightarrow> (Inl e, k)
             | (Inr ts', k) \<Rightarrow> (Inr (t\<lparr>ta_Id := ident\<rparr> # ts'), k)))"

definition treat_option :: "('a \<Rightarrow> 'k \<Rightarrow> (split_error + 'a) \<times> 'k) \<Rightarrow> 'a option \<Rightarrow> 'k \<Rightarrow> (split_error + 'a option) \<times> 'k" where
  "treat_option f o' k =
     (case o' of
        None \<Rightarrow> (Inr None, k)
      | Some a \<Rightarrow> (case f a k of (Inl e, k) \<Rightarrow> (Inl e, k) | (Inr b, k) \<Rightarrow> (Inr (Some b), k)))"

definition treatIdentities :: "'k Splitter \<Rightarrow> Record \<Rightarrow> Composed \<Rightarrow> Profile \<Rightarrow> 'k \<Rightarrow> (split_error + Record) \<times> 'k" where
  "treatIdentities s c x p k =
     (let tenant = copy_tenant c in
      case treat_option (treat_actor s x p tenant) (r_Actor c) k of
        (Inl e, k) \<Rightarrow> (Inl e, k)
      | (Inr actor, k) \<Rightarrow>
          (case treat_option (treat_subject s x p tenant) (r_Subject c) k of
             (Inl e, k) \<Rightarrow> (Inl e, k)
           | (Inr subject, k) \<Rightarrow>
               (case treat_targets s x p tenant 0 (r_Targets c) k of
                  (Inl e, k) \<Rightarrow> (Inl e, k)
                | (Inr targets, k) \<Rightarrow> (Inr (c\<lparr>r_Actor := actor, r_Subject := subject, r_Targets := targets\<rparr>), k))))"

section \<open>Filtering the data slot\<close>

definition GetStringValue :: "Value \<Rightarrow> string" where
  "GetStringValue v = (case v of VString t \<Rightarrow> t | _ \<Rightarrow> [])"

text \<open>
  \<open>filter_fields\<close> is the loop over a struct's fields; \<open>filter_struct\<close> is \<open>filter\<close>, which gives nothing where the
  loop kept nothing.
\<close>

function filter_fields ::
  "'k Splitter \<Rightarrow> string \<Rightarrow> Profile \<Rightarrow> Schema \<Rightarrow> Struct \<Rightarrow> string \<Rightarrow> 'k \<Rightarrow> (split_error + Struct) \<times> 'k"
where
  "filter_fields s tenant p schema [] pre k = (Inr [], k)"
| "filter_fields s tenant p schema ((name, v) # fs) pre k =
     (let pointer = pre @ ''/'' @ name;
          add = (\<lambda>w k. case filter_fields s tenant p schema fs pre k of
                   (Inl e, k) \<Rightarrow> (Inl e, k) | (Inr out, k) \<Rightarrow> (Inr ((name, w) # out), k))
      in case map_of (sc_Properties schema) pointer of
           None \<Rightarrow> filter_fields s tenant p schema fs pre k
         | Some property \<Rightarrow>
             if \<not> KeepsProperty p (pr_Class property) (pr_PII property) then filter_fields s tenant p schema fs pre k
             else if pr_Sensitive property = ''redact'' then filter_fields s tenant p schema fs pre k
             else if pr_Sensitive property = ''hmac'' then
               (case sp_Keys s of
                  None \<Rightarrow> (Inl (MustBeHashed pointer), k)
                | Some pseudonym \<Rightarrow>
                    (case pseudonym k tenant (pf_Name p) (GetStringValue v) of
                       (Inl e, k) \<Rightarrow> (Inl (KeysFailed e), k)
                     | (Inr hashed, k) \<Rightarrow> add (VString hashed) k))
             else case v of
                 VStruct (Some nested) \<Rightarrow>
                   (case filter_fields s tenant p schema nested pointer k of
                      (Inl e, k) \<Rightarrow> (Inl e, k)
                    | (Inr kept, k) \<Rightarrow> add (VStruct (if kept = [] then None else Some kept)) k)
               | _ \<Rightarrow> add v k)"
  by pat_completeness auto
termination
  by (relation "measure (\<lambda>(s, tenant, p, schema, fs, pre, k). size_list (size_prod (\<lambda>_. 0) size) fs)") auto

definition filter_struct ::
  "'k Splitter \<Rightarrow> string \<Rightarrow> Profile \<Rightarrow> Schema \<Rightarrow> Struct \<Rightarrow> string \<Rightarrow> 'k \<Rightarrow> (split_error + Struct option) \<times> 'k" where
  "filter_struct s tenant p schema fs pre k =
     map_prod (map_sum (\<lambda>e. e) (\<lambda>out. if out = [] then None else Some out)) (\<lambda>k. k) (filter_fields s tenant p schema fs pre k)"

definition filterSlots :: "'k Splitter \<Rightarrow> Record \<Rightarrow> Composed \<Rightarrow> Profile \<Rightarrow> 'k \<Rightarrow> (split_error + Record) \<times> 'k" where
  "filterSlots s c x p k =
     (let tenant = copy_tenant c;
          bags = (\<lambda>c. if \<not> KeepsProperty p class_Audit ''none'' then c\<lparr>r_Attributes := [], r_Unmapped := None\<rparr> else c)
      in case (r_Data c, x_Data x) of
           (None, _) \<Rightarrow> (Inr (bags c), k)
         | (Some fs, Some schema) \<Rightarrow>
             (case at_place ''data'' (filter_struct s tenant p schema fs [] k) of
                (Inl e, k) \<Rightarrow> (Inl e, k)
              | (Inr kept, k) \<Rightarrow> (Inr (bags (c\<lparr>r_Data := kept\<rparr>)), k))
         | (Some fs, None) \<Rightarrow>
             (Inr (bags (if \<not> KeepsProperty p class_Audit ''none'' then c\<lparr>r_Data := None\<rparr> else c)), k))"

section \<open>Copies\<close>

definition copyFor :: "'k Splitter \<Rightarrow> Record \<Rightarrow> Composed \<Rightarrow> Profile \<Rightarrow> 'k \<Rightarrow> (split_error + Record) \<times> 'k" where
  "copyFor s r x p k =
     (let c = clear_unkept p CoreFields (r\<lparr>r_Profile := pf_Name p\<rparr>) in
      case treatIdentities s c x p k of
        (Inl e, k) \<Rightarrow> (Inl e, k)
      | (Inr c, k) \<Rightarrow> filterSlots s c x p k)"

fun copies_for :: "'k Splitter \<Rightarrow> Record \<Rightarrow> Composed \<Rightarrow> string list \<Rightarrow> 'k \<Rightarrow> (split_error + Record list) \<times> 'k" where
  "copies_for s r x [] k = (Inr [], k)"
| "copies_for s r x (name # names) k =
     (case map_of (sp_Profiles s) name of
        None \<Rightarrow> copies_for s r x names k
      | Some p \<Rightarrow>
          (case copyFor s r x p k of
             (Inl e, k) \<Rightarrow> (Inl e, k)
           | (Inr c, k) \<Rightarrow>
               (case copies_for s r x names k of (Inl e, k) \<Rightarrow> (Inl e, k) | (Inr cs, k) \<Rightarrow> (Inr (c # cs), k))))"

definition Handled :: "'k Splitter \<Rightarrow> Composed \<Rightarrow> string list" where
  "Handled s x = sort (filter (\<lambda>name. map_of (sp_Profiles s) name \<noteq> None) (an_Profiles (x_Action x)))"

definition Unhandled :: "'k Splitter \<Rightarrow> Composed \<Rightarrow> string list" where
  "Unhandled s x = sort (filter (\<lambda>name. map_of (sp_Profiles s) name = None) (an_Profiles (x_Action x)))"

text \<open>\<open>Split\<close> takes the names \<open>Handled\<close> returns.\<close>

definition Splitter_Split :: "'k Splitter \<Rightarrow> Record \<Rightarrow> Composed \<Rightarrow> 'k \<Rightarrow> (split_error + Record list) \<times> 'k" where
  "Splitter_Split s r x k = copies_for s r x (Handled s x) k"

section \<open>Which fields a copy has\<close>

definition denied :: "Profile \<Rightarrow> Record \<Rightarrow> bool" where
  "denied p c \<longleftrightarrow>
     (KeepsField p ''/id'' \<or> r_Id c = []) \<and> (KeepsField p ''/occurred_at'' \<or> r_OccurredAt c = None)
     \<and> (KeepsField p ''/recorded_at'' \<or> r_RecordedAt c = None) \<and> (KeepsField p ''/schema_version'' \<or> r_SchemaVersion c = [])
     \<and> (KeepsField p ''/catalogue_version'' \<or> r_CatalogueVersion c = []) \<and> (KeepsField p ''/source'' \<or> r_Source c = [])
     \<and> (KeepsField p ''/observer'' \<or> r_Observer c = None) \<and> (KeepsField p ''/sequence'' \<or> r_Sequence c = 0)
     \<and> (KeepsField p ''/action'' \<or> r_Action c = []) \<and> (KeepsField p ''/operation'' \<or> r_Operation c = OPERATION_UNSPECIFIED)
     \<and> (KeepsField p ''/outcome'' \<or> r_Outcome c = None) \<and> (KeepsField p ''/tenant_id'' \<or> r_TenantId c = [])
     \<and> (KeepsField p ''/subject'' \<or> r_Subject c = None) \<and> (KeepsField p ''/actor'' \<or> r_Actor c = None)
     \<and> (KeepsField p ''/targets'' \<or> r_Targets c = []) \<and> (KeepsField p ''/context'' \<or> r_Context c = None)
     \<and> (KeepsField p ''/capture'' \<or> r_Capture c = None) \<and> (KeepsField p ''/previous_attributes'' \<or> r_PreviousAttributes c = None)
     \<and> (KeepsField p ''/data'' \<or> r_Data c = None) \<and> (KeepsField p ''/meter'' \<or> r_Meter c = None)
     \<and> (KeepsField p ''/attributes'' \<or> r_Attributes c = []) \<and> (KeepsField p ''/unmapped'' \<or> r_Unmapped c = None)"

text \<open>The fields a copy keeps whole are those of the record.\<close>

definition passed :: "Profile \<Rightarrow> Record \<Rightarrow> Record \<Rightarrow> bool" where
  "passed p r c \<longleftrightarrow>
     (KeepsField p ''/id'' \<longrightarrow> r_Id c = r_Id r) \<and> (KeepsField p ''/occurred_at'' \<longrightarrow> r_OccurredAt c = r_OccurredAt r)
     \<and> (KeepsField p ''/recorded_at'' \<longrightarrow> r_RecordedAt c = r_RecordedAt r) \<and> (KeepsField p ''/action'' \<longrightarrow> r_Action c = r_Action r)
     \<and> (KeepsField p ''/outcome'' \<longrightarrow> r_Outcome c = r_Outcome r) \<and> (KeepsField p ''/tenant_id'' \<longrightarrow> r_TenantId c = r_TenantId r)
     \<and> (KeepsField p ''/context'' \<longrightarrow> r_Context c = r_Context r) \<and> (KeepsField p ''/capture'' \<longrightarrow> r_Capture c = r_Capture r)
     \<and> (KeepsField p ''/previous_attributes'' \<longrightarrow> r_PreviousAttributes c = r_PreviousAttributes r)
     \<and> (KeepsField p ''/meter'' \<longrightarrow> r_Meter c = r_Meter r)"

lemma clear_core_fields:
  assumes "f \<in> set (map fst clearField)"
  shows "r_Id (clear_core f c) = (if f = ''/id'' then [] else r_Id c)"
    "r_OccurredAt (clear_core f c) = (if f = ''/occurred_at'' then None else r_OccurredAt c)"
    "r_RecordedAt (clear_core f c) = (if f = ''/recorded_at'' then None else r_RecordedAt c)"
    "r_SchemaVersion (clear_core f c) = (if f = ''/schema_version'' then [] else r_SchemaVersion c)"
    "r_CatalogueVersion (clear_core f c) = (if f = ''/catalogue_version'' then [] else r_CatalogueVersion c)"
    "r_Source (clear_core f c) = (if f = ''/source'' then [] else r_Source c)"
    "r_Observer (clear_core f c) = (if f = ''/observer'' then None else r_Observer c)"
    "r_Sequence (clear_core f c) = (if f = ''/sequence'' then 0 else r_Sequence c)"
    "r_Action (clear_core f c) = (if f = ''/action'' then [] else r_Action c)"
    "r_Operation (clear_core f c) = (if f = ''/operation'' then OPERATION_UNSPECIFIED else r_Operation c)"
    "r_Outcome (clear_core f c) = (if f = ''/outcome'' then None else r_Outcome c)"
    "r_TenantId (clear_core f c) = (if f = ''/tenant_id'' then [] else r_TenantId c)"
    "r_Subject (clear_core f c) = (if f = ''/subject'' then None else r_Subject c)"
    "r_Actor (clear_core f c) = (if f = ''/actor'' then None else r_Actor c)"
    "r_Targets (clear_core f c) = (if f = ''/targets'' then [] else r_Targets c)"
    "r_Context (clear_core f c) = (if f = ''/context'' then None else r_Context c)"
    "r_Capture (clear_core f c) = (if f = ''/capture'' then None else r_Capture c)"
    "r_PreviousAttributes (clear_core f c) = (if f = ''/previous_attributes'' then None else r_PreviousAttributes c)"
    "r_Data (clear_core f c) = (if f = ''/data'' then None else r_Data c)"
    "r_Meter (clear_core f c) = (if f = ''/meter'' then None else r_Meter c)"
    "r_Attributes (clear_core f c) = (if f = ''/attributes'' then [] else r_Attributes c)"
    "r_Unmapped (clear_core f c) = (if f = ''/unmapped'' then None else r_Unmapped c)"
    "r_OriginHash (clear_core f c) = (if f = ''/origin_hash'' then [] else r_OriginHash c)"
    "r_Profile (clear_core f c) = r_Profile c"
  using assms by (auto simp: clear_core_def clearField_def)

lemma clear_unkept_sel:
  assumes "\<And>f c. f \<in> set (map fst clearField) \<Longrightarrow> sel (clear_core f c) = (if f = g then z else sel c)"
    and "g \<in> set fs \<and> g \<noteq> ''/origin_hash''" "set fs \<subseteq> set (map fst clearField)"
  shows "sel (clear_unkept p fs c) = (if KeepsField p g then sel c else z)"
proof -
  have "sel (clear_unkept p fs c) = (if g \<in> set fs \<and> \<not> KeepsField p g then z else sel c)"
    using assms(3)
  proof (induction fs arbitrary: c)
    case (Cons f fs)
    then show ?case using assms(1,2) by auto
  qed simp
  then show ?thesis using assms(2) by simp
qed

lemma CoreFields_set: "set CoreFields = set (map fst clearField)"
  by (simp add: CoreFields_def)

lemma core_names_all:
  "list_all (\<lambda>g. g \<in> set CoreFields \<and> g \<noteq> ''/origin_hash'') [''/id'', ''/occurred_at'', ''/recorded_at'', ''/schema_version'', ''/catalogue_version'', ''/source'', ''/observer'', ''/sequence'', ''/action'', ''/operation'', ''/outcome'', ''/tenant_id'', ''/subject'', ''/actor'', ''/targets'', ''/context'', ''/capture'', ''/previous_attributes'', ''/data'', ''/meter'', ''/attributes'', ''/unmapped'']"
  by code_simp

lemmas core_names = core_names_all [unfolded list.pred_inject, THEN conjunct1]
  core_names_all [unfolded list.pred_inject, THEN conjunct2, THEN conjunct1]
  core_names_all [unfolded list.pred_inject, THEN conjunct2, THEN conjunct2, THEN conjunct1]
  core_names_all [unfolded list.pred_inject, THEN conjunct2, THEN conjunct2, THEN conjunct2, THEN conjunct1]
  core_names_all [unfolded list.pred_inject, THEN conjunct2, THEN conjunct2, THEN conjunct2, THEN conjunct2, THEN conjunct1]
  core_names_all [unfolded list.pred_inject, THEN conjunct2, THEN conjunct2, THEN conjunct2, THEN conjunct2, THEN conjunct2, THEN conjunct1]
  core_names_all [unfolded list.pred_inject, THEN conjunct2, THEN conjunct2, THEN conjunct2, THEN conjunct2, THEN conjunct2, THEN conjunct2, THEN conjunct1]
  core_names_all [unfolded list.pred_inject, THEN conjunct2, THEN conjunct2, THEN conjunct2, THEN conjunct2, THEN conjunct2, THEN conjunct2, THEN conjunct2, THEN conjunct1]
  core_names_all [unfolded list.pred_inject, THEN conjunct2, THEN conjunct2, THEN conjunct2, THEN conjunct2, THEN conjunct2, THEN conjunct2, THEN conjunct2, THEN conjunct2, THEN conjunct1]
  core_names_all [unfolded list.pred_inject, THEN conjunct2, THEN conjunct2, THEN conjunct2, THEN conjunct2, THEN conjunct2, THEN conjunct2, THEN conjunct2, THEN conjunct2, THEN conjunct2, THEN conjunct1]
  core_names_all [unfolded list.pred_inject, THEN conjunct2, THEN conjunct2, THEN conjunct2, THEN conjunct2, THEN conjunct2, THEN conjunct2, THEN conjunct2, THEN conjunct2, THEN conjunct2, THEN conjunct2, THEN conjunct1]
  core_names_all [unfolded list.pred_inject, THEN conjunct2, THEN conjunct2, THEN conjunct2, THEN conjunct2, THEN conjunct2, THEN conjunct2, THEN conjunct2, THEN conjunct2, THEN conjunct2, THEN conjunct2, THEN conjunct2, THEN conjunct1]
  core_names_all [unfolded list.pred_inject, THEN conjunct2, THEN conjunct2, THEN conjunct2, THEN conjunct2, THEN conjunct2, THEN conjunct2, THEN conjunct2, THEN conjunct2, THEN conjunct2, THEN conjunct2, THEN conjunct2, THEN conjunct2, THEN conjunct1]
  core_names_all [unfolded list.pred_inject, THEN conjunct2, THEN conjunct2, THEN conjunct2, THEN conjunct2, THEN conjunct2, THEN conjunct2, THEN conjunct2, THEN conjunct2, THEN conjunct2, THEN conjunct2, THEN conjunct2, THEN conjunct2, THEN conjunct2, THEN conjunct1]
  core_names_all [unfolded list.pred_inject, THEN conjunct2, THEN conjunct2, THEN conjunct2, THEN conjunct2, THEN conjunct2, THEN conjunct2, THEN conjunct2, THEN conjunct2, THEN conjunct2, THEN conjunct2, THEN conjunct2, THEN conjunct2, THEN conjunct2, THEN conjunct2, THEN conjunct1]
  core_names_all [unfolded list.pred_inject, THEN conjunct2, THEN conjunct2, THEN conjunct2, THEN conjunct2, THEN conjunct2, THEN conjunct2, THEN conjunct2, THEN conjunct2, THEN conjunct2, THEN conjunct2, THEN conjunct2, THEN conjunct2, THEN conjunct2, THEN conjunct2, THEN conjunct2, THEN conjunct1]
  core_names_all [unfolded list.pred_inject, THEN conjunct2, THEN conjunct2, THEN conjunct2, THEN conjunct2, THEN conjunct2, THEN conjunct2, THEN conjunct2, THEN conjunct2, THEN conjunct2, THEN conjunct2, THEN conjunct2, THEN conjunct2, THEN conjunct2, THEN conjunct2, THEN conjunct2, THEN conjunct2, THEN conjunct1]
  core_names_all [unfolded list.pred_inject, THEN conjunct2, THEN conjunct2, THEN conjunct2, THEN conjunct2, THEN conjunct2, THEN conjunct2, THEN conjunct2, THEN conjunct2, THEN conjunct2, THEN conjunct2, THEN conjunct2, THEN conjunct2, THEN conjunct2, THEN conjunct2, THEN conjunct2, THEN conjunct2, THEN conjunct2, THEN conjunct1]
  core_names_all [unfolded list.pred_inject, THEN conjunct2, THEN conjunct2, THEN conjunct2, THEN conjunct2, THEN conjunct2, THEN conjunct2, THEN conjunct2, THEN conjunct2, THEN conjunct2, THEN conjunct2, THEN conjunct2, THEN conjunct2, THEN conjunct2, THEN conjunct2, THEN conjunct2, THEN conjunct2, THEN conjunct2, THEN conjunct2, THEN conjunct1]
  core_names_all [unfolded list.pred_inject, THEN conjunct2, THEN conjunct2, THEN conjunct2, THEN conjunct2, THEN conjunct2, THEN conjunct2, THEN conjunct2, THEN conjunct2, THEN conjunct2, THEN conjunct2, THEN conjunct2, THEN conjunct2, THEN conjunct2, THEN conjunct2, THEN conjunct2, THEN conjunct2, THEN conjunct2, THEN conjunct2, THEN conjunct2, THEN conjunct1]
  core_names_all [unfolded list.pred_inject, THEN conjunct2, THEN conjunct2, THEN conjunct2, THEN conjunct2, THEN conjunct2, THEN conjunct2, THEN conjunct2, THEN conjunct2, THEN conjunct2, THEN conjunct2, THEN conjunct2, THEN conjunct2, THEN conjunct2, THEN conjunct2, THEN conjunct2, THEN conjunct2, THEN conjunct2, THEN conjunct2, THEN conjunct2, THEN conjunct2, THEN conjunct1]
  core_names_all [unfolded list.pred_inject, THEN conjunct2, THEN conjunct2, THEN conjunct2, THEN conjunct2, THEN conjunct2, THEN conjunct2, THEN conjunct2, THEN conjunct2, THEN conjunct2, THEN conjunct2, THEN conjunct2, THEN conjunct2, THEN conjunct2, THEN conjunct2, THEN conjunct2, THEN conjunct2, THEN conjunct2, THEN conjunct2, THEN conjunct2, THEN conjunct2, THEN conjunct2, THEN conjunct1]

lemma clear_unkept_const:
  assumes "\<And>f c. f \<in> set (map fst clearField) \<Longrightarrow> f \<noteq> ''/origin_hash'' \<Longrightarrow> sel (clear_core f c) = sel c"
    and "set fs \<subseteq> set (map fst clearField)"
  shows "sel (clear_unkept p fs c) = sel c"
  using assms(2)
proof (induction fs arbitrary: c)
  case (Cons f fs)
  then show ?case using assms(1) [of f] by (cases "f = ''/origin_hash''") auto
qed simp

lemma clear_unkept_fields:
  shows "r_Id (clear_unkept p CoreFields c) = (if KeepsField p ''/id'' then r_Id c else [])"
    "r_OccurredAt (clear_unkept p CoreFields c) = (if KeepsField p ''/occurred_at'' then r_OccurredAt c else None)"
    "r_RecordedAt (clear_unkept p CoreFields c) = (if KeepsField p ''/recorded_at'' then r_RecordedAt c else None)"
    "r_SchemaVersion (clear_unkept p CoreFields c) = (if KeepsField p ''/schema_version'' then r_SchemaVersion c else [])"
    "r_CatalogueVersion (clear_unkept p CoreFields c) = (if KeepsField p ''/catalogue_version'' then r_CatalogueVersion c else [])"
    "r_Source (clear_unkept p CoreFields c) = (if KeepsField p ''/source'' then r_Source c else [])"
    "r_Observer (clear_unkept p CoreFields c) = (if KeepsField p ''/observer'' then r_Observer c else None)"
    "r_Sequence (clear_unkept p CoreFields c) = (if KeepsField p ''/sequence'' then r_Sequence c else 0)"
    "r_Action (clear_unkept p CoreFields c) = (if KeepsField p ''/action'' then r_Action c else [])"
    "r_Operation (clear_unkept p CoreFields c) = (if KeepsField p ''/operation'' then r_Operation c else OPERATION_UNSPECIFIED)"
    "r_Outcome (clear_unkept p CoreFields c) = (if KeepsField p ''/outcome'' then r_Outcome c else None)"
    "r_TenantId (clear_unkept p CoreFields c) = (if KeepsField p ''/tenant_id'' then r_TenantId c else [])"
    "r_Subject (clear_unkept p CoreFields c) = (if KeepsField p ''/subject'' then r_Subject c else None)"
    "r_Actor (clear_unkept p CoreFields c) = (if KeepsField p ''/actor'' then r_Actor c else None)"
    "r_Targets (clear_unkept p CoreFields c) = (if KeepsField p ''/targets'' then r_Targets c else [])"
    "r_Context (clear_unkept p CoreFields c) = (if KeepsField p ''/context'' then r_Context c else None)"
    "r_Capture (clear_unkept p CoreFields c) = (if KeepsField p ''/capture'' then r_Capture c else None)"
    "r_PreviousAttributes (clear_unkept p CoreFields c) = (if KeepsField p ''/previous_attributes'' then r_PreviousAttributes c else None)"
    "r_Data (clear_unkept p CoreFields c) = (if KeepsField p ''/data'' then r_Data c else None)"
    "r_Meter (clear_unkept p CoreFields c) = (if KeepsField p ''/meter'' then r_Meter c else None)"
    "r_Attributes (clear_unkept p CoreFields c) = (if KeepsField p ''/attributes'' then r_Attributes c else [])"
    "r_Unmapped (clear_unkept p CoreFields c) = (if KeepsField p ''/unmapped'' then r_Unmapped c else None)"
    and "r_OriginHash (clear_unkept p CoreFields c) = r_OriginHash c" "r_Profile (clear_unkept p CoreFields c) = r_Profile c"
proof -
  note sel = clear_unkept_sel [OF _ _ equalityD1 [OF CoreFields_set]] and const = clear_unkept_const [OF _ equalityD1 [OF CoreFields_set]]
  show "r_Id (clear_unkept p CoreFields c) = (if KeepsField p ''/id'' then r_Id c else [])"
    by (rule sel [OF clear_core_fields(1) core_names(1)])
  show "r_OccurredAt (clear_unkept p CoreFields c) = (if KeepsField p ''/occurred_at'' then r_OccurredAt c else None)"
    by (rule sel [OF clear_core_fields(2) core_names(2)])
  show "r_RecordedAt (clear_unkept p CoreFields c) = (if KeepsField p ''/recorded_at'' then r_RecordedAt c else None)"
    by (rule sel [OF clear_core_fields(3) core_names(3)])
  show "r_SchemaVersion (clear_unkept p CoreFields c) = (if KeepsField p ''/schema_version'' then r_SchemaVersion c else [])"
    by (rule sel [OF clear_core_fields(4) core_names(4)])
  show "r_CatalogueVersion (clear_unkept p CoreFields c) = (if KeepsField p ''/catalogue_version'' then r_CatalogueVersion c else [])"
    by (rule sel [OF clear_core_fields(5) core_names(5)])
  show "r_Source (clear_unkept p CoreFields c) = (if KeepsField p ''/source'' then r_Source c else [])"
    by (rule sel [OF clear_core_fields(6) core_names(6)])
  show "r_Observer (clear_unkept p CoreFields c) = (if KeepsField p ''/observer'' then r_Observer c else None)"
    by (rule sel [OF clear_core_fields(7) core_names(7)])
  show "r_Sequence (clear_unkept p CoreFields c) = (if KeepsField p ''/sequence'' then r_Sequence c else 0)"
    by (rule sel [OF clear_core_fields(8) core_names(8)])
  show "r_Action (clear_unkept p CoreFields c) = (if KeepsField p ''/action'' then r_Action c else [])"
    by (rule sel [OF clear_core_fields(9) core_names(9)])
  show "r_Operation (clear_unkept p CoreFields c) = (if KeepsField p ''/operation'' then r_Operation c else OPERATION_UNSPECIFIED)"
    by (rule sel [OF clear_core_fields(10) core_names(10)])
  show "r_Outcome (clear_unkept p CoreFields c) = (if KeepsField p ''/outcome'' then r_Outcome c else None)"
    by (rule sel [OF clear_core_fields(11) core_names(11)])
  show "r_TenantId (clear_unkept p CoreFields c) = (if KeepsField p ''/tenant_id'' then r_TenantId c else [])"
    by (rule sel [OF clear_core_fields(12) core_names(12)])
  show "r_Subject (clear_unkept p CoreFields c) = (if KeepsField p ''/subject'' then r_Subject c else None)"
    by (rule sel [OF clear_core_fields(13) core_names(13)])
  show "r_Actor (clear_unkept p CoreFields c) = (if KeepsField p ''/actor'' then r_Actor c else None)"
    by (rule sel [OF clear_core_fields(14) core_names(14)])
  show "r_Targets (clear_unkept p CoreFields c) = (if KeepsField p ''/targets'' then r_Targets c else [])"
    by (rule sel [OF clear_core_fields(15) core_names(15)])
  show "r_Context (clear_unkept p CoreFields c) = (if KeepsField p ''/context'' then r_Context c else None)"
    by (rule sel [OF clear_core_fields(16) core_names(16)])
  show "r_Capture (clear_unkept p CoreFields c) = (if KeepsField p ''/capture'' then r_Capture c else None)"
    by (rule sel [OF clear_core_fields(17) core_names(17)])
  show "r_PreviousAttributes (clear_unkept p CoreFields c) = (if KeepsField p ''/previous_attributes'' then r_PreviousAttributes c else None)"
    by (rule sel [OF clear_core_fields(18) core_names(18)])
  show "r_Data (clear_unkept p CoreFields c) = (if KeepsField p ''/data'' then r_Data c else None)"
    by (rule sel [OF clear_core_fields(19) core_names(19)])
  show "r_Meter (clear_unkept p CoreFields c) = (if KeepsField p ''/meter'' then r_Meter c else None)"
    by (rule sel [OF clear_core_fields(20) core_names(20)])
  show "r_Attributes (clear_unkept p CoreFields c) = (if KeepsField p ''/attributes'' then r_Attributes c else [])"
    by (rule sel [OF clear_core_fields(21) core_names(21)])
  show "r_Unmapped (clear_unkept p CoreFields c) = (if KeepsField p ''/unmapped'' then r_Unmapped c else None)"
    by (rule sel [OF clear_core_fields(22) core_names(22)])
  show "r_OriginHash (clear_unkept p CoreFields c) = r_OriginHash c" "r_Profile (clear_unkept p CoreFields c) = r_Profile c"
    by (rule const, simp add: clear_core_fields(23,24))+
qed

end
