(* ===== verification/Copies.thy ===== *)
theory Copies
  imports Splitter
begin

text \<open>
  What the copies of \<open>internal/writer/split.go\<close> carry: which core fields, which properties of the data,
  and what became of each identifier.
\<close>

section \<open>Identities\<close>

text \<open>
  What a treatment makes of an identifier: nothing where it is omitted, what the provider returned
  for it under the copy's tenant and the profile's name where it is a pseudonym, itself elsewhere.
\<close>

definition treated :: "'k Splitter \<Rightarrow> string \<Rightarrow> Profile \<Rightarrow> Category \<Rightarrow> string \<Rightarrow> string \<Rightarrow> bool" where
  "treated s tenant p category ident out \<longleftrightarrow>
     (if ident = [] then out = []
      else if pf_Identity p category = Some Omit then out = []
      else if pf_Identity p category = Some Pseudonym
      then (\<exists>f k k'. sp_Keys s = Some f \<and> f k tenant (pf_Name p) ident = (Inr out, k'))
      else out = ident \<and> (category = External \<and> pf_OpaqueExternal p \<longrightarrow> \<not> looksDirect ident))"

lemma treatments_distinct: "Omit \<noteq> []" "Pseudonym \<noteq> []" "Omit \<noteq> Pseudonym"
  by (simp_all add: Omit_def Pseudonym_def)

lemma treat_treated: "treat s tenant p category ident k = (Inr out, k') \<Longrightarrow> treated s tenant p category ident out"
  using treatments_distinct
  by (auto simp: treat_def treated_def Let_def split: if_splits option.splits prod.splits sum.splits)

lemma at_place_Inr: "at_place w res = (Inr x, k) \<longleftrightarrow> res = (Inr x, k)"
  by (cases res; cases "fst res") (auto simp: at_place_def)

definition actor_treated :: "'k Splitter \<Rightarrow> Composed \<Rightarrow> Profile \<Rightarrow> string \<Rightarrow> Actor \<Rightarrow> Actor \<Rightarrow> bool" where
  "actor_treated s x p tenant a b \<longleftrightarrow>
     treated s tenant p (Composed_Category x (ac_Kind a)) (ac_Id a) (ac_Id b)
     \<and> treated s tenant p (Composed_Category x (ac_Kind a)) (ac_SessionId a) (ac_SessionId b)
     \<and> b = a\<lparr>ac_Id := ac_Id b, ac_SessionId := ac_SessionId b\<rparr>"

lemma treat_actor_treated: "treat_actor s x p tenant a k = (Inr b, k') \<Longrightarrow> actor_treated s x p tenant a b"
  by (auto simp: treat_actor_def actor_treated_def at_place_Inr treated_def [of s tenant p _ "[]"] Let_def
      dest!: treat_treated split: if_splits prod.splits sum.splits)

lemma treat_subject_treated:
  "treat_subject s x p tenant u k = (Inr v, k') \<Longrightarrow>
     treated s tenant p (Composed_Category x (pa_Kind u)) (pa_Id u) (pa_Id v) \<and> v = u\<lparr>pa_Id := pa_Id v\<rparr>"
  by (auto simp: treat_subject_def at_place_Inr dest!: treat_treated split: prod.splits sum.splits)

definition target_treated :: "'k Splitter \<Rightarrow> Composed \<Rightarrow> Profile \<Rightarrow> string \<Rightarrow> Target \<Rightarrow> Target \<Rightarrow> bool" where
  "target_treated s x p tenant t u \<longleftrightarrow>
     (if TargetIsPerson x (ta_Type t) then treated s tenant p External (ta_Id t) (ta_Id u) \<and> u = t\<lparr>ta_Id := ta_Id u\<rparr> else u = t)"

lemma treat_targets_treated:
  "treat_targets s x p tenant i ts k = (Inr us, k') \<Longrightarrow> list_all2 (target_treated s x p tenant) ts us"
proof (induction ts arbitrary: i k us)
  case (Cons t ts)
  then show ?case
    by (auto simp: target_treated_def [of s x p tenant t] at_place_Inr dest!: treat_treated split: if_splits prod.splits sum.splits)
qed simp

lemma treat_option_Inr:
  "treat_option f o' k = (Inr q, k') \<longleftrightarrow>
     (case o' of None \<Rightarrow> q = None \<and> k' = k | Some a \<Rightarrow> \<exists>b. f a k = (Inr b, k') \<and> q = Some b)"
  by (auto simp: treat_option_def split: option.splits prod.splits sum.splits)

lemma treatIdentities_result:
  assumes "treatIdentities s c x p k = (Inr d, k')"
  shows "rel_option (actor_treated s x p (copy_tenant c)) (r_Actor c) (r_Actor d)"
    and "rel_option (\<lambda>u v. treated s (copy_tenant c) p (Composed_Category x (pa_Kind u)) (pa_Id u) (pa_Id v)) (r_Subject c) (r_Subject d)"
    and "list_all2 (target_treated s x p (copy_tenant c)) (r_Targets c) (r_Targets d)"
    and "d = c\<lparr>r_Actor := r_Actor d, r_Subject := r_Subject d, r_Targets := r_Targets d\<rparr>"
proof -
  obtain actor k1 where a: "treat_option (treat_actor s x p (copy_tenant c)) (r_Actor c) k = (Inr actor, k1)"
    using assms by (auto simp: treatIdentities_def Let_def split: prod.splits sum.splits)
  obtain subject k2 where b: "treat_option (treat_subject s x p (copy_tenant c)) (r_Subject c) k1 = (Inr subject, k2)"
    using assms a by (auto simp: treatIdentities_def Let_def split: prod.splits sum.splits)
  obtain targets k3 where t: "treat_targets s x p (copy_tenant c) 0 (r_Targets c) k2 = (Inr targets, k3)"
    using assms a b by (auto simp: treatIdentities_def Let_def split: prod.splits sum.splits)
  have d: "d = c\<lparr>r_Actor := actor, r_Subject := subject, r_Targets := targets\<rparr>"
    using assms a b t by (simp add: treatIdentities_def Let_def)
  show "rel_option (actor_treated s x p (copy_tenant c)) (r_Actor c) (r_Actor d)"
    using a treat_actor_treated by (fastforce simp: d treat_option_Inr split: option.splits)
  show "rel_option (\<lambda>u v. treated s (copy_tenant c) p (Composed_Category x (pa_Kind u)) (pa_Id u) (pa_Id v)) (r_Subject c) (r_Subject d)"
    using b treat_subject_treated by (fastforce simp: d treat_option_Inr split: option.splits)
  show "list_all2 (target_treated s x p (copy_tenant c)) (r_Targets c) (r_Targets d)"
    using treat_targets_treated [OF t] by (simp add: d)
  show "d = c\<lparr>r_Actor := r_Actor d, r_Subject := r_Subject d, r_Targets := r_Targets d\<rparr>" by (simp add: d)
qed

section \<open>Properties of the data\<close>

text \<open>A property of a struct, by its pointer: its own fields, and those of the structs it holds.\<close>

inductive has_property :: "Struct \<Rightarrow> string \<Rightarrow> string \<Rightarrow> Value \<Rightarrow> bool" where
  own: "(name, v) \<in> set fs \<Longrightarrow> has_property fs pre (pre @ ''/'' @ name) v"
| nested: "(name, VStruct (Some gs)) \<in> set fs \<Longrightarrow> has_property gs (pre @ ''/'' @ name) q v \<Longrightarrow> has_property fs pre q v"

text \<open>What a copy may have at a pointer.\<close>

definition allowed :: "'k Splitter \<Rightarrow> string \<Rightarrow> Profile \<Rightarrow> Schema \<Rightarrow> string \<Rightarrow> Value \<Rightarrow> bool" where
  "allowed s tenant p schema pointer v \<longleftrightarrow>
     (\<exists>q. map_of (sc_Properties schema) pointer = Some q \<and> KeepsProperty p (pr_Class q) (pr_PII q)
        \<and> pr_Sensitive q \<noteq> ''redact''
        \<and> (pr_Sensitive q = ''hmac'' \<longrightarrow>
             (\<exists>f k k' t h. sp_Keys s = Some f \<and> f k tenant (pf_Name p) t = (Inr h, k') \<and> v = VString h)))"

inductive_cases has_property_Nil [elim!]: "has_property [] pre q v"

lemma has_property_Cons:
  "has_property ((name, v) # fs) pre q w \<longleftrightarrow>
     q = pre @ ''/'' @ name \<and> w = v \<or> (\<exists>gs. v = VStruct (Some gs) \<and> has_property gs (pre @ ''/'' @ name) q w)
     \<or> has_property fs pre q w"
proof
  assume "has_property ((name, v) # fs) pre q w"
  then show "q = pre @ ''/'' @ name \<and> w = v \<or> (\<exists>gs. v = VStruct (Some gs) \<and> has_property gs (pre @ ''/'' @ name) q w)
     \<or> has_property fs pre q w"
    by cases (auto intro: has_property.intros [simplified])
next
  assume "q = pre @ ''/'' @ name \<and> w = v \<or> (\<exists>gs. v = VStruct (Some gs) \<and> has_property gs (pre @ ''/'' @ name) q w)
     \<or> has_property fs pre q w"
  then show "has_property ((name, v) # fs) pre q w"
  proof (elim disjE conjE exE)
    assume "has_property fs pre q w"
    then show ?thesis by cases (auto intro: has_property.intros [simplified])
  qed (auto intro: has_property.intros [simplified])
qed

text \<open>
  One field of the loop: it is dropped, or it is kept with a value allowed at its pointer, whose own
  properties come from a filter in turn.
\<close>

lemma filter_field_cases:
  assumes "filter_fields s tenant p schema ((name, v) # fs) pre k = (Inr out, k')"
  obtains (dropped) "filter_fields s tenant p schema fs pre k = (Inr out, k')"
  | (kept) w rest k1 where "out = (name, w) # rest" "filter_fields s tenant p schema fs pre k1 = (Inr rest, k')"
      "allowed s tenant p schema (pre @ ''/'' @ name) w" "\<forall>gs. w \<noteq> VStruct (Some gs)"
  | (struct) gs nested k1 rest k2 where "out = (name, VStruct (if gs = [] then None else Some gs)) # rest"
      "filter_fields s tenant p schema fs pre k2 = (Inr rest, k')" "v = VStruct (Some nested)"
      "filter_fields s tenant p schema nested (pre @ ''/'' @ name) k = (Inr gs, k1)"
      "\<And>w. allowed s tenant p schema (pre @ ''/'' @ name) w"
proof -
  let ?ptr = "pre @ ''/'' @ name"
  show thesis
  proof (cases "map_of (sc_Properties schema) ?ptr")
    case None
    then show thesis using assms dropped by (simp add: Let_def)
  next
    case (Some q)
    show thesis
    proof (cases "\<not> KeepsProperty p (pr_Class q) (pr_PII q) \<or> pr_Sensitive q = ''redact''")
      case True
      then show thesis using assms Some dropped by (auto simp: Let_def split: if_splits)
    next
      case False
      show thesis
      proof (cases "pr_Sensitive q = ''hmac''")
        case True
        obtain f h k1 where f: "sp_Keys s = Some f" "f k tenant (pf_Name p) (GetStringValue v) = (Inr h, k1)"
          using assms Some False True by (auto simp: Let_def split: option.splits prod.splits sum.splits)
        obtain rest where "filter_fields s tenant p schema fs pre k1 = (Inr rest, k')" "out = (name, VString h) # rest"
          using assms Some False True f by (auto simp: Let_def split: prod.splits sum.splits)
        moreover have "allowed s tenant p schema ?ptr (VString h)"
          using Some False f unfolding allowed_def by blast
        ultimately show thesis by (intro kept) auto
      next
        case plain: False
        have ok: "allowed s tenant p schema ?ptr w" for w using Some False plain by (auto simp: allowed_def)
        show thesis
        proof (cases "\<exists>nested. v = VStruct (Some nested)")
          case True
          then obtain nested where v: "v = VStruct (Some nested)" by blast
          obtain gs k1 where gs: "filter_fields s tenant p schema nested ?ptr k = (Inr gs, k1)"
            using assms Some False plain v by (auto simp: Let_def split: prod.splits sum.splits)
          obtain rest where "filter_fields s tenant p schema fs pre k1 = (Inr rest, k')"
            "out = (name, VStruct (if gs = [] then None else Some gs)) # rest"
            using assms Some False plain v gs by (auto simp: Let_def split: prod.splits sum.splits)
          then show thesis using v gs ok by (intro struct) auto
        next
          case nostruct: False
          obtain rest where "filter_fields s tenant p schema fs pre k = (Inr rest, k')" "out = (name, v) # rest"
            using assms Some False plain nostruct by (cases v) (auto simp: Let_def split: prod.splits sum.splits option.splits)
          then show thesis using ok nostruct by (intro kept) auto
        qed
      qed
    qed
  qed
qed

lemma filter_fields_allowed:
  "filter_fields s tenant p schema fs pre k = (Inr out, k') \<Longrightarrow> has_property out pre q v \<Longrightarrow> allowed s tenant p schema q v"
proof (induction "size_list (size_prod (\<lambda>_. 0) size) fs" arbitrary: fs pre k out k' q v rule: less_induct)
  case less
  show ?case
  proof (cases fs)
    case Nil
    then show ?thesis using less.prems by auto
  next
    case (Cons nv fs')
    obtain name u where nv: "nv = (name, u)" by fastforce
    have IH: "filter_fields s tenant p schema gs pre' k1 = (Inr o1, k2) \<Longrightarrow> has_property o1 pre' q' w \<Longrightarrow>
        size_list (size_prod (\<lambda>_. 0) size) gs < size_list (size_prod (\<lambda>_. 0) size) fs \<Longrightarrow> allowed s tenant p schema q' w"
      for gs pre' k1 o1 k2 q' w using less.hyps by blast
    from less.prems(1) [unfolded Cons nv] show ?thesis
    proof (cases rule: filter_field_cases)
      case dropped
      then show ?thesis using IH less.prems(2) Cons by auto
    next
      case (kept w rest k1)
      then show ?thesis using IH [OF kept(2)] less.prems(2) Cons by (auto simp: has_property_Cons)
    next
      case (struct gs nested k1 rest k2)
      have "size_list (size_prod (\<lambda>_. 0) size) nested < size_list (size_prod (\<lambda>_. 0) size) fs" using Cons nv struct(3) by simp
      then show ?thesis using IH [OF struct(2)] IH [OF struct(4)] less.prems(2) Cons struct(1,5)
        by (auto simp: has_property_Cons split: if_splits)
    qed
  qed
qed

section \<open>A copy is default-deny\<close>

lemma filterSlots_result:
  assumes "filterSlots s c x p k = (Inr d, k')"
  shows "d = c\<lparr>r_Data := r_Data d, r_Attributes := r_Attributes d, r_Unmapped := r_Unmapped d\<rparr>"
    and "r_Data c = None \<longrightarrow> r_Data d = None" "r_Attributes c = [] \<longrightarrow> r_Attributes d = []" "r_Unmapped c = None \<longrightarrow> r_Unmapped d = None"
    and "KeepsProperty p class_Audit ''none'' \<or> (r_Attributes d = [] \<and> r_Unmapped d = None)"
    and "x_Data x = None \<longrightarrow> r_Data d = None \<or> KeepsProperty p class_Audit ''none''"
    and "\<And>schema fs q v. x_Data x = Some schema \<Longrightarrow> r_Data d = Some fs \<Longrightarrow> has_property fs [] q v \<Longrightarrow>
      allowed s (copy_tenant c) p schema q v"
proof -
  consider (none) "r_Data c = None" "d = (if \<not> KeepsProperty p class_Audit ''none'' then c\<lparr>r_Attributes := [], r_Unmapped := None\<rparr> else c)"
    | (schema) fs schema out k1 where "r_Data c = Some fs" "x_Data x = Some schema"
        "filter_fields s (copy_tenant c) p schema fs [] k = (Inr out, k1)"
        "d = (let e = c\<lparr>r_Data := if out = [] then None else Some out\<rparr> in
              if \<not> KeepsProperty p class_Audit ''none'' then e\<lparr>r_Attributes := [], r_Unmapped := None\<rparr> else e)"
    | (bare) fs where "r_Data c = Some fs" "x_Data x = None"
        "d = (if \<not> KeepsProperty p class_Audit ''none'' then c\<lparr>r_Data := None, r_Attributes := [], r_Unmapped := None\<rparr> else c)"
  proof (cases "r_Data c")
    case None
    then show thesis using assms none by (auto simp: filterSlots_def Let_def)
  next
    case (Some fs)
    show thesis
    proof (cases "x_Data x")
      case None
      then show thesis using assms Some bare [OF Some] by (auto simp: filterSlots_def Let_def split: if_splits)
    next
      case schema': (Some schema)
      obtain kept k1 where f: "filter_struct s (copy_tenant c) p schema fs [] k = (Inr kept, k1)"
        using assms Some schema' by (auto simp: filterSlots_def Let_def at_place_Inr split: prod.splits sum.splits)
      then obtain out where out: "filter_fields s (copy_tenant c) p schema fs [] k = (Inr out, k1)" "kept = (if out = [] then None else Some out)"
        by (cases "filter_fields s (copy_tenant c) p schema fs [] k"; cases "fst (filter_fields s (copy_tenant c) p schema fs [] k)")
          (auto simp: filter_struct_def)
      have "at_place ''data'' (filter_struct s (copy_tenant c) p schema fs [] k) = (Inr kept, k1)" using f by (simp add: at_place_Inr)
      then show thesis using assms Some schema' schema [OF Some schema' out(1)] by (auto simp: filterSlots_def Let_def out(2))
    qed
  qed
  note c = this
  show "d = c\<lparr>r_Data := r_Data d, r_Attributes := r_Attributes d, r_Unmapped := r_Unmapped d\<rparr>" using c by cases (auto simp: Let_def)
  show "r_Data c = None \<longrightarrow> r_Data d = None" using c by cases (auto simp: Let_def)
  show "r_Attributes c = [] \<longrightarrow> r_Attributes d = []" using c by cases (auto simp: Let_def)
  show "r_Unmapped c = None \<longrightarrow> r_Unmapped d = None" using c by cases (auto simp: Let_def)
  show "KeepsProperty p class_Audit ''none'' \<or> (r_Attributes d = [] \<and> r_Unmapped d = None)" using c by cases (auto simp: Let_def)
  show "x_Data x = None \<longrightarrow> r_Data d = None \<or> KeepsProperty p class_Audit ''none''" using c by cases (auto simp: Let_def)
  fix schema fs q v assume *: "x_Data x = Some schema" "r_Data d = Some fs" "has_property fs [] q v"
  from c show "allowed s (copy_tenant c) p schema q v"
  proof cases
    case (schema fs' schema' out k1)
    then have "fs = out" "schema' = schema" using * by (auto simp: Let_def split: if_splits)
    then show ?thesis using filter_fields_allowed [OF schema(3)] *(3) by simp
  qed (use * in \<open>auto split: if_splits\<close>)
qed

lemma copyFor_parts:
  assumes "copyFor s r x p k = (Inr c, k')"
  obtains d k1 where "treatIdentities s (clear_unkept p CoreFields (r\<lparr>r_Profile := pf_Name p\<rparr>)) x p k = (Inr d, k1)"
    "filterSlots s d x p k1 = (Inr c, k')"
  using assms by (auto simp: copyFor_def Let_def split: prod.splits sum.splits)

text \<open>The tenant a copy's identifiers are treated under: the record's, unless the profile drops it.\<close>

definition key_tenant :: "Profile \<Rightarrow> Record \<Rightarrow> string" where
  "key_tenant p r = (if KeepsField p ''/tenant_id'' \<and> r_TenantId r \<noteq> [] then r_TenantId r else TenantPlatform)"

lemma copy_tenant_clear: "copy_tenant (clear_unkept p CoreFields (r\<lparr>r_Profile := n\<rparr>)) = key_tenant p r"
  by (simp add: copy_tenant_def key_tenant_def clear_unkept_fields)


text \<open>
  C6: Whoever a copy names has been treated. The actor's identifier and session, the subject's
  identifier and that of each target that is a person follow the treatment the profile sets for their
  category: omitted, replaced by what the key provider returned for them under the tenant of the
  copy and the name of the profile, or kept. A kept external identifier under a deployment that
  declares them opaque does not look like one that names a person.
\<close>

theorem copy_identities_treated:
  assumes "copyFor s r x p k = (Inr c, k')"
  shows "(\<forall>b. r_Actor c = Some b \<longrightarrow> (\<exists>a. r_Actor r = Some a \<and> actor_treated s x p (key_tenant p r) a b))
    \<and> (\<forall>v. r_Subject c = Some v \<longrightarrow> (\<exists>u. r_Subject r = Some u
         \<and> treated s (key_tenant p r) p (Composed_Category x (pa_Kind u)) (pa_Id u) (pa_Id v)))
    \<and> (r_Targets c = [] \<or> list_all2 (target_treated s x p (key_tenant p r)) (r_Targets r) (r_Targets c))"
proof -
  let ?b = "clear_unkept p CoreFields (r\<lparr>r_Profile := pf_Name p\<rparr>)"
  obtain d k1 where d: "treatIdentities s ?b x p k = (Inr d, k1)" "filterSlots s d x p k1 = (Inr c, k')"
    using copyFor_parts [OF assms] .
  note t = treatIdentities_result [OF d(1), unfolded copy_tenant_clear clear_unkept_fields] and f = filterSlots_result [OF d(2)]
  have same: "r_Actor c = r_Actor d" "r_Subject c = r_Subject d" "r_Targets c = r_Targets d" by (subst f(1), simp)+
  have "\<exists>a. r_Actor r = Some a \<and> actor_treated s x p (key_tenant p r) a b" if "r_Actor d = Some b" for b
    using t(1) that by (cases "r_Actor r") (auto split: if_splits)
  moreover have "\<exists>u. r_Subject r = Some u \<and> treated s (key_tenant p r) p (Composed_Category x (pa_Kind u)) (pa_Id u) (pa_Id v)"
    if "r_Subject d = Some v" for v
    using t(2) that by (cases "r_Subject r") (auto split: if_splits)
  moreover have "r_Targets d = [] \<or> list_all2 (target_treated s x p (key_tenant p r)) (r_Targets r) (r_Targets d)"
    using t(3) by (auto split: if_splits)
  ultimately show ?thesis unfolding same by blast
qed

text \<open>A deployment with one profile, that keeps the actor and the data of the audit class.\<close>

definition example_keeping :: Profile where
  "example_keeping = example_profile\<lparr>pf_Name := ''security'', pf_RequiredFields := [''/actor'', ''/data''], pf_OptionalFields := [],
     pf_ForbiddenFields := [], pf_Classes := [class_Audit], pf_ForbiddenPII := [], pf_OpaqueExternal := False,
     pf_Identity := [External \<mapsto> Pseudonym]\<rparr>"

text \<open>A provider that puts the tenant and the purpose before the identifier.\<close>

definition example_splitter :: "nat Splitter" where
  "example_splitter = \<lparr>sp_Profiles = [(''security'', example_keeping)],
     sp_Keys = Some (\<lambda>k tenant purpose ident. (Inr (tenant @ ''/'' @ purpose @ ''/'' @ ident), Suc k)), sp_Identities = None\<rparr>"

definition example_actor :: Actor where
  "example_actor = \<lparr>ac_Kind = ''user'', ac_Id = ''u1'', ac_SessionId = [], ac_AuthMethod = [], ac_CredentialHash = [], ac_Attributes = None\<rparr>"

definition example_emitted :: Record where
  "example_emitted = example_record\<lparr>r_Actor := Some example_actor, r_Data := Some [(''key_id'', VString ''k1''), (''other'', VNull)]\<rparr>"

lemma example_keeps:
  "KeepsField example_keeping f \<longleftrightarrow> (\<exists>g \<in> {''/actor'', ''/data''}. f = g \<or> isUnder f g \<or> isUnder g f)"
  "KeepsProperty example_keeping class_Audit []"
  by (auto simp: KeepsField_def KeepsProperty_def example_keeping_def)

lemma example_copy:
  "copyFor example_splitter example_emitted example_composed example_keeping 0 =
     (Inr (empty_record\<lparr>r_Actor := Some (example_actor\<lparr>ac_Id := ''@platform/security/u1''\<rparr>),
             r_Data := Some [(''key_id'', VString ''k1'')], r_Profile := ''security''\<rparr>), 1)"
  by code_simp


theorem copy_identities_treated_witness:
  "treated example_splitter ''@platform'' example_keeping External ''u1'' ''@platform/security/u1''"
proof -
  have "actor_treated example_splitter example_composed example_keeping (key_tenant example_keeping example_emitted)
      example_actor (example_actor\<lparr>ac_Id := ''@platform/security/u1''\<rparr>)"
    using copy_identities_treated [OF example_copy] by (simp add: example_emitted_def)
  moreover have "key_tenant example_keeping example_emitted = ''@platform''" by code_simp
  moreover have "Composed_Category example_composed ''user'' = External"
    by (simp add: Composed_Category_def example_composed_def example_catalogue_def)
  ultimately show ?thesis by (simp add: actor_treated_def example_actor_def)
qed

text \<open>
  What a schema says of the properties of a list's items is indexed and not applied. Here the
  property \<open>email\<close> of the items of \<open>people\<close> is marked for redaction: indexing records the mark, under
  the pointer \<open>/people/email\<close>; in a struct the property is removed; in a list of structs it is in the
  copy as it was sent.
\<close>

theorem list_items_survive:
  "(let redacted = example_property\<lparr>pr_Sensitive := ''redact''\<rparr>;
        props = [(''/people/email'', redacted), (''/people'', example_property)];
        schema = example_schema\<lparr>sc_Properties := props\<rparr>;
        person = VStruct (Some [(''email'', VString ''ann@example.org'')])
    in index_all [] [(''people'', Inr (PropertyDoc example_property [] [(''email'', Inr (PropertyDoc redacted [] []))]))] 1 [] = Inr props
       \<and> fst (filter_struct example_splitter ''acme'' example_keeping schema [(''people'', person)] [] 0) = Inr (Some [(''people'', VStruct None)])
       \<and> fst (filter_struct example_splitter ''acme'' example_keeping schema [(''people'', VList [person])] [] 0)
           = Inr (Some [(''people'', VList [person])]))"
  by code_simp

lemma clear_unkept_tenant:
  assumes "\<not> KeepsField p ''/tenant_id''"
  shows "clear_unkept p CoreFields (r\<lparr>r_TenantId := t, r_Profile := n\<rparr>) = clear_unkept p CoreFields (r\<lparr>r_TenantId := u, r_Profile := n\<rparr>)"
  using assms by (intro Record.equality) (simp_all add: clear_unkept_fields)

text \<open>
  C38: Under a profile that does not keep the tenant, a copy does not depend on the tenant at all: the
  identifiers of two tenants' people are replaced under one key, that of the platform, so that the
  same identifier in two tenants has one pseudonym. The last conjunct is such a copy of a record of
  tenant \<open>acme\<close>.
\<close>

theorem dropped_tenant_platform_key:
  "(KeepsField p ''/tenant_id'' \<or>
      copyFor s (r\<lparr>r_TenantId := t\<rparr>) x p k = copyFor s (r\<lparr>r_TenantId := u\<rparr>) x p k)
   \<and> r_TenantId example_emitted = ''acme''
   \<and> fst (copyFor example_splitter example_emitted example_composed example_keeping 0) =
       Inr (empty_record\<lparr>r_Actor := Some (example_actor\<lparr>ac_Id := ''@platform/security/u1''\<rparr>),
             r_Data := Some [(''key_id'', VString ''k1'')], r_Profile := ''security''\<rparr>)"
proof (intro conjI)
  show "KeepsField p ''/tenant_id'' \<or> copyFor s (r\<lparr>r_TenantId := t\<rparr>) x p k = copyFor s (r\<lparr>r_TenantId := u\<rparr>) x p k"
  proof (cases "KeepsField p ''/tenant_id''")
    case False
    show ?thesis by (simp only: copyFor_def Let_def clear_unkept_tenant [OF False, where r = r and t = t and u = u] simp_thms)
  qed simp
  show "r_TenantId example_emitted = ''acme''" by (simp add: example_emitted_def example_record_def)
qed (simp only: example_copy fst_conv)

end
