(* ===== verification/Writer.thy ===== *)
theory Writer
  imports Deadletter Canonical Dedupe Roller Copies Check
begin

text \<open>
  \<open>internal/writer/writer.go\<close>, \<open>extend.go\<close> and \<open>meta.go\<close>: the writer. It takes a batch, passes over what it has
  taken before, checks, stamps and splits each record, gathers the copies in the roller, flushes, and only
  then marks the identifiers as taken and lengthens the locks the batch's addenda ask for.

  The archive of descriptions, the roller and the dead letters put into one store, as \<open>writer/writer.go\<close> wires
  them; its state is the roller's. What the program is linked with or given is the record \<open>parts\<close>: the store's
  and the table's operations, the canonical form, the compressor, the texts of errors. A call of a hook is an
  element of \<open>w_events\<close>; a record of the writer's own is handed to its emitter, \<open>w_self\<close> being what the emitter
  has been handed, if there is one.
\<close>

section \<open>Parts\<close>

datatype miss = UnknownCatalogueError string string | CatalogueNotLoaded string

text \<open>Why a record is dead-lettered; \<open>pt_say\<close> is the text of it.\<close>

datatype reason =
    CheckRefused "problem list"
  | TenantRefused string string
  | NoCatalogue miss
  | ActionRefused compose_error
  | RecordInvalid "validation_problem list"
  | NotStamped string
  | ExpiryRefused compose_error
  | ExtendsRefused compose_error
  | NoProfileKeeps

record row =
  row_TenantID :: string
  row_ObjectKey :: string

datatype extend_error =
    NoLocator
  | NotFound string string
  | AnotherTenant string
  | LockUnread string store_error
  | NotExtended store_error

record ('s, 'd) parts =
  pt_Put :: "'s \<Rightarrow> obj \<Rightarrow> store_error option \<times> 's"
  pt_Get :: "'s \<Rightarrow> string \<Rightarrow> store_error + bytes"
  pt_Head :: "'s \<Rightarrow> string \<Rightarrow> store_error + entry"
  pt_ExtendRetention :: "'s \<Rightarrow> string \<Rightarrow> time \<Rightarrow> store_error option \<times> 's"
  pt_Seen :: "'d \<Rightarrow> string list \<Rightarrow> (string + string list) \<times> 'd"
  pt_Mark :: "'d \<Rightarrow> string list \<Rightarrow> string option \<times> 'd"
  pt_compress :: "bytes \<Rightarrow> bytes"
  pt_canon :: canonical
  pt_is_uuid :: "string \<Rightarrow> bool"
  pt_is_print :: "nat \<Rightarrow> bool"
  pt_say :: "reason \<Rightarrow> string"
  pt_say_extend :: "extend_error \<Rightarrow> string"
  pt_hostname :: string
  pt_published :: "string + bytes"
  pt_protos :: "int \<Rightarrow> (string \<times> bytes) list option"

text \<open>What a call carries: the instance name, if the batch is the writer's own, and who calls.\<close>

record call =
  call_meta :: "string option"
  call_from :: string

datatype event =
    OnDeadLettered Record string
  | OnUnknownCatalogue string string
  | OnDuplicate Record
  | OnDuplicatesLikely "string list" string
  | OnUnhandled string "string list" "string list"
  | OnRetentionNotExtended string string extend_error

section \<open>The registry of catalogues\<close>

record Registry =
  rg_catalogues :: "(string \<times> Catalogue) list"

definition Register :: "Registry \<Rightarrow> Catalogue \<Rightarrow> Registry" where
  "Register g c = g\<lparr>rg_catalogues := AList.update (cg_Source c @ ''@'' @ cg_Version c) c (rg_catalogues g)\<rparr>"

definition Registry_Get :: "Registry \<Rightarrow> string \<Rightarrow> string \<Rightarrow> miss + Catalogue" where
  "Registry_Get g source version =
     (case map_of (rg_catalogues g) (source @ ''@'' @ version) of
        None \<Rightarrow> Inl (UnknownCatalogueError source version)
      | Some c \<Rightarrow> Inr c)"

section \<open>The writer\<close>

record ('s, 'k, 'd) Writer =
  w_Catalogues :: "string \<Rightarrow> string \<Rightarrow> miss + Catalogue"
  w_Splitter :: "'k Splitter"
  w_keys :: 'k
  w_Roller :: "'s Roller"
  w_Dedupe :: 'd
  w_DeadLetter :: StoreDeadLetter
  w_Archive :: "SchemaArchive option"
  w_self :: "Record list option"
  w_events :: "event list"
  w_Records :: "(string \<Rightarrow> string \<Rightarrow> string + row) option"
  w_Identity :: "(call \<Rightarrow> string) option"
  w_KeepUpstreamStamp :: bool
  w_Now :: "nat \<Rightarrow> time"
  w_reads :: nat
  w_unhandled :: "string list"

datatype write_error =
    DedupeFailed string
  | CatalogueNotArchived string string archive_error
  | SchemaNotArchived archive_error
  | SplitFailed string split_error
  | NilProfile string
  | NotGathered roll_error
  | NotLettered letter_error

abbreviation w_store :: "('s, 'k, 'd) Writer \<Rightarrow> 's" where
  "w_store w \<equiv> rl_Store (w_Roller w)"

abbreviation set_store :: "'s \<Rightarrow> ('s, 'k, 'd) Writer \<Rightarrow> ('s, 'k, 'd) Writer" where
  "set_store s w \<equiv> w\<lparr>w_Roller := (w_Roller w)\<lparr>rl_Store := s\<rparr>\<rparr>"

definition hook :: "event \<Rightarrow> ('s, 'k, 'd) Writer \<Rightarrow> ('s, 'k, 'd) Writer" where
  "hook e w = w\<lparr>w_events := w_events w @ [e]\<rparr>"

definition identity :: "('s, 'k, 'd) Writer \<Rightarrow> call \<Rightarrow> string" where
  "identity w ctx =
     (case call_meta ctx of
        Some instance_name \<Rightarrow> instance_name
      | None \<Rightarrow> (case w_Identity w of None \<Rightarrow> [] | Some f \<Rightarrow> f ctx))"

definition writer_now :: "('s, 'k, 'd) Writer \<Rightarrow> time \<times> ('s, 'k, 'd) Writer" where
  "writer_now w = (w_Now w (w_reads w), w\<lparr>w_reads := Suc (w_reads w)\<rparr>)"

section \<open>The writer's account of itself\<close>

definition meta_record :: "('s, 'k, 'd) Writer \<Rightarrow> string \<Rightarrow> Operation \<Rightarrow> Record" where
  "meta_record w action operation =
     empty_record\<lparr>r_Action := action, r_Operation := operation, r_TenantId := TenantPlatform,
       r_Actor := Some \<lparr>ac_Kind = ''system'', ac_Id = rl_Instance (w_Roller w), ac_SessionId = [], ac_AuthMethod = [],
         ac_CredentialHash = [], ac_Attributes = None\<rparr>\<rparr>"

definition emitMeta :: "Record \<Rightarrow> ('s, 'k, 'd) Writer \<Rightarrow> ('s, 'k, 'd) Writer" where
  "emitMeta r w = w\<lparr>w_self := map_option (\<lambda>rs. rs @ [r]) (w_self w)\<rparr>"

definition target_of :: "string \<Rightarrow> string \<Rightarrow> string \<Rightarrow> Target" where
  "target_of kind ident name = \<lparr>ta_Type = kind, ta_Id = ident, ta_Name = name, ta_Attributes = None\<rparr>"

record Evidence =
  ev_ConfigFile :: string
  ev_ConfigDigest :: string
  ev_DeploymentDigest :: string
  ev_WorkloadsDigest :: string
  ev_CataloguesDigest :: string
  ev_Layer :: string
  ev_FunctionVersion :: string

text \<open>\<open>structpb.NewStruct\<close> over strings: refused if one is not UTF-8.\<close>

definition NewStruct :: "(string \<times> string) list \<Rightarrow> Struct option" where
  "NewStruct members =
     (if list_all (\<lambda>(k, v). utf8_string k \<and> utf8_string v) members then Some (map (\<lambda>(k, v). (k, VString v)) members) else None)"

definition Evidence_data :: "Evidence \<Rightarrow> Struct option option" where
  "Evidence_data e =
     (let present = filter (\<lambda>(k, v). v \<noteq> [])
        [(''config_file'', ev_ConfigFile e), (''config_digest'', ev_ConfigDigest e), (''deployment_digest'', ev_DeploymentDigest e),
         (''workloads_digest'', ev_WorkloadsDigest e), (''catalogues_digest'', ev_CataloguesDigest e),
         (''layer'', ev_Layer e), (''function_version'', ev_FunctionVersion e)]
      in if present = [] then Some None else map_option Some (NewStruct present))"

definition Started :: "Evidence \<Rightarrow> ('s, 'k, 'd) Writer \<Rightarrow> ('s, 'k, 'd) Writer" where
  "Started evidence w =
     (let r = meta_record w ''audit.writer.started'' OPERATION_CREATE
      in emitMeta (case Evidence_data evidence of Some data \<Rightarrow> r\<lparr>r_Data := data\<rparr> | None \<Rightarrow> r) w)"

definition Registered :: "Catalogue \<Rightarrow> ('s, 'k, 'd) Writer \<Rightarrow> ('s, 'k, 'd) Writer" where
  "Registered c w =
     emitMeta ((meta_record w ''audit.catalogue.registered'' OPERATION_CREATE)
       \<lparr>r_Targets := [target_of ''catalogue'' (cg_Source c @ ''@'' @ cg_Version c) (cg_Source c)]\<rparr>) w"

definition failure :: "string \<Rightarrow> string \<Rightarrow> Outcome option" where
  "failure reason code = Some \<lparr>ou_Result = RESULT_FAILURE, ou_Reason = reason, ou_Code = code\<rparr>"

definition metaDeadLettered :: "Record \<Rightarrow> string \<Rightarrow> ('s, 'k, 'd) Writer \<Rightarrow> ('s, 'k, 'd) Writer" where
  "metaDeadLettered failed reason w =
     emitMeta ((meta_record w ''audit.writer.dead_lettered'' OPERATION_CREATE)
       \<lparr>r_Outcome := failure reason ''dead_lettered'',
        r_Targets := [target_of ''record'' (if r_Id failed = [] then ''unidentified'' else r_Id failed) []]\<rparr>) w"

definition stopped :: "('s, 'k, 'd) Writer \<Rightarrow> ('s, 'k, 'd) Writer" where
  "stopped w = emitMeta (meta_record w ''audit.writer.stopped'' OPERATION_REMOVE) w"

section \<open>One record\<close>

record extension =
  xt_record :: string
  xt_tenant :: string
  xt_profile :: Profile
  xt_earlier :: "string list"
  xt_until :: time

definition deadLetter ::
  "('s, 'd) parts \<Rightarrow> call \<Rightarrow> Record \<Rightarrow> reason \<Rightarrow> ('s, 'k, 'd) Writer \<Rightarrow> write_error option \<times> ('s, 'k, 'd) Writer"
where
  "deadLetter v ctx r why w =
     (let reason = pt_say v why in
      case DeadLetter_Put (pt_Put v) (pt_is_print v) (pt_canon v) (w_DeadLetter w) (w_store w) r reason of
        (Some e, d, s) \<Rightarrow> (Some (NotLettered e), (set_store s w)\<lparr>w_DeadLetter := d\<rparr>)
      | (None, d, s) \<Rightarrow>
          (let w = hook (OnDeadLettered r reason) ((set_store s w)\<lparr>w_DeadLetter := d\<rparr>)
           in (None, if call_meta ctx = None then metaDeadLettered r reason w else w)))"

definition reportUnhandled :: "string \<Rightarrow> string list \<Rightarrow> string list \<Rightarrow> ('s, 'k, 'd) Writer \<Rightarrow> ('s, 'k, 'd) Writer" where
  "reportUnhandled action missing kept w =
     (if action \<in> set (w_unhandled w) then w
      else hook (OnUnhandled action missing kept) (w\<lparr>w_unhandled := action # w_unhandled w\<rparr>))"

definition addenda :: "('s, 'k, 'd) Writer \<Rightarrow> Record \<Rightarrow> string list \<Rightarrow> time option \<Rightarrow> string list \<Rightarrow> extension list" where
  "addenda w r earlier expiry profiles =
     (if earlier = [] \<or> expiry = None then []
      else List.map_filter
        (\<lambda>name. case map_of (sp_Profiles (w_Splitter w)) name of
                  None \<Rightarrow> None
                | Some p \<Rightarrow>
                    if rt_Policy (pf_Retention p) \<noteq> ''after_expiry'' then None
                    else Some \<lparr>xt_record = r_Id r, xt_tenant = r_TenantId r, xt_profile = p, xt_earlier = earlier,
                               xt_until = RetainUntil p zero_time expiry\<rparr>)
        profiles)"

text \<open>What describes the record is put beside it before its copies are.\<close>

definition describe :: "('s, 'd) parts \<Rightarrow> Catalogue \<Rightarrow> Record \<Rightarrow> ('s, 'k, 'd) Writer \<Rightarrow> write_error option \<times> ('s, 'k, 'd) Writer" where
  "describe v c r w =
     (case w_Archive w of
        None \<Rightarrow> (None, w)
      | Some a \<Rightarrow>
          (case EnsureCatalogue (pt_Put v) (pt_Get v) a (w_store w) c of
             (Some e, a, s) \<Rightarrow> (Some (CatalogueNotArchived (cg_Source c) (cg_Version c) e), (set_store s w)\<lparr>w_Archive := Some a\<rparr>)
           | (None, a, s) \<Rightarrow>
               (case EnsureRecord (pt_Put v) (pt_published v) (pt_protos v) a s (r_SchemaVersion r) of
                  (err, a, s) \<Rightarrow> (map_option SchemaNotArchived err, (set_store s w)\<lparr>w_Archive := Some a\<rparr>))))"

definition stamp_record :: "('s, 'd) parts \<Rightarrow> call \<Rightarrow> Record \<Rightarrow> ('s, 'k, 'd) Writer \<Rightarrow> (string option \<times> Record) \<times> ('s, 'k, 'd) Writer" where
  "stamp_record v ctx r w =
     (let observer = \<lparr>ob_Id = identity w ctx,
            ob_Version = (case r_Observer r of None \<Rightarrow> [] | Some ob \<Rightarrow> ob_Version ob),
            ob_Instance = (case r_Observer r of None \<Rightarrow> [] | Some ob \<Rightarrow> ob_Instance ob)\<rparr>;
          (tm, w) = writer_now w
      in case (if w_KeepUpstreamStamp w \<and> stampedUpstream (pt_canon v) r then r_RecordedAt r else None) of
           Some upstream \<Rightarrow> (Stamp (pt_canon v) r (r_Observer r) upstream, w)
         | None \<Rightarrow> (Stamp (pt_canon v) r (Some observer) tm, w))"

fun add_copies ::
  "('s, 'd) parts \<Rightarrow> Record list \<Rightarrow> time option \<Rightarrow> ('s, 'k, 'd) Writer \<Rightarrow> write_error option \<times> ('s, 'k, 'd) Writer"
where
  "add_copies v [] expiry w = (None, w)"
| "add_copies v (c # cs) expiry w =
     (case map_of (sp_Profiles (w_Splitter w)) (r_Profile c) of
        None \<Rightarrow> (Some (NilProfile (r_Profile c)), w)
      | Some p \<Rightarrow>
          (case AddExpiring (pt_Put v) (pt_compress v) (pt_canon v) (pt_hostname v) (w_Roller w) p c expiry of
             (Some e, r) \<Rightarrow> (Some (NotGathered e), w\<lparr>w_Roller := r\<rparr>)
           | (None, r) \<Rightarrow> add_copies v cs expiry (w\<lparr>w_Roller := r\<rparr>)))"

text \<open>\<open>one\<close>, from the point where the record is stamped, then from where its catalogue is known, then the whole.\<close>

definition one_stamped ::
  "('s, 'd) parts \<Rightarrow> call \<Rightarrow> Composed \<Rightarrow> Record \<Rightarrow> extension list \<Rightarrow> ('s, 'k, 'd) Writer
   \<Rightarrow> (write_error option \<times> ('s, 'k, 'd) Writer) \<times> extension list"
where
  "one_stamped v ctx x r pending w =
     (case Expiry x r of
        Inl e \<Rightarrow> (deadLetter v ctx r (ExpiryRefused e) w, pending)
      | Inr expiry \<Rightarrow>
          (case Extends x r of
             Inl e \<Rightarrow> (deadLetter v ctx r (ExtendsRefused e) w, pending)
           | Inr earlier \<Rightarrow>
               (let w = (if Unhandled (w_Splitter w) x \<noteq> [] then
                           reportUnhandled (r_Action r) (Unhandled (w_Splitter w) x) (Handled (w_Splitter w) x) w
                         else w)
                in case Splitter_Split (w_Splitter w) r x (w_keys w) of
                     (Inl e, k) \<Rightarrow> ((Some (SplitFailed (r_Action r) e), w\<lparr>w_keys := k\<rparr>), pending)
                   | (Inr copies, k) \<Rightarrow>
                       (let w = w\<lparr>w_keys := k\<rparr> in
                        if copies = [] then (deadLetter v ctx r NoProfileKeeps w, pending)
                        else case add_copies v copies expiry w of
                               (Some e, w) \<Rightarrow> ((Some e, w), pending)
                             | (None, w) \<Rightarrow> ((None, w), pending @ addenda w r earlier expiry (map r_Profile copies))))))"

definition one_described ::
  "('s, 'd) parts \<Rightarrow> call \<Rightarrow> Catalogue \<Rightarrow> Record \<Rightarrow> extension list \<Rightarrow> ('s, 'k, 'd) Writer
   \<Rightarrow> (write_error option \<times> ('s, 'k, 'd) Writer) \<times> extension list"
where
  "one_described v ctx c r pending w =
     (case Catalogue_Compose c (r_Action r) of
        Inl e \<Rightarrow> (deadLetter v ctx r (ActionRefused e) w, pending)
      | Inr x \<Rightarrow>
          if Validate x r \<noteq> [] then (deadLetter v ctx r (RecordInvalid (Validate x r)) w, pending)
          else case stamp_record v ctx r w of
                 ((Some e, r), w) \<Rightarrow> (deadLetter v ctx r (NotStamped e) w, pending)
               | ((None, r), w) \<Rightarrow> one_stamped v ctx x r pending w)"

definition one ::
  "('s, 'd) parts \<Rightarrow> call \<Rightarrow> Record \<Rightarrow> extension list \<Rightarrow> ('s, 'k, 'd) Writer
   \<Rightarrow> (write_error option \<times> ('s, 'k, 'd) Writer) \<times> extension list"
where
  "one v ctx r pending w =
     (let problems = Check (pt_is_uuid v) (pt_canon v) r Default; why = KeyComponent (r_TenantId r) in
      if problems \<noteq> [] then (deadLetter v ctx r (CheckRefused problems) w, pending)
      else if why \<noteq> [] then (deadLetter v ctx r (TenantRefused (r_TenantId r) why) w, pending)
      else case w_Catalogues w (r_Source r) (r_CatalogueVersion r) of
             Inl m \<Rightarrow>
               (let w = (case m of UnknownCatalogueError s t \<Rightarrow> hook (OnUnknownCatalogue s t) w | CatalogueNotLoaded e \<Rightarrow> w)
                in (deadLetter v ctx r (NoCatalogue m) w, pending))
           | Inr c \<Rightarrow>
               (case describe v c r w of
                  (Some e, w) \<Rightarrow> ((Some e, w), pending)
                | (None, w) \<Rightarrow> one_described v ctx c r pending w))"

section \<open>Addenda\<close>

datatype extended = Extended | NothingToExtend | ExtendFailed extend_error

definition extendOne ::
  "('s, 'd) parts \<Rightarrow> extension \<Rightarrow> string \<Rightarrow> ('s, 'k, 'd) Writer \<Rightarrow> (string \<times> time \<times> extended) \<times> ('s, 'k, 'd) Writer"
where
  "extendOne v e ident w =
     (case w_Records w of
        None \<Rightarrow> (([], zero_time, ExtendFailed NoLocator), w)
      | Some locate \<Rightarrow>
          (case locate (pf_Name (xt_profile e)) ident of
             Inl err \<Rightarrow> (([], zero_time, ExtendFailed (NotFound ident err)), w)
           | Inr row \<Rightarrow>
               if row_TenantID row \<noteq> xt_tenant e then ((row_ObjectKey row, zero_time, ExtendFailed (AnotherTenant ident)), w)
               else case pt_Head v (w_store w) (row_ObjectKey row) of
                      Inl err \<Rightarrow> ((row_ObjectKey row, zero_time, ExtendFailed (LockUnread (row_ObjectKey row) err)), w)
                    | Inr entry \<Rightarrow>
                        if e_RetainUntil entry \<noteq> zero_time \<and> \<not> e_RetainUntil entry < xt_until e
                        then ((row_ObjectKey row, e_RetainUntil entry, NothingToExtend), w)
                        else case pt_ExtendRetention v (w_store w) (row_ObjectKey row) (xt_until e) of
                               (Some err, s) \<Rightarrow> ((row_ObjectKey row, e_RetainUntil entry, ExtendFailed (NotExtended err)), set_store s w)
                             | (None, s) \<Rightarrow> ((row_ObjectKey row, e_RetainUntil entry, Extended), set_store s w)))"

definition metaExtended ::
  "('s, 'd) parts \<Rightarrow> extension \<Rightarrow> string \<Rightarrow> string \<Rightarrow> time \<Rightarrow> extend_error option \<Rightarrow> ('s, 'k, 'd) Writer \<Rightarrow> ('s, 'k, 'd) Writer"
where
  "metaExtended v e earlier key previous failed w =
     (let r = (meta_record w ''audit.retention.extended'' OPERATION_MODIFY)
            \<lparr>r_TenantId := xt_tenant e, r_Targets := [target_of ''record'' earlier [], target_of ''record'' (xt_record e) []]\<rparr>;
          data = [(''retain_until'', FormatRFC3339 (xt_until e))]
            @ (if key \<noteq> [] then [(''object'', key)] else [])
            @ (if previous \<noteq> zero_time then [(''previous_retain_until'', FormatRFC3339 previous)] else []);
          r = (case NewStruct data of Some s \<Rightarrow> r\<lparr>r_Data := Some s\<rparr> | None \<Rightarrow> r)
      in emitMeta (case failed of Some err \<Rightarrow> r\<lparr>r_Outcome := failure (pt_say_extend v err) ''not_extended''\<rparr> | None \<Rightarrow> r) w)"

definition extend_id :: "('s, 'd) parts \<Rightarrow> extension \<Rightarrow> string \<Rightarrow> ('s, 'k, 'd) Writer \<Rightarrow> ('s, 'k, 'd) Writer" where
  "extend_id v e ident w =
     (case extendOne v e ident w of
        ((key, previous, NothingToExtend), w) \<Rightarrow> w
      | ((key, previous, ExtendFailed err), w) \<Rightarrow>
          metaExtended v e ident key previous (Some err) (hook (OnRetentionNotExtended (pf_Name (xt_profile e)) ident err) w)
      | ((key, previous, Extended), w) \<Rightarrow> metaExtended v e ident key previous None w)"

definition extend_all :: "('s, 'd) parts \<Rightarrow> extension list \<Rightarrow> ('s, 'k, 'd) Writer \<Rightarrow> ('s, 'k, 'd) Writer" where
  "extend_all v pending w = fold (\<lambda>e. fold (extend_id v e) (xt_earlier e)) pending w"

section \<open>A batch\<close>

text \<open>The loop over a batch: what is pending, what was taken, how many were accepted.\<close>

fun write_all ::
  "('s, 'd) parts \<Rightarrow> call \<Rightarrow> string list \<Rightarrow> Record list \<Rightarrow> string list \<Rightarrow> extension list \<Rightarrow> ('s, 'k, 'd) Writer
   \<Rightarrow> write_error option \<times> string list \<times> extension list \<times> ('s, 'k, 'd) Writer"
where
  "write_all v ctx seen [] written pending w = (None, written, pending, w)"
| "write_all v ctx seen (r # rs) written pending w =
     (if r_Id r \<in> set seen \<or> r_Id r \<in> set written then write_all v ctx seen rs written pending (hook (OnDuplicate r) w)
      else case one v ctx r pending w of
             ((Some e, w), pending) \<Rightarrow> (Some e, written, pending, w)
           | ((None, w), pending) \<Rightarrow>
               write_all v ctx seen rs (if r_Id r \<noteq> [] then written @ [r_Id r] else written) pending w)"

definition Write ::
  "('s, 'd) parts \<Rightarrow> call \<Rightarrow> Record list \<Rightarrow> ('s, 'k, 'd) Writer \<Rightarrow> (write_error + nat) \<times> ('s, 'k, 'd) Writer"
where
  "Write v ctx rs w =
     (if rs = [] then (Inr 0, w)
      else case pt_Seen v (w_Dedupe w) (map r_Id rs) of
             (Inl e, d) \<Rightarrow> (Inl (DedupeFailed e), w\<lparr>w_Dedupe := d\<rparr>)
           | (Inr seen, d) \<Rightarrow>
               (case write_all v ctx seen rs [] [] (w\<lparr>w_Dedupe := d\<rparr>) of
                  (Some e, written, pending, w) \<Rightarrow> (Inl e, w)
                | (None, written, pending, w) \<Rightarrow>
                    (case Flush (pt_Put v) (pt_compress v) (pt_hostname v) (w_Roller w) of
                       (Some e, r) \<Rightarrow> (Inl (NotGathered e), w\<lparr>w_Roller := r\<rparr>)
                     | (None, r) \<Rightarrow>
                         (let w = w\<lparr>w_Roller := r\<rparr>;
                              (err, d) = pt_Mark v (w_Dedupe w) written;
                              w = w\<lparr>w_Dedupe := d\<rparr>;
                              w = (case err of Some e \<Rightarrow> hook (OnDuplicatesLikely written e) w | None \<Rightarrow> w)
                          in (Inr (length rs), extend_all v pending w)))))"

text \<open>\<open>Close\<close>; the emitters of the writer's own records, which write what they hold back to it, are arguments.\<close>

definition Close ::
  "('s, 'd) parts \<Rightarrow> (('s, 'k, 'd) Writer \<Rightarrow> string option \<times> ('s, 'k, 'd) Writer) \<Rightarrow> (('s, 'k, 'd) Writer \<Rightarrow> string option \<times> ('s, 'k, 'd) Writer)
   \<Rightarrow> ('s, 'k, 'd) Writer \<Rightarrow> (string + roll_error) option \<times> ('s, 'k, 'd) Writer"
where
  "Close v self_close confirmed_close w =
     (case (if w_self w \<noteq> None then self_close (stopped w) else (None, w)) of
        (Some e, w) \<Rightarrow> (Some (Inl e), w)
      | (None, w) \<Rightarrow>
          (case (if w_self w \<noteq> None then confirmed_close w else (None, w)) of
             (Some e, w) \<Rightarrow> (Some (Inl e), w)
           | (None, w) \<Rightarrow>
               (case Flush (pt_Put v) (pt_compress v) (pt_hostname v) (w_Roller w) of
                  (err, r) \<Rightarrow> (map_option Inr err, w\<lparr>w_Roller := r\<rparr>))))"

end
