(* ===== verification/Durable.thy ===== *)
theory Durable
  imports Writer
begin

text \<open>
  What the writer promises: a record it has accepted is in the archive. A record is taken when it is in a dead
  letter or when every copy its catalogue asks for is gathered or stored; it is durable when the copies are
  stored. The locale \<open>writer_parts\<close> is what the writer relies on, a store and a table of what was marked; the
  interpretation \<open>mem_writer\<close> discharges it for the ones in memory.
\<close>

section \<open>Records that are taken\<close>

definition letter_of :: "('s, 'd) parts \<Rightarrow> (string \<Rightarrow> obj option) \<Rightarrow> Record \<Rightarrow> bool" where
  "letter_of v objs r \<longleftrightarrow>
     lettered (pt_is_print v) (pt_canon v) objs r
     \<or> (\<exists>ob tm e r'. Stamp (pt_canon v) r ob tm = (e, r') \<and> lettered (pt_is_print v) (pt_canon v) objs r')"

text \<open>The copies of a record: what the splitter makes of it, stamped, under the action a catalogue composes for it.\<close>

definition copies_of :: "('s, 'd) parts \<Rightarrow> 'k Splitter \<Rightarrow> Record \<Rightarrow> time option \<Rightarrow> Record list \<Rightarrow> bool" where
  "copies_of v sp r expiry cs \<longleftrightarrow>
     (\<exists>c x ob tm r' k k'. Catalogue_Compose c (r_Action r) = Inr x \<and> Validate x r = [] \<and> Stamp (pt_canon v) r ob tm = (None, r')
        \<and> Expiry x r' = Inr expiry \<and> Splitter_Split sp r' x k = (Inr cs, k') \<and> cs \<noteq> [])"

text \<open>Where a copy is: in the partition of its profile and tenant, to be kept for as long as the expiry asks.\<close>

definition placed ::
  "('s, 'd) parts \<Rightarrow> 'k Splitter \<Rightarrow> (partition \<Rightarrow> bytes \<Rightarrow> time \<Rightarrow> bool) \<Rightarrow> time option \<Rightarrow> Record \<Rightarrow> bool" where
  "placed v sp holds expiry c \<longleftrightarrow>
     (\<exists>p line tm. map_of (sp_Profiles sp) (r_Profile c) = Some p \<and> pt_canon v c = Inr line
        \<and> holds (pf_Name p, tenantOf c) (EncodeLine line) tm
        \<and> (\<forall>e. expiry = Some e \<and> rt_Policy (pf_Retention p) = ''after_expiry'' \<longrightarrow> RetainUntil p zero_time (Some e) \<le> tm))"

definition copied :: "('s, 'd) parts \<Rightarrow> 'k Splitter \<Rightarrow> (partition \<Rightarrow> bytes \<Rightarrow> time \<Rightarrow> bool) \<Rightarrow> Record \<Rightarrow> bool" where
  "copied v sp holds r \<longleftrightarrow> (\<exists>expiry cs. copies_of v sp r expiry cs \<and> (\<forall>c \<in> set cs. placed v sp holds expiry c))"

definition durable :: "('s, 'd) parts \<Rightarrow> 'k Splitter \<Rightarrow> bool \<Rightarrow> (string \<Rightarrow> obj option) \<Rightarrow> Record \<Rightarrow> bool" where
  "durable v sp lockd objs r \<longleftrightarrow> letter_of v objs r \<or> copied v sp (in_object (pt_compress v) lockd objs) r"

lemma letter_of_keeps: "keeps_objects objs objs' \<Longrightarrow> letter_of v objs r \<Longrightarrow> letter_of v objs' r"
  unfolding letter_of_def keeps_objects_def by (meson lettered_mono)

lemma placed_mono: "(\<And>k l t. holds k l t \<Longrightarrow> holds' k l t) \<Longrightarrow> placed v sp holds e c \<Longrightarrow> placed v sp holds' e c"
  unfolding placed_def by meson

lemma copied_mono: "(\<And>k l t. holds k l t \<Longrightarrow> holds' k l t) \<Longrightarrow> copied v sp holds r \<Longrightarrow> copied v sp holds' r"
  unfolding copied_def using placed_mono [of holds holds' v sp] by blast

lemma durable_keeps: "keeps_objects objs objs' \<Longrightarrow> durable v sp lockd objs r \<Longrightarrow> durable v sp lockd objs' r"
  unfolding durable_def
  using letter_of_keeps copied_mono [of "in_object (pt_compress v) lockd objs" "in_object (pt_compress v) lockd objs'"] in_object_keeps
  by blast

section \<open>What the writer relies on\<close>

locale writer_parts =
  object_store "pt_Put v" "pt_Get v" "pt_ExtendRetention v" list "pt_Head v" prefixes objects entries locked invar
  + dedupe "pt_Seen v" "pt_Mark v" marked
  for v :: "('s, 'd) parts" and list :: "'s \<Rightarrow> string \<Rightarrow> string \<Rightarrow> nat \<Rightarrow> store_error + entry list"
    and prefixes :: "'s \<Rightarrow> string \<Rightarrow> string \<Rightarrow> store_error + string list"
    and objects :: "'s \<Rightarrow> string \<Rightarrow> obj option" and entries :: "'s \<Rightarrow> entry list"
    and locked :: "'s \<Rightarrow> bool" and invar :: "'s \<Rightarrow> bool" and marked :: "'d \<Rightarrow> string set"
begin

definition moves :: "('s, 'k, 'd) Writer \<Rightarrow> ('s, 'k, 'd) Writer \<Rightarrow> bool" where
  "moves w w' \<longleftrightarrow> carries (pt_compress v) (w_Roller w) (w_Roller w') \<and> w_Splitter w' = w_Splitter w \<and> w_Dedupe w' = w_Dedupe w"

definition taken :: "('s, 'k, 'd) Writer \<Rightarrow> Record \<Rightarrow> bool" where
  "taken w r \<longleftrightarrow> letter_of v (objects (w_store w)) r \<or> copied v (w_Splitter w) (kept (pt_compress v) (w_Roller w)) r"

lemma moves_refl: "invar (w_store w) \<Longrightarrow> moves w w"
  by (simp add: moves_def carries_same)

lemma moves_trans: "moves a b \<Longrightarrow> moves b c \<Longrightarrow> moves a c"
  unfolding moves_def using carries_trans by fastforce

lemma moves_invar: "moves w w' \<Longrightarrow> invar (w_store w')"
  by (simp add: moves_def carries_def)

lemma moves_frame:
  assumes "invar (w_store w)" "w_Roller w' = w_Roller w" "w_Splitter w' = w_Splitter w" "w_Dedupe w' = w_Dedupe w"
  shows "moves w w'"
  using assms by (simp add: moves_def carries_same)

lemma taken_moves: "moves w w' \<Longrightarrow> taken w r \<Longrightarrow> taken w' r"
  unfolding taken_def moves_def carries_def by (metis letter_of_keeps copied_mono)

lemma carries_store:
  assumes "invar s'" "locked s' = locked (rl_Store r)" "keeps_objects (objects (rl_Store r)) (objects s')"
  shows "carries compress r (r\<lparr>rl_Store := s'\<rparr>)"
proof -
  have "kept compress (r\<lparr>rl_Store := s'\<rparr>) k l t" if "kept compress r k l t" for k l t
    using kept_store [OF assms(3,2) that] by (auto simp: kept_def in_batch_def)
  then show ?thesis using assms by (simp add: carries_def)
qed

lemma adds_keeps: "only_adds s s' \<Longrightarrow> keeps_objects (objects s) (objects s')"
  by (auto simp: keeps_objects_def dest: adds_present)

lemma moves_store:
  assumes "only_adds (w_store w) s" "w_Roller w' = (w_Roller w)\<lparr>rl_Store := s\<rparr>" "w_Splitter w' = w_Splitter w" "w_Dedupe w' = w_Dedupe w"
  shows "moves w w'"
  using carries_store [OF _ _ adds_keeps [OF assms(1)]] assms by (simp add: moves_def only_adds_def)

lemma emitMeta_frame [simp]: "w_Roller (emitMeta r w) = w_Roller w" "w_Splitter (emitMeta r w) = w_Splitter w" "w_Dedupe (emitMeta r w) = w_Dedupe w"
  by (simp_all add: emitMeta_def)

lemma hook_frame [simp]: "w_Roller (hook e w) = w_Roller w" "w_Splitter (hook e w) = w_Splitter w" "w_Dedupe (hook e w) = w_Dedupe w"
  by (simp_all add: hook_def)

lemma metaDeadLettered_frame [simp]: "w_Roller (metaDeadLettered r s w) = w_Roller w" "w_Splitter (metaDeadLettered r s w) = w_Splitter w"
  "w_Dedupe (metaDeadLettered r s w) = w_Dedupe w"
  by (simp_all add: metaDeadLettered_def)

lemma deadLetter_result:
  assumes "deadLetter v ctx r why w = (err, w')" "invar (w_store w)"
  shows "moves w w'" "err = None \<Longrightarrow> lettered (pt_is_print v) (pt_canon v) (objects (w_store w')) r"
proof -
  obtain e d s where p: "DeadLetter_Put (pt_Put v) (pt_is_print v) (pt_canon v) (w_DeadLetter w) (w_store w) r (pt_say v why) = (e, d, s)"
    by (metis prod_cases3)
  note res = DeadLetter_Put_result [OF assms(2) p]
  have *: "w_Roller w' = (w_Roller w)\<lparr>rl_Store := s\<rparr> \<and> w_Splitter w' = w_Splitter w \<and> w_Dedupe w' = w_Dedupe w \<and> (err = None \<longrightarrow> e = None)"
    using assms(1) p by (cases e) (auto simp: deadLetter_def Let_def split: if_splits)
  then show "moves w w'" using moves_store [OF res(1)] by simp
  show "err = None \<Longrightarrow> lettered (pt_is_print v) (pt_canon v) (objects (w_store w')) r" using * res(2) by simp
qed

lemma describe_moves:
  assumes "describe v c r w = (err, w')" "invar (w_store w)"
  shows "moves w w'"
proof (cases "w_Archive w")
  case None
  then show ?thesis using assms moves_refl by (simp add: describe_def)
next
  case (Some a)
  obtain e1 a1 s1 where c: "EnsureCatalogue (pt_Put v) (pt_Get v) a (w_store w) c = (e1, a1, s1)" by (metis prod_cases3)
  obtain e2 a2 s2 where e: "EnsureRecord (pt_Put v) (pt_published v) (pt_protos v) a1 s1 (r_SchemaVersion r) = (e2, a2, s2)"
    by (metis prod_cases3)
  have s1: "only_adds (w_store w) s1" using EnsureCatalogue_result(1) [OF assms(2) c] .
  then have s2: "only_adds (w_store w) s2" using EnsureRecord_adds [OF _ e] only_adds_trans by (auto simp: only_adds_def)
  have "\<exists>s \<in> {s1, s2}. w_Roller w' = (w_Roller w)\<lparr>rl_Store := s\<rparr> \<and> w_Splitter w' = w_Splitter w \<and> w_Dedupe w' = w_Dedupe w"
    using assms(1) Some c e by (cases e1) (auto simp: describe_def)
  then show ?thesis using moves_store s1 s2 by blast
qed

lemma RetainUntil_after:
  "rt_Policy (pf_Retention p) = ''after_expiry'' \<Longrightarrow> RetainUntil p t (Some e) = RetainUntil p u (Some e)"
  by (simp add: RetainUntil_def Let_def)

lemma add_copies_result:
  assumes "add_copies v cs expiry w = (err, w')" "invar (w_store w)"
  shows "moves w w' \<and> (err = None \<longrightarrow> (\<forall>c \<in> set cs. placed v (w_Splitter w) (kept (pt_compress v) (w_Roller w')) expiry c))"
  using assms
proof (induction cs arbitrary: w)
  case (Cons c cs)
  show ?case
  proof (cases "map_of (sp_Profiles (w_Splitter w)) (r_Profile c)")
    case (Some p)
    obtain e r where a: "AddExpiring (pt_Put v) (pt_compress v) (pt_canon v) (pt_hostname v) (w_Roller w) p c expiry = (e, r)" by fastforce
    note ac = AddExpiring_carries [OF a Cons.prems(2)]
    have m: "moves w (w\<lparr>w_Roller := r\<rparr>)" using ac(1) by (simp add: moves_def)
    show ?thesis
    proof (cases e)
      case None
      obtain line b where b: "pt_canon v c = Inr line" "map_of (rl_open r) (pf_Name p, tenantOf c) = Some b" "EncodeLine line \<in> set (b_lines b)"
        "\<forall>e. expiry = Some e \<longrightarrow> RetainUntil p (b_opened b) (Some e) \<le> b_retainAt b"
        using ac(2) None by blast
      have "kept (pt_compress v) r (pf_Name p, tenantOf c) (EncodeLine line) (b_retainAt b)"
        using b by (auto simp: kept_def in_batch_def)
      then have placed: "placed v (w_Splitter w) (kept (pt_compress v) r) expiry c"
        unfolding placed_def using Some b RetainUntil_after [of p zero_time _ "b_opened b"] by metis
      have rec: "add_copies v cs expiry (w\<lparr>w_Roller := r\<rparr>) = (err, w')" using Cons.prems(1) Some a None by simp
      from Cons.IH [OF rec] moves_invar [OF m]
      have ih: "moves (w\<lparr>w_Roller := r\<rparr>) w' \<and> (err = None \<longrightarrow> (\<forall>c \<in> set cs. placed v (w_Splitter w) (kept (pt_compress v) (w_Roller w')) expiry c))"
        by simp
      then have "\<forall>k l t. kept (pt_compress v) r k l t \<longrightarrow> kept (pt_compress v) (w_Roller w') k l t"
        unfolding moves_def carries_def by simp
      with placed have "placed v (w_Splitter w) (kept (pt_compress v) (w_Roller w')) expiry c"
        by (blast intro: placed_mono)
      then show ?thesis using ih moves_trans [OF m] by auto
    qed (use Cons.prems(1) Some a m in auto)
  qed (use Cons.prems moves_refl in auto)
qed (use moves_refl in auto)

lemma stamp_record_frame:
  assumes "stamp_record v ctx r w = ((e, r'), w')"
  shows "\<exists>ob tm. Stamp (pt_canon v) r ob tm = (e, r')" "w_Roller w' = w_Roller w" "w_Splitter w' = w_Splitter w" "w_Dedupe w' = w_Dedupe w"
  using assms by (auto simp: stamp_record_def writer_now_def Let_def split: option.splits if_splits)

lemma reportUnhandled_frame [simp]:
  "w_Roller (reportUnhandled a m k w) = w_Roller w" "w_Splitter (reportUnhandled a m k w) = w_Splitter w"
  "w_Dedupe (reportUnhandled a m k w) = w_Dedupe w" "w_keys (reportUnhandled a m k w) = w_keys w"
  by (simp_all add: reportUnhandled_def hook_def)

text \<open>A dead letter after a change that leaves the roller, the splitter and the table alone.\<close>

lemma deadLetter_after:
  assumes "deadLetter v ctx r why w1 = (err, w')" "invar (w_store w)"
    "w_Roller w1 = w_Roller w" "w_Splitter w1 = w_Splitter w" "w_Dedupe w1 = w_Dedupe w"
  shows "moves w w' \<and> (err = None \<longrightarrow> lettered (pt_is_print v) (pt_canon v) (objects (w_store w')) r)"
  using deadLetter_result [OF assms(1)] moves_trans [OF moves_frame [OF assms(2-5)]] assms(2,3) by simp

lemma deadLetter_taken:
  assumes "deadLetter v ctx r why w1 = (err, w')" "invar (w_store w)"
    "w_Roller w1 = w_Roller w" "w_Splitter w1 = w_Splitter w" "w_Dedupe w1 = w_Dedupe w"
    and "q = r \<or> (\<exists>ob tm e. Stamp (pt_canon v) q ob tm = (e, r))"
  shows "moves w w' \<and> (err = None \<longrightarrow> taken w' q)"
  using deadLetter_after [OF assms(1-5)] assms(6) unfolding taken_def letter_of_def by blast

lemma one_stamped_result:
  assumes "one_stamped v ctx x r pending w = ((err, w'), pending')" "invar (w_store w)"
    and x: "Catalogue_Compose c (r_Action q) = Inr x" "Validate x q = []" "Stamp (pt_canon v) q ob tm = (None, r)"
  shows "moves w w' \<and> (err = None \<longrightarrow> taken w' q)"
proof -
  have letter: "moves w w' \<and> (err = None \<longrightarrow> taken w' q)"
    if "deadLetter v ctx r why w1 = (err, w')" "w_Roller w1 = w_Roller w" "w_Splitter w1 = w_Splitter w" "w_Dedupe w1 = w_Dedupe w" for why w1
    using deadLetter_taken [OF that(1) assms(2) that(2-4)] x(3) by blast
  show ?thesis
  proof (cases "Expiry x r")
    case (Inl e)
    then show ?thesis using assms(1) letter by (auto simp: one_stamped_def)
  next
    case expiry: (Inr expiry)
    show ?thesis
    proof (cases "Extends x r")
      case (Inl e)
      then show ?thesis using assms(1) expiry letter by (auto simp: one_stamped_def)
    next
      case earlier: (Inr earlier)
      define w1 where "w1 = (if Unhandled (w_Splitter w) x \<noteq> [] then
          reportUnhandled (r_Action r) (Unhandled (w_Splitter w) x) (Handled (w_Splitter w) x) w else w)"
      have w1: "w_Roller w1 = w_Roller w" "w_Splitter w1 = w_Splitter w" "w_Dedupe w1 = w_Dedupe w" by (simp_all add: w1_def)
      obtain res k where sp: "Splitter_Split (w_Splitter w1) r x (w_keys w1) = (res, k)" by fastforce
      show ?thesis
      proof (cases res)
        case (Inl e)
        then have "err \<noteq> None" "w' = w1\<lparr>w_keys := k\<rparr>" using assms(1) expiry earlier sp by (auto simp: one_stamped_def w1_def Let_def)
        then show ?thesis using moves_frame [OF assms(2), of w'] w1 by auto
      next
        case (Inr cs)
        show ?thesis
        proof (cases "cs = []")
          case True
          then have "deadLetter v ctx r NoProfileKeeps (w1\<lparr>w_keys := k\<rparr>) = (err, w')"
            using assms(1) expiry earlier sp Inr by (simp add: one_stamped_def w1_def Let_def)
          then show ?thesis by (rule letter) (simp_all add: w1)
        next
          case False
          obtain e w2 where a: "add_copies v cs expiry (w1\<lparr>w_keys := k\<rparr>) = (e, w2)" by fastforce
          have e: "err = e" "w' = w2" using assms(1) expiry earlier sp Inr False a
            by (auto simp: one_stamped_def w1_def Let_def split: option.splits)
          have inv: "invar (w_store (w1\<lparr>w_keys := k\<rparr>))" using assms(2) w1 by simp
          note ac = add_copies_result [OF a inv]
          have m: "moves w w2" using moves_trans [OF moves_frame [OF assms(2), of "w1\<lparr>w_keys := k\<rparr>"]] ac w1 by simp
          have "copies_of v (w_Splitter w) q expiry cs"
            unfolding copies_of_def using x expiry sp Inr False w1(2) by metis
          then have "e = None \<longrightarrow> copied v (w_Splitter w) (kept (pt_compress v) (w_Roller w2)) q"
            unfolding copied_def using ac w1(2) by auto
          moreover have "w_Splitter w2 = w_Splitter w" using m by (simp add: moves_def)
          ultimately show ?thesis using m e by (simp add: taken_def)
        qed
      qed
    qed
  qed
qed

lemma one_described_result:
  assumes "one_described v ctx c r pending w = ((err, w'), pending')" "invar (w_store w)"
  shows "moves w w' \<and> (err = None \<longrightarrow> taken w' r)"
proof (cases "Catalogue_Compose c (r_Action r)")
  case (Inl e)
  then show ?thesis using assms deadLetter_taken [OF _ assms(2) refl refl refl, of ctx r _ err w' r] by (auto simp: one_described_def)
next
  case x: (Inr x)
  show ?thesis
  proof (cases "Validate x r = []")
    case False
    then show ?thesis using assms x deadLetter_taken [OF _ assms(2) refl refl refl, of ctx r _ err w' r] by (auto simp: one_described_def)
  next
    case True
    obtain e r1 w1 where st: "stamp_record v ctx r w = ((e, r1), w1)" by (metis prod.collapse)
    note fr = stamp_record_frame [OF st]
    show ?thesis
    proof (cases e)
      case None
      obtain ob tm where stamp: "Stamp (pt_canon v) r ob tm = (None, r1)" using fr(1) None by blast
      have "one_stamped v ctx x r1 pending w1 = ((err, w'), pending')"
        using assms(1) x True st None by (simp add: one_described_def)
      from one_stamped_result [OF this _ x True stamp] have "moves w1 w' \<and> (err = None \<longrightarrow> taken w' r)"
        using assms(2) fr(2) by simp
      then show ?thesis using moves_trans [OF moves_frame [OF assms(2) fr(2-4)]] by simp
    next
      case (Some why)
      then have "deadLetter v ctx r1 (NotStamped why) w1 = (err, w')" using assms(1) x True st by (simp add: one_described_def)
      from deadLetter_taken [OF this assms(2) fr(2-4)] fr(1) show ?thesis by blast
    qed
  qed
qed

lemma one_result:
  assumes "one v ctx r pending w = ((err, w'), pending')" "invar (w_store w)"
  shows "moves w w' \<and> (err = None \<longrightarrow> taken w' r)"
proof -
  have letter: "moves w w' \<and> (err = None \<longrightarrow> taken w' r)"
    if "deadLetter v ctx r why w1 = (err, w')" "w_Roller w1 = w_Roller w" "w_Splitter w1 = w_Splitter w" "w_Dedupe w1 = w_Dedupe w" for why w1
    using deadLetter_taken [OF that(1) assms(2) that(2-4)] by blast
  consider (check) "Check (pt_is_uuid v) (pt_canon v) r Default \<noteq> []" | (tenant) "Check (pt_is_uuid v) (pt_canon v) r Default = []" "KeyComponent (r_TenantId r) \<noteq> []"
    | (ok) "Check (pt_is_uuid v) (pt_canon v) r Default = []" "KeyComponent (r_TenantId r) = []" by blast
  then show ?thesis
  proof cases
    case ok
    show ?thesis
    proof (cases "w_Catalogues w (r_Source r) (r_CatalogueVersion r)")
      case (Inl m)
      then show ?thesis using assms(1) ok letter by (auto simp: one_def Let_def split: miss.splits)
    next
      case (Inr c)
      obtain e w1 where d: "describe v c r w = (e, w1)" by fastforce
      note m = describe_moves [OF d assms(2)]
      show ?thesis
      proof (cases e)
        case None
        then have "one_described v ctx c r pending w1 = ((err, w'), pending')" using assms(1) ok Inr d by (simp add: one_def)
        from one_described_result [OF this moves_invar [OF m]] moves_trans [OF m] show ?thesis by blast
      qed (use assms(1) ok Inr d m in \<open>auto simp: one_def\<close>)
    qed
  qed (use assms(1) letter in \<open>auto simp: one_def\<close>)
qed

text \<open>
  The loop: what was taken before stays taken; each record of the batch was seen, is taken, or has the
  identifier of one that is; and only identifiers of such records are written down.
\<close>

definition known :: "('s, 'k, 'd) Writer \<Rightarrow> string \<Rightarrow> bool" where
  "known w ident \<longleftrightarrow> (\<exists>q. r_Id q = ident \<and> taken w q)"

lemma known_moves: "moves w w' \<Longrightarrow> known w ident \<Longrightarrow> known w' ident"
  unfolding known_def using taken_moves by blast

definition answered :: "('s, 'k, 'd) Writer \<Rightarrow> Record \<Rightarrow> bool" where
  "answered w r \<longleftrightarrow> taken w r \<or> r_Id r \<noteq> [] \<and> known w (r_Id r)"

lemma answered_moves: "moves w w' \<Longrightarrow> answered w r \<Longrightarrow> answered w' r"
  unfolding answered_def using taken_moves known_moves by blast

lemma write_all_result:
  assumes "write_all v ctx seen rs written pending w = (err, written', pending', w')" "invar (w_store w)"
    "\<forall>ident \<in> set written. ident \<noteq> [] \<and> known w ident"
  shows "moves w w' \<and> (\<forall>ident \<in> set written'. ident \<noteq> [] \<and> known w' ident) \<and> set written \<subseteq> set written'
    \<and> (err = None \<longrightarrow> (\<forall>r \<in> set rs. r_Id r \<in> set seen \<or> answered w' r \<and> (r_Id r \<noteq> [] \<longrightarrow> r_Id r \<in> set written')))"
  using assms
proof (induction rs arbitrary: written pending w)
  case Nil
  then show ?case using moves_refl by auto
next
  case (Cons r rs)
  show ?case
  proof (cases "r_Id r \<in> set seen \<or> r_Id r \<in> set written")
    case True
    have m: "moves w (hook (OnDuplicate r) w)" by (rule moves_frame [OF Cons.prems(2)]) simp_all
    have rec: "write_all v ctx seen rs written pending (hook (OnDuplicate r) w) = (err, written', pending', w')" using Cons.prems(1) True by simp
    have kn: "\<forall>ident \<in> set written. ident \<noteq> [] \<and> known (hook (OnDuplicate r) w) ident" using Cons.prems(3) known_moves [OF m] by blast
    note ih = Cons.IH [OF rec moves_invar [OF m] kn]
    then show ?thesis using moves_trans [OF m] True by (auto simp: subset_iff answered_def)
  next
    case False
    obtain e w1 pending1 where o: "one v ctx r pending w = ((e, w1), pending1)" by (metis prod.collapse)
    note m = one_result [OF o Cons.prems(2)]
    have kn: "\<forall>ident \<in> set written. ident \<noteq> [] \<and> known w1 ident" using Cons.prems(3) known_moves m by blast
    show ?thesis
    proof (cases e)
      case None
      define written1 where "written1 = (if r_Id r \<noteq> [] then written @ [r_Id r] else written)"
      have rec: "write_all v ctx seen rs written1 pending1 w1 = (err, written', pending', w')"
        using Cons.prems(1) False o None by (simp add: written1_def)
      have kr: "known w1 (r_Id r)" using m None unfolding known_def by blast
      have kn1: "\<forall>ident \<in> set written1. ident \<noteq> [] \<and> known w1 ident" using kn kr by (simp add: written1_def)
      have m1: "moves w w1" using m by simp
      note ih = Cons.IH [OF rec moves_invar [OF m1] kn1]
      have "answered w1 r" using m None by (simp add: answered_def)
      then have ar: "answered w' r" using answered_moves ih by blast
      have "set written \<subseteq> set written1" "r_Id r \<noteq> [] \<longrightarrow> r_Id r \<in> set written1" by (auto simp: written1_def)
      then have "set written \<subseteq> set written'" "r_Id r \<noteq> [] \<longrightarrow> r_Id r \<in> set written'" using ih by blast+
      moreover have "moves w w'" using moves_trans [OF m1] ih by blast
      ultimately show ?thesis using ih ar by simp
    next
      case (Some x)
      then have "err = Some x" "written' = written" "w' = w1" using Cons.prems(1) False o by auto
      then show ?thesis using m kn by simp
    qed
  qed
qed

section \<open>Lengthening locks\<close>

text \<open>
  Lengthening changes nothing in the store but dates, which only become later, and those only of objects
  in which the locator finds a record of the addendum's tenant.
\<close>

definition only_lengthens :: "(string \<Rightarrow> bool) \<Rightarrow> 's \<Rightarrow> 's \<Rightarrow> bool" where
  "only_lengthens P s s' \<longleftrightarrow> invar s' \<and> locked s' = locked s
     \<and> (\<forall>k. objects s' k = objects s k
          \<or> P k \<and> (\<exists>x t. objects s k = Some x \<and> o_RetainUntil x \<le> t \<and> objects s' k = Some (x\<lparr>o_RetainUntil := t\<rparr>)))"

lemma only_lengthens_refl: "invar s \<Longrightarrow> only_lengthens P s s"
  by (simp add: only_lengthens_def)

lemma only_lengthens_trans:
  assumes "only_lengthens P a b" "only_lengthens P b c"
  shows "only_lengthens P a c"
  unfolding only_lengthens_def
proof (intro conjI allI)
  show "invar c" "locked c = locked a" using assms by (simp_all add: only_lengthens_def)
  fix k
  show "objects c k = objects a k
      \<or> P k \<and> (\<exists>x t. objects a k = Some x \<and> o_RetainUntil x \<le> t \<and> objects c k = Some (x\<lparr>o_RetainUntil := t\<rparr>))"
  proof (cases "objects b k = objects a k")
    case True
    then show ?thesis using assms(2) unfolding only_lengthens_def by metis
  next
    case False
    then obtain x t where x: "P k" "objects a k = Some x" "o_RetainUntil x \<le> t" "objects b k = Some (x\<lparr>o_RetainUntil := t\<rparr>)"
      using assms(1) unfolding only_lengthens_def by blast
    consider "objects c k = objects b k" | u where "t \<le> u" "objects c k = Some (x\<lparr>o_RetainUntil := u\<rparr>)"
      using assms(2) x(4) unfolding only_lengthens_def by (fastforce dest: spec [of _ k])
    then show ?thesis
    proof cases
      case (2 u)
      then have "o_RetainUntil x \<le> u" using x(3) by simp
      then show ?thesis using x 2 by blast
    qed (use x in metis)
  qed
qed

lemma lengthens_keeps:
  assumes "only_lengthens P s s'"
  shows "keeps_objects (objects s) (objects s')"
  unfolding keeps_objects_def
proof (intro allI impI)
  fix k x assume x: "objects s k = Some x"
  consider "objects s' k = objects s k" | t where "o_RetainUntil x \<le> t" "objects s' k = Some (x\<lparr>o_RetainUntil := t\<rparr>)"
    using assms x unfolding only_lengthens_def by (metis option.inject)
  then show "\<exists>y. objects s' k = Some y \<and> o_Body y = o_Body x \<and> o_RetainUntil x \<le> o_RetainUntil y" by cases (use x in auto)
qed

lemma only_lengthens_mono: "only_lengthens P s s' \<Longrightarrow> (\<And>k. P k \<Longrightarrow> Q k) \<Longrightarrow> only_lengthens Q s s'"
  unfolding only_lengthens_def by blast

lemma extend_lengthens:
  assumes "invar s" "pt_ExtendRetention v s k t = (err, s')"
  shows "only_lengthens (\<lambda>j. j = k) s s'" "err = None \<Longrightarrow> \<exists>x. objects s' k = Some x \<and> o_RetainUntil x = t"
proof -
  have "only_lengthens (\<lambda>j. j = k) s s' \<and> (err = None \<longrightarrow> (\<exists>x. objects s' k = Some x \<and> o_RetainUntil x = t))"
  proof (cases err)
    case None
    with extend_ok [OF assms(1)] assms(2) obtain x where
      "objects s k = Some x" "o_RetainUntil x \<le> t" "objects s' = (objects s)(k \<mapsto> x\<lparr>o_RetainUntil := t\<rparr>)" by blast
    then show ?thesis using extend_invar [OF assms] by (auto simp: only_lengthens_def)
  next
    case (Some e)
    then show ?thesis using extend_err [OF assms(1)] extend_invar [OF assms] assms(2) by (simp add: only_lengthens_def)
  qed
  then show "only_lengthens (\<lambda>j. j = k) s s'" "err = None \<Longrightarrow> \<exists>x. objects s' k = Some x \<and> o_RetainUntil x = t" by auto
qed

lemma metaExtended_frame [simp]: "w_Roller (metaExtended v' e i k p f w) = w_Roller w" "w_Splitter (metaExtended v' e i k p f w) = w_Splitter w"
  "w_Dedupe (metaExtended v' e i k p f w) = w_Dedupe w" "w_Records (metaExtended v' e i k p f w) = w_Records w"
  by (simp_all add: metaExtended_def emitMeta_def Let_def)

text \<open>The object a record an addendum names is in, as the locator says.\<close>

definition aims :: "('s, 'k, 'd) Writer \<Rightarrow> extension \<Rightarrow> string \<Rightarrow> string \<Rightarrow> bool" where
  "aims w e ident k \<longleftrightarrow> (\<exists>locate row. w_Records w = Some locate \<and> locate (pf_Name (xt_profile e)) ident = Inr row
     \<and> row_TenantID row = xt_tenant e \<and> row_ObjectKey row = k)"

text \<open>Either its object is kept as long as is asked, or the failure is reported.\<close>

definition settled :: "('s, 'k, 'd) Writer \<Rightarrow> extension \<Rightarrow> string \<Rightarrow> bool" where
  "settled w e ident \<longleftrightarrow> (\<exists>err. OnRetentionNotExtended (pf_Name (xt_profile e)) ident err \<in> set (w_events w))
     \<or> (\<exists>k x. aims w e ident k \<and> objects (w_store w) k = Some x \<and> xt_until e \<le> o_RetainUntil x)"

definition stretches :: "(string \<Rightarrow> bool) \<Rightarrow> ('s, 'k, 'd) Writer \<Rightarrow> ('s, 'k, 'd) Writer \<Rightarrow> bool" where
  "stretches P w w' \<longleftrightarrow> only_lengthens P (w_store w) (w_store w') \<and> (\<exists>s. w_Roller w' = (w_Roller w)\<lparr>rl_Store := s\<rparr>)
     \<and> w_Splitter w' = w_Splitter w \<and> w_Dedupe w' = w_Dedupe w \<and> w_Records w' = w_Records w \<and> set (w_events w) \<subseteq> set (w_events w')"

lemma stretches_trans: "stretches P a b \<Longrightarrow> stretches P b c \<Longrightarrow> stretches P a c"
  unfolding stretches_def using only_lengthens_trans by auto

lemma stretches_refl: "invar (w_store w) \<Longrightarrow> stretches P w w"
  unfolding stretches_def using only_lengthens_refl by (auto intro!: exI [of _ "w_store w"])

lemma stretches_mono: "stretches P w w' \<Longrightarrow> (\<And>k. P k \<Longrightarrow> Q k) \<Longrightarrow> stretches Q w w'"
  unfolding stretches_def using only_lengthens_mono by blast

lemma stretches_moves: "stretches P w w' \<Longrightarrow> moves w w'"
  unfolding stretches_def moves_def
  using carries_store [of "w_store w'" "w_Roller w" "pt_compress v"] lengthens_keeps by (auto simp: only_lengthens_def)

lemma settled_stretches:
  assumes "stretches P w w'" "settled w e ident"
  shows "settled w' e ident"
proof -
  have "aims w' e ident k = aims w e ident k" for k using assms(1) by (simp add: aims_def stretches_def)
  moreover have "\<exists>y. objects (w_store w') k = Some y \<and> o_RetainUntil x \<le> o_RetainUntil y" if "objects (w_store w) k = Some x" for k x
    using lengthens_keeps assms(1) that unfolding stretches_def keeps_objects_def by blast
  ultimately show ?thesis using assms unfolding settled_def stretches_def by (meson order_trans subsetD)
qed

lemma extend_id_result:
  assumes "invar (w_store w)"
  shows "stretches (aims w e ident) w (extend_id v e ident w) \<and> settled (extend_id v e ident w) e ident"
proof -
  let ?f = "\<lambda>w'. stretches (aims w e ident) w w' \<and> settled w' e ident"
  have failed: "?f (metaExtended v e ident k t (Some err) (hook (OnRetentionNotExtended (pf_Name (xt_profile e)) ident err) (set_store s w)))"
    if "only_lengthens (aims w e ident) (w_store w) s" for k t err s
    using that by (auto simp: stretches_def settled_def metaExtended_def emitMeta_def hook_def Let_def)
  note same = failed [OF only_lengthens_refl [OF assms], simplified]
  show ?thesis
  proof (cases "w_Records w")
    case None
    then show ?thesis using same by (simp add: extend_id_def extendOne_def)
  next
    case loc: (Some locate)
    show ?thesis
    proof (cases "locate (pf_Name (xt_profile e)) ident")
      case (Inl x)
      then show ?thesis using loc same by (simp add: extend_id_def extendOne_def)
    next
      case row: (Inr row)
      show ?thesis
      proof (cases "row_TenantID row = xt_tenant e")
        case False
        then show ?thesis using loc row same by (simp add: extend_id_def extendOne_def)
      next
        case tenant: True
        have aim: "aims w e ident (row_ObjectKey row)" using loc row tenant by (simp add: aims_def)
        show ?thesis
        proof (cases "pt_Head v (w_store w) (row_ObjectKey row)")
          case (Inl x)
          then show ?thesis using loc row tenant same by (simp add: extend_id_def extendOne_def)
        next
          case head: (Inr en)
          obtain x where x: "objects (w_store w) (row_ObjectKey row) = Some x" "e_RetainUntil en = o_RetainUntil x"
            using head_ok [OF assms head] by (auto simp: head_of_def)
          show ?thesis
          proof (cases "e_RetainUntil en \<noteq> zero_time \<and> \<not> e_RetainUntil en < xt_until e")
            case True
            then have "extend_id v e ident w = w" using loc row tenant head by (simp add: extend_id_def extendOne_def)
            moreover have "settled w e ident" using aim x True unfolding settled_def by force
            ultimately show ?thesis using stretches_refl [OF assms] by simp
          next
            case False
            obtain err s where ext: "pt_ExtendRetention v (w_store w) (row_ObjectKey row) (xt_until e) = (err, s)" by fastforce
            note len = extend_lengthens [OF assms ext]
            have only: "only_lengthens (aims w e ident) (w_store w) s" using only_lengthens_mono [OF len(1)] aim by blast
            show ?thesis
            proof (cases err)
              case (Some y)
              then show ?thesis using loc row tenant head False ext failed [OF only] by (auto simp: extend_id_def extendOne_def)
            next
              case None
              define w' where "w' = metaExtended v e ident (row_ObjectKey row) (e_RetainUntil en) None (set_store s w)"
              have w': "extend_id v e ident w = w'"
                using loc row tenant head False ext None by (auto simp: extend_id_def extendOne_def w'_def)
              have st: "stretches (aims w e ident) w w'"
                using only by (auto simp: stretches_def w'_def metaExtended_def emitMeta_def Let_def)
              have "aims w' e ident (row_ObjectKey row)" using aim st by (simp add: aims_def stretches_def)
              moreover have "w_store w' = s" by (simp add: w'_def)
              ultimately have "settled w' e ident" using len(2) None unfolding settled_def by fastforce
              then show ?thesis using st w' by simp
            qed
          qed
        qed
      qed
    qed
  qed
qed

text \<open>The pairs of an addendum and an identifier it names, in the order they are acted on.\<close>

definition requests :: "extension list \<Rightarrow> (extension \<times> string) list" where
  "requests pending = concat (map (\<lambda>e. map (Pair e) (xt_earlier e)) pending)"

lemma extend_all_requests: "extend_all v pending w = fold (\<lambda>(e, ident). extend_id v e ident) (requests pending) w"
proof -
  have pairs: "fold (extend_id v e) ids w = fold (\<lambda>(e, ident). extend_id v e ident) (map (Pair e) ids) w" for e ids and w :: "('s, 'k, 'd) Writer"
    by (induction ids arbitrary: w) simp_all
  show ?thesis unfolding extend_all_def requests_def
  proof (induction pending arbitrary: w)
    case (Cons e pending)
    then show ?case by (simp add: pairs)
  qed simp
qed

lemma aims_stretches: "stretches P w w' \<Longrightarrow> aims w' e ident = aims w e ident"
  by (simp add: aims_def stretches_def fun_eq_iff)

lemma extend_pairs_result:
  assumes "invar (w_store w)"
  shows "stretches (\<lambda>k. \<exists>(e, ident) \<in> set qs. aims w e ident k) w (fold (\<lambda>(e, ident). extend_id v e ident) qs w)
    \<and> (\<forall>(e, ident) \<in> set qs. settled (fold (\<lambda>(e, ident). extend_id v e ident) qs w) e ident)"
  using assms
proof (induction qs arbitrary: w)
  case Nil
  then show ?case using stretches_refl by simp
next
  case (Cons q qs)
  obtain e ident where q: "q = (e, ident)" by fastforce
  let ?w = "extend_id v e ident w" and ?P = "\<lambda>k. \<exists>(e, ident) \<in> set (q # qs). aims w e ident k"
  let ?z = "fold (\<lambda>(e, ident). extend_id v e ident) qs ?w"
  note one = extend_id_result [OF Cons.prems, of e ident]
  then have inv: "invar (w_store ?w)" by (simp add: stretches_def only_lengthens_def)
  note ih = Cons.IH [OF inv]
  have st: "stretches ?P ?w ?z"
    by (rule stretches_mono [OF conjunct1 [OF ih]]) (use aims_stretches [OF conjunct1 [OF one]] in auto)
  have "stretches ?P w ?w" by (rule stretches_mono [OF conjunct1 [OF one]]) (simp add: q)
  then have "stretches ?P w ?z" using st stretches_trans by blast
  moreover have "settled ?z e ident" using settled_stretches [OF st] one by simp
  ultimately show ?case using ih by (simp add: q)
qed

lemmas extend_all_result = extend_pairs_result [of _ "requests pending" for pending, folded extend_all_requests]

section \<open>A batch\<close>

lemma Write_error:
  assumes "Write v ctx rs w = (Inl e, w')" "invar (w_store w)"
  shows "carries (pt_compress v) (w_Roller w) (w_Roller w')" "marked (w_Dedupe w') = marked (w_Dedupe w)" "w_Splitter w' = w_Splitter w"
proof -
  obtain res d where s: "pt_Seen v (w_Dedupe w) (map r_Id rs) = (res, d)" by fastforce
  let ?w = "w\<lparr>w_Dedupe := d\<rparr>"
  have md: "marked d = marked (w_Dedupe w)" using seen_keeps [OF s] .
  have c0: "carries (pt_compress v) (w_Roller w) (w_Roller w)" using assms(2) by (simp add: carries_same)
  have "carries (pt_compress v) (w_Roller w) (w_Roller w') \<and> marked (w_Dedupe w') = marked (w_Dedupe w) \<and> w_Splitter w' = w_Splitter w"
  proof (cases res)
    case (Inl x)
    then have "w' = ?w" using assms(1) s by (simp add: Write_def split: if_splits)
    then show ?thesis using md c0 by simp
  next
    case (Inr seen)
    obtain err written pending w1 where a: "write_all v ctx seen rs [] [] ?w = (err, written, pending, w1)" by (metis prod_cases4)
    from write_all_result [OF a] assms(2) have m: "moves ?w w1" by simp
    show ?thesis
    proof (cases err)
      case (Some x)
      then show ?thesis using assms(1) s Inr a m md by (auto simp: Write_def moves_def split: if_splits)
    next
      case None
      obtain ferr r where f: "Flush (pt_Put v) (pt_compress v) (pt_hostname v) (w_Roller w1) = (ferr, r)" by fastforce
      have "w' = w1\<lparr>w_Roller := r\<rparr>" using assms(1) s Inr a None f
        by (auto simp: Write_def Let_def split: if_splits option.splits prod.splits)
      then show ?thesis using m md carries_trans [OF _ Flush_carries(1) [OF f moves_invar [OF m]]] by (simp add: moves_def)
    qed
  qed
  then show "carries (pt_compress v) (w_Roller w) (w_Roller w')" "marked (w_Dedupe w') = marked (w_Dedupe w)" "w_Splitter w' = w_Splitter w"
    by simp_all
qed

text \<open>Every identifier marked is that of a record in the archive.\<close>

definition stored :: "('s, 'k, 'd) Writer \<Rightarrow> Record \<Rightarrow> bool" where
  "stored w r \<longleftrightarrow> durable v (w_Splitter w) (locked (w_store w)) (objects (w_store w)) r"

definition vouched :: "('s, 'k, 'd) Writer \<Rightarrow> bool" where
  "vouched w \<longleftrightarrow> invar (w_store w) \<and> (\<forall>ident \<in> marked (w_Dedupe w). ident \<noteq> [] \<and> (\<exists>q. r_Id q = ident \<and> stored w q))"

lemma stored_taken: "stored w r \<Longrightarrow> taken w r"
  unfolding stored_def durable_def taken_def
  using copied_mono [of "in_object (pt_compress v) (locked (w_store w)) (objects (w_store w))" "kept (pt_compress v) (w_Roller w)"]
  by (auto simp: kept_def)

lemma taken_stored: "taken w r \<Longrightarrow> rl_open (w_Roller w) = [] \<Longrightarrow> stored w r"
  unfolding stored_def durable_def taken_def
  using copied_mono [of "kept (pt_compress v) (w_Roller w)" "in_object (pt_compress v) (locked (w_store w)) (objects (w_store w))"]
  by (auto simp: kept_def in_batch_def)

lemma stored_grows:
  assumes "stored w r" "keeps_objects (objects (w_store w)) (objects (w_store w'))" "locked (w_store w') = locked (w_store w)"
    "w_Splitter w' = w_Splitter w"
  shows "stored w' r"
  using durable_keeps [OF assms(2), of v "w_Splitter w" "locked (w_store w)" r] assms(1,3,4) by (simp add: stored_def)

lemma vouched_grows:
  assumes "vouched w" "carries (pt_compress v) (w_Roller w) (w_Roller w')" "w_Splitter w' = w_Splitter w"
    "marked (w_Dedupe w') \<subseteq> marked (w_Dedupe w)"
  shows "vouched w'"
  using assms stored_grows [of w _ w'] unfolding vouched_def carries_def by blast

text \<open>The stages of a batch that was accepted.\<close>

lemma Write_stages:
  assumes "Write v ctx rs w = (Inr n, w')" "rs \<noteq> []"
  obtains seen d written pending w1 r merr d2 w3 where
    "pt_Seen v (w_Dedupe w) (map r_Id rs) = (Inr seen, d)"
    "write_all v ctx seen rs [] [] (w\<lparr>w_Dedupe := d\<rparr>) = (None, written, pending, w1)"
    "Flush (pt_Put v) (pt_compress v) (pt_hostname v) (w_Roller w1) = (None, r)"
    "pt_Mark v (w_Dedupe w1) written = (merr, d2)"
    "w_Roller w3 = r" "w_Splitter w3 = w_Splitter w1" "w_Dedupe w3 = d2" "w' = extend_all v pending w3" "n = length rs"
proof -
  obtain res d where s: "pt_Seen v (w_Dedupe w) (map r_Id rs) = (res, d)" by fastforce
  obtain seen where seen: "res = Inr seen" using assms s by (cases res) (auto simp: Write_def)
  obtain err written pending w1 where a: "write_all v ctx seen rs [] [] (w\<lparr>w_Dedupe := d\<rparr>) = (err, written, pending, w1)" by (metis prod_cases4)
  have none: "err = None" using assms s seen a by (cases err) (auto simp: Write_def)
  obtain ferr r where f: "Flush (pt_Put v) (pt_compress v) (pt_hostname v) (w_Roller w1) = (ferr, r)" by fastforce
  have fnone: "ferr = None" using assms s seen a none f by (cases ferr) (auto simp: Write_def)
  obtain merr d2 where mk: "pt_Mark v (w_Dedupe w1) written = (merr, d2)" by fastforce
  define w3 where "w3 = (case merr of Some e \<Rightarrow> hook (OnDuplicatesLikely written e) (w1\<lparr>w_Roller := r, w_Dedupe := d2\<rparr>)
    | None \<Rightarrow> w1\<lparr>w_Roller := r, w_Dedupe := d2\<rparr>)"
  have w3: "w_Roller w3 = r" "w_Splitter w3 = w_Splitter w1" "w_Dedupe w3 = d2" by (auto simp: w3_def split: option.split)
  have out: "n = length rs" "w' = extend_all v pending w3"
    using assms s seen a none f fnone mk by (simp_all add: Write_def Let_def w3_def cong: option.case_cong)
  show thesis using that [OF s [unfolded seen] a [unfolded none] f [unfolded fnone] mk w3 out(2,1)] .
qed

lemma Write_ok:
  assumes "Write v ctx rs w = (Inr n, w')" "vouched w" "rs \<noteq> []"
  shows "n = length rs" "Pending (w_Roller w') = 0" "vouched w'" "w_Splitter w' = w_Splitter w"
    "carries (pt_compress v) (w_Roller w) (w_Roller w')"
    "\<forall>r \<in> set rs. stored w' r \<or> r_Id r \<noteq> [] \<and> (\<exists>q. r_Id q = r_Id r \<and> stored w' q)"
proof -
  have inv: "invar (w_store w)" using assms(2) by (simp add: vouched_def)
  obtain seen d written pending w1 r merr d2 w3 where st:
    "pt_Seen v (w_Dedupe w) (map r_Id rs) = (Inr seen, d)"
    "write_all v ctx seen rs [] [] (w\<lparr>w_Dedupe := d\<rparr>) = (None, written, pending, w1)"
    "Flush (pt_Put v) (pt_compress v) (pt_hostname v) (w_Roller w1) = (None, r)"
    "pt_Mark v (w_Dedupe w1) written = (merr, d2)"
    and w3: "w_Roller w3 = r" "w_Splitter w3 = w_Splitter w1" "w_Dedupe w3 = d2" and out: "w' = extend_all v pending w3" "n = length rs"
    using Write_stages [OF assms(1,3)] .
  have wa: "moves (w\<lparr>w_Dedupe := d\<rparr>) w1" "\<forall>ident \<in> set written. ident \<noteq> [] \<and> known w1 ident"
    "\<forall>r \<in> set rs. r_Id r \<in> set seen \<or> answered w1 r"
    using write_all_result [OF st(2)] inv by auto
  have fl: "carries (pt_compress v) (w_Roller w1) r" "rl_open r = []" using Flush_carries [OF st(3) moves_invar [OF wa(1)]] by auto
  then have inv3: "invar (w_store w3)" using w3(1) by (simp add: carries_def)
  have ext: "stretches (\<lambda>k. \<exists>(e, ident) \<in> set (requests pending). aims w3 e ident k) w3 w'" using extend_all_result [OF inv3] out(1) by blast
  note m3 = stretches_moves [OF ext]
  have open': "rl_open (w_Roller w') = []" using ext fl(2) w3(1) by (auto simp: stretches_def)
  have car: "carries (pt_compress v) (w_Roller w) (w_Roller w1)" "carries (pt_compress v) r (w_Roller w')"
    using wa(1) m3 w3(1) by (simp_all add: moves_def)
  have "stored w' q" if "taken w1 q" for q
  proof -
    have "moves w1 (w1\<lparr>w_Roller := r\<rparr>)" using fl(1) by (simp add: moves_def)
    from taken_moves [OF this that] have "taken w3 q" using w3 by (simp add: taken_def)
    from taken_stored [OF taken_moves [OF m3 this] open'] show ?thesis .
  qed
  note st' = this
  show "n = length rs" by (rule out(2))
  show "Pending (w_Roller w') = 0" by (simp add: Pending_def open')
  show sp: "w_Splitter w' = w_Splitter w" using m3 w3(2) wa(1) by (simp add: moves_def)
  show car': "carries (pt_compress v) (w_Roller w) (w_Roller w')" using carries_trans [OF carries_trans [OF car(1) fl(1)] car(2)] .
  have old: "stored w' q" if "stored w q" for q using stored_grows [OF that] car' sp by (simp add: carries_def)
  have mark: "marked (w_Dedupe w') \<subseteq> marked (w_Dedupe w) \<union> set written"
    using m3 w3(3) mark_only [OF st(4)] wa(1) seen_keeps [OF st(1)] by (simp add: moves_def)
  show "vouched w'" unfolding vouched_def
  proof (intro conjI ballI moves_invar [OF m3])
    fix ident assume "ident \<in> marked (w_Dedupe w')"
    then consider "ident \<in> marked (w_Dedupe w)" | "ident \<in> set written" using mark by blast
    then show "ident \<noteq> []" "\<exists>q. r_Id q = ident \<and> stored w' q"
      using assms(2) wa(2) old st' unfolding vouched_def known_def by metis+
  qed
  show "\<forall>r \<in> set rs. stored w' r \<or> r_Id r \<noteq> [] \<and> (\<exists>q. r_Id q = r_Id r \<and> stored w' q)"
  proof
    fix r assume "r \<in> set rs"
    then consider "r_Id r \<in> marked (w_Dedupe w)" | "answered w1 r" using wa(3) seen_marked [OF st(1)] by blast
    then show "stored w' r \<or> r_Id r \<noteq> [] \<and> (\<exists>q. r_Id q = r_Id r \<and> stored w' q)"
      using assms(2) old st' unfolding vouched_def answered_def known_def by metis
  qed
qed

end

context writer_parts
begin

text \<open>What a batch that was accepted leaves open, and what it marks.\<close>

lemma Write_leaves:
  assumes "Write v ctx rs w = (Inr n, w')" "invar (w_store w)" "rs \<noteq> []"
  obtains seen d written merr where "pt_Seen v (w_Dedupe w) (map r_Id rs) = (Inr seen, d)"
    "\<forall>r \<in> set rs. r_Id r \<in> set seen \<or> r_Id r = [] \<or> r_Id r \<in> set written"
    "pt_Mark v d written = (merr, w_Dedupe w')" "rl_open (w_Roller w') = []"
proof -
  obtain seen d written pending w1 r merr d2 w3 where st:
    "pt_Seen v (w_Dedupe w) (map r_Id rs) = (Inr seen, d)"
    "write_all v ctx seen rs [] [] (w\<lparr>w_Dedupe := d\<rparr>) = (None, written, pending, w1)"
    "Flush (pt_Put v) (pt_compress v) (pt_hostname v) (w_Roller w1) = (None, r)"
    "pt_Mark v (w_Dedupe w1) written = (merr, d2)"
    and w3: "w_Roller w3 = r" "w_Splitter w3 = w_Splitter w1" "w_Dedupe w3 = d2" and out: "w' = extend_all v pending w3" "n = length rs"
    using Write_stages [OF assms(1,3)] .
  have wa: "moves (w\<lparr>w_Dedupe := d\<rparr>) w1" "\<forall>r \<in> set rs. r_Id r \<in> set seen \<or> r_Id r = [] \<or> r_Id r \<in> set written"
    using write_all_result [OF st(2)] assms(2) by auto
  have fl: "carries (pt_compress v) (w_Roller w1) r" "rl_open r = []" using Flush_carries [OF st(3) moves_invar [OF wa(1)]] by auto
  then have "stretches (\<lambda>k. \<exists>(e, ident) \<in> set (requests pending). aims w3 e ident k) w3 w'"
    using extend_all_result [of w3] w3(1) out(1) by (simp add: carries_def)
  then have "rl_open (w_Roller w') = []" "w_Dedupe w' = d2" using fl(2) w3 by (auto simp: stretches_def)
  then show thesis using that [OF st(1) wa(2)] st(4) wa(1) by (simp add: moves_def)
qed

end

section \<open>Runs of a writer\<close>

text \<open>
  The steps of a run, beside the records accepted so far: a batch is accepted, or fails; the roller is
  flushed; the store changes under the writer, the table forgets; catalogues are registered; the writer
  reports something of itself.
\<close>

inductive write_step ::
  "('s, 'd) parts \<Rightarrow> ('s \<Rightarrow> 's \<Rightarrow> bool) \<Rightarrow> ('d \<Rightarrow> 'd \<Rightarrow> bool) \<Rightarrow> ('s, 'k, 'd) Writer \<times> Record set \<Rightarrow> ('s, 'k, 'd) Writer \<times> Record set \<Rightarrow> bool"
  for v grows forgets
where
  accepted: "Write v ctx rs w = (Inr n, w') \<Longrightarrow> write_step v grows forgets (w, A) (w', A \<union> set rs)"
| failed: "Write v ctx rs w = (Inl e, w') \<Longrightarrow> write_step v grows forgets (w, A) (w', A)"
| flushed: "Flush (pt_Put v) (pt_compress v) (pt_hostname v) (w_Roller w) = (res, r) \<Longrightarrow>
    write_step v grows forgets (w, A) (w\<lparr>w_Roller := r\<rparr>, A)"
| others: "grows (w_store w) s \<Longrightarrow> write_step v grows forgets (w, A) (set_store s w, A)"
| forgot: "forgets (w_Dedupe w) d \<Longrightarrow> write_step v grows forgets (w, A) (w\<lparr>w_Dedupe := d\<rparr>, A)"
| registered: "write_step v grows forgets (w, A) (w\<lparr>w_Catalogues := f\<rparr>, A)"
| reported: "write_step v grows forgets (w, A) (emitMeta r w, A)"

context writer_parts
begin

definition ledger :: "('s, 'k, 'd) Writer \<times> Record set \<Rightarrow> bool" where
  "ledger wa \<longleftrightarrow> vouched (fst wa) \<and> (\<forall>r \<in> snd wa. stored (fst wa) r \<or> r_Id r \<noteq> [] \<and> (\<exists>q. r_Id q = r_Id r \<and> stored (fst wa) q))"

lemma ledger_grows:
  assumes "ledger (w, A)" "carries (pt_compress v) (w_Roller w) (w_Roller w')" "w_Splitter w' = w_Splitter w"
    "vouched w'"
  shows "ledger (w', A)"
  using assms stored_grows [of w _ w'] unfolding ledger_def carries_def fst_conv snd_conv by meson

lemma ledger_still:
  assumes "ledger (w, A)" "carries (pt_compress v) (w_Roller w) (w_Roller w')" "w_Splitter w' = w_Splitter w"
    "marked (w_Dedupe w') \<subseteq> marked (w_Dedupe w)"
  shows "ledger (w', A)"
  using ledger_grows [OF assms(1-3)] vouched_grows [OF _ assms(2-4)] assms(1) by (simp add: ledger_def)

lemma write_step_ledger:
  assumes "write_step v grows_to (\<lambda>d d'. marked d' \<subseteq> marked d) wa wb" "ledger wa"
  shows "ledger wb"
  using assms
proof (cases rule: write_step.cases)
  case (accepted ctx rs w n w' A)
  show ?thesis
  proof (cases "rs = []")
    case True
    then show ?thesis using accepted assms(2) by (simp add: Write_def)
  next
    case False
    have "vouched w" using assms(2) accepted(1) by (simp add: ledger_def)
    note ok = Write_ok [OF accepted(3) this False]
    have "ledger (w', A)" using ledger_grows [OF _ ok(5,4,3)] assms(2) accepted(1) by simp
    then show ?thesis using ok(6) accepted(2) by (auto simp: ledger_def)
  qed
next
  case (failed ctx rs w e w' A)
  have "invar (w_store w)" using assms(2) failed(1) by (simp add: ledger_def vouched_def)
  note err = Write_error [OF failed(3) this]
  show ?thesis using ledger_still [OF _ err(1,3)] err(2) assms(2) failed(1,2) by simp
next
  case (flushed w res r A)
  have "invar (w_store w)" using assms(2) flushed(1) by (simp add: ledger_def vouched_def)
  from Flush_carries(1) [OF flushed(3) this] show ?thesis using ledger_still [of w A "w\<lparr>w_Roller := r\<rparr>"] assms(2) flushed(1,2) by simp
next
  case (others w s A)
  then have "carries (pt_compress v) (w_Roller w) ((w_Roller w)\<lparr>rl_Store := s\<rparr>)" by (intro carries_store) (simp_all add: grows_to_def)
  then show ?thesis using ledger_still [of w A "set_store s w"] assms(2) others(1,2) by simp
next
  case (forgot w d A)
  have "invar (w_store w)" using assms(2) forgot(1) by (simp add: ledger_def vouched_def)
  then show ?thesis using ledger_still [of w A "w\<lparr>w_Dedupe := d\<rparr>"] assms(2) forgot carries_same [of "w_Roller w" "w_Roller w"] by simp
next
  case (registered w A f)
  have "invar (w_store w)" using assms(2) registered(1) by (simp add: ledger_def vouched_def)
  then show ?thesis using ledger_still [of w A "w\<lparr>w_Catalogues := f\<rparr>"] assms(2) registered carries_same [of "w_Roller w" "w_Roller w"] by simp
next
  case (reported w A r)
  have "invar (w_store w)" using assms(2) reported(1) by (simp add: ledger_def vouched_def)
  then show ?thesis using ledger_still [of w A "emitMeta r w"] assms(2) reported carries_same [of "w_Roller w" "w_Roller w"] by simp
qed

lemma write_run_ledger:
  assumes "(write_step v grows_to (\<lambda>d d'. marked d' \<subseteq> marked d))\<^sup>*\<^sup>* wa wb" "ledger wa"
  shows "ledger wb"
  using assms by (induction rule: rtranclp_induct) (use write_step_ledger in blast)+

end

section \<open>The writer in memory\<close>

definition in_memory :: "(memory, MemoryDedupe) parts \<Rightarrow> (memory, MemoryDedupe) parts" where
  "in_memory v = v\<lparr>pt_Put := mem_Put, pt_Get := (\<lambda>m k. fst (mem_Get m k)), pt_Head := mem_Head,
     pt_ExtendRetention := mem_ExtendRetention, pt_Seen := Seen, pt_Mark := Mark\<rparr>"

lemma in_memory_sel [simp]:
  "pt_Put (in_memory v) = mem_Put" "pt_Get (in_memory v) = (\<lambda>m k. fst (mem_Get m k))" "pt_Head (in_memory v) = mem_Head"
  "pt_ExtendRetention (in_memory v) = mem_ExtendRetention" "pt_Seen (in_memory v) = Seen" "pt_Mark (in_memory v) = Mark"
  "pt_canon (in_memory v) = pt_canon v" "pt_compress (in_memory v) = pt_compress v" "pt_hostname (in_memory v) = pt_hostname v"
  "pt_is_print (in_memory v) = pt_is_print v" "pt_is_uuid (in_memory v) = pt_is_uuid v" "pt_say (in_memory v) = pt_say v"
  by (simp_all add: in_memory_def)

interpretation mem_writer: writer_parts "in_memory v" mem_List mem_Prefixes mem_objects mem_entries "\<lambda>m. \<not> m_Unlocked m" mem_invar marked_in
  for v
  by (intro writer_parts.intro) (simp_all add: mem.object_store_axioms mem_dedupe.dedupe_axioms)

section \<open>Properties\<close>

lemma write_step_mono:
  assumes "write_step v grows f wa wb" "\<And>d d'. f d d' \<Longrightarrow> g d d'"
  shows "write_step v grows g wa wb"
  using assms(1) by (induction rule: write_step.induct) (auto intro: write_step.intros assms(2))

lemma write_run_mono:
  assumes "(write_step v grows f)\<^sup>*\<^sup>* wa wb" "\<And>d d'. f d d' \<Longrightarrow> g d d'"
  shows "(write_step v grows g)\<^sup>*\<^sup>* wa wb"
  using assms(1)
proof (induction rule: rtranclp_induct)
  case (step y z)
  then show ?case using write_step_mono [OF step.hyps(2) assms(2)] by (meson rtranclp.rtrancl_into_rtrancl)
qed simp

definition purges :: "MemoryDedupe \<Rightarrow> MemoryDedupe \<Rightarrow> bool" where
  "purges d d' \<longleftrightarrow> (\<exists>t. d' = Purge d t)"

lemma purges_marked: "purges d d' \<Longrightarrow> marked_in d' \<subseteq> marked_in d"
  by (auto simp: purges_def Purge_def marked_in_def split: option.splits if_splits)

text \<open>
  C1: Over any run of a writer that starts with an empty table of marks (batches accepted, batches that fail
  at any point, flushes, changes other writers make to the store, purges of the table, catalogues
  registered), every record of a batch that was accepted is in the archive at the end: it, or a record
  with its identifier, is in a dead letter, or each of the copies the splitter makes of it, stamped, is in
  a stored object of the copy's profile and tenant, locked for as long as its expiry asks.
\<close>

theorem accepted_is_archived:
  assumes "(write_step (in_memory v) mem_grows purges)\<^sup>*\<^sup>* (w0, {}) (w, A)" "mem_invar (w_store w0)" "marked_in (w_Dedupe w0) = {}"
    and "r \<in> A"
  shows "\<exists>q. (q = r \<or> r_Id r \<noteq> [] \<and> r_Id q = r_Id r)
    \<and> durable (in_memory v) (w_Splitter w) (\<not> m_Unlocked (w_store w)) (mem_objects (w_store w)) q"
proof -
  have "mem_writer.ledger v (w0, {})" using assms(2,3) by (simp add: mem_writer.ledger_def mem_writer.vouched_def)
  moreover have "(write_step (in_memory v) (mem_writer.grows_to) (\<lambda>d d'. marked_in d' \<subseteq> marked_in d))\<^sup>*\<^sup>* (w0, {}) (w, A)"
    using write_run_mono [OF assms(1) purges_marked] by (simp add: mem_grows_to)
  ultimately have "mem_writer.ledger v (w, A)" using mem_writer.write_run_ledger by blast
  then show ?thesis using assms(4) unfolding mem_writer.ledger_def mem_writer.stored_def fst_conv snd_conv by blast
qed

text \<open>
  C13: A batch that fails leaves nothing marked that was not, so its records are not taken for duplicates
  when they come again; no object of the store is lost, changed or kept for less, and every copy gathered
  before is still in its open batch or in a stored object.
\<close>

theorem failed_batch_unmarked:
  assumes "Write (in_memory v) ctx rs w = (Inl e, w')" "mem_invar (w_store w)"
  shows "marked_in (w_Dedupe w') = marked_in (w_Dedupe w) \<and> keeps_objects (mem_objects (w_store w)) (mem_objects (w_store w'))
    \<and> (\<forall>key line tm. in_batch (w_Roller w) key line tm \<longrightarrow> in_batch (w_Roller w') key line tm
         \<or> in_object (pt_compress v) (\<not> m_Unlocked (w_store w')) (mem_objects (w_store w')) key line tm)"
proof -
  note err = mem_writer.Write_error [OF assms]
  have "\<forall>key line tm. mem_writer.kept (pt_compress v) (w_Roller w) key line tm \<longrightarrow> mem_writer.kept (pt_compress v) (w_Roller w') key line tm"
    and "keeps_objects (mem_objects (w_store w)) (mem_objects (w_store w'))"
    using err(1) unfolding mem_writer.carries_def in_memory_sel by blast+
  then show ?thesis using err(2) unfolding mem_writer.kept_def by blast
qed

lemma window_seen: "window (d\<lparr>d_seen := m\<rparr>) = window d"
  by (simp add: window_def)

text \<open>
  C39: A record that was accepted for the first time, its copies stored or it dead-lettered, is marked: a
  record with its identifier that comes within the window is accepted as a duplicate, and nothing of it is
  written. So a dead letter that is replayed within the window is dropped.
\<close>

theorem replay_is_dropped:
  assumes "Write (in_memory v) ctx [r] w = (Inr n, w')" "mem_invar (w_store w)" "r_Id r \<noteq> []" "r_Id r \<notin> marked_in (w_Dedupe w)"
    and clock: "now = d_Now (w_Dedupe w)" "k = d_reads (w_Dedupe w)" "now (k + 2) - now (k + 1) < window (w_Dedupe w)"
    and "r_Id q = r_Id r"
  shows "\<exists>w''. Write (in_memory v) ctx' [q] w' = (Inr 1, w'') \<and> w_store w'' = w_store w' \<and> w_self w'' = w_self w'
    \<and> w_events w'' = w_events w' @ [OnDuplicate q]"
proof -
  obtain seen d written merr where st: "Seen (w_Dedupe w) [r_Id r] = (Inr seen, d)" "r_Id r \<in> set seen \<or> r_Id r = [] \<or> r_Id r \<in> set written"
    "Mark d written = (merr, w_Dedupe w')" "rl_open (w_Roller w') = []"
    by (rule mem_writer.Write_leaves [OF assms(1,2)]) simp_all
  have "set seen \<subseteq> marked_in (w_Dedupe w)" using mem_dedupe.seen_marked [OF st(1)] by blast
  then have "r_Id r \<in> set written" using st(2) assms(3,4) by blast
  moreover have "w_Dedupe w' = d\<lparr>d_reads := Suc (d_reads d), d_seen := mark_all (d_Now d (d_reads d)) written (d_seen d)\<rparr>"
    using st(3) by (simp add: Mark_def dedupe_now_def)
  moreover have "d_Now d = now" "d_reads d = k + 1" "window d = window (w_Dedupe w)"
    using st(1) clock by (auto simp: Seen_def dedupe_now_def)
  ultimately have d': "d_seen (w_Dedupe w') (r_Id r) = Some (now (k + 1))" "d_Now (w_Dedupe w') = now" "d_reads (w_Dedupe w') = k + 2"
    "window (w_Dedupe w') = window (w_Dedupe w)"
    using assms(3) by (simp_all add: mark_all_apply window_seen)
  have "Seen (w_Dedupe w') [r_Id q] = (Inr [r_Id q], (w_Dedupe w')\<lparr>d_reads := k + 3\<rparr>)"
    using d' clock(3) assms(3,8) by (simp add: Seen_def dedupe_now_def numeral_3_eq_3)
  then have "Write (in_memory v) ctx' [q] w' = (Inr 1, hook (OnDuplicate q) (w'\<lparr>w_Roller := ensure (pt_hostname v) (w_Roller w'),
      w_Dedupe := snd (Mark ((w_Dedupe w')\<lparr>d_reads := k + 3\<rparr>) [])\<rparr>))"
    using st(4) by (simp add: Write_def Flush_def hook_def Mark_def dedupe_now_def extend_all_def Let_def)
  then show ?thesis by (simp add: hook_def)
qed

text \<open>
  C23: Acting on the addenda of a batch changes nothing in the store but dates, which only become later, and
  those only of objects in which the locator finds a record an addendum names, of the addendum's own
  tenant. Each record named is then in an object kept as long as the addendum asks, or its failure is
  reported.
\<close>

theorem addenda_only_lengthen:
  assumes "mem_invar (w_store w)" "w_Records w = Some locate" "w' = extend_all (in_memory v) pending w"
  shows "(\<forall>k. mem_objects (w_store w') k = mem_objects (w_store w) k
        \<or> (\<exists>e \<in> set pending. \<exists>ident \<in> set (xt_earlier e). \<exists>row. locate (pf_Name (xt_profile e)) ident = Inr row
             \<and> row_TenantID row = xt_tenant e \<and> row_ObjectKey row = k)
          \<and> (\<exists>x t. mem_objects (w_store w) k = Some x \<and> o_RetainUntil x \<le> t \<and> mem_objects (w_store w') k = Some (x\<lparr>o_RetainUntil := t\<rparr>)))
    \<and> (\<forall>e \<in> set pending. \<forall>ident \<in> set (xt_earlier e).
         (\<exists>err. OnRetentionNotExtended (pf_Name (xt_profile e)) ident err \<in> set (w_events w'))
         \<or> (\<exists>row x. locate (pf_Name (xt_profile e)) ident = Inr row \<and> row_TenantID row = xt_tenant e
              \<and> mem_objects (w_store w') (row_ObjectKey row) = Some x \<and> xt_until e \<le> o_RetainUntil x))"
proof -
  note ext = mem_writer.extend_all_result [OF assms(1), of pending v, folded assms(3)]
  have req: "(e, ident) \<in> set (mem_writer.requests pending) \<longleftrightarrow> e \<in> set pending \<and> ident \<in> set (xt_earlier e)" for e ident
    by (auto simp: mem_writer.requests_def)
  have aim: "mem_writer.aims w e ident k \<longleftrightarrow> (\<exists>row. locate (pf_Name (xt_profile e)) ident = Inr row
      \<and> row_TenantID row = xt_tenant e \<and> row_ObjectKey row = k)" for e ident k
    using assms(2) by (simp add: mem_writer.aims_def)
  have aim': "mem_writer.aims w' e ident = mem_writer.aims w e ident" for e ident using mem_writer.aims_stretches ext by blast
  show ?thesis
  proof (intro conjI allI ballI, goal_cases)
    case (1 k)
    have "mem_objects (w_store w') k = mem_objects (w_store w) k
        \<or> (\<exists>(e, ident) \<in> set (mem_writer.requests pending). mem_writer.aims w e ident k)
          \<and> (\<exists>x t. mem_objects (w_store w) k = Some x \<and> o_RetainUntil x \<le> t \<and> mem_objects (w_store w') k = Some (x\<lparr>o_RetainUntil := t\<rparr>))"
      using ext unfolding mem_writer.stretches_def mem_writer.only_lengthens_def by blast
    then show ?case unfolding aim using req by blast
  next
    case (2 e ident)
    then have "mem_writer.settled w' e ident" using ext req by blast
    then show ?case unfolding mem_writer.settled_def aim' aim by blast
  qed
qed

section \<open>Examples\<close>

text \<open>A writer that knows no catalogue; the record it is given has no time, and is dead-lettered.\<close>

definition example_parts :: "(memory, MemoryDedupe) parts" where
  "example_parts = \<lparr>pt_Put = mem_Put, pt_Get = (\<lambda>m k. fst (mem_Get m k)), pt_Head = mem_Head, pt_ExtendRetention = mem_ExtendRetention,
     pt_Seen = Seen, pt_Mark = Mark, pt_compress = (\<lambda>x. x), pt_canon = (\<lambda>r. Inr ''{}''), pt_is_uuid = (\<lambda>s. True),
     pt_is_print = (\<lambda>c. True), pt_say = (\<lambda>why. ''why''), pt_say_extend = (\<lambda>why. ''why''), pt_hostname = ''host'',
     pt_published = Inr ''{}'', pt_protos = (\<lambda>n. None)\<rparr>"

definition example_writer :: "(memory, nat, MemoryDedupe) Writer" where
  "example_writer = \<lparr>w_Catalogues = (\<lambda>s t. Inl (UnknownCatalogueError s t)), w_Splitter = example_splitter, w_keys = 0,
     w_Roller = example_roller, w_Dedupe = \<lparr>d_Window = 5, d_Now = int, d_reads = 0, d_seen = Map.empty\<rparr>,
     w_DeadLetter = \<lparr>dl_RetainUntil = None, dl_Instance = ''w'', dl_Now = (\<lambda>n. 0), dl_reads = 0, dl_seq = 0\<rparr>, w_Archive = None,
     w_self = None, w_events = [], w_Records = None, w_Identity = None, w_KeepUpstreamStamp = False, w_Now = (\<lambda>n. 0), w_reads = 0,
     w_unhandled = []\<rparr>"

definition example_call :: call where
  "example_call = \<lparr>call_meta = None, call_from = ''caller''\<rparr>"

definition example_timeless :: Record where
  "example_timeless = empty_record\<lparr>r_Id := ''a''\<rparr>"

lemma example_parts_memory: "in_memory example_parts = example_parts"
  by (simp add: in_memory_def example_parts_def)

lemma example_refused: "Check (pt_is_uuid example_parts) (pt_canon example_parts) example_timeless Default \<noteq> []"
  by (simp add: Check_def check_names_def example_timeless_def empty_record_def)

lemma example_letter: "\<exists>body. letter_body d now r reason (letter_line (pt_is_print example_parts) (pt_canon example_parts) r) = Some body"
proof -
  have "valid_json (letter_line (pt_is_print example_parts) (pt_canon example_parts) r)"
    by (simp add: letter_line_def example_parts_def valid_json_def) code_simp
  then show ?thesis by (simp add: letter_body_def)
qed

lemma example_accepted:
  obtains w' where "Write example_parts example_call [example_timeless] example_writer = (Inr 1, w')"
    "OnDeadLettered example_timeless ''why'' \<in> set (w_events w')"
proof -
  let ?d = "w_DeadLetter example_writer" and ?s = "w_store example_writer"
  obtain body where body: "letter_body (?d\<lparr>dl_reads := 1\<rparr>) 0 example_timeless ''why''
      (letter_line (pt_is_print example_parts) (pt_canon example_parts) example_timeless) = Some body"
    using example_letter by blast
  have key: "letter_key (?d\<lparr>dl_reads := 1, dl_seq := 1\<rparr>) 0 \<noteq> []" by (simp add: letter_key_def)
  obtain d s where put: "DeadLetter_Put mem_Put (pt_is_print example_parts) (pt_canon example_parts) ?d ?s example_timeless ''why'' = (None, d, s)"
    using body key by (auto simp: DeadLetter_Put_def Let_def mem_Put_def example_writer_def example_roller_def NewMemory_def description_def)
  have parts: "pt_Put example_parts = mem_Put" "pt_say example_parts why = ''why''" "pt_Seen example_parts = Seen" "pt_Mark example_parts = Mark" for why
    by (simp_all add: example_parts_def)
  define w1 where "w1 = example_writer\<lparr>w_Dedupe := (w_Dedupe example_writer)\<lparr>d_reads := 1\<rparr>\<rparr>"
  define w2 where "w2 = hook (OnDeadLettered example_timeless ''why'') ((set_store s w1)\<lparr>w_DeadLetter := d\<rparr>)"
  have "deadLetter example_parts example_call example_timeless why w1 = (None, metaDeadLettered example_timeless ''why'' w2)" for why
    using put by (simp add: deadLetter_def parts w1_def w2_def example_call_def Let_def)
  then have one: "one example_parts example_call example_timeless [] w1 = ((None, metaDeadLettered example_timeless ''why'' w2), [])"
    using example_refused by (simp add: one_def)
  have "Seen (w_Dedupe example_writer) [''a''] = (Inr [], w_Dedupe w1)"
    by (simp add: Seen_def dedupe_now_def example_writer_def w1_def)
  moreover have "rl_open (w_Roller w2) = []" "w_events w2 = [OnDeadLettered example_timeless ''why'']"
    by (simp_all add: w2_def w1_def hook_def example_writer_def example_roller_def)
  moreover define w3 where "w3 = (metaDeadLettered example_timeless ''why'' w2)\<lparr>w_Roller := ensure (pt_hostname example_parts) (w_Roller w2),
      w_Dedupe := snd (Mark (w_Dedupe w2) [''a''])\<rparr>"
  ultimately have "Write example_parts example_call [example_timeless] example_writer = (Inr 1, w3)" using one
    by (simp add: Write_def parts w1_def Flush_def Mark_def dedupe_now_def extend_all_def Let_def example_timeless_def)
  moreover have "w_events w3 = w_events w2" by (simp add: w3_def metaDeadLettered_def emitMeta_def)
  ultimately show thesis using that \<open>w_events w2 = _\<close> by simp
qed

lemma example_writer_ready: "mem_invar (w_store example_writer)" "marked_in (w_Dedupe example_writer) = {}"
  using mem_invar_example by (simp_all add: example_writer_def marked_in_def)

theorem accepted_is_archived_witness:
  "\<exists>w. (write_step (in_memory example_parts) mem_grows purges)\<^sup>*\<^sup>* (example_writer, {}) (w, {example_timeless})
     \<and> (\<exists>q. (q = example_timeless \<or> r_Id example_timeless \<noteq> [] \<and> r_Id q = r_Id example_timeless)
         \<and> durable (in_memory example_parts) (w_Splitter w) (\<not> m_Unlocked (w_store w)) (mem_objects (w_store w)) q)"
proof -
  obtain w where "Write (in_memory example_parts) example_call [example_timeless] example_writer = (Inr 1, w)"
    unfolding example_parts_memory by (rule example_accepted)
  from write_step.accepted [OF this, of mem_grows purges "{}"]
  have run: "(write_step (in_memory example_parts) mem_grows purges)\<^sup>*\<^sup>* (example_writer, {}) (w, {example_timeless})" by auto
  from accepted_is_archived [OF this example_writer_ready] run show ?thesis by blast
qed

definition example_full :: "(memory, nat, MemoryDedupe) Writer" where
  "example_full = set_store ((w_store example_writer)\<lparr>m_FailPut := Some (ErrOther ''full'')\<rparr>) example_writer"

theorem failed_batch_unmarked_witness:
  "\<exists>e w. Write (in_memory example_parts) example_call [example_timeless] example_full = (Inl e, w) \<and> marked_in (w_Dedupe w) = {}"
proof -
  obtain body where body: "letter_body ((w_DeadLetter example_full)\<lparr>dl_reads := 1\<rparr>) 0 example_timeless ''why''
      (letter_line (pt_is_print example_parts) (pt_canon example_parts) example_timeless) = Some body"
    using example_letter by blast
  define w1 where "w1 = example_full\<lparr>w_Dedupe := (w_Dedupe example_full)\<lparr>d_reads := 1\<rparr>\<rparr>"
  obtain d where put: "DeadLetter_Put mem_Put (pt_is_print example_parts) (pt_canon example_parts) (w_DeadLetter w1) (w_store w1) example_timeless ''why''
      = (Some (LetterPut (ErrOther ''full'')), d, w_store w1)"
    using body by (auto simp: DeadLetter_Put_def Let_def mem_Put_def example_full_def example_writer_def w1_def)
  have "deadLetter example_parts example_call example_timeless why w1
      = (Some (NotLettered (LetterPut (ErrOther ''full''))), (set_store (w_store w1) w1)\<lparr>w_DeadLetter := d\<rparr>)" for why
    using put by (simp add: deadLetter_def example_parts_def Let_def)
  then have "one example_parts example_call example_timeless [] w1
      = ((Some (NotLettered (LetterPut (ErrOther ''full''))), (set_store (w_store w1) w1)\<lparr>w_DeadLetter := d\<rparr>), [])"
    using example_refused by (simp add: one_def)
  moreover have "Seen (w_Dedupe example_full) [''a''] = (Inr [], w_Dedupe w1)"
    by (simp add: Seen_def dedupe_now_def example_full_def example_writer_def w1_def)
  moreover have "pt_Seen example_parts = Seen" by (simp add: example_parts_def)
  ultimately obtain w where w: "Write (in_memory example_parts) example_call [example_timeless] example_full
      = (Inl (NotLettered (LetterPut (ErrOther ''full''))), w)"
    unfolding example_parts_memory by (simp add: Write_def example_timeless_def w1_def)
  have "mem_invar (w_store example_full)" using example_writer_ready(1) by (auto simp: example_full_def mem_invar_def)
  moreover have "marked_in (w_Dedupe example_full) = {}" using example_writer_ready(2) by (simp add: example_full_def)
  ultimately show ?thesis using failed_batch_unmarked [OF w] w by blast
qed

theorem replay_is_dropped_witness:
  "\<exists>w w'. Write (in_memory example_parts) example_call [example_timeless] example_writer = (Inr 1, w)
     \<and> OnDeadLettered example_timeless ''why'' \<in> set (w_events w)
     \<and> Write (in_memory example_parts) example_call [example_record\<lparr>r_Id := ''a''\<rparr>] w = (Inr 1, w') \<and> w_store w' = w_store w"
proof -
  obtain w where w: "Write (in_memory example_parts) example_call [example_timeless] example_writer = (Inr 1, w)"
    "OnDeadLettered example_timeless ''why'' \<in> set (w_events w)"
    unfolding example_parts_memory by (rule example_accepted)
  have "r_Id example_timeless \<notin> marked_in (w_Dedupe example_writer)" using example_writer_ready(2) by simp
  moreover have "d_Now (w_Dedupe example_writer) (d_reads (w_Dedupe example_writer) + 2)
      - d_Now (w_Dedupe example_writer) (d_reads (w_Dedupe example_writer) + 1) < window (w_Dedupe example_writer)"
    by (simp add: example_writer_def window_def)
  ultimately show ?thesis
    using replay_is_dropped [OF w(1) example_writer_ready(1) _ _ refl refl, of "example_record\<lparr>r_Id := ''a''\<rparr>" example_call] w
    by (auto simp: example_timeless_def)
qed

definition example_locked :: memory where
  "example_locked = (NewMemory (\<lambda>n. 0))\<lparr>m_objects := [(''k'', (description ''k'' ''x'' 1 [] [], 0))]\<rparr>"

definition example_addendum :: extension where
  "example_addendum = \<lparr>xt_record = ''b'', xt_tenant = ''acme'', xt_profile = example_profile, xt_earlier = [''a''], xt_until = 9\<rparr>"

definition example_locate :: "string \<Rightarrow> string \<Rightarrow> string + row" where
  "example_locate profile ident = Inr \<lparr>row_TenantID = ''acme'', row_ObjectKey = ''k''\<rparr>"

theorem addenda_only_lengthen_witness:
  "\<exists>x. mem_objects (w_store (extend_all (in_memory example_parts) [example_addendum]
      ((set_store example_locked example_writer)\<lparr>w_Records := Some example_locate\<rparr>))) ''k'' = Some x \<and> 9 \<le> o_RetainUntil x"
proof -
  define w where "w = (set_store example_locked example_writer)\<lparr>w_Records := Some example_locate\<rparr>"
  have "mem_invar (w_store w)" by (auto simp: mem_invar_def w_def example_locked_def NewMemory_def)
  moreover have "w_Records w = Some example_locate" by (simp add: w_def)
  moreover have "w_events (extend_all (in_memory example_parts) [example_addendum] w) = []"
    by (simp add: extend_all_def extend_id_def extendOne_def example_addendum_def w_def example_locate_def mem_Head_def mem_ExtendRetention_def
        example_locked_def NewMemory_def description_def example_writer_def metaExtended_def emitMeta_def Let_def zero_time_def)
  ultimately show ?thesis
    using addenda_only_lengthen [of w example_locate _ example_parts "[example_addendum]", OF _ _ refl]
    by (simp add: example_addendum_def example_locate_def w_def)
qed

end
