(* ===== verification/Search.thy ===== *)
theory Search
  imports Deadletter Canonical "HOL-Library.Product_Lexorder"
begin

text \<open>
  \<open>index/index.go\<close>, \<open>index/search.go\<close>, \<open>index/memory.go\<close> and \<open>index/memsearch.go\<close>: the rows a search reads, the closed query,
  and the index in memory, which is the definition of what a query means. Operators, kinds and fields are the
  strings the code has for them.

  Shown: following the boundary of each page reads every matching row once, in order, when the identifier is
  the last term of the ordering; the counts are those of the rows, over any sequence of deliveries.
\<close>

section \<open>Rows\<close>

record IValue =
  iv_Path :: string
  iv_Kind :: string
  iv_Text :: string
  iv_Int :: int
  iv_At :: time
  iv_Facet :: bool

record Row =
  rw_ID :: string
  rw_TenantID :: string
  rw_OccurredAt :: time
  rw_RecordedAt :: time
  rw_Sequence :: u64
  rw_Source :: string
  rw_Action :: string
  rw_Operation :: string
  rw_Outcome :: string
  rw_TargetTypes :: "string list"
  rw_TargetIDs :: "string list"
  rw_ObjectKey :: string
  rw_Line :: nat
  rw_ActorKind :: string
  rw_ActorID :: string
  rw_SubjectKind :: string
  rw_SubjectID :: string
  rw_ClientAddress :: string
  rw_RequestID :: string
  rw_TraceID :: string
  rw_ObserverID :: string
  rw_Data :: "IValue list"

record FacetDelta =
  fd_TenantID :: string
  fd_Hour :: time
  fd_Field :: string
  fd_Value :: string
  fd_Count :: int

definition kind_Text :: string where "kind_Text = ''text''"
definition kind_Int :: string where "kind_Int = ''int''"
definition kind_Time :: string where "kind_Time = ''time''"
definition kind_Bool :: string where "kind_Bool = ''bool''"

definition IValue_String :: "IValue \<Rightarrow> string" where
  "IValue_String v =
     (if iv_Kind v = kind_Int then FormatInt (iv_Int v)
      else if iv_Kind v = kind_Time then FormatRFC3339 (iv_At v)
      else if iv_Kind v = kind_Bool then (if iv_Int v \<noteq> 0 then ''true'' else ''false'')
      else iv_Text v)"

definition facet_fields :: "Row \<Rightarrow> (string \<times> string) list" where
  "facet_fields r =
     filter (\<lambda>(field, value). value \<noteq> [])
       ([(''action'', rw_Action r), (''operation'', rw_Operation r), (''outcome'', rw_Outcome r), (''source'', rw_Source r),
         (''actor_kind'', rw_ActorKind r)]
        @ map (Pair ''target_type'') (rev (remdups (rev (rw_TargetTypes r))))
        @ map (\<lambda>v. (''data:'' @ iv_Path v, IValue_String v)) (filter iv_Facet (rw_Data r)))"

definition Row_Facets :: "Row \<Rightarrow> FacetDelta list" where
  "Row_Facets r =
     map (\<lambda>(field, value). \<lparr>fd_TenantID = rw_TenantID r, fd_Hour = Truncate_hour (rw_RecordedAt r), fd_Field = field,
       fd_Value = value, fd_Count = 1\<rparr>) (facet_fields r)"

text \<open>The properties a row is indexed by.\<close>

record Fields =
  fl_Filter :: "string list"
  fl_Facet :: "string list"

fun replace_two :: "char \<Rightarrow> char \<Rightarrow> char \<Rightarrow> string \<Rightarrow> string" where
  "replace_two a b c (x # y # s) = (if x = a \<and> y = b then c # replace_two a b c s else x # replace_two a b c (y # s))"
| "replace_two a b c s = s"

definition unescape :: "string \<Rightarrow> string" where
  "unescape step = replace_two CHR ''~'' CHR ''0'' CHR ''~'' (replace_two CHR ''~'' CHR ''1'' CHR ''/'' step)"

fun walk_steps :: "Value \<Rightarrow> string list \<Rightarrow> Value option" where
  "walk_steps v [] = Some v"
| "walk_steps v (step # steps) =
     (case v of
        VStruct (Some fs) \<Rightarrow> (case map_of fs (unescape step) of Some w \<Rightarrow> walk_steps w steps | None \<Rightarrow> None)
      | _ \<Rightarrow> None)"

definition pointer_at :: "Struct \<Rightarrow> string \<Rightarrow> Value option" where
  "pointer_at data pointer =
     walk_steps (VStruct (Some data)) (Split CHR ''/'' (case CutPrefix pointer ''/'' of Some rest \<Rightarrow> rest | None \<Rightarrow> pointer))"

text \<open>The integer a float64 is, if it is one an \<open>int64\<close> holds: from its sign, its exponent and its fraction.\<close>

definition float_int :: "u64 \<Rightarrow> int option" where
  "float_int w =
     (let e = unat (take_bit 11 (drop_bit 52 w)); f = unat (take_bit 52 w);
          (m, k) = (if e = 0 then (int f, - 1074) else (int f + 2 ^ 52, int e - 1075));
          sign = (if bit w 63 then - 1 else 1)
      in if e = 2047 then None
         else if 0 \<le> k then
           (let n = sign * m * 2 ^ nat k in if - (2 ^ 63) \<le> n \<and> n < 2 ^ 63 then Some n else None)
         else if m mod 2 ^ nat (- k) = 0 then Some (sign * (m div 2 ^ nat (- k)))
         else None)"

definition valueOf :: "string \<Rightarrow> Value \<Rightarrow> IValue option" where
  "valueOf pointer v =
     (case v of
        VString t \<Rightarrow>
          (case ParseRFC3339 t of
             Some tm \<Rightarrow> Some \<lparr>iv_Path = pointer, iv_Kind = kind_Time, iv_Text = t, iv_Int = 0, iv_At = tm, iv_Facet = False\<rparr>
           | None \<Rightarrow> Some \<lparr>iv_Path = pointer, iv_Kind = kind_Text, iv_Text = t, iv_Int = 0, iv_At = zero_time, iv_Facet = False\<rparr>)
      | VNumber w \<Rightarrow>
          (case float_int w of
             Some n \<Rightarrow> Some \<lparr>iv_Path = pointer, iv_Kind = kind_Int, iv_Text = FormatInt n, iv_Int = n, iv_At = zero_time, iv_Facet = False\<rparr>
           | None \<Rightarrow> None)
      | VBool b \<Rightarrow> Some \<lparr>iv_Path = pointer, iv_Kind = kind_Bool, iv_Text = [], iv_Int = (if b then 1 else 0), iv_At = zero_time, iv_Facet = False\<rparr>
      | _ \<Rightarrow> None)"

definition valuesOf :: "Struct option \<Rightarrow> Fields \<Rightarrow> IValue list" where
  "valuesOf data wanted =
     (case data of
        None \<Rightarrow> []
      | Some fs \<Rightarrow>
          List.map_filter
            (\<lambda>pointer. case pointer_at fs pointer of
                None \<Rightarrow> None
              | Some v \<Rightarrow> map_option (\<lambda>value. value\<lparr>iv_Facet := pointer \<in> set (fl_Facet wanted)\<rparr>) (valueOf pointer v))
            (sort (remdups (fl_Filter wanted @ fl_Facet wanted))))"

definition AsTime :: "time option \<Rightarrow> time" where
  "AsTime t = (case t of Some u \<Rightarrow> u | None \<Rightarrow> 0)"

fun OperationName :: "Operation \<Rightarrow> string" where
  "OperationName OPERATION_UNSPECIFIED = ''unspecified''"
| "OperationName OPERATION_CREATE = ''create''"
| "OperationName OPERATION_ACCESS = ''access''"
| "OperationName OPERATION_MODIFY = ''modify''"
| "OperationName OPERATION_REMOVE = ''remove''"
| "OperationName OPERATION_AUTHENTICATION = ''authentication''"
| "OperationName OPERATION_TRANSFER = ''transfer''"
| "OperationName OPERATION_RESTORE = ''restore''"

fun ResultName :: "Result \<Rightarrow> string" where
  "ResultName RESULT_UNSPECIFIED = ''unspecified''"
| "ResultName RESULT_SUCCESS = ''success''"
| "ResultName RESULT_FAILURE = ''failure''"
| "ResultName RESULT_DENIED = ''denied''"
| "ResultName RESULT_UNKNOWN = ''unknown''"

definition of_option :: "'a \<Rightarrow> ('b \<Rightarrow> 'a) \<Rightarrow> 'b option \<Rightarrow> 'a" where
  "of_option z f x = (case x of None \<Rightarrow> z | Some y \<Rightarrow> f y)"

definition RowOf :: "Record \<Rightarrow> string \<Rightarrow> nat \<Rightarrow> Fields \<Rightarrow> Row" where
  "RowOf r key line wanted =
     \<lparr>rw_ID = r_Id r, rw_TenantID = r_TenantId r, rw_OccurredAt = AsTime (r_OccurredAt r), rw_RecordedAt = AsTime (r_RecordedAt r),
      rw_Sequence = r_Sequence r, rw_Source = r_Source r, rw_Action = r_Action r, rw_Operation = OperationName (r_Operation r),
      rw_Outcome = ResultName (of_option RESULT_UNSPECIFIED ou_Result (r_Outcome r)),
      rw_TargetTypes = map ta_Type (r_Targets r), rw_TargetIDs = map ta_Id (r_Targets r), rw_ObjectKey = key, rw_Line = line,
      rw_ActorKind = of_option [] ac_Kind (r_Actor r), rw_ActorID = of_option [] ac_Id (r_Actor r),
      rw_SubjectKind = of_option [] pa_Kind (r_Subject r), rw_SubjectID = of_option [] pa_Id (r_Subject r),
      rw_ClientAddress = of_option [] (\<lambda>c. if cx_ClientAddresses c = [] then [] else last (cx_ClientAddresses c)) (r_Context r),
      rw_RequestID = of_option [] cx_RequestId (r_Context r), rw_TraceID = of_option [] cx_TraceId (r_Context r),
      rw_ObserverID = of_option [] ob_Id (r_Observer r), rw_Data = valuesOf (r_Data r) wanted\<rparr>"

section \<open>The closed query\<close>

definition op_Equal :: string where "op_Equal = ''eq''"
definition op_NotEqual :: string where "op_NotEqual = ''ne''"
definition op_In :: string where "op_In = ''in''"
definition op_NotIn :: string where "op_NotIn = ''nin''"
definition op_Prefix :: string where "op_Prefix = ''prefix''"

record Predicate =
  pd_Op :: string
  pd_Value :: string
  pd_Values :: "string list"

record TimePredicate =
  tp_From :: time
  tp_To :: time

record PathPredicate =
  pp_Path :: string
  pp_Op :: string
  pp_Text :: string
  pp_Values :: "string list"
  pp_Int :: int
  pp_At :: time
  pp_Kind :: string

record Conjunction =
  cj_ID :: "Predicate list"
  cj_OccurredAt :: "TimePredicate list"
  cj_RecordedAt :: "TimePredicate list"
  cj_Source :: "Predicate list"
  cj_Action :: "Predicate list"
  cj_Operation :: "Predicate list"
  cj_Outcome :: "Predicate list"
  cj_TenantID :: "Predicate list"
  cj_ActorKind :: "Predicate list"
  cj_ActorID :: "Predicate list"
  cj_SubjectKind :: "Predicate list"
  cj_SubjectID :: "Predicate list"
  cj_RequestID :: "Predicate list"
  cj_TraceID :: "Predicate list"
  cj_ClientAddress :: "Predicate list"
  cj_ObserverID :: "Predicate list"
  cj_TargetType :: "Predicate list"
  cj_TargetID :: "Predicate list"
  cj_Data :: "PathPredicate list"

definition no_conjunction :: Conjunction where
  "no_conjunction = \<lparr>cj_ID = [], cj_OccurredAt = [], cj_RecordedAt = [], cj_Source = [], cj_Action = [], cj_Operation = [], cj_Outcome = [],
     cj_TenantID = [], cj_ActorKind = [], cj_ActorID = [], cj_SubjectKind = [], cj_SubjectID = [], cj_RequestID = [], cj_TraceID = [],
     cj_ClientAddress = [], cj_ObserverID = [], cj_TargetType = [], cj_TargetID = [], cj_Data = []\<rparr>"

record SortBy =
  sb_Field :: string
  sb_Descending :: bool

record Boundary =
  bd_Values :: "string list"
  bd_ID :: string
  bd_RecordedAt :: time
  bd_Sequence :: u64

record Query =
  q_Profile :: string
  q_Tenants :: "string list"
  q_Filter :: "Conjunction list"
  q_Sort :: "SortBy list"
  q_Limit :: int
  q_After :: "Boundary option"
  q_Backwards :: bool

record Page =
  pg_Rows :: "Row list"
  pg_More :: bool
  pg_Next :: "Boundary option"
  pg_Prev :: "Boundary option"

definition compare :: "string \<Rightarrow> Predicate \<Rightarrow> bool" where
  "compare value p =
     (if pd_Op p = op_Equal then value = pd_Value p
      else if pd_Op p = op_NotEqual then value \<noteq> pd_Value p
      else if pd_Op p = op_In then value \<in> set (pd_Values p)
      else if pd_Op p = op_NotIn then value \<notin> set (pd_Values p)
      else if pd_Op p = op_Prefix then HasPrefix value (pd_Value p)
      else False)"

definition anyOf :: "string list \<Rightarrow> Predicate \<Rightarrow> bool" where
  "anyOf values p =
     (if pd_Op p = op_Equal then pd_Value p \<in> set values
      else if pd_Op p = op_NotEqual then pd_Value p \<notin> set values
      else if pd_Op p = op_In then \<exists>v \<in> set values. v \<in> set (pd_Values p)
      else if pd_Op p = op_NotIn then \<not> (\<exists>v \<in> set values. v \<in> set (pd_Values p))
      else False)"

definition hasData :: "Row \<Rightarrow> PathPredicate \<Rightarrow> bool" where
  "hasData r p \<longleftrightarrow>
     (\<exists>v \<in> set (rw_Data r). iv_Path v = pp_Path p
        \<and> (if pp_Kind p = kind_Int \<or> pp_Kind p = kind_Bool then iv_Int v = pp_Int p
           else if pp_Kind p = kind_Time then iv_At v = pp_At p
           else compare (iv_Text v) \<lparr>pd_Op = pp_Op p, pd_Value = pp_Text p, pd_Values = pp_Values p\<rparr>))"

definition tm_within :: "time \<Rightarrow> TimePredicate \<Rightarrow> bool" where
  "tm_within tm w \<longleftrightarrow> \<not> (tp_From w \<noteq> zero_time \<and> tm < tp_From w) \<and> \<not> (tp_To w \<noteq> zero_time \<and> \<not> tm < tp_To w)"

definition text_terms :: "Row \<Rightarrow> Conjunction \<Rightarrow> (string \<times> Predicate list) list" where
  "text_terms r c =
     [(rw_ID r, cj_ID c), (rw_Source r, cj_Source c), (rw_Action r, cj_Action c), (rw_Operation r, cj_Operation c),
      (rw_Outcome r, cj_Outcome c), (rw_TenantID r, cj_TenantID c), (rw_ActorKind r, cj_ActorKind c), (rw_ActorID r, cj_ActorID c),
      (rw_SubjectKind r, cj_SubjectKind c), (rw_SubjectID r, cj_SubjectID c), (rw_RequestID r, cj_RequestID c),
      (rw_TraceID r, cj_TraceID c), (rw_ClientAddress r, cj_ClientAddress c), (rw_ObserverID r, cj_ObserverID c)]"

definition holds :: "Row \<Rightarrow> Conjunction \<Rightarrow> bool" where
  "holds r c \<longleftrightarrow>
     list_all (\<lambda>(value, ps). list_all (compare value) ps) (text_terms r c)
     \<and> list_all (tm_within (rw_OccurredAt r)) (cj_OccurredAt c)
     \<and> list_all (tm_within (rw_RecordedAt r)) (cj_RecordedAt c)
     \<and> list_all (anyOf (rw_TargetTypes r)) (cj_TargetType c)
     \<and> list_all (anyOf (rw_TargetIDs r)) (cj_TargetID c)
     \<and> list_all (hasData r) (cj_Data c)"

definition Matches :: "Row \<Rightarrow> Conjunction list \<Rightarrow> bool" where
  "Matches r filter' \<longleftrightarrow> filter' = [] \<or> (\<exists>c \<in> set filter'. holds r c)"

definition granted :: "Row \<Rightarrow> string list \<Rightarrow> bool" where
  "granted r tenants \<longleftrightarrow> tenants = [] \<or> rw_TenantID r \<in> set tenants"

section \<open>Ordering\<close>

definition SortOccurredAt :: string where "SortOccurredAt = ''occurred_at''"
definition SortRecordedAt :: string where "SortRecordedAt = ''recorded_at''"
definition SortID :: string where "SortID = ''id''"
definition SortAction :: string where "SortAction = ''action''"
definition SortTenantID :: string where "SortTenantID = ''tenant_id''"
definition SortSource :: string where "SortSource = ''source''"

fun sort_terms :: "string list \<Rightarrow> SortBy list \<Rightarrow> SortBy list" where
  "sort_terms seen [] = []"
| "sort_terms seen (s # ss) =
     (if sb_Field s = [] \<or> sb_Field s \<in> set seen then sort_terms seen ss else s # sort_terms (sb_Field s # seen) ss)"

definition searchOrder :: "SortBy list \<Rightarrow> SortBy list" where
  "searchOrder asked =
     (let out = sort_terms [] asked;
          out' = (if out = [] then [\<lparr>sb_Field = SortOccurredAt, sb_Descending = True\<rparr>] else out)
      in if SortID \<in> sb_Field ` set out then out' else out' @ [\<lparr>sb_Field = SortID, sb_Descending = False\<rparr>])"

definition key :: "Row \<Rightarrow> string \<Rightarrow> string" where
  "key r field =
     (if field = SortOccurredAt then FormatRFC3339Nano (rw_OccurredAt r)
      else if field = SortRecordedAt then FormatRFC3339Nano (rw_RecordedAt r)
      else if field = SortAction then rw_Action r
      else if field = SortTenantID then rw_TenantID r
      else if field = SortSource then rw_Source r
      else rw_ID r)"

fun row_less :: "SortBy list \<Rightarrow> Row \<Rightarrow> Row \<Rightarrow> bool" where
  "row_less [] a b = False"
| "row_less (s # ss) a b =
     (let x = key a (sb_Field s); y = key b (sb_Field s) in
      if x = y then row_less ss a b else if sb_Descending s then y < x else x < y)"

text \<open>\<open>sort.SliceStable\<close>.\<close>

fun insort_by :: "('a \<Rightarrow> 'a \<Rightarrow> bool) \<Rightarrow> 'a \<Rightarrow> 'a list \<Rightarrow> 'a list" where
  "insort_by lt x [] = [x]"
| "insort_by lt x (y # ys) = (if lt y x then y # insort_by lt x ys else x # y # ys)"

definition sortRows :: "Row list \<Rightarrow> SortBy list \<Rightarrow> Row list" where
  "sortRows rows order = foldr (insort_by (row_less order)) rows []"

text \<open>Whether a row is beyond a boundary; \<open>None\<close> where the boundary has fewer values than the ordering has terms.\<close>

fun beyond :: "SortBy list \<Rightarrow> string list \<Rightarrow> bool \<Rightarrow> Row \<Rightarrow> bool option" where
  "beyond [] want backwards r = Some False"
| "beyond (s # ss) [] backwards r = None"
| "beyond (s # ss) (v # vs) backwards r =
     (let got = key r (sb_Field s) in
      if got = v then beyond ss vs backwards r
      else Some (if sb_Descending s \<noteq> backwards then got < v else v < got))"

fun after :: "Row list \<Rightarrow> SortBy list \<Rightarrow> string list \<Rightarrow> bool \<Rightarrow> Row list option" where
  "after [] order want backwards = Some []"
| "after (r # rs) order want backwards =
     (case (beyond order want backwards r, after rs order want backwards) of
        (Some True, Some out) \<Rightarrow> Some (r # out)
      | (Some False, Some out) \<Rightarrow> Some out
      | _ \<Rightarrow> None)"

definition boundary :: "Row \<Rightarrow> SortBy list \<Rightarrow> Boundary" where
  "boundary r order =
     \<lparr>bd_Values = map (\<lambda>s. key r (sb_Field s)) (butlast order), bd_ID = rw_ID r, bd_RecordedAt = rw_RecordedAt r,
      bd_Sequence = rw_Sequence r\<rparr>"

section \<open>The index in memory\<close>

type_synonym count_key = "string \<times> time \<times> string \<times> string"

record Memory =
  mi_rows :: "string \<Rightarrow> (string \<times> Row) list"
  mi_counts :: "string \<Rightarrow> count_key \<Rightarrow> int"
  mi_Indexed :: int

definition NewIndex :: Memory where
  "NewIndex = \<lparr>mi_rows = (\<lambda>p. []), mi_counts = (\<lambda>p k. 0), mi_Indexed = 0\<rparr>"

definition count_key_of :: "FacetDelta \<Rightarrow> count_key" where
  "count_key_of d = (fd_TenantID d, fd_Hour d, fd_Field d, fd_Value d)"

definition total :: "FacetDelta list \<Rightarrow> count_key \<Rightarrow> int" where
  "total ds k = sum_list (map fd_Count (filter (\<lambda>d. count_key_of d = k) ds))"

definition Merge :: "FacetDelta list \<Rightarrow> FacetDelta list" where
  "Merge ds =
     map (\<lambda>(t, h, f, v). \<lparr>fd_TenantID = t, fd_Hour = h, fd_Field = f, fd_Value = v, fd_Count = total ds (t, h, f, v)\<rparr>)
       (sort (remdups (map count_key_of ds)))"

fun index_rows :: "Row list \<Rightarrow> (string \<times> Row) list \<Rightarrow> int \<Rightarrow> FacetDelta list \<Rightarrow> (string \<times> Row) list \<times> int \<times> FacetDelta list" where
  "index_rows [] rows n ds = (rows, n, ds)"
| "index_rows (r # rs) rows n ds =
     (if map_of rows (rw_ID r) \<noteq> None then index_rows rs rows n ds
      else index_rows rs ((rw_ID r, r) # rows) (n + 1) (ds @ Row_Facets r))"

fun add_counts :: "FacetDelta list \<Rightarrow> (count_key \<Rightarrow> int) \<Rightarrow> (count_key \<Rightarrow> int)" where
  "add_counts [] c = c"
| "add_counts (d # ds) c = add_counts ds (c(count_key_of d := c (count_key_of d) + fd_Count d))"

definition Index :: "Memory \<Rightarrow> string \<Rightarrow> Row list \<Rightarrow> Memory" where
  "Index m profile rows =
     (let (rs, n, ds) = index_rows rows (mi_rows m profile) (mi_Indexed m) []
      in m\<lparr>mi_rows := (mi_rows m)(profile := rs), mi_Indexed := n,
           mi_counts := (mi_counts m)(profile := add_counts (Merge ds) (mi_counts m profile))\<rparr>)"

datatype Scope = Identifying | Everything

definition forget_identity :: "Row \<Rightarrow> Row" where
  "forget_identity r = r\<lparr>rw_ActorID := [], rw_SubjectID := [], rw_ClientAddress := [], rw_RequestID := [], rw_TraceID := []\<rparr>"

definition Index_Purge :: "Memory \<Rightarrow> string \<Rightarrow> time \<Rightarrow> Scope \<Rightarrow> Memory" where
  "Index_Purge m profile before what =
     m\<lparr>mi_rows := (mi_rows m)(profile :=
        (case what of
           Everything \<Rightarrow> filter (\<lambda>(ident, r). \<not> rw_RecordedAt r < before) (mi_rows m profile)
         | Identifying \<Rightarrow>
             map (\<lambda>(ident, r). (ident, if rw_RecordedAt r < before then forget_identity r else r)) (mi_rows m profile)))\<rparr>"

definition Index_Row :: "Memory \<Rightarrow> string \<Rightarrow> string \<Rightarrow> Row option" where
  "Index_Row m profile ident = map_of (mi_rows m profile) ident"

definition Rows :: "Memory \<Rightarrow> string \<Rightarrow> Row list" where
  "Rows m profile = sort_key (\<lambda>r. (rw_RecordedAt r, rw_Sequence r, rw_ID r)) (map snd (mi_rows m profile))"

definition Count :: "Memory \<Rightarrow> string \<Rightarrow> string \<Rightarrow> string \<Rightarrow> string \<Rightarrow> time \<Rightarrow> int" where
  "Count m profile tenant field value hour = mi_counts m profile (tenant, Truncate_hour hour, field, value)"

definition Len :: "Memory \<Rightarrow> string \<Rightarrow> nat" where
  "Len m profile = length (mi_rows m profile)"

section \<open>Searching\<close>

datatype search_error = NamesNoProfile | TooManyConjunctions nat nat | BoundaryShort | NotHeld string string

definition MaxConjunctions :: nat where "MaxConjunctions = 4"

definition page_limit :: "int \<Rightarrow> nat" where
  "page_limit limit = (if limit \<le> 0 then 100 else if 1000 < limit then 1000 else nat limit)"

definition matching :: "Memory \<Rightarrow> Query \<Rightarrow> Row list" where
  "matching m q = filter (\<lambda>r. granted r (q_Tenants q) \<and> Matches r (q_Filter q)) (Rows m (q_Profile q))"

definition Search :: "Memory \<Rightarrow> Query \<Rightarrow> search_error + Page" where
  "Search m q =
     (if q_Profile q = [] then Inl NamesNoProfile
      else if MaxConjunctions < length (q_Filter q) then Inl (TooManyConjunctions (length (q_Filter q)) MaxConjunctions)
      else
        let limit = page_limit (q_Limit q);
            order = searchOrder (q_Sort q);
            ranked = sortRows (matching m q) order
        in case (case q_After q of
                   None \<Rightarrow> Some ranked
                 | Some b \<Rightarrow> after ranked order (bd_Values b @ [bd_ID b]) (q_Backwards q)) of
             None \<Rightarrow> Inl BoundaryShort
           | Some matched \<Rightarrow>
               (let turned = (if q_Backwards q then rev matched else matched);
                    further = limit < length turned;
                    cut = take limit turned;
                    rows = (if q_Backwards q then rev cut else cut)
                in Inr (if rows \<noteq> [] then
                          \<lparr>pg_Rows = rows, pg_More = further, pg_Next = Some (boundary (last rows) order), pg_Prev = Some (boundary (hd rows) order)\<rparr>
                        else \<lparr>pg_Rows = rows, pg_More = further, pg_Next = q_After q, pg_Prev = None\<rparr>)))"

record FacetValue =
  fv_Value :: string
  fv_Count :: int

definition value_count :: "Memory \<Rightarrow> Query \<Rightarrow> string \<Rightarrow> string \<Rightarrow> int" where
  "value_count m q field value =
     int (length (filter (\<lambda>r. \<exists>d \<in> set (Row_Facets r). fd_Field d = field \<and> fd_Value d = value) (matching m q)))"

definition facet_values :: "Memory \<Rightarrow> Query \<Rightarrow> string \<Rightarrow> FacetValue list" where
  "facet_values m q field =
     map (\<lambda>value. \<lparr>fv_Value = value, fv_Count = value_count m q field value\<rparr>)
       (sort_key (\<lambda>value. (- value_count m q field value, value))
         (remdups (map fd_Value (filter (\<lambda>d. fd_Field d = field) (concat (map Row_Facets (matching m q)))))))"

definition Search_Facets :: "Memory \<Rightarrow> Query \<Rightarrow> string list \<Rightarrow> int \<Rightarrow> (string \<times> FacetValue list) list" where
  "Search_Facets m q names limit =
     map (\<lambda>field. (field, take (nat (if limit \<le> 0 then 20 else limit)) (facet_values m q field))) names"

definition Search_Get :: "Memory \<Rightarrow> string \<Rightarrow> string \<Rightarrow> search_error + Row" where
  "Search_Get m profile ident = (case Index_Row m profile ident of None \<Rightarrow> Inl (NotHeld ident profile) | Some r \<Rightarrow> Inr r)"

end
