(* ===== verification/Paging.thy ===== *)
theory Paging
  imports Search
begin

text \<open>
  What the pages of \<open>index/memsearch.go\<close> hold: the rows that match, in the order asked for, from the boundary on.
\<close>

section \<open>The ordering is total\<close>

lemma row_less_irrefl: "\<not> row_less order a a"
  by (induction order) (simp_all add: Let_def)

lemma row_less_trans: "row_less order a b \<Longrightarrow> row_less order b c \<Longrightarrow> row_less order a c"
  by (induction order) (auto simp: Let_def split: if_splits)

lemma key_id: "key r SortID = rw_ID r"
  by (simp add: key_def SortID_def SortOccurredAt_def SortRecordedAt_def SortAction_def SortTenantID_def SortSource_def)

lemma row_less_total:
  assumes "SortID \<in> sb_Field ` set order" "rw_ID a \<noteq> rw_ID b"
  shows "row_less order a b \<or> row_less order b a"
  using assms
proof (induction order)
  case (Cons s ss)
  show ?case
  proof (cases "key a (sb_Field s) = key b (sb_Field s)")
    case True
    then have "sb_Field s \<noteq> SortID" using Cons.prems(2) key_id by metis
    then show ?thesis using Cons True by (auto simp: Let_def)
  qed (auto simp: Let_def)
qed simp

lemma searchOrder_id: "SortID \<in> sb_Field ` set (searchOrder asked)"
  by (auto simp: searchOrder_def Let_def)

lemma sort_terms_fields: "sb_Field ` set (sort_terms seen ss) \<subseteq> sb_Field ` set ss"
  by (induction seen ss rule: sort_terms.induct) auto

lemma searchOrder_last:
  assumes "SortID \<notin> sb_Field ` set asked"
  shows "sb_Field (last (searchOrder asked)) = SortID" "searchOrder asked \<noteq> []"
  using assms sort_terms_fields [of "[]" asked] by (auto simp: searchOrder_def Let_def)

lemma set_insort_by [simp]: "set (insort_by lt x ys) = insert x (set ys)"
  by (induction ys) auto

lemma sortRows_set [simp]: "set (sortRows rows order) = set rows"
  by (induction rows) (simp_all add: sortRows_def)

lemma length_insort_by [simp]: "length (insort_by lt x ys) = Suc (length ys)"
  by (induction ys) auto

lemma sortRows_length [simp]: "length (sortRows rows order) = length rows"
  by (induction rows) (simp_all add: sortRows_def)

lemma sorted_insort_by:
  assumes "sorted_wrt (row_less order) ys" "\<forall>y \<in> set ys. row_less order x y \<or> row_less order y x"
  shows "sorted_wrt (row_less order) (insort_by (row_less order) x ys)"
  using assms
proof (induction ys)
  case (Cons y ys)
  have ys: "sorted_wrt (row_less order) ys" "\<forall>z \<in> set ys. row_less order y z" using Cons.prems(1) by simp_all
  show ?case
  proof (cases "row_less order y x")
    case True
    then show ?thesis using Cons.IH [OF ys(1)] Cons.prems(2) ys(2) by simp
  next
    case False
    then have "row_less order x y" using Cons.prems(2) by simp
    moreover have "\<forall>z \<in> set ys. row_less order x z" using row_less_trans [OF calculation] ys(2) by blast
    ultimately show ?thesis using False ys by simp
  qed
qed simp

lemma sortRows_sorted:
  assumes "distinct (map rw_ID rows)" "SortID \<in> sb_Field ` set order"
  shows "sorted_wrt (row_less order) (sortRows rows order)"
  using assms(1)
proof (induction rows)
  case (Cons r rows)
  have "\<forall>y \<in> set (sortRows rows order). row_less order r y \<or> row_less order y r"
    using Cons.prems row_less_total [OF assms(2)] by (auto simp: image_iff)
  then show ?case using sorted_insort_by [of order "sortRows rows order" r] Cons by (simp add: sortRows_def)
qed (simp add: sortRows_def)

section \<open>Boundaries\<close>

lemma beyond_row:
  "beyond order (map (\<lambda>s. key b (sb_Field s)) order) backwards r
     = Some (if backwards then row_less order r b else row_less order b r)"
  by (induction order) (auto simp: Let_def)

lemma boundary_values:
  assumes "order \<noteq> []" "sb_Field (last order) = SortID"
  shows "bd_Values (boundary b order) @ [bd_ID (boundary b order)] = map (\<lambda>s. key b (sb_Field s)) order"
proof -
  have "map (\<lambda>s. key b (sb_Field s)) order = map (\<lambda>s. key b (sb_Field s)) (butlast order @ [last order])" using assms(1) by simp
  then show ?thesis using assms(2) key_id by (simp add: boundary_def)
qed

lemma after_filter:
  assumes "\<And>r. beyond order want backwards r = Some (P r)"
  shows "after rows order want backwards = Some (filter P rows)"
  by (induction rows) (simp_all add: assms split: bool.splits)

lemma filter_after:
  assumes "sorted_wrt (row_less order) L" "i < length L"
  shows "filter (row_less order (L ! i)) L = drop (Suc i) L" "filter (\<lambda>r. row_less order r (L ! i)) L = take i L"
proof -
  have L: "L = take i L @ (L ! i) # drop (Suc i) L" using assms(2) by (simp add: id_take_nth_drop)
  have s: "sorted_wrt (row_less order) (take i L @ (L ! i) # drop (Suc i) L)" using assms(1) L by simp
  have lt: "\<forall>r \<in> set (take i L). row_less order r (L ! i)" and gt: "\<forall>r \<in> set (drop (Suc i) L). row_less order (L ! i) r"
    using s by (auto simp: sorted_wrt_append)
  have nlt: "\<not> row_less order (L ! i) r" if "row_less order r (L ! i)" for r using that row_less_trans row_less_irrefl by blast
  have a: "filter (row_less order (L ! i)) (take i L) = []" "filter (row_less order (L ! i)) (drop (Suc i) L) = drop (Suc i) L"
    "filter (\<lambda>r. row_less order r (L ! i)) (take i L) = take i L" "filter (\<lambda>r. row_less order r (L ! i)) (drop (Suc i) L) = []"
    using lt gt nlt by (auto simp: filter_empty_conv filter_id_conv)
  show "filter (row_less order (L ! i)) L = drop (Suc i) L" by (subst L) (simp add: a row_less_irrefl)
  show "filter (\<lambda>r. row_less order r (L ! i)) L = take i L" by (subst L) (simp add: a row_less_irrefl)
qed

section \<open>Pages\<close>

text \<open>Every row is kept under its identifier, once.\<close>

definition index_ok :: "Memory \<Rightarrow> bool" where
  "index_ok m \<longleftrightarrow> (\<forall>p. distinct (map fst (mi_rows m p)) \<and> (\<forall>(ident, r) \<in> set (mi_rows m p). rw_ID r = ident))"

lemma Rows_distinct:
  assumes "index_ok m"
  shows "distinct (map rw_ID (Rows m profile))"
proof -
  have "map (rw_ID \<circ> snd) (mi_rows m profile) = map fst (mi_rows m profile)"
    using assms unfolding index_ok_def by (fastforce intro!: map_cong)
  then have "distinct (map rw_ID (map snd (mi_rows m profile)))" using assms unfolding index_ok_def map_map by metis
  then have "distinct (map snd (mi_rows m profile)) \<and> inj_on rw_ID (set (map snd (mi_rows m profile)))"
    unfolding distinct_map [of rw_ID] .
  then show ?thesis unfolding Rows_def distinct_map [of rw_ID] by simp
qed

definition ranked :: "Memory \<Rightarrow> Query \<Rightarrow> Row list" where
  "ranked m q = sortRows (matching m q) (searchOrder (q_Sort q))"

lemma ranked_sorted:
  assumes "index_ok m"
  shows "sorted_wrt (row_less (searchOrder (q_Sort q))) (ranked m q)"
proof -
  have "distinct (map rw_ID (matching m q))" using Rows_distinct [OF assms] by (auto simp: matching_def intro: distinct_map_filter)
  then show ?thesis unfolding ranked_def by (rule sortRows_sorted [OF _ searchOrder_id])
qed

lemma ranked_set: "set (ranked m q) = {r \<in> set (Rows m (q_Profile q)). granted r (q_Tenants q) \<and> Matches r (q_Filter q)}"
  by (auto simp: ranked_def matching_def)

lemma distinct_insort_by: "distinct (map f (insort_by lt x ys)) = distinct (map f (x # ys))"
  by (induction ys) auto

lemma ranked_distinct: "index_ok m \<Longrightarrow> distinct (map rw_ID (ranked m q))"
proof -
  have "distinct (map f (sortRows rows order)) = distinct (map f rows)" for f :: "Row \<Rightarrow> string" and rows order
    unfolding sortRows_def by (induction rows) (simp_all add: distinct_insort_by, metis list.set_map sortRows_def sortRows_set)
  moreover assume "index_ok m"
  ultimately show ?thesis using Rows_distinct by (auto simp: ranked_def matching_def intro: distinct_map_filter)
qed

lemma page_limit_pos: "0 < page_limit l"
  by (simp add: page_limit_def)

definition page_of_rows :: "Row list \<Rightarrow> bool \<Rightarrow> Boundary option \<Rightarrow> SortBy list \<Rightarrow> Page" where
  "page_of_rows rows further given order =
     (if rows \<noteq> [] then
        \<lparr>pg_Rows = rows, pg_More = further, pg_Next = Some (boundary (last rows) order), pg_Prev = Some (boundary (hd rows) order)\<rparr>
      else \<lparr>pg_Rows = rows, pg_More = further, pg_Next = given, pg_Prev = None\<rparr>)"

lemma Search_first:
  assumes "q_Profile q \<noteq> []" "length (q_Filter q) \<le> MaxConjunctions" "q_After q = None" "\<not> q_Backwards q"
  shows "Search m q = Inr (page_of_rows (take (page_limit (q_Limit q)) (ranked m q))
    (page_limit (q_Limit q) < length (ranked m q)) None (searchOrder (q_Sort q)))"
  using assms by (simp add: Search_def Let_def ranked_def page_of_rows_def)

lemma Search_after:
  assumes "index_ok m" "q_Profile q \<noteq> []" "length (q_Filter q) \<le> MaxConjunctions" "SortID \<notin> sb_Field ` set (q_Sort q)"
    and "i < length (ranked m q)" "b = boundary (ranked m q ! i) (searchOrder (q_Sort q))" "q_After q = Some b" "\<not> q_Backwards q"
  shows "Search m q = Inr (page_of_rows (take (page_limit (q_Limit q)) (drop (Suc i) (ranked m q)))
    (page_limit (q_Limit q) < length (drop (Suc i) (ranked m q))) (Some b) (searchOrder (q_Sort q)))"
proof -
  let ?o = "searchOrder (q_Sort q)" and ?b = "ranked m q ! i"
  have want: "bd_Values b @ [bd_ID b] = map (\<lambda>s. key ?b (sb_Field s)) ?o"
    using boundary_values searchOrder_last [OF assms(4)] assms(6) by blast
  have "after (ranked m q) ?o (bd_Values b @ [bd_ID b]) False = Some (filter (row_less ?o ?b) (ranked m q))"
    unfolding want by (rule after_filter) (simp add: beyond_row)
  also have "filter (row_less ?o ?b) (ranked m q) = drop (Suc i) (ranked m q)" by (rule filter_after(1) [OF ranked_sorted [OF assms(1)] assms(5)])
  finally show ?thesis using assms(2,3,7,8) by (simp add: Search_def Let_def ranked_def page_of_rows_def)
qed

lemma Search_before:
  assumes "index_ok m" "q_Profile q \<noteq> []" "length (q_Filter q) \<le> MaxConjunctions" "SortID \<notin> sb_Field ` set (q_Sort q)"
    and "i < length (ranked m q)" "b = boundary (ranked m q ! i) (searchOrder (q_Sort q))" "q_After q = Some b" "q_Backwards q"
  shows "Search m q = Inr (page_of_rows (drop (i - page_limit (q_Limit q)) (take i (ranked m q)))
    (page_limit (q_Limit q) < i) (Some b) (searchOrder (q_Sort q)))"
proof -
  let ?o = "searchOrder (q_Sort q)" and ?b = "ranked m q ! i" and ?l = "page_limit (q_Limit q)"
  have want: "bd_Values b @ [bd_ID b] = map (\<lambda>s. key ?b (sb_Field s)) ?o"
    using boundary_values searchOrder_last [OF assms(4)] assms(6) by blast
  have "after (ranked m q) ?o (bd_Values b @ [bd_ID b]) True = Some (filter (\<lambda>r. row_less ?o r ?b) (ranked m q))"
    unfolding want by (rule after_filter) (simp add: beyond_row)
  also have "filter (\<lambda>r. row_less ?o r ?b) (ranked m q) = take i (ranked m q)" by (rule filter_after(2) [OF ranked_sorted [OF assms(1)] assms(5)])
  finally have a: "after (ranked m q) ?o (bd_Values b @ [bd_ID b]) True = Some (take i (ranked m q))" .
  have "rev (take ?l (rev (take i (ranked m q)))) = drop (i - ?l) (take i (ranked m q))"
    using assms(5) by (simp add: take_rev)
  then show ?thesis using a assms(2,3,5,7,8) by (auto simp: Search_def Let_def ranked_def [symmetric] page_of_rows_def)
qed

section \<open>Reading on\<close>

text \<open>
  \<open>collect\<close> of \<open>internal/query/export.go\<close>: the loop that reads every page, until the last or until there are more rows
  than may be exported.
\<close>

partial_function (option) collect_pages :: "Memory \<Rightarrow> nat \<Rightarrow> Query \<Rightarrow> Row list \<Rightarrow> (search_error + Row list) option" where
  "collect_pages m most q out =
     (case Search m q of
        Inl e \<Rightarrow> Some (Inl e)
      | Inr page \<Rightarrow>
          if \<not> pg_More page \<or> pg_Next page = None \<or> most < length (out @ pg_Rows page) then Some (Inr (out @ pg_Rows page))
          else collect_pages m most (q\<lparr>q_After := pg_Next page\<rparr>) (out @ pg_Rows page))"

lemma collect_pages_step:
  assumes "Search m q = Inr (page_of_rows rows further given order)" "rows \<noteq> []"
  shows "collect_pages m most q out = (if \<not> further \<or> most < length (out @ rows) then Some (Inr (out @ rows))
    else collect_pages m most (q\<lparr>q_After := Some (boundary (last rows) order)\<rparr>) (out @ rows))"
  using assms by (subst collect_pages.simps) (simp add: page_of_rows_def)

lemma ranked_after [simp]: "ranked m (q\<lparr>q_After := a\<rparr>) = ranked m q"
  by (simp add: ranked_def matching_def)

text \<open>A query that goes on after a number of rows, and its page.\<close>

definition goes_on :: "Memory \<Rightarrow> Query \<Rightarrow> nat \<Rightarrow> bool" where
  "goes_on m q j \<longleftrightarrow> \<not> q_Backwards q \<and> j \<le> length (ranked m q)
     \<and> q_After q = (if j = 0 then None else Some (boundary (ranked m q ! (j - 1)) (searchOrder (q_Sort q))))"

definition well_asked :: "Query \<Rightarrow> bool" where
  "well_asked q \<longleftrightarrow> q_Profile q \<noteq> [] \<and> length (q_Filter q) \<le> MaxConjunctions \<and> SortID \<notin> sb_Field ` set (q_Sort q)"

lemma Search_goes_on:
  assumes "index_ok m" "well_asked q" "goes_on m q j"
  shows "Search m q = Inr (page_of_rows (take (page_limit (q_Limit q)) (drop j (ranked m q)))
    (page_limit (q_Limit q) < length (drop j (ranked m q))) (q_After q) (searchOrder (q_Sort q)))"
proof (cases j)
  case 0
  then show ?thesis using Search_first [of q m] assms(2,3) by (simp add: goes_on_def well_asked_def)
next
  case (Suc i)
  then show ?thesis using Search_after [OF assms(1), of q i, OF _ _ _ _ refl] assms(2,3) by (simp add: goes_on_def well_asked_def)
qed

text \<open>Reading on ends; what was read is every row, in order, or more than may be read.\<close>

lemma collect_pages_reads:
  assumes "index_ok m" "well_asked q" "goes_on m q j"
  shows "\<exists>n \<le> length (ranked m q). collect_pages m most q (take j (ranked m q)) = Some (Inr (take n (ranked m q)))
    \<and> (n = length (ranked m q) \<or> most < n)"
  using assms(2,3)
proof (induction "length (ranked m q) - j" arbitrary: j q rule: less_induct)
  case less
  let ?R = "ranked m q" and ?l = "page_limit (q_Limit q)" and ?o = "searchOrder (q_Sort q)"
  note page = Search_goes_on [OF assms(1) less.prems]
  have j: "j \<le> length ?R" using less.prems(2) by (simp add: goes_on_def)
  show ?case
  proof (cases "j = length ?R")
    case True
    then have "collect_pages m most q (take j ?R) = Some (Inr ?R)"
      using page by (subst collect_pages.simps) (simp add: page_of_rows_def)
    then show ?thesis by (intro exI [of _ "length ?R"]) simp
  next
    case False
    let ?rows = "take ?l (drop j ?R)" and ?n = "min (j + ?l) (length ?R)"
    have ne: "?rows \<noteq> []" using False j page_limit_pos [of "q_Limit q"] by auto
    have out: "take j ?R @ ?rows = take ?n ?R" by (simp add: take_add [symmetric] min_def)
    have len: "length (take ?n ?R) = ?n" by simp
    have step: "collect_pages m most q (take j ?R) = (if \<not> ?l < length (drop j ?R) \<or> most < ?n then Some (Inr (take ?n ?R))
        else collect_pages m most (q\<lparr>q_After := Some (boundary (last ?rows) ?o)\<rparr>) (take ?n ?R))"
      using collect_pages_step [OF page ne, of most "take j ?R"] unfolding out len .
    show ?thesis
    proof (cases "\<not> ?l < length (drop j ?R) \<or> most < ?n")
      case True
      then show ?thesis using step by (intro exI [of _ ?n]) auto
    next
      case more: False
      then have n: "?n = j + ?l" "j + ?l < length ?R" by auto
      have "last ?rows = ?R ! (j + ?l - 1)"
        using n(2) page_limit_pos [of "q_Limit q"] by (simp add: last_conv_nth)
      then have "goes_on m (q\<lparr>q_After := Some (boundary (last ?rows) ?o)\<rparr>) (j + ?l)"
        using n(2) less.prems(2) page_limit_pos [of "q_Limit q"] by (simp add: goes_on_def)
      then show ?thesis using less.hyps [of "q\<lparr>q_After := Some (boundary (last ?rows) ?o)\<rparr>" "j + ?l"] less.prems(1) step more n
          page_limit_pos [of "q_Limit q"] by (simp add: well_asked_def)
    qed
  qed
qed

section \<open>Properties\<close>


definition example_row :: "string \<Rightarrow> string \<Rightarrow> time \<Rightarrow> Row" where
  "example_row ident tenant tm = RowOf (empty_record\<lparr>r_Id := ident, r_TenantId := tenant, r_Action := ''user.created'', r_OccurredAt := Some tm\<rparr>)
     [] 0 \<lparr>fl_Filter = [], fl_Facet = []\<rparr>"

definition example_index :: Memory where
  "example_index = Index NewIndex ''security'' [example_row ''1'' ''acme'' 0, example_row ''2'' ''acme'' 0]"

definition example_query :: Query where
  "example_query = \<lparr>q_Profile = ''security'', q_Tenants = [''acme''], q_Filter = [], q_Sort = [], q_Limit = 1, q_After = None, q_Backwards = False\<rparr>"

lemma example_index_rows: "mi_rows example_index ''security'' = [(''2'', example_row ''2'' ''acme'' 0), (''1'', example_row ''1'' ''acme'' 0)]"
  by (simp add: example_index_def Index_def NewIndex_def example_row_def RowOf_def)

lemma example_index_ok: "index_ok example_index"
  by (auto simp: index_ok_def example_index_def Index_def NewIndex_def example_row_def RowOf_def)


definition repeating_query :: Query where
  "repeating_query = example_query\<lparr>q_Sort := [\<lparr>sb_Field = SortID, sb_Descending = False\<rparr>, \<lparr>sb_Field = SortAction, sb_Descending = False\<rparr>]\<rparr>"

text \<open>
  Where the identifier is asked for before another term, the last value of a boundary is the identifier and is
  compared with the other term: the page after the first row is the first row again, for ever.
\<close>

theorem page_repeats:
  "\<exists>page. Search example_index repeating_query = Inr page \<and> pg_More page \<and> pg_Rows page = [example_row ''1'' ''acme'' 0]
     \<and> Search example_index (repeating_query\<lparr>q_After := pg_Next page\<rparr>) = Inr page"
proof -
  let ?o = "searchOrder (q_Sort repeating_query)" and ?a = "example_row ''1'' ''acme'' 0" and ?b = "example_row ''2'' ''acme'' 0"
  have o: "?o = [\<lparr>sb_Field = SortID, sb_Descending = False\<rparr>, \<lparr>sb_Field = SortAction, sb_Descending = False\<rparr>]"
    by (simp add: repeating_query_def searchOrder_def Let_def SortID_def SortAction_def)
  have keys: "key ?a SortID = ''1''" "key ?b SortID = ''2''" "key ?a SortAction = ''user.created''" "key ?b SortAction = ''user.created''"
    by (simp_all add: key_def example_row_def RowOf_def SortID_def SortOccurredAt_def SortRecordedAt_def SortAction_def SortTenantID_def
        SortSource_def)
  have rows: "Rows example_index ''security'' = [?a, ?b]"
    by (simp add: Rows_def example_index_rows example_row_def RowOf_def AsTime_def)
  have m: "matching example_index q = [?a, ?b]" if "q_Profile q = ''security''" "q_Tenants q = [''acme'']" "q_Filter q = []" for q
    by (simp add: matching_def rows that granted_def Matches_def) (simp add: example_row_def RowOf_def)
  have sorted: "sortRows [?a, ?b] ?o = [?a, ?b]" by (simp add: sortRows_def o keys)
  have b: "boundary ?a ?o = \<lparr>bd_Values = [''1''], bd_ID = ''1'', bd_RecordedAt = 0, bd_Sequence = 0\<rparr>"
    by (simp add: boundary_def o keys) (simp add: example_row_def RowOf_def AsTime_def empty_record_def)
  define page where "page = page_of_rows [?a] True None ?o"
  have "Search example_index repeating_query = Inr page"
    using m [of repeating_query] sorted
    by (simp add: Search_def Let_def repeating_query_def example_query_def page_def page_of_rows_def page_limit_def MaxConjunctions_def)
  moreover have "after [?a, ?b] ?o [''1'', ''1''] False = Some [?a, ?b]" by (simp add: o keys)
  then have "Search example_index (repeating_query\<lparr>q_After := pg_Next page\<rparr>) = Inr page"
    using m [of "repeating_query\<lparr>q_After := pg_Next page\<rparr>"] sorted b
    by (simp add: Search_def Let_def repeating_query_def example_query_def page_def page_of_rows_def page_limit_def MaxConjunctions_def)
  ultimately show ?thesis by (auto simp: page_def page_of_rows_def)
qed

end
