(* ===== verification/Counts.thy ===== *)
theory Counts
  imports Paging
begin

text \<open>
  The counts of \<open>index/memory.go\<close>: what the deliveries of rows leave in the table of counts.
\<close>

lemma total_append: "total (xs @ ys) k = total xs k + total ys k"
  by (simp add: total_def)

lemma add_counts_apply: "add_counts ds c k = c k + total ds k"
  by (induction ds arbitrary: c) (auto simp: total_def)

lemma total_Merge: "total (Merge ds) k = total ds k"
proof -
  let ?f = "\<lambda>(t, h, f, v). \<lparr>fd_TenantID = t, fd_Hour = h, fd_Field = f, fd_Value = v, fd_Count = total ds (t, h, f, v)\<rparr>"
  have key: "count_key_of (?f k) = k" "fd_Count (?f k) = total ds k" for k by (cases k; simp add: count_key_of_def)+
  have "filter (\<lambda>d. count_key_of d = k) (map ?f ks) = map ?f (filter (\<lambda>j. j = k) ks)" for ks
    by (simp add: filter_map comp_def key)
  then have "total (Merge ds) k = sum_list (map (total ds) (filter (\<lambda>j. j = k) (sort (remdups (map count_key_of ds)))))"
    by (simp add: Merge_def total_def [of "map _ _"] comp_def key del: filter_sort)
  also have "\<dots> = total ds k"
  proof (cases "k \<in> count_key_of ` set ds")
    case True
    have "distinct ks \<Longrightarrow> k \<in> set ks \<Longrightarrow> filter (\<lambda>j. j = k) ks = [k]" for ks
      by (induction ks) (auto simp: filter_empty_conv)
    then have "filter (\<lambda>j. j = k) (sort (remdups (map count_key_of ds))) = [k]" using True by simp
    then show ?thesis by simp
  next
    case False
    then have "filter (\<lambda>j. j = k) (sort (remdups (map count_key_of ds))) = []" "filter (\<lambda>d. count_key_of d = k) ds = []"
      by (auto simp: filter_empty_conv)
    then show ?thesis by (simp add: total_def)
  qed
  finally show ?thesis .
qed

definition rows_total :: "(string \<times> Row) list \<Rightarrow> count_key \<Rightarrow> int" where
  "rows_total rows k = sum_list (map (\<lambda>(ident, r). total (Row_Facets r) k) rows)"

definition first_of :: "Row list \<Rightarrow> string \<Rightarrow> Row option" where
  "first_of rs ident = List.find (\<lambda>r. rw_ID r = ident) rs"

lemma index_rows_result:
  assumes "index_rows rs rows n ds = (rows', n', ds')"
    "distinct (map fst rows)" "\<forall>(ident, r) \<in> set rows. rw_ID r = ident"
  shows "distinct (map fst rows') \<and> (\<forall>(ident, r) \<in> set rows'. rw_ID r = ident)
    \<and> rows_total rows' k = rows_total rows k + total ds' k - total ds k
    \<and> map_of rows' ident = (case map_of rows ident of Some r \<Rightarrow> Some r | None \<Rightarrow> first_of rs ident)"
  using assms
proof (induction rs rows n ds rule: index_rows.induct)
  case (1 rows n ds)
  then show ?case by (simp add: first_of_def split: option.split)
next
  case (2 r rs rows n ds)
  show ?case
  proof (cases "map_of rows (rw_ID r)")
    case None
    then have rec: "index_rows rs ((rw_ID r, r) # rows) (n + 1) (ds @ Row_Facets r) = (rows', n', ds')" using "2.prems"(1) by simp
    have pre: "distinct (map fst ((rw_ID r, r) # rows))" "\<forall>(ident, q) \<in> set ((rw_ID r, r) # rows). rw_ID q = ident"
      using "2.prems"(2,3) None by (auto simp: map_of_eq_None_iff)
    have ih: "distinct (map fst rows') \<and> (\<forall>(ident, r) \<in> set rows'. rw_ID r = ident)
        \<and> rows_total rows' k = rows_total ((rw_ID r, r) # rows) k + total ds' k - total (ds @ Row_Facets r) k
        \<and> map_of rows' ident = (case map_of ((rw_ID r, r) # rows) ident of Some r \<Rightarrow> Some r | None \<Rightarrow> first_of rs ident)"
      using "2.IH"(2) [OF _ rec pre] None by simp
    show ?thesis
    proof (cases "rw_ID r = ident")
      case True
      then show ?thesis using ih None by (simp add: rows_total_def total_append first_of_def)
    next
      case False
      then have "first_of (r # rs) ident = first_of rs ident" by (simp add: first_of_def)
      then show ?thesis using ih False by (simp add: rows_total_def total_append split: option.split)
    qed
  next
    case (Some q)
    then have rec: "index_rows rs rows n ds = (rows', n', ds')" using "2.prems"(1) by simp
    have ih: "distinct (map fst rows') \<and> (\<forall>(ident, r) \<in> set rows'. rw_ID r = ident)
        \<and> rows_total rows' k = rows_total rows k + total ds' k - total ds k
        \<and> map_of rows' ident = (case map_of rows ident of Some r \<Rightarrow> Some r | None \<Rightarrow> first_of rs ident)"
      using "2.IH"(1) [OF _ rec "2.prems"(2,3)] Some by simp
    show ?thesis
    proof (cases "rw_ID r = ident")
      case True
      then show ?thesis using ih Some by simp
    next
      case False
      then have "first_of (r # rs) ident = first_of rs ident" by (simp add: first_of_def)
      then show ?thesis using ih by (simp split: option.split)
    qed
  qed
qed

section \<open>Deliveries\<close>

definition deliver :: "(string \<times> Row list) list \<Rightarrow> Memory" where
  "deliver log = foldl (\<lambda>m (profile, rows). Index m profile rows) NewIndex log"

definition delivered :: "(string \<times> Row list) list \<Rightarrow> string \<Rightarrow> Row list" where
  "delivered log profile = concat (map snd (filter (\<lambda>(p, rows). p = profile) log))"

lemma first_of_append: "first_of (xs @ ys) ident = (case first_of xs ident of Some r \<Rightarrow> Some r | None \<Rightarrow> first_of ys ident)"
  by (induction xs) (simp_all add: first_of_def)

lemma deliver_result:
  "distinct (map fst (mi_rows (deliver log) p)) \<and> (\<forall>(ident, r) \<in> set (mi_rows (deliver log) p). rw_ID r = ident)
   \<and> mi_counts (deliver log) p k = rows_total (mi_rows (deliver log) p) k
   \<and> map_of (mi_rows (deliver log) p) ident = first_of (delivered log p) ident"
proof (induction log arbitrary: k ident rule: rev_induct)
  case Nil
  then show ?case by (simp add: deliver_def NewIndex_def delivered_def first_of_def rows_total_def)
next
  case (snoc x log)
  obtain profile rows where x: "x = (profile, rows)" by fastforce
  let ?m = "deliver log"
  have d: "deliver (log @ [x]) = Index ?m profile rows" by (simp add: deliver_def x)
  show ?case
  proof (cases "p = profile")
    case False
    have same: "mi_rows (Index ?m profile rows) p = mi_rows ?m p" "mi_counts (Index ?m profile rows) p = mi_counts ?m p"
      using False by (simp_all add: Index_def split: prod.split)
    have "delivered (log @ [x]) p = delivered log p" using False by (simp add: delivered_def x)
    then show ?thesis using snoc.IH [of k ident] unfolding d same by simp
  next
    case True
    obtain rs n ds where i: "index_rows rows (mi_rows ?m p) (mi_Indexed ?m) [] = (rs, n, ds)" by (metis prod_cases3)
    then have new: "mi_rows (Index ?m profile rows) p = rs" "mi_counts (Index ?m profile rows) p = add_counts (Merge ds) (mi_counts ?m p)"
      using True by (simp_all add: Index_def)
    have r: "distinct (map fst rs) \<and> (\<forall>(ident, r) \<in> set rs. rw_ID r = ident) \<and> rows_total rs k = rows_total (mi_rows ?m p) k + total ds k - total [] k
        \<and> map_of rs ident = (case map_of (mi_rows ?m p) ident of Some r \<Rightarrow> Some r | None \<Rightarrow> first_of rows ident)" for k ident
      using index_rows_result [OF i] snoc.IH by blast
    have "delivered (log @ [x]) p = delivered log p @ rows" using True by (simp add: delivered_def x)
    then show ?thesis using r [of k ident] snoc.IH [of k ident]
      by (simp add: d new add_counts_apply total_Merge first_of_append total_def [of "[]"])
  qed
qed

section \<open>Properties\<close>

text \<open>
  C34: After any sequence of deliveries of rows to an empty index, repeated ones among them, a profile holds for each
  identifier the row that was delivered first, once, and every count is the number of times the rows held carry
  the value: a row that is delivered again is not counted again.
\<close>

theorem counts_are_of_rows:
  shows "index_ok (deliver log) \<and> Index_Row (deliver log) profile ident = first_of (delivered log profile) ident
    \<and> Count (deliver log) profile tenant field value hour
        = rows_total (mi_rows (deliver log) profile) (tenant, Truncate_hour hour, field, value)"
  using deliver_result unfolding index_ok_def Index_Row_def Count_def by blast

text \<open>
  A purge of everything leaves the counts of the rows it removes, and a row that is delivered again after it is
  counted twice.
\<close>

theorem purge_keeps_counts:
  defines "m \<equiv> Index NewIndex ''security'' [example_row ''1'' ''acme'' 0]"
  shows "Len (Index_Purge m ''security'' 1 Everything) ''security'' = 0
    \<and> Count (Index_Purge m ''security'' 1 Everything) ''security'' ''acme'' ''action'' ''user.created'' 0 = 1
    \<and> Len (Index (Index_Purge m ''security'' 1 Everything) ''security'' [example_row ''1'' ''acme'' 0]) ''security'' = 1
    \<and> Count (Index (Index_Purge m ''security'' 1 Everything) ''security'' [example_row ''1'' ''acme'' 0])
        ''security'' ''acme'' ''action'' ''user.created'' 0 = 2"
  unfolding m_def by code_simp

text \<open>
  The rows are ordered by the text of their times, in which a fraction of a second is left out when it is
  zero: of two rows half a second apart, the later one comes first.
\<close>

theorem text_order_is_not_time_order:
  "rw_OccurredAt (example_row ''1'' ''acme'' 0) < rw_OccurredAt (example_row ''2'' ''acme'' 500000000)
   \<and> row_less [\<lparr>sb_Field = SortOccurredAt, sb_Descending = False\<rparr>] (example_row ''2'' ''acme'' 500000000) (example_row ''1'' ''acme'' 0)"
proof -
  have same: "FormatRFC3339 500000000 = FormatRFC3339 0"
    by (simp add: FormatRFC3339_def Year_def Month_def Day_def YearDay0_def Hour_def Minute_def Second_def day_number_def day_ns_def hour_ns_def
        second_ns_def)
  have digits: "digit 5 = CHR ''5''" "digit 0 = CHR ''0''" by code_simp+
  have frac: "rev (dropWhile (\<lambda>c. c = CHR ''0'') (rev (fmt_int 9 (500000000 mod second_ns)))) = ''5''"
    by (simp add: fmt_int_def second_ns_def zpad_def itoa.simps digits)
  have zero: "rev (dropWhile (\<lambda>c. c = CHR ''0'') (rev (fmt_int 9 (0 mod second_ns)))) = []"
    by (simp add: fmt_int_def zpad_def itoa.simps digits)
  have "FormatRFC3339Nano 500000000 = butlast (FormatRFC3339 0) @ ''.5Z''" "FormatRFC3339Nano 0 = butlast (FormatRFC3339 0) @ ''Z''"
    unfolding FormatRFC3339Nano_def Let_def frac zero same by simp_all
  moreover have "p @ ''.5Z'' < p @ ''Z''" for p :: string by (induction p) simp_all
  ultimately show ?thesis
    by (simp add: example_row_def RowOf_def AsTime_def key_def Let_def)
qed

end
