(* ===== verification/Timetext.thy ===== *)
theory Timetext
  imports Deadletter
begin

text \<open>
  A moment written under RFC 3339 with its nanoseconds is read back: the text \<open>encoding/json\<close> gives a time, and the
  text the index orders rows by. The layouts and their parser are those of \<open>Rfc3339\<close>.
\<close>

definition writable_time :: "time \<Rightarrow> bool" where
  "writable_time t \<longleftrightarrow> 0 \<le> Year t \<and> Year t \<le> 9999"

lemma zpad_2: "n < 100 \<Longrightarrow> zpad 2 n = [digit (n div 10), digit (n mod 10)]"
  by (auto simp: zpad_def itoa.simps [of n] itoa.simps [of "n div 10"] zero_digit numeral_2_eq_2)

lemma getnum_zpad: "n < 100 \<Longrightarrow> getnum fixed (zpad 2 n @ s) = Some (n, s)"
  by (simp add: zpad_2)

lemma read_year_zpad: "n < 10000 \<Longrightarrow> read_year (zpad 4 n @ s) = Some (n, s)"
  using read_digits_zpad [of n 4] length_zpad [of n 4] by (simp add: read_year_def)

text \<open>The fraction: nine digits without the zeros at their end.\<close>

definition fraction_digits :: "nat \<Rightarrow> string" where
  "fraction_digits ns = rev (dropWhile (\<lambda>c. c = CHR ''0'') (rev (zpad 9 ns)))"

lemma fraction_digits:
  assumes "ns < 1000000000"
  obtains k where "zpad 9 ns = fraction_digits ns @ replicate k CHR ''0''" "length (fraction_digits ns) + k = 9"
    "list_all is_digit (fraction_digits ns)" "numval 10 (map digit_val (fraction_digits ns)) * 10 ^ k = ns"
proof -
  let ?z = "zpad 9 ns" and ?P = "\<lambda>c. c = CHR ''0''"
  define k where "k = length (takeWhile ?P (rev ?z))"
  have "takeWhile ?P (rev ?z) = replicate k CHR ''0''"
    unfolding k_def by (rule replicate_eqI [symmetric, THEN sym]) (auto dest: set_takeWhileD)
  then have z: "?z = fraction_digits ns @ replicate k CHR ''0''"
    unfolding fraction_digits_def by (metis rev_append rev_replicate rev_rev_ident takeWhile_dropWhile_id)
  have len: "length ?z = 9" using assms length_zpad [of ns 9] by simp
  have dig: "list_all is_digit ?z" using zpad_is_digit [of ns 9] assms by (auto simp: list_all_iff)
  have "numval 10 (map digit_val ?z) = ns"
    by (rule zpad_map [of ns 9]) (use assms in \<open>auto simp: comp_def map_idI\<close>)
  moreover have "digit_val CHR ''0'' = 0" by (simp add: zero_digit)
  ultimately have "numval 10 (map digit_val (fraction_digits ns)) * 10 ^ k = ns"
    unfolding z map_append numval_append by simp
  moreover have "length (fraction_digits ns) + k = 9" using len unfolding z by simp
  moreover have "list_all is_digit (fraction_digits ns)" using dig unfolding z by simp
  ultimately show thesis using that z by blast
qed

lemma not_digit_Z [simp]: "\<not> is_digit CHR ''Z''"
  by (simp add: is_digit_iff)

lemma read_fraction_written:
  assumes "ns < 1000000000"
  shows "read_fraction ((if fraction_digits ns = [] then [] else CHR ''.'' # fraction_digits ns) @ ''Z'') = (ns, ''Z'')"
proof -
  obtain k where k: "length (fraction_digits ns) + k = 9" "list_all is_digit (fraction_digits ns)"
    "numval 10 (map digit_val (fraction_digits ns)) * 10 ^ k = ns" using fraction_digits [OF assms] by blast
  show ?thesis
  proof (cases "fraction_digits ns")
    case Nil
    then show ?thesis using k(3) by (simp add: read_fraction_def)
  next
    case (Cons d ds)
    have "takeWhile is_digit (d # ds @ ''Z'') = d # ds" "dropWhile is_digit (d # ds @ ''Z'') = ''Z''"
      using k(2) unfolding Cons by (auto simp: list_all_iff takeWhile_append2 dropWhile_append2)
    moreover have "take 9 (d # ds) = d # ds" "9 - length (d # ds) = k" using k(1) unfolding Cons by simp_all
    ultimately show ?thesis using k(2,3) unfolding Cons by (simp add: read_fraction_def Let_def)
  qed
qed

lemma Day_daysIn: "Day t \<le> daysIn (Month t) (Year t)"
proof -
  let ?l = "leap_day (Year t)" and ?yd = "YearDay0 t"
  have yd: "0 \<le> ?yd" "?yd < 365 + ?l" and l: "0 \<le> ?l" "?l \<le> 1" by (rule YearDay0_bounds leap_day_bounds)+
  consider "?yd < 31" | "31 \<le> ?yd" "?yd < 59 + ?l" | "59 + ?l \<le> ?yd" "?yd < 90 + ?l" | "90 + ?l \<le> ?yd" "?yd < 120 + ?l"
    | "120 + ?l \<le> ?yd" "?yd < 151 + ?l" | "151 + ?l \<le> ?yd" "?yd < 181 + ?l" | "181 + ?l \<le> ?yd" "?yd < 212 + ?l"
    | "212 + ?l \<le> ?yd" "?yd < 243 + ?l" | "243 + ?l \<le> ?yd" "?yd < 273 + ?l" | "273 + ?l \<le> ?yd" "?yd < 304 + ?l"
    | "304 + ?l \<le> ?yd" "?yd < 334 + ?l" | "334 + ?l \<le> ?yd" by linarith
  then show ?thesis using yd l by cases (simp_all add: Day_def Month_def daysIn_def month_of_def month_starts_def)
qed

lemma moment_parts:
  "0 \<le> Minute t" "Minute t < 60" "0 \<le> Second t" "Second t < 60" "0 \<le> t mod second_ns" "t mod second_ns < second_ns"
  "Truncate_hour t + (Minute t * 60 + Second t) * second_ns + t mod second_ns = t"
proof -
  let ?m = "60 * second_ns"
  have r: "0 \<le> t mod hour_ns" "t mod hour_ns < 60 * ?m" by (simp_all add: hour_ns_def second_ns_def)
  then show "0 \<le> Minute t" "Minute t < 60" by (auto simp: Minute_def second_ns_def)
  have "0 \<le> t mod ?m" "t mod ?m < 60 * second_ns" by (simp_all add: second_ns_def)
  then show "0 \<le> Second t" "Second t < 60" by (auto simp: Second_def second_ns_def)
  show "0 \<le> t mod second_ns" "t mod second_ns < second_ns" by (simp_all add: second_ns_def)
  have a: "t mod hour_ns mod ?m = t mod ?m" by (rule mod_mod_cancel) (simp add: hour_ns_def second_ns_def)
  have b: "t mod ?m mod second_ns = t mod second_ns" by (rule mod_mod_cancel) simp
  have "t mod hour_ns = Minute t * ?m + t mod ?m" unfolding Minute_def using a by (metis div_mult_mod_eq)
  moreover have "t mod ?m = Second t * second_ns + t mod second_ns" unfolding Second_def using b by (metis div_mult_mod_eq)
  ultimately show "Truncate_hour t + (Minute t * 60 + Second t) * second_ns + t mod second_ns = t"
    by (simp add: Truncate_hour_def algebra_simps)
qed

lemma FormatRFC3339Nano_parts:
  assumes "writable_time t"
  shows "FormatRFC3339Nano t = zpad 4 (nat (Year t)) @ CHR ''-'' # zpad 2 (nat (Month t)) @ CHR ''-'' # zpad 2 (nat (Day t)) @ CHR ''T'' #
    zpad 2 (nat (Hour t)) @ CHR '':'' # zpad 2 (nat (Minute t)) @ CHR '':'' # zpad 2 (nat (Second t))
    @ (if fraction_digits (nat (t mod second_ns)) = [] then [] else CHR ''.'' # fraction_digits (nat (t mod second_ns))) @ ''Z''"
proof -
  have "fmt_int 4 (Year t) = zpad 4 (nat (Year t))" "fmt_int 2 (Month t) = zpad 2 (nat (Month t))" "fmt_int 2 (Day t) = zpad 2 (nat (Day t))"
    "fmt_int 2 (Hour t) = zpad 2 (nat (Hour t))" "fmt_int 2 (Minute t) = zpad 2 (nat (Minute t))"
    "fmt_int 2 (Second t) = zpad 2 (nat (Second t))" "fmt_int 9 (t mod second_ns) = zpad 9 (nat (t mod second_ns))"
    using assms Month_bounds [of t] Day_bounds [of t] Hour_bounds [of t] moment_parts [of t] by (simp_all add: fmt_int_def writable_time_def)
  then show ?thesis by (simp add: FormatRFC3339Nano_def FormatRFC3339_def fraction_digits_def butlast_append)
qed

lemma ParseRFC3339_FormatRFC3339Nano:
  assumes "writable_time t"
  shows "ParseRFC3339 (FormatRFC3339Nano t) = Some t"
proof -
  note b = assms [unfolded writable_time_def] Month_bounds [of t] Day_bounds [of t] Hour_bounds [of t] moment_parts [of t] Day_daysIn [of t]
  have small: "nat (Year t) < 10000" "nat (Month t) < 100" "nat (Day t) < 100" "nat (Hour t) < 100" "nat (Minute t) < 100"
    "nat (Second t) < 100" "nat (t mod second_ns) < 1000000000"
    using b by (auto simp: second_ns_def)
  have "int (nat (Year t)) = Year t" "int (nat (Month t)) = Month t" "int (nat (Day t)) = Day t" "int (nat (Hour t)) = Hour t"
    "int (nat (Minute t)) = Minute t" "int (nat (Second t)) = Second t" "int (nat (t mod second_ns)) = t mod second_ns" using b by auto
  moreover have "1 \<le> nat (Month t)" "nat (Month t) \<le> 12" "nat (Hour t) \<le> 23" "nat (Minute t) \<le> 59" "nat (Second t) \<le> 59"
    "\<not> nat (Day t) < 1" using b by auto
  ultimately show ?thesis
    unfolding FormatRFC3339Nano_parts [OF assms] ParseRFC3339_def
    using read_fraction_written [OF small(7)] b(13-)
    by (simp add: small read_year_zpad getnum_zpad in_range_def skip_def CutPrefix_def HasPrefix_def read_zone_def Date_fields)
qed

end
