(* ===== verification/Cursor.thy ===== *)
theory Cursor
  imports Paging Timetext
begin

text \<open>
  \<open>internal/query/cursor.go\<close>: what a page hands back so that the next one can be asked for. A cursor is the base64
  text of the canonical JSON of a boundary, of the direction, and of the fingerprint of the query it belongs to;
  reading one is what \<open>encoding/base64\<close> and \<open>encoding/json\<close> do with any text a caller sends. Times are in UTC.

  Shown: a cursor that was handed out is read back as the boundary and the direction it was made of, under the
  fingerprint it was made with, and is refused under any other.
\<close>

section \<open>Base64\<close>

text \<open>\<open>base64.RawURLEncoding\<close>: the URL alphabet without padding. Decoding skips line breaks and is not strict.\<close>

definition url_alphabet :: string where
  "url_alphabet = ''ABCDEFGHIJKLMNOPQRSTUVWXYZabcdefghijklmnopqrstuvwxyz0123456789-_''"

fun to_sextets :: "nat list \<Rightarrow> nat list" where
  "to_sextets (a # b # c # s) = [a div 4, a mod 4 * 16 + b div 16, b mod 16 * 4 + c div 64, c mod 64] @ to_sextets s"
| "to_sextets [a, b] = [a div 4, a mod 4 * 16 + b div 16, b mod 16 * 4]"
| "to_sextets [a] = [a div 4, a mod 4 * 16]"
| "to_sextets [] = []"

fun of_sextets :: "nat list \<Rightarrow> nat list option" where
  "of_sextets (a # b # c # d # s) =
     map_option (\<lambda>t. [a * 4 + b div 16, b mod 16 * 16 + c div 4, c mod 4 * 64 + d] @ t) (of_sextets s)"
| "of_sextets [a, b, c] = Some [a * 4 + b div 16, b mod 16 * 16 + c div 4]"
| "of_sextets [a, b] = Some [a * 4 + b div 16]"
| "of_sextets [a] = None"
| "of_sextets [] = Some []"

definition letter_of :: "nat \<Rightarrow> char" where
  "letter_of n = url_alphabet ! n"

fun place_in :: "string \<Rightarrow> char \<Rightarrow> nat option" where
  "place_in [] c = None"
| "place_in (a # as) c = (if a = c then Some 0 else map_option Suc (place_in as c))"

fun all_some :: "'a option list \<Rightarrow> 'a list option" where
  "all_some [] = Some []"
| "all_some (None # xs) = None"
| "all_some (Some x # xs) = map_option ((#) x) (all_some xs)"

definition EncodeToString :: "nat list \<Rightarrow> string" where
  "EncodeToString b = map letter_of (to_sextets b)"

definition DecodeString :: "string \<Rightarrow> nat list option" where
  "DecodeString s =
     (case all_some (map (place_in url_alphabet) (filter (\<lambda>c. c \<noteq> CHR 0x0A \<and> c \<noteq> CHR 0x0D) s)) of
        None \<Rightarrow> None
      | Some ns \<Rightarrow> of_sextets ns)"

section \<open>Marshalling\<close>

definition marshal_member :: "string \<times> nat list \<Rightarrow> nat list" where
  "marshal_member m = marshal_string (fst m) @ 58 # snd m"

definition marshal_struct :: "(string \<times> nat list) list \<Rightarrow> nat list" where
  "marshal_struct ms = 123 # commas (map marshal_member ms) @ [125]"

text \<open>A slice; every empty one here is nil.\<close>

definition marshal_slice :: "('a \<Rightarrow> nat list) \<Rightarrow> 'a list \<Rightarrow> nat list" where
  "marshal_slice f xs = (if xs = [] then nats ''null'' else 91 # commas (map f xs) @ [93])"

definition marshal_bool :: "bool \<Rightarrow> nat list" where
  "marshal_bool b = nats (if b then ''true'' else ''false'')"

text \<open>\<open>Time.MarshalJSON\<close>, which refuses a year that has not four digits (\<open>writable_time\<close>).\<close>

definition marshal_time :: "time \<Rightarrow> nat list" where
  "marshal_time t = marshal_string (FormatRFC3339Nano t)"

section \<open>Cursors\<close>

datatype cursor_error = CursorUnmarshallable | CursorCanonical canon_error | NotOurs | CursorMismatch

record cursor =
  cu_Values :: "string list"
  cu_ID :: string
  cu_RecordedAt :: time
  cu_Sequence :: u64
  cu_Backwards :: bool
  cu_Query :: string

text \<open>The members of a cursor, those marked \<open>omitempty\<close> only when they are not empty.\<close>

definition cursor_members :: "cursor \<Rightarrow> (string \<times> nat list) list" where
  "cursor_members c =
     (if cu_Values c = [] then [] else [(''v'', marshal_slice marshal_string (cu_Values c))])
     @ (if cu_ID c = [] then [] else [(''i'', marshal_string (cu_ID c))])
     @ [(''r'', marshal_time (cu_RecordedAt c))]
     @ (if cu_Sequence c = 0 then [] else [(''s'', nats (itoa (unat (cu_Sequence c))))])
     @ (if cu_Backwards c then [(''b'', marshal_bool True)] else [])
     @ [(''q'', marshal_string (cu_Query c))]"

definition encodeCursor :: "Boundary option \<Rightarrow> bool \<Rightarrow> string \<Rightarrow> cursor_error + string" where
  "encodeCursor at_row backwards mark =
     (case at_row of
        None \<Rightarrow> Inr []
      | Some b \<Rightarrow>
          (if \<not> writable_time (bd_RecordedAt b) then Inl CursorUnmarshallable
           else case canonicalJSON (chars (marshal_struct (cursor_members
                  \<lparr>cu_Values = bd_Values b, cu_ID = bd_ID b, cu_RecordedAt = bd_RecordedAt b, cu_Sequence = bd_Sequence b,
                   cu_Backwards = backwards, cu_Query = mark\<rparr>))) of
                  Inl e \<Rightarrow> Inl (CursorCanonical e)
                | Inr text \<Rightarrow> Inr (EncodeToString (nats text))))"

subsection \<open>Reading\<close>

text \<open>
  \<open>json.Unmarshal\<close> into the struct: the whole text is checked first; then the members are taken in the order
  of the text, a later one over an earlier one, each under its name or one that differs in case (of the names
  here only \<open>s\<close> has a letter beyond ASCII that folds to it); a member of another name is passed over. A member
  is its name, its value and the text of its value. A \<open>null\<close> leaves a field as it is, but empties a slice.
\<close>

definition raw_of :: "nat list \<Rightarrow> nat list \<Rightarrow> nat list" where
  "raw_of s rest = take (length (skip_space s) - length rest) (skip_space s)"

function read_members :: "nat list \<Rightarrow> (string \<times> JSON \<times> nat list) list option" where
  "read_members s =
     (case read_name (skip_space s) of
        None \<Rightarrow> None
      | Some (k, t) \<Rightarrow>
          (case read_value [] t of
             None \<Rightarrow> None
           | Some (v, u) \<Rightarrow>
               (case skip_space u of
                  [] \<Rightarrow> None
                | c # w \<Rightarrow>
                    if c = 44 then map_option ((#) (k, v, raw_of t u)) (read_members w)
                    else if c = 125 then Some [(k, v, raw_of t u)]
                    else None)))"
  by pat_completeness auto
termination
proof (relation "measure length", goal_cases)
  case (2 s p k t q v u c w)
  then show ?case
    using length_read_name [of "skip_space s" k t] length_skip_space [of s] length_read(1) [of "[]" t v u] length_skip_space [of u] by simp
qed simp

declare read_members.simps [simp del]

definition same_name :: "string \<Rightarrow> string \<Rightarrow> bool" where
  "same_name field name \<longleftrightarrow> map to_lower name = map to_lower field \<or> (field = ''s'' \<and> name = [CHR 0xC5, CHR 0xBF])"

definition two_digits :: "string \<Rightarrow> nat" where
  "two_digits s = (case map digit_val s of a # b # _ \<Rightarrow> a * 10 + b | _ \<Rightarrow> 0)"

text \<open>\<open>Time.UnmarshalJSON\<close>: the bytes between the quotes, as they are, under the strict form of RFC 3339.\<close>

definition ParseStrict :: "string \<Rightarrow> time option" where
  "ParseStrict s =
     (case ParseRFC3339 s of
        None \<Rightarrow> None
      | Some t \<Rightarrow>
          if s ! 12 = CHR '':'' \<or> s ! 19 = CHR '','' then None
          else if last s \<noteq> CHR ''Z'' \<and> (24 \<le> two_digits (drop (length s - 5) s) \<or> 60 \<le> two_digits (drop (length s - 2) s)) then None
          else Some t)"

definition ParseUint :: "string \<Rightarrow> u64 option" where
  "ParseUint s = (if s \<noteq> [] \<and> list_all is_digit s \<and> decimal_of s < 2 ^ 64 then Some (of_nat (decimal_of s)) else None)"

definition string_field :: "string \<Rightarrow> JSON \<Rightarrow> string option" where
  "string_field old v = (case v of JString s \<Rightarrow> Some s | JNull \<Rightarrow> Some old | _ \<Rightarrow> None)"

fun string_items :: "string list \<Rightarrow> JSON list \<Rightarrow> string list option" where
  "string_items old [] = Some []"
| "string_items old (v # vs) =
     (case string_field (case old of [] \<Rightarrow> [] | o1 # _ \<Rightarrow> o1) v of
        None \<Rightarrow> None
      | Some s \<Rightarrow> map_option ((#) s) (string_items (tl old) vs))"

definition take_member :: "string \<times> JSON \<times> nat list \<Rightarrow> cursor \<Rightarrow> cursor option" where
  "take_member m c =
     (case m of (name, v, raw) \<Rightarrow>
        if same_name ''v'' name then
          (case v of
             JArray vs \<Rightarrow> map_option (\<lambda>ss. c\<lparr>cu_Values := ss\<rparr>) (string_items (cu_Values c) vs)
           | JNull \<Rightarrow> Some (c\<lparr>cu_Values := []\<rparr>)
           | _ \<Rightarrow> None)
        else if same_name ''i'' name then map_option (\<lambda>s. c\<lparr>cu_ID := s\<rparr>) (string_field (cu_ID c) v)
        else if same_name ''r'' name then
          (case v of
             JNull \<Rightarrow> Some c
           | JString _ \<Rightarrow> map_option (\<lambda>t. c\<lparr>cu_RecordedAt := t\<rparr>) (ParseStrict (chars (butlast (tl raw))))
           | _ \<Rightarrow> None)
        else if same_name ''s'' name then
          (case v of
             JNull \<Rightarrow> Some c
           | JNumber n \<Rightarrow> map_option (\<lambda>w. c\<lparr>cu_Sequence := w\<rparr>) (ParseUint n)
           | _ \<Rightarrow> None)
        else if same_name ''b'' name then
          (case v of JNull \<Rightarrow> Some c | JBool b \<Rightarrow> Some (c\<lparr>cu_Backwards := b\<rparr>) | _ \<Rightarrow> None)
        else if same_name ''q'' name then map_option (\<lambda>s. c\<lparr>cu_Query := s\<rparr>) (string_field (cu_Query c) v)
        else Some c)"

fun take_members :: "(string \<times> JSON \<times> nat list) list \<Rightarrow> cursor \<Rightarrow> cursor option" where
  "take_members [] c = Some c"
| "take_members (m # ms) c = (case take_member m c of None \<Rightarrow> None | Some c' \<Rightarrow> take_members ms c')"

definition no_cursor :: cursor where
  "no_cursor = \<lparr>cu_Values = [], cu_ID = [], cu_RecordedAt = zero_time, cu_Sequence = 0, cu_Backwards = False, cu_Query = []\<rparr>"

definition Unmarshal_cursor :: "nat list \<Rightarrow> cursor option" where
  "Unmarshal_cursor body =
     (if \<not> valid_json body then None
      else case skip_space body of
             [] \<Rightarrow> None
           | b # t \<Rightarrow>
               if b = 110 then Some no_cursor
               else if b \<noteq> 123 then None
               else case skip_space t of
                      [] \<Rightarrow> None
                    | c # u \<Rightarrow>
                        if c = 125 then Some no_cursor
                        else (case read_members t of None \<Rightarrow> None | Some ms \<Rightarrow> take_members ms no_cursor))"

definition decodeCursor :: "string \<Rightarrow> string \<Rightarrow> cursor_error + Boundary option \<times> bool" where
  "decodeCursor raw mark =
     (if raw = [] then Inr (None, False)
      else case DecodeString raw of
             None \<Rightarrow> Inl NotOurs
           | Some body \<Rightarrow>
               (case Unmarshal_cursor body of
                  None \<Rightarrow> Inl NotOurs
                | Some c \<Rightarrow>
                    if cu_Query c \<noteq> mark then Inl CursorMismatch
                    else if cu_Values c = [] \<and> cu_ID c = [] then Inr (None, False)
                    else Inr (Some \<lparr>bd_Values = cu_Values c, bd_ID = cu_ID c, bd_RecordedAt = cu_RecordedAt c, bd_Sequence = cu_Sequence c\<rparr>,
                              cu_Backwards c)))"

section \<open>Fingerprints\<close>

definition marshal_predicate :: "Predicate \<Rightarrow> nat list" where
  "marshal_predicate p =
     marshal_struct [(''Op'', marshal_string (pd_Op p)), (''Value'', marshal_string (pd_Value p)),
       (''Values'', marshal_slice marshal_string (pd_Values p))]"

definition marshal_window :: "TimePredicate \<Rightarrow> nat list" where
  "marshal_window w = marshal_struct [(''From'', marshal_time (tp_From w)), (''To'', marshal_time (tp_To w))]"

definition marshal_path :: "PathPredicate \<Rightarrow> nat list" where
  "marshal_path p =
     marshal_struct [(''Path'', marshal_string (pp_Path p)), (''Op'', marshal_string (pp_Op p)), (''Text'', marshal_string (pp_Text p)),
       (''Values'', marshal_slice marshal_string (pp_Values p)), (''Int'', nats (FormatInt (pp_Int p))), (''At'', marshal_time (pp_At p)),
       (''Kind'', marshal_string (pp_Kind p))]"

definition marshal_conjunction :: "Conjunction \<Rightarrow> nat list" where
  "marshal_conjunction c =
     marshal_struct [(''ID'', marshal_slice marshal_predicate (cj_ID c)), (''OccurredAt'', marshal_slice marshal_window (cj_OccurredAt c)),
       (''RecordedAt'', marshal_slice marshal_window (cj_RecordedAt c)), (''Source'', marshal_slice marshal_predicate (cj_Source c)),
       (''Action'', marshal_slice marshal_predicate (cj_Action c)), (''Operation'', marshal_slice marshal_predicate (cj_Operation c)),
       (''Outcome'', marshal_slice marshal_predicate (cj_Outcome c)), (''TenantID'', marshal_slice marshal_predicate (cj_TenantID c)),
       (''ActorKind'', marshal_slice marshal_predicate (cj_ActorKind c)), (''ActorID'', marshal_slice marshal_predicate (cj_ActorID c)),
       (''SubjectKind'', marshal_slice marshal_predicate (cj_SubjectKind c)), (''SubjectID'', marshal_slice marshal_predicate (cj_SubjectID c)),
       (''RequestID'', marshal_slice marshal_predicate (cj_RequestID c)), (''TraceID'', marshal_slice marshal_predicate (cj_TraceID c)),
       (''ClientAddress'', marshal_slice marshal_predicate (cj_ClientAddress c)),
       (''ObserverID'', marshal_slice marshal_predicate (cj_ObserverID c)), (''TargetType'', marshal_slice marshal_predicate (cj_TargetType c)),
       (''TargetID'', marshal_slice marshal_predicate (cj_TargetID c)), (''Data'', marshal_slice marshal_path (cj_Data c))]"

definition marshal_sort :: "SortBy \<Rightarrow> nat list" where
  "marshal_sort s = marshal_struct [(''Field'', marshal_string (sb_Field s)), (''Descending'', marshal_bool (sb_Descending s))]"

definition conjunction_times :: "Conjunction \<Rightarrow> time list" where
  "conjunction_times c =
     concat (map (\<lambda>w. [tp_From w, tp_To w]) (cj_OccurredAt c @ cj_RecordedAt c)) @ map pp_At (cj_Data c)"

definition query_shape :: "Query \<Rightarrow> nat list" where
  "query_shape q =
     marshal_struct ([(''profile'', marshal_string (q_Profile q))]
       @ (if q_Tenants q = [] then [] else [(''tenants'', marshal_slice marshal_string (q_Tenants q))])
       @ (if q_Filter q = [] then [] else [(''filter'', marshal_slice marshal_conjunction (q_Filter q))])
       @ (if q_Sort q = [] then [] else [(''sort'', marshal_slice marshal_sort (q_Sort q))]))"

definition fingerprint :: "Query \<Rightarrow> cursor_error + string" where
  "fingerprint q =
     (if \<not> list_all writable_time (concat (map conjunction_times (q_Filter q))) then Inl CursorUnmarshallable
      else case canonicalJSON (chars (query_shape q)) of
             Inl e \<Rightarrow> Inl (CursorCanonical e)
           | Inr text \<Rightarrow> Inr (hex_EncodeToString (take 16 (sha256 text))))"

section \<open>Base64 is read back\<close>

lemma byte_parts:
  assumes "(b::nat) < 256"
  shows "b div 4 < 64" "b div 16 < 16" "b div 64 < 4" "b div 16 div 16 = 0" "b div 16 mod 16 = b div 16"
    "b div 64 div 4 = 0" "b div 64 mod 4 = b div 64"
proof -
  show *: "b div 4 < 64" "b div 16 < 16" "b div 64 < 4" using assms by linarith+
  show "b div 16 div 16 = 0" "b div 16 mod 16 = b div 16" "b div 64 div 4 = 0" "b div 64 mod 4 = b div 64" using * by simp_all
qed

lemma of_to_sextets: "list_all (\<lambda>b. b < 256) bs \<Longrightarrow> of_sextets (to_sextets bs) = Some bs"
  by (induction bs rule: to_sextets.induct) (simp_all add: byte_parts)

lemma to_sextets_bound: "list_all (\<lambda>b. b < 256) bs \<Longrightarrow> list_all (\<lambda>n. n < 64) (to_sextets bs)"
proof (induction bs rule: to_sextets.induct)
  case (1 a b c s)
  have "a mod 4 < 4" "b mod 16 < 16" by simp_all
  then have "a mod 4 * 16 + b div 16 < 64" "b mod 16 * 4 + c div 64 < 64" using byte_parts [of b] byte_parts [of c] 1 by auto
  then show ?case using 1 byte_parts [of a] by simp
next
  case (2 a b)
  have "a mod 4 < 4" "b mod 16 < 16" by simp_all
  then have "a mod 4 * 16 + b div 16 < 64" "b mod 16 * 4 < 64" using byte_parts [of b] 2 by auto
  then show ?case using 2 byte_parts [of a] by simp
next
  case (3 a)
  have "a mod 4 < 4" by simp
  then have "a mod 4 * 16 < 64" by simp
  then show ?case using 3 byte_parts [of a] by simp
qed simp

lemma place_in_nth: "distinct xs \<Longrightarrow> n < length xs \<Longrightarrow> place_in xs (xs ! n) = Some n"
proof (induction xs arbitrary: n)
  case (Cons x xs)
  then show ?case by (cases n) auto
qed simp

lemma letters:
  "distinct url_alphabet" "length url_alphabet = 64" "CHR 0x0A \<notin> set url_alphabet" "CHR 0x0D \<notin> set url_alphabet"
  by (simp_all add: url_alphabet_def)

lemma all_some_map: "(\<And>x. x \<in> set xs \<Longrightarrow> f x = Some (g x)) \<Longrightarrow> all_some (map f xs) = Some (map g xs)"
  by (induction xs) simp_all

lemma DecodeString_EncodeToString: "list_all (\<lambda>b. b < 256) bs \<Longrightarrow> DecodeString (EncodeToString bs) = Some bs"
proof -
  assume bs: "list_all (\<lambda>b. b < 256) bs"
  then have n: "n \<in> set (to_sextets bs) \<Longrightarrow> n < length url_alphabet" for n
    using to_sextets_bound [OF bs] by (auto simp: list_all_iff letters)
  then have "n \<in> set (to_sextets bs) \<Longrightarrow> letter_of n \<in> set url_alphabet" for n by (simp add: letter_of_def)
  then have plain: "filter (\<lambda>c. c \<noteq> CHR 0x0A \<and> c \<noteq> CHR 0x0D) (EncodeToString bs) = EncodeToString bs"
    unfolding EncodeToString_def filter_id_conv using letters(3,4) by (metis imageE list.set_map)
  have "all_some (map (place_in url_alphabet) (EncodeToString bs)) = Some (to_sextets bs)"
    using all_some_map [of "to_sextets bs" "place_in url_alphabet \<circ> letter_of" "\<lambda>n. n"] n letters(1)
    by (simp add: EncodeToString_def letter_of_def place_in_nth)
  then show ?thesis using of_to_sextets [OF bs] by (simp add: DecodeString_def plain)
qed

section \<open>Marshalled text is read back\<close>

definition marshal_rune :: "nat \<Rightarrow> nat list" where
  "marshal_rune r =
     (if r < 128 then marshal_ascii r
      else if r = 8232 then 92 # nats ''u2028''
      else if r = 8233 then 92 # nats ''u2029''
      else encode_valid r)"

lemma marshal_encoded:
  assumes "list_all valid_rune rs"
  shows "marshal_runes (encode_runes rs) = concat (map marshal_rune rs)"
  using assms
proof (induction rs)
  case (Cons r rs)
  obtain b t where bt: "encode_valid r = b # t" by (cases "encode_valid r") auto
  have e: "encode_runes (r # rs) = b # t @ encode_runes rs" using Cons.prems bt by (simp add: encode_runes_def EncodeRune_def)
  have d: "DecodeRune (b # t @ encode_runes rs) = (r, Suc (length t))"
    using DecodeRune_encode [of r "encode_runes rs"] Cons.prems bt by simp
  have first: "b < 128 \<longleftrightarrow> r < 128" "r < 128 \<Longrightarrow> b = r" "128 \<le> r \<Longrightarrow> t \<noteq> []"
    using bt by (auto simp: encode_valid_def split: if_splits)
  have "marshal_runes (encode_runes (r # rs)) = marshal_rune r @ marshal_runes (encode_runes rs)"
    unfolding e marshal_runes.simps d using first bt by (auto simp: marshal_rune_def)
  then show ?case using Cons by simp
qed (simp add: encode_runes_def)

lemma scan_u00: "r < 128 \<Longrightarrow> scan_string (u00 r @ s) = with_rune r (scan_string s)"
proof -
  assume r: "r < 128"
  have h: "hex_val (hex_low d) = Some d" if "d < 16" for d using that by (auto simp: hex_val_def hex_low_def)
  have "r div 16 < 16" "r mod 16 < 16" using r by auto
  moreover have "hex_val 48 = Some 0" by (simp add: hex_val_def)
  ultimately have "getu4 (48 # 48 # hex_low (r div 16) # hex_low (r mod 16) # s) = Some (r, s)" by (simp add: getu4_def h)
  moreover have "\<not> surrogate r" using r by (simp add: surrogate_def)
  ultimately show ?thesis by (simp add: u00_def scan_string.simps(2))
qed

lemma scan_marshal_rune:
  assumes "valid_rune r"
  shows "scan_string (marshal_rune r @ s) = with_rune r (scan_string s)"
proof -
  consider (short) "r \<in> {34, 92, 8, 12, 10, 13, 9}" | (html) "r \<notin> {34, 92, 8, 12, 10, 13, 9}" "r < 32 \<or> r \<in> {60, 62, 38}"
    | (line) "r \<in> {8232, 8233}" | (plain) "r \<notin> {34, 92, 60, 62, 38, 8232, 8233}" "32 \<le> r" by force
  then show ?thesis
  proof cases
    case short
    then show ?thesis by (auto simp: marshal_rune_def marshal_ascii_def scan_string.simps(2) escaped_def)
  next
    case html
    then have "marshal_rune r = u00 r" "r < 128" by (auto simp: marshal_rune_def marshal_ascii_def)
    then show ?thesis by (simp add: scan_u00)
  next
    case line
    have "getu4 (50 # 48 # 50 # 56 # s) = Some (8232, s)" "getu4 (50 # 48 # 50 # 57 # s) = Some (8233, s)"
      by (simp_all add: getu4_def hex_val_def)
    then show ?thesis using line by (auto simp: marshal_rune_def nats_def scan_string.simps(2) surrogate_def)
  next
    case plain
    have "marshal_rune r = encode_valid r" using plain by (auto simp: marshal_rune_def marshal_ascii_def encode_valid_def)
    then have "marshal_rune r = escape_rune r" using plain assms by (auto simp: escape_rune_def EncodeRune_def)
    then show ?thesis using scan_escape [OF assms] by simp
  qed
qed

lemma scan_marshal: "list_all valid_rune rs \<Longrightarrow> scan_string (concat (map marshal_rune rs) @ 34 # s) = Some (rs, s)"
  by (induction rs) (simp_all add: scan_marshal_rune scan_string.simps(2) with_rune_def)

lemma utf8_nats: "utf8_string s \<Longrightarrow> \<exists>rs. list_all valid_rune rs \<and> nats s = encode_runes rs \<and> of_runes rs = s"
proof -
  assume s: "utf8_string s"
  have "nats s = nats (of_runes (runes (nats s)))" using s by (simp add: utf8_string_def)
  also have "\<dots> = encode_runes (runes (nats s))" by (simp add: of_runes_def nats_chars encode_runes_bytes runes_valid)
  finally show ?thesis using runes_valid s unfolding utf8_string_def by blast
qed

lemma reads_marshal_string: "utf8_string s \<Longrightarrow> reads (JString s) (marshal_string s)"
proof -
  assume "utf8_string s"
  then obtain rs where rs: "list_all valid_rune rs" "nats s = encode_runes rs" "of_runes rs = s" using utf8_nats by blast
  have "read_scalar (marshal_string s @ t) = Some (JString s, t)" for t
    using scan_marshal [OF rs(1)] by (simp add: read_scalar_def marshal_string_def rs marshal_encoded)
  then show ?thesis by (intro reads_scalar) (simp_all add: marshal_string_def json_space_def)
qed

lemma marshal_string_bytes: "utf8_string s \<Longrightarrow> list_all (\<lambda>b. b < 256) (marshal_string s)"
proof -
  assume "utf8_string s"
  then obtain rs where rs: "list_all valid_rune rs" "nats s = encode_runes rs" using utf8_nats by blast
  have "list_all (\<lambda>b. b < 256) (marshal_rune r)" if "valid_rune r" for r
  proof (cases "r < 128")
    case True
    then have "r div 16 < 16" "r mod 16 < 16" by auto
    then show ?thesis using True by (auto simp: marshal_rune_def marshal_ascii_def u00_def hex_low_def)
  next
    case False
    then show ?thesis using encode_valid_bytes [OF that] by (auto simp: marshal_rune_def nats_def)
  qed
  then have "list_all valid_rune us \<Longrightarrow> list_all (\<lambda>b. b < 256) (concat (map marshal_rune us))" for us by (induction us) auto
  then show ?thesis using rs by (simp add: marshal_string_def marshal_encoded)
qed

text \<open>A text without quotes, escapes and bytes beyond ASCII is written as it is.\<close>

definition plain_text :: "string \<Rightarrow> bool" where
  "plain_text s \<longleftrightarrow> list_all (\<lambda>b. 45 \<le> b \<and> b < 128 \<and> b \<notin> {60, 62, 92}) (nats s)"

lemma plain_ascii: "plain_text s \<Longrightarrow> list_all (\<lambda>b. b < 128) (nats s)"
  by (auto simp: plain_text_def list_all_iff)

lemma plain_utf8: "plain_text s \<Longrightarrow> utf8_string s"
  using plain_ascii [of s] by (simp add: utf8_string_def of_runes_def ascii_runes ascii_encode) (simp add: nats_def chars_def)

lemma plain_written:
  assumes "plain_text s"
  shows "marshal_string s = 34 # nats s @ [34]" "writeCanonicalString s = 34 # nats s @ [34]"
proof -
  note ascii = plain_ascii [OF assms]
  have one: "marshal_rune b = [b]" "escape_rune b = [b]" if "b \<in> set (nats s)" for b
  proof -
    have b: "45 \<le> b" "b < 128" "b \<notin> {60, 62, 92}" using assms that by (auto simp: plain_text_def list_all_iff)
    then show "marshal_rune b = [b]" by (simp add: marshal_rune_def marshal_ascii_def)
    show "escape_rune b = [b]" using b by (simp add: escape_rune_def EncodeRune_def encode_valid_def valid_rune_def)
  qed
  have "list_all valid_rune (nats s)" using ascii by (auto simp: list_all_iff valid_rune_def)
  then have "marshal_runes (nats s) = concat (map marshal_rune (nats s))" using marshal_encoded [of "nats s"] ascii_encode [OF ascii] by simp
  also have "\<dots> = concat (map (\<lambda>b. [b]) (nats s))" using one(1) by (simp cong: map_cong)
  also have "\<dots> = nats s" by simp
  finally show "marshal_string s = 34 # nats s @ [34]" by (simp add: marshal_string_def)
  have "concat (map escape_rune (nats s)) = concat (map (\<lambda>b. [b]) (nats s))" using one(2) by (simp cong: map_cong)
  then show "writeCanonicalString s = 34 # nats s @ [34]" by (simp add: writeCanonicalString_def ascii_runes [OF ascii])
qed

lemma time_plain: "writable_time t \<Longrightarrow> plain_text (FormatRFC3339Nano t)"
proof -
  assume t: "writable_time t"
  note b = t [unfolded writable_time_def] Month_bounds [of t] Day_bounds [of t] Hour_bounds [of t] moment_parts [of t]
  have digits: "plain_text ds" if "list_all is_digit ds" for ds
    using that by (auto simp: plain_text_def nats_def list_all_iff is_digit_iff)
  have pad: "plain_text (zpad w n)" if "n < 10 ^ w" "0 < w" for w n using zpad_is_digit [OF that] by (intro digits) (auto simp: list_all_iff)
  have ns: "nat (t mod second_ns) < 1000000000" using b by (auto simp: second_ns_def)
  have "plain_text (fraction_digits (nat (t mod second_ns)))"
    by (rule fraction_digits [OF ns]) (rule digits)
  moreover have "plain_text (zpad 4 (nat (Year t)))" "plain_text (zpad 2 (nat (Month t)))" "plain_text (zpad 2 (nat (Day t)))"
    "plain_text (zpad 2 (nat (Hour t)))" "plain_text (zpad 2 (nat (Minute t)))" "plain_text (zpad 2 (nat (Second t)))"
    using b by (auto intro!: pad)
  ultimately show ?thesis unfolding FormatRFC3339Nano_parts [OF t] by (simp add: plain_text_def nats_def)
qed

section \<open>Cursors are read back\<close>

text \<open>The value of a cursor, its members in the order they are marshalled and in the order of their names.\<close>

definition cursor_json :: "cursor \<Rightarrow> (string \<times> JSON) list" where
  "cursor_json c =
     (if cu_Values c = [] then [] else [(''v'', JArray (map JString (cu_Values c)))])
     @ (if cu_ID c = [] then [] else [(''i'', JString (cu_ID c))])
     @ [(''r'', JString (FormatRFC3339Nano (cu_RecordedAt c)))]
     @ (if cu_Sequence c = 0 then [] else [(''s'', JNumber (itoa (unat (cu_Sequence c))))])
     @ (if cu_Backwards c then [(''b'', JBool True)] else [])
     @ [(''q'', JString (cu_Query c))]"

definition cursor_sorted :: "cursor \<Rightarrow> (string \<times> JSON) list" where
  "cursor_sorted c =
     (if cu_Backwards c then [(''b'', JBool True)] else [])
     @ (if cu_ID c = [] then [] else [(''i'', JString (cu_ID c))])
     @ [(''q'', JString (cu_Query c))]
     @ [(''r'', JString (FormatRFC3339Nano (cu_RecordedAt c)))]
     @ (if cu_Sequence c = 0 then [] else [(''s'', JNumber (itoa (unat (cu_Sequence c))))])
     @ (if cu_Values c = [] then [] else [(''v'', JArray (map JString (cu_Values c)))])"

text \<open>A cursor whose parts can be written: strings of UTF-8, a year of four digits, a number a float holds.\<close>

definition writable_cursor :: "cursor \<Rightarrow> bool" where
  "writable_cursor c \<longleftrightarrow> list_all utf8_string (cu_Values c) \<and> utf8_string (cu_ID c) \<and> utf8_string (cu_Query c)
     \<and> writable_time (cu_RecordedAt c) \<and> int (unat (cu_Sequence c)) \<le> max_exact"

definition written_value :: "JSON \<Rightarrow> nat list" where
  "written_value v = (case writeCanonical v of Inr b \<Rightarrow> b | Inl e \<Rightarrow> [])"

lemma plain_names:
  "plain_text ''v''" "plain_text ''i''" "plain_text ''r''" "plain_text ''s''" "plain_text ''b''" "plain_text ''q''"
  by (simp_all add: plain_text_def nats_def)

lemma by_name_cursor: "by_name (cursor_json c) = cursor_sorted c"
proof -
  have "units ''v'' = [118]" "units ''i'' = [105]" "units ''r'' = [114]" "units ''s'' = [115]" "units ''b'' = [98]" "units ''q'' = [113]"
    by (simp_all add: units_def nats_def ascii_runes utf16_rune_def)
  then show ?thesis
    by (cases "cu_Values c = []"; cases "cu_ID c = []"; cases "cu_Sequence c = 0"; cases "cu_Backwards c")
      (simp_all add: by_name_def cursor_json_def cursor_sorted_def)
qed

lemma reads_string_member: "plain_text k \<Longrightarrow> reads v t \<Longrightarrow> reads_member (k, v) (marshal_member (k, t))"
  using plain_written [of k] plain_utf8 [of k] by (auto simp: reads_member_def marshal_member_def)

lemma FormatInt_itoa: "itoa n = FormatInt (int n)"
  by (simp add: FormatInt_def)

lemma reads_itoa: "reads (JNumber (itoa n)) (nats (itoa n))"
proof -
  obtain b t where b: "nats (FormatInt (int n)) = b # t" "b = 45 \<or> digit_byte b" using FormatInt_hd by blast
  then have "b \<notin> {91, 93, 123}" "\<not> json_space b" by (auto simp: digit_byte_def json_space_def)
  then show ?thesis unfolding FormatInt_itoa using read_number [of _ "int n"] by (intro reads_scalar) (auto simp: b(1))
qed

lemma reads_true: "reads (JBool True) (marshal_bool True)"
  by (rule reads_scalar) (simp_all add: marshal_bool_def nats_def json_space_def read_scalar_def literal_def)

lemma reads_strings: "list_all utf8_string ss \<Longrightarrow> ss \<noteq> [] \<Longrightarrow> reads (JArray (map JString ss)) (marshal_slice marshal_string ss)"
  by (simp add: marshal_slice_def, rule reads_array) (simp add: list_all2_map1 list_all2_map2 list_all2_same reads_marshal_string list_all_iff)

lemma reads_cursor:
  assumes "writable_cursor c"
  shows "reads (JObject (cursor_json c)) (marshal_struct (cursor_members c))"
proof -
  note ok = assms [unfolded writable_cursor_def]
  have "list_all2 reads_member (cursor_json c) (map marshal_member (cursor_members c))"
    using ok plain_utf8 [OF time_plain] plain_names
    by (auto simp: cursor_json_def cursor_members_def marshal_time_def intro!: list_all2_appendI reads_string_member reads_marshal_string
        reads_itoa reads_true reads_strings)
  moreover have "distinct (map fst (cursor_json c))" by (simp add: cursor_json_def)
  ultimately show ?thesis unfolding marshal_struct_def by (rule reads_object)
qed

lemma bytes_cursor:
  assumes "writable_cursor c"
  shows "list_all (\<lambda>b. b < 256) (marshal_struct (cursor_members c))"
proof -
  note ok = assms [unfolded writable_cursor_def]
  have commas: "list_all P (commas bs)" if "list_all (list_all P) bs" "P 44" for P bs using that by (cases bs) (auto simp: list_all_iff)
  have "list_all (list_all (\<lambda>b. b < 256)) (map marshal_string (cu_Values c))"
    using ok marshal_string_bytes by (auto simp: list.pred_map list.pred_set)
  then have slice: "list_all (\<lambda>b. b < 256) (marshal_slice marshal_string (cu_Values c))"
    using commas by (auto simp: marshal_slice_def nats_def)
  have num: "list_all (\<lambda>b. b < 256) (nats s)" for s by (simp add: nats_def list_all_iff)
  have "list_all (list_all (\<lambda>b. b < 256)) (map marshal_member (cursor_members c))"
    using ok plain_utf8 [OF time_plain] plain_utf8 [OF plain_names(1)] plain_utf8 [OF plain_names(2)] plain_utf8 [OF plain_names(3)]
      plain_utf8 [OF plain_names(4)] plain_utf8 [OF plain_names(5)] plain_utf8 [OF plain_names(6)] slice num
    by (auto simp: cursor_members_def marshal_member_def marshal_time_def marshal_bool_def marshal_string_bytes)
  then show ?thesis unfolding marshal_struct_def using commas by auto
qed

lemma canonicalNumber_FormatInt: "0 \<le> i \<Longrightarrow> i \<le> max_exact \<Longrightarrow> canonicalNumber (FormatInt i) = Inr (FormatInt i)"
proof -
  assume i: "0 \<le> i" "i \<le> max_exact"
  then have "- max_exact \<le> i" by (simp add: max_exact_def)
  then show ?thesis using i by (simp add: canonicalNumber_def ParseInt_FormatInt not_less)
qed

lemma all_ok_strings: "all_ok (map (\<lambda>x. Inr (f x)) xs) = Inr (map f xs)"
  by (induction xs) simp_all

lemma cursor_values:
  assumes "writable_cursor c" "(k, v) \<in> set (cursor_sorted c)"
  shows "writeCanonical v = Inr (written_value v)" "reads v (written_value v)" "plain_text k" "jdepth v \<le> 1"
proof -
  note ok = assms(1) [unfolded writable_cursor_def]
  have n: "canonicalNumber (itoa (unat (cu_Sequence c))) = Inr (itoa (unat (cu_Sequence c)))"
    using ok unfolding FormatInt_itoa by (intro canonicalNumber_FormatInt) auto
  show w: "writeCanonical v = Inr (written_value v)"
    using assms(2) n by (auto simp: cursor_sorted_def written_value_def comp_def all_ok_strings split: if_splits)
  have "readable v" "norm v = v"
    using assms(2) ok n plain_utf8 [OF time_plain] by (auto simp: cursor_sorted_def list_all_iff split: if_splits)
  then show "reads v (written_value v)" using write_reads [OF _ w] by simp
  have "foldr max (map jdepth (map JString ss)) 0 = 0" for ss by (induction ss) simp_all
  then show "jdepth v \<le> 1" using assms(2) by (auto simp: cursor_sorted_def comp_def split: if_splits)
  show "plain_text k" using assms(2) plain_names by (auto simp: cursor_sorted_def split: if_splits)
qed

text \<open>The members of a canonical cursor, each with its text.\<close>

definition member_text :: "string \<times> JSON \<Rightarrow> nat list" where
  "member_text m = writeCanonicalString (fst m) @ 58 # written_value (snd m)"

definition member_read :: "string \<times> JSON \<Rightarrow> string \<times> JSON \<times> nat list" where
  "member_read m = (fst m, snd m, written_value (snd m))"

lemma write_cursor:
  assumes "writable_cursor c"
  shows "writeCanonical (JObject (cursor_json c)) = Inr (123 # commas (map member_text (cursor_sorted c)) @ [125])"
proof -
  have "map (write_member \<circ> map_prod (\<lambda>k. k) writeCanonical) (cursor_sorted c) = map Inr (map member_text (cursor_sorted c))"
    unfolding map_map
  proof (rule map_cong [OF refl])
    fix m assume m: "m \<in> set (cursor_sorted c)"
    obtain k v where kv: "m = (k, v)" by (cases m)
    show "(write_member \<circ> map_prod (\<lambda>k. k) writeCanonical) m = (Inr \<circ> member_text) m"
      using cursor_values(1) [OF assms m [unfolded kv]] by (simp add: kv write_member_def member_text_def)
  qed
  then have "all_ok (map (write_member \<circ> map_prod (\<lambda>k. k) writeCanonical) (cursor_sorted c)) = Inr (map member_text (cursor_sorted c))"
    by (rule all_ok_Inr [THEN iffD2])
  then show ?thesis by (simp add: by_name_map by_name_cursor)
qed

lemma read_member_once:
  assumes "plain_text k" "reads v t" "jdepth v \<le> 1" "stops s" "skip_space s = b # w"
  shows "read_members (writeCanonicalString k @ 58 # t @ s)
    = (if b = 44 then map_option ((#) (k, v, t)) (read_members w) else if b = 125 then Some [(k, v, t)] else None)"
proof -
  have first: "skip_space (writeCanonicalString k @ 58 # t @ s) = writeCanonicalString k @ 58 # t @ s"
    by (simp add: writeCanonicalString_def)
  have name: "read_name (writeCanonicalString k @ 58 # t @ s) = Some (k, t @ s)" by (rule read_written_name [OF plain_utf8 [OF assms(1)]])
  have val: "read_value [] (t @ s) = Some (v, s)" using assms(2,3,4) by (simp add: reads_def maxNestingDepth_def)
  have "skip_space (t @ s) = t @ s" using assms(2) skip_mark by (auto simp: reads_def)
  then have raw: "raw_of (t @ s) s = t" by (simp add: raw_of_def)
  show ?thesis by (subst read_members.simps) (simp add: first name val raw assms(5))
qed

lemma read_members_written:
  assumes "ms \<noteq> []" "\<And>k v. (k, v) \<in> set ms \<Longrightarrow> plain_text k \<and> reads v (written_value v) \<and> jdepth v \<le> 1"
  shows "read_members (commas (map member_text ms) @ [125]) = Some (map member_read ms)"
  using assms
proof (induction ms)
  case (Cons m ms)
  have m: "plain_text (fst m)" "reads (snd m) (written_value (snd m))" "jdepth (snd m) \<le> 1"
    using Cons.prems(2) [of "fst m" "snd m"] by auto
  show ?case
  proof (cases "ms = []")
    case True
    then show ?thesis using read_member_once [OF m, of "[125]" 125 "[]"] by (simp add: member_text_def member_read_def)
  next
    case False
    let ?rest = "commas (map member_text ms) @ [125]"
    have ih: "read_members ?rest = Some (map member_read ms)" by (rule Cons.IH [OF False]) (use Cons.prems(2) in auto)
    have "commas (map member_text (m # ms)) @ [125] = writeCanonicalString (fst m) @ 58 # written_value (snd m) @ 44 # ?rest"
      using False by (cases ms) (simp_all add: member_text_def)
    then show ?thesis using read_member_once [OF m, of "44 # ?rest" 44 "?rest"] ih by (simp add: member_read_def)
  qed
qed simp

lemma ParseStrict_written: "writable_time t \<Longrightarrow> ParseStrict (FormatRFC3339Nano t) = Some t"
proof -
  assume t: "writable_time t"
  note b = t [unfolded writable_time_def] Month_bounds [of t] Day_bounds [of t] Hour_bounds [of t] moment_parts [of t]
  have y: "length (zpad 4 (nat (Year t))) = 4" using b by (intro length_zpad) auto
  have two: "zpad 2 (nat x) = [digit (nat x div 10), digit (nat x mod 10)]" if "x < 100" for x using that by (intro zpad_2) auto
  have h: "is_digit (digit (nat (Hour t) mod 10))" by simp
  then have "digit (nat (Hour t) mod 10) \<noteq> CHR '':''" by (auto simp: is_digit_iff)
  moreover have "last (FormatRFC3339Nano t) = CHR ''Z''" by (simp add: FormatRFC3339Nano_def)
  moreover have "FormatRFC3339Nano t ! 12 = digit (nat (Hour t) mod 10)"
    unfolding FormatRFC3339Nano_parts [OF t] using b y by (simp add: two nth_append)
  moreover have "FormatRFC3339Nano t ! 19 = (if fraction_digits (nat (t mod second_ns)) = [] then CHR ''Z'' else CHR ''.'')"
    unfolding FormatRFC3339Nano_parts [OF t] using b y by (simp add: two nth_append)
  ultimately show ?thesis using ParseRFC3339_FormatRFC3339Nano [OF t] by (simp add: ParseStrict_def)
qed

lemma take_members_cursor:
  assumes "writable_cursor c"
  shows "take_members (map member_read (cursor_sorted c)) no_cursor = Some c"
proof -
  note t = time_plain [of "cu_RecordedAt c"] ParseStrict_written [of "cu_RecordedAt c"]
  have raw: "chars (butlast (tl (written_value (JString (FormatRFC3339Nano (cu_RecordedAt c)))))) = FormatRFC3339Nano (cu_RecordedAt c)"
    using assms t(1) by (simp add: written_value_def plain_written(2) writable_cursor_def) (simp add: chars_def nats_def)
  have items: "string_items old (map JString ss) = Some ss" for old ss
    by (induction ss arbitrary: old) (simp_all add: string_field_def)
  have number: "ParseUint (itoa (unat w)) = Some w" for w
    using decimal_of_itoa [of "unat w"] unsigned_less [of w] by (simp add: ParseUint_def)
  have one:
    "take_member (''b'', v, r) d = (case v of JNull \<Rightarrow> Some d | JBool b \<Rightarrow> Some (d\<lparr>cu_Backwards := b\<rparr>) | _ \<Rightarrow> None)"
    "take_member (''i'', v, r) d = map_option (\<lambda>s. d\<lparr>cu_ID := s\<rparr>) (string_field (cu_ID d) v)"
    "take_member (''q'', v, r) d = map_option (\<lambda>s. d\<lparr>cu_Query := s\<rparr>) (string_field (cu_Query d) v)"
    "take_member (''r'', JString s, r) d = map_option (\<lambda>t. d\<lparr>cu_RecordedAt := t\<rparr>) (ParseStrict (chars (butlast (tl r))))"
    "take_member (''s'', JNumber n, r) d = map_option (\<lambda>w. d\<lparr>cu_Sequence := w\<rparr>) (ParseUint n)"
    "take_member (''v'', JArray vs, r) d = map_option (\<lambda>ss. d\<lparr>cu_Values := ss\<rparr>) (string_items (cu_Values d) vs)"
    for v r d s n vs by (simp_all add: take_member_def same_name_def to_lower_def)
  show ?thesis
    using assms t(2) raw
    by (cases "cu_Values c = []"; cases "cu_ID c = []"; cases "cu_Sequence c = 0"; cases "cu_Backwards c")
      (simp_all add: cursor_sorted_def member_read_def one items number string_field_def no_cursor_def writable_cursor_def)
qed

text \<open>What a cursor is encoded as is read back as it, and is not empty.\<close>

lemma Unmarshal_written:
  assumes "writable_cursor c"
  shows "\<exists>text. canonicalJSON (chars (marshal_struct (cursor_members c))) = Inr text \<and> Unmarshal_cursor (nats text) = Some c"
proof -
  let ?ms = "cursor_sorted c" and ?raw = "marshal_struct (cursor_members c)"
  let ?b = "123 # commas (map member_text ?ms) @ [125]"
  have "jdepth (JObject (cursor_json c)) \<le> 2"
  proof -
    have "jdepth v \<le> 1" if "(k, v) \<in> set (cursor_json c)" for k v
      using cursor_values(4) [OF assms, of k v] that set_by_name [of "cursor_json c"] by (simp add: by_name_cursor)
    then show ?thesis using foldr_max_le [of snd "map (map_prod (\<lambda>k. k) jdepth) (cursor_json c)" 1] by auto
  qed
  then have depth: "int (jdepth (JObject (cursor_json c))) \<le> maxNestingDepth" unfolding maxNestingDepth_def by linarith
  have "nats (chars ?raw) = ?raw" using bytes_cursor [OF assms] by (rule nats_chars)
  moreover have "read_value [] ?raw = Some (JObject (cursor_json c), [])"
    using reads_cursor [OF assms] depth unfolding reads_def by (metis add_0 append_Nil2 list.size(3) read_after.simps(1) stops_marks(4))
  ultimately have canon: "canonicalJSON (chars ?raw) = Inr (chars ?b)" using write_cursor [OF assms] by (simp add: canonicalJSON_def)
  have b: "nats (chars ?b) = ?b"
    using write_plain [OF write_cursor [OF assms]] by (intro nats_chars) (auto simp: list_all_iff plain_byte_def)
  have "read_value [] (?b @ []) = Some (norm (JObject (cursor_json c)), [])"
    using read_canonical [OF canon _ stops_marks(4)] \<open>nats (chars ?raw) = ?raw\<close> \<open>read_value [] ?raw = _\<close> b by simp
  then have valid: "valid_json ?b" by (simp add: valid_json_def skip_space_def)
  have ne: "?ms \<noteq> []" by (simp add: cursor_sorted_def)
  then obtain u where u: "commas (map member_text ?ms) @ [125] = 34 # u"
    by (cases ?ms) (auto simp: member_text_def writeCanonicalString_def)
  have "read_members (commas (map member_text ?ms) @ [125]) = Some (map member_read ?ms)"
    using cursor_values [OF assms] by (intro read_members_written [OF ne]) blast
  then have "Unmarshal_cursor ?b = Some c" using valid take_members_cursor [OF assms] unfolding Unmarshal_cursor_def u by simp
  then show ?thesis using canon b by auto
qed

lemma cursor_back:
  assumes "list_all utf8_string (bd_Values b)" "utf8_string (bd_ID b)" "utf8_string mark" "writable_time (bd_RecordedAt b)"
    and "int (unat (bd_Sequence b)) \<le> max_exact" "bd_Values b \<noteq> [] \<or> bd_ID b \<noteq> []"
  shows "\<exists>text. encodeCursor (Some b) backwards mark = Inr text \<and> decodeCursor text mark = Inr (Some b, backwards)
    \<and> (\<forall>other. other \<noteq> mark \<longrightarrow> decodeCursor text other = Inl CursorMismatch)"
proof -
  define c where "c = \<lparr>cu_Values = bd_Values b, cu_ID = bd_ID b, cu_RecordedAt = bd_RecordedAt b, cu_Sequence = bd_Sequence b,
    cu_Backwards = backwards, cu_Query = mark\<rparr>"
  have "writable_cursor c" using assms by (simp add: c_def writable_cursor_def)
  then obtain line where line: "canonicalJSON (chars (marshal_struct (cursor_members c))) = Inr line" "Unmarshal_cursor (nats line) = Some c"
    using Unmarshal_written by blast
  have enc: "encodeCursor (Some b) backwards mark = Inr (EncodeToString (nats line))" using line(1) assms(4) by (simp add: encodeCursor_def c_def)
  have dec: "DecodeString (EncodeToString (nats line)) = Some (nats line)" by (rule DecodeString_EncodeToString) (simp add: nats_def list_all_iff)
  have "nats line \<noteq> []" using line(2) by (auto simp: Unmarshal_cursor_def valid_json_def read_value.simps [of "[]" "[]"] skip_space_def)
  then have "EncodeToString (nats line) \<noteq> []" using dec by (cases "nats line") (auto simp: DecodeString_def)
  then have "decodeCursor (EncodeToString (nats line)) m = (if m = mark then Inr (Some b, backwards) else Inl CursorMismatch)" for m
    using dec line(2) assms(6) by (auto simp: decodeCursor_def c_def)
  then show ?thesis using enc by auto
qed

section \<open>Properties\<close>

text \<open>
  C18: A cursor made of a boundary, a direction and the fingerprint of a query is read back as that boundary and that
  direction under that fingerprint, and is refused under any other: a page is never resumed in another ordering.
  The texts are UTF-8, the year has four digits and the sequence number is one a float holds exactly.
\<close>

theorem cursor_round_trip:
  assumes "list_all utf8_string (bd_Values b)" "utf8_string (bd_ID b)" "utf8_string mark" "writable_time (bd_RecordedAt b)"
    and "int (unat (bd_Sequence b)) \<le> max_exact" "bd_Values b \<noteq> [] \<or> bd_ID b \<noteq> []"
  shows "\<exists>text. encodeCursor (Some b) backwards mark = Inr text \<and> decodeCursor text mark = Inr (Some b, backwards)
    \<and> (\<forall>other. other \<noteq> mark \<longrightarrow> decodeCursor text other = Inl CursorMismatch)"
  by (rule cursor_back [OF assms])

definition example_boundary :: Boundary where
  "example_boundary = \<lparr>bd_Values = [''v''], bd_ID = ''i'', bd_RecordedAt = 0, bd_Sequence = 7\<rparr>"

theorem cursor_round_trip_witness:
  "\<exists>text. encodeCursor (Some example_boundary) True ''q'' = Inr text \<and> decodeCursor text ''q'' = Inr (Some example_boundary, True)
    \<and> decodeCursor text ''b'' = Inl CursorMismatch"
proof -
  have "writable_time 0" by (simp add: writable_time_def Year_def day_number_def year_yday_def Let_def)
  then show ?thesis
    using cursor_round_trip [of example_boundary "''q''" True] plain_names plain_utf8 by (auto simp: example_boundary_def max_exact_def)
qed

end
