(* ===== verification/Compile.thy ===== *)
theory Compile
  imports Search
begin

text \<open>
  \<open>internal/query/compile.go\<close>: a request becomes a closed query. The messages of the request are those of
  \<open>proto/audit/v1/query.proto\<close>; a \<open>oneof\<close> is a datatype with a case for none. \<open>uuid.Parse\<close> is an argument.

  Shown: a filter of the operators the compiler translates means of every row what it says; the operators it passes
  over leave a filter that means something else.
\<close>

section \<open>Requests\<close>

datatype StringPredicate =
    SEqual string | SNotEqual string | SIn "string list" | SNotIn "string list" | SPrefix string | SIsNull bool | SIsNotNull bool | SUnset

datatype IntegerPredicate =
    IEqual int | INotEqual int | IIn "int list" | INotIn "int list" | IBetween int int | IGreaterThan int | IGreaterThanOrEqual int
  | ILessThan int | ILessThanOrEqual int | IUnset

datatype TimePred =
    TBetween "time option" "time option" | TGreaterThan time | TGreaterThanOrEqual time | TLessThan time | TLessThanOrEqual time | TUnset

record TargetRef =
  tr_Type :: string
  tr_Id :: string

datatype TargetPredicate = TargetsIn "TargetRef list" | TargetsNotIn "TargetRef list" | TargetsUnset

datatype KeyValuePredicate = KEqual string string | KNotEqual string string | KIsNull string | KIsNotNull string | KUnset

datatype path_value = PString StringPredicate | PInteger IntegerPredicate | PTime TimePred | PUnset

record PathPred =
  ph_Path :: string
  ph_Value :: path_value

record Filter =
  ft_Id :: "StringPredicate option"
  ft_OccurredAt :: "TimePred option"
  ft_RecordedAt :: "TimePred option"
  ft_Source :: "StringPredicate option"
  ft_Action :: "StringPredicate option"
  ft_Operation :: "StringPredicate option"
  ft_Outcome :: "StringPredicate option"
  ft_TenantId :: "StringPredicate option"
  ft_SubjectKind :: "StringPredicate option"
  ft_SubjectId :: "StringPredicate option"
  ft_ActorKind :: "StringPredicate option"
  ft_ActorId :: "StringPredicate option"
  ft_Targets :: "TargetPredicate option"
  ft_RequestId :: "StringPredicate option"
  ft_TraceId :: "StringPredicate option"
  ft_ClientAddress :: "StringPredicate option"
  ft_ObserverId :: "StringPredicate option"
  ft_MeterName :: "StringPredicate option"
  ft_Data :: "PathPred list"
  ft_Attributes :: "KeyValuePredicate option"

definition no_filter :: Filter where
  "no_filter = \<lparr>ft_Id = None, ft_OccurredAt = None, ft_RecordedAt = None, ft_Source = None, ft_Action = None, ft_Operation = None,
     ft_Outcome = None, ft_TenantId = None, ft_SubjectKind = None, ft_SubjectId = None, ft_ActorKind = None, ft_ActorId = None,
     ft_Targets = None, ft_RequestId = None, ft_TraceId = None, ft_ClientAddress = None, ft_ObserverId = None, ft_MeterName = None,
     ft_Data = [], ft_Attributes = None\<rparr>"

datatype SortField =
    FIELD_UNSPECIFIED | FIELD_OCCURRED_AT | FIELD_RECORDED_AT | FIELD_ID | FIELD_ACTION | FIELD_TENANT_ID | FIELD_ACTOR_ID | FIELD_SOURCE

datatype SortOrder = ORDER_UNSPECIFIED | ORDER_ASC | ORDER_DESC

record Sort =
  srt_Field :: SortField
  srt_Order :: SortOrder

record SearchRequest =
  sq_Profile :: string
  sq_Filter :: "Filter list"
  sq_Sort :: "Sort list"
  sq_Limit :: int
  sq_Cursor :: string
  sq_Q :: string

section \<open>Compiling\<close>

datatype compile_error =
    NameAProfile
  | ConjunctionsOver nat nat
  | SortsOver nat nat
  | ValuesOver nat string nat
  | EmptyValues string
  | NoOperator
  | NoPath
  | NoValue string
  | NotSortable SortField
  | IdPrefix
  | NotAnIdentifier string

definition maxConjunctions :: nat where "maxConjunctions = 4"
definition maxSort :: nat where "maxSort = 4"
definition maxIn :: nat where "maxIn = 100"

definition listPredicate :: "string \<Rightarrow> string list \<Rightarrow> compile_error + Predicate" where
  "listPredicate op values =
     (if maxIn < length values then Inl (ValuesOver (length values) op maxIn)
      else if values = [] then Inl (EmptyValues op)
      else Inr \<lparr>pd_Op = op, pd_Value = [], pd_Values = values\<rparr>)"

definition predicate :: "StringPredicate \<Rightarrow> compile_error + Predicate" where
  "predicate p =
     (case p of
        SEqual v \<Rightarrow> (if v \<noteq> [] then Inr \<lparr>pd_Op = op_Equal, pd_Value = v, pd_Values = []\<rparr> else Inl NoOperator)
      | SNotEqual v \<Rightarrow> (if v \<noteq> [] then Inr \<lparr>pd_Op = op_NotEqual, pd_Value = v, pd_Values = []\<rparr> else Inl NoOperator)
      | SIn vs \<Rightarrow> listPredicate op_In vs
      | SNotIn vs \<Rightarrow> listPredicate op_NotIn vs
      | SPrefix v \<Rightarrow> (if v \<noteq> [] then Inr \<lparr>pd_Op = op_Prefix, pd_Value = v, pd_Values = []\<rparr> else Inl NoOperator)
      | _ \<Rightarrow> Inl NoOperator)"

definition window_of :: "TimePred \<Rightarrow> TimePredicate" where
  "window_of p =
     (case p of
        TBetween lo hi \<Rightarrow> \<lparr>tp_From = (case lo of Some t \<Rightarrow> t | None \<Rightarrow> zero_time), tp_To = (case hi of Some t \<Rightarrow> t | None \<Rightarrow> zero_time)\<rparr>
      | TGreaterThan t \<Rightarrow> \<lparr>tp_From = t + 1, tp_To = zero_time\<rparr>
      | TGreaterThanOrEqual t \<Rightarrow> \<lparr>tp_From = t, tp_To = zero_time\<rparr>
      | TLessThan t \<Rightarrow> \<lparr>tp_From = zero_time, tp_To = t\<rparr>
      | TLessThanOrEqual t \<Rightarrow> \<lparr>tp_From = zero_time, tp_To = t + 1\<rparr>
      | TUnset \<Rightarrow> \<lparr>tp_From = zero_time, tp_To = zero_time\<rparr>)"

definition path_of :: "PathPred \<Rightarrow> compile_error + PathPredicate" where
  "path_of p =
     (let out = \<lparr>pp_Path = ph_Path p, pp_Op = op_Equal, pp_Text = [], pp_Values = [], pp_Int = 0, pp_At = zero_time, pp_Kind = kind_Text\<rparr> in
      if ph_Path p = [] then Inl NoPath
      else case ph_Value p of
             PString s \<Rightarrow>
               (case predicate s of
                  Inl e \<Rightarrow> Inl e
                | Inr got \<Rightarrow> Inr (out\<lparr>pp_Op := pd_Op got, pp_Text := pd_Value got, pp_Values := pd_Values got\<rparr>))
           | PInteger i \<Rightarrow> Inr (out\<lparr>pp_Kind := kind_Int, pp_Int := (case i of IEqual n \<Rightarrow> n | _ \<Rightarrow> 0)\<rparr>)
           | PTime t \<Rightarrow> Inr (out\<lparr>pp_Kind := kind_Time, pp_At := tp_From (window_of t)\<rparr>)
           | PUnset \<Rightarrow> Inl (NoValue (ph_Path p)))"

fun whole_values :: "(string \<Rightarrow> bool) \<Rightarrow> string list \<Rightarrow> compile_error option" where
  "whole_values is_uuid [] = None"
| "whole_values is_uuid (v # vs) = (if is_uuid v then whole_values is_uuid vs else Some (NotAnIdentifier v))"

fun wholeIDs :: "(string \<Rightarrow> bool) \<Rightarrow> Predicate list \<Rightarrow> compile_error option" where
  "wholeIDs is_uuid [] = None"
| "wholeIDs is_uuid (p # ps) =
     (if pd_Op p = op_Prefix then Some IdPrefix
      else case whole_values is_uuid (if pd_Op p = op_Equal \<or> pd_Op p = op_NotEqual then [pd_Value p] else pd_Values p) of
             Some e \<Rightarrow> Some e
           | None \<Rightarrow> wholeIDs is_uuid ps)"

text \<open>The table of \<open>conjunction\<close>: where a predicate goes, and the predicate.\<close>

type_synonym field_setter = "(Predicate list \<Rightarrow> Predicate list) \<Rightarrow> Conjunction \<Rightarrow> Conjunction"

definition field_pairs :: "Filter \<Rightarrow> (field_setter \<times> StringPredicate option) list" where
  "field_pairs f =
     [(cj_ID_update, ft_Id f), (cj_Source_update, ft_Source f), (cj_Action_update, ft_Action f), (cj_Operation_update, ft_Operation f),
      (cj_Outcome_update, ft_Outcome f), (cj_TenantID_update, ft_TenantId f), (cj_ActorKind_update, ft_ActorKind f),
      (cj_ActorID_update, ft_ActorId f), (cj_SubjectKind_update, ft_SubjectKind f), (cj_SubjectID_update, ft_SubjectId f),
      (cj_RequestID_update, ft_RequestId f), (cj_TraceID_update, ft_TraceId f), (cj_ClientAddress_update, ft_ClientAddress f),
      (cj_ObserverID_update, ft_ObserverId f)]"

fun fill_pairs :: "(field_setter \<times> StringPredicate option) list \<Rightarrow> Conjunction \<Rightarrow> compile_error + Conjunction" where
  "fill_pairs [] c = Inr c"
| "fill_pairs ((into, None) # ps) c = fill_pairs ps c"
| "fill_pairs ((into, Some p) # ps) c =
     (case predicate p of
        Inl e \<Rightarrow> Inl e
      | Inr got \<Rightarrow> fill_pairs ps (into (\<lambda>xs. xs @ [got]) c))"

definition equals :: "string \<Rightarrow> Predicate" where
  "equals v = \<lparr>pd_Op = op_Equal, pd_Value = v, pd_Values = []\<rparr>"

definition target_types :: "TargetPredicate option \<Rightarrow> Predicate list" where
  "target_types t = (case t of Some (TargetsIn refs) \<Rightarrow> map (equals \<circ> tr_Type) (filter (\<lambda>r. tr_Type r \<noteq> []) refs) | _ \<Rightarrow> [])"

definition target_ids :: "TargetPredicate option \<Rightarrow> Predicate list" where
  "target_ids t = (case t of Some (TargetsIn refs) \<Rightarrow> map (equals \<circ> tr_Id) (filter (\<lambda>r. tr_Id r \<noteq> []) refs) | _ \<Rightarrow> [])"

definition windows_of :: "TimePred option \<Rightarrow> TimePredicate list" where
  "windows_of w = (case w of Some p \<Rightarrow> [window_of p] | None \<Rightarrow> [])"

definition conjunction :: "(string \<Rightarrow> bool) \<Rightarrow> Filter \<Rightarrow> compile_error + Conjunction" where
  "conjunction is_uuid f =
     (case fill_pairs (field_pairs f) no_conjunction of
        Inl e \<Rightarrow> Inl e
      | Inr c \<Rightarrow>
          (case wholeIDs is_uuid (cj_ID c) of
             Some e \<Rightarrow> Inl e
           | None \<Rightarrow>
               (case all_ok (map path_of (ft_Data f)) of
                  Inl e \<Rightarrow> Inl e
                | Inr data \<Rightarrow>
                    Inr (c\<lparr>cj_OccurredAt := cj_OccurredAt c @ windows_of (ft_OccurredAt f), cj_RecordedAt := cj_RecordedAt c @ windows_of (ft_RecordedAt f),
                       cj_TargetType := cj_TargetType c @ target_types (ft_Targets f), cj_TargetID := cj_TargetID c @ target_ids (ft_Targets f),
                       cj_Data := cj_Data c @ data\<rparr>))))"

fun sortField :: "SortField \<Rightarrow> compile_error + string" where
  "sortField FIELD_OCCURRED_AT = Inr SortOccurredAt"
| "sortField FIELD_RECORDED_AT = Inr SortRecordedAt"
| "sortField FIELD_ID = Inr SortID"
| "sortField FIELD_ACTION = Inr SortAction"
| "sortField FIELD_TENANT_ID = Inr SortTenantID"
| "sortField FIELD_SOURCE = Inr SortSource"
| "sortField f = Inl (NotSortable f)"

definition sort_by :: "Sort \<Rightarrow> compile_error + SortBy" where
  "sort_by s = map_sum (\<lambda>e. e) (\<lambda>field. \<lparr>sb_Field = field, sb_Descending = (srt_Order s = ORDER_DESC)\<rparr>) (sortField (srt_Field s))"

definition Compile :: "(string \<Rightarrow> bool) \<Rightarrow> SearchRequest \<Rightarrow> compile_error + Query" where
  "Compile is_uuid req =
     (if sq_Profile req = [] then Inl NameAProfile
      else if maxConjunctions < length (sq_Filter req) then Inl (ConjunctionsOver (length (sq_Filter req)) maxConjunctions)
      else if maxSort < length (sq_Sort req) then Inl (SortsOver (length (sq_Sort req)) maxSort)
      else case all_ok (map (conjunction is_uuid) (sq_Filter req)) of
             Inl e \<Rightarrow> Inl e
           | Inr cs \<Rightarrow>
               (case all_ok (map sort_by (sq_Sort req)) of
                  Inl e \<Rightarrow> Inl e
                | Inr ss \<Rightarrow> Inr \<lparr>q_Profile = sq_Profile req, q_Tenants = [], q_Filter = cs, q_Sort = ss, q_Limit = sq_Limit req, q_After = None,
                                q_Backwards = False\<rparr>))"

definition clamp :: "Query \<Rightarrow> time \<Rightarrow> time \<Rightarrow> Query" where
  "clamp q lo hi =
     (if lo = zero_time \<and> hi = zero_time then q
      else q\<lparr>q_Filter := map (\<lambda>c. c\<lparr>cj_OccurredAt := cj_OccurredAt c @ [\<lparr>tp_From = lo, tp_To = hi\<rparr>]\<rparr>)
               (if q_Filter q = [] then [no_conjunction] else q_Filter q)\<rparr>)"

section \<open>What a filter says\<close>

text \<open>The meaning of a filter of the operators that are translated, over the columns of a row.\<close>

definition says_text :: "string \<Rightarrow> StringPredicate \<Rightarrow> bool" where
  "says_text value p =
     (case p of
        SEqual v \<Rightarrow> value = v
      | SNotEqual v \<Rightarrow> value \<noteq> v
      | SIn vs \<Rightarrow> value \<in> set vs
      | SNotIn vs \<Rightarrow> value \<notin> set vs
      | SPrefix v \<Rightarrow> HasPrefix value v
      | SIsNull b \<Rightarrow> (value = []) = b
      | SIsNotNull b \<Rightarrow> (value \<noteq> []) = b
      | SUnset \<Rightarrow> True)"

definition says_time :: "time \<Rightarrow> TimePred \<Rightarrow> bool" where
  "says_time tm p =
     (case p of
        TBetween lo hi \<Rightarrow> (case lo of Some t \<Rightarrow> t \<le> tm | None \<Rightarrow> True) \<and> (case hi of Some t \<Rightarrow> tm < t | None \<Rightarrow> True)
      | TGreaterThan t \<Rightarrow> t < tm
      | TGreaterThanOrEqual t \<Rightarrow> t \<le> tm
      | TLessThan t \<Rightarrow> tm < t
      | TLessThanOrEqual t \<Rightarrow> tm \<le> t
      | TUnset \<Rightarrow> True)"

definition says_integer :: "int \<Rightarrow> IntegerPredicate \<Rightarrow> bool" where
  "says_integer n p =
     (case p of
        IEqual i \<Rightarrow> n = i
      | INotEqual i \<Rightarrow> n \<noteq> i
      | IIn is \<Rightarrow> n \<in> set is
      | INotIn is \<Rightarrow> n \<notin> set is
      | IBetween lo hi \<Rightarrow> lo \<le> n \<and> n \<le> hi
      | IGreaterThan i \<Rightarrow> i < n
      | IGreaterThanOrEqual i \<Rightarrow> i \<le> n
      | ILessThan i \<Rightarrow> n < i
      | ILessThanOrEqual i \<Rightarrow> n \<le> i
      | IUnset \<Rightarrow> True)"

definition says_path :: "Row \<Rightarrow> PathPred \<Rightarrow> bool" where
  "says_path r p \<longleftrightarrow>
     (\<exists>v \<in> set (rw_Data r). iv_Path v = ph_Path p
        \<and> (case ph_Value p of
             PString s \<Rightarrow> says_text (iv_Text v) s
           | PInteger i \<Rightarrow> says_integer (iv_Int v) i
           | PTime t \<Rightarrow> says_time (iv_At v) t
           | PUnset \<Rightarrow> True))"

definition is_target :: "TargetRef \<Rightarrow> string \<times> string \<Rightarrow> bool" where
  "is_target ref t \<longleftrightarrow> (tr_Type ref = [] \<or> tr_Type ref = fst t) \<and> (tr_Id ref = [] \<or> tr_Id ref = snd t)"

definition says_targets :: "Row \<Rightarrow> TargetPredicate \<Rightarrow> bool" where
  "says_targets r p =
     (case p of
        TargetsIn refs \<Rightarrow> \<exists>t \<in> set (zip (rw_TargetTypes r) (rw_TargetIDs r)). \<exists>ref \<in> set refs. is_target ref t
      | TargetsNotIn refs \<Rightarrow> \<not> (\<exists>t \<in> set (zip (rw_TargetTypes r) (rw_TargetIDs r)). \<exists>ref \<in> set refs. is_target ref t)
      | TargetsUnset \<Rightarrow> True)"

definition field_values :: "Row \<Rightarrow> Filter \<Rightarrow> (string \<times> StringPredicate option) list" where
  "field_values r f =
     [(rw_ID r, ft_Id f), (rw_Source r, ft_Source f), (rw_Action r, ft_Action f), (rw_Operation r, ft_Operation f),
      (rw_Outcome r, ft_Outcome f), (rw_TenantID r, ft_TenantId f), (rw_ActorKind r, ft_ActorKind f), (rw_ActorID r, ft_ActorId f),
      (rw_SubjectKind r, ft_SubjectKind f), (rw_SubjectID r, ft_SubjectId f), (rw_RequestID r, ft_RequestId f),
      (rw_TraceID r, ft_TraceId f), (rw_ClientAddress r, ft_ClientAddress f), (rw_ObserverID r, ft_ObserverId f)]"

definition if_given :: "('a \<Rightarrow> bool) \<Rightarrow> 'a option \<Rightarrow> bool" where
  "if_given P x = (case x of None \<Rightarrow> True | Some y \<Rightarrow> P y)"

definition says :: "Row \<Rightarrow> Filter \<Rightarrow> bool" where
  "says r f \<longleftrightarrow>
     (\<forall>(value, p) \<in> set (field_values r f). if_given (says_text value) p)
     \<and> if_given (says_time (rw_OccurredAt r)) (ft_OccurredAt f) \<and> if_given (says_time (rw_RecordedAt r)) (ft_RecordedAt f)
     \<and> if_given (says_targets r) (ft_Targets f) \<and> (\<forall>p \<in> set (ft_Data f). says_path r p)"

text \<open>
  The filters that are translated: no predicate on meters or attributes, of the targets one that names a type or an
  identifier alone, of the data equality of integers and comparison of text, and no moment at the zero time.
\<close>

definition moment_given :: "TimePred \<Rightarrow> bool" where
  "moment_given p =
     (case p of
        TBetween lo hi \<Rightarrow> hi \<noteq> Some zero_time \<and> (case lo of Some t \<Rightarrow> t \<noteq> zero_time | None \<Rightarrow> True)
      | TGreaterThan t \<Rightarrow> t + 1 \<noteq> zero_time
      | TGreaterThanOrEqual t \<Rightarrow> t \<noteq> zero_time
      | TLessThan t \<Rightarrow> t \<noteq> zero_time
      | TLessThanOrEqual t \<Rightarrow> t + 1 \<noteq> zero_time
      | TUnset \<Rightarrow> True)"

definition path_translated :: "PathPred \<Rightarrow> bool" where
  "path_translated p \<longleftrightarrow> (case ph_Value p of PString _ \<Rightarrow> True | PInteger (IEqual _) \<Rightarrow> True | _ \<Rightarrow> False)"

definition targets_translated :: "TargetPredicate \<Rightarrow> bool" where
  "targets_translated p =
     (case p of
        TargetsIn [ref] \<Rightarrow> (tr_Type ref = []) \<noteq> (tr_Id ref = [])
      | TargetsUnset \<Rightarrow> True
      | _ \<Rightarrow> False)"

definition translated :: "Filter \<Rightarrow> bool" where
  "translated f \<longleftrightarrow> ft_MeterName f = None \<and> ft_Attributes f = None \<and> if_given moment_given (ft_OccurredAt f)
     \<and> if_given moment_given (ft_RecordedAt f) \<and> if_given targets_translated (ft_Targets f) \<and> list_all path_translated (ft_Data f)"

section \<open>What is compiled is what was said\<close>

lemma predicate_says: "predicate p = Inr got \<Longrightarrow> compare value got \<longleftrightarrow> says_text value p"
  by (auto simp: predicate_def listPredicate_def compare_def says_text_def op_Equal_def op_NotEqual_def op_In_def op_NotIn_def op_Prefix_def
      split: StringPredicate.splits if_splits)

definition given_predicates :: "StringPredicate option \<Rightarrow> Predicate list" where
  "given_predicates p = (case p of None \<Rightarrow> [] | Some s \<Rightarrow> (case predicate s of Inr got \<Rightarrow> [got] | Inl e \<Rightarrow> []))"

lemma fill_pairs_result:
  assumes "fill_pairs ps c = Inr c'" "\<And>into p d. (into, p) \<in> set ps \<Longrightarrow> into (\<lambda>xs. xs) d = d"
  shows "c' = fold (\<lambda>(into, p). into (\<lambda>xs. xs @ given_predicates p)) ps c \<and> (\<forall>(into, p) \<in> set ps. \<forall>s. p = Some s \<longrightarrow> (\<exists>got. predicate s = Inr got))"
  using assms
proof (induction ps c rule: fill_pairs.induct)
  case (2 into ps c)
  have "into (\<lambda>xs. xs @ given_predicates None) c = c" using "2.prems"(2) [of into None c] by (simp add: given_predicates_def)
  moreover have "c' = fold (\<lambda>(into, p). into (\<lambda>xs. xs @ given_predicates p)) ps c
      \<and> (\<forall>(into, p) \<in> set ps. \<forall>s. p = Some s \<longrightarrow> (\<exists>got. predicate s = Inr got))"
    by (rule "2.IH") (use "2.prems" in auto)
  ultimately show ?case by simp
next
  case (3 into p ps c)
  then obtain got where got: "predicate p = Inr got" by (auto split: sum.splits)
  then have "given_predicates (Some p) = [got]" by (simp add: given_predicates_def)
  moreover have "c' = fold (\<lambda>(into, p). into (\<lambda>xs. xs @ given_predicates p)) ps (into (\<lambda>xs. xs @ [got]) c)
      \<and> (\<forall>(into, p) \<in> set ps. \<forall>s. p = Some s \<longrightarrow> (\<exists>got. predicate s = Inr got))"
    by (rule "3.IH" [OF got]) (use "3.prems" got in auto)
  ultimately show ?case using got by simp
qed simp

lemma given_says:
  assumes "\<And>s. p = Some s \<Longrightarrow> \<exists>got. predicate s = Inr got"
  shows "list_all (compare value) (given_predicates p) \<longleftrightarrow> if_given (says_text value) p"
proof (cases p)
  case (Some s)
  then obtain got where got: "predicate s = Inr got" using assms by blast
  then show ?thesis using predicate_says [OF got] Some by (simp add: given_predicates_def if_given_def)
qed (simp add: given_predicates_def if_given_def)

definition compiled_filter :: "Filter \<Rightarrow> PathPredicate list \<Rightarrow> Conjunction" where
  "compiled_filter f data =
     \<lparr>cj_ID = given_predicates (ft_Id f), cj_OccurredAt = windows_of (ft_OccurredAt f), cj_RecordedAt = windows_of (ft_RecordedAt f),
       cj_Source = given_predicates (ft_Source f), cj_Action = given_predicates (ft_Action f), cj_Operation = given_predicates (ft_Operation f),
       cj_Outcome = given_predicates (ft_Outcome f), cj_TenantID = given_predicates (ft_TenantId f),
       cj_ActorKind = given_predicates (ft_ActorKind f), cj_ActorID = given_predicates (ft_ActorId f),
       cj_SubjectKind = given_predicates (ft_SubjectKind f), cj_SubjectID = given_predicates (ft_SubjectId f),
       cj_RequestID = given_predicates (ft_RequestId f), cj_TraceID = given_predicates (ft_TraceId f),
       cj_ClientAddress = given_predicates (ft_ClientAddress f), cj_ObserverID = given_predicates (ft_ObserverId f),
       cj_TargetType = target_types (ft_Targets f), cj_TargetID = target_ids (ft_Targets f), cj_Data = data\<rparr>"

lemma conjunction_parts:
  assumes "conjunction is_uuid f = Inr c"
  shows "\<exists>data. map path_of (ft_Data f) = map Inr data \<and> c = compiled_filter f data
    \<and> (\<forall>(into, p) \<in> set (field_pairs f). \<forall>s. p = Some s \<longrightarrow> (\<exists>got. predicate s = Inr got))"
proof -
  obtain c1 where c1: "fill_pairs (field_pairs f) no_conjunction = Inr c1" using assms by (auto simp: conjunction_def split: sum.splits)
  have r: "c1 = fold (\<lambda>(into, p). into (\<lambda>xs. xs @ given_predicates p)) (field_pairs f) no_conjunction
      \<and> (\<forall>(into, p) \<in> set (field_pairs f). \<forall>s. p = Some s \<longrightarrow> (\<exists>got. predicate s = Inr got))"
    by (rule fill_pairs_result [OF c1]) (auto simp: field_pairs_def)
  obtain data where data: "all_ok (map path_of (ft_Data f)) = Inr data"
    using assms c1 by (auto simp: conjunction_def split: sum.splits option.splits)
  have "c1 = fold (\<lambda>(into, p). into (\<lambda>xs. xs @ given_predicates p)) (field_pairs f) no_conjunction" using r by blast
  then have "c = compiled_filter f data"
    using assms c1 data by (simp add: conjunction_def field_pairs_def no_conjunction_def compiled_filter_def split: option.splits)
  then show ?thesis using data r unfolding all_ok_Inr by blast
qed

lemma window_says: "moment_given p \<Longrightarrow> tm_within tm (window_of p) \<longleftrightarrow> says_time tm p"
  by (auto simp: moment_given_def window_of_def tm_within_def says_time_def split: TimePred.splits option.splits)

lemma windows_say: "if_given moment_given w \<Longrightarrow> list_all (tm_within tm) (windows_of w) \<longleftrightarrow> if_given (says_time tm) w"
  by (auto simp: windows_of_def if_given_def window_says split: option.splits)

lemma path_says:
  assumes "path_of p = Inr got" "path_translated p"
  shows "hasData r got \<longleftrightarrow> says_path r p"
proof -
  consider (compared) s where "ph_Value p = PString s" | (number) n where "ph_Value p = PInteger (IEqual n)"
    using assms(2) by (auto simp: path_translated_def split: path_value.splits IntegerPredicate.splits)
  then show ?thesis
  proof cases
    case compared
    then obtain g where g: "predicate s = Inr g" "got = \<lparr>pp_Path = ph_Path p, pp_Op = pd_Op g, pp_Text = pd_Value g, pp_Values = pd_Values g,
        pp_Int = 0, pp_At = zero_time, pp_Kind = kind_Text\<rparr>"
      using assms(1) by (auto simp: path_of_def Let_def split: if_splits sum.splits)
    have "\<lparr>pd_Op = pd_Op g, pd_Value = pd_Value g, pd_Values = pd_Values g\<rparr> = g" by (cases g) simp
    then have "compare v \<lparr>pd_Op = pd_Op g, pd_Value = pd_Value g, pd_Values = pd_Values g\<rparr> \<longleftrightarrow> says_text v s" for v
      using predicate_says [OF g(1), of v] by argo
    then show ?thesis using compared
      by (simp add: g(2) hasData_def says_path_def kind_Text_def kind_Int_def kind_Time_def kind_Bool_def)
  next
    case number
    then have "got = \<lparr>pp_Path = ph_Path p, pp_Op = op_Equal, pp_Text = [], pp_Values = [], pp_Int = n, pp_At = zero_time, pp_Kind = kind_Int\<rparr>"
      using assms(1) by (auto simp: path_of_def Let_def split: if_splits)
    then show ?thesis using number by (simp add: hasData_def says_path_def says_integer_def)
  qed
qed

lemma targets_say:
  assumes "if_given targets_translated t" "length (rw_TargetTypes r) = length (rw_TargetIDs r)"
  shows "list_all (anyOf (rw_TargetTypes r)) (target_types t) \<and> list_all (anyOf (rw_TargetIDs r)) (target_ids t) \<longleftrightarrow> if_given (says_targets r) t"
proof -
  have types: "x \<in> set (rw_TargetTypes r) \<longleftrightarrow> (\<exists>t \<in> set (zip (rw_TargetTypes r) (rw_TargetIDs r)). x = fst t)" for x
    using map_fst_zip [OF assms(2)] by (metis (no_types, lifting) imageE image_eqI list.set_map)
  have ids: "x \<in> set (rw_TargetIDs r) \<longleftrightarrow> (\<exists>t \<in> set (zip (rw_TargetTypes r) (rw_TargetIDs r)). x = snd t)" for x
    using map_snd_zip [OF assms(2)] by (metis (no_types, lifting) imageE image_eqI list.set_map)
  consider "t = None" | "t = Some TargetsUnset" | ref where "t = Some (TargetsIn [ref])" "(tr_Type ref = []) \<noteq> (tr_Id ref = [])"
    using assms(1) by (auto simp: if_given_def targets_translated_def split: option.splits TargetPredicate.splits list.splits)
  then show ?thesis
  proof cases
    case (3 ref)
    show ?thesis
    proof (cases "tr_Type ref = []")
      case True
      then show ?thesis using 3
        by (auto simp: ids target_types_def target_ids_def if_given_def says_targets_def is_target_def anyOf_def equals_def)
    next
      case False
      then show ?thesis using 3
        by (auto simp: types target_types_def target_ids_def if_given_def says_targets_def is_target_def anyOf_def equals_def)
    qed
  qed (simp_all add: target_types_def target_ids_def if_given_def says_targets_def)
qed

section \<open>Properties\<close>

text \<open>
  C17: A filter of the operators the compiler translates is compiled to a conjunction that holds of a row exactly when
  the row is what the filter says: every predicate that was set is kept, and with its meaning.
\<close>

theorem conjunction_means_filter:
  assumes "conjunction is_uuid f = Inr c" "translated f" "length (rw_TargetTypes r) = length (rw_TargetIDs r)"
  shows "holds r c \<longleftrightarrow> says r f"
proof -
  obtain data where d: "map path_of (ft_Data f) = map Inr data" and c: "c = compiled_filter f data"
    and given: "\<forall>(into, p) \<in> set (field_pairs f). \<forall>s. p = Some s \<longrightarrow> (\<exists>got. predicate s = Inr got)"
    using conjunction_parts [OF assms(1)] by blast
  note t = assms(2) [unfolded translated_def]
  have columns: "list_all (\<lambda>(value, ps). list_all (compare value) ps) (text_terms r c)
      \<longleftrightarrow> (\<forall>(value, p) \<in> set (field_values r f). if_given (says_text value) p)"
    using given by (simp add: text_terms_def field_values_def c compiled_filter_def field_pairs_def given_says)
  have "list_all (hasData r) data \<longleftrightarrow> (\<forall>p \<in> set (ft_Data f). says_path r p)"
  proof -
    have "list_all2 (\<lambda>p got. path_of p = Inr got) ps data \<Longrightarrow> list_all path_translated ps
        \<Longrightarrow> list_all (hasData r) data \<longleftrightarrow> (\<forall>p \<in> set ps. says_path r p)" for ps data
      by (induction ps data rule: list_all2_induct) (simp_all add: path_says)
    then show ?thesis using d t unfolding map_eq_map_Inr by blast
  qed
  moreover have "list_all (tm_within (rw_OccurredAt r)) (windows_of (ft_OccurredAt f)) \<longleftrightarrow> if_given (says_time (rw_OccurredAt r)) (ft_OccurredAt f)"
    "list_all (tm_within (rw_RecordedAt r)) (windows_of (ft_RecordedAt f)) \<longleftrightarrow> if_given (says_time (rw_RecordedAt r)) (ft_RecordedAt f)"
    using t windows_say by blast+
  moreover have "list_all (anyOf (rw_TargetTypes r)) (target_types (ft_Targets f)) \<and> list_all (anyOf (rw_TargetIDs r)) (target_ids (ft_Targets f))
      \<longleftrightarrow> if_given (says_targets r) (ft_Targets f)" using t targets_say [OF _ assms(3)] by blast
  ultimately show ?thesis using columns unfolding holds_def says_def by (simp add: c compiled_filter_def) argo
qed

definition example_filter :: Filter where
  "example_filter = no_filter\<lparr>ft_Action := Some (SPrefix ''user.''), ft_OccurredAt := Some (TGreaterThan 5),
     ft_Data := [\<lparr>ph_Path = ''/n'', ph_Value = PInteger (IEqual 3)\<rparr>]\<rparr>"

definition example_found :: Row where
  "example_found = (RowOf (empty_record\<lparr>r_Action := ''user.created'', r_OccurredAt := Some 6\<rparr>) [] 0 \<lparr>fl_Filter = [], fl_Facet = []\<rparr>)
     \<lparr>rw_Data := [\<lparr>iv_Path = ''/n'', iv_Kind = kind_Int, iv_Text = ''3'', iv_Int = 3, iv_At = zero_time, iv_Facet = False\<rparr>]\<rparr>"

theorem conjunction_means_filter_witness:
  "\<exists>c. conjunction (\<lambda>s. True) example_filter = Inr c \<and> (holds example_found c \<longleftrightarrow> says example_found example_filter) \<and> says example_found example_filter"
proof -
  have "conjunction (\<lambda>s. True) example_filter
      = Inr (compiled_filter example_filter [\<lparr>pp_Path = ''/n'', pp_Op = op_Equal, pp_Text = [], pp_Values = [], pp_Int = 3, pp_At = zero_time, pp_Kind = kind_Int\<rparr>])"
    by (simp add: example_filter_def conjunction_def field_pairs_def no_filter_def no_conjunction_def predicate_def compiled_filter_def
        given_predicates_def windows_of_def target_types_def target_ids_def path_of_def)
  moreover have "translated example_filter" "length (rw_TargetTypes example_found) = length (rw_TargetIDs example_found)"
    by (simp_all add: translated_def example_filter_def no_filter_def if_given_def moment_given_def path_translated_def zero_time_def day_ns_def
        example_found_def RowOf_def)
  moreover have "says example_found example_filter"
    by (simp add: says_def field_values_def example_filter_def no_filter_def if_given_def says_text_def says_time_def says_path_def says_integer_def
        example_found_def RowOf_def AsTime_def HasPrefix_def)
  ultimately show ?thesis using conjunction_means_filter by blast
qed

text \<open>
  A predicate on the name of a meter or on an attribute, and one that excludes targets, is passed over: a filter
  that sets it alone holds of every row. Every comparison of an integer property but equality is taken for equality
  with zero, and a range of times over a property for equality with the start of the range.
\<close>

theorem predicates_passed_over:
  "conjunction is_uuid (no_filter\<lparr>ft_MeterName := Some p\<rparr>) = Inr no_conjunction
   \<and> conjunction is_uuid (no_filter\<lparr>ft_Attributes := Some kv\<rparr>) = Inr no_conjunction
   \<and> conjunction is_uuid (no_filter\<lparr>ft_Targets := Some (TargetsNotIn refs)\<rparr>) = Inr no_conjunction
   \<and> holds r no_conjunction
   \<and> path_of \<lparr>ph_Path = ''/n'', ph_Value = PInteger (IGreaterThan n)\<rparr> = path_of \<lparr>ph_Path = ''/n'', ph_Value = PInteger (IEqual 0)\<rparr>
   \<and> path_of \<lparr>ph_Path = ''/n'', ph_Value = PInteger (INotEqual n)\<rparr> = path_of \<lparr>ph_Path = ''/n'', ph_Value = PInteger (IEqual 0)\<rparr>
   \<and> path_of \<lparr>ph_Path = ''/t'', ph_Value = PTime (TBetween (Some lo) (Some hi))\<rparr>
      = path_of \<lparr>ph_Path = ''/t'', ph_Value = PTime (TBetween (Some lo) (Some lo))\<rparr>"
  by (simp add: conjunction_def field_pairs_def no_filter_def no_conjunction_def windows_of_def target_types_def target_ids_def holds_def
      text_terms_def path_of_def window_of_def)

end
