(* ===== verification/Auth.thy ===== *)
theory Auth
  imports Gotime
begin

text \<open>
  \<open>sdk/auth/auth.go\<close>: who may read what. A principal holds several grants; \<open>Effective\<close> computes from them the one
  that covers a request. A preset that derives grants by a convention is a function with a name and an issuer.

  Shown: what the effective grant lets a caller see, when the covering grants carry one window, is what one of
  the grants lets them see; when one of them carries none and another one, it is more.
\<close>

section \<open>Grants\<close>

type_synonym Claims = "(string \<times> string list) list"

record Principal =
  p_Issuer :: string
  p_Subject :: string
  p_Claims :: Claims
  p_Via :: string

record Grant =
  g_AllTenants :: bool
  g_Tenants :: "string list"
  g_Profiles :: "string list"
  g_Operations :: "string list"
  g_From :: time
  g_Until :: time
  g_Rule :: string

definition no_grant :: Grant where
  "no_grant = \<lparr>g_AllTenants = False, g_Tenants = [], g_Profiles = [], g_Operations = [], g_From = zero_time, g_Until = zero_time, g_Rule = []\<rparr>"

datatype denied =
    NoGrantIncludes string
  | NoGrantOver string string
  | DifferentWindows string
  | NoIdentity
  | NothingGrants string string
  | NotIncluded string
  | NamesNoTenant
  | OperationNotIncluded string

definition Allows :: "Grant \<Rightarrow> string \<Rightarrow> string \<Rightarrow> bool" where
  "Allows g profile operation \<longleftrightarrow> profile \<in> set (g_Profiles g) \<and> operation \<in> set (g_Operations g)"

definition TenantFilter :: "Grant \<Rightarrow> string list" where
  "TenantFilter g = (if g_AllTenants g then [] else g_Tenants g)"

definition Grant_Check :: "Grant \<Rightarrow> string \<Rightarrow> string \<Rightarrow> denied option" where
  "Grant_Check g profile operation =
     (if profile \<notin> set (g_Profiles g) then Some (NotIncluded profile)
      else if operation \<in> set (g_Operations g) then
        (if \<not> g_AllTenants g \<and> g_Tenants g = [] then Some NamesNoTenant else None)
      else Some (OperationNotIncluded operation))"

definition covers :: "string \<Rightarrow> string \<Rightarrow> Grant \<Rightarrow> bool" where
  "covers profile operation g \<longleftrightarrow> Allows g profile operation \<and> \<not> (\<not> g_AllTenants g \<and> g_Tenants g = [])"

definition windowless :: "Grant \<Rightarrow> bool" where
  "windowless g \<longleftrightarrow> g_From g = zero_time \<and> g_Until g = zero_time"

text \<open>The loop over the covering grants: the window so far, if one was met, and whether one had none.\<close>

fun gather_windows :: "Grant list \<Rightarrow> (time \<times> time) option \<Rightarrow> bool \<Rightarrow> ((time \<times> time) option \<times> bool) option" where
  "gather_windows [] win unbounded = Some (win, unbounded)"
| "gather_windows (g # gs) win unbounded =
     (if windowless g then gather_windows gs win True
      else if win \<noteq> None \<and> win \<noteq> Some (g_From g, g_Until g) then None
      else gather_windows gs (Some (g_From g, g_Until g)) unbounded)"

definition sort_names :: "string list \<Rightarrow> string list" where
  "sort_names ns = sort (remdups ns)"

definition Effective :: "Grant list \<Rightarrow> string \<Rightarrow> string \<Rightarrow> denied + Grant" where
  "Effective grants profile operation =
     (let covering = filter (covers profile operation) grants in
      if covering = [] then
        (if \<exists>g \<in> set grants. profile \<in> set (g_Profiles g) then Inl (NoGrantOver profile operation) else Inl (NoGrantIncludes profile))
      else case gather_windows covering None False of
             None \<Rightarrow> Inl (DifferentWindows profile)
           | Some (win, unbounded) \<Rightarrow>
               (let everyone = (\<exists>g \<in> set covering. g_AllTenants g);
                    (from, until) = (if unbounded then (zero_time, zero_time) else case win of Some fu \<Rightarrow> fu | None \<Rightarrow> (zero_time, zero_time))
                in Inr \<lparr>g_AllTenants = everyone,
                        g_Tenants = (if everyone then [] else sort_names (concat (map g_Tenants covering))),
                        g_Profiles = [profile], g_Operations = [operation], g_From = from, g_Until = until,
                        g_Rule = Join CHR '','' (sort (filter (\<lambda>r. r \<noteq> []) (map g_Rule covering)))\<rparr>))"

section \<open>Rules\<close>

record Rule =
  ru_Name :: string
  ru_Issuer :: string
  ru_Claim :: string
  ru_Value :: string
  ru_Grant :: Grant

record APreset =
  ap_Grants :: "Principal \<Rightarrow> Grant list"
  ap_Issuer :: string
  ap_Name :: string

record Declarative =
  dc_Rules :: "Rule list"
  dc_Presets :: "APreset list"

definition Rule_matches :: "Rule \<Rightarrow> Principal \<Rightarrow> bool" where
  "Rule_matches r p =
     (if ru_Issuer r \<noteq> [] \<and> ru_Issuer r \<noteq> p_Issuer p then False
      else if ru_Claim r = [] then True
      else case map_of (p_Claims p) (ru_Claim r) of None \<Rightarrow> False | Some vs \<Rightarrow> ru_Value r \<in> set vs)"

definition rule_grant :: "Rule \<Rightarrow> Grant" where
  "rule_grant r = (if g_Rule (ru_Grant r) = [] then (ru_Grant r)\<lparr>g_Rule := ru_Name r\<rparr> else ru_Grant r)"

definition Declarative_Grants :: "Declarative \<Rightarrow> Principal \<Rightarrow> denied + Grant list" where
  "Declarative_Grants d p =
     (if p_Subject p = [] then Inl NoIdentity
      else let out = map rule_grant (filter (\<lambda>r. Rule_matches r p) (dc_Rules d))
                 @ concat (map (\<lambda>a. ap_Grants a p) (filter (\<lambda>a. \<not> (ap_Issuer a \<noteq> [] \<and> ap_Issuer a \<noteq> p_Issuer p)) (dc_Presets d)))
           in if out = [] then Inl (NothingGrants (p_Issuer p) (p_Subject p)) else Inr out)"

datatype unbound = PresetNamesNoIssuer string | PresetNotTrusted string string | RuleNamesNoIssuer string | RuleNotTrusted string string

definition preset_unbound :: "string list \<Rightarrow> APreset \<Rightarrow> unbound option" where
  "preset_unbound issuers a =
     (if ap_Issuer a = [] \<and> 1 < length issuers then Some (PresetNamesNoIssuer (ap_Name a))
      else if ap_Issuer a \<noteq> [] \<and> ap_Issuer a \<notin> set issuers then Some (PresetNotTrusted (ap_Name a) (ap_Issuer a))
      else None)"

definition rule_unbound :: "string list \<Rightarrow> Rule \<Rightarrow> unbound option" where
  "rule_unbound issuers r =
     (if ru_Issuer r = [] \<and> 1 < length issuers then Some (RuleNamesNoIssuer (ru_Name r))
      else if ru_Issuer r \<noteq> [] \<and> ru_Issuer r \<notin> set issuers then Some (RuleNotTrusted (ru_Name r) (ru_Issuer r))
      else None)"

fun first_some :: "'a option list \<Rightarrow> 'a option" where
  "first_some [] = None"
| "first_some (None # xs) = first_some xs"
| "first_some (Some x # xs) = Some x"

definition BoundTo :: "Declarative \<Rightarrow> string list \<Rightarrow> unbound option" where
  "BoundTo d issuers = first_some (map (preset_unbound issuers) (dc_Presets d) @ map (rule_unbound issuers) (dc_Rules d))"

section \<open>What a grant lets a caller see\<close>

definition in_window :: "Grant \<Rightarrow> time \<Rightarrow> bool" where
  "in_window g occurred \<longleftrightarrow> (g_From g = zero_time \<or> g_From g \<le> occurred) \<and> (g_Until g = zero_time \<or> occurred < g_Until g)"

definition for_tenant :: "Grant \<Rightarrow> string \<Rightarrow> bool" where
  "for_tenant g tenant \<longleftrightarrow> g_AllTenants g \<or> tenant \<in> set (g_Tenants g)"

definition lets_see :: "Grant \<Rightarrow> string \<Rightarrow> string \<Rightarrow> string \<Rightarrow> time \<Rightarrow> bool" where
  "lets_see g profile operation tenant occurred \<longleftrightarrow> Allows g profile operation \<and> for_tenant g tenant \<and> in_window g occurred"

lemma gather_windows_result:
  "gather_windows gs win u = Some (win', u') \<Longrightarrow>
     (u' \<longleftrightarrow> u \<or> (\<exists>g \<in> set gs. windowless g))
     \<and> (\<forall>g \<in> set gs. windowless g \<or> win' = Some (g_From g, g_Until g))
     \<and> (win' = win \<or> (\<exists>g \<in> set gs. \<not> windowless g \<and> win' = Some (g_From g, g_Until g)))
     \<and> (win \<noteq> None \<longrightarrow> win' = win)"
proof (induction gs win u rule: gather_windows.induct)
  case (2 g gs win u)
  show ?case
  proof (cases "windowless g")
    case True
    then show ?thesis using 2 by auto
  next
    case False
    then have "win = None \<or> win = Some (g_From g, g_Until g)" "gather_windows gs (Some (g_From g, g_Until g)) u = Some (win', u')"
      using "2.prems" by (cases win; auto split: if_splits)+
    then show ?thesis using 2 False by auto
  qed
qed simp

lemma Effective_grant:
  assumes "Effective grants profile operation = Inr e" "covering = filter (covers profile operation) grants"
  obtains win u where "covering \<noteq> []" "gather_windows covering None False = Some (win, u)"
    "g_AllTenants e \<longleftrightarrow> (\<exists>g \<in> set covering. g_AllTenants g)"
    "g_Tenants e = (if g_AllTenants e then [] else sort_names (concat (map g_Tenants covering)))"
    "(g_From e, g_Until e) = (if u then (zero_time, zero_time) else case win of Some fu \<Rightarrow> fu | None \<Rightarrow> (zero_time, zero_time))"
    "g_Profiles e = [profile]" "g_Operations e = [operation]"
proof -
  note eff = assms(1) [unfolded Effective_def Let_def, folded assms(2)]
  have some: "covering \<noteq> []" using eff by (auto split: if_splits)
  obtain win u where w: "gather_windows covering None False = Some (win, u)" using eff some by (auto split: option.splits)
  obtain lo hi where b: "(if u then (zero_time, zero_time) else case win of Some fu \<Rightarrow> fu | None \<Rightarrow> (zero_time, zero_time)) = (lo, hi)"
    by (metis prod.collapse)
  have e: "e = \<lparr>g_AllTenants = (\<exists>g \<in> set covering. g_AllTenants g),
      g_Tenants = (if \<exists>g \<in> set covering. g_AllTenants g then [] else sort_names (concat (map g_Tenants covering))),
      g_Profiles = [profile], g_Operations = [operation], g_From = lo, g_Until = hi,
      g_Rule = Join CHR '','' (sort (filter (\<lambda>r. r \<noteq> []) (map g_Rule covering)))\<rparr>"
    using eff some w b by simp
  show thesis by (rule that [OF some w]) (simp_all add: e b)
qed

lemma Effective_for_tenant:
  assumes "Effective grants profile operation = Inr e"
  shows "for_tenant e tenant \<longleftrightarrow> (\<exists>g \<in> set grants. covers profile operation g \<and> for_tenant g tenant)"
proof -
  from assms obtain win u where
    "g_AllTenants e \<longleftrightarrow> (\<exists>g \<in> set (filter (covers profile operation) grants). g_AllTenants g)"
    "g_Tenants e = (if g_AllTenants e then [] else sort_names (concat (map g_Tenants (filter (covers profile operation) grants))))"
    by (rule Effective_grant [OF _ refl])
  then show ?thesis by (auto simp: for_tenant_def sort_names_def)
qed

lemma covers_Allows: "covers profile operation g \<Longrightarrow> Allows g profile operation"
  by (simp add: covers_def)

section \<open>Properties\<close>

text \<open>
  The window of the effective grant, where the covering grants carry one window.
\<close>

lemma Effective_one_window:
  assumes "Effective grants profile operation = Inr e"
    and "\<forall>g \<in> set grants. \<forall>h \<in> set grants. covers profile operation g \<and> covers profile operation h
        \<longrightarrow> g_From g = g_From h \<and> g_Until g = g_Until h"
    and "g \<in> set grants" "covers profile operation g"
  shows "g_From e = g_From g" "g_Until e = g_Until g"
proof -
  from assms(1) obtain win u where w: "gather_windows (filter (covers profile operation) grants) None False = Some (win, u)"
    "(g_From e, g_Until e) = (if u then (zero_time, zero_time) else case win of Some fu \<Rightarrow> fu | None \<Rightarrow> (zero_time, zero_time))"
    by (rule Effective_grant [OF _ refl])
  note r = gather_windows_result [OF w(1)]
  have "g_From e = g_From g \<and> g_Until e = g_Until g"
  proof (cases "windowless g")
    case True
    then have u using r assms(3,4) by auto
    then show ?thesis using w(2) True by (simp add: windowless_def)
  next
    case False
    have "\<not> windowless h" if "h \<in> set grants" "covers profile operation h" for h
      using assms(2) assms(3,4) that False unfolding windowless_def by metis
    then have "\<not> u" using r by auto
    moreover have "win = Some (g_From g, g_Until g)" using r False assms(3,4) by auto
    ultimately show ?thesis using w(2) by simp
  qed
  then show "g_From e = g_From g" "g_Until e = g_Until g" by simp_all
qed

text \<open>
  C16: Where the grants that cover a request carry one window, the effective grant lets a caller see of a profile
  exactly what one of their grants does: it is refused or widened for no tenant and no moment.
\<close>

theorem Effective_sees:
  assumes "Effective grants profile operation = Inr e"
    and "\<forall>g \<in> set grants. \<forall>h \<in> set grants. covers profile operation g \<and> covers profile operation h
        \<longrightarrow> g_From g = g_From h \<and> g_Until g = g_Until h"
  shows "lets_see e profile operation tenant occurred \<longleftrightarrow> (\<exists>g \<in> set grants. lets_see g profile operation tenant occurred)"
proof -
  have allows: "Allows e profile operation" by (rule Effective_grant [OF assms(1) refl]) (simp add: Allows_def)
  have window: "in_window e occurred = in_window g occurred" if "g \<in> set grants" "covers profile operation g" for g
    using Effective_one_window [OF assms that] by (simp add: in_window_def)
  have cov: "covers profile operation g" if "lets_see g profile operation tenant occurred" for g
    using that by (auto simp: lets_see_def covers_def for_tenant_def)
  show ?thesis
  proof
    assume e: "lets_see e profile operation tenant occurred"
    then obtain g where "g \<in> set grants" "covers profile operation g" "for_tenant g tenant"
      using Effective_for_tenant [OF assms(1)] by (auto simp: lets_see_def)
    then show "\<exists>g \<in> set grants. lets_see g profile operation tenant occurred"
      using e window covers_Allows unfolding lets_see_def by blast
  next
    assume "\<exists>g \<in> set grants. lets_see g profile operation tenant occurred"
    then obtain g where "g \<in> set grants" "lets_see g profile operation tenant occurred" by blast
    then show "lets_see e profile operation tenant occurred"
      using cov window allows Effective_for_tenant [OF assms(1)] by (auto simp: lets_see_def)
  qed
qed

definition example_grant :: "string \<Rightarrow> time \<Rightarrow> time \<Rightarrow> Grant" where
  "example_grant tenant lo hi = no_grant\<lparr>g_Tenants := [tenant], g_Profiles := [''security''], g_Operations := [''search''],
     g_From := lo, g_Until := hi, g_Rule := tenant\<rparr>"

definition example_effective :: "time \<Rightarrow> time \<Rightarrow> Grant" where
  "example_effective lo hi = no_grant\<lparr>g_Tenants := [''acme'', ''globex''], g_Profiles := [''security''], g_Operations := [''search''],
     g_From := lo, g_Until := hi, g_Rule := ''acme,globex''\<rparr>"

lemmas example_grant_defs = example_grant_def example_effective_def no_grant_def Effective_def covers_def Allows_def windowless_def sort_names_def

lemma example_names: "sort [''acme'', ''globex''] = [''acme'', ''globex'']" "sort [''globex'', ''acme''] = [''acme'', ''globex'']"
  by code_simp+

theorem Effective_sees_witness:
  "lets_see (example_effective 10 20) ''security'' ''search'' ''globex'' 15
   \<longleftrightarrow> (\<exists>g \<in> {example_grant ''acme'' 10 20, example_grant ''globex'' 10 20}. lets_see g ''security'' ''search'' ''globex'' 15)"
proof -
  have "Effective [example_grant ''acme'' 10 20, example_grant ''globex'' 10 20] ''security'' ''search'' = Inr (example_effective 10 20)"
    by (simp add: example_grant_defs zero_time_def day_ns_def example_names)
  from Effective_sees [OF this, of "''globex''" 15] show ?thesis by (simp add: example_grant_def)
qed

text \<open>
  A caller with a grant over one tenant at any time and one over another tenant for a while is given both
  tenants at any time: more than any of their grants lets them see.
\<close>

theorem Effective_widens:
  "\<exists>e. Effective [example_grant ''acme'' zero_time zero_time, example_grant ''globex'' 10 20] ''security'' ''search'' = Inr e
     \<and> lets_see e ''security'' ''search'' ''globex'' 30
     \<and> \<not> (\<exists>g \<in> {example_grant ''acme'' zero_time zero_time, example_grant ''globex'' 10 20}. lets_see g ''security'' ''search'' ''globex'' 30)"
proof -
  have "Effective [example_grant ''acme'' zero_time zero_time, example_grant ''globex'' 10 20] ''security'' ''search''
      = Inr (example_effective zero_time zero_time)"
    by (simp add: example_grant_defs zero_time_def day_ns_def example_names)
  moreover have "lets_see (example_effective zero_time zero_time) ''security'' ''search'' ''globex'' 30"
    by (simp add: lets_see_def example_effective_def no_grant_def Allows_def for_tenant_def in_window_def)
  ultimately show ?thesis
    by (simp add: lets_see_def example_grant_def no_grant_def Allows_def for_tenant_def in_window_def zero_time_def day_ns_def)
qed

end
