(* ===== verification/Query.thy ===== *)
theory Query
  imports Cursor Compile Auth
begin

text \<open>
  \<open>internal/query/service.go\<close> and \<open>internal/query/connect.go\<close>: the read service. It allows a caller what their grants
  add up to, compiles a request, narrows it to the grant, asks a searcher, and hands a record of the read to its
  emitter. A service is a record of the functions it was given; what changes is the records handed to the emitter and
  the reports of those the emitter did not take, in \<open>reads_made\<close>. An error is a value; its text, where a caller can tell
  answers apart by it, is written out, and is otherwise an argument.

  The searcher is an interface: the locale \<open>searcher\<close> says what the service relies on, and is interpreted on the index
  in memory. Shown, from it: a row that is answered is of the profile asked for, is what the request says, and is one
  the caller's grants let them see; every answer is recorded and no refusal is.
\<close>

section \<open>The service\<close>

record Provenance =
  pv_ObjectKey :: string
  pv_Line :: nat
  pv_Digest :: string
  pv_VerifiedAt :: time

definition nowhere :: Provenance where
  "nowhere = \<lparr>pv_ObjectKey = [], pv_Line = 0, pv_Digest = [], pv_VerifiedAt = zero_time\<rparr>"

datatype query_error =
    Denied denied
  | Malformed compile_error
  | CursorRefused cursor_error
  | SearchFailed search_error
  | NotFound string
  | NotOffered string

record reads_made =
  rm_handed :: "Record list"
  rm_unrecorded :: "(string \<times> string) list"

record Service =
  sv_Search :: "Query \<Rightarrow> search_error + Page"
  sv_Facets :: "Query \<Rightarrow> string list \<Rightarrow> int \<Rightarrow> search_error + (string \<times> FacetValue list) list"
  sv_Get :: "string \<Rightarrow> string \<Rightarrow> search_error + Row \<times> Provenance"
  sv_Grants :: "Principal \<Rightarrow> denied + Grant list"
  sv_emitter :: "(nat \<Rightarrow> Record \<Rightarrow> string option) option"
  sv_Seals :: "(string \<Rightarrow> store_error + entry) option"
  sv_is_uuid :: "string \<Rightarrow> bool"
  sv_is_print :: "nat \<Rightarrow> bool"
  sv_say :: "query_error \<Rightarrow> string"

definition op_Search :: string where "op_Search = ''search''"
definition op_Facets :: string where "op_Facets = ''facets''"
definition op_Get :: string where "op_Get = ''get''"
definition op_Export :: string where "op_Export = ''export''"
definition op_Tail :: string where "op_Tail = ''tail''"
definition op_Resolve :: string where "op_Resolve = ''resolve''"

definition allow :: "Service \<Rightarrow> Principal \<Rightarrow> string \<Rightarrow> string \<Rightarrow> query_error + Grant" where
  "allow sv p profile operation =
     (case sv_Grants sv p of
        Inl e \<Rightarrow> Inl (Denied e)
      | Inr held \<Rightarrow> map_sum Denied (\<lambda>g. g) (Effective held profile operation))"

definition narrow :: "Query \<Rightarrow> Grant \<Rightarrow> Query" where
  "narrow q g = clamp (q\<lparr>q_Tenants := TenantFilter g\<rparr>) (g_From g) (g_Until g)"

definition grant_within :: "time \<Rightarrow> Grant \<Rightarrow> bool" where
  "grant_within occurred g =
     (if g_From g \<noteq> zero_time \<and> occurred < g_From g then False
      else g_Until g = zero_time \<or> occurred < g_Until g)"

definition tenant_granted :: "string \<Rightarrow> Grant \<Rightarrow> bool" where
  "tenant_granted tenant g = (if g_AllTenants g then True else tenant \<in> set (g_Tenants g))"

definition read_target :: "string \<Rightarrow> string \<Rightarrow> Target" where
  "read_target kind ident = \<lparr>ta_Type = kind, ta_Id = ident, ta_Name = [], ta_Attributes = None\<rparr>"

definition tenantTargets :: "Grant \<Rightarrow> Target list" where
  "tenantTargets g = (if g_AllTenants g then [] else map (read_target ''tenant'') (g_Tenants g))"

definition readRecord :: "string \<Rightarrow> Principal \<Rightarrow> Grant \<Rightarrow> string option \<Rightarrow> Target list \<Rightarrow> Struct option \<Rightarrow> Record" where
  "readRecord action p g failure targets data =
     empty_record\<lparr>r_Action := action, r_Operation := OPERATION_ACCESS, r_TenantId := TenantPlatform,
       r_Actor := Some \<lparr>ac_Kind = ''operator'', ac_Id = p_Subject p, ac_SessionId = [], ac_AuthMethod = p_Via p, ac_CredentialHash = [],
         ac_Attributes = None\<rparr>,
       r_Targets := targets, r_Data := data,
       r_Outcome := Some (case failure of
          Some reason \<Rightarrow> \<lparr>ou_Result = RESULT_FAILURE, ou_Reason = reason, ou_Code = []\<rparr>
        | None \<Rightarrow> \<lparr>ou_Result = RESULT_SUCCESS, ou_Reason = g_Rule g, ou_Code = []\<rparr>)\<rparr>"

definition recordWithData ::
  "Service \<Rightarrow> string \<Rightarrow> Principal \<Rightarrow> Grant \<Rightarrow> string option \<Rightarrow> Target list \<Rightarrow> Struct option \<Rightarrow> reads_made \<Rightarrow> reads_made"
where
  "recordWithData sv action p g failure targets data rm =
     (case sv_emitter sv of
        None \<Rightarrow> rm
      | Some emit \<Rightarrow>
          (let r = readRecord action p g failure targets data;
               rm' = rm\<lparr>rm_handed := rm_handed rm @ [r]\<rparr>
           in case emit (length (rm_handed rm)) r of
                None \<Rightarrow> rm'
              | Some e \<Rightarrow> rm'\<lparr>rm_unrecorded := rm_unrecorded rm @ [(action, e)]\<rparr>))"

definition record_read :: "Service \<Rightarrow> string \<Rightarrow> Principal \<Rightarrow> Grant \<Rightarrow> string option \<Rightarrow> Target list \<Rightarrow> reads_made \<Rightarrow> reads_made" where
  "record_read sv action p g failure targets rm = recordWithData sv action p g failure targets None rm"

definition failure_of :: "Service \<Rightarrow> query_error + 'a \<Rightarrow> string option" where
  "failure_of sv res = (case res of Inl e \<Rightarrow> Some (sv_say sv e) | Inr _ \<Rightarrow> None)"

definition Service_Search :: "Service \<Rightarrow> Principal \<Rightarrow> SearchRequest \<Rightarrow> reads_made \<Rightarrow> (query_error + Page) \<times> Grant \<times> reads_made" where
  "Service_Search sv p req rm =
     (case allow sv p (sq_Profile req) op_Search of
        Inl e \<Rightarrow> (Inl e, no_grant, rm)
      | Inr g \<Rightarrow>
          (case Compile (sv_is_uuid sv) req of
             Inl e \<Rightarrow> (Inl (Malformed e), g, rm)
           | Inr compiled \<Rightarrow>
               (let q = narrow compiled g in
                case fingerprint q of
                  Inl e \<Rightarrow> (Inl (CursorRefused e), g, rm)
                | Inr mark \<Rightarrow>
                    (case decodeCursor (sq_Cursor req) mark of
                       Inl e \<Rightarrow> (Inl (CursorRefused e), g, rm)
                     | Inr (from_row, backwards) \<Rightarrow>
                         (let page = map_sum SearchFailed (\<lambda>page. page) (sv_Search sv (q\<lparr>q_After := from_row, q_Backwards := backwards\<rparr>))
                          in (page, g,
                              record_read sv ''audit.search'' p g (failure_of sv page)
                                (read_target ''profile'' (sq_Profile req) # tenantTargets g) rm))))))"

record Cursors =
  cs_Self :: string
  cs_First :: string
  cs_Prev :: string
  cs_Next :: string

definition no_boundary :: Boundary where
  "no_boundary = \<lparr>bd_Values = [], bd_ID = [], bd_RecordedAt = zero_time, bd_Sequence = 0\<rparr>"

definition Service_Cursors :: "Service \<Rightarrow> SearchRequest \<Rightarrow> Grant \<Rightarrow> Page \<Rightarrow> query_error + Cursors" where
  "Service_Cursors sv req g page =
     (case Compile (sv_is_uuid sv) req of
        Inl e \<Rightarrow> Inl (Malformed e)
      | Inr compiled \<Rightarrow>
          (case fingerprint (narrow compiled g) of
             Inl e \<Rightarrow> Inl (CursorRefused e)
           | Inr mark \<Rightarrow>
               (case encodeCursor (Some no_boundary) False mark of
                  Inl e \<Rightarrow> Inl (CursorRefused e)
                | Inr first \<Rightarrow>
                    (case encodeCursor (pg_Next page) False mark of
                       Inl e \<Rightarrow> Inl (CursorRefused e)
                     | Inr next_page \<Rightarrow>
                         (if sq_Cursor req = [] then Inr \<lparr>cs_Self = [], cs_First = first, cs_Prev = [], cs_Next = next_page\<rparr>
                          else case encodeCursor (pg_Prev page) True mark of
                                 Inl e \<Rightarrow> Inl (CursorRefused e)
                               | Inr prev \<Rightarrow> Inr \<lparr>cs_Self = sq_Cursor req, cs_First = first, cs_Prev = prev, cs_Next = next_page\<rparr>)))))"

record FacetsRequest =
  fr_Profile :: string
  fr_Filter :: "Filter list"
  fr_Fields :: "string list"
  fr_LimitPerField :: int

definition filter_request :: "string \<Rightarrow> Filter list \<Rightarrow> SearchRequest" where
  "filter_request profile fs = \<lparr>sq_Profile = profile, sq_Filter = fs, sq_Sort = [], sq_Limit = 0, sq_Cursor = [], sq_Q = []\<rparr>"

definition Service_Facets ::
  "Service \<Rightarrow> Principal \<Rightarrow> FacetsRequest \<Rightarrow> reads_made \<Rightarrow> (query_error + (string \<times> FacetValue list) list) \<times> Grant \<times> reads_made"
where
  "Service_Facets sv p req rm =
     (case allow sv p (fr_Profile req) op_Facets of
        Inl e \<Rightarrow> (Inl e, no_grant, rm)
      | Inr g \<Rightarrow>
          (case Compile (sv_is_uuid sv) (filter_request (fr_Profile req) (fr_Filter req)) of
             Inl e \<Rightarrow> (Inl (Malformed e), g, rm)
           | Inr compiled \<Rightarrow>
               (let facets = map_sum SearchFailed (\<lambda>x. x) (sv_Facets sv (narrow compiled g) (fr_Fields req) (fr_LimitPerField req))
                in (facets, g,
                    record_read sv ''audit.facets'' p g (failure_of sv facets) (read_target ''profile'' (fr_Profile req) # tenantTargets g) rm))))"

record GetRequest =
  gr_Profile :: string
  gr_Id :: string

definition sealOf :: "Service \<Rightarrow> string \<Rightarrow> string" where
  "sealOf sv objectKey =
     (case sv_Seals sv of
        None \<Rightarrow> []
      | Some head \<Rightarrow>
          (case ParseRecordKey objectKey of
             None \<Rightarrow> []
           | Some ob \<Rightarrow>
               (let key = SealKey (ro_Profile ob) (ro_Tenant ob) (ro_Hour ob)
                in case head key of Inl e \<Rightarrow> [] | Inr _ \<Rightarrow> key)))"

text \<open>What a record that is not there, and one the caller may not see, is reported as.\<close>

definition text_not_held :: "string \<Rightarrow> string \<Rightarrow> string" where
  "text_not_held ident profile = ''query: not found: index: no such record: '' @ ident @ '' in profile '' @ profile"

definition text_not_granted :: "string \<Rightarrow> string \<Rightarrow> string" where
  "text_not_granted ident profile = ''query: not found: no record '' @ ident @ '' in profile '' @ profile"

definition found :: "Service \<Rightarrow> GetRequest \<Rightarrow> query_error + Row \<times> Provenance" where
  "found sv req =
     (if \<not> sv_is_uuid sv (gr_Id req) then Inl (NotFound (''query: not found: no such record: '' @ chars (Quote (sv_is_print sv) (gr_Id req)) @ '' is not a record id''))
      else case sv_Get sv (gr_Profile req) (gr_Id req) of
             Inl (NotHeld ident profile) \<Rightarrow> Inl (NotFound (text_not_held ident profile))
           | Inl e \<Rightarrow> Inl (SearchFailed e)
           | Inr rw \<Rightarrow> Inr rw)"

definition Service_Get :: "Service \<Rightarrow> Principal \<Rightarrow> GetRequest \<Rightarrow> reads_made \<Rightarrow> (query_error + Row \<times> Provenance) \<times> Grant \<times> reads_made" where
  "Service_Get sv p req rm =
     (case allow sv p (gr_Profile req) op_Get of
        Inl e \<Rightarrow> (Inl e, no_grant, rm)
      | Inr g \<Rightarrow>
          (let got = (case found sv req of
                        Inl e \<Rightarrow> Inl e
                      | Inr (row, where_from) \<Rightarrow>
                          if \<not> tenant_granted (rw_TenantID row) g \<or> \<not> grant_within (rw_OccurredAt row) g
                          then Inl (NotFound (text_not_granted (gr_Id req) (gr_Profile req)))
                          else Inr (row, where_from\<lparr>pv_Digest := sealOf sv (pv_ObjectKey where_from)\<rparr>))
           in (got, g, record_read sv ''audit.get'' p g (failure_of sv got) [read_target ''record'' (gr_Id req)] rm)))"

subsection \<open>What a caller may do\<close>

record ProfileAccess =
  pa_Profile :: string
  pa_Operations :: "string list"
  pa_Grant :: Grant

definition operations :: "string list" where
  "operations = [op_Search, op_Facets, op_Get, op_Tail, op_Export, op_Resolve]"

fun access_ops :: "Grant list \<Rightarrow> string \<Rightarrow> string list \<Rightarrow> ProfileAccess \<Rightarrow> bool \<Rightarrow> ProfileAccess" where
  "access_ops held name [] acc seen = acc"
| "access_ops held name (operation # more_ops) acc seen =
     (case Effective held name operation of
        Inl e \<Rightarrow> access_ops held name more_ops acc seen
      | Inr g \<Rightarrow>
          (let acc = acc\<lparr>pa_Operations := pa_Operations acc @ [operation]\<rparr>
           in if \<not> seen \<or> operation = op_Search then access_ops held name more_ops (acc\<lparr>pa_Grant := g\<rparr>) True
              else access_ops held name more_ops acc seen))"

definition named_profiles :: "Grant list \<Rightarrow> string list" where
  "named_profiles held = rev (remdups (rev (concat (map g_Profiles held))))"

definition Access :: "Service \<Rightarrow> Principal \<Rightarrow> query_error + ProfileAccess list" where
  "Access sv p =
     (case sv_Grants sv p of
        Inl e \<Rightarrow> Inl (Denied e)
      | Inr held \<Rightarrow>
          Inr (filter (\<lambda>a. pa_Operations a \<noteq> [])
            (map (\<lambda>name. access_ops held name operations \<lparr>pa_Profile = name, pa_Operations = [], pa_Grant = no_grant\<rparr> False) (named_profiles held))))"

section \<open>On the wire\<close>

datatype code = PermissionDenied | InvalidArgument | ResourceExhausted | Unimplemented | CodeNotFound | Unavailable

text \<open>Whether a refusal of the compiler says the request is malformed or asks too much.\<close>

definition asks_too_much :: "compile_error \<Rightarrow> bool" where
  "asks_too_much e = (case e of ConjunctionsOver _ _ \<Rightarrow> True | SortsOver _ _ \<Rightarrow> True | ValuesOver _ _ _ \<Rightarrow> True | _ \<Rightarrow> False)"

definition wire :: "query_error \<Rightarrow> code" where
  "wire e =
     (case e of
        Denied _ \<Rightarrow> PermissionDenied
      | CursorRefused CursorMismatch \<Rightarrow> InvalidArgument
      | CursorRefused NotOurs \<Rightarrow> InvalidArgument
      | CursorRefused _ \<Rightarrow> Unavailable
      | Malformed c \<Rightarrow> (if asks_too_much c then ResourceExhausted else InvalidArgument)
      | NotOffered _ \<Rightarrow> Unimplemented
      | NotFound _ \<Rightarrow> CodeNotFound
      | SearchFailed _ \<Rightarrow> Unavailable)"

section \<open>Searchers\<close>

text \<open>
  What the service relies on of a searcher: what it answers is held under the profile, is of the tenants of the
  query unless it names none, and matches the filter.
\<close>

locale searcher =
  fixes search :: "Query \<Rightarrow> search_error + Page"
    and get :: "string \<Rightarrow> string \<Rightarrow> search_error + Row \<times> Provenance"
    and held_rows :: "string \<Rightarrow> (string \<times> Row) set"
  assumes search_sound: "search q = Inr page \<Longrightarrow> r \<in> set (pg_Rows page)
      \<Longrightarrow> r \<in> snd ` held_rows (q_Profile q) \<and> granted r (q_Tenants q) \<and> Matches r (q_Filter q)"
    and get_sound: "get profile ident = Inr (r, w) \<Longrightarrow> (ident, r) \<in> held_rows profile"

text \<open>A row of a narrowed query is inside the grant, and matches the filter that was narrowed.\<close>

lemma Matches_clamp:
  assumes "Matches r (q_Filter (clamp q (g_From g) (g_Until g)))"
  shows "Matches r (q_Filter q) \<and> in_window g (rw_OccurredAt r)"
proof (cases "g_From g = zero_time \<and> g_Until g = zero_time")
  case True
  then show ?thesis using assms by (simp add: clamp_def in_window_def)
next
  case False
  let ?w = "\<lparr>tp_From = g_From g, tp_To = g_Until g\<rparr>"
  obtain c where c: "c \<in> set (if q_Filter q = [] then [no_conjunction] else q_Filter q)"
    "holds r (c\<lparr>cj_OccurredAt := cj_OccurredAt c @ [?w]\<rparr>)"
    using assms False by (auto simp: clamp_def Matches_def split: if_splits)
  then have "holds r c" "tm_within (rw_OccurredAt r) ?w" by (auto simp: holds_def text_terms_def)
  then show ?thesis using c(1) by (auto simp: Matches_def in_window_def tm_within_def split: if_splits)
qed

lemma Effective_names_tenants:
  assumes "Effective held profile operation = Inr g" "\<not> g_AllTenants g"
  shows "g_Tenants g \<noteq> []"
proof -
  from assms(1) obtain win u where e: "filter (covers profile operation) held \<noteq> []"
    "g_AllTenants g \<longleftrightarrow> (\<exists>h \<in> set (filter (covers profile operation) held). g_AllTenants h)"
    "g_Tenants g = (if g_AllTenants g then [] else sort_names (concat (map g_Tenants (filter (covers profile operation) held))))"
    by (rule Effective_grant [OF _ refl])
  obtain h where h: "h \<in> set held" "covers profile operation h" using e(1) by (auto simp: filter_empty_conv)
  then have "g_Tenants h \<noteq> []" using e(2) assms(2) by (auto simp: covers_def)
  then obtain t where "t \<in> set (g_Tenants h)" by (cases "g_Tenants h") auto
  then have "t \<in> set (g_Tenants g)" using e(3) assms(2) h by (auto simp: sort_names_def)
  then show ?thesis by auto
qed

lemma granted_for_tenant:
  assumes "Effective held profile operation = Inr g" "granted r (TenantFilter g)"
  shows "for_tenant g (rw_TenantID r)"
  using assms Effective_names_tenants [OF assms(1)] by (auto simp: granted_def TenantFilter_def for_tenant_def split: if_splits)

lemma Effective_Allows: "Effective held profile operation = Inr g \<Longrightarrow> Allows g profile operation"
  by (erule Effective_grant [OF _ refl]) (simp add: Allows_def)

lemma narrow_simps [simp]:
  "q_Profile (narrow q g) = q_Profile q" "q_Tenants (narrow q g) = TenantFilter g" "q_Sort (narrow q g) = q_Sort q"
  by (simp_all add: narrow_def clamp_def)

lemma Matches_narrow: "Matches r (q_Filter (narrow q g)) \<Longrightarrow> Matches r (q_Filter q) \<and> in_window g (rw_OccurredAt r)"
  unfolding narrow_def using Matches_clamp [of r "q\<lparr>q_Tenants := TenantFilter g\<rparr>" g] by simp

lemma allow_Inr: "allow sv p profile operation = Inr g \<longleftrightarrow> (\<exists>held. sv_Grants sv p = Inr held \<and> Effective held profile operation = Inr g)"
proof (cases "sv_Grants sv p")
  case (Inr held)
  then show ?thesis by (cases "Effective held profile operation") (simp_all add: allow_def)
qed (simp add: allow_def)

lemma allow_Inl: "allow sv p profile operation = Inl e \<Longrightarrow> \<exists>d. e = Denied d"
proof (cases "sv_Grants sv p")
  case (Inr held)
  then show "allow sv p profile operation = Inl e \<Longrightarrow> \<exists>d. e = Denied d"
    by (cases "Effective held profile operation") (auto simp: allow_def)
qed (auto simp: allow_def)

lemma Compile_profile: "Compile is_uuid req = Inr q \<Longrightarrow> q_Profile q = sq_Profile req \<and> q_After q = None \<and> \<not> q_Backwards q"
  by (auto simp: Compile_def split: if_splits sum.splits)

text \<open>The steps of a search that reaches the searcher.\<close>

lemma Service_Search_asked:
  assumes "Service_Search sv p req rm = (res, g, rm')" "\<forall>e. res = Inl e \<longrightarrow> (\<exists>s. e = SearchFailed s)"
  obtains held compiled mark from_row backwards where
    "sv_Grants sv p = Inr held" "Effective held (sq_Profile req) op_Search = Inr g" "Compile (sv_is_uuid sv) req = Inr compiled"
    "fingerprint (narrow compiled g) = Inr mark" "decodeCursor (sq_Cursor req) mark = Inr (from_row, backwards)"
    "res = map_sum SearchFailed (\<lambda>page. page) (sv_Search sv ((narrow compiled g)\<lparr>q_After := from_row, q_Backwards := backwards\<rparr>))"
    "rm' = record_read sv ''audit.search'' p g (failure_of sv res) (read_target ''profile'' (sq_Profile req) # tenantTargets g) rm"
proof -
  obtain g1 where a: "allow sv p (sq_Profile req) op_Search = Inr g1"
    using assms allow_Inl by (cases "allow sv p (sq_Profile req) op_Search") (fastforce simp: Service_Search_def)+
  obtain compiled where c: "Compile (sv_is_uuid sv) req = Inr compiled" using assms a by (auto simp: Service_Search_def split: sum.splits)
  obtain mark where m: "fingerprint (narrow compiled g1) = Inr mark" using assms a c by (auto simp: Service_Search_def Let_def split: sum.splits)
  obtain from_row backwards where d: "decodeCursor (sq_Cursor req) mark = Inr (from_row, backwards)"
    using assms a c m by (auto simp: Service_Search_def Let_def split: sum.splits)
  obtain held where h: "sv_Grants sv p = Inr held" "Effective held (sq_Profile req) op_Search = Inr g1" using a unfolding allow_Inr by blast
  have "g1 = g" using assms(1) a c m d by (simp add: Service_Search_def Let_def)
  then show thesis using that [OF h(1) _ c] h(2) m d assms(1) a c by (auto simp: Service_Search_def Let_def)
qed

context searcher
begin

lemma answers_within_grant:
  assumes "Service_Search sv p req rm = (Inr page, g, rm')" "sv_Search sv = search"
  obtains held compiled where "sv_Grants sv p = Inr held" "Effective held (sq_Profile req) op_Search = Inr g"
    "Compile (sv_is_uuid sv) req = Inr compiled"
    "\<And>r. r \<in> set (pg_Rows page) \<Longrightarrow> r \<in> snd ` held_rows (sq_Profile req) \<and> Matches r (q_Filter compiled)
      \<and> lets_see g (sq_Profile req) op_Search (rw_TenantID r) (rw_OccurredAt r)"
proof -
  obtain held compiled mark from_row backwards where s: "sv_Grants sv p = Inr held" "Effective held (sq_Profile req) op_Search = Inr g"
    "Compile (sv_is_uuid sv) req = Inr compiled"
    "Inr page = map_sum SearchFailed (\<lambda>page. page) (sv_Search sv ((narrow compiled g)\<lparr>q_After := from_row, q_Backwards := backwards\<rparr>))"
    by (rule Service_Search_asked [OF assms(1)]) auto
  have page: "search ((narrow compiled g)\<lparr>q_After := from_row, q_Backwards := backwards\<rparr>) = Inr page"
    using s(4) assms(2) by (cases "search ((narrow compiled g)\<lparr>q_After := from_row, q_Backwards := backwards\<rparr>)") auto
  have "r \<in> snd ` held_rows (sq_Profile req) \<and> Matches r (q_Filter compiled) \<and> lets_see g (sq_Profile req) op_Search (rw_TenantID r) (rw_OccurredAt r)"
    if "r \<in> set (pg_Rows page)" for r
    using search_sound [OF page that] Compile_profile [OF s(3)] Matches_narrow [of r compiled g] granted_for_tenant [OF s(2), of r] Effective_Allows [OF s(2)]
    by (simp add: lets_see_def)
  then show thesis using that s by blast
qed

end

definition Memory_Get :: "Memory \<Rightarrow> string \<Rightarrow> string \<Rightarrow> search_error + Row \<times> Provenance" where
  "Memory_Get m profile ident =
     map_sum (\<lambda>e. e) (\<lambda>r. (r, \<lparr>pv_ObjectKey = rw_ObjectKey r, pv_Line = rw_Line r, pv_Digest = [], pv_VerifiedAt = zero_time\<rparr>)) (Search_Get m profile ident)"

lemma after_sub: "after rows order want backwards = Some out \<Longrightarrow> set out \<subseteq> set rows"
  by (induction rows arbitrary: out) (auto split: option.splits bool.splits prod.splits)

lemma Search_rows:
  assumes "Search m q = Inr page" "r \<in> set (pg_Rows page)"
  shows "r \<in> set (matching m q)"
proof -
  have ranked: "set (sortRows (matching m q) (searchOrder (q_Sort q))) = set (matching m q)" by simp
  obtain matched where m: "(case q_After q of None \<Rightarrow> Some (sortRows (matching m q) (searchOrder (q_Sort q)))
      | Some b \<Rightarrow> after (sortRows (matching m q) (searchOrder (q_Sort q))) (searchOrder (q_Sort q)) (bd_Values b @ [bd_ID b]) (q_Backwards q)) = Some matched"
    using assms(1) by (auto simp: Search_def Let_def split: if_splits option.splits)
  have "set matched \<subseteq> set (matching m q)" using m ranked by (auto split: option.splits dest!: after_sub)
  moreover have "r \<in> set matched" using assms m
    by (auto simp: Search_def Let_def split: if_splits dest!: in_set_takeD)
  ultimately show ?thesis by blast
qed

interpretation memory_searcher: searcher "Search m" "Memory_Get m" "\<lambda>profile. set (mi_rows m profile)" for m
proof
  fix q page r assume "Search m q = Inr page" "r \<in> set (pg_Rows page)"
  then have "r \<in> set (matching m q)" by (rule Search_rows)
  then show "r \<in> snd ` set (mi_rows m (q_Profile q)) \<and> granted r (q_Tenants q) \<and> Matches r (q_Filter q)"
    by (auto simp: matching_def Rows_def)
next
  fix profile ident r w assume "Memory_Get m profile ident = Inr (r, w)"
  then show "(ident, r) \<in> set (mi_rows m profile)"
    by (auto simp: Memory_Get_def Search_Get_def Index_Row_def map_sum_Inr split: option.splits dest: map_of_SomeD)
qed

section \<open>Cursors on the wire\<close>

lemma hex_plain: "plain_text (hex_EncodeToString b)"
proof -
  have "nat n < length ''0123456789abcdef''" if "0 \<le> n" "n < 16" for n :: int using that by simp
  then have d: "hex_digit n \<in> set ''0123456789abcdef''" if "0 \<le> n" "n < 16" for n using that nth_mem unfolding hex_digit_def by blast
  have "hex_digit (of_char c div 16) \<in> set ''0123456789abcdef''" "hex_digit (of_char c mod 16) \<in> set ''0123456789abcdef''" for c
  proof -
    have "(of_char c :: int) < 256" "0 \<le> (of_char c :: int)" using of_char_mod_256 [of c] by (metis pos_mod_bound pos_mod_sign zero_less_numeral)+
    then show "hex_digit (of_char c div 16) \<in> set ''0123456789abcdef''" "hex_digit (of_char c mod 16) \<in> set ''0123456789abcdef''"
      using d by simp_all
  qed
  moreover have "(45::nat) \<le> of_char c \<and> of_char c < (128::nat) \<and> of_char c \<notin> {60, 62, 92::nat}" if "c \<in> set ''0123456789abcdef''" for c
    using that by auto
  ultimately show ?thesis unfolding plain_text_def hex_EncodeToString_def nats_def by (induction b) simp_all
qed

lemma fingerprint_plain: "fingerprint q = Inr mark \<Longrightarrow> utf8_string mark"
  using plain_utf8 hex_plain by (auto simp: fingerprint_def split: if_splits sum.splits)

lemma Compile_cursor [simp]: "Compile is_uuid (req\<lparr>sq_Cursor := t\<rparr>) = Compile is_uuid req"
  by (simp add: Compile_def split: sum.split)

section \<open>Properties\<close>

text \<open>
  C14: Every row a search answers with, over the index in memory, is a row of the profile that was asked for, matches
  the filter that was compiled from the request, is inside the window of the effective grant of the caller, and is of
  a tenant that one of the grants they hold covers for searching that profile, whatever the cursor says.
\<close>

theorem search_shows_granted:
  assumes "Service_Search sv p req rm = (Inr page, g, rm')" "sv_Search sv = Search m"
  shows "\<exists>held compiled. sv_Grants sv p = Inr held \<and> Effective held (sq_Profile req) op_Search = Inr g
    \<and> Compile (sv_is_uuid sv) req = Inr compiled
    \<and> (\<forall>r \<in> set (pg_Rows page). r \<in> set (Rows m (sq_Profile req)) \<and> Matches r (q_Filter compiled) \<and> in_window g (rw_OccurredAt r)
        \<and> (\<exists>h \<in> set held. covers (sq_Profile req) op_Search h \<and> for_tenant h (rw_TenantID r)))"
proof -
  obtain held compiled where s: "sv_Grants sv p = Inr held" "Effective held (sq_Profile req) op_Search = Inr g"
    "Compile (sv_is_uuid sv) req = Inr compiled"
    and rows: "\<And>r. r \<in> set (pg_Rows page) \<Longrightarrow> r \<in> snd ` set (mi_rows m (sq_Profile req)) \<and> Matches r (q_Filter compiled)
      \<and> lets_see g (sq_Profile req) op_Search (rw_TenantID r) (rw_OccurredAt r)"
    using memory_searcher.answers_within_grant [OF assms] by blast
  have "r \<in> set (Rows m (sq_Profile req)) \<and> Matches r (q_Filter compiled) \<and> in_window g (rw_OccurredAt r)
      \<and> (\<exists>h \<in> set held. covers (sq_Profile req) op_Search h \<and> for_tenant h (rw_TenantID r))" if "r \<in> set (pg_Rows page)" for r
    using rows [OF that] Effective_for_tenant [OF s(2), of "rw_TenantID r"] by (auto simp: lets_see_def Rows_def)
  then show ?thesis using s by blast
qed

text \<open>
  C15: A record that is answered by its identifier is held under that identifier in the profile that was asked for,
  happened inside the window of the effective grant, and is of a tenant that a grant the caller holds covers.
\<close>

theorem get_shows_granted:
  assumes "Service_Get sv p req rm = (Inr (r, w), g, rm')" "sv_Get sv = Memory_Get m"
  shows "\<exists>held. sv_Grants sv p = Inr held \<and> Effective held (gr_Profile req) op_Get = Inr g \<and> (gr_Id req, r) \<in> set (mi_rows m (gr_Profile req))
    \<and> in_window g (rw_OccurredAt r) \<and> (\<exists>h \<in> set held. covers (gr_Profile req) op_Get h \<and> for_tenant h (rw_TenantID r))"
proof -
  obtain g1 where a: "allow sv p (gr_Profile req) op_Get = Inr g1" using assms(1) by (auto simp: Service_Get_def split: sum.splits)
  then have g: "g1 = g" using assms(1) by (simp add: Service_Get_def Let_def)
  obtain held where h: "sv_Grants sv p = Inr held" "Effective held (gr_Profile req) op_Get = Inr g" using a g unfolding allow_Inr by blast
  obtain w1 where f: "found sv req = Inr (r, w1)" "tenant_granted (rw_TenantID r) g" "grant_within (rw_OccurredAt r) g"
    using assms(1) a g by (auto simp: Service_Get_def Let_def split: sum.splits prod.splits if_splits)
  have "Memory_Get m (gr_Profile req) (gr_Id req) = Inr (r, w1)"
    using f(1) assms(2) by (auto simp: found_def split: if_splits sum.splits search_error.splits)
  then have "(gr_Id req, r) \<in> set (mi_rows m (gr_Profile req))" by (rule memory_searcher.get_sound)
  moreover have "in_window g (rw_OccurredAt r)" using f(3) by (auto simp: grant_within_def in_window_def split: if_splits)
  moreover have "for_tenant g (rw_TenantID r)" using f(2) by (auto simp: tenant_granted_def for_tenant_def split: if_splits)
  ultimately show ?thesis using h Effective_for_tenant [OF h(2)] by blast
qed


text \<open>
  C19: The \<open>next\<close> cursor of a page, sent back with the same request by the same caller under the same grants, is read as
  the boundary of that page: the searcher is asked the same narrowed question from there on, forwards.
\<close>

theorem next_cursor_continues:
  assumes "Service_Search sv p req rm = (Inr page, g, rm')" "Service_Cursors sv req g page = Inr cs" "pg_Next page = Some b"
    and "list_all utf8_string (bd_Values b)" "utf8_string (bd_ID b)" "writable_time (bd_RecordedAt b)"
    and "int (unat (bd_Sequence b)) \<le> max_exact" "bd_ID b \<noteq> []"
  shows "\<exists>compiled. Compile (sv_is_uuid sv) req = Inr compiled
    \<and> fst (Service_Search sv p (req\<lparr>sq_Cursor := cs_Next cs\<rparr>) rm2)
      = map_sum SearchFailed (\<lambda>page. page) (sv_Search sv ((narrow compiled g)\<lparr>q_After := Some b, q_Backwards := False\<rparr>))"
proof -
  obtain held compiled mark where s: "sv_Grants sv p = Inr held" "Effective held (sq_Profile req) op_Search = Inr g"
    "Compile (sv_is_uuid sv) req = Inr compiled" "fingerprint (narrow compiled g) = Inr mark"
    by (rule Service_Search_asked [OF assms(1)]) auto
  have "encodeCursor (Some b) False mark = Inr (cs_Next cs)"
    using assms(2,3) s(3,4) by (auto simp: Service_Cursors_def split: sum.splits if_splits)
  moreover obtain line where "encodeCursor (Some b) False mark = Inr line" "decodeCursor line mark = Inr (Some b, False)"
    using cursor_back [OF assms(4,5) fingerprint_plain [OF s(4)] assms(6,7), of False] assms(8) by blast
  ultimately have "decodeCursor (cs_Next cs) mark = Inr (Some b, False)" by simp
  moreover have "allow sv p (sq_Profile req) op_Search = Inr g" using s(1,2) allow_Inr by blast
  ultimately show ?thesis using s(3,4) by (simp add: Service_Search_def Let_def)
qed

lemma access_ops_result:
  "pa_Profile (access_ops held name ops acc seen) = pa_Profile acc"
  "pa_Operations (access_ops held name ops acc seen) = pa_Operations acc @ filter (\<lambda>operation. \<exists>g. Effective held name operation = Inr g) ops"
  by (induction held name ops acc seen rule: access_ops.induct) (auto simp: Let_def split: sum.splits)

lemma named_profiles_set: "set (named_profiles held) = (\<Union>g \<in> set held. set (g_Profiles g))"
  by (simp add: named_profiles_def)

lemma Effective_named: "Effective held name operation = Inr g \<Longrightarrow> name \<in> set (named_profiles held)"
proof -
  assume "Effective held name operation = Inr g"
  then have "filter (covers name operation) held \<noteq> []" by (rule Effective_grant [OF _ refl])
  then show ?thesis by (auto simp: filter_empty_conv named_profiles_set covers_def Allows_def)
qed

text \<open>
  What a caller is told they may do is what they are allowed: an operation is listed under a profile exactly when
  a request for it is given a grant.
\<close>

theorem access_is_what_is_allowed:
  assumes "Access sv p = Inr accs" "operation \<in> set operations"
  shows "(\<exists>a \<in> set accs. pa_Profile a = name \<and> operation \<in> set (pa_Operations a)) \<longleftrightarrow> (\<exists>g. allow sv p name operation = Inr g)"
proof -
  obtain held where held: "sv_Grants sv p = Inr held" using assms(1) by (auto simp: Access_def split: sum.splits)
  let ?a = "\<lambda>name. access_ops held name operations \<lparr>pa_Profile = name, pa_Operations = [], pa_Grant = no_grant\<rparr> False"
  have accs: "accs = filter (\<lambda>a. pa_Operations a \<noteq> []) (map ?a (named_profiles held))" using assms(1) held by (simp add: Access_def)
  have "(\<exists>a \<in> set accs. pa_Profile a = name \<and> operation \<in> set (pa_Operations a))
      \<longleftrightarrow> name \<in> set (named_profiles held) \<and> operation \<in> set (pa_Operations (?a name))"
    by (auto simp: accs access_ops_result filter_empty_conv)
  also have "\<dots> \<longleftrightarrow> name \<in> set (named_profiles held) \<and> (\<exists>g. Effective held name operation = Inr g)"
    using assms(2) by (simp add: access_ops_result)
  also have "\<dots> \<longleftrightarrow> (\<exists>g. allow sv p name operation = Inr g)" using Effective_named held by (auto simp: allow_Inr)
  finally show ?thesis .
qed

section \<open>An example\<close>

definition example_service :: "Memory \<Rightarrow> Service" where
  "example_service m = \<lparr>sv_Search = Search m, sv_Facets = (\<lambda>q names limit. Inr (Search_Facets m q names limit)), sv_Get = Memory_Get m,
     sv_Grants = (\<lambda>p. Inr [\<lparr>g_AllTenants = False, g_Tenants = [''acme''], g_Profiles = [''security''], g_Operations = [op_Search, op_Get],
       g_From = zero_time, g_Until = zero_time, g_Rule = ''r''\<rparr>]),
     sv_emitter = Some (\<lambda>n r. None), sv_Seals = None, sv_is_uuid = (\<lambda>s. True), sv_is_print = (\<lambda>r. True), sv_say = (\<lambda>e. [])\<rparr>"

definition example_caller :: Principal where
  "example_caller = \<lparr>p_Issuer = ''issuer'', p_Subject = ''alice'', p_Claims = [], p_Via = ''jwt''\<rparr>"

definition no_reads :: reads_made where
  "no_reads = \<lparr>rm_handed = [], rm_unrecorded = []\<rparr>"

definition example_request :: SearchRequest where
  "example_request = \<lparr>sq_Profile = ''security'', sq_Filter = [], sq_Sort = [], sq_Limit = 0, sq_Cursor = [], sq_Q = []\<rparr>"

definition narrowed_example :: Query where
  "narrowed_example = \<lparr>q_Profile = ''security'', q_Tenants = [''acme''], q_Filter = [], q_Sort = [], q_Limit = 0, q_After = None, q_Backwards = False\<rparr>"

definition example_given :: "string \<Rightarrow> Grant" where
  "example_given operation = \<lparr>g_AllTenants = False, g_Tenants = [''acme''], g_Profiles = [''security''], g_Operations = [operation],
     g_From = zero_time, g_Until = zero_time, g_Rule = ''r''\<rparr>"

lemma example_effective_grant:
  "operation \<in> {op_Search, op_Get} \<Longrightarrow> allow (example_service m) p ''security'' operation = Inr (example_given operation)"
  by (auto simp: allow_def example_service_def Effective_def covers_def Allows_def windowless_def sort_names_def example_given_def)

lemma example_compiled: "Compile (sv_is_uuid (example_service m)) example_request = Inr (narrowed_example\<lparr>q_Tenants := []\<rparr>)"
  by (simp add: Compile_def example_request_def narrowed_example_def example_service_def)

lemma example_narrowed: "narrow (narrowed_example\<lparr>q_Tenants := []\<rparr>) (example_given operation) = narrowed_example"
  by (simp add: narrow_def clamp_def TenantFilter_def example_given_def narrowed_example_def)

lemma reads_whole: "reads v b \<Longrightarrow> int (jdepth v) \<le> maxNestingDepth \<Longrightarrow> read_value [] b = Some (v, [])"
  unfolding reads_def by (metis add_0 append_Nil2 list.size(3) read_after.simps(1) stops_marks(4))

lemma example_fingerprint: "\<exists>mark. fingerprint narrowed_example = Inr mark"
proof -
  let ?v = "JObject [(''profile'', JString ''security''), (''tenants'', JArray [JString ''acme''])]"
  have plain: "plain_text ''profile''" "plain_text ''tenants''" "plain_text ''security''" "plain_text ''acme''"
    by (simp_all add: plain_text_def nats_def)
  note utf8 = plain [THEN plain_utf8]
  let ?text = "marshal_struct [(''profile'', marshal_string ''security''), (''tenants'', marshal_slice marshal_string [''acme''])]"
  have "reads ?v ?text"
    unfolding marshal_struct_def using plain utf8 reads_strings [of "[''acme'']"]
    by (intro reads_object) (auto intro!: reads_string_member reads_marshal_string)
  then have "read_value [] ?text = Some (?v, [])"
    using reads_whole [of ?v ?text] by (simp add: maxNestingDepth_def)
  moreover have "list_all (\<lambda>b. b < 256) ?text"
    using plain by (simp add: marshal_struct_def marshal_member_def marshal_slice_def plain_written nats_def list_all_iff)
  ultimately have "\<exists>t. canonicalJSON (chars ?text) = Inr t" by (simp add: canonicalJSON_def nats_chars write_member_def by_name_def)
  then show ?thesis by (auto simp: fingerprint_def narrowed_example_def query_shape_def)
qed

lemma example_searched:
  "\<exists>page rm. Service_Search (example_service m) example_caller example_request no_reads = (Inr page, example_given op_Search, rm)
    \<and> Search m narrowed_example = Inr page"
proof -
  obtain mark where mark: "fingerprint narrowed_example = Inr mark" using example_fingerprint by blast
  obtain page where page: "Search m narrowed_example = Inr page"
    by (auto simp: Search_def narrowed_example_def MaxConjunctions_def Let_def split: if_splits)
  have "narrowed_example\<lparr>q_After := None, q_Backwards := False\<rparr> = narrowed_example" by (simp add: narrowed_example_def)
  moreover have "sq_Profile example_request = ''security''" "sq_Cursor example_request = []" by (simp_all add: example_request_def)
  moreover have "sv_Search (example_service m) = Search m" by (simp add: example_service_def)
  ultimately show ?thesis using mark page
    by (simp add: Service_Search_def example_effective_grant example_compiled example_narrowed decodeCursor_def Let_def)
qed

theorem search_shows_granted_witness:
  "\<exists>page rm. Service_Search (example_service example_index) example_caller example_request no_reads = (Inr page, example_given op_Search, rm)
    \<and> set (pg_Rows page) \<subseteq> set (Rows example_index ''security'')"
proof -
  obtain page rm where s: "Service_Search (example_service example_index) example_caller example_request no_reads = (Inr page, example_given op_Search, rm)"
    using example_searched by blast
  moreover have "sv_Search (example_service example_index) = Search example_index" by (simp add: example_service_def)
  ultimately have "set (pg_Rows page) \<subseteq> set (Rows example_index (sq_Profile example_request))" using search_shows_granted by blast
  then show ?thesis using s by (auto simp: example_request_def)
qed


theorem access_is_what_is_allowed_witness:
  "\<exists>accs. Access (example_service example_index) example_caller = Inr accs
    \<and> (\<exists>a \<in> set accs. pa_Profile a = ''security'' \<and> op_Search \<in> set (pa_Operations a))"
proof -
  obtain accs where accs: "Access (example_service example_index) example_caller = Inr accs" by (simp add: Access_def example_service_def)
  have "op_Search \<in> set operations" by (simp add: operations_def)
  from access_is_what_is_allowed [OF accs this, of "''security''"] accs example_effective_grant [of op_Search example_index example_caller]
  show ?thesis by blast
qed

definition example_get :: GetRequest where
  "example_get = \<lparr>gr_Profile = ''security'', gr_Id = ''1''\<rparr>"

lemma example_found_row: "found (example_service example_index) example_get
    = Inr (example_row ''1'' ''acme'' 0, \<lparr>pv_ObjectKey = [], pv_Line = 0, pv_Digest = [], pv_VerifiedAt = zero_time\<rparr>)"
  by (simp add: found_def example_get_def example_service_def Memory_Get_def Search_Get_def Index_Row_def example_index_rows example_row_def RowOf_def)

theorem get_shows_granted_witness:
  "\<exists>w rm. Service_Get (example_service example_index) example_caller example_get no_reads = (Inr (example_row ''1'' ''acme'' 0, w), example_given op_Get, rm)
    \<and> (''1'', example_row ''1'' ''acme'' 0) \<in> set (mi_rows example_index ''security'')"
proof -
  have "tenant_granted (rw_TenantID (example_row ''1'' ''acme'' 0)) (example_given op_Get)" "grant_within (rw_OccurredAt (example_row ''1'' ''acme'' 0)) (example_given op_Get)"
    by (simp_all add: tenant_granted_def grant_within_def example_given_def example_row_def RowOf_def)
  moreover have "gr_Profile example_get = ''security''" by (simp add: example_get_def)
  ultimately have "\<exists>w rm. Service_Get (example_service example_index) example_caller example_get no_reads
      = (Inr (example_row ''1'' ''acme'' 0, w), example_given op_Get, rm)"
    by (simp add: Service_Get_def example_found_row example_effective_grant Let_def)
  then obtain w rm where s: "Service_Get (example_service example_index) example_caller example_get no_reads
      = (Inr (example_row ''1'' ''acme'' 0, w), example_given op_Get, rm)" by blast
  moreover have "sv_Get (example_service example_index) = Memory_Get example_index" by (simp add: example_service_def)
  ultimately have "(gr_Id example_get, example_row ''1'' ''acme'' 0) \<in> set (mi_rows example_index (gr_Profile example_get))"
    using get_shows_granted by blast
  then show ?thesis using s by (auto simp: example_get_def)
qed

text \<open>
  A record that is there and not the caller's to see is reported with another text than one that is not there: the
  two answers have one code, and are told apart by their message.
\<close>

theorem absence_told_apart:
  defines "hidden \<equiv> Index NewIndex ''security'' [example_row ''1'' ''globex'' 0]"
  shows "\<exists>a b. fst (Service_Get (example_service hidden) example_caller example_get no_reads) = Inl a
    \<and> fst (Service_Get (example_service NewIndex) example_caller example_get no_reads) = Inl b
    \<and> wire a = CodeNotFound \<and> wire b = CodeNotFound
    \<and> a = NotFound (text_not_granted ''1'' ''security'') \<and> b = NotFound (text_not_held ''1'' ''security'') \<and> a \<noteq> b"
proof -
  have "found (example_service hidden) example_get
      = Inr (example_row ''1'' ''globex'' 0, \<lparr>pv_ObjectKey = [], pv_Line = 0, pv_Digest = [], pv_VerifiedAt = zero_time\<rparr>)"
    by (simp add: found_def example_get_def example_service_def Memory_Get_def Search_Get_def Index_Row_def hidden_def Index_def NewIndex_def
        example_row_def RowOf_def)
  moreover have "\<not> tenant_granted (rw_TenantID (example_row ''1'' ''globex'' 0)) (example_given op_Get)"
    by (simp add: tenant_granted_def example_given_def example_row_def RowOf_def)
  moreover have "found (example_service NewIndex) example_get = Inl (NotFound (text_not_held ''1'' ''security''))"
    by (simp add: found_def example_get_def example_service_def Memory_Get_def Search_Get_def Index_Row_def NewIndex_def)
  moreover have "text_not_granted ''1'' ''security'' \<noteq> text_not_held ''1'' ''security''"
    by (simp add: text_not_granted_def text_not_held_def)
  moreover have "gr_Profile example_get = ''security''" "gr_Id example_get = ''1''" by (simp_all add: example_get_def)
  ultimately show ?thesis by (simp add: Service_Get_def Let_def example_effective_grant wire_def)
qed

section \<open>The second page of the example\<close>

lemma encodeCursor_ok:
  assumes "list_all utf8_string (bd_Values b)" "utf8_string (bd_ID b)" "utf8_string mark" "writable_time (bd_RecordedAt b)"
    "int (unat (bd_Sequence b)) \<le> max_exact"
  shows "\<exists>t. encodeCursor (Some b) backwards mark = Inr t"
proof -
  let ?c = "\<lparr>cu_Values = bd_Values b, cu_ID = bd_ID b, cu_RecordedAt = bd_RecordedAt b, cu_Sequence = bd_Sequence b,
    cu_Backwards = backwards, cu_Query = mark\<rparr>"
  have "writable_cursor ?c" using assms by (simp add: writable_cursor_def)
  then show ?thesis using Unmarshal_written assms(4) by (fastforce simp: encodeCursor_def)
qed

lemma writable_examples: "writable_time 0" "writable_time zero_time"
  by (simp_all add: writable_time_def zero_time_def day_ns_def Year_def day_number_def year_yday_def Let_def)

definition example_last :: Boundary where
  "example_last = \<lparr>bd_Values = [FormatRFC3339Nano 0], bd_ID = ''2'', bd_RecordedAt = 0, bd_Sequence = 0\<rparr>"

lemma example_page_ends: "Search example_index narrowed_example = Inr page \<Longrightarrow> pg_Next page = Some example_last"
proof -
  assume page: "Search example_index narrowed_example = Inr page"
  let ?o = "searchOrder []" and ?a = "example_row ''1'' ''acme'' 0" and ?b = "example_row ''2'' ''acme'' 0"
  have o: "?o = [\<lparr>sb_Field = SortOccurredAt, sb_Descending = True\<rparr>, \<lparr>sb_Field = SortID, sb_Descending = False\<rparr>]"
    by (simp add: searchOrder_def Let_def SortID_def SortOccurredAt_def)
  have keys: "key ?a SortID = ''1''" "key ?b SortID = ''2''" "key ?a SortOccurredAt = FormatRFC3339Nano 0" "key ?b SortOccurredAt = FormatRFC3339Nano 0"
    by (simp_all add: key_def example_row_def RowOf_def AsTime_def SortID_def SortOccurredAt_def SortRecordedAt_def SortAction_def SortTenantID_def
        SortSource_def)
  have "Rows example_index ''security'' = [?a, ?b]" by (simp add: Rows_def example_index_rows example_row_def RowOf_def AsTime_def)
  then have "matching example_index narrowed_example = [?a, ?b]"
    by (simp add: matching_def narrowed_example_def granted_def Matches_def) (simp add: example_row_def RowOf_def)
  moreover have "sortRows [?a, ?b] ?o = [?a, ?b]" by (simp add: sortRows_def o keys)
  moreover have "boundary ?b ?o = example_last"
    by (simp add: boundary_def o keys example_last_def) (simp add: example_row_def RowOf_def AsTime_def empty_record_def)
  ultimately show ?thesis using page
    by (auto simp: Search_def Let_def narrowed_example_def MaxConjunctions_def page_limit_def)
qed

theorem next_cursor_continues_witness:
  "\<exists>cs. fst (Service_Search (example_service example_index) example_caller (example_request\<lparr>sq_Cursor := cs\<rparr>) no_reads)
    = map_sum SearchFailed (\<lambda>page. page) (Search example_index (narrowed_example\<lparr>q_After := Some example_last, q_Backwards := False\<rparr>))"
proof -
  obtain page rm where s: "Service_Search (example_service example_index) example_caller example_request no_reads = (Inr page, example_given op_Search, rm)"
    "Search example_index narrowed_example = Inr page" using example_searched by blast
  obtain mark where mark: "fingerprint narrowed_example = Inr mark" using example_fingerprint by blast
  note m = fingerprint_plain [OF mark]
  have plain: "utf8_string ''2''" "utf8_string (FormatRFC3339Nano 0)" "utf8_string []"
    using plain_utf8 time_plain [OF writable_examples(1)] by (auto intro!: plain_utf8 simp: plain_text_def nats_def)
  have b: "list_all utf8_string (bd_Values example_last)" "utf8_string (bd_ID example_last)" "writable_time (bd_RecordedAt example_last)"
    "int (unat (bd_Sequence example_last)) \<le> max_exact" "bd_ID example_last \<noteq> []"
    using plain writable_examples by (simp_all add: example_last_def max_exact_def)
  obtain t where t: "encodeCursor (Some example_last) False mark = Inr t" using encodeCursor_ok [OF b(1,2) m b(3,4)] by blast
  obtain u where u: "encodeCursor (Some no_boundary) False mark = Inr u"
    using encodeCursor_ok [of no_boundary mark] m plain writable_examples by (auto simp: no_boundary_def max_exact_def)
  have "Service_Cursors (example_service example_index) example_request (example_given op_Search) page
      = Inr \<lparr>cs_Self = [], cs_First = u, cs_Prev = [], cs_Next = t\<rparr>"
    using t u mark example_page_ends [OF s(2)] by (simp add: Service_Cursors_def example_compiled example_narrowed) (simp add: example_request_def)
  from next_cursor_continues [OF s(1) this example_page_ends [OF s(2)] b, of no_reads]
  have "fst (Service_Search (example_service example_index) example_caller (example_request\<lparr>sq_Cursor := t\<rparr>) no_reads)
      = map_sum SearchFailed (\<lambda>page. page)
          (sv_Search (example_service example_index) (narrowed_example\<lparr>q_After := Some example_last, q_Backwards := False\<rparr>))"
    by (auto simp: example_compiled example_narrowed)
  moreover have "sv_Search (example_service example_index) = Search example_index" by (simp add: example_service_def)
  ultimately show ?thesis by auto
qed

end
