(* ===== verification/Gojson.thy ===== *)
theory Gojson
  imports Cursor Recread
begin

text \<open>
  Structs of \<open>encoding/json\<close> beyond cursors: a struct whose values are scalars, marshalled with or without
  indentation, and the members \<open>json.Unmarshal\<close> hands to the fields of a struct, in the order of the text.

  Shown: the members of a struct that was marshalled are read back, whatever space stands between them.
\<close>

section \<open>Writing and reading a struct\<close>

text \<open>The members with \<open>sep\<close> before each, \<open>colon\<close> after a colon and \<open>close\<close> before the brace that closes.\<close>

definition text_member :: "nat list \<Rightarrow> string \<times> nat list \<Rightarrow> nat list" where
  "text_member colon m = marshal_string (fst m) @ 58 # colon @ snd m"

fun text_members :: "nat list \<Rightarrow> nat list \<Rightarrow> (string \<times> nat list) list \<Rightarrow> nat list" where
  "text_members sep colon [] = []"
| "text_members sep colon [m] = text_member colon m"
| "text_members sep colon (m # ms) = text_member colon m @ 44 # sep @ text_members sep colon ms"

definition struct_text :: "nat list \<Rightarrow> nat list \<Rightarrow> nat list \<Rightarrow> (string \<times> nat list) list \<Rightarrow> nat list" where
  "struct_text sep colon close ms = (if ms = [] then [123, 125] else 123 # sep @ text_members sep colon ms @ close @ [125])"

text \<open>\<open>json.Marshal\<close>, and \<open>json.MarshalIndent\<close> with no prefix and two spaces.\<close>

definition Marshal_struct :: "(string \<times> nat list) list \<Rightarrow> nat list" where
  "Marshal_struct = struct_text [] [] []"

definition MarshalIndent_struct :: "(string \<times> nat list) list \<Rightarrow> nat list" where
  "MarshalIndent_struct = struct_text [10, 32, 32] [32] [10]"

text \<open>An array that is not empty, with \<open>sep\<close> before each item and \<open>close\<close> before the bracket that closes.\<close>

fun text_items :: "nat list \<Rightarrow> nat list list \<Rightarrow> nat list" where
  "text_items sep [] = []"
| "text_items sep [b] = b"
| "text_items sep (b # bs) = b @ 44 # sep @ text_items sep bs"

definition array_text :: "nat list \<Rightarrow> nat list \<Rightarrow> nat list list \<Rightarrow> nat list" where
  "array_text sep close bs = 91 # sep @ text_items sep bs @ close @ [93]"

text \<open>The items of an array with the text of each; the input starts after the opening bracket.\<close>

function read_items :: "nat list \<Rightarrow> (JSON \<times> nat list) list option" where
  "read_items s =
     (case read_value [] s of
        None \<Rightarrow> None
      | Some (v, u) \<Rightarrow>
          (case skip_space u of
             [] \<Rightarrow> None
           | c # w \<Rightarrow>
               if c = 44 then map_option ((#) (v, raw_of s u)) (read_items w)
               else if c = 93 then Some [(v, raw_of s u)]
               else None))"
  by pat_completeness auto
termination
proof (relation "measure length", goal_cases)
  case (2 s p v u c w)
  then show ?case using length_read(1) [of "[]" s v u] length_skip_space [of u] by simp
qed simp

declare read_items.simps [simp del]

text \<open>The members \<open>json.Unmarshal\<close> finds for a struct: the whole text is checked first, and \<open>null\<close> has none.\<close>

definition read_struct :: "nat list \<Rightarrow> (string \<times> JSON \<times> nat list) list option" where
  "read_struct body =
     (if \<not> valid_json body then None
      else case skip_space body of
             [] \<Rightarrow> None
           | b # t \<Rightarrow>
               if b = 110 then Some []
               else if b \<noteq> 123 then None
               else case skip_space t of
                      [] \<Rightarrow> None
                    | c # u \<Rightarrow> if c = 125 then Some [] else read_members t)"

fun take_each :: "('m \<Rightarrow> 'a \<Rightarrow> 'a option) \<Rightarrow> 'm list \<Rightarrow> 'a \<Rightarrow> 'a option" where
  "take_each f [] a = Some a"
| "take_each f (m # ms) a = (case f m a of None \<Rightarrow> None | Some a' \<Rightarrow> take_each f ms a')"

text \<open>A field that holds a time: \<open>Time.UnmarshalJSON\<close> takes the bytes between the quotes.\<close>

definition time_field :: "time \<Rightarrow> JSON \<Rightarrow> nat list \<Rightarrow> time option" where
  "time_field old v raw =
     (case v of JNull \<Rightarrow> Some old | JString _ \<Rightarrow> ParseStrict (chars (butlast (tl raw))) | _ \<Rightarrow> None)"

section \<open>What was marshalled is read back\<close>

definition spaces :: "nat list \<Rightarrow> bool" where
  "spaces sp \<longleftrightarrow> list_all json_space sp"

lemma skip_spaces: "spaces sp \<Longrightarrow> skip_space (sp @ s) = skip_space s"
  by (induction sp) (simp_all add: spaces_def skip_space_def)

lemma read_value_spaces: "spaces sp \<Longrightarrow> read_value st (sp @ s) = read_value st s"
  by (simp add: read_value.simps [of st] skip_spaces)

lemma stops_spaces: "spaces sp \<Longrightarrow> stops s \<Longrightarrow> stops (sp @ s)"
  by (cases sp) (auto simp: spaces_def stops_def json_space_def digit_byte_def)

text \<open>A text that is read as a value wherever \<open>n\<close> more levels may be opened.\<close>

definition reads_in :: "nat \<Rightarrow> JSON \<Rightarrow> nat list \<Rightarrow> bool" where
  "reads_in n v b \<longleftrightarrow> b \<noteq> [] \<and> \<not> json_space (hd b) \<and> hd b \<noteq> 93 \<and>
     (\<forall>st s. int (length st + n) \<le> maxNestingDepth \<longrightarrow> stops s \<longrightarrow> read_value st (b @ s) = read_after st v s)"

lemma reads_in_reads: "reads v b \<Longrightarrow> jdepth v \<le> n \<Longrightarrow> reads_in n v b"
  by (auto simp: reads_def reads_in_def)

text \<open>A member that can be written and is read back: its name and a text of its value.\<close>

definition good_in :: "nat \<Rightarrow> string \<times> JSON \<times> nat list \<Rightarrow> bool" where
  "good_in n m = (case m of (k, v, t) \<Rightarrow> plain_text k \<and> reads_in n v t)"

abbreviation good_member :: "string \<times> JSON \<times> nat list \<Rightarrow> bool" where
  "good_member \<equiv> good_in 0"

abbreviation written :: "string \<times> JSON \<times> nat list \<Rightarrow> string \<times> nat list" where
  "written m \<equiv> (fst m, snd (snd m))"

lemma read_good_member:
  assumes "good_in n m" "spaces colon" "stops s"
  shows "read_name (text_member colon (written m) @ s) = Some (fst m, colon @ snd (snd m) @ s)"
    "skip_space (text_member colon (written m) @ s) = text_member colon (written m) @ s"
    "int (Suc (length st) + n) \<le> maxNestingDepth \<Longrightarrow> read_value (f # st) (colon @ snd (snd m) @ s) = read_after (f # st) (fst (snd m)) s"
    "int n \<le> maxNestingDepth \<Longrightarrow> read_value [] (colon @ snd (snd m) @ s) = Some (fst (snd m), s)"
    "raw_of (colon @ snd (snd m) @ s) s = snd (snd m)"
proof -
  obtain k v t where m: "m = (k, v, t)" "plain_text k" "reads_in n v t"
    using assms(1) by (cases m) (auto simp: good_in_def)
  show "read_name (text_member colon (written m) @ s) = Some (fst m, colon @ snd (snd m) @ s)"
    using read_written_name [OF plain_utf8 [OF m(2)], of "colon @ t @ s"] plain_written [OF m(2)] by (simp add: m(1) text_member_def)
  show "skip_space (text_member colon (written m) @ s) = text_member colon (written m) @ s"
    using plain_written [OF m(2)] by (simp add: m(1) text_member_def)
  show "read_value (f # st) (colon @ snd (snd m) @ s) = read_after (f # st) (fst (snd m)) s" if "int (Suc (length st) + n) \<le> maxNestingDepth"
    using m that assms(3) by (simp add: read_value_spaces [OF assms(2)] reads_in_def)
  show "read_value [] (colon @ snd (snd m) @ s) = Some (fst (snd m), s)" if "int n \<le> maxNestingDepth"
    using m that assms(3) by (simp add: read_value_spaces [OF assms(2)] reads_in_def)
  have "skip_space (t @ s) = t @ s" using m(3) skip_mark by (auto simp: reads_in_def)
  then show "raw_of (colon @ snd (snd m) @ s) s = snd (snd m)" by (simp add: m(1) raw_of_def skip_spaces [OF assms(2)])
qed

lemma text_members_Cons:
  "text_members sep colon (m # ms) @ r = text_member colon m @ (if ms = [] then r else 44 # sep @ text_members sep colon ms @ r)"
  by (cases ms) simp_all

lemma read_members_text:
  assumes "ms \<noteq> []" "list_all (good_in n) ms" "spaces sep" "spaces colon" "spaces close" "int n \<le> maxNestingDepth"
  shows "read_members (sep @ text_members sep colon (map written ms) @ close @ [125]) = Some ms"
  using assms(1,2)
proof (induction ms)
  case (Cons m ms)
  define rest where "rest = (if ms = [] then close @ [125] else 44 # sep @ text_members sep colon (map written ms) @ close @ [125])"
  have good: "good_in n m" using Cons.prems by simp
  have st: "stops rest" using stops_spaces [OF assms(5), of "[125]"] by (simp add: rest_def)
  note r = read_good_member [OF good assms(4) st]
  have whole: "sep @ text_members sep colon (map written (m # ms)) @ close @ [125] = sep @ text_member colon (written m) @ rest"
    by (cases ms) (simp_all add: rest_def)
  have "read_members (sep @ text_member colon (written m) @ rest)
      = (case skip_space rest of [] \<Rightarrow> None | c # w \<Rightarrow> if c = 44 then map_option ((#) m) (read_members w) else if c = 125 then Some [m] else None)"
    by (subst read_members.simps) (simp add: skip_spaces [OF assms(3)] r(1,2) r(4) [OF assms(6)] r(5) split: list.split)
  moreover have "skip_space (close @ [125]) = [125]" by (simp add: skip_spaces [OF assms(5)])
  ultimately show ?case using Cons.IH Cons.prems unfolding whole by (cases "ms = []") (simp_all add: rest_def)
qed simp

lemma read_after_text:
  assumes "list_all (good_in n) ms" "spaces sep" "spaces colon" "spaces close" "distinct (map fst us @ k # map fst ms)" "int (Suc (length st) + n) \<le> maxNestingDepth"
  shows "read_after (InObject us k # st) u ((if ms = [] then close @ 125 # s else 44 # sep @ text_members sep colon (map written ms) @ close @ 125 # s))
    = read_after st (JObject (us @ (k, u) # map (\<lambda>m. (fst m, fst (snd m))) ms)) s"
  using assms(1,5)
proof (induction ms arbitrary: us k u)
  case Nil
  then show ?case by (simp add: read_after.simps(3) put_new_member skip_spaces [OF assms(4)])
next
  case (Cons m ms)
  define rest where "rest = (if ms = [] then close @ 125 # s else 44 # sep @ text_members sep colon (map written ms) @ close @ 125 # s)"
  have good: "good_in n m" using Cons.prems by simp
  have st: "stops rest" using stops_spaces [OF assms(4), of "125 # s"] by (simp add: rest_def)
  note r = read_good_member [OF good assms(3) st]
  have whole: "text_members sep colon (map written (m # ms)) @ close @ 125 # s = text_member colon (written m) @ rest"
    by (cases ms) (simp_all add: rest_def)
  have "put_member k u us = us @ [(k, u)]" using Cons.prems(2) by (intro put_new_member) auto
  then have "read_after (InObject us k # st) u (44 # sep @ text_member colon (written m) @ rest)
      = read_after (InObject (us @ [(k, u)]) (fst m) # st) (fst (snd m)) rest"
    using assms(6) by (simp add: read_after.simps(3) skip_spaces [OF assms(2)] r)
  then show ?case using Cons.IH [of "us @ [(k, u)]" "fst m" "fst (snd m)"] Cons.prems whole by (simp add: rest_def)
qed

text \<open>The text of a struct is read as the object of its members, wherever it stands.\<close>

lemma struct_reads:
  assumes "ms \<noteq> []" "list_all (good_in n) ms" "distinct (map fst ms)" "spaces sep" "spaces colon" "spaces close" "int (Suc (length st) + n) \<le> maxNestingDepth"
  shows "read_value st (struct_text sep colon close (map written ms) @ s) = read_after st (JObject (map (\<lambda>m. (fst m, fst (snd m))) ms)) s"
    "skip_space (sep @ text_members sep colon (map written ms) @ close @ s) = 34 # tl (text_members sep colon (map written ms)) @ close @ s"
proof -
  obtain m ms' where ms: "ms = m # ms'" using assms(1) by (cases ms) auto
  define rest where "rest = (if ms' = [] then close @ 125 # s else 44 # sep @ text_members sep colon (map written ms') @ close @ 125 # s)"
  have good: "good_in n m" using assms(2) ms by simp
  have st: "stops rest" using stops_spaces [OF assms(6), of "125 # s"] by (simp add: rest_def)
  note r = read_good_member [OF good assms(5) st]
  have whole: "text_members sep colon (map written ms) @ close @ 125 # s = text_member colon (written m) @ rest"
    unfolding ms by (cases ms') (simp_all add: rest_def)
  obtain u where u: "text_member colon (written m) @ rest = 34 # u" by (simp add: text_member_def marshal_string_def)
  have body: "struct_text sep colon close (map written ms) @ s = 123 # sep @ text_member colon (written m) @ rest"
    using whole by (simp add: struct_text_def ms)
  have first: "skip_space (sep @ text_member colon (written m) @ rest) = 34 # u" by (simp only: skip_spaces [OF assms(4)] u skip_marks)
  have name: "read_name (34 # u) = Some (fst m, colon @ snd (snd m) @ rest)" using r(1) unfolding u .
  have "read_value st (123 # sep @ text_member colon (written m) @ rest) = read_after (InObject [] (fst m) # st) (fst (snd m)) rest"
    using assms(7) by (subst read_value.simps) (simp add: first name r)
  also have "\<dots> = read_after st (JObject ([] @ (fst m, fst (snd m)) # map (\<lambda>m. (fst m, fst (snd m))) ms')) s"
    unfolding rest_def using assms ms by (intro read_after_text) auto
  finally show "read_value st (struct_text sep colon close (map written ms) @ s) = read_after st (JObject (map (\<lambda>m. (fst m, fst (snd m))) ms)) s"
    unfolding body by (simp add: ms)
  have "\<exists>v. text_members sep colon (map written ms) = 34 # v"
    unfolding ms by (cases ms') (simp_all add: text_member_def marshal_string_def)
  then show "skip_space (sep @ text_members sep colon (map written ms) @ close @ s) = 34 # tl (text_members sep colon (map written ms)) @ close @ s"
    by (auto simp: skip_spaces [OF assms(4)])
qed

lemma struct_reads_in:
  assumes "ms \<noteq> []" "list_all (good_in n) ms" "distinct (map fst ms)" "spaces sep" "spaces colon" "spaces close"
  shows "reads_in (Suc n) (JObject (map (\<lambda>m. (fst m, fst (snd m))) ms)) (struct_text sep colon close (map written ms))"
  using struct_reads(1) [OF assms] by (simp add: reads_in_def struct_text_def assms(1) json_space_def)

lemma struct_read_back:
  assumes "ms \<noteq> []" "list_all (good_in n) ms" "distinct (map fst ms)" "spaces sep" "spaces colon" "spaces close" "int (Suc n) \<le> maxNestingDepth"
  shows "read_struct (struct_text sep colon close (map written ms)) = Some ms"
proof -
  let ?b = "sep @ text_members sep colon (map written ms) @ close @ [125]"
  have body: "struct_text sep colon close (map written ms) = 123 # ?b" using assms(1) by (simp add: struct_text_def)
  have "read_value [] (123 # ?b) = Some (JObject (map (\<lambda>m. (fst m, fst (snd m))) ms), [])"
    using struct_reads(1) [OF assms(1-6), of "[]" "[]"] assms(7) body by simp
  then have "valid_json (123 # ?b)" by (simp add: valid_json_def skip_space_def)
  moreover have "read_members ?b = Some ms" using assms(7) by (intro read_members_text [OF assms(1,2,4,5,6)]) simp
  moreover have "skip_space ?b = 34 # tl (text_members sep colon (map written ms)) @ close @ [125]"
    using struct_reads(2) [OF assms(1-6), of "[]" "[125]"] assms(7) by simp
  ultimately show ?thesis unfolding read_struct_def body by simp
qed

subsection \<open>Arrays\<close>

lemma reads_in_skip: "reads_in n v b \<Longrightarrow> skip_space (b @ s) = b @ s"
  using skip_mark by (auto simp: reads_in_def)

lemma read_items_text:
  assumes "list_all2 (reads_in n) vs bs" "bs \<noteq> []" "spaces sep" "spaces close" "int n \<le> maxNestingDepth"
  shows "read_items (sep @ text_items sep bs @ close @ 93 # s) = Some (zip vs bs)"
  using assms(1,2)
proof (induction vs bs rule: list_all2_induct)
  case (Cons v vs b bs)
  define rest where "rest = (if bs = [] then close @ 93 # s else 44 # sep @ text_items sep bs @ close @ 93 # s)"
  have whole: "sep @ text_items sep (b # bs) @ close @ 93 # s = sep @ b @ rest" by (cases bs) (simp_all add: rest_def)
  have st: "stops rest" using stops_spaces [OF assms(4), of "93 # s"] by (simp add: rest_def)
  have val: "read_value [] (b @ rest) = Some (v, rest)" using Cons.hyps(1) st assms(5) by (simp add: reads_in_def)
  have raw: "raw_of (sep @ b @ rest) rest = b" using reads_in_skip [OF Cons.hyps(1)] by (simp add: raw_of_def skip_spaces [OF assms(3)])
  have "read_items (sep @ b @ rest) = (case skip_space rest of [] \<Rightarrow> None | c # w \<Rightarrow>
      if c = 44 then map_option ((#) (v, b)) (read_items w) else if c = 93 then Some [(v, b)] else None)"
    by (subst read_items.simps) (simp add: read_value_spaces [OF assms(3)] val raw split: list.split)
  moreover have "vs = []" if "bs = []" using Cons.hyps(2) that by simp
  ultimately show ?case using Cons.IH unfolding whole by (cases "bs = []") (simp_all add: rest_def skip_spaces [OF assms(4)])
qed simp

lemma read_after_items:
  assumes "list_all2 (reads_in n) vs bs" "spaces sep" "spaces close" "int (Suc (length st) + n) \<le> maxNestingDepth"
  shows "read_after (InArray us # st) u (if bs = [] then close @ 93 # s else 44 # sep @ text_items sep bs @ close @ 93 # s)
    = read_after st (JArray (us @ u # vs)) s"
  using assms(1)
proof (induction vs bs arbitrary: us u rule: list_all2_induct)
  case Nil
  then show ?case by (simp add: read_after.simps(2) skip_spaces [OF assms(3)])
next
  case (Cons v vs b bs)
  define rest where "rest = (if bs = [] then close @ 93 # s else 44 # sep @ text_items sep bs @ close @ 93 # s)"
  have whole: "text_items sep (b # bs) @ close @ 93 # s = b @ rest" by (cases bs) (simp_all add: rest_def)
  have st: "stops rest" using stops_spaces [OF assms(3), of "93 # s"] by (simp add: rest_def)
  have "read_value (InArray (us @ [u]) # st) (b @ rest) = read_after (InArray (us @ [u]) # st) v rest"
    using Cons.hyps(1) st assms(4) by (simp add: reads_in_def)
  then have "read_after (InArray us # st) u (44 # sep @ b @ rest) = read_after (InArray (us @ [u]) # st) v rest"
    by (simp add: read_after.simps(2) read_value_spaces [OF assms(2)])
  then show ?case using Cons.IH [of "us @ [u]" v] whole by (simp add: rest_def)
qed

lemma array_reads_in:
  assumes "list_all2 (reads_in n) vs bs" "bs \<noteq> []" "spaces sep" "spaces close"
  shows "reads_in (Suc n) (JArray vs) (array_text sep close bs)"
proof -
  obtain v vs' b bs' where vb: "vs = v # vs'" "bs = b # bs'" "reads_in n v b" "list_all2 (reads_in n) vs' bs'"
    using assms(1,2) by (cases vs; cases bs) auto
  have "read_value st (array_text sep close bs @ s) = read_after st (JArray vs) s" if d: "int (length st + Suc n) \<le> maxNestingDepth" for st s
  proof -
    define rest where "rest = (if bs' = [] then close @ 93 # s else 44 # sep @ text_items sep bs' @ close @ 93 # s)"
    have whole: "array_text sep close bs @ s = 91 # sep @ b @ rest" unfolding array_text_def vb(2) by (cases bs') (simp_all add: rest_def)
    have st: "stops rest" using stops_spaces [OF assms(4), of "93 # s"] by (simp add: rest_def)
    obtain c t where ct: "b @ rest = c # t" "c \<noteq> 93" using vb(3) by (cases b) (auto simp: reads_in_def)
    have "skip_space (sep @ b @ rest) = c # t" using reads_in_skip [OF vb(3), of rest] by (simp add: skip_spaces [OF assms(3)] ct(1))
    then have "read_value st (91 # sep @ b @ rest) = read_value (InArray [] # st) (c # t)"
      using d ct(2) by (simp add: read_value.simps [of st "91 # _"])
    also have "\<dots> = read_after (InArray [] # st) v rest" using vb(3) st d unfolding ct(1) [symmetric] by (simp add: reads_in_def)
    also have "\<dots> = read_after st (JArray vs) s" unfolding rest_def vb(1) using read_after_items [OF vb(4) assms(3,4), of st "[]" v s] d by simp
    finally show ?thesis unfolding whole .
  qed
  then show ?thesis by (simp add: reads_in_def array_text_def json_space_def)
qed

subsection \<open>Structs of texts and times\<close>

lemma text_members_all:
  "P 44 \<Longrightarrow> list_all P sep \<Longrightarrow> list_all (\<lambda>m. list_all P (text_member colon m)) ms \<Longrightarrow> list_all P (text_members sep colon ms)"
  by (induction sep colon ms rule: text_members.induct) auto

lemma struct_bytes:
  assumes "list_all (good_in n) ms" "list_all (\<lambda>m. list_all (\<lambda>b. b < 256) (snd (snd m))) ms" "spaces sep" "spaces colon" "spaces close"
  shows "list_all (\<lambda>b. b < 256) (struct_text sep colon close (map written ms))"
proof -
  have sp: "list_all (\<lambda>b. b < 256) x" if "spaces x" for x using that by (auto simp: spaces_def list_all_iff json_space_def)
  have "list_all (\<lambda>b. b < 256) (text_member colon (written m))" if "m \<in> set ms" for m
  proof -
    have "plain_text (fst m)" using assms(1) that by (cases m) (auto simp: list_all_iff good_in_def)
    then show ?thesis using assms(2) that sp [OF assms(4)] marshal_string_bytes [OF plain_utf8] by (auto simp: list_all_iff text_member_def)
  qed
  then have "list_all (\<lambda>b. b < 256) (text_members sep colon (map written ms))"
    by (intro text_members_all) (auto simp: list_all_iff sp [OF assms(3), unfolded list_all_iff])
  then show ?thesis using sp assms(3,5) by (simp add: struct_text_def)
qed

lemma take_each_append: "take_each f (xs @ ys) a = (case take_each f xs a of None \<Rightarrow> None | Some b \<Rightarrow> take_each f ys b)"
  by (induction xs arbitrary: a) (auto split: option.split)

lemma names_plain: "plain_text k \<Longrightarrow> names_field f k \<longleftrightarrow> map fold_rune (nats k) = nats f"
  using plain_ascii [of k] by (simp add: names_field_def ascii_runes)

lemma Marshal_read_back:
  assumes "ms \<noteq> []" "list_all good_member ms" "distinct (map fst ms)"
  shows "read_struct (Marshal_struct (map written ms)) = Some ms" "read_struct (MarshalIndent_struct (map written ms)) = Some ms"
  using struct_read_back [OF assms] by (simp_all add: Marshal_struct_def MarshalIndent_struct_def spaces_def json_space_def maxNestingDepth_def)

lemma good_string: "plain_text k \<Longrightarrow> utf8_string s \<Longrightarrow> good_member (k, JString s, marshal_string s)"
  by (simp add: good_in_def reads_in_reads reads_marshal_string)

lemma time_read_back:
  assumes "writable_time t"
  shows "time_field old (JString (FormatRFC3339Nano t)) (marshal_time t) = Some t"
  using ParseStrict_written [OF assms] plain_written [OF time_plain [OF assms]]
  by (simp add: time_field_def marshal_time_def chars_def nats_def)

lemma good_time: "plain_text k \<Longrightarrow> writable_time t \<Longrightarrow> good_member (k, JString (FormatRFC3339Nano t), marshal_time t)"
  by (simp add: marshal_time_def good_string plain_utf8 time_plain)

end
