(* ===== verification/Hold.thy ===== *)
theory Hold
  imports Gojson Roller
begin

text \<open>
  \<open>internal/hold\<close>: legal holds over the archive. A hold is two objects under \<open>holds/\<close>, the second written when it comes
  off, and a flag on every object under its prefix. The store is the four functions a hold calls, in a record with the
  fields of \<open>Store\<close>; \<open>sort.Slice\<close> leaves the order of equals open and is a field too. The clock's reading is an argument.

  Shown: placing a hold ends, with every object under the prefix held and the record in the store; a hold that was placed
  and not released is among the active ones, so that a writer that refreshed writes under it; releasing one hold clears
  the objects another one still holds.
\<close>

section \<open>Records of holds\<close>

record HoldRecord =
  hd_ID :: string
  hd_Profile :: string
  hd_Tenant :: string
  hd_Reason :: string
  hd_PlacedBy :: string
  hd_PlacedAt :: time
  hd_ReleasedBy :: string
  hd_ReleasedAt :: "time option"
  hd_Objects :: int

definition no_hold :: HoldRecord where
  "no_hold = \<lparr>hd_ID = [], hd_Profile = [], hd_Tenant = [], hd_Reason = [], hd_PlacedBy = [], hd_PlacedAt = zero_time,
     hd_ReleasedBy = [], hd_ReleasedAt = None, hd_Objects = 0\<rparr>"

definition Active_hold :: "HoldRecord \<Rightarrow> bool" where
  "Active_hold r \<longleftrightarrow> hd_ReleasedAt r = None"

definition Covers :: "HoldRecord \<Rightarrow> string \<Rightarrow> string \<Rightarrow> bool" where
  "Covers r profile tenant = (if hd_Profile r \<noteq> profile then False else hd_Tenant r = [] \<or> hd_Tenant r = tenant)"

definition HoldPrefix :: string where "HoldPrefix = ''holds''"

definition PlacedKey :: "string \<Rightarrow> string" where
  "PlacedKey i = HoldPrefix @ ''/'' @ i @ ''/placed.json''"

definition ReleasedKey :: "string \<Rightarrow> string" where
  "ReleasedKey i = HoldPrefix @ ''/'' @ i @ ''/released.json''"

definition prefixOf :: "HoldRecord \<Rightarrow> string" where
  "prefixOf r = (if hd_Tenant r = [] then ProfilePrefix (hd_Profile r) else TenantPrefix (hd_Profile r) (hd_Tenant r))"

subsection \<open>As JSON\<close>

text \<open>The members of a record, those marked \<open>omitempty\<close> only when they are set; a time is refused unless its year has
  four digits.\<close>

definition hold_members :: "HoldRecord \<Rightarrow> (string \<times> nat list) list" where
  "hold_members r =
     [(''id'', marshal_string (hd_ID r)), (''profile'', marshal_string (hd_Profile r))]
     @ (if hd_Tenant r = [] then [] else [(''tenant'', marshal_string (hd_Tenant r))])
     @ [(''reason'', marshal_string (hd_Reason r)), (''placed_by'', marshal_string (hd_PlacedBy r)), (''placed_at'', marshal_time (hd_PlacedAt r))]
     @ (if hd_ReleasedBy r = [] then [] else [(''released_by'', marshal_string (hd_ReleasedBy r))])
     @ (case hd_ReleasedAt r of None \<Rightarrow> [] | Some t \<Rightarrow> [(''released_at'', marshal_time t)])"

definition MarshalIndent_hold :: "HoldRecord \<Rightarrow> bytes option" where
  "MarshalIndent_hold r =
     (if \<not> writable_time (hd_PlacedAt r) \<or> (\<exists>t \<in> set_option (hd_ReleasedAt r). \<not> writable_time t) then None
      else Some (chars (MarshalIndent_struct (hold_members r))))"

definition hold_member :: "string \<times> JSON \<times> nat list \<Rightarrow> HoldRecord \<Rightarrow> HoldRecord option" where
  "hold_member m r =
     (case m of (name, v, raw) \<Rightarrow>
        if names_field ''id'' name then map_option (\<lambda>s. r\<lparr>hd_ID := s\<rparr>) (string_field (hd_ID r) v)
        else if names_field ''profile'' name then map_option (\<lambda>s. r\<lparr>hd_Profile := s\<rparr>) (string_field (hd_Profile r) v)
        else if names_field ''tenant'' name then map_option (\<lambda>s. r\<lparr>hd_Tenant := s\<rparr>) (string_field (hd_Tenant r) v)
        else if names_field ''reason'' name then map_option (\<lambda>s. r\<lparr>hd_Reason := s\<rparr>) (string_field (hd_Reason r) v)
        else if names_field ''placed_by'' name then map_option (\<lambda>s. r\<lparr>hd_PlacedBy := s\<rparr>) (string_field (hd_PlacedBy r) v)
        else if names_field ''placed_at'' name then map_option (\<lambda>t. r\<lparr>hd_PlacedAt := t\<rparr>) (time_field (hd_PlacedAt r) v raw)
        else if names_field ''released_by'' name then map_option (\<lambda>s. r\<lparr>hd_ReleasedBy := s\<rparr>) (string_field (hd_ReleasedBy r) v)
        else if names_field ''released_at'' name then
          (case v of
             JNull \<Rightarrow> Some (r\<lparr>hd_ReleasedAt := None\<rparr>)
           | _ \<Rightarrow> map_option (\<lambda>t. r\<lparr>hd_ReleasedAt := Some t\<rparr>) (time_field zero_time v raw))
        else Some r)"

definition Unmarshal_hold :: "bytes \<Rightarrow> HoldRecord option" where
  "Unmarshal_hold body = (case read_struct (nats body) of None \<Rightarrow> None | Some ms \<Rightarrow> take_each hold_member ms no_hold)"

section \<open>The store of holds\<close>

datatype hold_error =
    NoHoldProfile | NoHoldReason | BadHoldProfile string | BadHoldTenant string | NoHoldID | NoPlacer | HoldExists string
  | NoReleaser | AlreadyReleased string | HoldNotMarshalled | HoldNotParsed string | HoldStore store_error

record 's HoldStore =
  hs_put :: "'s \<Rightarrow> obj \<Rightarrow> store_error option \<times> 's"
  hs_get :: "'s \<Rightarrow> string \<Rightarrow> store_error + bytes"
  hs_list :: "'s \<Rightarrow> string \<Rightarrow> string \<Rightarrow> nat \<Rightarrow> store_error + entry list"
  hs_set :: "'s \<Rightarrow> string \<Rightarrow> bool \<Rightarrow> store_error option \<times> 's"
  hs_RetainUntil :: "(time \<Rightarrow> time) option"
  hs_sort :: "HoldRecord list \<Rightarrow> HoldRecord list"

definition read_hold :: "('s, 'z) HoldStore_scheme \<Rightarrow> 's \<Rightarrow> string \<Rightarrow> hold_error + HoldRecord" where
  "read_hold h s name =
     (case hs_get h s name of
        Inl e \<Rightarrow> Inl (HoldStore e)
      | Inr body \<Rightarrow> (case Unmarshal_hold body of None \<Rightarrow> Inl (HoldNotParsed name) | Some r \<Rightarrow> Inr r))"

text \<open>A hold's two records in one; whichever is the release has the time of it.\<close>

definition hold_merge :: "HoldRecord \<Rightarrow> HoldRecord \<Rightarrow> HoldRecord" where
  "hold_merge a b =
     (let (a, b) = (if hd_ReleasedAt b = None then (b, a) else (a, b))
      in a\<lparr>hd_ReleasedAt := hd_ReleasedAt b, hd_ReleasedBy := hd_ReleasedBy b\<rparr>)"

fun list_holds :: "('s, 'z) HoldStore_scheme \<Rightarrow> 's \<Rightarrow> entry list \<Rightarrow> (string \<times> HoldRecord) list \<Rightarrow> hold_error + (string \<times> HoldRecord) list" where
  "list_holds h s [] byID = Inr byID"
| "list_holds h s (e # es) byID =
     (case read_hold h s (e_Key e) of
        Inl err \<Rightarrow> Inl err
      | Inr r \<Rightarrow>
          (let r = (case map_of byID (hd_ID r) of None \<Rightarrow> r | Some old \<Rightarrow> hold_merge old r)
           in list_holds h s es (AList.update (hd_ID r) r byID)))"

definition Hold_List :: "('s, 'z) HoldStore_scheme \<Rightarrow> 's \<Rightarrow> hold_error + HoldRecord list" where
  "Hold_List h s =
     (case hs_list h s (HoldPrefix @ ''/'') [] 0 of
        Inl e \<Rightarrow> Inl (HoldStore e)
      | Inr es \<Rightarrow>
          (case list_holds h s es [] of Inl e \<Rightarrow> Inl e | Inr byID \<Rightarrow> Inr (hs_sort h (map snd byID))))"

text \<open>\<open>split\<close>: the identifier and the kind of a name, at its last slash.\<close>

definition hold_split :: "string \<Rightarrow> string \<times> string" where
  "hold_split name =
     (let rest = TrimPrefix name (HoldPrefix @ ''/'');
          kind = rev (takeWhile (\<lambda>c. c \<noteq> CHR ''/'') (rev rest))
      in if CHR ''/'' \<in> set rest then (take (length rest - length kind - 1) rest, kind) else ([], []))"

definition placed_of :: "entry list \<Rightarrow> (string \<times> string) list" where
  "placed_of es = map (\<lambda>e. (fst (hold_split (e_Key e)), e_Key e)) (filter (\<lambda>e. snd (hold_split (e_Key e)) = ''placed.json'') es)"

definition released_of :: "entry list \<Rightarrow> string list" where
  "released_of es = map (\<lambda>e. fst (hold_split (e_Key e))) (filter (\<lambda>e. snd (hold_split (e_Key e)) = ''released.json'') es)"

fun read_holds :: "('s, 'z) HoldStore_scheme \<Rightarrow> 's \<Rightarrow> string list \<Rightarrow> hold_error + HoldRecord list" where
  "read_holds h s [] = Inr []"
| "read_holds h s (k # ks) =
     (case read_hold h s k of
        Inl e \<Rightarrow> Inl e
      | Inr r \<Rightarrow> (case read_holds h s ks of Inl e \<Rightarrow> Inl e | Inr rs \<Rightarrow> Inr (r # rs)))"

definition Hold_Active :: "('s, 'z) HoldStore_scheme \<Rightarrow> 's \<Rightarrow> hold_error + HoldRecord list" where
  "Hold_Active h s =
     (case hs_list h s (HoldPrefix @ ''/'') [] 0 of
        Inl e \<Rightarrow> Inl (HoldStore e)
      | Inr es \<Rightarrow>
          (let placed = rev (placed_of es); released = released_of es;
               ids = sort (filter (\<lambda>i. i \<notin> set released) (remdups (map fst placed)))
           in case read_holds h s (map (\<lambda>i. the (map_of placed i)) ids) of
                Inl e \<Rightarrow> Inl e
              | Inr rs \<Rightarrow> Inr (hs_sort h rs)))"

text \<open>\<open>Get\<close>: a hold as it now stands; a release that cannot be fetched counts as none.\<close>

definition Hold_Get :: "('s, 'z) HoldStore_scheme \<Rightarrow> 's \<Rightarrow> string \<Rightarrow> hold_error option \<times> HoldRecord" where
  "Hold_Get h s i =
     (case read_hold h s (PlacedKey i) of
        Inl e \<Rightarrow> (Some e, no_hold)
      | Inr r \<Rightarrow>
          (case hs_get h s (ReleasedKey i) of
             Inl e \<Rightarrow> (None, r)
           | Inr body \<Rightarrow>
               (case Unmarshal_hold body of
                  None \<Rightarrow> (Some (HoldNotParsed i), r)
                | Some off \<Rightarrow> (None, r\<lparr>hd_ReleasedAt := hd_ReleasedAt off, hd_ReleasedBy := hd_ReleasedBy off\<rparr>))))"

definition hold_object :: "('s, 'z) HoldStore_scheme \<Rightarrow> string \<Rightarrow> HoldRecord \<Rightarrow> bytes \<Rightarrow> obj" where
  "hold_object h name r body =
     \<lparr>o_Key = name, o_Body = body,
      o_RetainUntil = (case hs_RetainUntil h of None \<Rightarrow> AddDate (hd_PlacedAt r) 10 0 0 | Some f \<Rightarrow> f (hd_PlacedAt r)),
      o_ContentType = ''application/json'', o_Encoding = [],
      o_Metadata = [(''audit-hold'', hd_ID r), (''audit-profile'', hd_Profile r)], o_LegalHold = False\<rparr>"

definition hold_write :: "('s, 'z) HoldStore_scheme \<Rightarrow> 's \<Rightarrow> string \<Rightarrow> HoldRecord \<Rightarrow> hold_error option \<times> 's" where
  "hold_write h s name r =
     (case MarshalIndent_hold r of
        None \<Rightarrow> (Some HoldNotMarshalled, s)
      | Some body \<Rightarrow> (let (e, s) = hs_put h s (hold_object h name r body) in (map_option HoldStore e, s)))"

subsection \<open>The sweep\<close>

text \<open>One page: the objects in turn, up to the first that cannot be set, with the count and the last key taken.\<close>

fun set_each :: "('s \<Rightarrow> string \<Rightarrow> bool \<Rightarrow> store_error option \<times> 's) \<Rightarrow> bool \<Rightarrow> entry list \<Rightarrow> nat \<Rightarrow> string \<Rightarrow> 's
  \<Rightarrow> store_error option \<times> nat \<times> string \<times> 's" where
  "set_each set_hold on [] n past s = (None, n, past, s)"
| "set_each set_hold on (e # es) n past s =
     (case set_hold s (e_Key e) on of
        (Some err, s) \<Rightarrow> (Some err, n, e_Key e, s)
      | (None, s) \<Rightarrow> set_each set_hold on es (Suc n) (e_Key e) s)"

definition sweepPage :: nat where "sweepPage = 1000"

partial_function (option) sweep_loop ::
  "('s \<Rightarrow> string \<Rightarrow> string \<Rightarrow> nat \<Rightarrow> store_error + entry list) \<Rightarrow> ('s \<Rightarrow> string \<Rightarrow> bool \<Rightarrow> store_error option \<times> 's) \<Rightarrow> string \<Rightarrow> bool
   \<Rightarrow> nat \<Rightarrow> string \<Rightarrow> 's \<Rightarrow> (store_error option \<times> nat \<times> 's) option"
where
  "sweep_loop list set_hold pre on n past s =
     (case list s pre past sweepPage of
        Inl e \<Rightarrow> Some (Some e, n, s)
      | Inr es \<Rightarrow>
          (case set_each set_hold on es n past s of
             (Some e, n, past, s) \<Rightarrow> Some (Some e, n, s)
           | (None, n, past, s) \<Rightarrow>
               if length es < sweepPage then Some (None, n, s)
               else sweep_loop list set_hold pre on n past s))"

definition sweep :: "('s, 'z) HoldStore_scheme \<Rightarrow> 's \<Rightarrow> string \<Rightarrow> bool \<Rightarrow> (store_error option \<times> nat \<times> 's) option" where
  "sweep h s pre on = sweep_loop (hs_list h) (hs_set h) pre on 0 [] s"

subsection \<open>Placing and releasing\<close>

definition Place :: "('s, 'z) HoldStore_scheme \<Rightarrow> time \<Rightarrow> 's \<Rightarrow> HoldRecord \<Rightarrow> (hold_error option \<times> HoldRecord \<times> 's) option" where
  "Place h now s r =
     (if hd_Profile r = [] then Some (Some NoHoldProfile, r, s)
      else if TrimSpace (hd_Reason r) = [] then Some (Some NoHoldReason, r, s)
      else if KeyComponent (hd_Profile r) \<noteq> [] then Some (Some (BadHoldProfile (hd_Profile r)), r, s)
      else if hd_Tenant r \<noteq> [] \<and> KeyComponent (hd_Tenant r) \<noteq> [] then Some (Some (BadHoldTenant (hd_Tenant r)), r, s)
      else if hd_ID r = [] then Some (Some NoHoldID, r, s)
      else if TrimSpace (hd_PlacedBy r) = [] then Some (Some NoPlacer, r, s)
      else if fst (Hold_Get h s (hd_ID r)) = None then Some (Some (HoldExists (hd_ID r)), r, s)
      else let r = r\<lparr>hd_PlacedAt := now\<rparr>
           in case hold_write h s (PlacedKey (hd_ID r)) r of
                (Some e, s) \<Rightarrow> Some (Some e, r, s)
              | (None, s) \<Rightarrow>
                  (case sweep h s (prefixOf r) True of
                     None \<Rightarrow> None
                   | Some (e, held, s) \<Rightarrow> Some (map_option HoldStore e, r\<lparr>hd_Objects := int held\<rparr>, s)))"

definition Release :: "('s, 'z) HoldStore_scheme \<Rightarrow> time \<Rightarrow> 's \<Rightarrow> string \<Rightarrow> string \<Rightarrow> (hold_error option \<times> HoldRecord \<times> 's) option" where
  "Release h now s i by_whom =
     (if TrimSpace by_whom = [] then Some (Some NoReleaser, no_hold, s)
      else case Hold_Get h s i of
             (Some e, r) \<Rightarrow> Some (Some e, r, s)
           | (None, r) \<Rightarrow>
               if \<not> Active_hold r then Some (Some (AlreadyReleased i), r, s)
               else let r = r\<lparr>hd_ReleasedAt := Some now, hd_ReleasedBy := by_whom\<rparr>
                    in case hold_write h s (ReleasedKey i) r of
                         (Some e, s) \<Rightarrow> Some (Some e, r, s)
                       | (None, s) \<Rightarrow>
                           (case sweep h s (prefixOf r) False of
                              None \<Rightarrow> None
                            | Some (e, cleared, s) \<Rightarrow> Some (map_option HoldStore e, r\<lparr>hd_Objects := int cleared\<rparr>, s)))"

section \<open>The writer's view\<close>

record Watcher =
  wa_active :: "HoldRecord list"
  wa_loaded :: bool

definition Held :: "Watcher \<Rightarrow> string \<Rightarrow> string \<Rightarrow> bool" where
  "Held w profile tenant = list_ex (\<lambda>r. Covers r profile tenant) (wa_active w)"

definition Ready :: "Watcher \<Rightarrow> bool" where
  "Ready w = wa_loaded w"

definition Refresh :: "('s, 'z) HoldStore_scheme \<Rightarrow> 's \<Rightarrow> Watcher \<Rightarrow> hold_error option \<times> Watcher" where
  "Refresh h s w =
     (case Hold_Active h s of
        Inl e \<Rightarrow> (Some e, w)
      | Inr rs \<Rightarrow> (None, w\<lparr>wa_active := rs, wa_loaded := True\<rparr>))"

section \<open>Records are read back\<close>

lemma plain_fields:
  "plain_text ''id''" "plain_text ''profile''" "plain_text ''tenant''" "plain_text ''reason''" "plain_text ''placed_by''"
  "plain_text ''placed_at''" "plain_text ''released_by''" "plain_text ''released_at''"
  by (simp_all add: plain_text_def nats_def)

text \<open>A record that can be written: texts of UTF-8 and years of four digits.\<close>

definition writable_hold :: "HoldRecord \<Rightarrow> bool" where
  "writable_hold r \<longleftrightarrow> list_all utf8_string [hd_ID r, hd_Profile r, hd_Tenant r, hd_Reason r, hd_PlacedBy r, hd_ReleasedBy r]
     \<and> writable_time (hd_PlacedAt r) \<and> list_all writable_time (case hd_ReleasedAt r of None \<Rightarrow> [] | Some t \<Rightarrow> [t])"

definition hold_json :: "HoldRecord \<Rightarrow> (string \<times> JSON \<times> nat list) list" where
  "hold_json r =
     (let str = (\<lambda>k s. (k, JString s, marshal_string s)); tim = (\<lambda>k t. (k, JString (FormatRFC3339Nano t), marshal_time t)) in
     [str ''id'' (hd_ID r), str ''profile'' (hd_Profile r)]
     @ (if hd_Tenant r = [] then [] else [str ''tenant'' (hd_Tenant r)])
     @ [str ''reason'' (hd_Reason r), str ''placed_by'' (hd_PlacedBy r), tim ''placed_at'' (hd_PlacedAt r)]
     @ (if hd_ReleasedBy r = [] then [] else [str ''released_by'' (hd_ReleasedBy r)])
     @ (case hd_ReleasedAt r of None \<Rightarrow> [] | Some t \<Rightarrow> [tim ''released_at'' t]))"

lemma hold_json_members: "map written (hold_json r) = hold_members r"
  by (simp add: hold_json_def hold_members_def Let_def split: option.split)

lemma hold_json_good: "writable_hold r \<Longrightarrow> list_all good_member (hold_json r)"
  by (auto simp: writable_hold_def hold_json_def Let_def good_string good_time plain_fields split: option.split)

lemma hold_json_bytes: "writable_hold r \<Longrightarrow> list_all (\<lambda>m. list_all (\<lambda>b. b < 256) (snd (snd m))) (hold_json r)"
  by (auto simp: writable_hold_def hold_json_def Let_def marshal_string_bytes marshal_time_def plain_utf8 time_plain split: option.split)

lemma hold_json_distinct: "distinct (map fst (hold_json r))"
  by (simp add: hold_json_def Let_def split: option.split)

lemma hold_fields:
  "hold_member (''id'', JString s, raw) r = Some (r\<lparr>hd_ID := s\<rparr>)"
  "hold_member (''profile'', JString s, raw) r = Some (r\<lparr>hd_Profile := s\<rparr>)"
  "hold_member (''tenant'', JString s, raw) r = Some (r\<lparr>hd_Tenant := s\<rparr>)"
  "hold_member (''reason'', JString s, raw) r = Some (r\<lparr>hd_Reason := s\<rparr>)"
  "hold_member (''placed_by'', JString s, raw) r = Some (r\<lparr>hd_PlacedBy := s\<rparr>)"
  "hold_member (''released_by'', JString s, raw) r = Some (r\<lparr>hd_ReleasedBy := s\<rparr>)"
  "hold_member (''placed_at'', JString s, raw) r = map_option (\<lambda>t. r\<lparr>hd_PlacedAt := t\<rparr>) (time_field (hd_PlacedAt r) (JString s) raw)"
  "hold_member (''released_at'', JString s, raw) r = map_option (\<lambda>t. r\<lparr>hd_ReleasedAt := Some t\<rparr>) (time_field zero_time (JString s) raw)"
  by (simp_all add: hold_member_def names_plain plain_fields nats_def fold_rune_def string_field_def)

lemma take_hold_json:
  assumes "writable_hold r"
  shows "take_each hold_member (hold_json r) no_hold = Some (r\<lparr>hd_Objects := 0\<rparr>)"
proof -
  have t: "writable_time (hd_PlacedAt r)" "\<And>t. hd_ReleasedAt r = Some t \<Longrightarrow> writable_time t"
    using assms by (auto simp: writable_hold_def)
  show ?thesis
    using t by (cases r)
      (auto simp: hold_json_def Let_def hold_fields take_each_append time_read_back no_hold_def split: option.split)
qed

lemma hold_read_back:
  assumes "writable_hold r"
  shows "\<exists>body. MarshalIndent_hold r = Some body \<and> Unmarshal_hold body = Some (r\<lparr>hd_Objects := 0\<rparr>)"
proof -
  let ?b = "MarshalIndent_struct (hold_members r)"
  have read: "read_struct ?b = Some (hold_json r)"
    using Marshal_read_back(2) [OF _ hold_json_good [OF assms] hold_json_distinct] unfolding hold_json_members by (simp add: hold_json_def Let_def)
  have "list_all (\<lambda>b. b < 256) ?b"
    unfolding MarshalIndent_struct_def hold_json_members [symmetric] using hold_json_good [OF assms] hold_json_bytes [OF assms]
    by (intro struct_bytes) (auto simp: spaces_def json_space_def)
  then have "nats (chars ?b) = ?b" by (rule nats_chars)
  then show ?thesis using read take_hold_json [OF assms] assms
    by (auto simp: MarshalIndent_hold_def Unmarshal_hold_def writable_hold_def)
qed

section \<open>Sweeping\<close>

text \<open>What a hold relies on beyond the promises of a store: setting a flag changes that flag, or nothing.\<close>

locale holding_store = reliable_store +
  fixes set_hold :: "'a \<Rightarrow> string \<Rightarrow> bool \<Rightarrow> store_error option \<times> 'a"
  assumes set_ok: "invar s \<Longrightarrow> set_hold s k on = (None, s') \<Longrightarrow>
      \<exists>x. objects s k = Some x \<and> objects s' = (objects s)(k \<mapsto> x\<lparr>o_LegalHold := on\<rparr>)"
    and set_err: "invar s \<Longrightarrow> set_hold s k on = (Some e, s') \<Longrightarrow> objects s' = objects s"
    and set_invar: "invar s \<Longrightarrow> set_hold s k on = (r, s') \<Longrightarrow> invar s' \<and> locked s' = locked s"
    and set_total: "invar s \<Longrightarrow> locked s \<Longrightarrow> objects s k \<noteq> None \<Longrightarrow> fst (set_hold s k on) = None"
begin

lemma same_keys:
  assumes "invar s" "invar s'" "dom (objects s') = dom (objects s)"
  shows "map e_Key (entries s') = map e_Key (entries s)"
proof -
  have "sorted_wrt (<) (map e_Key (entries s))" "sorted_wrt (<) (map e_Key (entries s'))"
    using entries_sorted [OF assms(1)] entries_sorted [OF assms(2)] by (simp_all add: sorted_wrt_map)
  moreover have "set (map e_Key (entries s')) = set (map e_Key (entries s))"
    using entries_keys [OF assms(1)] entries_keys [OF assms(2)] assms(3) by simp
  ultimately show ?thesis by (metis strict_sorted_equal)
qed

text \<open>What a sweep that has done the keys in \<open>ks\<close> made of a store.\<close>

definition swept :: "'a \<Rightarrow> string set \<Rightarrow> bool \<Rightarrow> 'a \<Rightarrow> bool" where
  "swept s ks on s' \<longleftrightarrow> invar s' \<and> locked s' = locked s
     \<and> objects s' = (\<lambda>k. if k \<in> ks then map_option (\<lambda>x. x\<lparr>o_LegalHold := on\<rparr>) (objects s k) else objects s k)"

lemma swept_refl: "invar s \<Longrightarrow> swept s {} on s"
  by (simp add: swept_def)

lemma swept_trans: "swept s ks on s' \<Longrightarrow> swept s' js on s'' \<Longrightarrow> swept s (ks \<union> js) on s''"
  by (auto simp: swept_def fun_eq_iff option.map_comp o_def)

lemma swept_set: "invar s \<Longrightarrow> set_hold s k on = (None, s') \<Longrightarrow> swept s {k} on s'"
  using set_ok [of s k on s'] set_invar [of s k on None s'] by (auto simp: swept_def fun_eq_iff)

lemma swept_set_err: "invar s \<Longrightarrow> set_hold s k on = (Some e, s') \<Longrightarrow> swept s {} on s'"
  using set_err [of s k on e s'] set_invar [of s k on "Some e" s'] by (auto simp: swept_def fun_eq_iff)

lemma swept_keys: "invar s \<Longrightarrow> swept s ks on s' \<Longrightarrow> map e_Key (entries s') = map e_Key (entries s)"
  by (rule same_keys) (auto simp: swept_def dom_def split: if_splits)

lemma set_each_swept:
  assumes "invar s" "set_each set_hold on es n past s = (r, n', past', s')"
  shows "\<exists>js. es = js @ drop (length js) es \<and> swept s (e_Key ` set js) on s' \<and> n' = n + length js
    \<and> (r = None \<longrightarrow> js = es \<and> past' = (if es = [] then past else e_Key (last es)))
    \<and> (locked s \<longrightarrow> e_Key ` set es \<subseteq> dom (objects s) \<longrightarrow> r = None)"
  using assms
proof (induction es arbitrary: n past s)
  case Nil
  then show ?case using swept_refl by auto
next
  case (Cons e es)
  obtain q u where q: "set_hold s (e_Key e) on = (q, u)" by (cases "set_hold s (e_Key e) on")
  show ?case
  proof (cases q)
    case None
    have sw: "swept s {e_Key e} on u" using swept_set [OF Cons.prems(1)] q None by simp
    then have "invar u" by (simp add: swept_def)
    from Cons.IH [OF this, of "Suc n" "e_Key e"] Cons.prems(2) q None obtain js where
      js: "es = js @ drop (length js) es" "swept u (e_Key ` set js) on s'" "n' = Suc n + length js"
        "r = None \<longrightarrow> js = es \<and> past' = (if es = [] then e_Key e else e_Key (last es))"
        "locked u \<longrightarrow> e_Key ` set es \<subseteq> dom (objects u) \<longrightarrow> r = None" by auto
    moreover have "locked u = locked s" "dom (objects u) = dom (objects s)" using sw by (auto simp: swept_def dom_def split: if_splits)
    ultimately show ?thesis using swept_trans [OF sw js(2)] by (intro exI [of _ "e # js"]) auto
  next
    case (Some err)
    moreover have "\<not> (locked s \<and> e_Key e \<in> dom (objects s))" using set_total [OF Cons.prems(1), of "e_Key e" on] q Some by auto
    ultimately show ?thesis using Cons.prems q swept_set_err [OF Cons.prems(1), of "e_Key e" on err u] by (intro exI [of _ "[]"]) auto
  qed
qed

text \<open>A sweep ends. It has set the flag on a part of what is under the prefix, and on all of it when there was no error.\<close>

lemma sweep_loop_returns:
  assumes "invar s"
  shows "\<exists>e n' s' ks. sweep_loop list set_hold pre on n past s = Some (e, n', s') \<and> swept s ks on s'
    \<and> ks \<subseteq> {k \<in> dom (objects s). HasPrefix k pre \<and> past < k} \<and> (e = None \<longrightarrow> ks = {k \<in> dom (objects s). HasPrefix k pre \<and> past < k})
    \<and> (locked s \<longrightarrow> e = None)"
  using assms
proof (induction "length (filter (\<lambda>k. HasPrefix k pre \<and> past < k) (map e_Key (entries s)))" arbitrary: s n past rule: less_induct)
  case less
  let ?L = "filter (\<lambda>e. HasPrefix (e_Key e) pre \<and> past < e_Key e) (entries s)"
  let ?K = "\<lambda>past. {k \<in> dom (objects s). HasPrefix k pre \<and> past < k}"
  define page where "page = take sweepPage ?L"
  have page: "list s pre past sweepPage = Inr page"
    using list_eq [OF less.prems] by (simp add: page_of_def page_def sweepPage_def)
  have inL: "e_Key ` set ?L = ?K past" using entries_keys [OF less.prems] by auto
  obtain r n1 past1 s1 where one: "set_each set_hold on page n past s = (r, n1, past1, s1)"
    by (cases "set_each set_hold on page n past s") auto
  then obtain js where js: "page = js @ drop (length js) page" "swept s (e_Key ` set js) on s1"
    "r = None \<Longrightarrow> js = page \<and> past1 = (if page = [] then past else e_Key (last page))"
    "locked s \<longrightarrow> e_Key ` set page \<subseteq> dom (objects s) \<longrightarrow> r = None"
    using set_each_swept [OF less.prems one] by blast
  have pL: "set page \<subseteq> set ?L" unfolding page_def by (rule set_take_subset)
  moreover have "set js \<subseteq> set page" using js(1) by (metis Un_upper1 set_append)
  ultimately have "set js \<subseteq> set ?L" by (rule subset_trans [rotated])
  then have sub: "e_Key ` set js \<subseteq> ?K past" using inL by blast
  have set: "locked s \<longrightarrow> r = None" using js(4) pL inL by blast
  note unf = sweep_loop.simps [of list set_hold pre on n past s] page one
  show ?case
  proof (cases r)
    case (Some e)
    then show ?thesis using js(2) sub set by (intro exI [of _ "Some e"] exI [of _ n1] exI [of _ s1] exI [of _ "e_Key ` set js"]) (simp add: unf)
  next
    case None
    show ?thesis
    proof (cases "length page < sweepPage")
      case True
      then have "page = ?L" by (simp add: page_def)
      then have "e_Key ` set js = ?K past" using js(3) None inL by simp
      then show ?thesis using None True js(2) by (intro exI [of _ None] exI [of _ n1] exI [of _ s1] exI [of _ "?K past"]) (simp add: unf)
    next
      case False
      then have len: "sweepPage \<le> length ?L" by (simp add: page_def)
      define i where "i = sweepPage - 1"
      have i: "Suc i = sweepPage" "i < length ?L" using len by (auto simp: i_def sweepPage_def)
      have ne: "page \<noteq> []" using i by (auto simp: page_def)
      have "last page = ?L ! i" using ne i by (simp add: last_conv_nth page_def min_absorb2 i_def)
      then have past1: "past1 = e_Key (?L ! i)" using js(3) None ne by simp
      have rest: "filter (\<lambda>e. HasPrefix (e_Key e) pre \<and> past1 < e_Key e) (entries s) = drop sweepPage ?L"
        using after_last [OF entries_sorted [OF less.prems] i(2)] i(1) past1 by simp
      have keys: "map e_Key (entries s1) = map e_Key (entries s)" using swept_keys [OF less.prems js(2)] .
      have "length (filter (\<lambda>k. HasPrefix k pre \<and> past1 < k) (map e_Key (entries s1)))
          < length (filter (\<lambda>k. HasPrefix k pre \<and> past < k) (map e_Key (entries s)))"
        using rest i by (simp add: keys filter_map o_def)
      moreover have inv1: "invar s1" using js(2) by (simp add: swept_def)
      ultimately obtain e n2 s2 ks where IH: "sweep_loop list set_hold pre on n1 past1 s1 = Some (e, n2, s2)" "swept s1 ks on s2"
        "ks \<subseteq> {k \<in> dom (objects s1). HasPrefix k pre \<and> past1 < k}" "e = None \<longrightarrow> ks = {k \<in> dom (objects s1). HasPrefix k pre \<and> past1 < k}" "locked s1 \<longrightarrow> e = None"
        using less.hyps [of past1 s1 n1] by blast
      have dom1: "dom (objects s1) = dom (objects s)" using keys entries_keys [OF inv1] entries_keys [OF less.prems] by (metis list.set_map)
      have tail: "e_Key ` set (drop sweepPage ?L) = {k \<in> dom (objects s1). HasPrefix k pre \<and> past1 < k}"
        unfolding rest [symmetric] using entries_keys [OF less.prems] dom1 by auto
      have front: "e_Key ` set js = e_Key ` set (take sweepPage ?L)" using js(3) None by (simp add: page_def)
      have "set ?L = set (take sweepPage ?L) \<union> set (drop sweepPage ?L)" by (simp only: set_append [symmetric] append_take_drop_id)
      then have un: "e_Key ` set js \<union> {k \<in> dom (objects s1). HasPrefix k pre \<and> past1 < k} = ?K past"
        unfolding inL [symmetric] front tail [symmetric] image_Un [symmetric] by (rule arg_cong [OF sym])
      have run: "sweep_loop list set_hold pre on n past s = Some (e, n2, s2)" using None False IH(1) by (simp add: unf)
      have "e_Key ` set js \<union> ks \<subseteq> ?K past" "e = None \<longrightarrow> e_Key ` set js \<union> ks = ?K past" using IH(3,4) un by blast+
      moreover have "locked s \<longrightarrow> e = None" using IH(5) js(2) by (simp add: swept_def)
      ultimately show ?thesis using run swept_trans [OF js(2) IH(2)] by blast
    qed
  qed
qed

lemma sweep_effect:
  assumes "invar s" "hs_list h = list" "hs_set h = set_hold" "pre \<noteq> []"
  shows "\<exists>e n s' ks. sweep h s pre on = Some (e, n, s') \<and> swept s ks on s' \<and> ks \<subseteq> {k \<in> dom (objects s). HasPrefix k pre}
    \<and> (e = None \<longrightarrow> ks = {k \<in> dom (objects s). HasPrefix k pre}) \<and> (locked s \<longrightarrow> e = None)"
proof -
  have "{k \<in> dom (objects s). HasPrefix k pre \<and> [] < k} = {k \<in> dom (objects s). HasPrefix k pre}"
    using assms(4) by (auto simp: HasPrefix_def order_less_le)
  then show ?thesis using sweep_loop_returns [OF assms(1), of pre on 0 "[]"] by (simp add: sweep_def assms(2,3))
qed

lemma hold_write_effect:
  assumes "invar s" "hs_put h = put" "hold_write h s name r = (e, s')"
  shows "invar s' \<and> locked s' = locked s \<and> objects s \<subseteq>\<^sub>m objects s'"
    "e = None \<Longrightarrow> objects s name = None \<and> (\<exists>x. objects s' = (objects s)(name \<mapsto> x) \<and> MarshalIndent_hold r = Some (o_Body x))"
proof -
  consider "MarshalIndent_hold r = None" "e = Some HoldNotMarshalled" "s' = s"
    | body f where "MarshalIndent_hold r = Some body" "put s (hold_object h name r body) = (f, s')" "e = map_option HoldStore f"
    using assms(3) by (auto simp: hold_write_def assms(2) Let_def split: option.splits prod.splits)
  then have "(invar s' \<and> locked s' = locked s \<and> objects s \<subseteq>\<^sub>m objects s') \<and>
    (e = None \<longrightarrow> objects s name = None \<and> (\<exists>x. objects s' = (objects s)(name \<mapsto> x) \<and> MarshalIndent_hold r = Some (o_Body x)))"
  proof cases
    case 2
    show ?thesis
    proof (cases f)
      case None
      from put_ok [OF assms(1) 2(2) [unfolded None]] obtain y where
        "objects s name = None" "objects s' = (objects s)(name \<mapsto> y)" "o_Body y = body" by (auto simp: hold_object_def split: if_splits)
      then show ?thesis using put_invar [OF assms(1) 2(2)] 2(1) by (auto simp: map_le_def)
    next
      case (Some g)
      then show ?thesis using put_err [OF assms(1) 2(2) [unfolded Some]] put_invar [OF assms(1) 2(2)] 2(3) by simp
    qed
  qed (use assms(1) in simp_all)
  then show "invar s' \<and> locked s' = locked s \<and> objects s \<subseteq>\<^sub>m objects s'"
    "e = None \<Longrightarrow> objects s name = None \<and> (\<exists>x. objects s' = (objects s)(name \<mapsto> x) \<and> MarshalIndent_hold r = Some (o_Body x))" by blast+
qed

text \<open>Recording, and then sweeping: what both placing and releasing come to.\<close>

lemma record_and_sweep:
  assumes "invar s" "hs_put h = put" "hs_list h = list" "hs_set h = set_hold" "hold_write h s name r = (None, s1)" "\<not> HasPrefix name pre" "pre \<noteq> []"
  shows "\<exists>e n s' x ks. sweep h s1 pre on = Some (e, n, s') \<and> invar s' \<and> locked s' = locked s \<and> objects s name = None
    \<and> MarshalIndent_hold r = Some (o_Body x) \<and> ks \<subseteq> {k. HasPrefix k pre} \<and> (e = None \<longrightarrow> ks = {k. HasPrefix k pre}) \<and> (locked s \<longrightarrow> e = None)
    \<and> objects s' = (\<lambda>k. if k \<in> ks then map_option (\<lambda>y. y\<lparr>o_LegalHold := on\<rparr>) (objects s k) else ((objects s)(name \<mapsto> x)) k)"
proof -
  note w = hold_write_effect [OF assms(1,2,5)]
  obtain x where x: "objects s name = None" "objects s1 = (objects s)(name \<mapsto> x)" "MarshalIndent_hold r = Some (o_Body x)" using w(2) by blast
  obtain e n s' js where sw: "sweep h s1 pre on = Some (e, n, s')" "swept s1 js on s'" "js \<subseteq> {k \<in> dom (objects s1). HasPrefix k pre}"
    "e = None \<longrightarrow> js = {k \<in> dom (objects s1). HasPrefix k pre}" "locked s1 \<longrightarrow> e = None"
    using sweep_effect [OF _ assms(3,4,7), of s1] w(1) by blast
  define ks where "ks = (if e = None then {k. HasPrefix k pre} else js)"
  have part: "k \<in> js \<Longrightarrow> k \<in> ks" "k \<in> ks \<Longrightarrow> k \<notin> js \<Longrightarrow> objects s1 k = None" for k using sw(3,4) by (auto simp: ks_def split: if_splits)
  have out: "name \<notin> ks" using assms(6) sw(3) by (auto simp: ks_def split: if_splits)
  have "objects s' k = (if k \<in> ks then map_option (\<lambda>y. y\<lparr>o_LegalHold := on\<rparr>) (objects s k) else ((objects s)(name \<mapsto> x)) k)" for k
    using sw(2) x part [of k] out by (cases "k \<in> js"; cases "k \<in> ks") (auto simp: swept_def fun_upd_def split: if_splits)
  then have "objects s' = (\<lambda>k. if k \<in> ks then map_option (\<lambda>y. y\<lparr>o_LegalHold := on\<rparr>) (objects s k) else ((objects s)(name \<mapsto> x)) k)" ..
  moreover have "ks \<subseteq> {k. HasPrefix k pre}" "e = None \<longrightarrow> ks = {k. HasPrefix k pre}" using sw(3) by (auto simp: ks_def)
  moreover have "invar s'" "locked s' = locked s" "locked s \<longrightarrow> e = None" using sw(2,5) w(1) by (simp_all add: swept_def)
  ultimately show ?thesis using sw(1) x(1,3) by blast
qed

end

interpretation mem_holds: holding_store mem_Put "\<lambda>m k. fst (mem_Get m k)" mem_ExtendRetention mem_List
  mem_Head mem_Prefixes mem_objects mem_entries "\<lambda>m. \<not> m_Unlocked m" mem_invar mem_SetLegalHold
proof (unfold_locales, goal_cases)
  case (1 s k on s')
  then show ?case by (auto simp: mem_SetLegalHold_def mem_objects_update mem_objects_def [of s k] split: option.splits if_splits)
next
  case (2 s k on e s')
  then show ?case by (auto simp: mem_SetLegalHold_def split: option.splits if_splits)
next
  case (3 s k on r s')
  then show ?case
    by (auto simp: mem_SetLegalHold_def mem_update_invar split: option.splits if_splits) (simp_all add: mem_update_def)
next
  case (4 s k on)
  then show ?case by (auto simp: mem_SetLegalHold_def mem_objects_def split: option.split)
qed

section \<open>Holds over the store in memory\<close>

definition mem_HoldStore :: "(time \<Rightarrow> time) option \<Rightarrow> (HoldRecord list \<Rightarrow> HoldRecord list) \<Rightarrow> memory HoldStore" where
  "mem_HoldStore retain sorted_by = \<lparr>hs_put = mem_Put, hs_get = \<lambda>m k. fst (mem_Get m k), hs_list = mem_List, hs_set = mem_SetLegalHold,
     hs_RetainUntil = retain, hs_sort = sorted_by\<rparr>"

lemma prefixOf_records: "prefixOf r \<noteq> []" "\<not> HasPrefix (PlacedKey i) (prefixOf r)" "\<not> HasPrefix (ReleasedKey i) (prefixOf r)"
  by (simp_all add: prefixOf_def PlacedKey_def ReleasedKey_def HoldPrefix_def TenantPrefix_def ProfilePrefix_def RecordsPrefix_def HasPrefix_def)

lemma prefixOf_cong [simp]: "prefixOf (r\<lparr>hd_PlacedAt := a\<rparr>) = prefixOf r" "prefixOf (r\<lparr>hd_ReleasedAt := b\<rparr>) = prefixOf r"
  "prefixOf (r\<lparr>hd_ReleasedBy := c\<rparr>) = prefixOf r" "prefixOf (r\<lparr>hd_Objects := n\<rparr>) = prefixOf r"
  by (simp_all add: prefixOf_def)

definition flagged :: "string set \<Rightarrow> bool \<Rightarrow> (string \<Rightarrow> obj option) \<Rightarrow> string \<Rightarrow> obj option" where
  "flagged ks on objs k = (if k \<in> ks then map_option (\<lambda>y. y\<lparr>o_LegalHold := on\<rparr>) (objs k) else objs k)"

text \<open>What a call leaves of a store: it is as before but for a put that failed, or the record is there and a part of the
  prefix, all of it when there was no error, has the flag.\<close>

definition recorded :: "memory \<Rightarrow> string \<Rightarrow> HoldRecord \<Rightarrow> bool \<Rightarrow> hold_error option \<Rightarrow> memory \<Rightarrow> bool" where
  "recorded m name r on e m' \<longleftrightarrow>
     (\<exists>x ks. mem_objects m name = None \<and> MarshalIndent_hold r = Some (o_Body x) \<and> ks \<subseteq> {k. HasPrefix k (prefixOf r)}
        \<and> (e = None \<longrightarrow> ks = {k. HasPrefix k (prefixOf r)}) \<and> (\<not> m_Unlocked m \<longrightarrow> e = None)
        \<and> mem_objects m' = flagged ks on ((mem_objects m)(name \<mapsto> x)))"

lemma recorded_sweep:
  assumes "mem_invar m" "hold_write (mem_HoldStore retain srt) m name r = (None, m1)" "\<not> HasPrefix name (prefixOf r)"
  shows "\<exists>e n m'. sweep (mem_HoldStore retain srt) m1 (prefixOf r) on = Some (e, n, m') \<and> mem_invar m'
    \<and> m_Unlocked m' = m_Unlocked m \<and> recorded m name r on (map_option HoldStore e) m'"
proof -
  let ?h = "mem_HoldStore retain srt"
  have "hs_put ?h = mem_Put" "hs_list ?h = mem_List" "hs_set ?h = mem_SetLegalHold" by (simp_all add: mem_HoldStore_def)
  from mem_holds.record_and_sweep [OF assms(1) this assms(2,3) prefixOf_records(1), of on]
  obtain e n m' x ks where r: "sweep ?h m1 (prefixOf r) on = Some (e, n, m')" "mem_invar m'" "(\<not> m_Unlocked m') = (\<not> m_Unlocked m)"
    "mem_objects m name = None" "MarshalIndent_hold r = Some (o_Body x)" "ks \<subseteq> {k. HasPrefix k (prefixOf r)}"
    "e = None \<longrightarrow> ks = {k. HasPrefix k (prefixOf r)}" "\<not> m_Unlocked m \<longrightarrow> e = None"
    "mem_objects m' = (\<lambda>k. if k \<in> ks then map_option (\<lambda>y. y\<lparr>o_LegalHold := on\<rparr>) (mem_objects m k) else ((mem_objects m)(name \<mapsto> x)) k)"
    by blast
  have "name \<notin> ks" using assms(3) r(6) by auto
  then have "mem_objects m' = flagged ks on ((mem_objects m)(name \<mapsto> x))" by (auto simp: r(9) flagged_def fun_eq_iff)
  then show ?thesis using r by (auto simp: recorded_def)
qed

lemma Place_effect:
  assumes "mem_invar m"
  shows "\<exists>e r' m'. Place (mem_HoldStore retain srt) now m r = Some (e, r', m') \<and> mem_invar m' \<and> m_Unlocked m' = m_Unlocked m
    \<and> ((e \<noteq> None \<and> mem_objects m' = mem_objects m)
       \<or> (hd_ID r \<noteq> [] \<and> recorded m (PlacedKey (hd_ID r)) (r\<lparr>hd_PlacedAt := now\<rparr>) True e m'))"
proof -
  let ?h = "mem_HoldStore retain srt" and ?r = "r\<lparr>hd_PlacedAt := now\<rparr>"
  obtain e1 m1 where w: "hold_write ?h m (PlacedKey (hd_ID r)) ?r = (e1, m1)" by (cases "hold_write ?h m (PlacedKey (hd_ID r)) ?r")
  show ?thesis
  proof (cases e1)
    case (Some e)
    then have "mem_invar m1 \<and> mem_objects m1 = mem_objects m \<and> m_Unlocked m1 = m_Unlocked m"
      using w assms by (auto simp: hold_write_def mem_HoldStore_def mem_Put_def Let_def split: option.splits if_splits prod.splits)
    then show ?thesis using w Some assms by (auto simp: Place_def Let_def)
  next
    case None
    from recorded_sweep [OF assms w [unfolded None], of True] prefixOf_records(2)
    obtain e n m' where sw: "sweep ?h m1 (prefixOf ?r) True = Some (e, n, m')" "mem_invar m'" "m_Unlocked m' = m_Unlocked m"
      "recorded m (PlacedKey (hd_ID r)) ?r True (map_option HoldStore e) m'" by blast
    then show ?thesis using w None assms by (auto simp: Place_def Let_def)
  qed
qed

lemma Release_effect:
  assumes "mem_invar m"
  shows "\<exists>e r' m'. Release (mem_HoldStore retain srt) now m i by_whom = Some (e, r', m') \<and> mem_invar m' \<and> m_Unlocked m' = m_Unlocked m
    \<and> ((e \<noteq> None \<and> mem_objects m' = mem_objects m)
       \<or> (\<exists>r. Hold_Get (mem_HoldStore retain srt) m i = (None, r) \<and> Active_hold r \<and> prefixOf r' = prefixOf r
            \<and> recorded m (ReleasedKey i) (r\<lparr>hd_ReleasedAt := Some now, hd_ReleasedBy := by_whom\<rparr>) False e m'))"
proof -
  let ?h = "mem_HoldStore retain srt"
  obtain e0 r where g: "Hold_Get ?h m i = (e0, r)" by (cases "Hold_Get ?h m i")
  let ?r = "r\<lparr>hd_ReleasedAt := Some now, hd_ReleasedBy := by_whom\<rparr>"
  obtain e1 m1 where w: "hold_write ?h m (ReleasedKey i) ?r = (e1, m1)" by (cases "hold_write ?h m (ReleasedKey i) ?r")
  show ?thesis
  proof (cases e1)
    case (Some e)
    then have "mem_invar m1 \<and> mem_objects m1 = mem_objects m \<and> m_Unlocked m1 = m_Unlocked m"
      using w assms by (auto simp: hold_write_def mem_HoldStore_def mem_Put_def Let_def split: option.splits if_splits prod.splits)
    then show ?thesis using g w Some assms by (auto simp: Release_def Let_def split: option.split)
  next
    case None
    from recorded_sweep [OF assms w [unfolded None], of False] prefixOf_records(3)
    obtain e n m' where sw: "sweep ?h m1 (prefixOf ?r) False = Some (e, n, m')" "mem_invar m'" "m_Unlocked m' = m_Unlocked m"
      "recorded m (ReleasedKey i) ?r False (map_option HoldStore e) m'" by blast
    then show ?thesis using g w None assms by (auto simp: Release_def Let_def split: option.split)
  qed
qed

lemma recorded_keeps:
  assumes "recorded m name r on e m'" "mem_objects m k = Some x"
  shows "\<exists>y. mem_objects m' k = Some y \<and> y\<lparr>o_LegalHold := o_LegalHold x\<rparr> = x \<and> (o_LegalHold y \<noteq> o_LegalHold x \<longrightarrow> o_LegalHold y = on \<and> HasPrefix k (prefixOf r))"
proof -
  obtain z ks where z: "mem_objects m name = None" "ks \<subseteq> {k. HasPrefix k (prefixOf r)}" "mem_objects m' = flagged ks on ((mem_objects m)(name \<mapsto> z))"
    using assms(1) by (auto simp: recorded_def)
  then have "k \<noteq> name" using assms(2) by auto
  then show ?thesis using assms(2) z by (auto simp: flagged_def)
qed

lemma recorded_all: "recorded m name r on None m' \<Longrightarrow> mem_objects m' k = Some y \<Longrightarrow> HasPrefix k (prefixOf r) \<Longrightarrow> o_LegalHold y = on"
  by (auto simp: recorded_def flagged_def)

lemma recorded_there:
  assumes "recorded m name r on e m'" "\<not> HasPrefix name (prefixOf r)"
  shows "\<exists>x. mem_objects m' name = Some x \<and> MarshalIndent_hold r = Some (o_Body x)"
proof -
  obtain x ks where "MarshalIndent_hold r = Some (o_Body x)" "ks \<subseteq> {k. HasPrefix k (prefixOf r)}"
    "mem_objects m' = flagged ks on ((mem_objects m)(name \<mapsto> x))" using assms(1) by (auto simp: recorded_def)
  moreover from this(2) have "name \<notin> ks" using assms(2) by auto
  ultimately show ?thesis by (simp add: flagged_def)
qed

lemma recorded_others:
  assumes "recorded m name r on e m'" "\<not> HasPrefix k (prefixOf r)" "k \<noteq> name"
  shows "mem_objects m' k = mem_objects m k"
proof -
  obtain x ks where "ks \<subseteq> {k. HasPrefix k (prefixOf r)}" "mem_objects m' = flagged ks on ((mem_objects m)(name \<mapsto> x))"
    using assms(1) by (auto simp: recorded_def)
  moreover from this(1) have "k \<notin> ks" using assms(2) by auto
  ultimately show ?thesis using assms(3) by (simp add: flagged_def)
qed

subsection \<open>The holds that are on\<close>

lemma takeWhile_rev_name: "CHR ''/'' \<notin> set n \<Longrightarrow> takeWhile (\<lambda>c. c \<noteq> CHR ''/'') (rev (i @ CHR ''/'' # n)) = rev n"
  by (simp add: takeWhile_append2 takeWhile_append)

lemma hold_split_key:
  assumes "CHR ''/'' \<notin> set n"
  shows "hold_split (HoldPrefix @ ''/'' @ i @ CHR ''/'' # n) = (i, n)"
proof -
  have "TrimPrefix (HoldPrefix @ ''/'' @ i @ CHR ''/'' # n) (HoldPrefix @ ''/'') = i @ CHR ''/'' # n"
    by (simp add: TrimPrefix_def CutPrefix_def HasPrefix_def HoldPrefix_def)
  then show ?thesis using takeWhile_rev_name [OF assms, of i] by (simp add: hold_split_def Let_def)
qed

lemma hold_split_placed: "hold_split (PlacedKey i) = (i, ''placed.json'')" "hold_split (ReleasedKey i) = (i, ''released.json'')"
  using hold_split_key [of "''placed.json''" i] hold_split_key [of "''released.json''" i]
  by (simp_all add: PlacedKey_def ReleasedKey_def)

lemma hold_split_eq:
  assumes "HasPrefix k (HoldPrefix @ ''/'')" "hold_split k = (i, n)" "n \<noteq> []"
  shows "k = HoldPrefix @ ''/'' @ i @ CHR ''/'' # n"
proof -
  obtain rest where k: "k = HoldPrefix @ ''/'' @ rest" using assms(1) unfolding HasPrefix_def by (metis append.assoc append_take_drop_id)
  have trim: "TrimPrefix k (HoldPrefix @ ''/'') = rest" by (simp add: k TrimPrefix_def CutPrefix_def HasPrefix_def HoldPrefix_def)
  define kind where "kind = rev (takeWhile (\<lambda>c. c \<noteq> CHR ''/'') (rev rest))"
  have sl: "CHR ''/'' \<in> set rest" and n: "i = take (length rest - length kind - 1) rest" "n = kind"
    using assms(2,3) by (auto simp: hold_split_def trim Let_def kind_def split: if_splits)
  obtain w where w: "dropWhile (\<lambda>c. c \<noteq> CHR ''/'') (rev rest) = CHR ''/'' # w"
  proof -
    let ?d = "dropWhile (\<lambda>c. c \<noteq> CHR ''/'') (rev rest)"
    have ne: "?d \<noteq> []" using sl by simp
    from hd_dropWhile [OF this] have "hd ?d = CHR ''/''" by simp
    with that [of "tl ?d"] ne show thesis by (cases ?d) auto
  qed
  have "rev rest = rev kind @ CHR ''/'' # w" using takeWhile_dropWhile_id [of "\<lambda>c. c \<noteq> CHR ''/''" "rev rest"] by (simp add: w kind_def)
  then have "rev (rev rest) = rev (rev kind @ CHR ''/'' # w)" by (rule arg_cong)
  then have "rest = rev w @ CHR ''/'' # kind" by simp
  then show ?thesis by (simp add: k n)
qed

text \<open>Every record of a placed hold can be read.\<close>

definition holds_wf :: "memory \<Rightarrow> bool" where
  "holds_wf m = list_all (\<lambda>e. HasPrefix (e_Key e) (HoldPrefix @ ''/'') \<longrightarrow> snd (hold_split (e_Key e)) = ''placed.json'' \<longrightarrow>
     (case mem_objects m (e_Key e) of None \<Rightarrow> False | Some x \<Rightarrow> Unmarshal_hold (o_Body x) \<noteq> None)) (mem_entries m)"

definition on_hold :: "memory \<Rightarrow> string \<Rightarrow> HoldRecord \<Rightarrow> bool" where
  "on_hold m i r \<longleftrightarrow> (\<exists>x. mem_objects m (PlacedKey i) = Some x \<and> Unmarshal_hold (o_Body x) = Some r) \<and> mem_objects m (ReleasedKey i) = None"

lemma on_hold_ids:
  fixes m
  defines "es \<equiv> page_of (mem_entries m) (HoldPrefix @ ''/'') [] 0"
  assumes "mem_invar m"
  shows "e \<in> set es \<longleftrightarrow> e \<in> set (mem_entries m) \<and> HasPrefix (e_Key e) (HoldPrefix @ ''/'')"
    "i \<in> set (map fst (placed_of es)) \<longleftrightarrow> mem_objects m (PlacedKey i) \<noteq> None"
    "i \<in> set (released_of es) \<longleftrightarrow> mem_objects m (ReleasedKey i) \<noteq> None"
    "(i, k) \<in> set (placed_of es) \<Longrightarrow> k = PlacedKey i"
proof -
  show in_es: "e \<in> set es \<longleftrightarrow> e \<in> set (mem_entries m) \<and> HasPrefix (e_Key e) (HoldPrefix @ ''/'')" for e
    by (auto simp: es_def page_of_def HasPrefix_def HoldPrefix_def order_less_le)
  have dom: "k \<in> e_Key ` set (mem_entries m) \<longleftrightarrow> mem_objects m k \<noteq> None" for k using mem.entries_keys [OF assms(2)] by (auto simp: dom_def)
  have pre: "HasPrefix (PlacedKey i) (HoldPrefix @ ''/'')" "HasPrefix (ReleasedKey i) (HoldPrefix @ ''/'')" for i
    by (simp_all add: PlacedKey_def ReleasedKey_def HasPrefix_def)
  have key: "e_Key e = PlacedKey i" if "e \<in> set es" "hold_split (e_Key e) = (i, ''placed.json'')" for e i
    using hold_split_eq [OF _ that(2)] in_es that(1) by (simp add: PlacedKey_def)
  have rel: "e_Key e = ReleasedKey i" if "e \<in> set es" "hold_split (e_Key e) = (i, ''released.json'')" for e i
    using hold_split_eq [OF _ that(2)] in_es that(1) by (simp add: ReleasedKey_def)
  show pk: "(i, k) \<in> set (placed_of es) \<Longrightarrow> k = PlacedKey i" for i k
    using key by (auto simp: placed_of_def) (metis prod.collapse)
  have "i \<in> set (map fst (placed_of es)) \<longleftrightarrow> PlacedKey i \<in> e_Key ` set (mem_entries m)"
  proof
    assume "i \<in> set (map fst (placed_of es))"
    then obtain e where "e \<in> set es" "hold_split (e_Key e) = (i, ''placed.json'')" by (auto simp: placed_of_def) (metis prod.collapse)
    then show "PlacedKey i \<in> e_Key ` set (mem_entries m)" using key in_es by (metis image_eqI)
  next
    assume "PlacedKey i \<in> e_Key ` set (mem_entries m)"
    then obtain e where "e \<in> set es" "e_Key e = PlacedKey i" using in_es pre by auto
    then show "i \<in> set (map fst (placed_of es))" by (force simp: placed_of_def hold_split_placed)
  qed
  then show "i \<in> set (map fst (placed_of es)) \<longleftrightarrow> mem_objects m (PlacedKey i) \<noteq> None" by (simp only: dom)
  have "i \<in> set (released_of es) \<longleftrightarrow> ReleasedKey i \<in> e_Key ` set (mem_entries m)"
  proof
    assume "i \<in> set (released_of es)"
    then obtain e where "e \<in> set es" "hold_split (e_Key e) = (i, ''released.json'')" by (auto simp: released_of_def) (metis prod.collapse)
    then show "ReleasedKey i \<in> e_Key ` set (mem_entries m)" using rel in_es by (metis image_eqI)
  next
    assume "ReleasedKey i \<in> e_Key ` set (mem_entries m)"
    then obtain e where "e \<in> set es" "e_Key e = ReleasedKey i" using in_es pre by auto
    then show "i \<in> set (released_of es)" by (force simp: released_of_def hold_split_placed)
  qed
  then show "i \<in> set (released_of es) \<longleftrightarrow> mem_objects m (ReleasedKey i) \<noteq> None" by (simp only: dom)
qed

lemma Active_exact:
  assumes "mem_invar m" "holds_wf m" "\<And>xs. set (srt xs) = set xs"
  shows "\<exists>rs. Hold_Active (mem_HoldStore retain srt) m = Inr rs \<and> set rs = {r. \<exists>i. on_hold m i r}"
proof -
  let ?h = "mem_HoldStore retain srt" and ?es = "page_of (mem_entries m) (HoldPrefix @ ''/'') [] 0"
  note ids = on_hold_ids [OF assms(1)]
  define act where "act = sort (filter (\<lambda>i. i \<notin> set (released_of ?es)) (remdups (map fst (rev (placed_of ?es)))))"
  have act: "i \<in> set act \<longleftrightarrow> mem_objects m (PlacedKey i) \<noteq> None \<and> mem_objects m (ReleasedKey i) = None" for i
    using ids(2,3) [of i] by (simp add: act_def)
  have key: "the (map_of (rev (placed_of ?es)) i) = PlacedKey i" if "i \<in> set act" for i
  proof -
    have "i \<in> fst ` set (rev (placed_of ?es))" using that act ids(2) by simp
    then obtain k where "map_of (rev (placed_of ?es)) i = Some k" by (metis map_of_eq_None_iff not_None_eq)
    then show ?thesis using ids(4) by (auto dest: map_of_SomeD)
  qed
  define f where "f i = (THE r. \<exists>x. mem_objects m (PlacedKey i) = Some x \<and> Unmarshal_hold (o_Body x) = Some r)" for i
  have read: "read_hold ?h m (PlacedKey i) = Inr (f i) \<and> on_hold m i (f i)" if i: "i \<in> set act" for i
  proof -
    obtain x where x: "mem_objects m (PlacedKey i) = Some x" "mem_objects m (ReleasedKey i) = None" using i act [of i] by auto
    then obtain e where "e \<in> set (mem_entries m)" "e_Key e = PlacedKey i" using mem.entries_keys [OF assms(1)] by (metis (mono_tags) domI imageE)
    moreover have "HasPrefix (PlacedKey i) (HoldPrefix @ ''/'')" by (simp add: PlacedKey_def HasPrefix_def)
    ultimately have "Unmarshal_hold (o_Body x) \<noteq> None"
      using assms(2) x(1) by (fastforce simp: holds_wf_def list_all_iff hold_split_placed)
    then obtain r where r: "Unmarshal_hold (o_Body x) = Some r" by auto
    then have "f i = r" using x by (auto simp: f_def)
    moreover have "fst (mem_Get m (PlacedKey i)) = Inr (o_Body x)" using mem.get_ok [OF assms(1)] x(1) by auto
    ultimately show ?thesis using r x by (auto simp: read_hold_def mem_HoldStore_def on_hold_def)
  qed
  have "read_holds ?h m (map (\<lambda>i. the (map_of (rev (placed_of ?es)) i)) act) = Inr (map f act)"
  proof -
    have keys: "map (\<lambda>i. the (map_of (rev (placed_of ?es)) i)) act = map PlacedKey act" using key by simp
    show ?thesis unfolding keys using read by (induction act) auto
  qed
  moreover have "hs_list ?h m (HoldPrefix @ ''/'') [] 0 = Inr ?es" by (simp add: mem_HoldStore_def mem_list_ok)
  ultimately have "Hold_Active ?h m = Inr (srt (map f act))"
    by (simp add: Hold_Active_def act_def Let_def mem_HoldStore_def)
  moreover have "set (map f act) = {r. \<exists>i. on_hold m i r}"
  proof -
    have "r = f i \<and> i \<in> set act" if "on_hold m i r" for i r using that act by (auto simp: on_hold_def f_def)
    then show ?thesis using read by auto
  qed
  ultimately show ?thesis using assms(3) by auto
qed

section \<open>Properties\<close>

lemma Place_wf:
  assumes "mem_invar m" "mem_invar m'" "holds_wf m" "recorded m (PlacedKey i) r True e m'" "writable_hold r"
  shows "holds_wf m'"
  unfolding holds_wf_def list_all_iff
proof (intro ballI impI)
  fix en assume en: "en \<in> set (mem_entries m')" "HasPrefix (e_Key en) (HoldPrefix @ ''/'')" "snd (hold_split (e_Key en)) = ''placed.json''"
  obtain body where body: "MarshalIndent_hold r = Some body" "Unmarshal_hold body \<noteq> None" using hold_read_back [OF assms(5)] by auto
  have pre: "\<not> HasPrefix (e_Key en) (prefixOf r)"
    using en(2) by (cases "e_Key en") (auto simp: HoldPrefix_def HasPrefix_def prefixOf_def TenantPrefix_def ProfilePrefix_def RecordsPrefix_def)
  obtain x where x: "mem_objects m' (e_Key en) = Some x" using en(1) mem.entries_keys [OF assms(2)] by blast
  show "case mem_objects m' (e_Key en) of None \<Rightarrow> False | Some x \<Rightarrow> Unmarshal_hold (o_Body x) \<noteq> None"
  proof (cases "e_Key en = PlacedKey i")
    case True
    then show ?thesis using recorded_there [OF assms(4) prefixOf_records(2)] x body by auto
  next
    case False
    then have "mem_objects m (e_Key en) = Some x" using recorded_others [OF assms(4) pre] x by simp
    moreover from this obtain e' where "e' \<in> set (mem_entries m)" "e_Key e' = e_Key en"
      using mem.entries_keys [OF assms(1)] by (metis (mono_tags) domI imageE)
    ultimately show ?thesis using assms(3) en x by (fastforce simp: holds_wf_def list_all_iff)
  qed
qed

text \<open>
  C11: Placing a hold always ends, over any number of pages. No object is lost or changed but for its flag, and no flag is cleared. When
  there is no error, every object under the prefix of the hold is held, and the record of the hold is in the store, where it
  is read back as what was placed; the holds of the archive stay readable.
\<close>

theorem place_holds_everything:
  assumes "mem_invar m" "writable_hold (r\<lparr>hd_PlacedAt := now\<rparr>)"
  shows "\<exists>e r' m'. Place (mem_HoldStore retain srt) now m r = Some (e, r', m') \<and> mem_invar m'
    \<and> (\<forall>k x. mem_objects m k = Some x \<longrightarrow>
         (\<exists>y. mem_objects m' k = Some y \<and> y\<lparr>o_LegalHold := o_LegalHold x\<rparr> = x \<and> (o_LegalHold x \<longrightarrow> o_LegalHold y)))
    \<and> (e = None \<longrightarrow>
         (\<forall>k y. mem_objects m' k = Some y \<longrightarrow> HasPrefix k (prefixOf r) \<longrightarrow> o_LegalHold y)
         \<and> (\<exists>x. mem_objects m' (PlacedKey (hd_ID r)) = Some x \<and> Unmarshal_hold (o_Body x) = Some (r\<lparr>hd_PlacedAt := now, hd_Objects := 0\<rparr>))
         \<and> (holds_wf m \<longrightarrow> holds_wf m'))"
proof -
  obtain e r' m' where p: "Place (mem_HoldStore retain srt) now m r = Some (e, r', m')" "mem_invar m'"
    and "(e \<noteq> None \<and> mem_objects m' = mem_objects m) \<or> recorded m (PlacedKey (hd_ID r)) (r\<lparr>hd_PlacedAt := now\<rparr>) True e m'"
    using Place_effect [OF assms(1), of retain srt now r] by blast
  then consider "e \<noteq> None" "mem_objects m' = mem_objects m" | "recorded m (PlacedKey (hd_ID r)) (r\<lparr>hd_PlacedAt := now\<rparr>) True e m'" by blast
  then show ?thesis
  proof cases
    case 1
    then show ?thesis using p by (intro exI [of _ e] exI [of _ r'] exI [of _ m']) auto
  next
    case 2
    obtain body where body: "MarshalIndent_hold (r\<lparr>hd_PlacedAt := now\<rparr>) = Some body" "Unmarshal_hold body = Some (r\<lparr>hd_PlacedAt := now, hd_Objects := 0\<rparr>)"
      using hold_read_back [OF assms(2)] by auto
    have keeps: "\<forall>k x. mem_objects m k = Some x \<longrightarrow>
        (\<exists>y. mem_objects m' k = Some y \<and> y\<lparr>o_LegalHold := o_LegalHold x\<rparr> = x \<and> (o_LegalHold x \<longrightarrow> o_LegalHold y))"
      using recorded_keeps [OF 2] by blast
    moreover have "\<forall>k y. mem_objects m' k = Some y \<longrightarrow> HasPrefix k (prefixOf r) \<longrightarrow> o_LegalHold y" if "e = None"
      using recorded_all [OF 2 [unfolded that]] by simp
    moreover have "\<exists>x. mem_objects m' (PlacedKey (hd_ID r)) = Some x \<and> Unmarshal_hold (o_Body x) = Some (r\<lparr>hd_PlacedAt := now, hd_Objects := 0\<rparr>)"
      using recorded_there [OF 2 prefixOf_records(2)] body by auto
    moreover have "holds_wf m \<longrightarrow> holds_wf m'" using Place_wf [OF assms(1) p(2) _ 2 assms(2)] by blast
    ultimately show ?thesis using p by blast
  qed
qed

text \<open>
  C12: When the record of every placed hold can be read, a refresh of the writer's view succeeds, and a profile and tenant are then under
  a hold exactly when a hold was placed that covers them and has no record of its release.
\<close>

theorem watcher_sees_holds:
  assumes "mem_invar m" "holds_wf m" "\<And>xs. set (srt xs) = set xs"
  shows "\<exists>w'. Refresh (mem_HoldStore retain srt) m w = (None, w') \<and> Ready w'
    \<and> (\<forall>p t. Held w' p t \<longleftrightarrow> (\<exists>i r. on_hold m i r \<and> Covers r p t))"
proof -
  obtain rs where "Hold_Active (mem_HoldStore retain srt) m = Inr rs" "set rs = {r. \<exists>i. on_hold m i r}"
    using Active_exact [OF assms] by blast
  then show ?thesis by (auto simp: Refresh_def Ready_def Held_def list_ex_iff)
qed

text \<open>
  C40: Releasing one hold clears the flag of every object under its prefix, also of those another hold covers that is still on: that
  hold's records are as they were, the writer goes on treating its prefix as held, and the objects can be deleted.
\<close>

theorem release_frees_other_holds:
  assumes "mem_invar m" "Release (mem_HoldStore retain srt) now m i by_whom = Some (None, r', m')" "on_hold m j b" "j \<noteq> i"
  shows "(\<forall>k y. mem_objects m' k = Some y \<longrightarrow> HasPrefix k (prefixOf r') \<longrightarrow> \<not> o_LegalHold y) \<and> on_hold m' j b"
proof -
  from Release_effect [OF assms(1), of retain srt now i by_whom] assms(2) obtain r where
    rec: "prefixOf r' = prefixOf r" "recorded m (ReleasedKey i) (r\<lparr>hd_ReleasedAt := Some now, hd_ReleasedBy := by_whom\<rparr>) False None m'" by auto
  let ?r = "r\<lparr>hd_ReleasedAt := Some now, hd_ReleasedBy := by_whom\<rparr>"
  have ne: "PlacedKey j \<noteq> ReleasedKey i" "ReleasedKey j \<noteq> ReleasedKey i"
    using hold_split_placed(1) [of j] hold_split_placed(2) [of i] hold_split_placed(2) [of j] assms(4) by auto
  have "mem_objects m' (PlacedKey j) = mem_objects m (PlacedKey j)" "mem_objects m' (ReleasedKey j) = mem_objects m (ReleasedKey j)"
    using recorded_others [OF rec(2) prefixOf_records(2) ne(1)] recorded_others [OF rec(2) prefixOf_records(3) ne(2)] by blast+
  moreover have "\<forall>k y. mem_objects m' k = Some y \<longrightarrow> HasPrefix k (prefixOf r') \<longrightarrow> \<not> o_LegalHold y" using recorded_all [OF rec(2)] rec(1) by auto
  ultimately show ?thesis using assms(3) by (simp add: on_hold_def)
qed

section \<open>Two holds over one object\<close>

lemma hold_write_ok:
  assumes "m_FailPut m = None" "mem_objects m name = None" "name \<noteq> []" "writable_hold r"
  shows "\<exists>m1. hold_write (mem_HoldStore retain srt) m name r = (None, m1)"
  using hold_read_back [OF assms(4)] assms(1-3)
  by (auto simp: hold_write_def mem_HoldStore_def mem_Put_def hold_object_def mem_objects_def Let_def split: option.splits)

lemma Release_succeeds:
  assumes "mem_invar m" "\<not> m_Unlocked m" "m_FailPut m = None" "mem_objects m (ReleasedKey i) = None" "TrimSpace by_whom \<noteq> []"
    and "Hold_Get (mem_HoldStore retain srt) m i = (None, r)" "Active_hold r" "writable_hold (r\<lparr>hd_ReleasedAt := Some now, hd_ReleasedBy := by_whom\<rparr>)"
  shows "\<exists>r' m'. Release (mem_HoldStore retain srt) now m i by_whom = Some (None, r', m') \<and> prefixOf r' = prefixOf r"
proof -
  let ?r = "r\<lparr>hd_ReleasedAt := Some now, hd_ReleasedBy := by_whom\<rparr>"
  have "ReleasedKey i \<noteq> []" by (simp add: ReleasedKey_def)
  then obtain m1 where w: "hold_write (mem_HoldStore retain srt) m (ReleasedKey i) ?r = (None, m1)"
    using hold_write_ok [OF assms(3,4) _ assms(8)] by blast
  from recorded_sweep [OF assms(1) w, of False] prefixOf_records(3) obtain e n m' where
    sw: "sweep (mem_HoldStore retain srt) m1 (prefixOf ?r) False = Some (e, n, m')" "recorded m (ReleasedKey i) ?r False (map_option HoldStore e) m'" by blast
  then have "e = None" using assms(2) by (auto simp: recorded_def)
  then show ?thesis using w sw(1) assms(5-7) by (simp add: Release_def Let_def)
qed

definition example_hold :: "string \<Rightarrow> string \<Rightarrow> HoldRecord" where
  "example_hold i tenant = \<lparr>hd_ID = i, hd_Profile = ''p'', hd_Tenant = tenant, hd_Reason = ''r'', hd_PlacedBy = ''me'', hd_PlacedAt = 0,
     hd_ReleasedBy = [], hd_ReleasedAt = None, hd_Objects = 0\<rparr>"

text \<open>An object of a tenant, under a hold of its profile and under one of the tenant.\<close>

definition example_held :: memory where
  "example_held = (let held = (\<lambda>i t. (PlacedKey i, (example_obj (PlacedKey i))\<lparr>o_Body := the (MarshalIndent_hold (example_hold i t))\<rparr>, 0)) in
     (NewMemory (\<lambda>n. int n))\<lparr>m_objects := [(''records/p/t/x'', (example_obj ''records/p/t/x'')\<lparr>o_LegalHold := True\<rparr>, 0), held ''a'' [], held ''b'' ''t'']\<rparr>)"

lemma utf8_plain_example: "utf8_string []" "utf8_string ''a''" "utf8_string ''b''" "utf8_string ''p''" "utf8_string ''t''" "utf8_string ''r''" "utf8_string ''me''"
  by (rule plain_utf8, simp add: plain_text_def nats_def)+

lemma example_writable: "writable_time 0" "writable_hold (example_hold ''a'' [])" "writable_hold (example_hold ''b'' ''t'')"
  "writable_hold ((example_hold ''a'' [])\<lparr>hd_ReleasedAt := Some 0, hd_ReleasedBy := ''me''\<rparr>)"
proof -
  show t: "writable_time 0" by (simp add: writable_time_def Year_def day_number_def year_yday_def Let_def)
  show "writable_hold (example_hold ''a'' [])" "writable_hold (example_hold ''b'' ''t'')"
    "writable_hold ((example_hold ''a'' [])\<lparr>hd_ReleasedAt := Some 0, hd_ReleasedBy := ''me''\<rparr>)"
    using t utf8_plain_example by (simp_all add: writable_hold_def example_hold_def)
qed

lemma example_keys: "PlacedKey ''a'' = ''holds/a/placed.json''" "PlacedKey ''b'' = ''holds/b/placed.json''"
  "ReleasedKey ''a'' = ''holds/a/released.json''" "ReleasedKey ''b'' = ''holds/b/released.json''"
  by (simp_all add: PlacedKey_def ReleasedKey_def HoldPrefix_def)

lemma example_bodies:
  "Unmarshal_hold (the (MarshalIndent_hold (example_hold ''a'' []))) = Some (example_hold ''a'' [])"
  "Unmarshal_hold (the (MarshalIndent_hold (example_hold ''b'' ''t''))) = Some (example_hold ''b'' ''t'')"
  using hold_read_back [OF example_writable(2)] hold_read_back [OF example_writable(3)] by (auto simp: example_hold_def)

lemma example_held_facts:
  "mem_invar example_held" "\<not> m_Unlocked example_held" "m_FailPut example_held = None" "mem_objects example_held (ReleasedKey ''a'') = None"
  "Hold_Get (mem_HoldStore None (\<lambda>xs. xs)) example_held ''a'' = (None, example_hold ''a'' [])" "on_hold example_held ''b'' (example_hold ''b'' ''t'')"
proof -
  show "mem_invar example_held" "\<not> m_Unlocked example_held" "m_FailPut example_held = None" "mem_objects example_held (ReleasedKey ''a'') = None"
    by (auto simp: example_held_def mem_invar_def NewMemory_def mem_objects_def example_keys Let_def)
  show "Hold_Get (mem_HoldStore None (\<lambda>xs. xs)) example_held ''a'' = (None, example_hold ''a'' [])"
    by (simp add: Hold_Get_def read_hold_def mem_HoldStore_def example_held_def mem_Get_def Let_def NewMemory_def example_keys example_bodies)
  show "on_hold example_held ''b'' (example_hold ''b'' ''t'')"
    by (simp add: on_hold_def example_held_def mem_objects_def Let_def NewMemory_def example_keys example_bodies)
qed

theorem release_frees_other_holds_witness:
  "\<exists>r' m'. Release (mem_HoldStore None (\<lambda>xs. xs)) 0 example_held ''a'' ''me'' = Some (None, r', m')
     \<and> (\<forall>k y. mem_objects m' k = Some y \<longrightarrow> HasPrefix k ''records/p/'' \<longrightarrow> \<not> o_LegalHold y)
     \<and> on_hold m' ''b'' (example_hold ''b'' ''t'') \<and> Covers (example_hold ''b'' ''t'') ''p'' ''t''"
proof -
  have pre: "prefixOf (example_hold ''a'' []) = ''records/p/''" by (simp add: prefixOf_def example_hold_def ProfilePrefix_def RecordsPrefix_def)
  have "TrimSpace ''me'' \<noteq> []" "Active_hold (example_hold ''a'' [])" "Covers (example_hold ''b'' ''t'') ''p'' ''t''"
    by (simp_all add: TrimSpace_def is_space_def Active_hold_def Covers_def example_hold_def)
  note now = this
  obtain r' m' where rel: "Release (mem_HoldStore None (\<lambda>xs. xs)) 0 example_held ''a'' ''me'' = Some (None, r', m')"
    "prefixOf r' = prefixOf (example_hold ''a'' [])"
    using Release_succeeds [OF example_held_facts(1-4) now(1) example_held_facts(5) now(2) example_writable(4)] by blast
  from release_frees_other_holds [OF example_held_facts(1) rel(1) example_held_facts(6)] rel pre now(3) show ?thesis by auto
qed

theorem watcher_sees_holds_witness:
  "\<exists>w'. Refresh (mem_HoldStore None (\<lambda>xs. xs)) example_held \<lparr>wa_active = [], wa_loaded = False\<rparr> = (None, w') \<and> Held w' ''p'' ''t''"
proof -
  have "hold_split ''records/p/t/x'' = (''records/p/t'', ''x'')"
    by (simp add: hold_split_def TrimPrefix_def CutPrefix_def HasPrefix_def HoldPrefix_def Let_def)
  then have "holds_wf example_held"
    by (auto simp: holds_wf_def list_all_iff mem_entries_def example_held_def mem_objects_def Let_def NewMemory_def example_keys example_bodies)
  moreover have "Covers (example_hold ''b'' ''t'') ''p'' ''t''" by (simp add: Covers_def example_hold_def)
  ultimately show ?thesis
    using watcher_sees_holds [OF example_held_facts(1), of "\<lambda>xs. xs" None] example_held_facts(6) by blast
qed

theorem place_holds_everything_witness:
  "\<exists>r' m'. Place (mem_HoldStore None (\<lambda>xs. xs)) 0 (example_store [''records/p/t/x'']) (example_hold ''a'' []) = Some (None, r', m')
     \<and> (\<forall>k y. mem_objects m' k = Some y \<longrightarrow> HasPrefix k (prefixOf (example_hold ''a'' [])) \<longrightarrow> o_LegalHold y)"
proof -
  let ?m = "example_store [''records/p/t/x'']" and ?h = "mem_HoldStore None (\<lambda>xs. xs)" and ?r = "example_hold ''a'' []"
  have inv: "mem_invar ?m" by (auto simp: mem_invar_def example_store_def NewMemory_def)
  have same: "?r\<lparr>hd_PlacedAt := 0\<rparr> = ?r" by (simp add: example_hold_def)
  have m: "\<not> m_Unlocked ?m" "m_FailPut ?m = None" "mem_objects ?m (PlacedKey (hd_ID ?r)) = None" "PlacedKey (hd_ID ?r) \<noteq> []"
    by (simp_all add: example_store_def NewMemory_def mem_objects_def example_hold_def example_keys)
  then have "fst (Hold_Get ?h ?m (hd_ID ?r)) \<noteq> None"
    by (simp add: Hold_Get_def read_hold_def mem_HoldStore_def mem_Get_def mem_objects_def Let_def)
  moreover have "hd_Profile ?r \<noteq> []" "TrimSpace (hd_Reason ?r) \<noteq> []" "KeyComponent (hd_Profile ?r) = []" "hd_Tenant ?r = []" "hd_ID ?r \<noteq> []"
    "TrimSpace (hd_PlacedBy ?r) \<noteq> []"
    by (simp_all add: example_hold_def TrimSpace_def is_space_def KeyComponent_def)
  moreover obtain m1 where "hold_write ?h ?m (PlacedKey (hd_ID ?r)) ?r = (None, m1)" using hold_write_ok [OF m(2-4) example_writable(2)] by blast
  moreover from recorded_sweep [OF inv this prefixOf_records(2), of True] m(1) obtain n m' where
    "sweep ?h m1 (prefixOf ?r) True = Some (None, n, m')" by (auto simp: recorded_def)
  ultimately obtain r' m' where "Place ?h 0 ?m ?r = Some (None, r', m')" by (simp add: Place_def same)
  moreover have "writable_hold (?r\<lparr>hd_PlacedAt := 0\<rparr>)" using example_writable(2) by (simp only: same)
  ultimately show ?thesis using place_holds_everything [OF inv, of 0 ?r None "\<lambda>xs. xs"] by auto
qed

end
