(* ===== verification/Jws.thy ===== *)
theory Jws
  imports Gojson Merkle
begin

text \<open>
  \<open>internal/seal/jws.go\<close>: the keys that sign the statements of the archive, and a statement as a compact JWS. A key is the
  two coordinates of a point of P-384, which is checked to be on the curve. The digest and the verification of an
  ECDSA signature are arguments, of which nothing is assumed; so is what a signer answers.

  Shown: what is signed is taken apart into the key, the type and the payload it was made of, and verifies under the
  key it names.
\<close>

section \<open>Keys\<close>

definition Alg :: string where "Alg = ''ES384''"

definition TypSeal :: string where "TypSeal = ''audit-seal+jws''"

definition TypDelegation :: string where "TypDelegation = ''audit-delegation+jws''"

definition TypRevocation :: string where "TypRevocation = ''audit-revocation+jws''"

definition coordinate :: nat where "coordinate = 48"

text \<open>The coordinates as bytes, most significant first.\<close>

type_synonym PublicKey = "bytes \<times> bytes"

definition big_endian :: "bytes \<Rightarrow> nat" where
  "big_endian b = foldl (\<lambda>n c. 256 * n + of_char c) 0 b"

definition p384 :: nat where "p384 = 2 ^ 384 - 2 ^ 128 - 2 ^ 96 + 2 ^ 32 - 1"

definition b384 :: nat where
  "b384 = 0xb3312fa7e23ee7e4988e056be3f82d19181d9c6efe8141120314088f5013875ac656398d8a2ed19d2a85c8edd3ec2aef"

text \<open>\<open>ecdsa.ParseUncompressedPublicKey\<close>: coordinates of the field, of a point of \<open>y\<^sup>2 = x\<^sup>3 - 3 x + b\<close>.\<close>

definition on_P384 :: "nat \<Rightarrow> nat \<Rightarrow> bool" where
  "on_P384 x y \<longleftrightarrow> x < p384 \<and> y < p384 \<and> (y * y + 3 * x) mod p384 = (x * x * x + b384) mod p384"

record JWK =
  jk_Kty :: string
  jk_Crv :: string
  jk_X :: string
  jk_Y :: string
  jk_Kid :: string
  jk_Alg :: string
  jk_Use :: string

definition no_JWK :: JWK where
  "no_JWK = \<lparr>jk_Kty = [], jk_Crv = [], jk_X = [], jk_Y = [], jk_Kid = [], jk_Alg = [], jk_Use = []\<rparr>"

definition b64 :: "bytes \<Rightarrow> string" where
  "b64 b = EncodeToString (nats b)"

definition b64_decode :: "string \<Rightarrow> bytes option" where
  "b64_decode s = map_option chars (DecodeString s)"

definition coordinates :: "PublicKey \<Rightarrow> string \<times> string" where
  "coordinates pub =
     (if length (fst pub) \<noteq> coordinate \<or> length (snd pub) \<noteq> coordinate then ([], []) else (b64 (fst pub), b64 (snd pub)))"

definition Thumbprint :: "PublicKey \<Rightarrow> string" where
  "Thumbprint pub =
     (let (x, y) = coordinates pub; q = [CHR 0x22] in
      b64 (sha256 (''{'' @ q @ ''crv'' @ q @ '':'' @ q @ ''P-384'' @ q @ '','' @ q @ ''kty'' @ q @ '':'' @ q @ ''EC'' @ q @ '',''
        @ q @ ''x'' @ q @ '':'' @ q @ x @ q @ '','' @ q @ ''y'' @ q @ '':'' @ q @ y @ q @ ''}'')))"

definition NewJWK :: "PublicKey \<Rightarrow> JWK" where
  "NewJWK pub =
     (let (x, y) = coordinates pub in
      \<lparr>jk_Kty = ''EC'', jk_Crv = ''P-384'', jk_X = x, jk_Y = y, jk_Kid = Thumbprint pub, jk_Alg = Alg, jk_Use = ''sig''\<rparr>)"

datatype key_error = NotP384 string string | BadX | BadY | OffCurve

definition JWK_Key :: "JWK \<Rightarrow> key_error + PublicKey" where
  "JWK_Key j =
     (if jk_Kty j \<noteq> ''EC'' \<or> jk_Crv j \<noteq> ''P-384'' then Inl (NotP384 (jk_Kty j) (jk_Crv j))
      else case b64_decode (jk_X j) of
             None \<Rightarrow> Inl BadX
           | Some x \<Rightarrow>
               if length x \<noteq> coordinate then Inl BadX
               else (case b64_decode (jk_Y j) of
                       None \<Rightarrow> Inl BadY
                     | Some y \<Rightarrow>
                         if length y \<noteq> coordinate then Inl BadY
                         else if on_P384 (big_endian x) (big_endian y) then Inr (x, y)
                         else Inl OffCurve))"

subsection \<open>Key sets\<close>

definition jwk_members :: "JWK \<Rightarrow> (string \<times> nat list) list" where
  "jwk_members j =
     [(''kty'', marshal_string (jk_Kty j)), (''crv'', marshal_string (jk_Crv j)), (''x'', marshal_string (jk_X j)), (''y'', marshal_string (jk_Y j))]
     @ (if jk_Kid j = [] then [] else [(''kid'', marshal_string (jk_Kid j))])
     @ (if jk_Alg j = [] then [] else [(''alg'', marshal_string (jk_Alg j))])
     @ (if jk_Use j = [] then [] else [(''use'', marshal_string (jk_Use j))])"

text \<open>\<open>MarshalJWKS\<close>: the struct of the keys, indented by two spaces at each level.\<close>

definition MarshalJWKS :: "PublicKey list \<Rightarrow> bytes" where
  "MarshalJWKS pubs =
     chars (MarshalIndent_struct [(''keys'',
       if pubs = [] then [91, 93]
       else array_text (10 # replicate 4 32) [10, 32, 32]
              (map (\<lambda>pub. struct_text (10 # replicate 6 32) [32] (10 # replicate 4 32) (jwk_members (NewJWK pub))) pubs))])"

definition jwk_member :: "string \<times> JSON \<times> nat list \<Rightarrow> JWK \<Rightarrow> JWK option" where
  "jwk_member m j =
     (case m of (name, v, raw) \<Rightarrow>
        if names_field ''kty'' name then map_option (\<lambda>s. j\<lparr>jk_Kty := s\<rparr>) (string_field (jk_Kty j) v)
        else if names_field ''crv'' name then map_option (\<lambda>s. j\<lparr>jk_Crv := s\<rparr>) (string_field (jk_Crv j) v)
        else if names_field ''x'' name then map_option (\<lambda>s. j\<lparr>jk_X := s\<rparr>) (string_field (jk_X j) v)
        else if names_field ''y'' name then map_option (\<lambda>s. j\<lparr>jk_Y := s\<rparr>) (string_field (jk_Y j) v)
        else if names_field ''kid'' name then map_option (\<lambda>s. j\<lparr>jk_Kid := s\<rparr>) (string_field (jk_Kid j) v)
        else if names_field ''alg'' name then map_option (\<lambda>s. j\<lparr>jk_Alg := s\<rparr>) (string_field (jk_Alg j) v)
        else if names_field ''use'' name then map_option (\<lambda>s. j\<lparr>jk_Use := s\<rparr>) (string_field (jk_Use j) v)
        else Some j)"

text \<open>
  The elements of a slice of structs: what an item does not set stays as the element in its place was, and the array
  behind the slice keeps what was in it beyond the length.
\<close>

fun jwk_items :: "(JSON \<times> nat list) list \<Rightarrow> JWK list \<Rightarrow> JWK list option" where
  "jwk_items [] back = Some back"
| "jwk_items ((v, raw) # is) back =
     (let (old, rest) = (case back of [] \<Rightarrow> (no_JWK, []) | j # js \<Rightarrow> (j, js)) in
      case (case v of
              JNull \<Rightarrow> Some old
            | JObject _ \<Rightarrow> (case read_struct raw of None \<Rightarrow> None | Some ms \<Rightarrow> take_each jwk_member ms old)
            | _ \<Rightarrow> None) of
        None \<Rightarrow> None
      | Some j \<Rightarrow> map_option ((#) j) (jwk_items is rest))"

definition jwks_member :: "string \<times> JSON \<times> nat list \<Rightarrow> JWK list \<times> nat \<Rightarrow> (JWK list \<times> nat) option" where
  "jwks_member m s =
     (case m of (name, v, raw) \<Rightarrow>
        if names_field ''keys'' name then
          (case v of
             JNull \<Rightarrow> Some ([], 0)
           | JArray vs \<Rightarrow>
               if vs = [] then Some ([], 0)
               else (case read_items (tl raw) of
                       None \<Rightarrow> None
                     | Some is \<Rightarrow> map_option (\<lambda>back. (back, length is)) (jwk_items is (fst s)))
           | _ \<Rightarrow> None)
        else Some s)"

definition Unmarshal_JWKS :: "bytes \<Rightarrow> JWK list option" where
  "Unmarshal_JWKS body =
     (case read_struct (nats body) of
        None \<Rightarrow> None
      | Some ms \<Rightarrow> map_option (\<lambda>(back, n). take n back) (take_each jwks_member ms ([], 0)))"

datatype jwks_error = SetNotParsed | KeyOfSet nat key_error

fun jwks_keys :: "nat \<Rightarrow> JWK list \<Rightarrow> (string \<times> PublicKey) list \<Rightarrow> jwks_error + (string \<times> PublicKey) list" where
  "jwks_keys i [] out = Inr out"
| "jwks_keys i (j # js) out =
     (case JWK_Key j of
        Inl e \<Rightarrow> Inl (KeyOfSet (Suc i) e)
      | Inr pub \<Rightarrow> jwks_keys (Suc i) js ((Thumbprint pub, pub) # out))"

definition ParseJWKS :: "bytes \<Rightarrow> jwks_error + (string \<times> PublicKey) list" where
  "ParseJWKS raw = (case Unmarshal_JWKS raw of None \<Rightarrow> Inl SetNotParsed | Some js \<Rightarrow> jwks_keys 0 js [])"

section \<open>Tokens\<close>

record header =
  hh_Alg :: string
  hh_Kid :: string
  hh_Typ :: string

definition no_header :: header where "no_header = \<lparr>hh_Alg = [], hh_Kid = [], hh_Typ = []\<rparr>"

definition header_members :: "header \<Rightarrow> (string \<times> nat list) list" where
  "header_members h = [(''alg'', marshal_string (hh_Alg h)), (''kid'', marshal_string (hh_Kid h)), (''typ'', marshal_string (hh_Typ h))]"

definition header_member :: "string \<times> JSON \<times> nat list \<Rightarrow> header \<Rightarrow> header option" where
  "header_member m h =
     (case m of (name, v, raw) \<Rightarrow>
        if names_field ''alg'' name then map_option (\<lambda>s. h\<lparr>hh_Alg := s\<rparr>) (string_field (hh_Alg h) v)
        else if names_field ''kid'' name then map_option (\<lambda>s. h\<lparr>hh_Kid := s\<rparr>) (string_field (hh_Kid h) v)
        else if names_field ''typ'' name then map_option (\<lambda>s. h\<lparr>hh_Typ := s\<rparr>) (string_field (hh_Typ h) v)
        else Some h)"

definition Unmarshal_header :: "bytes \<Rightarrow> header option" where
  "Unmarshal_header body = (case read_struct (nats body) of None \<Rightarrow> None | Some ms \<Rightarrow> take_each header_member ms no_header)"

record Token =
  tk_Alg :: string
  tk_Kid :: string
  tk_Typ :: string
  tk_Payload :: bytes
  tk_Bytes :: bytes
  tk_input :: bytes
  tk_signature :: bytes

datatype token_error = NotThreeParts | HeaderNotBase64 | HeaderNotParsed | WrongAlg string | NoKid | PayloadNotBase64 | BadSignature

definition Parse_token :: "bytes \<Rightarrow> token_error + Token" where
  "Parse_token raw =
     (case Split (CHR ''.'') raw of
        [a, b, c] \<Rightarrow>
          (case b64_decode a of
             None \<Rightarrow> Inl HeaderNotBase64
           | Some head \<Rightarrow>
               (case Unmarshal_header head of
                  None \<Rightarrow> Inl HeaderNotParsed
                | Some h \<Rightarrow>
                    if hh_Alg h \<noteq> Alg then Inl (WrongAlg (hh_Alg h))
                    else if hh_Kid h = [] then Inl NoKid
                    else (case b64_decode b of
                            None \<Rightarrow> Inl PayloadNotBase64
                          | Some payload \<Rightarrow>
                              (case b64_decode c of
                                 None \<Rightarrow> Inl BadSignature
                               | Some sig \<Rightarrow>
                                   if length sig \<noteq> 2 * coordinate then Inl BadSignature
                                   else Inr \<lparr>tk_Alg = hh_Alg h, tk_Kid = hh_Kid h, tk_Typ = hh_Typ h, tk_Payload = payload, tk_Bytes = raw,
                                             tk_input = a @ ''.'' @ b, tk_signature = sig\<rparr>))))
      | _ \<Rightarrow> Inl NotThreeParts)"

text \<open>What \<open>crypto/sha512\<close> and \<open>crypto/ecdsa\<close> do: the SHA-384 of a message, and whether two numbers are a signature of
  a digest under a key.\<close>

record ecdsa =
  ec_Sum384 :: "bytes \<Rightarrow> bytes"
  ec_Verify :: "PublicKey \<Rightarrow> bytes \<Rightarrow> nat \<Rightarrow> nat \<Rightarrow> bool"

datatype verify_failure = SignatureLength nat | SignatureWrong

definition verifyRaw :: "ecdsa \<Rightarrow> PublicKey \<Rightarrow> bytes \<Rightarrow> bytes \<Rightarrow> verify_failure option" where
  "verifyRaw ec pub input raw =
     (if length raw \<noteq> 2 * coordinate then Some (SignatureLength (length raw))
      else if \<not> ec_Verify ec pub (ec_Sum384 ec input) (big_endian (take coordinate raw)) (big_endian (drop coordinate raw)) then Some SignatureWrong
      else None)"

definition Token_Verify :: "ecdsa \<Rightarrow> Token \<Rightarrow> PublicKey \<Rightarrow> verify_failure option" where
  "Token_Verify ec t pub = verifyRaw ec pub (tk_input t) (tk_signature t)"

definition Seal_Hash :: "bytes \<Rightarrow> string" where
  "Seal_Hash stored = hex_EncodeToString (sha256 stored)"

section \<open>Signing\<close>

text \<open>
  \<open>asn1.Unmarshal\<close> of the two integers of a signature: a sequence, whose bytes past the second integer are passed over,
  and what follows it. Lengths are in their shortest form and below \<open>2^23\<close> before they grow again; integers are in their
  shortest form, and are negative when their first bit is set.
\<close>

fun long_length :: "nat \<Rightarrow> nat \<Rightarrow> nat list \<Rightarrow> (nat \<times> nat list) option" where
  "long_length 0 l s = (if l < 128 then None else Some (l, s))"
| "long_length (Suc k) l [] = None"
| "long_length (Suc k) l (b # s) =
     (if 2 ^ 23 \<le> l then None
      else let l = 256 * l + b in if l = 0 then None else long_length k l s)"

definition asn1_length :: "nat list \<Rightarrow> (nat \<times> nat list) option" where
  "asn1_length s =
     (case s of
        [] \<Rightarrow> None
      | b # t \<Rightarrow> if b < 128 then Some (b, t) else if b = 128 then None else long_length (b - 128) 0 t)"

text \<open>An element of a tag: its bytes and what follows.\<close>

definition asn1_element :: "nat \<Rightarrow> nat list \<Rightarrow> (nat list \<times> nat list) option" where
  "asn1_element tag s =
     (case s of
        [] \<Rightarrow> None
      | b # t \<Rightarrow>
          if b \<noteq> tag then None
          else (case asn1_length t of
                  None \<Rightarrow> None
                | Some (l, u) \<Rightarrow> if length u < l then None else Some (take l u, drop l u)))"

definition asn1_integer :: "nat list \<Rightarrow> (int \<times> nat list) option" where
  "asn1_integer s =
     (case asn1_element 2 s of
        None \<Rightarrow> None
      | Some (b, rest) \<Rightarrow>
          (case b of
             [] \<Rightarrow> None
           | c # d \<Rightarrow>
               if d \<noteq> [] \<and> (c = 0 \<and> hd d < 128 \<or> c = 255 \<and> 128 \<le> hd d) then None
               else let n = int (big_endian (chars b)) in Some (if 128 \<le> c then n - 256 ^ length b else n, rest)))"

definition asn1_signature :: "nat list \<Rightarrow> (int \<times> int \<times> nat list) option" where
  "asn1_signature der =
     (case asn1_element 48 der of
        None \<Rightarrow> None
      | Some (body, rest) \<Rightarrow>
          (case asn1_integer body of
             None \<Rightarrow> None
           | Some (r, body) \<Rightarrow> (case asn1_integer body of None \<Rightarrow> None | Some (s, _) \<Rightarrow> Some (r, s, rest))))"

text \<open>\<open>FillBytes\<close>: a number as so many bytes, most significant first.\<close>

primrec fill_bytes :: "nat \<Rightarrow> nat \<Rightarrow> nat list" where
  "fill_bytes 0 n = []"
| "fill_bytes (Suc k) n = fill_bytes k (n div 256) @ [n mod 256]"

datatype sign_error = SignerFailed string | NotASignature | SignatureTooLarge | NotOwnKey

definition rawSignature :: "bytes \<Rightarrow> sign_error + bytes" where
  "rawSignature der =
     (case asn1_signature (nats der) of
        None \<Rightarrow> Inl NotASignature
      | Some (r, s, rest) \<Rightarrow>
          if rest \<noteq> [] \<or> r \<le> 0 \<or> s \<le> 0 then Inl NotASignature
          else if 2 ^ (8 * coordinate) \<le> r \<or> 2 ^ (8 * coordinate) \<le> s then Inl SignatureTooLarge
          else Inr (chars (fill_bytes coordinate (nat r) @ fill_bytes coordinate (nat s))))"

text \<open>A signer, as \<open>keys.Signer\<close> has it: its public half, read by \<open>keys.ParseECPublic\<close>, and what it answers.\<close>

record signer =
  sg_Public :: "string + PublicKey"
  sg_Sign :: "bytes \<Rightarrow> string + bytes"

definition Sign :: "ecdsa \<Rightarrow> signer \<Rightarrow> string \<Rightarrow> bytes \<Rightarrow> sign_error + bytes" where
  "Sign ec sg typ payload =
     (case sg_Public sg of
        Inl e \<Rightarrow> Inl (SignerFailed e)
      | Inr pub \<Rightarrow>
          (let head = chars (Marshal_struct (header_members \<lparr>hh_Alg = Alg, hh_Kid = Thumbprint pub, hh_Typ = typ\<rparr>));
               input = b64 head @ ''.'' @ b64 payload
           in case sg_Sign sg input of
                Inl e \<Rightarrow> Inl (SignerFailed e)
              | Inr der \<Rightarrow>
                  (case rawSignature der of
                     Inl e \<Rightarrow> Inl e
                   | Inr raw \<Rightarrow>
                       if verifyRaw ec pub input raw \<noteq> None then Inl NotOwnKey
                       else Inr (input @ ''.'' @ b64 raw))))"

section \<open>What is signed is read back\<close>

lemma nats_bytes: "list_all (\<lambda>b. b < 256) (nats b)"
  by (simp add: nats_def list_all_iff)

lemma chars_nats [simp]: "chars (nats b) = b"
  by (simp add: chars_def nats_def)

lemma b64_round_trip [simp]: "b64_decode (b64 b) = Some b"
  by (simp add: b64_decode_def b64_def DecodeString_EncodeToString nats_bytes)

lemma b64_letters: "set (b64 b) \<subseteq> set url_alphabet"
proof -
  have "list_all (\<lambda>n. n < 64) (to_sextets (nats b))" by (rule to_sextets_bound [OF nats_bytes])
  then show ?thesis by (auto simp: b64_def EncodeToString_def letter_of_def list_all_iff letters)
qed

lemma b64_plain: "plain_text (b64 b)"
proof -
  have "\<forall>c \<in> set url_alphabet. 45 \<le> (of_char c :: nat) \<and> (of_char c :: nat) < 128 \<and> of_char c \<notin> {60, 62, 92 :: nat}"
    by (simp add: url_alphabet_def)
  then show ?thesis using b64_letters [of b] by (auto simp: plain_text_def nats_def list_all_iff)
qed

lemma b64_no_dot: "CHR ''.'' \<notin> set (b64 b)"
proof -
  have "CHR ''.'' \<notin> set url_alphabet" by (simp add: url_alphabet_def)
  then show ?thesis using b64_letters by blast
qed

lemma b64_nonempty: "b64 b = [] \<longleftrightarrow> b = []"
  by (metis b64_round_trip b64_def EncodeToString_def nats_def list.map_disc_iff option.inject to_sextets.simps(4))

lemma Thumbprint_plain: "plain_text (Thumbprint pub)" "Thumbprint pub \<noteq> []"
proof -
  have "sha256 x \<noteq> []" for x by (metis length_0_conv length_sha256 zero_neq_numeral)
  then show "plain_text (Thumbprint pub)" "Thumbprint pub \<noteq> []" by (simp_all add: Thumbprint_def Let_def b64_plain b64_nonempty split: prod.split)
qed

definition header_json :: "header \<Rightarrow> (string \<times> JSON \<times> nat list) list" where
  "header_json h = [(''alg'', JString (hh_Alg h), marshal_string (hh_Alg h)), (''kid'', JString (hh_Kid h), marshal_string (hh_Kid h)),
     (''typ'', JString (hh_Typ h), marshal_string (hh_Typ h))]"

lemma header_read_back:
  assumes "utf8_string (hh_Alg h)" "utf8_string (hh_Kid h)" "utf8_string (hh_Typ h)"
  shows "Unmarshal_header (chars (Marshal_struct (header_members h))) = Some h"
proof -
  have names: "plain_text ''alg''" "plain_text ''kid''" "plain_text ''typ''" by (simp_all add: plain_text_def nats_def)
  have good: "list_all good_member (header_json h)" using assms names by (simp add: header_json_def good_string)
  have w: "map written (header_json h) = header_members h" by (simp add: header_json_def header_members_def)
  have "list_all (\<lambda>b. b < 256) (Marshal_struct (map written (header_json h)))"
    unfolding Marshal_struct_def using good assms
    by (intro struct_bytes) (auto simp: spaces_def header_json_def marshal_string_bytes)
  then have "nats (chars (Marshal_struct (header_members h))) = Marshal_struct (header_members h)" unfolding w by (rule nats_chars)
  moreover have "read_struct (Marshal_struct (map written (header_json h))) = Some (header_json h)"
    using good by (intro Marshal_read_back(1)) (simp_all add: header_json_def)
  moreover have "take_each header_member (header_json h) no_header = Some h"
    by (simp add: header_json_def header_member_def names_plain names nats_def fold_rune_def string_field_def no_header_def)
  ultimately show ?thesis by (simp add: Unmarshal_header_def w)
qed

lemma length_fill_bytes [simp]: "length (fill_bytes k n) = k"
  by (induction k arbitrary: n) simp_all

lemma rawSignature_length: "rawSignature der = Inr raw \<Longrightarrow> length raw = 2 * coordinate"
  by (auto simp: rawSignature_def chars_def split: option.splits if_splits)

lemma Sign_parts:
  assumes "Sign ec sg typ payload = Inr raw"
  obtains pub sig where "sg_Public sg = Inr pub" "length sig = 2 * coordinate"
    "raw = b64 (chars (Marshal_struct (header_members \<lparr>hh_Alg = Alg, hh_Kid = Thumbprint pub, hh_Typ = typ\<rparr>))) @ ''.'' @ b64 payload @ ''.'' @ b64 sig"
    "verifyRaw ec pub (b64 (chars (Marshal_struct (header_members \<lparr>hh_Alg = Alg, hh_Kid = Thumbprint pub, hh_Typ = typ\<rparr>))) @ ''.'' @ b64 payload) sig = None"
proof -
  obtain pub where pub: "sg_Public sg = Inr pub" using assms by (auto simp: Sign_def split: sum.splits)
  let ?i = "b64 (chars (Marshal_struct (header_members \<lparr>hh_Alg = Alg, hh_Kid = Thumbprint pub, hh_Typ = typ\<rparr>))) @ ''.'' @ b64 payload"
  obtain der sig where "rawSignature der = Inr sig" "verifyRaw ec pub ?i sig = None" "raw = ?i @ ''.'' @ b64 sig"
    using assms pub by (auto simp: Sign_def Let_def split: sum.splits if_splits)
  then show thesis using that [OF pub rawSignature_length] by simp
qed

lemma Sign_Parse:
  assumes "Sign ec sg typ payload = Inr raw" "utf8_string typ"
  shows "\<exists>pub tok. sg_Public sg = Inr pub \<and> Parse_token raw = Inr tok \<and> tk_Kid tok = Thumbprint pub \<and> tk_Typ tok = typ \<and> tk_Payload tok = payload
    \<and> tk_Bytes tok = raw \<and> Token_Verify ec tok pub = None"
proof -
  obtain pub sig where parts: "sg_Public sg = Inr pub" "length sig = 2 * coordinate"
    "raw = b64 (chars (Marshal_struct (header_members \<lparr>hh_Alg = Alg, hh_Kid = Thumbprint pub, hh_Typ = typ\<rparr>))) @ ''.'' @ b64 payload @ ''.'' @ b64 sig"
    "verifyRaw ec pub (b64 (chars (Marshal_struct (header_members \<lparr>hh_Alg = Alg, hh_Kid = Thumbprint pub, hh_Typ = typ\<rparr>))) @ ''.'' @ b64 payload) sig = None"
    using Sign_parts [OF assms(1)] .
  let ?h = "\<lparr>hh_Alg = Alg, hh_Kid = Thumbprint pub, hh_Typ = typ\<rparr>"
  have "plain_text Alg" by (simp add: Alg_def plain_text_def nats_def)
  then have h: "Unmarshal_header (chars (Marshal_struct (header_members ?h))) = Some ?h"
    using assms(2) Thumbprint_plain(1) by (intro header_read_back) (simp_all add: plain_utf8)
  have "Split (CHR ''.'') raw = [b64 (chars (Marshal_struct (header_members ?h))), b64 payload, b64 sig]"
    unfolding parts(3) using b64_no_dot by (simp add: Split_append_sep Split_no_sep)
  then show ?thesis using parts(1,2,4) h Thumbprint_plain(2) by (simp add: Parse_token_def Token_Verify_def)
qed

lemma JWK_Key_NewJWK:
  assumes "length (fst pub) = coordinate" "length (snd pub) = coordinate" "on_P384 (big_endian (fst pub)) (big_endian (snd pub))"
  shows "JWK_Key (NewJWK pub) = Inr pub"
  using assms by (simp add: JWK_Key_def NewJWK_def coordinates_def)

text \<open>Two keys of one name are one key, or their descriptions collide.\<close>

definition thumb_text :: "PublicKey \<Rightarrow> bytes" where
  "thumb_text pub =
     (let (x, y) = coordinates pub; q = [CHR 0x22] in
      ''{'' @ q @ ''crv'' @ q @ '':'' @ q @ ''P-384'' @ q @ '','' @ q @ ''kty'' @ q @ '':'' @ q @ ''EC'' @ q @ '',''
        @ q @ ''x'' @ q @ '':'' @ q @ x @ q @ '','' @ q @ ''y'' @ q @ '':'' @ q @ y @ q @ ''}'')"

lemma Thumbprint_text: "Thumbprint pub = b64 (sha256 (thumb_text pub))"
  by (simp add: Thumbprint_def thumb_text_def Let_def split: prod.split)

lemma b64_inj: "b64 a = b64 b \<longleftrightarrow> a = b"
  by (metis b64_round_trip option.inject)

lemma Thumbprint_binds:
  assumes "Thumbprint a = Thumbprint b" "length (fst a) = coordinate" "length (snd a) = coordinate" "length (fst b) = coordinate" "length (snd b) = coordinate"
  shows "a = b \<or> collision (thumb_text a) (thumb_text b)"
proof -
  have "sha256 (thumb_text a) = sha256 (thumb_text b)" using assms(1) by (simp add: Thumbprint_text b64_inj)
  then consider "thumb_text a = thumb_text b" | "collision (thumb_text a) (thumb_text b)" using sha256_eqD by blast
  then show ?thesis
  proof cases
    case 1
    have q: "CHR 0x22 \<notin> set (b64 x)" for x using b64_plain [of x] by (auto simp: plain_text_def nats_def list_all_iff)
    from 1 have "b64 (fst a) @ CHR 0x22 # '','' @ [CHR 0x22] @ ''y'' @ [CHR 0x22] @ '':'' @ [CHR 0x22] @ b64 (snd a) @ [CHR 0x22] @ ''}''
        = b64 (fst b) @ CHR 0x22 # '','' @ [CHR 0x22] @ ''y'' @ [CHR 0x22] @ '':'' @ [CHR 0x22] @ b64 (snd b) @ [CHR 0x22] @ ''}''"
      using assms by (simp add: thumb_text_def coordinates_def)
    then have "b64 (fst a) = b64 (fst b)" "b64 (snd a) = b64 (snd b)" by (simp_all add: sep_cancel q)
    then have "a = b" by (simp add: b64_inj prod_eq_iff)
    then show ?thesis ..
  qed simp
qed

subsection \<open>Key sets\<close>

text \<open>A key as it comes from a parser: two coordinates of a point of the curve.\<close>

definition good_key :: "PublicKey \<Rightarrow> bool" where
  "good_key pub \<longleftrightarrow> length (fst pub) = coordinate \<and> length (snd pub) = coordinate \<and> on_P384 (big_endian (fst pub)) (big_endian (snd pub))"

definition jwk_json :: "JWK \<Rightarrow> (string \<times> JSON \<times> nat list) list" where
  "jwk_json j = (let str = (\<lambda>k s. (k, JString s, marshal_string s)) in
     [str ''kty'' (jk_Kty j), str ''crv'' (jk_Crv j), str ''x'' (jk_X j), str ''y'' (jk_Y j)]
     @ (if jk_Kid j = [] then [] else [str ''kid'' (jk_Kid j)])
     @ (if jk_Alg j = [] then [] else [str ''alg'' (jk_Alg j)])
     @ (if jk_Use j = [] then [] else [str ''use'' (jk_Use j)]))"

definition writable_jwk :: "JWK \<Rightarrow> bool" where
  "writable_jwk j \<longleftrightarrow> list_all utf8_string [jk_Kty j, jk_Crv j, jk_X j, jk_Y j, jk_Kid j, jk_Alg j, jk_Use j]"

abbreviation jwk_text :: "JWK \<Rightarrow> nat list" where
  "jwk_text j \<equiv> struct_text (10 # replicate 6 32) [32] (10 # replicate 4 32) (jwk_members j)"

lemma jwk_names: "plain_text ''kty''" "plain_text ''crv''" "plain_text ''x''" "plain_text ''y''" "plain_text ''kid''" "plain_text ''alg''" "plain_text ''use''" "plain_text ''keys''"
  by (simp_all add: plain_text_def nats_def)

lemma writable_NewJWK: "writable_jwk (NewJWK pub)"
proof -
  have "utf8_string ''EC''" "utf8_string ''P-384''" "utf8_string ''sig''" "utf8_string Alg" "utf8_string []"
    by (rule plain_utf8, simp add: plain_text_def nats_def Alg_def)+
  then show ?thesis using plain_utf8 [OF b64_plain] plain_utf8 [OF Thumbprint_plain(1)]
    by (auto simp: writable_jwk_def NewJWK_def coordinates_def Let_def split: prod.split)
qed

lemma spaces_marks: "spaces []" "spaces [32]" "spaces (10 # replicate n 32)" "spaces [10, 32, 32]" "spaces [10]"
  by (simp_all add: spaces_def json_space_def list_all_iff)

lemma jwk_fields:
  "jwk_member (''kty'', JString s, raw) j = Some (j\<lparr>jk_Kty := s\<rparr>)" "jwk_member (''crv'', JString s, raw) j = Some (j\<lparr>jk_Crv := s\<rparr>)"
  "jwk_member (''x'', JString s, raw) j = Some (j\<lparr>jk_X := s\<rparr>)" "jwk_member (''y'', JString s, raw) j = Some (j\<lparr>jk_Y := s\<rparr>)"
  "jwk_member (''kid'', JString s, raw) j = Some (j\<lparr>jk_Kid := s\<rparr>)" "jwk_member (''alg'', JString s, raw) j = Some (j\<lparr>jk_Alg := s\<rparr>)"
  "jwk_member (''use'', JString s, raw) j = Some (j\<lparr>jk_Use := s\<rparr>)"
  by (simp_all add: jwk_member_def names_plain jwk_names nats_def fold_rune_def string_field_def)

lemma jwk_read_back:
  assumes "writable_jwk j"
  shows "reads_in 1 (JObject (map (\<lambda>m. (fst m, fst (snd m))) (jwk_json j))) (jwk_text j)" "read_struct (jwk_text j) = Some (jwk_json j)"
    "take_each jwk_member (jwk_json j) no_JWK = Some j" "list_all (\<lambda>b. b < 256) (jwk_text j)"
proof -
  have good: "list_all good_member (jwk_json j)" using assms jwk_names by (auto simp: jwk_json_def writable_jwk_def Let_def good_string)
  have w: "map written (jwk_json j) = jwk_members j" by (simp add: jwk_json_def jwk_members_def Let_def)
  have d: "jwk_json j \<noteq> []" "distinct (map fst (jwk_json j))" by (simp_all add: jwk_json_def Let_def)
  note sp = spaces_marks(3) [of 6] spaces_marks(2) spaces_marks(3) [of 4]
  show "reads_in 1 (JObject (map (\<lambda>m. (fst m, fst (snd m))) (jwk_json j))) (jwk_text j)"
    using struct_reads_in [OF d(1) good d(2) sp] by (simp add: w)
  show "read_struct (jwk_text j) = Some (jwk_json j)" using struct_read_back [OF d(1) good d(2) sp] by (simp add: w maxNestingDepth_def)
  have "list_all (\<lambda>m. list_all (\<lambda>b. b < 256) (snd (snd m))) (jwk_json j)" using assms by (auto simp: jwk_json_def writable_jwk_def Let_def marshal_string_bytes)
  from struct_bytes [OF good this sp] show "list_all (\<lambda>b. b < 256) (jwk_text j)" by (simp add: w)
  show "take_each jwk_member (jwk_json j) no_JWK = Some j"
    by (cases j) (simp add: jwk_json_def Let_def take_each_append jwk_fields no_JWK_def)
qed

lemma jwk_items_back:
  assumes "list_all writable_jwk js"
  shows "jwk_items (map (\<lambda>j. (JObject (map (\<lambda>m. (fst m, fst (snd m))) (jwk_json j)), jwk_text j)) js) [] = Some js"
  using assms by (induction js) (simp_all add: jwk_read_back)

lemma text_items_all: "P 44 \<Longrightarrow> list_all P sep \<Longrightarrow> list_all (list_all P) bs \<Longrightarrow> list_all P (text_items sep bs)"
  by (induction sep bs rule: text_items.induct) auto

lemma JWKS_read_back:
  assumes "list_all writable_jwk js" "js \<noteq> []"
  shows "Unmarshal_JWKS (chars (MarshalIndent_struct [(''keys'', array_text (10 # replicate 4 32) [10, 32, 32] (map jwk_text js))])) = Some js"
proof -
  let ?obj = "\<lambda>j. JObject (map (\<lambda>m. (fst m, fst (snd m))) (jwk_json j))"
  let ?sep = "10 # replicate 4 32 :: nat list" and ?close = "[10, 32, 32] :: nat list"
  let ?arr = "array_text ?sep ?close (map jwk_text js)"
  let ?m = "(''keys'', JArray (map ?obj js), ?arr)"
  have each: "list_all2 (reads_in 1) (map ?obj js) (map jwk_text js)"
    using assms(1) jwk_read_back(1) by (auto simp: list_all2_map1 list_all2_map2 list_all2_same list_all_iff)
  have ne: "map jwk_text js \<noteq> []" using assms(2) by simp
  have arr: "reads_in 2 (JArray (map ?obj js)) ?arr" using array_reads_in [OF each ne spaces_marks(3,4)] by (simp add: numeral_2_eq_2)
  have good: "list_all (good_in 2) [?m]" using arr jwk_names(8) by (simp add: good_in_def)
  have read: "read_struct (MarshalIndent_struct (map written [?m])) = Some [?m]"
    unfolding MarshalIndent_struct_def by (rule struct_read_back [OF _ good]) (simp_all add: spaces_marks maxNestingDepth_def)
  have "list_all (list_all (\<lambda>b. b < 256)) (map jwk_text js)"
    using assms(1) jwk_read_back(4) by (auto simp: list.pred_map list.pred_set)
  then have "list_all (\<lambda>b. b < 256) (text_items ?sep (map jwk_text js))" by (intro text_items_all) (simp_all add: list_all_iff)
  then have "list_all (\<lambda>b. b < 256) ?arr" by (simp add: array_text_def list_all_iff)
  then have "list_all (\<lambda>b. b < 256) (MarshalIndent_struct (map written [?m]))"
    unfolding MarshalIndent_struct_def by (intro struct_bytes [OF good]) (simp_all add: spaces_marks)
  then have "nats (chars (MarshalIndent_struct (map written [?m]))) = MarshalIndent_struct (map written [?m])" by (rule nats_chars)
  moreover have "read_items (tl ?arr) = Some (zip (map ?obj js) (map jwk_text js))"
    using read_items_text [OF each ne spaces_marks(3,4), of 4 "[]"] by (simp add: array_text_def maxNestingDepth_def)
  moreover have "zip (map ?obj js) (map jwk_text js) = map (\<lambda>j. (?obj j, jwk_text j)) js" by (simp add: zip_map_map zip_same_conv_map)
  ultimately show ?thesis
    using read assms(2) jwk_items_back [OF assms(1)] jwk_names(8)
    by (simp add: Unmarshal_JWKS_def jwks_member_def names_plain nats_def fold_rune_def del: read_items.simps)
qed

lemma jwks_keys_NewJWK: "list_all good_key pubs \<Longrightarrow> jwks_keys i (map NewJWK pubs) out = Inr (rev (map (\<lambda>pub. (Thumbprint pub, pub)) pubs) @ out)"
  by (induction pubs arbitrary: i out) (simp_all add: good_key_def JWK_Key_NewJWK)

lemma ParseJWKS_MarshalJWKS:
  assumes "list_all good_key pubs" "pubs \<noteq> []"
  shows "ParseJWKS (MarshalJWKS pubs) = Inr (rev (map (\<lambda>pub. (Thumbprint pub, pub)) pubs))"
proof -
  have "list_all writable_jwk (map NewJWK pubs)" by (simp add: list_all_iff writable_NewJWK)
  from JWKS_read_back [OF this] assms(2) show ?thesis
    by (simp add: ParseJWKS_def MarshalJWKS_def o_def jwks_keys_NewJWK [OF assms(1)])
qed

lemma JWK_Key_good: "JWK_Key j = Inr pub \<Longrightarrow> good_key pub"
  by (clarsimp simp: JWK_Key_def good_key_def split: if_split_asm option.split_asm)

lemma jwks_keys_named:
  "jwks_keys i js out = Inr ks \<Longrightarrow> \<forall>(t, pub) \<in> set out. t = Thumbprint pub \<and> good_key pub \<Longrightarrow> \<forall>(t, pub) \<in> set ks. t = Thumbprint pub \<and> good_key pub"
proof (induction js arbitrary: i out)
  case (Cons j js)
  from Cons.prems(1) obtain p where "JWK_Key j = Inr p" "jwks_keys (Suc i) js ((Thumbprint p, p) # out) = Inr ks" by (auto split: sum.splits)
  then show ?case using Cons.IH [of "Suc i" "(Thumbprint p, p) # out"] Cons.prems(2) JWK_Key_good [of j p] by simp
qed simp

text \<open>Whatever a key set says of itself, its keys are on the curve and are named by what they are.\<close>

lemma ParseJWKS_named: "ParseJWKS raw = Inr ks \<Longrightarrow> (t, pub) \<in> set ks \<Longrightarrow> t = Thumbprint pub \<and> good_key pub"
  using jwks_keys_named [of 0 _ "[]" ks] by (fastforce simp: ParseJWKS_def split: option.splits)

end
