(* ===== verification/Sealhour.thy ===== *)
theory Sealhour
  imports Merkle Recread Layout
begin

text \<open>
  \<open>internal/seal/hour.go\<close>: what the archive holds for one profile and tenant in one hour, as a seal states it. The store
  is the three functions the computation calls, and zstd an argument; a problem is a value in place of its text.

  Shown: the computation returns; read strictly and without a problem, an hour has one leaf for each record, and two
  archives whose hours have one root hold the same records in the same order, unless two of the strings hashed for
  them collide.
\<close>

section \<open>Computing an hour\<close>

datatype hour_problem =
    NotOfHour string
  | NotDecoded string decode_error
  | BadMetadata string meta_problem
  | LineNotVerified string nat verify_error
  | HashNotHex string nat

record SealedHour =
  hr_Objects :: int
  hr_Count :: int
  hr_Bytes :: int
  hr_Root :: hash
  hr_First :: string
  hr_Last :: string
  hr_Retain :: time
  hr_Leaves :: "hash list"
  hr_Problems :: "hour_problem list"

definition empty_hour :: SealedHour where
  "empty_hour = \<lparr>hr_Objects = 0, hr_Count = 0, hr_Bytes = 0, hr_Root = replicate 32 CHR 0x00, hr_First = [], hr_Last = [], hr_Retain = zero_time,
     hr_Leaves = [], hr_Problems = []\<rparr>"

definition RootHex :: "SealedHour \<Rightarrow> string" where
  "RootHex h = hex_EncodeToString (hr_Root h)"

text \<open>\<open>hex.DecodeString\<close>: pairs of digits of either case.\<close>

fun hex_DecodeString :: "string \<Rightarrow> bytes option" where
  "hex_DecodeString [] = Some []"
| "hex_DecodeString [a] = None"
| "hex_DecodeString (a # b # s) =
     (case (hex_val (of_char a), hex_val (of_char b), hex_DecodeString s) of
        (Some x, Some y, Some t) \<Rightarrow> Some (char_of (16 * x + y) # t)
      | _ \<Rightarrow> None)"

text \<open>The loop over the lines of an object, from number \<open>n\<close>.\<close>

fun take_lines :: "bool \<Rightarrow> string \<Rightarrow> nat \<Rightarrow> Line list \<Rightarrow> SealedHour \<Rightarrow> SealedHour" where
  "take_lines strict key n [] h = h"
| "take_lines strict key n (l # ls) h =
     (case (if strict then Line_Verify l else None) of
        Some e \<Rightarrow> take_lines strict key (Suc n) ls (h\<lparr>hr_Problems := hr_Problems h @ [LineNotVerified key n e]\<rparr>)
      | None \<Rightarrow>
          (case hex_DecodeString (l_Hash l) of
             Some raw \<Rightarrow>
               if length raw = 32 then take_lines strict key (Suc n) ls (h\<lparr>hr_Leaves := hr_Leaves h @ [LeafHash raw]\<rparr>)
               else take_lines strict key (Suc n) ls (h\<lparr>hr_Problems := hr_Problems h @ [HashNotHex key n]\<rparr>)
           | None \<Rightarrow> take_lines strict key (Suc n) ls (h\<lparr>hr_Problems := hr_Problems h @ [HashNotHex key n]\<rparr>)))"

type_synonym compute_error = "string \<times> store_error"

definition take_object ::
  "(string \<Rightarrow> store_error + entry) \<Rightarrow> (string \<Rightarrow> store_error + bytes) \<Rightarrow> (bytes \<Rightarrow> string + bytes) \<Rightarrow> string \<Rightarrow> string \<Rightarrow> time \<Rightarrow> bool
   \<Rightarrow> (compute_error, SealedHour) visitor"
where
  "take_object head_of_key get decompress profile tenant hour strict e h =
     (let key = e_Key e; foreign = (None, h\<lparr>hr_Problems := hr_Problems h @ [NotOfHour key]\<rparr>) in
      case ParseRecordKey key of
        None \<Rightarrow> foreign
      | Some parsed \<Rightarrow>
          if ro_Profile parsed \<noteq> profile \<or> ro_Tenant parsed \<noteq> tenant \<or> ro_Hour parsed \<noteq> hour then foreign
          else (case head_of_key key of
                  Inl err \<Rightarrow> (Some (key, err), h)
                | Inr hd_entry \<Rightarrow>
                    (case get key of
                       Inl err \<Rightarrow> (Some (key, err), h)
                     | Inr body \<Rightarrow>
                         (case Decode decompress body of
                            Inl err \<Rightarrow> (None, h\<lparr>hr_Problems := hr_Problems h @ [NotDecoded key err]\<rparr>)
                          | Inr ls \<Rightarrow>
                              (let meta = (if strict then map (BadMetadata key) (CheckMetadata (case e_Metadata hd_entry of Some md \<Rightarrow> md | None \<Rightarrow> []) body (length ls)) else []);
                                   h = take_lines strict key 1 ls (h\<lparr>hr_Problems := hr_Problems h @ meta\<rparr>)
                               in (None, h\<lparr>hr_First := (if hr_First h = [] then key else hr_First h), hr_Last := key,
                                      hr_Objects := hr_Objects h + 1, hr_Count := hr_Count h + int (length ls),
                                      hr_Bytes := hr_Bytes h + int (e_Size e),
                                      hr_Retain := (if hr_Retain h < e_RetainUntil hd_entry then e_RetainUntil hd_entry else hr_Retain h)\<rparr>))))))"

definition Compute ::
  "lister \<Rightarrow> (string \<Rightarrow> store_error + entry) \<Rightarrow> (string \<Rightarrow> store_error + bytes) \<Rightarrow> (bytes \<Rightarrow> string + bytes)
   \<Rightarrow> string \<Rightarrow> string \<Rightarrow> time \<Rightarrow> bool \<Rightarrow> ((store_error + compute_error) + SealedHour) option"
where
  "Compute list head_of_key get decompress profile tenant hour strict =
     (let hour = Truncate_hour hour in
      case WalkHours list profile tenant hour hour [] (take_object head_of_key get decompress profile tenant hour strict) empty_hour of
        None \<Rightarrow> None
      | Some (Some err, h) \<Rightarrow> Some (Inl err)
      | Some (None, h) \<Rightarrow> Some (Inr (h\<lparr>hr_Root := Root (hr_Leaves h)\<rparr>)))"

section \<open>What an hour holds\<close>

text \<open>The objects of an hour in the order of their keys, the lines in them, and their records in canonical form.\<close>

definition hour_objects :: "memory \<Rightarrow> string \<Rightarrow> string \<Rightarrow> time \<Rightarrow> entry list" where
  "hour_objects m profile tenant hour = filter (\<lambda>e. in_hours profile tenant (Truncate_hour hour) (Truncate_hour hour) (e_Key e)) (mem_entries m)"

definition body_at :: "memory \<Rightarrow> string \<Rightarrow> store_error + bytes" where
  "body_at m key = fst (mem_Get m key)"

definition lines_at :: "(bytes \<Rightarrow> string + bytes) \<Rightarrow> (string \<Rightarrow> store_error + bytes) \<Rightarrow> string \<Rightarrow> Line list" where
  "lines_at decompress get key = (case get key of Inl e \<Rightarrow> [] | Inr body \<Rightarrow> (case Decode decompress body of Inl e \<Rightarrow> [] | Inr ls \<Rightarrow> ls))"

definition hour_lines :: "(bytes \<Rightarrow> string + bytes) \<Rightarrow> memory \<Rightarrow> string \<Rightarrow> string \<Rightarrow> time \<Rightarrow> Line list" where
  "hour_lines decompress m profile tenant hour = concat (map (\<lambda>e. lines_at decompress (body_at m) (e_Key e)) (hour_objects m profile tenant hour))"

definition canonical_of :: "Line \<Rightarrow> bytes" where
  "canonical_of l = (case canonicalJSON (l_Record l) of Inr c \<Rightarrow> c | Inl e \<Rightarrow> [])"

definition leaf_of :: "Line \<Rightarrow> hash" where
  "leaf_of l = LeafHash (sha256 (canonical_of l))"

section \<open>Lines and leaves\<close>

lemma hex_val_digit: "0 \<le> n \<Longrightarrow> n < 16 \<Longrightarrow> hex_val (of_char (hex_digit n)) = Some (nat n)"
proof -
  assume n: "0 \<le> n" "n < 16"
  have "\<forall>i \<in> set [0..<16]. hex_val (of_char (hex_digit (int i))) = Some i" by code_simp
  then show ?thesis using n by (simp add: Ball_def) (metis atLeastLessThan_iff nat_0_le nat_less_iff set_upt zero_le of_nat_numeral)
qed

lemma hex_DecodeString_Encode: "hex_DecodeString (hex_EncodeToString b) = Some b"
proof (induction b)
  case Nil
  then show ?case by (simp add: hex_EncodeToString_def)
next
  case (Cons c b)
  let ?n = "of_char c :: int"
  have n: "0 \<le> ?n" "?n < 256" using of_char_mod_256 [of c] by (metis pos_mod_bound pos_mod_sign zero_less_numeral)+
  have d: "0 \<le> ?n div 16" "?n div 16 < 16" "0 \<le> ?n mod 16" "?n mod 16 < 16" using n by auto
  have "hex_val (of_char (hex_digit (?n div 16))) = Some (nat (?n div 16))" "hex_val (of_char (hex_digit (?n mod 16))) = Some (nat (?n mod 16))"
    using hex_val_digit [OF d(1,2)] hex_val_digit [OF d(3,4)] by simp_all
  moreover have "16 * nat (?n div 16) + nat (?n mod 16) = of_char c"
  proof -
    have "int (16 * nat (?n div 16) + nat (?n mod 16)) = ?n" using d by simp
    then show ?thesis by (metis of_nat_eq_iff of_nat_of_char)
  qed
  moreover have "hex_EncodeToString (c # b) = hex_digit (?n div 16) # hex_digit (?n mod 16) # hex_EncodeToString b"
    by (simp add: hex_EncodeToString_def)
  ultimately show ?case using Cons by simp
qed

lemma hex_DecodeString_Hash: "hex_DecodeString (Hash c) = Some (sha256 c)"
  by (simp add: Hash_def hex_DecodeString_Encode)

lemma verified_hash: "Line_Verify l = None \<Longrightarrow> hex_DecodeString (l_Hash l) = Some (sha256 (canonical_of l))"
  by (auto simp: Line_Verify_def canonical_of_def Hash_def hex_DecodeString_Encode split: sum.splits if_splits)
     (metis hex_DecodeString_Encode)

lemma take_lines_problems: "\<exists>ps. hr_Problems (take_lines strict key n ls h) = hr_Problems h @ ps"
proof (induction ls arbitrary: n h)
  case (Cons l ls)
  have "\<exists>ps. hr_Problems (take_lines strict key (Suc n) ls (h\<lparr>hr_Problems := hr_Problems h @ [p]\<rparr>)) = hr_Problems h @ ps" for p
    using Cons.IH [of "Suc n" "h\<lparr>hr_Problems := hr_Problems h @ [p]\<rparr>"] by auto
  moreover have "\<exists>ps. hr_Problems (take_lines strict key (Suc n) ls (h\<lparr>hr_Leaves := x\<rparr>)) = hr_Problems h @ ps" for x
    using Cons.IH [of "Suc n" "h\<lparr>hr_Leaves := x\<rparr>"] by auto
  ultimately show ?case by (cases strict; cases "Line_Verify l"; cases "hex_DecodeString (l_Hash l)") simp_all
qed simp

text \<open>A strict reading without a problem takes every line, and a lenient one takes the same leaves.\<close>

lemma take_lines_clean:
  assumes "hr_Problems (take_lines True key n ls h) = []"
  shows "hr_Problems h = []" "take_lines strict key n ls h = h\<lparr>hr_Leaves := hr_Leaves h @ map leaf_of ls\<rparr>"
    "list_all (\<lambda>l. Line_Verify l = None) ls"
proof -
  have "hr_Problems h = [] \<and> take_lines strict key n ls h = h\<lparr>hr_Leaves := hr_Leaves h @ map leaf_of ls\<rparr> \<and> list_all (\<lambda>l. Line_Verify l = None) ls"
    using assms
  proof (induction ls arbitrary: n h)
    case (Cons l ls)
    have grows: "hr_Problems (take_lines True key m xs g) \<noteq> []" if "hr_Problems g \<noteq> []" for m xs g
      using take_lines_problems [of True key m xs g] that by auto
    have v: "Line_Verify l = None"
    proof (rule ccontr)
      assume "Line_Verify l \<noteq> None"
      then show False using Cons.prems by (auto simp: grows)
    qed
    then have "hr_Problems (take_lines True key (Suc n) ls (h\<lparr>hr_Leaves := hr_Leaves h @ [leaf_of l]\<rparr>)) = []"
      using Cons.prems by (simp add: verified_hash leaf_of_def)
    from Cons.IH [OF this] v show ?case by (cases strict) (simp_all add: verified_hash leaf_of_def)
  qed simp
  then show "hr_Problems h = []" "take_lines strict key n ls h = h\<lparr>hr_Leaves := hr_Leaves h @ map leaf_of ls\<rparr>"
    "list_all (\<lambda>l. Line_Verify l = None) ls" by blast+
qed

lemma take_object_problems: "\<exists>ps. hr_Problems (snd (take_object head_of_key get decompress p t hour strict e h)) = hr_Problems h @ ps"
proof -
  have "\<exists>ps. hr_Problems (take_lines strict (e_Key e) 1 ls (h\<lparr>hr_Problems := hr_Problems h @ qs\<rparr>)) = hr_Problems h @ ps" for ls qs
    using take_lines_problems [of strict "e_Key e" 1 ls "h\<lparr>hr_Problems := hr_Problems h @ qs\<rparr>"] by auto
  then show ?thesis by (simp add: take_object_def Let_def split: option.split sum.split)
qed

lemma take_object_clean:
  assumes "take_object head_of_key get decompress p t hour True e h = (None, h')" "hr_Problems h' = []"
  shows "hr_Problems h = []" "take_object head_of_key get decompress p t hour strict e h = (None, h')"
    "hr_Leaves h' = hr_Leaves h @ map leaf_of (lines_at decompress get (e_Key e))"
    "hr_Count h' = hr_Count h + int (length (lines_at decompress get (e_Key e)))" "hr_Objects h' = hr_Objects h + 1"
proof -
  let ?ls = "lines_at decompress get (e_Key e)"
  obtain parsed hd_entry body where ok: "ParseRecordKey (e_Key e) = Some parsed" "\<not> (ro_Profile parsed \<noteq> p \<or> ro_Tenant parsed \<noteq> t \<or> ro_Hour parsed \<noteq> hour)"
    "head_of_key (e_Key e) = Inr hd_entry" "get (e_Key e) = Inr body" "Decode decompress body = Inr ?ls"
    using assms by (auto simp: take_object_def lines_at_def Let_def split: option.splits sum.splits if_splits)
  let ?meta = "map (BadMetadata (e_Key e)) (CheckMetadata (case e_Metadata hd_entry of Some md \<Rightarrow> md | None \<Rightarrow> []) body (length ?ls))"
  have "hr_Problems (take_lines True (e_Key e) 1 ?ls (h\<lparr>hr_Problems := hr_Problems h @ ?meta\<rparr>)) = []"
    using assms ok by (auto simp: take_object_def Let_def)
  note clean = take_lines_clean [OF this]
  from clean(1) have none: "hr_Problems h = []" "?meta = []" by simp_all
  have "h\<lparr>hr_Problems := hr_Problems h @ ?meta\<rparr> = h" using none by (cases h) simp
  then have eq: "take_lines s (e_Key e) (Suc 0) ?ls h = h\<lparr>hr_Leaves := hr_Leaves h @ map leaf_of ?ls\<rparr>" for s
    using clean(2) [of s] by (simp only: One_nat_def)
  have same: "h\<lparr>hr_Problems := hr_Problems h\<rparr> = h" by (cases h) simp
  have out: "take_object head_of_key get decompress p t hour s e h =
    (None, h\<lparr>hr_Leaves := hr_Leaves h @ map leaf_of ?ls, hr_First := (if hr_First h = [] then e_Key e else hr_First h), hr_Last := e_Key e,
       hr_Objects := hr_Objects h + 1, hr_Count := hr_Count h + int (length ?ls), hr_Bytes := hr_Bytes h + int (e_Size e),
       hr_Retain := (if hr_Retain h < e_RetainUntil hd_entry then e_RetainUntil hd_entry else hr_Retain h)\<rparr>)" for s
    using ok none(2) by (cases s) (simp_all add: take_object_def Let_def same eq)
  show "hr_Problems h = []" by fact
  show "take_object head_of_key get decompress p t hour strict e h = (None, h')"
    "hr_Leaves h' = hr_Leaves h @ map leaf_of ?ls" "hr_Count h' = hr_Count h + int (length ?ls)" "hr_Objects h' = hr_Objects h + 1"
    using assms(1) out [of strict] out [of True] by auto
qed

lemma each_clean:
  assumes "each (take_object head_of_key get decompress p t hour True) es h = (None, h')" "hr_Problems h' = []"
  shows "each (take_object head_of_key get decompress p t hour strict) es h = (None, h')
    \<and> hr_Leaves h' = hr_Leaves h @ map leaf_of (concat (map (\<lambda>e. lines_at decompress get (e_Key e)) es))
    \<and> hr_Count h' = hr_Count h + int (length (concat (map (\<lambda>e. lines_at decompress get (e_Key e)) es)))
    \<and> hr_Objects h' = hr_Objects h + int (length es) \<and> hr_Problems h = []"
  using assms
proof (induction es arbitrary: h)
  case (Cons e es)
  then obtain g where g: "take_object head_of_key get decompress p t hour True e h = (None, g)"
    "each (take_object head_of_key get decompress p t hour True) es g = (None, h')"
    by (auto split: prod.splits option.splits)
  note rest = Cons.IH [OF g(2) Cons.prems(2)]
  then have "hr_Problems g = []" by blast
  note one = take_object_clean [OF g(1) this]
  show ?case using rest one by (simp add: algebra_simps)
qed simp

section \<open>An hour of a store\<close>

text \<open>A store of which one profile and tenant can be walked: names that may be components of keys, record objects only under the tenant's
  prefix, and an hour whose year is written with four digits.\<close>

definition readable_hour :: "memory \<Rightarrow> string \<Rightarrow> string \<Rightarrow> time \<Rightarrow> bool" where
  "readable_hour m p t hour \<longleftrightarrow> mem_invar m \<and> KeyComponent p = [] \<and> KeyComponent t = []
     \<and> list_all (\<lambda>e. HasPrefix (e_Key e) (TenantPrefix p t) \<longrightarrow> ParseRecordKey (e_Key e) \<noteq> None) (mem_entries m)
     \<and> 0 \<le> Year (Truncate_hour hour) \<and> Year (Truncate_hour hour + hour_ns) \<le> 9999"

lemma stored_entry:
  assumes "mem_invar m" "e \<in> set (mem_entries m)"
  shows "e_Key e \<noteq> []" "\<exists>x. mem_Head m (e_Key e) = Inr x" "\<exists>b. body_at m (e_Key e) = Inr b"
proof -
  have k: "e_Key e \<in> fst ` set (m_objects m)" using assms(2) by (force simp: mem_entries_def)
  then show "e_Key e \<noteq> []" using assms(1) unfolding mem_invar_def by metis
  from k obtain o' tm where "map_of (m_objects m) (e_Key e) = Some (o', tm)"
    by (metis map_of_eq_None_iff not_None_eq surj_pair)
  then show "\<exists>x. mem_Head m (e_Key e) = Inr x" "\<exists>b. body_at m (e_Key e) = Inr b"
    by (simp_all add: mem_Head_def body_at_def mem_Get_def)
qed

lemma Compute_memory:
  assumes "readable_hour m p t hour"
  shows "Compute (mem_List m) (mem_Head m) (body_at m) decompress p t hour strict =
    (case each (take_object (mem_Head m) (body_at m) decompress p t (Truncate_hour hour) strict) (hour_objects m p t hour) empty_hour of
       (Some err, h) \<Rightarrow> Some (Inl (Inr err))
     | (None, h) \<Rightarrow> Some (Inr (h\<lparr>hr_Root := Root (hr_Leaves h)\<rparr>)))"
proof -
  let ?h = "Truncate_hour hour"
  have inv: "mem_invar m" using assms by (simp add: readable_hour_def)
  have "filter (\<lambda>e. in_hours p t ?h ?h (e_Key e) \<and> [] < e_Key e) (mem_entries m) = hour_objects m p t hour"
    unfolding hour_objects_def using stored_entry(1) [OF inv] by (auto intro!: filter_cong simp: order_less_le eq_commute [of "[]"])
  moreover have "WalkHours (mem_List m) p t ?h ?h [] fn acc = Some (apfst (map_option Inr) (each fn
      (filter (\<lambda>e. in_hours p t ?h ?h (e_Key e) \<and> [] < e_Key e) (mem_entries m)) acc))" for fn :: "(compute_error, SealedHour) visitor" and acc
    using assms by (intro mem.WalkHours_eq) (auto simp: readable_hour_def list_all_iff)
  ultimately show ?thesis by (simp add: Compute_def Let_def split: prod.split option.split)
qed

lemma each_reads:
  assumes "\<And>e. e \<in> set es \<Longrightarrow> (\<exists>x. head_of_key (e_Key e) = Inr x) \<and> (\<exists>b. get (e_Key e) = Inr b)"
  shows "fst (each (take_object head_of_key get decompress p t hour strict) es h) = None"
  using assms
proof (induction es arbitrary: h)
  case (Cons e es)
  obtain x b where "head_of_key (e_Key e) = Inr x" "get (e_Key e) = Inr b" using Cons.prems by fastforce
  then have "fst (take_object head_of_key get decompress p t hour strict e h) = None"
    by (simp add: take_object_def Let_def split: option.split sum.split)
  then show ?case using Cons by (auto split: prod.splits option.splits)
qed simp

lemma Compute_returns:
  assumes "readable_hour m p t hour"
  shows "\<exists>h. Compute (mem_List m) (mem_Head m) (body_at m) decompress p t hour strict = Some (Inr h)"
proof -
  have "fst (each (take_object (mem_Head m) (body_at m) decompress p t (Truncate_hour hour) strict) (hour_objects m p t hour) empty_hour) = None"
    using assms stored_entry by (intro each_reads) (auto simp: readable_hour_def hour_objects_def)
  then show ?thesis by (auto simp: Compute_memory [OF assms] split: prod.split option.split)
qed

lemma Compute_clean:
  assumes "readable_hour m p t hour"
    and "Compute (mem_List m) (mem_Head m) (body_at m) decompress p t hour True = Some (Inr h)" "hr_Problems h = []"
  shows "Compute (mem_List m) (mem_Head m) (body_at m) decompress p t hour strict = Some (Inr h)
    \<and> hr_Leaves h = map leaf_of (hour_lines decompress m p t hour) \<and> hr_Root h = Root (hr_Leaves h)
    \<and> hr_Count h = int (length (hour_lines decompress m p t hour)) \<and> hr_Objects h = int (length (hour_objects m p t hour))"
proof -
  obtain g where g: "each (take_object (mem_Head m) (body_at m) decompress p t (Truncate_hour hour) True) (hour_objects m p t hour) empty_hour = (None, g)"
    "h = g\<lparr>hr_Root := Root (hr_Leaves g)\<rparr>"
    using assms(2) by (auto simp: Compute_memory [OF assms(1)] split: prod.splits option.splits)
  moreover have "hr_Problems g = []" using g(2) assms(3) by simp
  note each_clean [OF g(1) this, of strict]
  ultimately show ?thesis by (simp add: Compute_memory [OF assms(1)] hour_lines_def empty_hour_def)
qed

text \<open>The strings hashed for the hour: those of the tree over the digests, and the records.\<close>

definition hour_inputs :: "bytes list \<Rightarrow> bytes list" where
  "hour_inputs cs = tree_inputs (map sha256 cs) @ cs"

lemma digests_bind: "map sha256 xs = map sha256 ys \<Longrightarrow> xs = ys \<or> collide xs ys"
proof (induction xs arbitrary: ys)
  case (Cons x xs)
  then obtain y ys' where y: "ys = y # ys'" by auto
  from Cons.prems have "sha256 x = sha256 y" "map sha256 xs = map sha256 ys'" by (simp_all add: y)
  with Cons.IH [of ys'] sha256_eqD [of x y] show ?case by (auto simp: y collide_def)
qed simp

lemma hour_root_binds:
  assumes "Root (map (\<lambda>c. LeafHash (sha256 c)) xs) = Root (map (\<lambda>c. LeafHash (sha256 c)) ys)"
  shows "xs = ys \<or> collide (hour_inputs xs) (hour_inputs ys)"
proof -
  have "Root (map LeafHash (map sha256 xs)) = Root (map LeafHash (map sha256 ys))" using assms by (simp add: o_def)
  from Root_binding [OF this] digests_bind [of xs ys] show ?thesis by (auto simp: hour_inputs_def collide_def)
qed

section \<open>Properties\<close>

text \<open>
  C10: Over a store whose hour can be walked, the computation of an hour always returns. When the strict reading finds no problem,
  the hour states how many objects and records there are, its root is that of the tree over the digests of the records, object by object in
  the order of the keys and line by line in each, and the lenient reading of a verifier returns the same hour.
\<close>

theorem hour_states_what_is_held:
  assumes "readable_hour m p t hour"
  shows "\<exists>h. Compute (mem_List m) (mem_Head m) (body_at m) decompress p t hour True = Some (Inr h)
    \<and> (hr_Problems h = [] \<longrightarrow>
         Compute (mem_List m) (mem_Head m) (body_at m) decompress p t hour False = Some (Inr h)
         \<and> hr_Root h = Root (map (\<lambda>l. LeafHash (sha256 (canonical_of l))) (hour_lines decompress m p t hour))
         \<and> hr_Count h = int (length (hour_lines decompress m p t hour)) \<and> hr_Objects h = int (length (hour_objects m p t hour)))"
proof -
  obtain h where h: "Compute (mem_List m) (mem_Head m) (body_at m) decompress p t hour True = Some (Inr h)"
    using Compute_returns [OF assms] by blast
  from Compute_clean [OF assms this, of False] h show ?thesis by (auto simp: leaf_of_def [abs_def])
qed

text \<open>
  C9: Two archives, or one archive at two times, whose hours read strictly without a problem have one root hold the same records in the
  same order, unless two different strings among those hashed for them have one digest.
\<close>

theorem sealed_hour_tamper_evident:
  assumes "readable_hour m p t hour" "readable_hour m' p t hour"
    and "Compute (mem_List m) (mem_Head m) (body_at m) decompress p t hour True = Some (Inr h)" "hr_Problems h = []"
    and "Compute (mem_List m') (mem_Head m') (body_at m') decompress p t hour True = Some (Inr h')" "hr_Problems h' = []"
    and "hr_Root h = hr_Root h'"
  shows "map canonical_of (hour_lines decompress m p t hour) = map canonical_of (hour_lines decompress m' p t hour)
    \<or> collide (hour_inputs (map canonical_of (hour_lines decompress m p t hour))) (hour_inputs (map canonical_of (hour_lines decompress m' p t hour)))"
proof -
  have "Root (map leaf_of (hour_lines decompress m p t hour)) = Root (map leaf_of (hour_lines decompress m' p t hour))"
    using Compute_clean [OF assms(1,3,4)] Compute_clean [OF assms(2,5,6)] assms(7) by metis
  then show ?thesis by (intro hour_root_binds) (simp add: leaf_of_def [abs_def] o_def)
qed

section \<open>An hour of one object\<close>

definition example_hour :: memory where
  "example_hour = (let body = plain_of [EncodeLine example_canonical]; key = RecordKey ''p'' ''t'' 0 (From 0 3) in
     (NewMemory (\<lambda>n. int n))\<lparr>m_objects := [(key, \<lparr>o_Key = key, o_Body = body, o_RetainUntil = 5, o_ContentType = [], o_Encoding = [],
        o_Metadata = Metadata body 1, o_LegalHold = False\<rparr>, 0)]\<rparr>)"

lemma example_key:
  "ParseRecordKey (RecordKey ''p'' ''t'' 0 (From 0 3)) = Some \<lparr>ro_Profile = ''p'', ro_Tenant = ''t'', ro_Hour = 0, ro_ULID = From 0 3\<rparr>"
proof -
  have "written_year (of_UnixMilli 0)" by code_simp
  from ParseRecordKey_From [OF _ _ _ _ _ _ this, of "''p''" "''t''" 3] show ?thesis
    by (simp add: of_UnixMilli_def Truncate_hour_def)
qed

lemma example_readable: "readable_hour example_hour ''p'' ''t'' 7"
proof -
  have "0 \<le> Year (Truncate_hour 7)" "Year (Truncate_hour 7 + hour_ns) \<le> 9999" by code_simp+
  moreover have "RecordKey ''p'' ''t'' 0 (From 0 3) \<noteq> []" by (simp add: RecordKey_def HourPrefix_def TenantPrefix_def)
  moreover have "KeyComponent ''p'' = []" "KeyComponent ''t'' = []" by (simp_all add: KeyComponent_def)
  ultimately show ?thesis
    by (auto simp: readable_hour_def example_hour_def Let_def mem_invar_def mem_entries_def example_key NewMemory_def)
qed

lemma example_lines:
  "Decode Inr (plain_of [EncodeLine example_canonical]) = Inr [\<lparr>l_Hash = Hash example_canonical, l_Record = example_canonical\<rparr>]"
  "Line_Verify \<lparr>l_Hash = Hash example_canonical, l_Record = example_canonical\<rparr> = None"
proof -
  have c: "canonical_record example_canonical (norm (JObject [(''a'', JArray [JNull, JString ''/'']), (''b'', JNumber ''-0'')]))"
    by (rule canonical_recordI [OF example_canonicalises read_example]) (simp add: maxNestingDepth_def)
  then have "\<exists>v. canonical_record example_canonical v" by blast
  with Decode_encoded [of "[example_canonical]" Inr "plain_of [EncodeLine example_canonical]"]
  show "Decode Inr (plain_of [EncodeLine example_canonical]) = Inr [\<lparr>l_Hash = Hash example_canonical, l_Record = example_canonical\<rparr>]" by simp
  show "Line_Verify \<lparr>l_Hash = Hash example_canonical, l_Record = example_canonical\<rparr> = None"
    using c by (simp add: Line_Verify_def canonical_record_def)
qed

lemma example_computed:
  "\<exists>h. Compute (mem_List example_hour) (mem_Head example_hour) (body_at example_hour) Inr ''p'' ''t'' 7 True = Some (Inr h) \<and> hr_Problems h = []"
proof -
  let ?k = "RecordKey ''p'' ''t'' 0 (From 0 3)" and ?b = "plain_of [EncodeLine example_canonical]"
  have t: "Truncate_hour 7 = 0" by code_simp
  have objs: "hour_objects example_hour ''p'' ''t'' 7 = [mem_entry example_hour ?k]"
    by (simp add: hour_objects_def mem_entries_def example_hour_def Let_def in_hours_def example_key Truncate_hour_def hour_ns_def)
  have "mem_Head example_hour ?k = Inr ((mem_entry example_hour ?k)\<lparr>e_Metadata := Some (Metadata ?b 1)\<rparr>)" "body_at example_hour ?k = Inr ?b"
    by (simp_all add: mem_Head_def mem_entry_def body_at_def mem_Get_def example_hour_def Let_def)
  then have "\<exists>h. take_object (mem_Head example_hour) (body_at example_hour) Inr ''p'' ''t'' 0 True (mem_entry example_hour ?k) empty_hour = (None, h)
      \<and> hr_Problems h = []"
    by (simp add: take_object_def example_key example_lines hex_DecodeString_Hash CheckMetadata_Metadata Let_def) (simp add: empty_hour_def)
  then show ?thesis by (auto simp: Compute_memory [OF example_readable] objs t)
qed

theorem hour_states_what_is_held_witness:
  "\<exists>h. Compute (mem_List example_hour) (mem_Head example_hour) (body_at example_hour) Inr ''p'' ''t'' 7 False = Some (Inr h)
     \<and> hr_Problems h = [] \<and> hr_Count h = int (length (hour_lines Inr example_hour ''p'' ''t'' 7))"
  using hour_states_what_is_held [OF example_readable, of Inr] example_computed by auto

theorem sealed_hour_tamper_evident_witness:
  "let ls = map canonical_of (hour_lines Inr example_hour ''p'' ''t'' 7) in
   (\<exists>h. Compute (mem_List example_hour) (mem_Head example_hour) (body_at example_hour) Inr ''p'' ''t'' 7 True = Some (Inr h) \<and> hr_Problems h = [])
   \<and> (ls = ls \<or> collide (hour_inputs ls) (hour_inputs ls))"
proof -
  obtain h where "Compute (mem_List example_hour) (mem_Head example_hour) (body_at example_hour) Inr ''p'' ''t'' 7 True = Some (Inr h)" "hr_Problems h = []"
    using example_computed by blast
  then show ?thesis using sealed_hour_tamper_evident [OF example_readable example_readable] unfolding Let_def by blast
qed

end
