(* ===== verification/Trust.thy ===== *)
theory Trust
  imports Jws Sealhour Auditrecord Rfc3339 "HOL-Library.Word"
begin

text \<open>
  \<open>internal/seal/payload.go\<close> and \<open>internal/seal/trust.go\<close>: the statements the JWSs carry, and whom a verifier believes. The mapping
  of the protobuf library between a statement and JSON is an argument, as is \<open>strings.ToLower\<close>. Errors are values in place
  of texts; of the reasons why no delegation vouches for a seal all are kept, where the source keeps the first in text order.

  Shown: a seal that is believed is signed by a key whose thumbprint is pinned, or by one that a statement signed by such a
  key delegates to for the seal's profile and tenant, at its time, for at most 25 hours, and that none revokes.
\<close>

section \<open>Statements\<close>

record Seal =
  sl_Tenant :: string
  sl_Profile :: string
  sl_Hour :: "time option"
  sl_Count :: int
  sl_Root :: string
  sl_First :: string
  sl_Last :: string
  sl_Prev :: string
  sl_SealedAt :: "time option"
  sl_Meters :: "(string \<times> int) list"

record DelegationScope =
  ds_Profiles :: "string list"
  ds_Tenants :: "string list"

record Delegation =
  dg_Iss :: string
  dg_Sub :: string
  dg_Jwk :: "Struct option"
  dg_Nbf :: "64 word"
  dg_Exp :: "64 word"
  dg_Scope :: "DelegationScope option"

record Revocation =
  rv_Iss :: string
  rv_Revokes :: string
  rv_RevokedAt :: "time option"

text \<open>What the protobuf library makes of a payload, and of a seal; and \<open>strings.ToLower\<close>.\<close>

record codec =
  cd_seal :: "bytes \<Rightarrow> Seal option"
  cd_delegation :: "bytes \<Rightarrow> Delegation option"
  cd_revocation :: "bytes \<Rightarrow> Revocation option"
  cd_marshal :: "Seal \<Rightarrow> bytes option"
  cd_lower :: "string \<Rightarrow> string"

text \<open>\<open>AsTime_seal\<close> of a timestamp that may be absent.\<close>

definition AsTime_seal :: "time option \<Rightarrow> time" where
  "AsTime_seal t = (case t of None \<Rightarrow> 0 | Some t \<Rightarrow> t)"

definition MaxDelegation :: int where "MaxDelegation = 25 * 60 * 60"

record Typed =
  ty_Token :: Token
  ty_Seal :: Seal

datatype payload_error = PayloadNotParsed | SealNamesNothing | NotAnHour | BadRoot | NegativeCount | NotDated

datatype seal_error = SealToken token_error | WrongTyp string | SealPayload payload_error

definition check_seal :: "codec \<Rightarrow> Seal \<Rightarrow> payload_error option" where
  "check_seal cd s =
     (if sl_Tenant s = [] \<or> sl_Profile s = [] then Some SealNamesNothing
      else if sl_Hour s = None \<or> AsTime_seal (sl_Hour s) \<noteq> Truncate_hour (AsTime_seal (sl_Hour s)) then Some NotAnHour
      else if length (sl_Root s) \<noteq> 64 \<or> cd_lower cd (sl_Root s) \<noteq> sl_Root s then Some BadRoot
      else if sl_Count s < 0 then Some NegativeCount
      else if sl_SealedAt s = None then Some NotDated
      else None)"

definition ParseSeal :: "codec \<Rightarrow> bytes \<Rightarrow> seal_error + Typed" where
  "ParseSeal cd stored =
     (case Parse_token stored of
        Inl e \<Rightarrow> Inl (SealToken e)
      | Inr t \<Rightarrow>
          if tk_Typ t \<noteq> TypSeal then Inl (WrongTyp (tk_Typ t))
          else (case cd_seal cd (tk_Payload t) of
                  None \<Rightarrow> Inl (SealPayload PayloadNotParsed)
                | Some s \<Rightarrow>
                    (case check_seal cd s of
                       Some e \<Rightarrow> Inl (SealPayload e)
                     | None \<Rightarrow> Inr \<lparr>ty_Token = t, ty_Seal = s\<rparr>)))"

text \<open>The statement of an hour, and its payload: the JSON of the protobuf library in canonical form.\<close>

definition Truncate_second :: "time \<Rightarrow> time" where
  "Truncate_second t = t - t mod second_ns"

definition NewSeal :: "string \<Rightarrow> string \<Rightarrow> time \<Rightarrow> SealedHour \<Rightarrow> string \<Rightarrow> time \<Rightarrow> Seal" where
  "NewSeal profile tenant hour h prev at_time =
     \<lparr>sl_Tenant = tenant, sl_Profile = profile, sl_Hour = Some (Truncate_hour hour), sl_Count = hr_Count h, sl_Root = RootHex h,
      sl_First = hr_First h, sl_Last = hr_Last h, sl_Prev = prev, sl_SealedAt = Some (Truncate_second at_time),
      sl_Meters = (if 0 < hr_Objects h then [(''objects'', hr_Objects h), (''records'', hr_Count h), (''bytes'', hr_Bytes h)] else [])\<rparr>"

datatype marshal_error = NotMarshalled | NotCanonical canon_error

definition Seal_Marshal :: "codec \<Rightarrow> Seal \<Rightarrow> marshal_error + bytes" where
  "Seal_Marshal cd s =
     (case cd_marshal cd s of
        None \<Rightarrow> Inl NotMarshalled
      | Some raw \<Rightarrow> (case canonicalJSON raw of Inl e \<Rightarrow> Inl (NotCanonical e) | Inr c \<Rightarrow> Inr c))"

definition marshalOptionsJWK :: "JWK \<Rightarrow> Struct option" where
  "marshalOptionsJWK j =
     (if list_all utf8_string [jk_Kty j, jk_Crv j, jk_X j, jk_Y j, jk_Kid j, jk_Alg j, jk_Use j]
      then Some [(''kty'', VString (jk_Kty j)), (''crv'', VString (jk_Crv j)), (''x'', VString (jk_X j)), (''y'', VString (jk_Y j)),
                 (''kid'', VString (jk_Kid j)), (''alg'', VString (jk_Alg j)), (''use'', VString (jk_Use j))]
      else None)"

definition Unix_of :: "time \<Rightarrow> 64 word" where
  "Unix_of t = word_of_int (t div second_ns)"

definition NewDelegation :: "string \<Rightarrow> JWK \<Rightarrow> time \<Rightarrow> time \<Rightarrow> string list \<Rightarrow> string list \<Rightarrow> Delegation option" where
  "NewDelegation root sub nbf exp profiles tenants =
     (case marshalOptionsJWK sub of
        None \<Rightarrow> None
      | Some raw \<Rightarrow> Some \<lparr>dg_Iss = root, dg_Sub = jk_Kid sub, dg_Jwk = Some raw, dg_Nbf = Unix_of nbf, dg_Exp = Unix_of exp,
                          dg_Scope = Some \<lparr>ds_Profiles = profiles, ds_Tenants = tenants\<rparr>\<rparr>)"

section \<open>What a verifier believes\<close>

definition Skew :: time where "Skew = 5 * 60 * second_ns"

text \<open>
  A time holds the seconds since the year 1 in 64 bits: \<open>time.Unix\<close> wraps around, and \<open>Add\<close> stops at the ends. The durations
  added here are whole seconds.
\<close>

definition year_one :: int where "year_one = 62135596800"

definition time_Unix :: "64 word \<Rightarrow> time" where
  "time_Unix sec = (sint (sec + word_of_int year_one) - year_one) * second_ns"

definition time_Add :: "time \<Rightarrow> time \<Rightarrow> time" where
  "time_Add t d =
     (let sum = t div second_ns + year_one + d div second_ns;
          ext = (if - (2 ^ 63) \<le> sum \<and> sum < 2 ^ 63 then sum else if 0 < d then 2 ^ 63 - 1 else - (2 ^ 63 - 1))
      in (ext - year_one) * second_ns + t mod second_ns)"

record delegation =
  dl_key :: PublicKey
  dl_nbf :: time
  dl_exp :: time
  dl_profiles :: "string list"
  dl_tenants :: "string list"
  dl_object :: string

datatype statement_error =
    Foreign
  | StatementTyp string
  | RootNotListed string
  | StatementSignature verify_failure
  | StatementNotParsed
  | IssuerIsNot string string
  | EmptyWindow
  | WindowTooLong
  | NoScope
  | NoJWK
  | DelegatedKey key_error
  | SubjectIsNot string string
  | NamesNoKey
  | RootsFile jwks_error

record Trust =
  tr_pins :: "string list"
  tr_roots :: "(string \<times> PublicKey) list"
  tr_delegations :: "string \<Rightarrow> delegation list"
  tr_revocations :: "string \<Rightarrow> time list"
  tr_Ignored :: "(string \<times> statement_error) list"
  tr_Foreign :: nat

definition signedByARoot :: "ecdsa \<Rightarrow> Trust \<Rightarrow> bytes \<Rightarrow> string \<Rightarrow> statement_error + Token" where
  "signedByARoot ec t raw typ =
     (case Parse_token raw of
        Inl _ \<Rightarrow> Inl Foreign
      | Inr tok \<Rightarrow>
          if tk_Kid tok \<notin> set (tr_pins t) then Inl Foreign
          else if tk_Typ tok \<noteq> typ then Inl (StatementTyp (tk_Typ tok))
          else (case map_of (tr_roots t) (tk_Kid tok) of
                  None \<Rightarrow> Inl (RootNotListed (tk_Kid tok))
                | Some pub \<Rightarrow>
                    (case Token_Verify ec tok pub of
                       Some e \<Rightarrow> Inl (StatementSignature e)
                     | None \<Rightarrow> Inr tok)))"

definition trust_note :: "string \<Rightarrow> statement_error \<Rightarrow> Trust \<Rightarrow> Trust" where
  "trust_note name err t =
     (if err = Foreign then t\<lparr>tr_Foreign := Suc (tr_Foreign t)\<rparr> else t\<lparr>tr_Ignored := tr_Ignored t @ [(name, err)]\<rparr>)"

text \<open>The members of a JWK in a delegation: of one that is not a string, the empty string.\<close>

definition struct_text_of :: "Struct \<Rightarrow> string \<Rightarrow> string" where
  "struct_text_of s k = (case map_of s k of Some (VString v) \<Rightarrow> v | _ \<Rightarrow> [])"

definition delegated_jwk :: "Struct \<Rightarrow> JWK" where
  "delegated_jwk s = no_JWK\<lparr>jk_Kty := struct_text_of s ''kty'', jk_Crv := struct_text_of s ''crv'', jk_X := struct_text_of s ''x'', jk_Y := struct_text_of s ''y''\<rparr>"

definition delegation_of :: "ecdsa \<Rightarrow> codec \<Rightarrow> Trust \<Rightarrow> string \<Rightarrow> bytes \<Rightarrow> statement_error + (string \<times> delegation)" where
  "delegation_of ec cd t name raw =
     (case signedByARoot ec t raw TypDelegation of
        Inl e \<Rightarrow> Inl e
      | Inr tok \<Rightarrow>
          (case cd_delegation cd (tk_Payload tok) of
             None \<Rightarrow> Inl StatementNotParsed
           | Some d \<Rightarrow>
               (let win = sint (dg_Exp d - dg_Nbf d) in
                if dg_Iss d \<noteq> tk_Kid tok then Inl (IssuerIsNot (dg_Iss d) (tk_Kid tok))
                else if win \<le> 0 then Inl EmptyWindow
                else if win > MaxDelegation then Inl WindowTooLong
                else (case dg_Scope d of
                        None \<Rightarrow> Inl NoScope
                      | Some sc \<Rightarrow>
                          if ds_Profiles sc = [] \<or> ds_Tenants sc = [] then Inl NoScope
                          else (case dg_Jwk d of
                                  None \<Rightarrow> Inl NoJWK
                                | Some js \<Rightarrow>
                                    (case JWK_Key (delegated_jwk js) of
                                       Inl e \<Rightarrow> Inl (DelegatedKey e)
                                     | Inr pub \<Rightarrow>
                                         if Thumbprint pub \<noteq> dg_Sub d then Inl (SubjectIsNot (dg_Sub d) (Thumbprint pub))
                                         else Inr (dg_Sub d, \<lparr>dl_key = pub, dl_nbf = time_Unix (dg_Nbf d),
                                                dl_exp = time_Unix (dg_Exp d), dl_profiles = ds_Profiles sc, dl_tenants = ds_Tenants sc,
                                                dl_object = name\<rparr>)))))))"

definition addDelegation :: "ecdsa \<Rightarrow> codec \<Rightarrow> string \<Rightarrow> bytes \<Rightarrow> Trust \<Rightarrow> Trust" where
  "addDelegation ec cd name raw t =
     (case delegation_of ec cd t name raw of
        Inl e \<Rightarrow> trust_note name e t
      | Inr (sub, d) \<Rightarrow> t\<lparr>tr_delegations := (tr_delegations t)(sub := tr_delegations t sub @ [d])\<rparr>)"

definition revocation_of :: "ecdsa \<Rightarrow> codec \<Rightarrow> Trust \<Rightarrow> bytes \<Rightarrow> statement_error + (string \<times> time)" where
  "revocation_of ec cd t raw =
     (case signedByARoot ec t raw TypRevocation of
        Inl e \<Rightarrow> Inl e
      | Inr tok \<Rightarrow>
          (case cd_revocation cd (tk_Payload tok) of
             None \<Rightarrow> Inl StatementNotParsed
           | Some r \<Rightarrow>
               if rv_Iss r \<noteq> tk_Kid tok then Inl (IssuerIsNot (rv_Iss r) (tk_Kid tok))
               else (case rv_RevokedAt r of
                       None \<Rightarrow> Inl NamesNoKey
                     | Some at_time \<Rightarrow> if rv_Revokes r = [] then Inl NamesNoKey else Inr (rv_Revokes r, at_time))))"

definition addRevocation :: "ecdsa \<Rightarrow> codec \<Rightarrow> string \<Rightarrow> bytes \<Rightarrow> Trust \<Rightarrow> Trust" where
  "addRevocation ec cd name raw t =
     (case revocation_of ec cd t raw of
        Inl e \<Rightarrow> trust_note name e t
      | Inr (k, at_time) \<Rightarrow> t\<lparr>tr_revocations := (tr_revocations t)(k := tr_revocations t k @ [at_time])\<rparr>)"

subsection \<open>Loading\<close>

datatype trust_failure = NoPins | TrustStore store_error

fun add_statements :: "(string \<Rightarrow> store_error + bytes) \<Rightarrow> (string \<Rightarrow> bytes \<Rightarrow> Trust \<Rightarrow> Trust) \<Rightarrow> entry list \<Rightarrow> Trust \<Rightarrow> trust_failure + Trust" where
  "add_statements get add [] t = Inr t"
| "add_statements get add (e # es) t =
     (case get (e_Key e) of
        Inl err \<Rightarrow> Inl (TrustStore err)
      | Inr body \<Rightarrow> add_statements get add es (add (e_Key e) body t))"

definition empty_trust :: "string list \<Rightarrow> Trust" where
  "empty_trust pins = \<lparr>tr_pins = pins, tr_roots = [], tr_delegations = \<lambda>_. [], tr_revocations = \<lambda>_. [], tr_Ignored = [], tr_Foreign = 0\<rparr>"

definition load_roots :: "(string \<Rightarrow> store_error + bytes) \<Rightarrow> Trust \<Rightarrow> trust_failure + Trust" where
  "load_roots get t =
     (case get RootsKey of
        Inl (ErrNotFound _) \<Rightarrow> Inr t
      | Inl err \<Rightarrow> Inl (TrustStore err)
      | Inr body \<Rightarrow>
          (case ParseJWKS body of
             Inl e \<Rightarrow> Inr (t\<lparr>tr_Ignored := tr_Ignored t @ [(RootsKey, RootsFile e)]\<rparr>)
           | Inr ks \<Rightarrow> Inr (t\<lparr>tr_roots := filter (\<lambda>(k, _). k \<in> set (tr_pins t)) ks\<rparr>)))"

definition LoadTrust :: "ecdsa \<Rightarrow> codec \<Rightarrow> lister \<Rightarrow> (string \<Rightarrow> store_error + bytes) \<Rightarrow> string list \<Rightarrow> trust_failure + Trust" where
  "LoadTrust ec cd list get pins =
     (if pins = [] then Inl NoPins
      else case load_roots get (empty_trust pins) of
             Inl e \<Rightarrow> Inl e
           | Inr t \<Rightarrow>
               (case list DelegationsPrefix [] 0 of
                  Inl err \<Rightarrow> Inl (TrustStore err)
                | Inr es \<Rightarrow>
                    (case add_statements get (addDelegation ec cd) es t of
                       Inl e \<Rightarrow> Inl e
                     | Inr t \<Rightarrow>
                         (case list RevocationsPrefix [] 0 of
                            Inl err \<Rightarrow> Inl (TrustStore err)
                          | Inr rs \<Rightarrow> add_statements get (addRevocation ec cd) rs t))))"

subsection \<open>Checking a seal\<close>

definition trust_covers :: "string list \<Rightarrow> string \<Rightarrow> bool" where
  "trust_covers names name = list_ex (\<lambda>n. n = ''*'' \<or> n = name) names"

datatype reason = OutsideWindow | WrittenLate | OutsideScope | NotSigned verify_failure

datatype distrust = PinNotListed string | RootSignature verify_failure | NoDelegation string | NoneVouches string "reason list" | Revoked string time

definition notRevoked :: "Trust \<Rightarrow> string \<Rightarrow> time \<Rightarrow> time \<Rightarrow> distrust option" where
  "notRevoked t kid at_time writtenAt =
     map_option (Revoked kid)
       (find (\<lambda>r. \<not> at_time < r \<or> (writtenAt \<noteq> zero_time \<and> \<not> time_Add writtenAt (- Skew) < r)) (tr_revocations t kid))"

fun vouches :: "ecdsa \<Rightarrow> Trust \<Rightarrow> Typed \<Rightarrow> time \<Rightarrow> delegation list \<Rightarrow> reason list \<Rightarrow> distrust option" where
  "vouches ec t s writtenAt [] reasons = Some (NoneVouches (tk_Kid (ty_Token s)) reasons)"
| "vouches ec t s writtenAt (d # ds) reasons =
     (let at_time = AsTime_seal (sl_SealedAt (ty_Seal s)) in
      if at_time < dl_nbf d \<or> dl_exp d < at_time then vouches ec t s writtenAt ds (reasons @ [OutsideWindow])
      else if writtenAt \<noteq> zero_time \<and> time_Add (dl_exp d) Skew < writtenAt then vouches ec t s writtenAt ds (reasons @ [WrittenLate])
      else if \<not> trust_covers (dl_profiles d) (sl_Profile (ty_Seal s)) \<or> \<not> trust_covers (dl_tenants d) (sl_Tenant (ty_Seal s))
      then vouches ec t s writtenAt ds (reasons @ [OutsideScope])
      else (case Token_Verify ec (ty_Token s) (dl_key d) of
              Some e \<Rightarrow> vouches ec t s writtenAt ds (reasons @ [NotSigned e])
            | None \<Rightarrow> notRevoked t (tk_Kid (ty_Token s)) at_time writtenAt))"

definition Trust_Check :: "ecdsa \<Rightarrow> Trust \<Rightarrow> Typed \<Rightarrow> time \<Rightarrow> distrust option" where
  "Trust_Check ec t s writtenAt =
     (let kid = tk_Kid (ty_Token s) in
      if kid \<in> set (tr_pins t) then
        (case map_of (tr_roots t) kid of
           None \<Rightarrow> Some (PinNotListed kid)
         | Some pub \<Rightarrow> map_option RootSignature (Token_Verify ec (ty_Token s) pub))
      else if tr_delegations t kid = [] then Some (NoDelegation kid)
      else vouches ec t s writtenAt (tr_delegations t kid) [])"

section \<open>What was loaded\<close>

text \<open>A key that a pin names, and a statement that one signed.\<close>

definition pinned_key :: "string list \<Rightarrow> string \<Rightarrow> PublicKey \<Rightarrow> bool" where
  "pinned_key pins kid pub \<longleftrightarrow> kid \<in> set pins \<and> kid = Thumbprint pub \<and> good_key pub"

definition root_signed :: "ecdsa \<Rightarrow> string list \<Rightarrow> string \<Rightarrow> bytes \<Rightarrow> Token \<Rightarrow> bool" where
  "root_signed ec pins typ raw tok \<longleftrightarrow>
     Parse_token raw = Inr tok \<and> tk_Typ tok = typ \<and> (\<exists>pub. pinned_key pins (tk_Kid tok) pub \<and> Token_Verify ec tok pub = None)"

text \<open>A delegation that is what the object of its name says, signed by a pinned root.\<close>

definition delegated :: "ecdsa \<Rightarrow> codec \<Rightarrow> string list \<Rightarrow> (string \<Rightarrow> store_error + bytes) \<Rightarrow> string \<Rightarrow> delegation \<Rightarrow> bool" where
  "delegated ec cd pins get kid d \<longleftrightarrow>
     (\<exists>raw tok s sc. get (dl_object d) = Inr raw \<and> root_signed ec pins TypDelegation raw tok \<and> cd_delegation cd (tk_Payload tok) = Some s
        \<and> dg_Iss s = tk_Kid tok \<and> dg_Sub s = kid \<and> kid = Thumbprint (dl_key d) \<and> good_key (dl_key d)
        \<and> 0 < sint (dg_Exp s - dg_Nbf s) \<and> sint (dg_Exp s - dg_Nbf s) \<le> MaxDelegation
        \<and> dl_nbf d = time_Unix (dg_Nbf s) \<and> dl_exp d = time_Unix (dg_Exp s)
        \<and> dg_Scope s = Some sc \<and> dl_profiles d = ds_Profiles sc \<and> dl_tenants d = ds_Tenants sc)"

text \<open>A delegation whose window and scope hold a seal that its key signed.\<close>

definition speaks_for :: "ecdsa \<Rightarrow> Typed \<Rightarrow> time \<Rightarrow> delegation \<Rightarrow> bool" where
  "speaks_for ec s w d \<longleftrightarrow>
     dl_nbf d \<le> AsTime_seal (sl_SealedAt (ty_Seal s)) \<and> AsTime_seal (sl_SealedAt (ty_Seal s)) \<le> dl_exp d
     \<and> (w = zero_time \<or> w \<le> time_Add (dl_exp d) Skew)
     \<and> trust_covers (dl_profiles d) (sl_Profile (ty_Seal s)) \<and> trust_covers (dl_tenants d) (sl_Tenant (ty_Seal s))
     \<and> Token_Verify ec (ty_Token s) (dl_key d) = None"

definition trust_invar :: "ecdsa \<Rightarrow> codec \<Rightarrow> string list \<Rightarrow> (string \<Rightarrow> store_error + bytes) \<Rightarrow> string set \<Rightarrow> Trust \<Rightarrow> bool" where
  "trust_invar ec cd pins get names t \<longleftrightarrow> tr_pins t = pins \<and> (\<forall>(k, pub) \<in> set (tr_roots t). pinned_key pins k pub)
     \<and> (\<forall>kid. \<forall>d \<in> set (tr_delegations t kid). delegated ec cd pins get kid d \<and> dl_object d \<in> names)"

lemma signedByARoot_pinned:
  assumes "signedByARoot ec t raw typ = Inr tok" "tr_pins t = pins" "\<forall>(k, pub) \<in> set (tr_roots t). pinned_key pins k pub"
  shows "root_signed ec pins typ raw tok"
proof -
  from assms(1) obtain pub where "Parse_token raw = Inr tok" "tk_Typ tok = typ" "map_of (tr_roots t) (tk_Kid tok) = Some pub" "Token_Verify ec tok pub = None"
    by (auto simp: signedByARoot_def split: sum.splits if_splits option.splits)
  moreover have "pinned_key pins (tk_Kid tok) pub" using assms(3) map_of_SomeD [OF calculation(3)] by blast
  ultimately show ?thesis unfolding root_signed_def by blast
qed

lemma delegation_of_delegated:
  assumes "delegation_of ec cd t name raw = Inr (sub, d)" "get name = Inr raw" "trust_invar ec cd pins get names t"
  shows "delegated ec cd pins get sub d" "dl_object d = name"
proof -
  from assms(1) obtain tok where tok: "signedByARoot ec t raw TypDelegation = Inr tok" by (auto simp: delegation_of_def split: sum.splits)
  from tok assms(3) have "root_signed ec pins TypDelegation raw tok" by (intro signedByARoot_pinned [of ec t]) (auto simp: trust_invar_def)
  moreover from assms(1) tok obtain s where s: "cd_delegation cd (tk_Payload tok) = Some s"
    by (cases "cd_delegation cd (tk_Payload tok)") (simp_all add: delegation_of_def)
  moreover from assms(1) tok s obtain sc where sc: "dg_Scope s = Some sc"
    by (cases "dg_Scope s") (simp_all add: delegation_of_def Let_def split: if_split_asm)
  moreover from assms(1) tok s sc obtain js where js: "dg_Jwk s = Some js"
    by (cases "dg_Jwk s") (simp_all add: delegation_of_def Let_def split: if_split_asm)
  moreover from assms(1) tok s sc js obtain pub where j: "JWK_Key (delegated_jwk js) = Inr pub"
    by (cases "JWK_Key (delegated_jwk js)") (simp_all add: delegation_of_def Let_def split: if_split_asm)
  moreover from assms(1) tok s sc js j have d: "dg_Iss s = tk_Kid tok" "dg_Sub s = sub" "sub = Thumbprint (dl_key d)" "pub = dl_key d"
      "0 < sint (dg_Exp s - dg_Nbf s)" "sint (dg_Exp s - dg_Nbf s) \<le> MaxDelegation"
      "dl_nbf d = time_Unix (dg_Nbf s)" "dl_exp d = time_Unix (dg_Exp s)" "dl_profiles d = ds_Profiles sc" "dl_tenants d = ds_Tenants sc"
      "dl_object d = name"
    by (auto simp: delegation_of_def Let_def not_le not_less split: if_split_asm)
  moreover have "good_key (dl_key d)" using JWK_Key_good [OF j] d(4) by simp
  ultimately show "delegated ec cd pins get sub d" "dl_object d = name" using assms(2) unfolding delegated_def by blast+
qed

lemma addDelegation_invar:
  assumes "trust_invar ec cd pins get names t" "get name = Inr raw" "name \<in> names"
  shows "trust_invar ec cd pins get names (addDelegation ec cd name raw t)"
  using assms delegation_of_delegated [OF _ assms(2,1)]
  by (auto simp: addDelegation_def trust_invar_def trust_note_def split: sum.split)

lemma addRevocation_keeps:
  "tr_pins (addRevocation ec cd name raw t) = tr_pins t" "tr_roots (addRevocation ec cd name raw t) = tr_roots t"
  "tr_delegations (addRevocation ec cd name raw t) = tr_delegations t"
  by (auto simp: addRevocation_def trust_note_def split: sum.split)

lemma add_statements_keep:
  assumes "add_statements get add es t = Inr t'" "P t"
    and "\<And>e raw t. e \<in> set es \<Longrightarrow> get (e_Key e) = Inr raw \<Longrightarrow> P t \<Longrightarrow> P (add (e_Key e) raw t)"
  shows "P t'"
  using assms
proof (induction es arbitrary: t)
  case (Cons e es)
  from Cons.prems(1) obtain raw where raw: "get (e_Key e) = Inr raw" "add_statements get add es (add (e_Key e) raw t) = Inr t'"
    by (auto split: sum.splits)
  show ?case by (rule Cons.IH [OF raw(2)]) (use Cons.prems raw in auto)
qed simp

text \<open>Every revocation a pinned root signed is kept.\<close>

lemma signedByARoot_same: "tr_pins t = tr_pins t' \<Longrightarrow> tr_roots t = tr_roots t' \<Longrightarrow> signedByARoot ec t = signedByARoot ec t'"
  by (intro ext) (simp add: signedByARoot_def split: sum.split option.split)

lemma revocation_of_same: "tr_pins t = tr_pins t' \<Longrightarrow> tr_roots t = tr_roots t' \<Longrightarrow> revocation_of ec cd t = revocation_of ec cd t'"
  by (intro ext) (simp add: revocation_of_def signedByARoot_same [of t t'])

lemma revocations_kept:
  assumes "add_statements get (addRevocation ec cd) rs t = Inr t'"
  shows "tr_pins t' = tr_pins t \<and> tr_roots t' = tr_roots t \<and> tr_delegations t' = tr_delegations t
    \<and> (\<forall>k. set (tr_revocations t k) \<subseteq> set (tr_revocations t' k))
    \<and> (\<forall>e \<in> set rs. \<forall>raw k r. get (e_Key e) = Inr raw \<longrightarrow> revocation_of ec cd t' raw = Inr (k, r) \<longrightarrow> r \<in> set (tr_revocations t' k))"
  using assms
proof (induction rs arbitrary: t)
  case (Cons e rs)
  from Cons.prems obtain raw where raw: "get (e_Key e) = Inr raw" "add_statements get (addRevocation ec cd) rs (addRevocation ec cd (e_Key e) raw t) = Inr t'"
    by (auto split: sum.splits)
  note IH = Cons.IH [OF raw(2), unfolded addRevocation_keeps]
  have grow: "set (tr_revocations t k) \<subseteq> set (tr_revocations (addRevocation ec cd (e_Key e) raw t) k)" for k
    by (auto simp: addRevocation_def trust_note_def split: sum.split)
  have same: "revocation_of ec cd t' = revocation_of ec cd t" by (rule revocation_of_same) (use IH in simp_all)
  have new: "r \<in> set (tr_revocations (addRevocation ec cd (e_Key e) raw t) k)" if "revocation_of ec cd t' raw = Inr (k, r)" for k r
    using that unfolding same by (simp add: addRevocation_def)
  have "r \<in> set (tr_revocations t' k)" if "revocation_of ec cd t' raw = Inr (k, r)" for k r using new [OF that] IH by blast
  moreover have "set (tr_revocations t k) \<subseteq> set (tr_revocations t' k)" for k using grow [of k] IH by (meson subset_trans)
  ultimately show ?case using IH raw(1) by simp
qed simp

lemma load_roots_invar: "load_roots get (empty_trust pins) = Inr t \<Longrightarrow> trust_invar ec cd pins get names t"
  using ParseJWKS_named by (fastforce simp: load_roots_def empty_trust_def trust_invar_def pinned_key_def split: sum.splits store_error.splits)

lemma LoadTrust_invar:
  assumes "LoadTrust ec cd list get pins = Inr t"
  obtains es rs where "list DelegationsPrefix [] 0 = Inr es" "list RevocationsPrefix [] 0 = Inr rs"
    "trust_invar ec cd pins get (e_Key ` set es) t"
    "\<And>e raw k r. e \<in> set rs \<Longrightarrow> get (e_Key e) = Inr raw \<Longrightarrow> revocation_of ec cd t raw = Inr (k, r) \<Longrightarrow> r \<in> set (tr_revocations t k)"
proof -
  from assms obtain t1 es t2 rs where *: "load_roots get (empty_trust pins) = Inr t1" "list DelegationsPrefix [] 0 = Inr es"
    "add_statements get (addDelegation ec cd) es t1 = Inr t2" "list RevocationsPrefix [] 0 = Inr rs" "add_statements get (addRevocation ec cd) rs t2 = Inr t"
    by (auto simp: LoadTrust_def split: if_splits sum.splits)
  have "trust_invar ec cd pins get (e_Key ` set es) t2"
    by (rule add_statements_keep [where P = "trust_invar ec cd pins get (e_Key ` set es)", OF *(3) load_roots_invar [OF *(1)]])
      (auto intro: addDelegation_invar)
  with revocations_kept [OF *(5)] have "trust_invar ec cd pins get (e_Key ` set es) t" by (simp add: trust_invar_def)
  with that [OF *(2,4)] revocations_kept [OF *(5)] show thesis by blast
qed

lemma vouches_step:
  assumes "vouches ec t s w (d # ds) reasons = None"
  shows "(\<exists>r. vouches ec t s w ds (reasons @ [r]) = None)
    \<or> speaks_for ec s w d \<and> notRevoked t (tk_Kid (ty_Token s)) (AsTime_seal (sl_SealedAt (ty_Seal s))) w = None"
  using assms by (cases "Token_Verify ec (ty_Token s) (dl_key d)") (auto simp: speaks_for_def Let_def not_less split: if_split_asm)

lemma vouches_by:
  "vouches ec t s w ds reasons = None
   \<Longrightarrow> notRevoked t (tk_Kid (ty_Token s)) (AsTime_seal (sl_SealedAt (ty_Seal s))) w = None \<and> (\<exists>d \<in> set ds. speaks_for ec s w d)"
proof (induction ds arbitrary: reasons)
  case (Cons d ds)
  from vouches_step [OF Cons.prems] show ?case using Cons.IH by auto
qed simp

lemma notRevoked_None:
  "notRevoked t kid tm w = None \<longleftrightarrow> (\<forall>r \<in> set (tr_revocations t kid). tm < r \<and> (w = zero_time \<or> time_Add w (- Skew) < r))"
  by (auto simp: notRevoked_def find_None_iff)

text \<open>The window of a delegation, read as times, is no longer than what was checked of its seconds, wherever these wrap around.\<close>

lemma sint_diff_le:
  assumes "sint (x - y :: 64 word) = w" "0 < w"
  shows "sint x - sint y \<le> w"
proof (rule ccontr)
  assume "\<not> ?thesis"
  moreover have "(2::int) ^ 64 dvd (sint x - sint y) - w"
  proof -
    have "word_of_int (sint x - sint y) = (word_of_int w :: 64 word)" using assms(1) by auto
    then have "take_bit 64 (sint x - sint y) = take_bit 64 w" by (simp only: word_of_int_eq_iff) simp
    then show ?thesis by (simp add: take_bit_eq_mod mod_eq_dvd_iff)
  qed
  ultimately have "2 ^ 64 \<le> (sint x - sint y) - w" by (intro zdvd_imp_le) auto
  moreover have "sint x < 2 ^ 63" "- (2 ^ 63) \<le> sint y" using sint_less [of x] sint_greater_eq [of y] by simp_all
  ultimately show False using assms(2) by simp
qed

lemma delegated_window:
  assumes "delegated ec cd pins get kid d"
  shows "dl_exp d - dl_nbf d \<le> MaxDelegation * second_ns"
proof -
  from assms obtain s :: Delegation where s: "0 < sint (dg_Exp s - dg_Nbf s)" "sint (dg_Exp s - dg_Nbf s) \<le> MaxDelegation"
    "dl_nbf d = time_Unix (dg_Nbf s)" "dl_exp d = time_Unix (dg_Exp s)"
    unfolding delegated_def by blast
  have "sint (dg_Exp s + word_of_int year_one) - sint (dg_Nbf s + word_of_int year_one) \<le> sint (dg_Exp s - dg_Nbf s)"
    by (rule sint_diff_le) (use s(1) in simp_all)
  with s(2) have "sint (dg_Exp s + word_of_int year_one) - sint (dg_Nbf s + word_of_int year_one) \<le> MaxDelegation" by simp
  then have "(sint (dg_Exp s + word_of_int year_one) - sint (dg_Nbf s + word_of_int year_one)) * second_ns \<le> MaxDelegation * second_ns"
    by (intro mult_right_mono) (simp_all add: second_ns_def)
  then show ?thesis by (simp add: s(3,4) time_Unix_def left_diff_distrib)
qed

section \<open>Properties\<close>

text \<open>
  C0: A seal that a verifier believes is signed by a key whose thumbprint it pinned; or it is signed by a key to which an object under
  \<open>keys/delegations/\<close>, signed by such a key, delegates for the seal's profile and tenant, with \<open>sealed_at\<close> in a window of at most 25 hours,
  written no later than five minutes after its end where that is known, and no revocation under \<open>keys/revocations/\<close> that a pinned root
  signed takes the key away at or before the time of the seal. Whatever else is written under \<open>keys/\<close> adds nothing.
\<close>

theorem only_pinned_roots_vouch:
  assumes "LoadTrust ec cd list get pins = Inr t" "Trust_Check ec t s w = None"
  shows "(\<exists>pub. pinned_key pins (tk_Kid (ty_Token s)) pub \<and> Token_Verify ec (ty_Token s) pub = None)
    \<or> (\<exists>es rs d. list DelegationsPrefix [] 0 = Inr es \<and> list RevocationsPrefix [] 0 = Inr rs \<and> dl_object d \<in> e_Key ` set es
         \<and> delegated ec cd pins get (tk_Kid (ty_Token s)) d \<and> dl_exp d - dl_nbf d \<le> MaxDelegation * second_ns \<and> speaks_for ec s w d
         \<and> (\<forall>e \<in> set rs. \<forall>raw r. get (e_Key e) = Inr raw \<longrightarrow> revocation_of ec cd t raw = Inr (tk_Kid (ty_Token s), r)
              \<longrightarrow> AsTime_seal (sl_SealedAt (ty_Seal s)) < r \<and> (w = zero_time \<or> time_Add w (- Skew) < r)))"
proof -
  obtain es rs where t: "list DelegationsPrefix [] 0 = Inr es" "list RevocationsPrefix [] 0 = Inr rs" "trust_invar ec cd pins get (e_Key ` set es) t"
    "\<And>e raw k r. e \<in> set rs \<Longrightarrow> get (e_Key e) = Inr raw \<Longrightarrow> revocation_of ec cd t raw = Inr (k, r) \<Longrightarrow> r \<in> set (tr_revocations t k)"
    using LoadTrust_invar [OF assms(1)] by blast
  show ?thesis
  proof (cases "tk_Kid (ty_Token s) \<in> set (tr_pins t)")
    case True
    with assms(2) obtain pub where "map_of (tr_roots t) (tk_Kid (ty_Token s)) = Some pub" "Token_Verify ec (ty_Token s) pub = None"
      by (cases "map_of (tr_roots t) (tk_Kid (ty_Token s))") (simp_all add: Trust_Check_def Let_def)
    then show ?thesis using t(3) map_of_SomeD unfolding trust_invar_def by fast
  next
    case False
    with assms(2) have "vouches ec t s w (tr_delegations t (tk_Kid (ty_Token s))) [] = None" by (simp add: Trust_Check_def Let_def split: if_splits)
    from vouches_by [OF this] obtain d where "d \<in> set (tr_delegations t (tk_Kid (ty_Token s)))" "speaks_for ec s w d"
      and not_revoked: "notRevoked t (tk_Kid (ty_Token s)) (AsTime_seal (sl_SealedAt (ty_Seal s))) w = None" by blast
    moreover have "delegated ec cd pins get (tk_Kid (ty_Token s)) d" "dl_object d \<in> e_Key ` set es"
      using t(3) calculation(1) unfolding trust_invar_def by blast+
    ultimately show ?thesis using t(1,2,4) delegated_window not_revoked unfolding notRevoked_None by metis
  qed
qed

text \<open>A point of the curve as a pinned root.\<close>

definition example_y :: nat where
  "example_y = 0x3cf99ef04f51a5ea630ba3f9f960dd593a14c9be39fd2bd215d3b4b08aaaf86bbf927f2c46e52ab06fb742b8850e521e"

definition example_root :: PublicKey where
  "example_root = (chars (fill_bytes 48 0), chars (fill_bytes 48 example_y))"

definition example_ecdsa :: ecdsa where
  "example_ecdsa = \<lparr>ec_Sum384 = \<lambda>b. b, ec_Verify = \<lambda>_ _ _ _. True\<rparr>"

definition example_codec :: codec where
  "example_codec = \<lparr>cd_seal = \<lambda>_. None, cd_delegation = \<lambda>_. None, cd_revocation = \<lambda>_. None, cd_marshal = \<lambda>_. None, cd_lower = \<lambda>s. s\<rparr>"

definition example_typed :: Typed where
  "example_typed = \<lparr>ty_Token = \<lparr>tk_Alg = Alg, tk_Kid = Thumbprint example_root, tk_Typ = TypSeal, tk_Payload = [], tk_Bytes = [], tk_input = ''a.b'',
       tk_signature = replicate 96 CHR ''s''\<rparr>,
     ty_Seal = NewSeal ''p'' ''t'' 0 empty_hour [] 0\<rparr>"

definition example_get :: "string \<Rightarrow> store_error + bytes" where
  "example_get k = (if k = RootsKey then Inr (MarshalJWKS [example_root]) else Inl (ErrNotFound k))"

lemma fill_bytes_256: "list_all (\<lambda>b. b < 256) (fill_bytes k n)" "length (fill_bytes k n) = k"
  by (induction k arbitrary: n) simp_all

lemma big_endian_fill: "big_endian (chars (fill_bytes k n)) = n mod 256 ^ k"
proof (induction k arbitrary: n)
  case (Suc k)
  have "big_endian (chars (fill_bytes (Suc k) n)) = 256 * big_endian (chars (fill_bytes k (n div 256))) + n mod 256"
    by (simp add: big_endian_def chars_def)
  then show ?case by (simp add: Suc mod_mult2_eq)
qed (simp add: big_endian_def chars_def)

lemma example_root_good: "good_key example_root"
proof -
  have eq: "example_y * example_y = b384 + 0xe85f5e7375616183ada09af5064618fd6b97fb6ed5a722175c105c083fcabe11d0dc70a7f25142b65d95318924cef6b * p384"
    by (simp add: example_y_def b384_def p384_def)
  have "example_y * example_y mod p384 = b384 mod p384" unfolding eq by simp
  moreover have "example_y < p384" "0 < p384" "example_y < 256 ^ 48" by (simp_all add: example_y_def p384_def)
  ultimately have "on_P384 (big_endian (fst example_root)) (big_endian (snd example_root))"
    by (simp add: example_root_def big_endian_fill on_P384_def)
  then show ?thesis by (simp add: good_key_def example_root_def coordinate_def chars_def fill_bytes_256(2))
qed

theorem only_pinned_roots_vouch_witness:
  "pinned_key [Thumbprint example_root] (Thumbprint example_root) example_root
   \<and> (\<exists>t. LoadTrust example_ecdsa example_codec (\<lambda>_ _ _. Inr []) example_get [Thumbprint example_root] = Inr t
        \<and> Trust_Check example_ecdsa t example_typed 0 = None
        \<and> (\<exists>pub. pinned_key [Thumbprint example_root] (Thumbprint example_root) pub \<and> Token_Verify example_ecdsa (ty_Token example_typed) pub = None))"
proof -
  let ?t = "(empty_trust [Thumbprint example_root])\<lparr>tr_roots := [(Thumbprint example_root, example_root)]\<rparr>"
  have "ParseJWKS (MarshalJWKS [example_root]) = Inr [(Thumbprint example_root, example_root)]"
    using ParseJWKS_MarshalJWKS [of "[example_root]"] example_root_good by simp
  then have load: "LoadTrust example_ecdsa example_codec (\<lambda>_ _ _. Inr []) example_get [Thumbprint example_root] = Inr ?t"
    by (simp add: LoadTrust_def load_roots_def example_get_def empty_trust_def)
  have check: "Trust_Check example_ecdsa ?t example_typed 0 = None"
    by (simp add: Trust_Check_def example_typed_def empty_trust_def Token_Verify_def verifyRaw_def example_ecdsa_def coordinate_def)
  from only_pinned_roots_vouch [OF load check] show ?thesis using load check example_root_good
    by (auto simp: pinned_key_def example_typed_def)
qed

end
