(* ===== verification/Contract.thy ===== *)
theory Contract
  imports Sealhour Roller
begin

text \<open>
  \<open>internal/bucketcontract/bucketcontract.go\<close>: the checker that holds a bucket to the contract of its layout, object by object and
  as a whole. The text of a finding's detail is left out; its rule and its key are kept. What the protobuf library makes of the
  JSON of a record is an argument, as is the decompression of an object.

  Shown: the checker finds nothing wrong with an object exactly when it conforms, and nothing wrong with a bucket exactly when
  every object in the range does, no two share a ULID and every catalogue named is held; what the writer puts conforms.
\<close>

section \<open>Rules and findings\<close>

definition RuleKey :: string where "RuleKey = ''key.grammar''"

definition RuleCatalogueKey :: string where "RuleCatalogueKey = ''key.catalogue''"

definition RuleUnique :: string where "RuleUnique = ''key.ulid-unique''"

definition RuleOrder :: string where "RuleOrder = ''key.order''"

definition RuleRead :: string where "RuleRead = ''object.read''"

definition RuleMetadata :: string where "RuleMetadata = ''object.metadata''"

definition RuleSHA256 :: string where "RuleSHA256 = ''object.sha256''"

definition RuleBody :: string where "RuleBody = ''object.body''"

definition RuleCount :: string where "RuleCount = ''object.count''"

definition RuleHash :: string where "RuleHash = ''record.hash''"

definition RulePlacement :: string where "RulePlacement = ''record.placement''"

definition RuleCatalogue :: string where "RuleCatalogue = ''catalogue.present''"

definition RuleCatalogueBody :: string where "RuleCatalogueBody = ''catalogue.body''"

record Finding =
  fi_Rule :: string
  fi_Key :: string
  fi_Hour :: time

definition broken :: "string \<Rightarrow> string \<Rightarrow> Finding" where
  "broken rule key = \<lparr>fi_Rule = rule, fi_Key = key, fi_Hour = zero_time\<rparr>"

section \<open>One object\<close>

record ObjectResult =
  rs_Entry :: "entry option"
  rs_Records :: nat
  rs_Findings :: "Finding list"
  rs_Catalogues :: "string list"

definition no_result :: ObjectResult where
  "no_result = \<lparr>rs_Entry = None, rs_Records = 0, rs_Findings = [], rs_Catalogues = []\<rparr>"

definition bad :: "string \<Rightarrow> string \<Rightarrow> ObjectResult \<Rightarrow> ObjectResult" where
  "bad key rule res = res\<lparr>rs_Findings := rs_Findings res @ [broken rule key]\<rparr>"

text \<open>What a line of an object breaks, and the catalogue its record names.\<close>

definition check_line :: "(bytes \<Rightarrow> Record option) \<Rightarrow> string \<Rightarrow> RecordObject \<Rightarrow> Line \<Rightarrow> ObjectResult \<Rightarrow> ObjectResult" where
  "check_line decoded key parsed line res =
     (if Line_Verify line \<noteq> None then bad key RuleHash res
      else case decoded (l_Record line) of
             None \<Rightarrow> bad key RuleBody res
           | Some copied \<Rightarrow>
               (let res = (if r_Profile copied \<noteq> ro_Profile parsed then bad key RulePlacement res else res);
                    res = (if r_TenantId copied \<noteq> [] \<and> r_TenantId copied \<noteq> ro_Tenant parsed then bad key RulePlacement res else res)
                in res\<lparr>rs_Catalogues := List.insert (r_Source copied @ ''@'' @ r_CatalogueVersion copied) (rs_Catalogues res)\<rparr>))"

definition check_metadata :: "string \<Rightarrow> metadata \<Rightarrow> bytes \<Rightarrow> nat \<Rightarrow> ObjectResult \<Rightarrow> ObjectResult" where
  "check_metadata key meta body n res =
     (let res = (if meta_get meta MetaFormat \<noteq> Format then bad key RuleMetadata res else res);
          res = (if meta_get meta MetaSHA256 = [] then bad key RuleMetadata res
                 else if meta_get meta MetaSHA256 \<noteq> SHA256 body then bad key RuleSHA256 res else res)
      in if meta_get meta MetaCount = [] then bad key RuleMetadata res
         else if meta_get meta MetaCount \<noteq> itoa n then bad key RuleCount res else res)"

definition metadata_of :: "entry \<Rightarrow> metadata" where
  "metadata_of e = (case e_Metadata e of Some meta \<Rightarrow> meta | None \<Rightarrow> [])"

definition CheckObject ::
  "(string \<Rightarrow> store_error + entry) \<Rightarrow> (string \<Rightarrow> store_error + bytes) \<Rightarrow> (bytes \<Rightarrow> string + bytes) \<Rightarrow> (bytes \<Rightarrow> Record option)
   \<Rightarrow> string \<Rightarrow> string \<Rightarrow> string \<Rightarrow> ObjectResult"
where
  "CheckObject head_of_key get decompress decoded key profile tenant =
     (case ParseRecordKey key of
        None \<Rightarrow> bad key RuleKey no_result
      | Some parsed \<Rightarrow>
          if (profile \<noteq> [] \<and> ro_Profile parsed \<noteq> profile) \<or> (tenant \<noteq> [] \<and> ro_Tenant parsed \<noteq> tenant) then bad key RuleKey no_result
          else (case head_of_key key of
                  Inl err \<Rightarrow> bad key RuleRead no_result
                | Inr head_entry \<Rightarrow>
                    (let res = no_result\<lparr>rs_Entry := Some head_entry\<rparr>; meta = metadata_of head_entry in
                     case get key of
                       Inl err \<Rightarrow> bad key RuleRead res
                     | Inr body \<Rightarrow>
                         (case Decode decompress body of
                            Inl err \<Rightarrow>
                              (let res = bad key RuleBody res
                               in if meta_get meta MetaSHA256 \<noteq> SHA256 body then bad key RuleSHA256 res else res)
                          | Inr ls \<Rightarrow> fold (check_line decoded key parsed) ls (check_metadata key meta body (length ls) (res\<lparr>rs_Records := length ls\<rparr>))))))"

section \<open>A bucket\<close>

record ContractOptions =
  co_Profiles :: "string list"
  co_From :: time
  co_To :: time
  co_Skew :: int

record Report =
  rp_Objects :: nat
  rp_Records :: nat
  rp_Catalogues :: nat
  rp_Findings :: "Finding list"

definition OK :: "Report \<Rightarrow> bool" where
  "OK r \<longleftrightarrow> length (rp_Findings r) = 0"

definition Has :: "Report \<Rightarrow> string \<Rightarrow> bool" where
  "Has r rule \<longleftrightarrow> list_ex (\<lambda>f. fi_Rule f = rule) (rp_Findings r)"

text \<open>What the walk of a bucket carries: the report, the key a ULID was last seen under, the last key that names a catalogue, and the
  key before.\<close>

record bucket_check =
  ck_report :: Report
  ck_seen :: "(string \<times> string) list"
  ck_wanted :: "(string \<times> string) list"
  ck_previous :: string

definition finds :: "Finding list \<Rightarrow> bucket_check \<Rightarrow> bucket_check" where
  "finds fs c = c\<lparr>ck_report := (ck_report c)\<lparr>rp_Findings := rp_Findings (ck_report c) @ fs\<rparr>\<rparr>"

text \<open>\<open>Time.Sub\<close>: the difference, or the end of 64 bits it is beyond.\<close>

definition time_Sub :: "time \<Rightarrow> time \<Rightarrow> int" where
  "time_Sub t u = max (- (2 ^ 63)) (min (2 ^ 63 - 1) (t - u))"

definition ulid_time :: "string \<Rightarrow> time" where
  "ulid_time s = (case Time s of Inr t \<Rightarrow> t | Inl e \<Rightarrow> zero_time)"

definition skewed :: "int \<Rightarrow> string \<Rightarrow> ObjectResult \<Rightarrow> bool" where
  "skewed skew ulid res =
     (case rs_Entry res of
        None \<Rightarrow> False
      | Some e \<Rightarrow> skew > 0 \<and> e_Modified e \<noteq> zero_time
          \<and> (time_Sub (e_Modified e) (ulid_time ulid) > skew \<or> time_Sub (e_Modified e) (ulid_time ulid) < - skew))"

definition check_visited ::
  "(string \<Rightarrow> string \<Rightarrow> string \<Rightarrow> ObjectResult) \<Rightarrow> int \<Rightarrow> string \<Rightarrow> string \<Rightarrow> (unit, bucket_check) visitor"
where
  "check_visited check_one skew profile tenant e c =
     (let key = e_Key e;
          c = c\<lparr>ck_report := (ck_report c)\<lparr>rp_Objects := Suc (rp_Objects (ck_report c))\<rparr>\<rparr>;
          c = (if ck_previous c \<noteq> [] \<and> key \<le> ck_previous c then finds [broken RuleOrder key] c else c);
          c = c\<lparr>ck_previous := key\<rparr>;
          res = check_one key profile tenant;
          c = finds (rs_Findings res) (c\<lparr>ck_report := (ck_report c)\<lparr>rp_Records := rp_Records (ck_report c) + rs_Records res\<rparr>\<rparr>);
          c = c\<lparr>ck_wanted := map (\<lambda>w. (w, key)) (rs_Catalogues res) @ ck_wanted c\<rparr>
      in case ParseRecordKey key of
           None \<Rightarrow> (None, c)
         | Some parsed \<Rightarrow>
             (let c = (if map_of (ck_seen c) (ro_ULID parsed) \<noteq> None then finds [broken RuleUnique key] c else c);
                  c = c\<lparr>ck_seen := (ro_ULID parsed, key) # ck_seen c\<rparr>
              in (None, if skewed skew (ro_ULID parsed) res then finds [broken RuleOrder key] c else c)))"

text \<open>The keys and bodies under \<open>catalogue/\<close>, and the keys of those that are as they should be.\<close>

fun check_catalogues :: "(string \<Rightarrow> store_error + bytes) \<Rightarrow> entry list \<Rightarrow> Report \<Rightarrow> string list \<Rightarrow> Report \<times> string list" where
  "check_catalogues get [] r held = (r, held)"
| "check_catalogues get (e # es) r held =
     (let r = r\<lparr>rp_Catalogues := Suc (rp_Catalogues r)\<rparr>;
          parts = Split (CHR ''/'') (TrimPrefix (e_Key e) CataloguePrefix);
          fault = (\<lambda>rule. check_catalogues get es (r\<lparr>rp_Findings := rp_Findings r @ [broken rule (e_Key e)]\<rparr>) held)
      in if length parts \<noteq> 2 \<or> parts ! 0 = [] \<or> parts ! 1 = [] then fault RuleCatalogueKey
         else case get (e_Key e) of
                Inl err \<Rightarrow> fault RuleRead
              | Inr body \<Rightarrow> if body = [] then fault RuleCatalogueBody else check_catalogues get es r (e_Key e # held))"

definition checkCatalogues :: "lister \<Rightarrow> (string \<Rightarrow> store_error + bytes) \<Rightarrow> Report \<Rightarrow> store_error + Report \<times> string list" where
  "checkCatalogues list get r = (case list CataloguePrefix [] 0 of Inl err \<Rightarrow> Inl err | Inr es \<Rightarrow> Inr (check_catalogues get es r []))"

text \<open>\<open>strings.Cut\<close> at the first \<open>@\<close>: what is before it and what is after.\<close>

definition cut_version :: "string \<Rightarrow> string \<times> string" where
  "cut_version c = (takeWhile (\<lambda>x. x \<noteq> CHR ''@'') c, tl (dropWhile (\<lambda>x. x \<noteq> CHR ''@'') c))"

definition missing_catalogues :: "string list \<Rightarrow> (string \<times> string) list \<Rightarrow> Finding list" where
  "missing_catalogues held wanted =
     List.map_filter (\<lambda>c. let (source, version) = cut_version c in
         if CatalogueKey source version \<in> set held then None else map_option (broken RuleCatalogue) (map_of wanted c))
       (sort (remdups (map fst wanted)))"

definition Check_bucket ::
  "lister \<Rightarrow> grouper \<Rightarrow> (string \<Rightarrow> store_error + entry) \<Rightarrow> (string \<Rightarrow> store_error + bytes) \<Rightarrow> (bytes \<Rightarrow> string + bytes) \<Rightarrow> (bytes \<Rightarrow> Record option)
   \<Rightarrow> ContractOptions \<Rightarrow> (store_error + Report) option"
where
  "Check_bucket list grp head_of_key get decompress decoded opts =
     (let frm = (if co_From opts = zero_time then Date 1970 1 1 0 0 else co_From opts);
          til = (if co_To opts = zero_time then Date 9000 1 1 0 0 else co_To opts);
          check_one = CheckObject head_of_key get decompress decoded;
          start = \<lparr>ck_report = \<lparr>rp_Objects = 0, rp_Records = 0, rp_Catalogues = 0, rp_Findings = []\<rparr>, ck_seen = [], ck_wanted = [], ck_previous = []\<rparr>;
          walk_tenant = (\<lambda>profile tenant c. WalkHours list profile tenant frm til [] (check_visited check_one (co_Skew opts) profile tenant) (c\<lparr>ck_previous := []\<rparr>));
          walk_profile = (\<lambda>profile c. case Tenants grp profile of
             Inl err \<Rightarrow> Some (Some (Inl err), c)
           | Inr tenants \<Rightarrow> walk_tenants (walk_tenant profile) tenants c)
      in case (if co_Profiles opts = [] then Profiles grp else Inr (co_Profiles opts)) of
           Inl err \<Rightarrow> Some (Inl err)
         | Inr profiles \<Rightarrow>
             (case walk_tenants walk_profile profiles start of
                None \<Rightarrow> None
              | Some (Some (Inl err), c) \<Rightarrow> Some (Inl err)
              | Some (_, c) \<Rightarrow>
                  (case checkCatalogues list get (ck_report c) of
                     Inl err \<Rightarrow> Some (Inl err)
                   | Inr (r, held) \<Rightarrow> Some (Inr (r\<lparr>rp_Findings := rp_Findings r @ missing_catalogues held (ck_wanted c)\<rparr>)))))"

section \<open>An object that conforms\<close>

definition line_placed :: "(bytes \<Rightarrow> Record option) \<Rightarrow> string \<Rightarrow> string \<Rightarrow> Line \<Rightarrow> bool" where
  "line_placed decoded p t l \<longleftrightarrow> Line_Verify l = None
     \<and> (case decoded (l_Record l) of None \<Rightarrow> False | Some r \<Rightarrow> r_Profile r = p \<and> (r_TenantId r = [] \<or> r_TenantId r = t))"

definition conforms :: "(bytes \<Rightarrow> string + bytes) \<Rightarrow> (bytes \<Rightarrow> Record option) \<Rightarrow> memory \<Rightarrow> string \<Rightarrow> string \<Rightarrow> string \<Rightarrow> bool" where
  "conforms decompress decoded m p t key \<longleftrightarrow>
     (\<exists>parsed x ls. ParseRecordKey key = Some parsed \<and> ro_Profile parsed = p \<and> ro_Tenant parsed = t \<and> mem_objects m key = Some x
        \<and> Decode decompress (o_Body x) = Inr ls \<and> CheckMetadata (o_Metadata x) (o_Body x) (length ls) = [] \<and> list_all (line_placed decoded p t) ls)"

lemma bad_findings [simp]: "rs_Findings (bad key rule res) \<noteq> []" "rs_Catalogues (bad key rule res) = rs_Catalogues res"
  "rs_Records (bad key rule res) = rs_Records res" "rs_Entry (bad key rule res) = rs_Entry res"
  by (simp_all add: bad_def)

lemma check_line_clean:
  "rs_Findings (check_line decoded key parsed l res) = [] \<longleftrightarrow> rs_Findings res = [] \<and> line_placed decoded (ro_Profile parsed) (ro_Tenant parsed) l"
  by (auto simp: check_line_def line_placed_def Let_def split: option.split)

lemma check_lines_clean:
  "rs_Findings (fold (check_line decoded key parsed) ls res) = []
   \<longleftrightarrow> rs_Findings res = [] \<and> list_all (line_placed decoded (ro_Profile parsed) (ro_Tenant parsed)) ls"
  by (induction ls arbitrary: res) (auto simp: check_line_clean)

lemma check_line_keeps [simp]: "rs_Records (check_line decoded key parsed l res) = rs_Records res" "rs_Entry (check_line decoded key parsed l res) = rs_Entry res"
  by (simp_all add: check_line_def Let_def split: option.split)

lemma check_lines_keep [simp]:
  "rs_Records (fold (check_line decoded key parsed) ls res) = rs_Records res" "rs_Entry (fold (check_line decoded key parsed) ls res) = rs_Entry res"
  by (induction ls arbitrary: res) simp_all

lemma SHA256_nonempty: "SHA256 b \<noteq> []"
proof -
  have "length (SHA256 b) = 64" by (simp add: SHA256_def Hash_def)
  then show ?thesis by auto
qed

lemma itoa_nonempty: "itoa n \<noteq> []" using itoa_map [of n] by auto

lemma check_metadata_clean:
  "rs_Findings (check_metadata key meta body n res) = [] \<longleftrightarrow> rs_Findings res = [] \<and> CheckMetadata meta body n = []"
  using SHA256_nonempty [of body] itoa_nonempty [of n] by (auto simp: check_metadata_def CheckMetadata_def Let_def)

lemma check_metadata_keeps [simp]: "rs_Records (check_metadata key meta body n res) = rs_Records res" "rs_Entry (check_metadata key meta body n res) = rs_Entry res"
  "rs_Catalogues (check_metadata key meta body n res) = rs_Catalogues res"
  by (simp_all add: check_metadata_def Let_def)

lemma mem_read:
  "mem_objects m key = None \<Longrightarrow> mem_Head m key = Inl (ErrNotFound key)"
  "mem_objects m key = Some x \<Longrightarrow> \<exists>e. mem_Head m key = Inr e \<and> e_Metadata e = Some (o_Metadata x) \<and> e_Key e = key"
  "mem_objects m key = Some x \<Longrightarrow> body_at m key = Inr (o_Body x)"
  by (auto simp: mem_objects_def mem_Head_def body_at_def mem_Get_def)

lemma CheckObject_conforms:
  assumes "p \<noteq> []" "t \<noteq> []"
  shows "rs_Findings (CheckObject (mem_Head m) (body_at m) decompress decoded key p t) = [] \<longleftrightarrow> conforms decompress decoded m p t key"
proof (cases "ParseRecordKey key")
  case (Some parsed)
  show ?thesis
  proof (cases "mem_objects m key")
    case None
    then show ?thesis using mem_read(1) [OF None] Some by (simp add: CheckObject_def conforms_def)
  next
    case (Some x)
    from mem_read(2) [OF this] obtain e where e: "mem_Head m key = Inr e" "e_Metadata e = Some (o_Metadata x)" by blast
    show ?thesis using assms e Some mem_read(3) [OF Some] \<open>ParseRecordKey key = Some parsed\<close>
      by (auto simp: CheckObject_def conforms_def Let_def metadata_of_def check_lines_clean check_metadata_clean no_result_def split: sum.split)
  qed
qed (simp add: CheckObject_def conforms_def)

text \<open>The catalogues that the records of an object name.\<close>

definition catalogue_of :: "Record \<Rightarrow> string" where
  "catalogue_of r = r_Source r @ ''@'' @ r_CatalogueVersion r"

definition named_by :: "(bytes \<Rightarrow> string + bytes) \<Rightarrow> (bytes \<Rightarrow> Record option) \<Rightarrow> memory \<Rightarrow> string \<Rightarrow> string set" where
  "named_by decompress decoded m key = (\<Union>l \<in> set (lines_at decompress (body_at m) key). catalogue_of ` set_option (decoded (l_Record l)))"

lemma check_lines_name:
  "list_all (line_placed decoded (ro_Profile parsed) (ro_Tenant parsed)) ls \<Longrightarrow>
   set (rs_Catalogues (fold (check_line decoded key parsed) ls res)) = set (rs_Catalogues res) \<union> (\<Union>l \<in> set ls. catalogue_of ` set_option (decoded (l_Record l)))"
  by (induction ls arbitrary: res) (auto simp: check_line_def line_placed_def catalogue_of_def Let_def split: option.splits)

lemma CheckObject_names:
  assumes "conforms decompress decoded m p t key"
  shows "set (rs_Catalogues (CheckObject (mem_Head m) (body_at m) decompress decoded key p t)) = named_by decompress decoded m key"
proof -
  from assms obtain parsed x ls where *: "ParseRecordKey key = Some parsed" "ro_Profile parsed = p" "ro_Tenant parsed = t" "mem_objects m key = Some x"
    "Decode decompress (o_Body x) = Inr ls" "list_all (line_placed decoded p t) ls"
    by (auto simp: conforms_def)
  from mem_read(2) [OF *(4)] obtain e where "mem_Head m key = Inr e" by blast
  with * mem_read(3) [OF *(4)] check_lines_name [of decoded parsed ls] show ?thesis
    by (simp add: CheckObject_def named_by_def lines_at_def Let_def no_result_def)
qed

section \<open>A bucket that conforms\<close>

definition ulid_of :: "entry \<Rightarrow> string" where
  "ulid_of e = (case ParseRecordKey (e_Key e) of Some parsed \<Rightarrow> ro_ULID parsed | None \<Rightarrow> [])"

abbreviation clean :: "bucket_check \<Rightarrow> bool" where
  "clean c \<equiv> rp_Findings (ck_report c) = []"

definition seen_ulids :: "bucket_check \<Rightarrow> string set" where
  "seen_ulids c = fst ` set (ck_seen c)"

definition wanted_names :: "bucket_check \<Rightarrow> string set" where
  "wanted_names c = fst ` set (ck_wanted c)"

lemma finds_simps [simp]: "clean (finds fs c) \<longleftrightarrow> fs = [] \<and> clean c" "ck_seen (finds fs c) = ck_seen c" "ck_wanted (finds fs c) = ck_wanted c"
  "ck_previous (finds fs c) = ck_previous c"
  by (auto simp: finds_def)

lemma visited_once:
  assumes "ParseRecordKey (e_Key e) = Some parsed"
  obtains c' where "check_visited check_one skew p t e c = (None, c')" "ck_previous c' = e_Key e"
    "seen_ulids c' = insert (ulid_of e) (seen_ulids c)" "wanted_names c' = set (rs_Catalogues (check_one (e_Key e) p t)) \<union> wanted_names c"
    "clean c' \<longleftrightarrow> clean c \<and> (ck_previous c = [] \<or> ck_previous c < e_Key e) \<and> rs_Findings (check_one (e_Key e) p t) = []
       \<and> ulid_of e \<notin> seen_ulids c \<and> \<not> skewed skew (ulid_of e) (check_one (e_Key e) p t)"
proof
  let ?c' = "snd (check_visited check_one skew p t e c)"
  show "check_visited check_one skew p t e c = (None, ?c')" "ck_previous ?c' = e_Key e"
    by (simp_all add: check_visited_def Let_def assms)
  show "seen_ulids ?c' = insert (ulid_of e) (seen_ulids c)" "wanted_names ?c' = set (rs_Catalogues (check_one (e_Key e) p t)) \<union> wanted_names c"
    by (simp_all add: check_visited_def Let_def assms ulid_of_def seen_ulids_def wanted_names_def image_Un image_image)
  show "clean ?c' \<longleftrightarrow> clean c \<and> (ck_previous c = [] \<or> ck_previous c < e_Key e) \<and> rs_Findings (check_one (e_Key e) p t) = []
       \<and> ulid_of e \<notin> seen_ulids c \<and> \<not> skewed skew (ulid_of e) (check_one (e_Key e) p t)"
    by (auto simp: check_visited_def Let_def assms ulid_of_def seen_ulids_def map_of_eq_None_iff not_less)
qed

definition entry_ok :: "(string \<Rightarrow> string \<Rightarrow> string \<Rightarrow> ObjectResult) \<Rightarrow> int \<Rightarrow> string \<Rightarrow> string \<Rightarrow> entry \<Rightarrow> bool" where
  "entry_ok check_one skew p t e \<longleftrightarrow> rs_Findings (check_one (e_Key e) p t) = [] \<and> \<not> skewed skew (ulid_of e) (check_one (e_Key e) p t)"

text \<open>What a walk leaves: whether it is clean, the ULIDs seen and the catalogues named, for entries in the order of their keys.\<close>

definition walked_to :: "(string \<Rightarrow> string \<Rightarrow> string \<Rightarrow> ObjectResult) \<Rightarrow> int \<Rightarrow> (string \<times> string \<times> entry) list \<Rightarrow> bucket_check \<Rightarrow> bucket_check \<Rightarrow> bool" where
  "walked_to check_one skew vs c c' \<longleftrightarrow>
     seen_ulids c' = (\<lambda>(p, t, e). ulid_of e) ` set vs \<union> seen_ulids c
     \<and> wanted_names c' = (\<Union>(p, t, e) \<in> set vs. set (rs_Catalogues (check_one (e_Key e) p t))) \<union> wanted_names c
     \<and> (clean c' \<longleftrightarrow> clean c \<and> list_all (\<lambda>(p, t, e). entry_ok check_one skew p t e) vs \<and> distinct (map (\<lambda>(p, t, e). ulid_of e) vs)
          \<and> (\<lambda>(p, t, e). ulid_of e) ` set vs \<inter> seen_ulids c = {})"

lemma walked_nothing: "walked_to check_one skew [] c (c\<lparr>ck_previous := k\<rparr>)" "walked_to check_one skew [] c c"
  by (simp_all add: walked_to_def seen_ulids_def wanted_names_def)

lemma walked_on:
  assumes "walked_to check_one skew vs c c'" "walked_to check_one skew ws c' c''"
  shows "walked_to check_one skew (vs @ ws) c c''"
proof -
  let ?u = "\<lambda>(p :: string, t :: string, e). ulid_of e"
  note a = assms(1) [unfolded walked_to_def] and b = assms(2) [unfolded walked_to_def]
  have "clean c'' \<longleftrightarrow> clean c \<and> list_all (\<lambda>(p, t, e). entry_ok check_one skew p t e) (vs @ ws) \<and> distinct (map ?u (vs @ ws)) \<and> ?u ` set (vs @ ws) \<inter> seen_ulids c = {}"
    unfolding b [THEN conjunct2, THEN conjunct2] a [THEN conjunct2, THEN conjunct2] a [THEN conjunct1]
    by (simp add: image_Un Int_Un_distrib Int_Un_distrib2 Int_commute) blast
  then show ?thesis unfolding walked_to_def using a b by (simp add: image_Un Un_ac)
qed

lemma each_walked:
  assumes "list_all (\<lambda>e. ParseRecordKey (e_Key e) \<noteq> None) es" "sorted_wrt (\<lambda>e e'. e_Key e < e_Key e') es"
    and "es \<noteq> [] \<Longrightarrow> ck_previous c = [] \<or> ck_previous c < e_Key (hd es)"
  shows "\<exists>c'. each (check_visited check_one skew p t) es c = (None, c') \<and> walked_to check_one skew (map (\<lambda>e. (p, t, e)) es) c c'"
  using assms
proof (induction es arbitrary: c)
  case (Cons e es)
  from Cons.prems(1) obtain parsed where "ParseRecordKey (e_Key e) = Some parsed" by auto
  then obtain c1 where c1: "check_visited check_one skew p t e c = (None, c1)" "ck_previous c1 = e_Key e"
    "seen_ulids c1 = insert (ulid_of e) (seen_ulids c)" "wanted_names c1 = set (rs_Catalogues (check_one (e_Key e) p t)) \<union> wanted_names c"
    "clean c1 \<longleftrightarrow> clean c \<and> (ck_previous c = [] \<or> ck_previous c < e_Key e) \<and> rs_Findings (check_one (e_Key e) p t) = []
       \<and> ulid_of e \<notin> seen_ulids c \<and> \<not> skewed skew (ulid_of e) (check_one (e_Key e) p t)"
    by (rule visited_once)
  have one: "walked_to check_one skew [(p, t, e)] c c1" using c1 Cons.prems(3) by (auto simp: walked_to_def entry_ok_def)
  have "\<exists>c'. each (check_visited check_one skew p t) es c1 = (None, c') \<and> walked_to check_one skew (map (\<lambda>e. (p, t, e)) es) c1 c'"
    using Cons.prems c1(2) by (intro Cons.IH) (auto simp: neq_Nil_conv)
  then show ?case using walked_on [OF one] c1(1) by fastforce
qed (simp add: walked_nothing)

lemma walk_tenants_walked:
  assumes "\<And>t c. t \<in> set ts \<Longrightarrow> \<exists>c'. walk t c = Some (None, c') \<and> walked_to check_one skew (vs t) c c'"
  shows "\<exists>c'. walk_tenants walk ts c = Some (None, c') \<and> walked_to check_one skew (concat (map vs ts)) c c'"
  using assms
proof (induction ts arbitrary: c)
  case (Cons t ts)
  from Cons.prems [of t c] obtain c1 where c1: "walk t c = Some (None, c1)" "walked_to check_one skew (vs t) c c1" by auto
  from Cons.IH [of c1] Cons.prems obtain c' where "walk_tenants walk ts c1 = Some (None, c')" "walked_to check_one skew (concat (map vs ts)) c1 c'" by auto
  with c1 walked_on show ?case by fastforce
qed (simp add: walked_nothing)

subsection \<open>Catalogues\<close>

definition catalogue_name :: "string \<Rightarrow> bool" where
  "catalogue_name key \<longleftrightarrow> (let parts = Split (CHR ''/'') (TrimPrefix key CataloguePrefix) in length parts = 2 \<and> parts ! 0 \<noteq> [] \<and> parts ! 1 \<noteq> [])"

definition catalogue_good :: "(string \<Rightarrow> store_error + bytes) \<Rightarrow> string \<Rightarrow> bool" where
  "catalogue_good get key \<longleftrightarrow> catalogue_name key \<and> (case get key of Inl err \<Rightarrow> False | Inr body \<Rightarrow> body \<noteq> [])"

lemma check_catalogues_step:
  "\<exists>fs. (fs = [] \<longleftrightarrow> catalogue_good get (e_Key e)) \<and> check_catalogues get (e # es) r held =
     check_catalogues get es (r\<lparr>rp_Catalogues := Suc (rp_Catalogues r), rp_Findings := rp_Findings r @ fs\<rparr>)
       (if catalogue_good get (e_Key e) then e_Key e # held else held)"
proof (cases "catalogue_good get (e_Key e)")
  case True
  then show ?thesis by (auto simp: catalogue_good_def catalogue_name_def Let_def split: sum.splits)
next
  case False
  then obtain rule where "check_catalogues get (e # es) r held =
      check_catalogues get es (r\<lparr>rp_Catalogues := Suc (rp_Catalogues r), rp_Findings := rp_Findings r @ [broken rule (e_Key e)]\<rparr>) held"
    unfolding catalogue_good_def catalogue_name_def by (fastforce simp: Let_def split: sum.splits if_splits)
  with False show ?thesis by (intro exI [of _ "[broken rule (e_Key e)]"]) simp
qed

lemma check_catalogues_finds:
  "(rp_Findings (fst (check_catalogues get es r held)) = [] \<longleftrightarrow> rp_Findings r = [] \<and> list_all (\<lambda>e. catalogue_good get (e_Key e)) es)
   \<and> set (snd (check_catalogues get es r held)) = set held \<union> e_Key ` {e \<in> set es. catalogue_good get (e_Key e)}"
proof (induction es arbitrary: r held)
  case (Cons e es)
  from check_catalogues_step [of get e es r held] obtain fs where fs: "fs = [] \<longleftrightarrow> catalogue_good get (e_Key e)"
    and eq: "check_catalogues get (e # es) r held =
     check_catalogues get es (r\<lparr>rp_Catalogues := Suc (rp_Catalogues r), rp_Findings := rp_Findings r @ fs\<rparr>)
       (if catalogue_good get (e_Key e) then e_Key e # held else held)" by blast
  have "{x \<in> set (e # es). catalogue_good get (e_Key x)}
      = (if catalogue_good get (e_Key e) then insert e {x \<in> set es. catalogue_good get (e_Key x)} else {x \<in> set es. catalogue_good get (e_Key x)})" by auto
  then show ?case unfolding eq Cons.IH [THEN conjunct1] Cons.IH [THEN conjunct2] using fs by auto
qed simp

lemma missing_none:
  "missing_catalogues held wanted = [] \<longleftrightarrow> (\<forall>c \<in> fst ` set wanted. CatalogueKey (fst (cut_version c)) (snd (cut_version c)) \<in> set held)"
proof -
  let ?f = "\<lambda>c. let (source, version) = cut_version c in if CatalogueKey source version \<in> set held then None else map_option (broken RuleCatalogue) (map_of wanted c)"
  have f: "?f c = None \<longleftrightarrow> CatalogueKey (fst (cut_version c)) (snd (cut_version c)) \<in> set held" if "c \<in> fst ` set wanted" for c
  proof -
    have "map_of wanted c \<noteq> None" using that by (simp add: map_of_eq_None_iff)
    then show ?thesis by (cases "cut_version c") auto
  qed
  have "List.map_filter g xs = [] \<longleftrightarrow> (\<forall>x \<in> set xs. g x = None)" for g :: "string \<Rightarrow> Finding option" and xs
    by (auto simp: map_filter_def filter_empty_conv)
  then have "missing_catalogues held wanted = [] \<longleftrightarrow> (\<forall>c \<in> fst ` set wanted. ?f c = None)" unfolding missing_catalogues_def by simp
  also have "\<dots> \<longleftrightarrow> (\<forall>c \<in> fst ` set wanted. CatalogueKey (fst (cut_version c)) (snd (cut_version c)) \<in> set held)" by (rule ball_cong) (use f in auto)
  finally show ?thesis .
qed

subsection \<open>The walk\<close>

definition tenants_of :: "memory \<Rightarrow> string \<Rightarrow> string list" where
  "tenants_of m p = (case Tenants (mem_Prefixes m) p of Inr ts \<Rightarrow> ts | Inl err \<Rightarrow> [])"

definition profiles_of :: "memory \<Rightarrow> ContractOptions \<Rightarrow> string list" where
  "profiles_of m opts = (if co_Profiles opts = [] then (case Profiles (mem_Prefixes m) of Inr ps \<Rightarrow> ps | Inl err \<Rightarrow> []) else co_Profiles opts)"

definition range_from :: "ContractOptions \<Rightarrow> time" where
  "range_from opts = (if co_From opts = zero_time then Date 1970 1 1 0 0 else co_From opts)"

definition range_to :: "ContractOptions \<Rightarrow> time" where
  "range_to opts = (if co_To opts = zero_time then Date 9000 1 1 0 0 else co_To opts)"

text \<open>The objects of the bucket in the range, by profile and tenant.\<close>

definition held_of :: "memory \<Rightarrow> ContractOptions \<Rightarrow> string \<Rightarrow> string \<Rightarrow> (string \<times> string \<times> entry) list" where
  "held_of m opts p t = map (\<lambda>e. (p, t, e)) (filter (\<lambda>e. in_hours p t (range_from opts) (range_to opts) (e_Key e)) (mem_entries m))"

definition bucket_entries :: "memory \<Rightarrow> ContractOptions \<Rightarrow> (string \<times> string \<times> entry) list" where
  "bucket_entries m opts = concat (map (\<lambda>p. concat (map (held_of m opts p) (tenants_of m p))) (profiles_of m opts))"

text \<open>A bucket whose profiles and tenants can be walked, over years that are written with four digits.\<close>

definition walkable :: "memory \<Rightarrow> ContractOptions \<Rightarrow> bool" where
  "walkable m opts \<longleftrightarrow> mem_invar m \<and> 0 \<le> Year (range_from opts) \<and> Year (range_to opts + hour_ns) \<le> 9999
     \<and> list_all (\<lambda>p. KeyComponent p = [] \<and> list_all (\<lambda>t. KeyComponent t = []
          \<and> list_all (\<lambda>e. HasPrefix (e_Key e) (TenantPrefix p t) \<longrightarrow> ParseRecordKey (e_Key e) \<noteq> None) (mem_entries m)) (tenants_of m p)) (profiles_of m opts)"

definition off_clock :: "int \<Rightarrow> entry \<Rightarrow> bool" where
  "off_clock skew e \<longleftrightarrow> skew > 0 \<and> e_Modified e \<noteq> zero_time
     \<and> (time_Sub (e_Modified e) (ulid_time (ulid_of e)) > skew \<or> time_Sub (e_Modified e) (ulid_time (ulid_of e)) < - skew)"

definition bucket_conforms :: "(bytes \<Rightarrow> string + bytes) \<Rightarrow> (bytes \<Rightarrow> Record option) \<Rightarrow> memory \<Rightarrow> ContractOptions \<Rightarrow> bool" where
  "bucket_conforms decompress decoded m opts \<longleftrightarrow>
     (\<forall>(p, t, e) \<in> set (bucket_entries m opts). conforms decompress decoded m p t (e_Key e) \<and> \<not> off_clock (co_Skew opts) e
        \<and> (\<forall>c \<in> named_by decompress decoded m (e_Key e). mem_objects m (CatalogueKey (fst (cut_version c)) (snd (cut_version c))) \<noteq> None))
     \<and> distinct (map (\<lambda>(p, t, e). ulid_of e) (bucket_entries m opts))
     \<and> (\<forall>e \<in> set (mem_entries m). HasPrefix (e_Key e) CataloguePrefix \<longrightarrow> catalogue_good (body_at m) (e_Key e))"

lemma entries_sorted: "mem_invar m \<Longrightarrow> sorted_wrt (\<lambda>e e'. e_Key e < e_Key e') (mem_entries m)"
  by (simp add: mem_entries_def sorted_wrt_map mem_invar_def strict_sorted_iff)

lemma KeyComponent_nonempty: "KeyComponent p = [] \<Longrightarrow> p \<noteq> []"
  by (auto simp: KeyComponent_def)

lemma entry_ok_conforms:
  assumes "e \<in> set (mem_entries m)" "p \<noteq> []" "t \<noteq> []"
  shows "entry_ok (CheckObject (mem_Head m) (body_at m) decompress decoded) skew p t e \<longleftrightarrow> conforms decompress decoded m p t (e_Key e) \<and> \<not> off_clock skew e"
proof -
  let ?res = "CheckObject (mem_Head m) (body_at m) decompress decoded (e_Key e) p t"
  have "skewed skew (ulid_of e) ?res \<longleftrightarrow> off_clock skew e" if "conforms decompress decoded m p t (e_Key e)"
  proof -
    from that obtain parsed x ls where x: "ParseRecordKey (e_Key e) = Some parsed" "ro_Profile parsed = p" "ro_Tenant parsed = t" "mem_objects m (e_Key e) = Some x"
      "Decode decompress (o_Body x) = Inr ls" by (auto simp: conforms_def)
    then obtain tm where tm: "map_of (m_objects m) (e_Key e) = Some (x, tm)" by (auto simp: mem_objects_def)
    then have "\<exists>h. rs_Entry ?res = Some h \<and> e_Modified h = tm" using x mem_read(3) [OF x(4)] by (auto simp: CheckObject_def mem_Head_def Let_def)
    moreover have "e = mem_entry m (e_Key e)" using assms(1) by (auto simp: mem_entries_def)
    moreover have "e_Modified (mem_entry m (e_Key e)) = tm" using tm by (simp add: mem_entry_def)
    ultimately show ?thesis unfolding skewed_def off_clock_def by auto
  qed
  then show ?thesis using CheckObject_conforms [OF assms(2,3)] unfolding entry_ok_def by blast
qed

lemma mem_lists [simp]: "Tenants (mem_Prefixes m) p = Inr (tenants_of m p)"
  by (simp add: tenants_of_def Tenants_def mem_Prefixes_def Let_def)

lemma mem_profiles: "(if co_Profiles opts = [] then Profiles (mem_Prefixes m) else Inr (co_Profiles opts)) = Inr (profiles_of m opts)"
  by (simp add: profiles_of_def Profiles_def mem_Prefixes_def Let_def)

lemma tenant_walked:
  assumes "walkable m opts" "p \<in> set (profiles_of m opts)" "t \<in> set (tenants_of m p)"
  shows "\<exists>c'. WalkHours (mem_List m) p t (range_from opts) (range_to opts) [] (check_visited check_one skew p t) (c\<lparr>ck_previous := []\<rparr>) = Some (None, c')
    \<and> walked_to check_one skew (held_of m opts p t) c c'"
proof -
  have inv: "mem_invar m" and comp: "KeyComponent p = []" "KeyComponent t = []"
    and keys: "e \<in> set (mem_entries m) \<Longrightarrow> HasPrefix (e_Key e) (TenantPrefix p t) \<Longrightarrow> ParseRecordKey (e_Key e) \<noteq> None" for e
    using assms by (auto simp: walkable_def list_all_iff)
  let ?es = "filter (\<lambda>e. in_hours p t (range_from opts) (range_to opts) (e_Key e)) (mem_entries m)"
  have es: "filter (\<lambda>e. in_hours p t (range_from opts) (range_to opts) (e_Key e) \<and> [] < e_Key e) (mem_entries m) = ?es"
    using stored_entry(1) [OF inv] by (intro filter_cong) (auto simp: order_less_le eq_commute [of "[]"])
  have "list_all (\<lambda>e. ParseRecordKey (e_Key e) \<noteq> None) ?es" by (auto simp: list_all_iff in_hours_def split: option.splits)
  moreover have "sorted_wrt (\<lambda>e e'. e_Key e < e_Key e') ?es" using entries_sorted [OF inv] by (rule sorted_wrt_filter)
  ultimately obtain c' where c': "each (check_visited check_one skew p t) ?es (c\<lparr>ck_previous := []\<rparr>) = (None, c')"
    "walked_to check_one skew (held_of m opts p t) (c\<lparr>ck_previous := []\<rparr>) c'"
    using each_walked [of ?es "c\<lparr>ck_previous := []\<rparr>" check_one skew p t] by (auto simp: held_of_def)
  have "WalkHours (mem_List m) p t (range_from opts) (range_to opts) [] (check_visited check_one skew p t) (c\<lparr>ck_previous := []\<rparr>) = Some (None, c')"
    using assms(1) by (subst mem.WalkHours_eq [OF inv comp keys]) (simp_all add: walkable_def es c'(1))
  with walked_on [OF walked_nothing(1) c'(2)] show ?thesis by simp
qed

lemma bucket_walked:
  assumes "walkable m opts"
  shows "\<exists>c'. walk_tenants (\<lambda>p c. case Tenants (mem_Prefixes m) p of Inl err \<Rightarrow> Some (Some (Inl err), c) | Inr tenants \<Rightarrow>
      walk_tenants (\<lambda>t c. WalkHours (mem_List m) p t (range_from opts) (range_to opts) [] (check_visited check_one skew p t) (c\<lparr>ck_previous := []\<rparr>)) tenants c)
    (profiles_of m opts) c = Some (None, c') \<and> walked_to check_one skew (bucket_entries m opts) c c'"
  unfolding bucket_entries_def mem_lists sum.case
  by (intro walk_tenants_walked) (use tenant_walked [OF assms] in blast)

lemma held_keys: "e_Key ` {e \<in> set (mem_entries m). P (e_Key e)} = {k. mem_objects m k \<noteq> None \<and> P k}"
  by (force simp: mem_entries_def mem_objects_def map_of_eq_None_iff image_iff)

lemma bucket_entry:
  assumes "(p, t, e) \<in> set (bucket_entries m opts)" "walkable m opts"
  shows "e \<in> set (mem_entries m)" "p \<noteq> []" "t \<noteq> []"
  using assms by (auto simp: bucket_entries_def held_of_def walkable_def list_all_iff dest!: KeyComponent_nonempty)

lemma catalogue_listing:
  assumes "mem_invar m"
  obtains es where "mem_List m CataloguePrefix [] 0 = Inr es" "set es = {e \<in> set (mem_entries m). HasPrefix (e_Key e) CataloguePrefix}"
  using that [of "page_of (mem_entries m) CataloguePrefix [] 0"] stored_entry(1) [OF assms]
  by (auto simp: mem_list_ok page_of_def order_less_le eq_commute [of "[]"])

lemma CatalogueKey_prefix: "HasPrefix (CatalogueKey a v) CataloguePrefix"
  by (simp add: CatalogueKey_def HasPrefix_def)

lemma held_good:
  assumes "list_all (\<lambda>e. catalogue_good (body_at m) (e_Key e)) es" "set es = {e \<in> set (mem_entries m). HasPrefix (e_Key e) CataloguePrefix}"
  shows "CatalogueKey a v \<in> e_Key ` {e \<in> set es. catalogue_good (body_at m) (e_Key e)} \<longleftrightarrow> mem_objects m (CatalogueKey a v) \<noteq> None"
proof -
  have "{e \<in> set es. catalogue_good (body_at m) (e_Key e)} = {e \<in> set (mem_entries m). HasPrefix (e_Key e) CataloguePrefix}"
    using assms by (auto simp: list_all_iff)
  then show ?thesis using held_keys [of m "\<lambda>k. HasPrefix k CataloguePrefix"] CatalogueKey_prefix by simp
qed

lemma walked_conforms:
  assumes "walkable m opts" "walked_to (CheckObject (mem_Head m) (body_at m) decompress decoded) (co_Skew opts) (bucket_entries m opts) c c'"
    and "clean c" "seen_ulids c = {}" "wanted_names c = {}"
  shows "clean c' \<longleftrightarrow> (\<forall>(p, t, e) \<in> set (bucket_entries m opts). conforms decompress decoded m p t (e_Key e) \<and> \<not> off_clock (co_Skew opts) e)
      \<and> distinct (map (\<lambda>(p, t, e). ulid_of e) (bucket_entries m opts))"
    and "clean c' \<Longrightarrow> wanted_names c' = (\<Union>(p, t, e) \<in> set (bucket_entries m opts). named_by decompress decoded m (e_Key e))"
proof -
  let ?check = "CheckObject (mem_Head m) (body_at m) decompress decoded"
  have ok: "entry_ok ?check (co_Skew opts) p t e \<longleftrightarrow> conforms decompress decoded m p t (e_Key e) \<and> \<not> off_clock (co_Skew opts) e"
    if "(p, t, e) \<in> set (bucket_entries m opts)" for p t e by (rule entry_ok_conforms [OF bucket_entry [OF that assms(1)]])
  then have "list_all (\<lambda>(p, t, e). entry_ok ?check (co_Skew opts) p t e) (bucket_entries m opts)
      \<longleftrightarrow> (\<forall>(p, t, e) \<in> set (bucket_entries m opts). conforms decompress decoded m p t (e_Key e) \<and> \<not> off_clock (co_Skew opts) e)"
    unfolding list_all_iff by (intro ball_cong) auto
  then show iff: "clean c' \<longleftrightarrow> (\<forall>(p, t, e) \<in> set (bucket_entries m opts). conforms decompress decoded m p t (e_Key e) \<and> \<not> off_clock (co_Skew opts) e)
      \<and> distinct (map (\<lambda>(p, t, e). ulid_of e) (bucket_entries m opts))"
    using assms(2-4) unfolding walked_to_def by simp
  assume "clean c'"
  then have "set (rs_Catalogues (?check (e_Key e) p t)) = named_by decompress decoded m (e_Key e)" if "(p, t, e) \<in> set (bucket_entries m opts)" for p t e
    using iff that by (intro CheckObject_names) auto
  then have "(\<Union>(p, t, e) \<in> set (bucket_entries m opts). set (rs_Catalogues (?check (e_Key e) p t)))
      = (\<Union>(p, t, e) \<in> set (bucket_entries m opts). named_by decompress decoded m (e_Key e))" by (intro SUP_cong) auto
  then show "wanted_names c' = (\<Union>(p, t, e) \<in> set (bucket_entries m opts). named_by decompress decoded m (e_Key e))"
    using assms(2,5) unfolding walked_to_def by simp
qed

section \<open>Properties\<close>

text \<open>
  C0: Over a bucket whose record keys are all of the grammar the check always returns a report, and it has no finding exactly when
  every record object of the profiles in the range conforms (it decodes, its metadata and every line's hash are right, and every record is of the
  profile and tenant of its key) and was written near the time of its ULID where that is asked, no two share a ULID,
  every object under \<open>catalogue/\<close> is named as it should be and not empty, and every catalogue a record names is there.
\<close>

theorem contract_check_decides:
  assumes "walkable m opts"
  shows "\<exists>r. Check_bucket (mem_List m) (mem_Prefixes m) (mem_Head m) (body_at m) decompress decoded opts = Some (Inr r)
    \<and> (OK r \<longleftrightarrow> bucket_conforms decompress decoded m opts)"
proof -
  let ?check = "CheckObject (mem_Head m) (body_at m) decompress decoded"
  let ?start = "\<lparr>ck_report = \<lparr>rp_Objects = 0, rp_Records = 0, rp_Catalogues = 0, rp_Findings = []\<rparr>, ck_seen = [], ck_wanted = [], ck_previous = []\<rparr>"
  obtain c where walk: "walk_tenants (\<lambda>p c. case Tenants (mem_Prefixes m) p of Inl err \<Rightarrow> Some (Some (Inl err), c) | Inr tenants \<Rightarrow>
      walk_tenants (\<lambda>t c. WalkHours (mem_List m) p t (range_from opts) (range_to opts) [] (check_visited ?check (co_Skew opts) p t) (c\<lparr>ck_previous := []\<rparr>)) tenants c)
    (profiles_of m opts) ?start = Some (None, c)" and to: "walked_to ?check (co_Skew opts) (bucket_entries m opts) ?start c"
    using bucket_walked [OF assms] by blast
  obtain es where es: "mem_List m CataloguePrefix [] 0 = Inr es" "set es = {e \<in> set (mem_entries m). HasPrefix (e_Key e) CataloguePrefix}"
    using catalogue_listing assms by (auto simp: walkable_def)
  obtain r held where r: "check_catalogues (body_at m) es (ck_report c) [] = (r, held)" by fastforce
  note cat = check_catalogues_finds [of "body_at m" es "ck_report c" "[]", unfolded r fst_conv snd_conv]
  have run: "Check_bucket (mem_List m) (mem_Prefixes m) (mem_Head m) (body_at m) decompress decoded opts
      = Some (Inr (r\<lparr>rp_Findings := rp_Findings r @ missing_catalogues held (ck_wanted c)\<rparr>))"
    unfolding Check_bucket_def Let_def mem_profiles range_from_def [symmetric] range_to_def [symmetric] sum.case walk
    by (simp add: checkCatalogues_def es(1) r)
  have "seen_ulids ?start = {}" "wanted_names ?start = {}" by (simp_all add: seen_ulids_def wanted_names_def)
  note conf = walked_conforms [OF assms to _ this, simplified]
  have "OK (r\<lparr>rp_Findings := rp_Findings r @ missing_catalogues held (ck_wanted c)\<rparr>)
      \<longleftrightarrow> clean c \<and> list_all (\<lambda>e. catalogue_good (body_at m) (e_Key e)) es
          \<and> (\<forall>n \<in> wanted_names c. mem_objects m (CatalogueKey (fst (cut_version n)) (snd (cut_version n))) \<noteq> None)"
    using cat held_good [OF _ es(2)]
    by (cases "list_all (\<lambda>e. catalogue_good (body_at m) (e_Key e)) es") (simp_all add: OK_def missing_none wanted_names_def del: not_None_eq)
  also have "\<dots> \<longleftrightarrow> bucket_conforms decompress decoded m opts"
  proof (cases "clean c")
    case True
    then show ?thesis using conf(1) unfolding bucket_conforms_def list_all_iff conf(2) [OF True] es(2) by blast
  next
    case False
    then show ?thesis using conf(1) unfolding bucket_conforms_def by blast
  qed
  finally show ?thesis using run by blast
qed

text \<open>
  C0: An object that the roller writes conforms: where its lines are those of records in canonical form, each of which reads back as a record
  of the profile and tenant of the batch, and what was compressed is decompressed into what it was, the checker finds nothing wrong with
  the new object and counts its records; every object that conformed before still does.
\<close>

theorem written_objects_conform:
  assumes "roller_put mem_Put compress r key b = (None, r')" "mem_invar (rl_Store r)" "\<not> m_Unlocked (rl_Store r)" "key_refused key = None"
    and "gen_ok (rl_ids r)" "Suc (unat (g_ms (rl_ids r))) < 2 ^ 48"
    and "0 \<le> UnixMilli (rl_Now r (rl_reads r))" "UnixMilli (rl_Now r (rl_reads r)) < 2 ^ 48"
    and lines: "b_lines b = map EncodeLine cs" "cs \<noteq> []" "\<forall>c \<in> set cs. \<exists>v. canonical_record c v"
    and placed: "\<forall>c \<in> set cs. \<exists>rec. decoded c = Some rec \<and> r_Profile rec = fst key \<and> tenantOf rec = snd key"
    and zstd: "decompress (compress (plain_of (map EncodeLine cs))) = Inr (plain_of (map EncodeLine cs))"
  shows "\<exists>tm ident. let k = RecordKey (fst key) (snd key) tm ident; res = CheckObject (mem_Head (rl_Store r')) (body_at (rl_Store r')) decompress decoded k (fst key) (snd key) in
      mem_objects (rl_Store r) k = None \<and> (written_year tm \<longrightarrow> rs_Findings res = [] \<and> rs_Records res = length cs)
      \<and> (\<forall>p t j. conforms decompress decoded (rl_Store r) p t j \<longrightarrow> conforms decompress decoded (rl_Store r') p t j)"
proof -
  have "b_lines b \<noteq> []" using lines(1,2) by simp
  from put_writes_the_batch [OF assms(1) this assms(2-8)] obtain tm ident x where
    x: "mem_objects (rl_Store r) (RecordKey (fst key) (snd key) tm ident) = None"
    "mem_objects (rl_Store r') = (mem_objects (rl_Store r))(RecordKey (fst key) (snd key) tm ident \<mapsto> x)"
    "o_Body x = compress (plain_of (b_lines b))" "CheckMetadata (o_Metadata x) (o_Body x) (length (b_lines b)) = []"
    "written_year tm \<Longrightarrow> ParseRecordKey (RecordKey (fst key) (snd key) tm ident)
       = Some \<lparr>ro_Profile = fst key, ro_Tenant = snd key, ro_Hour = Truncate_hour tm, ro_ULID = ident\<rparr>"
    by blast
  let ?k = "RecordKey (fst key) (snd key) tm ident"
  let ?ls = "map (\<lambda>c. \<lparr>l_Hash = Hash c, l_Record = c\<rparr>) cs"
  have dec: "Decode decompress (o_Body x) = Inr ?ls" using lines zstd by (intro Decode_encoded) (simp_all add: x(3))
  have at_k: "mem_objects (rl_Store r') ?k = Some x" by (simp add: x(2))
  have ok: "line_placed decoded (fst key) (snd key) l" if "l \<in> set ?ls" for l
  proof -
    from that obtain c where c: "c \<in> set cs" "l = \<lparr>l_Hash = Hash c, l_Record = c\<rparr>" by auto
    have "Line_Verify l = None" using lines(3) c(1) by (auto simp: c(2) Line_Verify_def canonical_record_def)
    with placed c(1) show ?thesis by (auto simp: line_placed_def c(2) tenantOf_def split: if_splits)
  qed
  have comp: "fst key \<noteq> []" "snd key \<noteq> []" using assms(4) KeyComponent_nonempty by (auto simp: key_refused_def split: if_splits)
  have new: "rs_Findings (CheckObject (mem_Head (rl_Store r')) (body_at (rl_Store r')) decompress decoded ?k (fst key) (snd key)) = []"
    if "written_year tm"
    unfolding CheckObject_conforms [OF comp] conforms_def using x(4,5) that dec at_k ok lines(1) by (auto simp: list_all_iff)
  moreover have "rs_Records (CheckObject (mem_Head (rl_Store r')) (body_at (rl_Store r')) decompress decoded ?k (fst key) (snd key)) = length cs"
    if "written_year tm"
    using x(5) [OF that] mem_read(2,3) [OF at_k] dec by (auto simp: CheckObject_def Let_def)
  moreover have "conforms decompress decoded (rl_Store r') p t j" if "conforms decompress decoded (rl_Store r) p t j" for p t j
  proof -
    have "mem_objects (rl_Store r) j \<noteq> None" using that by (auto simp: conforms_def)
    then have "mem_objects (rl_Store r') j = mem_objects (rl_Store r) j" using x(1,2) by auto
    then show ?thesis using that by (simp add: conforms_def)
  qed
  ultimately show ?thesis using x(1) by (intro exI [of _ tm] exI [of _ ident]) (simp add: Let_def)
qed

section \<open>A bucket of one object\<close>

definition example_options :: ContractOptions where
  "example_options = \<lparr>co_Profiles = [], co_From = zero_time, co_To = zero_time, co_Skew = 0\<rparr>"

definition example_decoded :: "bytes \<Rightarrow> Record option" where
  "example_decoded b = Some (empty_record\<lparr>r_Source := ''app'', r_CatalogueVersion := ''1'', r_Profile := ''security'', r_TenantId := ''acme''\<rparr>)"

definition example_bucket :: memory where
  "example_bucket = (NewMemory (\<lambda>n. int n))\<lparr>m_objects := [(''catalogue/app/1'', \<lparr>o_Key = ''catalogue/app/1'', o_Body = ''x'', o_RetainUntil = 5,
     o_ContentType = [], o_Encoding = [], o_Metadata = [], o_LegalHold = False\<rparr>, 0)]\<rparr>"

lemma example_listed: "profiles_of example_bucket example_options = []" "bucket_entries example_bucket example_options = []"
proof -
  have "Profiles (mem_Prefixes example_bucket) = Inr []" by (simp add: example_bucket_def Profiles_def mem_Prefixes_def Let_def map_filter_def CutPrefix_def HasPrefix_def RecordsPrefix_def)
  then show "profiles_of example_bucket example_options = []" by (simp add: profiles_of_def example_options_def)
  then show "bucket_entries example_bucket example_options = []" by (simp add: bucket_entries_def)
qed

theorem contract_check_decides_witness:
  "walkable example_bucket example_options
   \<and> (\<exists>r. Check_bucket (mem_List example_bucket) (mem_Prefixes example_bucket) (mem_Head example_bucket) (body_at example_bucket) Inr example_decoded example_options
        = Some (Inr r) \<and> OK r)"
proof -
  have "0 \<le> Year (range_from example_options)" "Year (range_to example_options + hour_ns) \<le> 9999" by code_simp+
  then have w: "walkable example_bucket example_options"
    by (simp add: walkable_def example_listed) (auto simp: example_bucket_def NewMemory_def mem_invar_def)
  have "bucket_conforms Inr example_decoded example_bucket example_options"
    by (simp add: bucket_conforms_def example_listed)
      (simp add: mem_entries_def example_bucket_def catalogue_good_def catalogue_name_def TrimPrefix_def CutPrefix_def HasPrefix_def CataloguePrefix_def
        body_at_def mem_Get_def Let_def)
  with contract_check_decides [OF w, of Inr example_decoded] w show ?thesis by blast
qed

definition example_written :: batch where
  "example_written = \<lparr>b_profile = example_profile, b_opened = 0, b_bytes = 2, b_lines = [EncodeLine example_canonical], b_retainAt = 9\<rparr>"

theorem written_objects_conform_witness:
  "\<exists>tm ident. mem_objects (rl_Store example_roller) (RecordKey ''security'' ''acme'' tm ident) = None \<and>
     (written_year tm \<longrightarrow> (let m = rl_Store (snd (roller_put mem_Put (\<lambda>x. x) example_roller (''security'', ''acme'') example_written)) in
        rs_Findings (CheckObject (mem_Head m) (body_at m) Inr example_decoded (RecordKey ''security'' ''acme'' tm ident) ''security'' ''acme'') = []))"
proof -
  let ?out = "roller_put mem_Put (\<lambda>x. x) example_roller (''security'', ''acme'') example_written"
  have "fst (New example_generator 5000000) = Inr (encode 5 (replicate 10 9), 5000000)" by code_simp
  then obtain g where g: "New example_generator 5000000 = (Inr (encode 5 (replicate 10 9), 5000000), g)" by (metis prod.collapse)
  have "fst ?out = None"
    by (simp add: roller_put_def example_written_def example_roller_def roller_now_def g mem_Put_def NewMemory_def
        object_of_def Encode_def RecordKey_def HourPrefix_def TenantPrefix_def ProfilePrefix_def RecordsPrefix_def Let_def)
  then obtain r' where r': "?out = (None, r')" by (metis prod.collapse)
  have "canonical_record example_canonical (norm (JObject [(''a'', JArray [JNull, JString ''/'']), (''b'', JNumber ''-0'')]))"
    by (rule canonical_recordI [OF example_canonicalises read_example]) (simp add: maxNestingDepth_def)
  then have c: "\<forall>c \<in> set [example_canonical]. \<exists>v. canonical_record c v" by auto
  have p: "\<forall>c \<in> set [example_canonical]. \<exists>rec. example_decoded c = Some rec \<and> r_Profile rec = fst (''security'', ''acme'') \<and> tenantOf rec = snd (''security'', ''acme'')"
    by (simp add: example_decoded_def tenantOf_def)
  have "\<not> m_Unlocked (rl_Store example_roller)" "key_refused (''security'', ''acme'') = None"
    "gen_ok (rl_ids example_roller)" "Suc (unat (g_ms (rl_ids example_roller))) < 2 ^ 48"
    "0 \<le> UnixMilli (rl_Now example_roller (rl_reads example_roller))" "UnixMilli (rl_Now example_roller (rl_reads example_roller)) < 2 ^ 48"
    "b_lines example_written = map EncodeLine [example_canonical]" "[example_canonical] \<noteq> []"
    by (simp_all add: example_written_def example_roller_def NewMemory_def key_refused_def KeyComponent_def gen_ok_def
        example_generator_def UnixMilli_def)
  note hyps = mem_invar_example this c p
  from written_objects_conform [where decompress = Inr, OF r' hyps refl] show ?thesis unfolding r' snd_conv fst_conv Let_def by blast
qed

section \<open>A key the check does not see\<close>

text \<open>
  A key under a tenant's prefix that sorts past the years is never visited, though no key of the grammar is like it: the walk stops at the
  first key past the range, and only the keys it visits are held to the grammar.
\<close>

definition stray_bucket :: "obj \<Rightarrow> memory" where
  "stray_bucket x = (NewMemory (\<lambda>n. int n))\<lparr>m_objects := [(''records/p/t/x'', x, 0)]\<rparr>"

lemma stray_key_unseen:
  "ParseRecordKey ''records/p/t/x'' = None \<and> HasPrefix ''records/p/t/x'' RecordsPrefix
   \<and> (\<exists>r. Check_bucket (mem_List (stray_bucket x)) (mem_Prefixes (stray_bucket x)) (mem_Head (stray_bucket x)) (body_at (stray_bucket x))
         decompress decoded example_options = Some (Inr r) \<and> OK r \<and> rp_Objects r = 0)"
proof -
  let ?m = "stray_bucket x"
  have parse: "ParseRecordKey ''records/p/t/x'' = None" "HasPrefix ''records/p/t/x'' RecordsPrefix" by code_simp+
  have names: "profiles_of ?m example_options = [''p'']" "tenants_of ?m ''p'' = [''t'']"
    by (simp_all add: profiles_of_def tenants_of_def example_options_def stray_bucket_def Profiles_def Tenants_def mem_Prefixes_def Let_def map_filter_def
        CutPrefix_def HasPrefix_def RecordsPrefix_def ProfilePrefix_def TrimPrefix_def TrimSuffix_def CutSuffix_def HasSuffix_def)
  have "Year (Truncate_hour (Date 9000 1 1 0 0) + hour_ns) = 9000" by code_simp
  moreover have "itoa 9000 = ''9000''" by (simp add: itoa.simps [of 9000] itoa.simps [of 900] itoa.simps [of 90] itoa.simps [of 9] itoa.simps [of 0] digit_def char_of_def bit_Suc_0_iff)
  ultimately have stop: "HourPrefix ''p'' ''t'' (Truncate_hour (Date 9000 1 1 0 0) + hour_ns) \<le> ''records/p/t/x''"
    by (simp add: HourPrefix_def TenantPrefix_def ProfilePrefix_def RecordsPrefix_def Format_hour_def hour_parts_def fmt_int_def zpad_def)
  have range: "Truncate_hour (Date 1970 1 1 0 0) \<le> Truncate_hour (Date 9000 1 1 0 0)" by code_simp
  have walk: "WalkHours (mem_List ?m) ''p'' ''t'' (Date 1970 1 1 0 0) (Date 9000 1 1 0 0) [] fn acc = Some (None, acc)" for fn :: "(unit, bucket_check) visitor" and acc
    using range stop
    by (simp add: WalkHours_def Let_def not_less walk_loop.simps mem_List_def stray_bucket_def pageSize_def)
  have cat: "mem_List ?m CataloguePrefix [] 0 = Inr []" by (simp add: mem_List_def stray_bucket_def HasPrefix_def CataloguePrefix_def)
  show ?thesis using parse
    by (simp add: Check_bucket_def mem_profiles names walk Let_def checkCatalogues_def cat OK_def missing_catalogues_def map_filter_def)
      (simp add: example_options_def walk)
qed

end
