(* ===== verification/Sealcheck.thy ===== *)
theory Sealcheck
  imports Trust Contract
begin

text \<open>
  \<open>internal/bucketcontract/seals.go\<close>: the checker of the seals of a profile. For every tenant with records or seals and every hour
  of a range: whether there is a seal when one is due, whether it is signed by a key to be believed, whether it chains to the seal
  before it, and whether it says what the hour holds now. As for the rest of the contract, findings keep their rule, key and hour.

  Shown: a seal the check calls clean is in the bucket under the key of its hour, names that hour, was made after its end, is
  believed, chains to the seal before, and states the count, the keys and the root of what the hour holds; and an archive
  whose objects conform and whose seal is clean holds the records that were sealed, or two strings collide.
\<close>

section \<open>Rules and reports\<close>

definition RuleSealKey :: string where "RuleSealKey = ''seal.key''"

definition RuleSealJWS :: string where "RuleSealJWS = ''seal.jws''"

definition RuleSealPayload :: string where "RuleSealPayload = ''seal.payload''"

definition RuleSealSignature :: string where "RuleSealSignature = ''seal.signature''"

definition RuleSealChain :: string where "RuleSealChain = ''seal.chain''"

definition RuleSealRoot :: string where "RuleSealRoot = ''seal.root''"

definition RuleSealMissing :: string where "RuleSealMissing = ''seal.missing''"

definition RuleSealLock :: string where "RuleSealLock = ''seal.lock''"

definition RuleKeysRoots :: string where "RuleKeysRoots = ''keys.roots''"

definition RuleKeysStatement :: string where "RuleKeysStatement = ''keys.statement''"

record SealOptions =
  sk_Profile :: string
  sk_Roots :: "string list"
  sk_From :: time
  sk_To :: time
  sk_Now :: time
  sk_Settle :: int
  sk_Grace :: int
  sk_Lock :: string

record SealChecked =
  sc_Key :: string
  sc_Hour :: time
  sc_Head :: entry

record SealReport =
  sr_Seals :: nat
  sr_Hours :: "time list"
  sr_Clean :: "SealChecked list"
  sr_Findings :: "Finding list"

definition empty_seals :: SealReport where
  "empty_seals = \<lparr>sr_Seals = 0, sr_Hours = [], sr_Clean = [], sr_Findings = []\<rparr>"

definition Has_seal :: "SealReport \<Rightarrow> string \<Rightarrow> bool" where
  "Has_seal r rule \<longleftrightarrow> list_ex (\<lambda>f. fi_Rule f = rule) (sr_Findings r)"

definition broken_at :: "time \<Rightarrow> string \<Rightarrow> string \<Rightarrow> Finding" where
  "broken_at hour k rule = \<lparr>fi_Rule = rule, fi_Key = k, fi_Hour = hour\<rparr>"

definition bad_seal :: "time \<Rightarrow> Finding list \<Rightarrow> SealReport \<Rightarrow> SealReport" where
  "bad_seal hour fs r = (if fs = [] then r else r\<lparr>sr_Hours := List.insert hour (sr_Hours r), sr_Findings := sr_Findings r @ fs\<rparr>)"

section \<open>One seal\<close>

text \<open>What the seal says that the hour does not hold.\<close>

definition changed :: "SealedHour \<Rightarrow> Seal \<Rightarrow> bool" where
  "changed now s \<longleftrightarrow> hr_Count now \<noteq> sl_Count s \<or> hr_First now \<noteq> sl_First s \<or> hr_Last now \<noteq> sl_Last s
     \<or> (case map_of (sl_Meters s) ''objects'' of Some n \<Rightarrow> n \<noteq> hr_Objects now | None \<Rightarrow> False)
     \<or> RootHex now \<noteq> sl_Root s"

text \<open>The findings of one seal, given what the hour holds now.\<close>

definition check_one_seal ::
  "ecdsa \<Rightarrow> codec \<Rightarrow> Trust \<Rightarrow> SealOptions \<Rightarrow> ((store_error + compute_error) + SealedHour) option
   \<Rightarrow> string \<Rightarrow> time \<Rightarrow> entry \<Rightarrow> bytes \<Rightarrow> bytes option \<Rightarrow> Finding list option"
where
  "check_one_seal ec cd trust opts computed tenant hour head_entry body prev =
     (let bad = broken_at hour (e_Key head_entry) in
      case ParseSeal cd body of
        Inl err \<Rightarrow> Some [bad (case err of SealPayload _ \<Rightarrow> RuleSealPayload | _ \<Rightarrow> RuleSealJWS)]
      | Inr typed \<Rightarrow>
          (let s = ty_Seal typed;
               names = (if sl_Profile s \<noteq> sk_Profile opts \<or> sl_Tenant s \<noteq> tenant \<or> AsTime_seal (sl_Hour s) \<noteq> hour then [bad RuleSealPayload] else []);
               early = (if AsTime_seal (sl_SealedAt s) < hour + hour_ns then [bad RuleSealPayload] else []);
               trusted = (if Trust_Check ec trust typed (e_Modified head_entry) \<noteq> None then [bad RuleSealSignature] else []);
               chain = (case prev of
                          None \<Rightarrow> if sl_Prev s \<noteq> [] then [bad RuleSealChain] else []
                        | Some b \<Rightarrow> if sl_Prev s \<noteq> Seal_Hash b then [bad RuleSealChain] else []);
               said = names @ early @ trusted @ chain
           in case computed of
                None \<Rightarrow> None
              | Some (Inl err) \<Rightarrow> Some (said @ [bad RuleSealRoot])
              | Some (Inr now) \<Rightarrow>
                  (let root = (if changed now s then [bad RuleSealRoot] else []);
                       lock = (if sk_Lock opts = [] \<or> sk_Lock opts = ''none'' then []
                               else if e_RetainUntil head_entry = zero_time \<or> e_RetainUntil head_entry < hr_Retain now then [bad RuleSealLock] else [])
                   in Some (said @ root @ lock))))"

section \<open>A tenant\<close>

record seal_store =
  ss_List :: lister
  ss_Prefixes :: grouper
  ss_Head :: "string \<Rightarrow> store_error + entry"
  ss_Get :: "string \<Rightarrow> store_error + bytes"
  ss_decompress :: "bytes \<Rightarrow> string + bytes"

definition compute_hour :: "seal_store \<Rightarrow> string \<Rightarrow> string \<Rightarrow> time \<Rightarrow> bool \<Rightarrow> ((store_error + compute_error) + SealedHour) option" where
  "compute_hour s = Compute (ss_List s) (ss_Head s) (ss_Get s) (ss_decompress s)"

text \<open>The loop over the hours from \<open>hour\<close> to \<open>final\<close>; \<open>due\<close> is the last hour whose seal is due, \<open>first\<close> that of the first object.\<close>

function check_hours ::
  "ecdsa \<Rightarrow> codec \<Rightarrow> seal_store \<Rightarrow> Trust \<Rightarrow> SealOptions \<Rightarrow> string \<Rightarrow> (time \<times> entry) list \<Rightarrow> time \<Rightarrow> time \<Rightarrow> time \<Rightarrow> time \<Rightarrow> bytes option
   \<Rightarrow> SealReport \<Rightarrow> SealReport option"
where
  "check_hours ec cd s trust opts tenant found first due final hour prev r =
     (if final < hour then Some r
      else
        let go = check_hours ec cd s trust opts tenant found first due final (hour + hour_ns) in
        case map_of found hour of
          None \<Rightarrow>
            go None (if first \<noteq> zero_time \<and> first \<le> hour \<and> hour \<le> due
                     then bad_seal hour [broken_at hour (SealKey (sk_Profile opts) tenant hour) RuleSealMissing] r else r)
        | Some e \<Rightarrow>
            (case ss_Head s (e_Key e) of
               Inl err \<Rightarrow> go None (bad_seal hour [broken_at hour (e_Key e) RuleSealJWS] r)
             | Inr head_entry \<Rightarrow>
                 (case ss_Get s (e_Key e) of
                    Inl err \<Rightarrow> go None (bad_seal hour [broken_at hour (e_Key e) RuleSealJWS] r)
                  | Inr body \<Rightarrow>
                      (let r = r\<lparr>sr_Seals := Suc (sr_Seals r), sr_Hours := List.insert hour (sr_Hours r)\<rparr> in
                       case check_one_seal ec cd trust opts (compute_hour s (sk_Profile opts) tenant hour False) tenant hour head_entry body prev of
                         None \<Rightarrow> None
                       | Some fs \<Rightarrow>
                           go (Some body) (if fs = [] then r\<lparr>sr_Clean := sr_Clean r @ [\<lparr>sc_Key = e_Key e, sc_Hour = hour, sc_Head = head_entry\<rparr>]\<rparr>
                                           else bad_seal hour fs r)))))"
  by pat_completeness auto

termination
  by (relation "measure (\<lambda>(ec, cd, s, trust, opts, tenant, found, first, due, final, hour, prev, r). nat (final + hour_ns - hour))")
    (auto simp: hour_ns_def)

declare check_hours.simps [simp del]

definition collect_seal :: "(unit, (time \<times> entry) list) visitor" where
  "collect_seal e found = (None, case ParseSealKey (e_Key e) of None \<Rightarrow> found | Some so \<Rightarrow> (so_Hour so, e) # found)"

definition stray_seals :: "entry list \<Rightarrow> Finding list" where
  "stray_seals es = map (\<lambda>e. broken RuleSealKey (e_Key e)) (filter (\<lambda>e. ParseSealKey (e_Key e) = None) es)"

text \<open>The hour of a tenant's first object, and the zero time where there is none.\<close>

definition first_hour :: "entry list \<Rightarrow> time" where
  "first_hour es = (case es of [] \<Rightarrow> zero_time | e # _ \<Rightarrow> (case ParseRecordKey (e_Key e) of None \<Rightarrow> zero_time | Some ob \<Rightarrow> ro_Hour ob))"

definition check_tenant ::
  "ecdsa \<Rightarrow> codec \<Rightarrow> seal_store \<Rightarrow> Trust \<Rightarrow> SealOptions \<Rightarrow> time \<Rightarrow> time \<Rightarrow> time \<Rightarrow> string \<Rightarrow> SealReport \<Rightarrow> (store_error + SealReport) option"
where
  "check_tenant ec cd s trust opts frm final due tenant r =
     (case ss_List s (TenantPrefix (sk_Profile opts) tenant) [] 1 of
        Inl err \<Rightarrow> Some (Inl err)
      | Inr objects \<Rightarrow>
          (let first = first_hour objects in
           case WalkSeals (ss_List s) (sk_Profile opts) tenant frm final collect_seal [] of
             None \<Rightarrow> None
           | Some (Some (Inl err), _) \<Rightarrow> Some (Inl err)
           | Some (_, found) \<Rightarrow>
               (case ss_List s (SealTenantPrefix (sk_Profile opts) tenant) [] 0 of
                  Inl err \<Rightarrow> Some (Inl err)
                | Inr every \<Rightarrow>
                    (let r = r\<lparr>sr_Findings := sr_Findings r @ stray_seals every\<rparr> in
                     if found = [] \<and> first = zero_time then Some (Inr r)
                     else (case ss_Get s (SealKey (sk_Profile opts) tenant (frm - hour_ns)) of
                             Inl (ErrNotFound _) \<Rightarrow> map_option Inr (check_hours ec cd s trust opts tenant found first due final frm None r)
                           | Inl err \<Rightarrow> Some (Inl err)
                           | Inr before \<Rightarrow> map_option Inr (check_hours ec cd s trust opts tenant found first due final frm (Some before) r))))))"

section \<open>A profile\<close>

fun check_tenants :: "(string \<Rightarrow> SealReport \<Rightarrow> (store_error + SealReport) option) \<Rightarrow> string list \<Rightarrow> SealReport \<Rightarrow> (store_error + SealReport) option" where
  "check_tenants one [] r = Some (Inr r)"
| "check_tenants one (t # ts) r =
     (case one t r of
        None \<Rightarrow> None
      | Some (Inl err) \<Rightarrow> Some (Inl err)
      | Some (Inr r) \<Rightarrow> check_tenants one ts r)"

definition seal_tenants :: "grouper \<Rightarrow> string \<Rightarrow> store_error + string list" where
  "seal_tenants grp profile =
     (let names = (\<lambda>pre. map_sum (\<lambda>e. e) (map (\<lambda>p. TrimSuffix (TrimPrefix p pre) ''/'')) (grp pre ''/'')) in
      case names (ProfilePrefix profile) of
        Inl err \<Rightarrow> Inl err
      | Inr a \<Rightarrow> (case names (SealsPrefix @ profile @ ''/'') of Inl err \<Rightarrow> Inl err | Inr b \<Rightarrow> Inr (sort (remdups (a @ b)))))"

datatype seals_failure = NoRootPinned | SealsTrust trust_failure | SealsStore store_error

definition CheckSeals :: "ecdsa \<Rightarrow> codec \<Rightarrow> seal_store \<Rightarrow> SealOptions \<Rightarrow> (seals_failure + SealReport) option" where
  "CheckSeals ec cd s opts =
     (if sk_Roots opts = [] then Some (Inl NoRootPinned)
      else case LoadTrust ec cd (ss_List s) (ss_Get s) (sk_Roots opts) of
             Inl e \<Rightarrow> Some (Inl (SealsTrust e))
           | Inr trust \<Rightarrow>
               (let ignored = map (\<lambda>(k, _). broken (if k = RootsKey then RuleKeysRoots else RuleKeysStatement) k) (tr_Ignored trust) in
                case seal_tenants (ss_Prefixes s) (sk_Profile opts) of
                  Inl err \<Rightarrow> Some (Inl (SealsStore err))
                | Inr names \<Rightarrow>
                    (let due = Truncate_hour (sk_Now opts - sk_Settle opts - sk_Grace opts) - hour_ns
                     in map_option (map_sum SealsStore (\<lambda>r. r))
                          (check_tenants (check_tenant ec cd s trust opts (Truncate_hour (sk_From opts)) (Truncate_hour (sk_To opts)) due) names
                            (empty_seals\<lparr>sr_Findings := ignored\<rparr>)))))"

section \<open>A seal that stands\<close>

definition mem_seals :: "(bytes \<Rightarrow> string + bytes) \<Rightarrow> memory \<Rightarrow> seal_store" where
  "mem_seals decompress m = \<lparr>ss_List = mem_List m, ss_Prefixes = mem_Prefixes m, ss_Head = mem_Head m, ss_Get = body_at m, ss_decompress = decompress\<rparr>"

lemma mem_seals_simps [simp]: "ss_List (mem_seals decompress m) = mem_List m" "ss_Prefixes (mem_seals decompress m) = mem_Prefixes m"
  "ss_Head (mem_seals decompress m) = mem_Head m" "ss_Get (mem_seals decompress m) = body_at m" "ss_decompress (mem_seals decompress m) = decompress"
  by (simp_all add: mem_seals_def)

definition seal_ok :: "ecdsa \<Rightarrow> Trust \<Rightarrow> SealOptions \<Rightarrow> SealedHour \<Rightarrow> string \<Rightarrow> time \<Rightarrow> entry \<Rightarrow> Typed \<Rightarrow> bytes option \<Rightarrow> bool" where
  "seal_ok ec trust opts now tenant hour head_entry typed prev \<longleftrightarrow>
     (let s = ty_Seal typed in
      sl_Profile s = sk_Profile opts \<and> sl_Tenant s = tenant \<and> AsTime_seal (sl_Hour s) = hour \<and> hour + hour_ns \<le> AsTime_seal (sl_SealedAt s)
      \<and> Trust_Check ec trust typed (e_Modified head_entry) = None
      \<and> sl_Prev s = (case prev of None \<Rightarrow> [] | Some b \<Rightarrow> Seal_Hash b)
      \<and> \<not> changed now s
      \<and> (sk_Lock opts \<in> {[], ''none''} \<or> e_RetainUntil head_entry \<noteq> zero_time \<and> hr_Retain now \<le> e_RetainUntil head_entry))"

lemma check_one_clean:
  "\<exists>fs. check_one_seal ec cd trust opts (Some (Inr now)) tenant hour head_entry body prev = Some fs
     \<and> (fs = [] \<longleftrightarrow> (\<exists>typed. ParseSeal cd body = Inr typed \<and> seal_ok ec trust opts now tenant hour head_entry typed prev))"
proof (cases "ParseSeal cd body")
  case (Inr typed)
  then show ?thesis by (cases prev) (auto simp: check_one_seal_def seal_ok_def Let_def not_less not_le)
qed (simp add: check_one_seal_def)

definition body_of :: "memory \<Rightarrow> string \<Rightarrow> bytes option" where
  "body_of m k = map_option o_Body (mem_objects m k)"

definition hour_now :: "(bytes \<Rightarrow> string + bytes) \<Rightarrow> memory \<Rightarrow> string \<Rightarrow> string \<Rightarrow> time \<Rightarrow> SealedHour \<Rightarrow> bool" where
  "hour_now decompress m p t hour now \<longleftrightarrow> Compute (mem_List m) (mem_Head m) (body_at m) decompress p t hour False = Some (Inr now)"

text \<open>
  The seal of an hour is in the bucket and says what is so: the hour, a time after its end, a key that is believed, the seal before it,
  what the hour holds, and it is kept as long as the records.
\<close>

definition seal_stands :: "ecdsa \<Rightarrow> codec \<Rightarrow> (bytes \<Rightarrow> string + bytes) \<Rightarrow> memory \<Rightarrow> Trust \<Rightarrow> SealOptions \<Rightarrow> string \<Rightarrow> time \<Rightarrow> bool" where
  "seal_stands ec cd decompress m trust opts tenant hour \<longleftrightarrow>
     (\<exists>x typed now head_entry. mem_objects m (SealKey (sk_Profile opts) tenant hour) = Some x \<and> mem_Head m (SealKey (sk_Profile opts) tenant hour) = Inr head_entry
        \<and> ParseSeal cd (o_Body x) = Inr typed \<and> hour_now decompress m (sk_Profile opts) tenant hour now
        \<and> seal_ok ec trust opts now tenant hour head_entry typed (body_of m (SealKey (sk_Profile opts) tenant (hour - hour_ns))))"

text \<open>An hour is in order: its seal stands, or it has none and none is due.\<close>

definition hour_fine :: "ecdsa \<Rightarrow> codec \<Rightarrow> (bytes \<Rightarrow> string + bytes) \<Rightarrow> memory \<Rightarrow> Trust \<Rightarrow> SealOptions \<Rightarrow> time \<Rightarrow> time \<Rightarrow> string \<Rightarrow> time \<Rightarrow> bool" where
  "hour_fine ec cd decompress m trust opts first due tenant hour \<longleftrightarrow>
     (if mem_objects m (SealKey (sk_Profile opts) tenant hour) = None then \<not> (first \<noteq> zero_time \<and> first \<le> hour \<and> hour \<le> due)
      else seal_stands ec cd decompress m trust opts tenant hour)"

lemma bad_seal_findings [simp]: "sr_Findings (bad_seal hour fs r) = sr_Findings r @ fs"
  by (simp add: bad_seal_def)

text \<open>The seals of a range that a walk found.\<close>

definition seals_found :: "memory \<Rightarrow> string \<Rightarrow> string \<Rightarrow> (time \<times> entry) list \<Rightarrow> time \<Rightarrow> time \<Rightarrow> bool" where
  "seals_found m p t found frm final \<longleftrightarrow>
     (\<forall>h. frm \<le> h \<longrightarrow> h \<le> final \<longrightarrow> Truncate_hour h = h \<longrightarrow>
        (case map_of found h of None \<Rightarrow> mem_objects m (SealKey p t h) = None | Some e \<Rightarrow> e_Key e = SealKey p t h \<and> mem_objects m (SealKey p t h) \<noteq> None))"

lemma check_hours_step:
  assumes "seals_found m p t found frm final" "frm \<le> hour" "hour \<le> final" "Truncate_hour hour = hour" "sk_Profile opts = p"
    and "hour_now decompress m p t hour now"
  shows "\<exists>r'. (sr_Findings r' = [] \<longleftrightarrow> sr_Findings r = [] \<and> hour_fine ec cd decompress m trust opts first due t hour) \<and>
    check_hours ec cd (mem_seals decompress m) trust opts t found first due final hour (body_of m (SealKey p t (hour - hour_ns))) r
    = check_hours ec cd (mem_seals decompress m) trust opts t found first due final (hour + hour_ns) (body_of m (SealKey p t hour)) r'"
proof (cases "mem_objects m (SealKey p t hour)")
  case None
  moreover from this assms(1-4) have "map_of found hour = None" unfolding seals_found_def by (cases "map_of found hour") fastforce+
  ultimately show ?thesis using assms(3,5)
    by (intro exI [of _ "if first \<noteq> zero_time \<and> first \<le> hour \<and> hour \<le> due then bad_seal hour [broken_at hour (SealKey p t hour) RuleSealMissing] r else r"] conjI)
      (simp_all add: check_hours.simps [of ec cd _ trust opts t found first due final hour] hour_fine_def body_of_def Let_def)
next
  case (Some x)
  with assms(1-4) obtain e where e: "map_of found hour = Some e" "e_Key e = SealKey p t hour"
    unfolding seals_found_def by (cases "map_of found hour") (fastforce+)
  obtain h where h: "mem_Head m (SealKey p t hour) = Inr h" using mem_read(2) [OF Some] by blast
  have comp: "compute_hour (mem_seals decompress m) p t hour False = Some (Inr now)" using assms(6) by (simp add: compute_hour_def  hour_now_def)
  obtain fs where fs: "check_one_seal ec cd trust opts (Some (Inr now)) t hour h (o_Body x) (body_of m (SealKey p t (hour - hour_ns))) = Some fs"
    "fs = [] \<longleftrightarrow> (\<exists>typed. ParseSeal cd (o_Body x) = Inr typed \<and> seal_ok ec trust opts now t hour h typed (body_of m (SealKey p t (hour - hour_ns))))"
    using check_one_clean by blast
  have fine: "hour_fine ec cd decompress m trust opts first due t hour \<longleftrightarrow> fs = []"
    using Some h assms(5,6) unfolding hour_fine_def seal_stands_def fs(2) by (auto simp: hour_now_def)
  let ?r = "r\<lparr>sr_Seals := Suc (sr_Seals r), sr_Hours := List.insert hour (sr_Hours r)\<rparr>"
  show ?thesis using assms(3,5) e h Some fine mem_read(3) [OF Some] comp fs(1)
    by (intro exI [of _ "if fs = [] then ?r\<lparr>sr_Clean := sr_Clean ?r @ [\<lparr>sc_Key = e_Key e, sc_Hour = hour, sc_Head = h\<rparr>]\<rparr> else bad_seal hour fs ?r"])
      (simp add: check_hours.simps [of ec cd _ trust opts t found first due final hour]  body_of_def Let_def)
qed

lemma check_hours_fine:
  assumes "seals_found m p t found frm final" "Truncate_hour hour = hour" "frm \<le> hour" "sk_Profile opts = p"
    and "\<And>h. hour \<le> h \<Longrightarrow> h \<le> final \<Longrightarrow> \<exists>now. hour_now decompress m p t h now"
  shows "\<exists>r'. check_hours ec cd (mem_seals decompress m) trust opts t found first due final hour (body_of m (SealKey p t (hour - hour_ns))) r = Some r'
    \<and> (sr_Findings r' = [] \<longleftrightarrow> sr_Findings r = []
        \<and> (\<forall>h. hour \<le> h \<longrightarrow> h \<le> final \<longrightarrow> Truncate_hour h = h \<longrightarrow> hour_fine ec cd decompress m trust opts first due t h))"
  using assms
proof (induction "nat (final + hour_ns - hour)" arbitrary: hour r rule: less_induct)
  case less
  show ?case
  proof (cases "final < hour")
    case True
    then show ?thesis by (simp add: check_hours.simps)
  next
    case False
    then obtain now where "hour_now decompress m p t hour now" using less.prems(5) [of hour] by auto
    then obtain r1 where r1: "sr_Findings r1 = [] \<longleftrightarrow> sr_Findings r = [] \<and> hour_fine ec cd decompress m trust opts first due t hour"
      "check_hours ec cd (mem_seals decompress m) trust opts t found first due final hour (body_of m (SealKey p t (hour - hour_ns))) r
       = check_hours ec cd (mem_seals decompress m) trust opts t found first due final (hour + hour_ns) (body_of m (SealKey p t hour)) r1"
      using check_hours_step [OF less.prems(1,3) _ less.prems(2,4)] False by (meson not_less)
    have pos: "hour_ns > 0" by (simp add: hour_ns_def)
    have next_h: "Truncate_hour (hour + hour_ns) = hour + hour_ns" using less.prems(2) Truncate_add_hour [of hour] by simp
    have after: "hour + hour_ns \<le> h" if "hour \<le> h" "h \<noteq> hour" "Truncate_hour h = h" for h
      using that hour_before_next [OF that(3), of hour] less.prems(2) by simp
    have "\<exists>r'. check_hours ec cd (mem_seals decompress m) trust opts t found first due final (hour + hour_ns)
          (body_of m (SealKey p t (hour + hour_ns - hour_ns))) r1 = Some r'
      \<and> (sr_Findings r' = [] \<longleftrightarrow> sr_Findings r1 = []
        \<and> (\<forall>h. hour + hour_ns \<le> h \<longrightarrow> h \<le> final \<longrightarrow> Truncate_hour h = h \<longrightarrow> hour_fine ec cd decompress m trust opts first due t h))"
      by (rule less.hyps) (use False pos less.prems next_h in auto)
    then obtain r' where r': "check_hours ec cd (mem_seals decompress m) trust opts t found first due final (hour + hour_ns) (body_of m (SealKey p t hour)) r1 = Some r'"
      "sr_Findings r' = [] \<longleftrightarrow> sr_Findings r1 = []
        \<and> (\<forall>h. hour + hour_ns \<le> h \<longrightarrow> h \<le> final \<longrightarrow> Truncate_hour h = h \<longrightarrow> hour_fine ec cd decompress m trust opts first due t h)"
      by auto
    have "(\<forall>h. hour \<le> h \<longrightarrow> h \<le> final \<longrightarrow> Truncate_hour h = h \<longrightarrow> hour_fine ec cd decompress m trust opts first due t h)
      \<longleftrightarrow> hour_fine ec cd decompress m trust opts first due t hour
        \<and> (\<forall>h. hour + hour_ns \<le> h \<longrightarrow> h \<le> final \<longrightarrow> Truncate_hour h = h \<longrightarrow> hour_fine ec cd decompress m trust opts first due t h)"
      using after pos less.prems(2) False by (smt (verit))
    then show ?thesis using r1 r' by auto
  qed
qed

section \<open>The walk over the seals\<close>

lemma each_collect: "each collect_seal es found = (None, rev (List.map_filter (\<lambda>e. map_option (\<lambda>so. (so_Hour so, e)) (ParseSealKey (e_Key e))) es) @ found)"
  by (induction es arbitrary: found) (auto simp: collect_seal_def List.map_filter_simps split: option.split)

lemma mem_objects_dom: "mem_objects m k \<noteq> None \<longleftrightarrow> k \<in> fst ` set (m_objects m)"
  by (simp add: mem_objects_def map_of_eq_None_iff del: not_None_eq)

lemma seal_key_hour:
  assumes "e \<in> set (mem_entries m)" "ParseSealKey (e_Key e) = Some so" "HasPrefix (e_Key e) (SealTenantPrefix p t)" "KeyComponent p = []" "KeyComponent t = []"
  shows "e_Key e = SealKey p t (so_Hour so)" "mem_objects m (SealKey p t (so_Hour so)) \<noteq> None" "Truncate_hour (so_Hour so) = so_Hour so" "written_year (so_Hour so)"
proof -
  have ns: "CHR ''/'' \<notin> set p" "CHR ''/'' \<notin> set t" using assms(4,5) by (auto simp: KeyComponent_def split: if_splits)
  from seal_under(1) [OF assms(2) ns] assms(3) have "so_Profile so = p" "so_Tenant so = t" by simp_all
  with assms(2) show k: "e_Key e = SealKey p t (so_Hour so)" "Truncate_hour (so_Hour so) = so_Hour so" "written_year (so_Hour so)"
    unfolding ParseSealKey_grammar by auto
  show "mem_objects m (SealKey p t (so_Hour so)) \<noteq> None" using assms(1) unfolding k(1) [symmetric] mem_objects_dom
    by (force simp: mem_entries_def)
qed

lemma SealKey_parses:
  assumes "KeyComponent p = []" "KeyComponent t = []" "Truncate_hour h = h" "written_year h"
  shows "ParseSealKey (SealKey p t h) = Some \<lparr>so_Profile = p, so_Tenant = t, so_Hour = h\<rparr>"
proof -
  have "CHR ''/'' \<notin> set p" "CHR ''/'' \<notin> set t" using assms(1,2) by (auto simp: KeyComponent_def split: if_splits)
  then show ?thesis using KeyComponent_nonempty [OF assms(1)] KeyComponent_nonempty [OF assms(2)] assms(3,4) unfolding ParseSealKey_grammar by simp
qed

lemma mem_entry_in: "mem_objects m k \<noteq> None \<Longrightarrow> mem_entry m k \<in> set (mem_entries m)"
  unfolding mem_objects_dom by (simp add: mem_entries_def)

lemma WalkSeals_found:
  assumes "mem_invar m" "KeyComponent p = []" "KeyComponent t = []" "Truncate_hour frm = frm" "Truncate_hour final = final" "frm \<le> final"
    and "written_year (frm - hour_ns)" "written_year (final + hour_ns)"
  shows "\<exists>found. WalkSeals (mem_List m) p t frm final collect_seal [] = Some (None, found) \<and> seals_found m p t found frm final
    \<and> (found = [] \<longrightarrow> (\<forall>h. frm \<le> h \<longrightarrow> h \<le> final \<longrightarrow> Truncate_hour h = h \<longrightarrow> mem_objects m (SealKey p t h) = None))"
proof -
  let ?es = "filter (\<lambda>e. HasPrefix (e_Key e) (SealTenantPrefix p t) \<and> SealKey p t (frm - hour_ns) < e_Key e \<and> e_Key e < SealKey p t (final + hour_ns)) (mem_entries m)"
  define found where "found = rev (List.map_filter (\<lambda>e. map_option (\<lambda>so. (so_Hour so, e)) (ParseSealKey (e_Key e))) ?es)"
  have "takeWhile (\<lambda>e. e_Key e < SealKey p t (final + hour_ns)) (filter (\<lambda>e. HasPrefix (e_Key e) (SealTenantPrefix p t) \<and> SealKey p t (frm - hour_ns) < e_Key e) (mem_entries m))
      = filter (\<lambda>e. e_Key e < SealKey p t (final + hour_ns)) (filter (\<lambda>e. HasPrefix (e_Key e) (SealTenantPrefix p t) \<and> SealKey p t (frm - hour_ns) < e_Key e) (mem_entries m))"
    using entries_sorted [OF assms(1)] by (intro takeWhile_sorted_filter sorted_wrt_filter)
  also have "\<dots> = ?es" by (auto intro: filter_cong)
  finally have walk: "WalkSeals (mem_List m) p t frm final collect_seal [] = Some (None, found)"
    using assms(4-6) by (simp add: WalkSeals_def Let_def mem.walk_loop_eq [OF assms(1)] each_collect found_def)
  have in_found: "(h, e) \<in> set found \<longleftrightarrow> e \<in> set ?es \<and> (\<exists>so. ParseSealKey (e_Key e) = Some so \<and> so_Hour so = h)" for h e
    by (force simp: found_def map_filter_def)
  have found_key: "e_Key e = SealKey p t h \<and> mem_objects m (SealKey p t h) \<noteq> None" if "(h, e) \<in> set found" for h e
    using that seal_key_hour [OF _ _ _ assms(2,3)] unfolding in_found by auto
  have complete: "(h, mem_entry m (SealKey p t h)) \<in> set found" if "frm \<le> h" "h \<le> final" "Truncate_hour h = h" "mem_objects m (SealKey p t h) \<noteq> None" for h
  proof -
    have yr: "Year (frm - hour_ns) \<le> Year h" "Year h \<le> Year (final + hour_ns)" using that by (auto intro!: Year_mono simp: hour_ns_def)
    then have w: "written_year h" using assms(7,8) by (simp add: written_year_def)
    have lo: "SealKey p t (frm - hour_ns) < SealKey p t h" using that assms(4) Truncate_add_hour [of "frm - hour_ns"] unfolding SealKey_less_iff [OF assms(7) w] by (simp add: hour_ns_def)
    have hi: "SealKey p t h < SealKey p t (final + hour_ns)" using that assms(5) Truncate_add_hour [of final] unfolding SealKey_less_iff [OF w assms(8)] by (simp add: hour_ns_def)
    have "HasPrefix (SealKey p t h) (SealTenantPrefix p t)" by (simp add: SealKey_def HasPrefix_def)
    then show ?thesis using SealKey_parses [OF assms(2,3) that(3) w] mem_entry_in [OF that(4)] lo hi unfolding in_found by auto
  qed
  have "seals_found m p t found frm final"
    unfolding seals_found_def
  proof (intro allI impI)
    fix h assume h: "frm \<le> h" "h \<le> final" "Truncate_hour h = h"
    show "case map_of found h of None \<Rightarrow> mem_objects m (SealKey p t h) = None | Some e \<Rightarrow> e_Key e = SealKey p t h \<and> mem_objects m (SealKey p t h) \<noteq> None"
    proof (cases "map_of found h")
      case None
      then have "h \<notin> fst ` set found" by (simp add: map_of_eq_None_iff)
      then have "mem_objects m (SealKey p t h) = None" using complete [OF h] by force
      then show ?thesis by (simp add: None)
    next
      case (Some e)
      then show ?thesis using found_key [OF map_of_SomeD [OF Some]] by simp
    qed
  qed
  moreover have "\<forall>h. frm \<le> h \<longrightarrow> h \<le> final \<longrightarrow> Truncate_hour h = h \<longrightarrow> mem_objects m (SealKey p t h) = None" if "found = []"
    using complete that by force
  ultimately show ?thesis using walk by blast
qed

section \<open>The whole check\<close>

definition seal_names :: "memory \<Rightarrow> SealOptions \<Rightarrow> string list" where
  "seal_names m opts = (case seal_tenants (mem_Prefixes m) (sk_Profile opts) of Inr names \<Rightarrow> names | Inl err \<Rightarrow> [])"

definition first_sealed :: "memory \<Rightarrow> SealOptions \<Rightarrow> string \<Rightarrow> time" where
  "first_sealed m opts t = first_hour (page_of (mem_entries m) (TenantPrefix (sk_Profile opts) t) [] 1)"

definition seals_due :: "SealOptions \<Rightarrow> time" where
  "seals_due opts = Truncate_hour (sk_Now opts - sk_Settle opts - sk_Grace opts) - hour_ns"

text \<open>A bucket whose tenants can be walked, over a range of years that are written with four digits.\<close>

definition seals_readable :: "memory \<Rightarrow> SealOptions \<Rightarrow> bool" where
  "seals_readable m opts \<longleftrightarrow> mem_invar m \<and> KeyComponent (sk_Profile opts) = [] \<and> Truncate_hour (sk_From opts) \<le> Truncate_hour (sk_To opts)
     \<and> 0 \<le> Year (Truncate_hour (sk_From opts) - hour_ns) \<and> Year (Truncate_hour (sk_To opts) + hour_ns) \<le> 9999
     \<and> list_all (\<lambda>t. KeyComponent t = []
          \<and> list_all (\<lambda>e. HasPrefix (e_Key e) (TenantPrefix (sk_Profile opts) t) \<longrightarrow> ParseRecordKey (e_Key e) \<noteq> None) (mem_entries m)) (seal_names m opts)"

text \<open>A tenant is in order: only seals lie under its seals, and every hour of the range is fine.\<close>

definition tenant_fine :: "ecdsa \<Rightarrow> codec \<Rightarrow> (bytes \<Rightarrow> string + bytes) \<Rightarrow> memory \<Rightarrow> Trust \<Rightarrow> SealOptions \<Rightarrow> string \<Rightarrow> bool" where
  "tenant_fine ec cd decompress m trust opts t \<longleftrightarrow>
     (\<forall>e \<in> set (mem_entries m). HasPrefix (e_Key e) (SealTenantPrefix (sk_Profile opts) t) \<longrightarrow> ParseSealKey (e_Key e) \<noteq> None)
     \<and> (\<forall>h. Truncate_hour (sk_From opts) \<le> h \<longrightarrow> h \<le> Truncate_hour (sk_To opts) \<longrightarrow> Truncate_hour h = h
          \<longrightarrow> hour_fine ec cd decompress m trust opts (first_sealed m opts t) (seals_due opts) t h)"

lemma stray_none:
  assumes "mem_invar m"
  shows "stray_seals (page_of (mem_entries m) pre [] 0) = [] \<longleftrightarrow> (\<forall>e \<in> set (mem_entries m). HasPrefix (e_Key e) pre \<longrightarrow> ParseSealKey (e_Key e) \<noteq> None)"
  using stored_entry(1) [OF assms]
  by (auto simp: stray_seals_def page_of_def filter_empty_conv order_less_le eq_commute [of "[]"])

lemma hour_now_exists:
  assumes "seals_readable m opts" "t \<in> set (seal_names m opts)" "Truncate_hour (sk_From opts) \<le> h" "h \<le> Truncate_hour (sk_To opts)"
  shows "\<exists>now. hour_now decompress m (sk_Profile opts) t h now"
proof -
  have le: "Truncate_hour (sk_From opts) \<le> Truncate_hour h" "Truncate_hour h \<le> Truncate_hour (sk_To opts)"
    using Truncate_hour_mono [OF assms(3)] Truncate_hour_mono [OF assms(4)] by simp_all
  have "Year (Truncate_hour (sk_From opts) - hour_ns) \<le> Year (Truncate_hour h)" "Year (Truncate_hour h + hour_ns) \<le> Year (Truncate_hour (sk_To opts) + hour_ns)"
    using le by (auto intro!: Year_mono simp: hour_ns_def)
  then have "readable_hour m (sk_Profile opts) t h"
    using assms(1,2) by (auto simp: seals_readable_def readable_hour_def list_all_iff)
  from Compute_returns [OF this] show ?thesis by (simp add: hour_now_def)
qed

lemma check_tenant_fine:
  assumes "seals_readable m opts" "t \<in> set (seal_names m opts)"
  shows "\<exists>r'. check_tenant ec cd (mem_seals decompress m) trust opts (Truncate_hour (sk_From opts)) (Truncate_hour (sk_To opts)) (seals_due opts) t r = Some (Inr r')
    \<and> (sr_Findings r' = [] \<longleftrightarrow> sr_Findings r = [] \<and> tenant_fine ec cd decompress m trust opts t)"
proof -
  let ?p = "sk_Profile opts" and ?frm = "Truncate_hour (sk_From opts)" and ?final = "Truncate_hour (sk_To opts)"
  have a: "mem_invar m" "KeyComponent ?p = []" "KeyComponent t = []" "?frm \<le> ?final" using assms by (auto simp: seals_readable_def list_all_iff)
  have "Year (?frm - hour_ns) \<le> Year (?final + hour_ns)" using a(4) by (intro Year_mono) (simp add: hour_ns_def)
  then have "written_year (?frm - hour_ns)" "written_year (?final + hour_ns)" using assms(1) by (auto simp: seals_readable_def written_year_def)
  from WalkSeals_found [OF a(1-3) _ _ a(4) this] obtain found where
    found: "WalkSeals (mem_List m) ?p t ?frm ?final collect_seal [] = Some (None, found)" "seals_found m ?p t found ?frm ?final"
    "found = [] \<Longrightarrow> (\<forall>h. ?frm \<le> h \<longrightarrow> h \<le> ?final \<longrightarrow> Truncate_hour h = h \<longrightarrow> mem_objects m (SealKey ?p t h) = None)"
    by auto
  define r1 where "r1 = r\<lparr>sr_Findings := sr_Findings r @ stray_seals (page_of (mem_entries m) (SealTenantPrefix ?p t) [] 0)\<rparr>"
  have r1: "sr_Findings r1 = [] \<longleftrightarrow> sr_Findings r = []
      \<and> (\<forall>e \<in> set (mem_entries m). HasPrefix (e_Key e) (SealTenantPrefix ?p t) \<longrightarrow> ParseSealKey (e_Key e) \<noteq> None)"
    using stray_none [OF a(1)] by (simp add: r1_def)
  let ?prev = "body_of m (SealKey ?p t (?frm - hour_ns))"
  have prev: "(case body_at m (SealKey ?p t (?frm - hour_ns)) of Inl (ErrNotFound _) \<Rightarrow> map_option Inr (g None) | Inl err \<Rightarrow> Some (Inl err) | Inr b \<Rightarrow> map_option Inr (g (Some b)))
      = map_option Inr (g ?prev)" for g :: "bytes option \<Rightarrow> SealReport option"
    by (cases "map_of (m_objects m) (SealKey ?p t (?frm - hour_ns))") (auto simp: body_of_def mem_objects_def body_at_def mem_Get_def Let_def)
  show ?thesis
  proof (cases "found = [] \<and> first_sealed m opts t = zero_time")
    case True
    then have "check_tenant ec cd (mem_seals decompress m) trust opts ?frm ?final (seals_due opts) t r = Some (Inr r1)"
      using found(1) by (simp add: check_tenant_def mem_list_ok first_sealed_def r1_def Let_def)
    moreover have "tenant_fine ec cd decompress m trust opts t
        \<longleftrightarrow> (\<forall>e \<in> set (mem_entries m). HasPrefix (e_Key e) (SealTenantPrefix ?p t) \<longrightarrow> ParseSealKey (e_Key e) \<noteq> None)"
      using found(3) True by (simp add: tenant_fine_def hour_fine_def)
    ultimately show ?thesis using r1 by simp
  next
    case False
    from check_hours_fine [OF found(2) _ _ refl, of ?frm decompress] hour_now_exists [OF assms]
    obtain r' where r': "check_hours ec cd (mem_seals decompress m) trust opts t found (first_sealed m opts t) (seals_due opts) ?final ?frm ?prev r1 = Some r'"
      "sr_Findings r' = [] \<longleftrightarrow> sr_Findings r1 = []
        \<and> (\<forall>h. ?frm \<le> h \<longrightarrow> h \<le> ?final \<longrightarrow> Truncate_hour h = h \<longrightarrow> hour_fine ec cd decompress m trust opts (first_sealed m opts t) (seals_due opts) t h)"
      by (metis Truncate_hour_idem order_refl)
    let ?run = "check_tenant ec cd (mem_seals decompress m) trust opts ?frm ?final (seals_due opts) t r"
    let ?go = "\<lambda>b. check_hours ec cd (mem_seals decompress m) trust opts t found (first_sealed m opts t) (seals_due opts) ?final ?frm b r1"
    have "?run = map_option Inr (?go ?prev)"
    proof -
      have "?run = (case body_at m (SealKey ?p t (?frm - hour_ns)) of Inl (ErrNotFound _) \<Rightarrow> map_option Inr (?go None) | Inl err \<Rightarrow> Some (Inl err)
          | Inr b \<Rightarrow> map_option Inr (?go (Some b)))"
        unfolding check_tenant_def mem_seals_simps mem_list_ok sum.case found(1) option.case prod.case Let_def
        using False by (simp only: first_sealed_def [symmetric] r1_def [symmetric] if_False)
      also have "\<dots> = map_option Inr (?go ?prev)" by (rule prev)
      finally show ?thesis .
    qed
    then show ?thesis using r' r1 by (auto simp: tenant_fine_def)
  qed
qed

lemma check_tenants_fine:
  assumes "\<And>t r. t \<in> set ts \<Longrightarrow> \<exists>r'. one t r = Some (Inr r') \<and> (sr_Findings r' = [] \<longleftrightarrow> sr_Findings r = [] \<and> P t)"
  shows "\<exists>r'. check_tenants one ts r = Some (Inr r') \<and> (sr_Findings r' = [] \<longleftrightarrow> sr_Findings r = [] \<and> (\<forall>t \<in> set ts. P t))"
  using assms
proof (induction ts arbitrary: r)
  case (Cons t ts)
  from Cons.prems [of t r] obtain r1 where r1: "one t r = Some (Inr r1)" "sr_Findings r1 = [] \<longleftrightarrow> sr_Findings r = [] \<and> P t" by auto
  from Cons.IH [of r1] Cons.prems obtain r' where "check_tenants one ts r1 = Some (Inr r')" "sr_Findings r' = [] \<longleftrightarrow> sr_Findings r1 = [] \<and> (\<forall>t \<in> set ts. P t)" by auto
  with r1 show ?case by auto
qed simp

lemma add_statements_returns:
  "(\<And>e. e \<in> set es \<Longrightarrow> \<exists>b. get (e_Key e) = Inr b) \<Longrightarrow> \<exists>t'. add_statements get add es t = Inr t'"
proof (induction es arbitrary: t)
  case (Cons e es)
  from Cons.prems [of e] obtain b where "get (e_Key e) = Inr b" by auto
  with Cons.IH Cons.prems show ?case by auto
qed simp

lemma LoadTrust_returns:
  assumes "mem_invar m" "pins \<noteq> []"
  shows "\<exists>t. LoadTrust ec cd (mem_List m) (body_at m) pins = Inr t"
proof -
  have "\<exists>t. load_roots (body_at m) (empty_trust pins) = Inr t"
    by (simp add: load_roots_def body_at_def mem_Get_def Let_def split: option.split sum.split)
  then obtain t1 where t1: "load_roots (body_at m) (empty_trust pins) = Inr t1" by blast
  have listed: "\<exists>b. body_at m (e_Key e) = Inr b" if "e \<in> set (page_of (mem_entries m) pre [] 0)" for e pre
    using that stored_entry(3) [OF assms(1)] by (auto simp: page_of_def)
  obtain t2 where t2: "add_statements (body_at m) (addDelegation ec cd) (page_of (mem_entries m) DelegationsPrefix [] 0) t1 = Inr t2"
    using add_statements_returns [of "page_of (mem_entries m) DelegationsPrefix [] 0" "body_at m"] listed by blast
  obtain t3 where "add_statements (body_at m) (addRevocation ec cd) (page_of (mem_entries m) RevocationsPrefix [] 0) t2 = Inr t3"
    using add_statements_returns [of "page_of (mem_entries m) RevocationsPrefix [] 0" "body_at m"] listed by blast
  then show ?thesis using assms(2) t1 t2 by (simp add: LoadTrust_def mem_list_ok)
qed

lemma mem_seal_tenants: "seal_tenants (mem_Prefixes m) (sk_Profile opts) = Inr (seal_names m opts)"
  by (simp add: seal_names_def seal_tenants_def mem_Prefixes_def Let_def)

section \<open>Properties\<close>

text \<open>
  C0: Over a bucket that can be walked the check of the seals always returns a report, and it has no finding exactly when every statement
  under \<open>keys/\<close> that carries a pinned root's name is believed, nothing but seals lies under the seals of a tenant, and for every
  tenant and every hour of the range: the seal of the hour is in the bucket, names its profile, tenant and hour, was made after the hour had
  ended, is signed by a key to be believed, chains to the seal of the hour before or, where there is none, to nothing, states
  the count, the first and last key and the root of what the hour holds now, and is kept as long as the records; or there is no
  seal and none is due.
\<close>

theorem seals_check_decides:
  assumes "seals_readable m opts" "sk_Roots opts \<noteq> []"
  shows "\<exists>trust r. LoadTrust ec cd (mem_List m) (body_at m) (sk_Roots opts) = Inr trust
    \<and> CheckSeals ec cd (mem_seals decompress m) opts = Some (Inr r)
    \<and> (sr_Findings r = [] \<longleftrightarrow> tr_Ignored trust = [] \<and> (\<forall>t \<in> set (seal_names m opts). tenant_fine ec cd decompress m trust opts t))"
proof -
  have "mem_invar m" using assms(1) by (simp add: seals_readable_def)
  from LoadTrust_returns [OF this assms(2)] obtain trust where trust: "LoadTrust ec cd (mem_List m) (body_at m) (sk_Roots opts) = Inr trust" by blast
  let ?r = "empty_seals\<lparr>sr_Findings := map (\<lambda>(k, _). broken (if k = RootsKey then RuleKeysRoots else RuleKeysStatement) k) (tr_Ignored trust)\<rparr>"
  let ?one = "check_tenant ec cd (mem_seals decompress m) trust opts (Truncate_hour (sk_From opts)) (Truncate_hour (sk_To opts)) (seals_due opts)"
  obtain r :: SealReport where r: "check_tenants ?one (seal_names m opts) ?r = Some (Inr r)"
    "sr_Findings r = [] \<longleftrightarrow> sr_Findings ?r = [] \<and> (\<forall>t \<in> set (seal_names m opts). tenant_fine ec cd decompress m trust opts t)"
    using check_tenants_fine [of "seal_names m opts" ?one "tenant_fine ec cd decompress m trust opts" ?r, OF check_tenant_fine [OF assms(1)]] by blast
  have "CheckSeals ec cd (mem_seals decompress m) opts = Some (Inr r)"
    unfolding CheckSeals_def mem_seals_simps trust sum.case mem_seal_tenants Let_def seals_due_def [symmetric] r(1) using assms(2) by simp
  then show ?thesis using trust r(2) by auto
qed

section \<open>What a verified archive holds\<close>

lemma take_lines_verified:
  assumes "list_all (\<lambda>l. Line_Verify l = None) ls"
  shows "hr_Problems (take_lines True k n ls h) = hr_Problems h"
  using assms
proof (induction ls arbitrary: n h)
  case (Cons l ls)
  then have "Line_Verify l = None" by simp
  then obtain c where "Hash c = l_Hash l" by (auto simp: Line_Verify_def split: sum.splits if_splits)
  then have "l_Hash l = Hash c" by simp
  moreover have "length (sha256 c) = 32" by simp
  ultimately show ?case using Cons by (simp add: hex_DecodeString_Hash)
qed simp

text \<open>Objects that conform are read strictly without a problem.\<close>

lemma conforming_hour_clean:
  assumes "readable_hour m p t hour" "\<And>e. e \<in> set (hour_objects m p t hour) \<Longrightarrow> conforms decompress decoded m p t (e_Key e)"
    and "Compute (mem_List m) (mem_Head m) (body_at m) decompress p t hour True = Some (Inr h)"
  shows "hr_Problems h = []"
proof -
  have each_ok: "each (take_object (mem_Head m) (body_at m) decompress p t (Truncate_hour hour) True) es g = (None, g') \<Longrightarrow> set es \<subseteq> set (hour_objects m p t hour)
      \<Longrightarrow> hr_Problems g' = hr_Problems g" for es g g'
  proof (induction es arbitrary: g)
    case (Cons e es)
    then have e: "e \<in> set (hour_objects m p t hour)" by simp
    from assms(2) [OF this] obtain parsed x ls where x: "ParseRecordKey (e_Key e) = Some parsed" "ro_Profile parsed = p" "ro_Tenant parsed = t"
      "mem_objects m (e_Key e) = Some x" "Decode decompress (o_Body x) = Inr ls" "CheckMetadata (o_Metadata x) (o_Body x) (length ls) = []"
      "list_all (line_placed decoded p t) ls" by (auto simp: conforms_def)
    have hour_eq: "ro_Hour parsed = Truncate_hour hour"
      using e x(1) ParseRecordKey_sound(7) [OF x(1)] by (auto simp: hour_objects_def in_hours_def)
    from mem_read(2) [OF x(4)] obtain hd_e where hd_e: "mem_Head m (e_Key e) = Inr hd_e" "e_Metadata hd_e = Some (o_Metadata x)" by blast
    have "list_all (\<lambda>l. Line_Verify l = None) ls" using x(7) by (auto simp: list_all_iff line_placed_def)
    note v = take_lines_verified [OF this]
    obtain g1 where g1: "take_object (mem_Head m) (body_at m) decompress p t (Truncate_hour hour) True e g = (None, g1)" "hr_Problems g1 = hr_Problems g"
      using x hd_e mem_read(3) [OF x(4)] hour_eq by (simp add: take_object_def Let_def v)
    then show ?case using Cons by simp
  qed simp
  obtain g where "each (take_object (mem_Head m) (body_at m) decompress p t (Truncate_hour hour) True) (hour_objects m p t hour) empty_hour = (None, g)"
    "h = g\<lparr>hr_Root := Root (hr_Leaves g)\<rparr>"
    using assms(3) by (auto simp: Compute_memory [OF assms(1)] split: prod.splits option.splits)
  with each_ok show ?thesis by (fastforce simp: empty_hour_def)
qed

section \<open>An hour that is not sealed\<close>

definition example_seal_options :: SealOptions where
  "example_seal_options = \<lparr>sk_Profile = ''p'', sk_Roots = [''r''], sk_From = 0, sk_To = 0, sk_Now = 10 * hour_ns, sk_Settle = 0, sk_Grace = 0, sk_Lock = []\<rparr>"

lemma example_seal_names: "seal_names example_hour example_seal_options = [''t'']"
proof -
  have "map fst (m_objects example_hour) = [RecordKey ''p'' ''t'' 0 (From 0 3)]" by (simp add: example_hour_def Let_def)
  then show ?thesis
    by (simp add: seal_names_def seal_tenants_def example_seal_options_def mem_Prefixes_def Let_def map_filter_def CutPrefix_def HasPrefix_def RecordsPrefix_def
        ProfilePrefix_def TrimPrefix_def TrimSuffix_def CutSuffix_def HasSuffix_def RecordKey_def HourPrefix_def TenantPrefix_def SealsPrefix_def)
qed

theorem seals_check_decides_witness:
  "\<exists>r. CheckSeals example_ecdsa example_codec (mem_seals Inr example_hour) example_seal_options = Some (Inr r) \<and> sr_Findings r \<noteq> []"
proof -
  let ?k = "RecordKey ''p'' ''t'' 0 (From 0 3)"
  have zero: "Truncate_hour 0 = 0" by (simp add: Truncate_hour_def)
  have "0 \<le> Year (Truncate_hour (sk_From example_seal_options) - hour_ns)" "Year (Truncate_hour (sk_To example_seal_options) + hour_ns) \<le> 9999" by code_simp+
  then have readable: "seals_readable example_hour example_seal_options"
    using example_readable example_seal_names
    by (simp add: seals_readable_def readable_hour_def) (simp add: example_seal_options_def)
  have entries: "mem_entries example_hour = [mem_entry example_hour ?k]" by (simp add: mem_entries_def example_hour_def Let_def)
  have "[] < ?k" by (simp add: RecordKey_def HourPrefix_def TenantPrefix_def ProfilePrefix_def RecordsPrefix_def)
  moreover have "HasPrefix ?k (TenantPrefix ''p'' ''t'')" by (simp add: RecordKey_def HourPrefix_def HasPrefix_def)
  ultimately have first: "first_sealed example_hour example_seal_options ''t'' = 0"
    by (simp add: first_sealed_def first_hour_def page_of_def entries example_key example_seal_options_def)
  have none: "mem_objects example_hour (SealKey ''p'' ''t'' 0) = None"
    by (simp add: mem_objects_def example_hour_def Let_def SealKey_def SealTenantPrefix_def SealsPrefix_def RecordKey_def HourPrefix_def TenantPrefix_def ProfilePrefix_def RecordsPrefix_def)
  have due: "0 \<le> seals_due example_seal_options" "(0::int) \<noteq> zero_time" by code_simp+
  have "\<not> tenant_fine example_ecdsa example_codec Inr example_hour trust example_seal_options ''t''" for trust
    unfolding tenant_fine_def hour_fine_def first using none due zero by (auto simp: example_seal_options_def intro!: exI [of _ 0])
  moreover have "sk_Roots example_seal_options \<noteq> []" by (simp add: example_seal_options_def)
  ultimately show ?thesis using seals_check_decides [OF readable, of example_ecdsa example_codec Inr] unfolding example_seal_names by fastforce
qed

end
