(* ===== verification/Spec2Isabelle.thy ===== *)
theory Spec2Isabelle
  imports Merkle Bounds Recread Durable Counts Query Hold Sealcheck
begin

text \<open>
  A verification development of the audit archive. Applications emit records of what was done; a writer
  checks each record against the catalogue of its source, stamps it, splits it into one copy for each
  profile that keeps its action, gathers the copies and puts them as objects into a store whose objects
  are locked; each hour of objects is sealed under a Merkle root. The theories below follow the packages
  of the Go sources, and the definitions keep the names of the functions they model.

  \<^bold>\<open>Foundations.\<close> \<open>Audit_Prelude\<close> has byte strings, prefixes, splitting and padding, and the lemmas the
  components share. \<open>Gotime\<close> models package \<open>time\<close> as nanoseconds since 1970 with the civil calendar,
  \<open>Rfc3339\<close> its parsing and printing, \<open>Utf8\<close> package \<open>unicode/utf8\<close>, \<open>Sha256\<close> the hash, \<open>Json\<close> the reader of
  \<open>encoding/json\<close>. A clock is a function from the number of a reading to a time, and the state counts its
  readings, so nothing is assumed of how it runs.

  \<^bold>\<open>Merkle tree\<close> (\<open>internal/merkle\<close>), theory \<open>Merkle\<close>: roots, inclusion proofs and their verification. Every
  leaf has a proof that is accepted; what is accepted is the leaf at that index, and two lists with one root
  are equal, unless two of the strings that were hashed collide.

  \<^bold>\<open>Identifiers\<close> (\<open>internal/ulid\<close>), theory \<open>Ulid\<close>: over any sequence of calls, identifiers increase strictly.
  Numbers are 64-bit words and bytes 8-bit words.

  \<^bold>\<open>Store and layout\<close> (\<open>store\<close>), theories \<open>Store\<close> and \<open>Layout\<close>: the interface of the object store is the locale
  \<open>object_store\<close>, with what a put, an extension of a lock, a read and a listing promise; a put that fails may
  still have changed the store. The store in memory of \<open>store/storetest\<close> is its implementation (interpretation
  \<open>mem\<close>). The layout reads a key exactly when it would build it; walks over hours visit every object once, in
  order, over any number of pages; the loop over pages is a \<open>partial_function\<close> over options, and it is shown that
  it returns.

  \<^bold>\<open>Presets and profiles\<close> (\<open>preset\<close>), theory \<open>Preset\<close>: a profile composed from presets is at least as strict as
  each of them, and keeps a field only if a preset names it. The locale \<open>requirement\<close> states what it is to be the
  stricter of two, and is interpreted for retention, integrity, review, pipeline and identity treatment.

  \<^bold>\<open>Records\<close> (\<open>sdk/record\<close>), theories \<open>Auditrecord\<close>, \<open>Check\<close>, \<open>Bounds\<close>, \<open>Canonical\<close>: the message as a record,
  stamping and the origin hash, what \<open>Check\<close> accepts, what \<open>Normalise\<close> cuts, canonical JSON. The mapping of the
  protobuf library between a record and JSON is an argument (\<open>canonical\<close>), as is \<open>uuid.Parse\<close>. The canonical form is
  its own canonical form and determines the value it was made of.

  \<^bold>\<open>Catalogues\<close> (\<open>sdk/catalogue\<close>), theories \<open>Message\<close> and \<open>Catalogue\<close>: loading and checking a catalogue, composing an
  action, validating a record, expiry and extension. The YAML reader, the JSON-schema compiler and the
  meta-schemas are arguments.

  \<^bold>\<open>Record objects\<close> (\<open>internal/recobj\<close>), theories \<open>Recobj\<close> and \<open>Recread\<close>: an object of lines reads back as the records
  it was made of, and each line verifies. zstd is an argument.

  \<^bold>\<open>The writer\<close> (\<open>internal/writer\<close>). \<open>Dedupe\<close>: the table of what was written, interface \<open>dedupe\<close>, interpreted on the
  table in memory. \<open>Roller\<close>: gathering copies into objects; a run is a sequence of steps in between which other
  writers may change the store, and no copy that was added is lost. \<open>Splitter\<close> and \<open>Copies\<close>: a copy has only the
  fields its profile keeps, and identities as its profile treats them. \<open>Archive\<close>: the catalogues and schemas kept
  beside the records, and the guards at start. \<open>Deadletter\<close>: where a record that cannot be processed goes.
  \<open>Writer\<close> composes them: \<open>Write\<close> over a batch, \<open>one\<close> over a record, addenda, and the records of itself that the
  writer hands to its emitter. \<open>Durable\<close> proves of it, from the locale \<open>writer_parts\<close> (a store and a table), that
  over any run, with batches that fail at any point, what was accepted is in the archive; that a batch that
  fails marks nothing; that addenda only lengthen locks, of their own tenant. The record \<open>parts\<close> holds what the
  writer is linked with; the texts of error messages are part of it, so a dead letter's reason is any text.

  \<^bold>\<open>Seals\<close> (\<open>internal/seal\<close>), theory \<open>Sealhour\<close>: what an hour of the archive holds, as a seal states it. The computation
  returns; its root binds the records of the hour, in their order, and notary and verifier compute the same hour.

  \<^bold>\<open>Legal holds\<close> (\<open>internal/hold\<close>), theory \<open>Hold\<close>: a hold is two objects and a flag on every object under its prefix.
  The locale \<open>holding_store\<close> adds to a store what setting a flag promises (interpretation \<open>mem_holds\<close>). Placing ends and
  holds everything under the prefix; the writer's view has the holds that are on; releasing one hold clears what another
  still covers. \<open>Gojson\<close> has the structs of \<open>encoding/json\<close> that the records of holds are written as, and their round trip.

  \<^bold>\<open>Reading.\<close> \<open>Auth\<close> (\<open>sdk/auth\<close>): grants, the rules that give them, and the effective grant of a caller, which lets
  them see what one of their grants does when the grants carry one window. \<open>Search\<close> (\<open>index\<close>): rows, the closed
  query and the index in memory, which defines what a query means. \<open>Paging\<close>: the orderings are strict and total,
  and following the boundary of each page, as an export does, ends and reads every matching row once. \<open>Counts\<close>: the
  counts of the index are those of its rows, over any sequence of deliveries. \<open>Compile\<close>, \<open>Cursor\<close> and \<open>Query\<close>
  (\<open>internal/query\<close>): a request becomes a closed query that means what the filter says, where its operators are
  translated; a cursor is read back as the boundary it was made of, and only under the fingerprint of its query
  (\<open>Timetext\<close> has the round trip of the times in it); the service answers with what the grants of the caller
  cover, and hands a record of each answer to its emitter. The searcher is the locale \<open>searcher\<close>, interpreted on the
  index in memory. The contract of a request is that of \<open>proto/audit/v1/query.proto\<close>.

  \<^bold>\<open>Time and fuel.\<close> All functions are total. Loops whose length is not that of a list are recursions with a
  measure (scanning text, trimming), or the option recursion of the walks, of the sweep of a hold and of the pages of
  an export, which are shown to return; no fuel is used.

  \<^bold>\<open>Not modelled.\<close> Clients of services (S3, PostgreSQL, DynamoDB, NATS, SQS, key services), the HTTP and RPC
  servers, authentication by tokens, commands, flags and configuration files, telemetry, deployment
  descriptions and generated code: they are input and output over libraries that are not in the sources. The
  goroutines of the emitter and of the sinks are not modelled either. The signatures of seals,
  the jobs of exports, the observer and the registry are pure enough to model and are left for a later extension.
\<close>

end
